(* ===== verification/Prelude.thy ===== *)
theory Prelude
  imports Main
    "HOL-Library.AList"
    "HOL-Library.Char_ord"
    "HOL-Library.List_Lexorder"
    "HOL-Library.Product_Lexorder"
begin

text \<open>
  Vocabulary shared by every component: how the development reads the values of the
  TypeScript sources in HOL, and the generic lemmas about them.

  \<^item> A number that the code uses as a slot, court, version or count is an \<open>int\<close> (they are
    integers far below the range where a double rounds). Where the code writes
    \<open>Infinity\<close> or \<open>-Infinity\<close> beside such numbers, the value is a \<open>jsnum\<close>.
  \<^item> \<open>undefined\<close> and \<open>null\<close> are \<open>None\<close>; the operator \<open>??\<close> is \<open>or_else\<close> (the
    right operand is a plain value) or \<open>or_opt\<close> (it may itself be missing).
  \<^item> An object used as a dictionary (\<open>Record<string, T>\<close>) and a \<open>Map\<close> are association
    lists with the library's \<open>AList.update\<close> and \<open>AList.delete\<close>: an update in place
    keeps the position of an existing key and appends a new one, which is the iteration order
    of a JavaScript \<open>Map\<close> and of an object with non-numeric keys.
  \<^item> \<open>Array.prototype.sort\<close> is stable, and so is \<open>sort_key\<close>.
\<close>

named_theorems jsdict \<open>laws of dictionaries, grouping and lookup\<close>
named_theorems jsorder \<open>laws of the extended numbers\<close>

section \<open>Missing values\<close>

fun or_else :: "'a option \<Rightarrow> 'a \<Rightarrow> 'a" where
  "or_else None d = d"
| "or_else (Some x) d = x"

fun or_opt :: "'a option \<Rightarrow> 'a option \<Rightarrow> 'a option" where
  "or_opt None b = b"
| "or_opt (Some x) b = Some x"

lemma or_opt_None_right [simp]: "or_opt a None = a"
  by (cases a) simp_all

lemma or_else_or_opt [simp]: "or_else (or_opt a b) d = or_else a (or_else b d)"
  by (cases a) simp_all

lemma or_opt_assoc: "or_opt (or_opt a b) c = or_opt a (or_opt b c)"
  by (cases a) simp_all

section \<open>Integers with both infinities\<close>

datatype jsnum = NegInf | Num int | PosInf

instantiation jsnum :: linorder
begin

fun less_eq_jsnum :: "jsnum \<Rightarrow> jsnum \<Rightarrow> bool" where
  "less_eq_jsnum NegInf y = True"
| "less_eq_jsnum (Num a) NegInf = False"
| "less_eq_jsnum (Num a) (Num b) = (a \<le> b)"
| "less_eq_jsnum (Num a) PosInf = True"
| "less_eq_jsnum PosInf NegInf = False"
| "less_eq_jsnum PosInf (Num b) = False"
| "less_eq_jsnum PosInf PosInf = True"

definition less_jsnum :: "jsnum \<Rightarrow> jsnum \<Rightarrow> bool" where
  "less_jsnum x y \<longleftrightarrow> x \<le> y \<and> \<not> y \<le> x"

instance
proof
  fix x y z :: jsnum
  show "(x < y) = (x \<le> y \<and> \<not> y \<le> x)" by (rule less_jsnum_def)
  show "x \<le> x" by (cases x) simp_all
  show "x \<le> y \<Longrightarrow> y \<le> z \<Longrightarrow> x \<le> z" by (cases x; cases y; cases z) simp_all
  show "x \<le> y \<Longrightarrow> y \<le> x \<Longrightarrow> x = y" by (cases x; cases y) simp_all
  show "x \<le> y \<or> y \<le> x" by (cases x; cases y) auto
qed

end

lemma less_jsnum_simps [simp]:
  "Num a < Num b \<longleftrightarrow> a < b" "NegInf < Num b" "NegInf < PosInf" "Num a < PosInf"
  "\<not> PosInf < x" "\<not> x < NegInf" "\<not> Num a < NegInf" "\<not> PosInf < Num b"
  by (cases x; auto simp: less_jsnum_def)+

lemma le_NegInf [simp]: "x \<le> NegInf \<longleftrightarrow> x = NegInf"
  by (cases x) simp_all

lemma max_Num [simp]: "max (Num a) (Num b) = Num (max a b)" "max NegInf x = x"
  by (simp_all add: max_def)

fun slot_or_inf :: "int option \<Rightarrow> jsnum" where
  "slot_or_inf None = PosInf"
| "slot_or_inf (Some s) = Num s"

lemma slot_or_inf_inject [simp]: "slot_or_inf a = slot_or_inf b \<longleftrightarrow> a = b"
  by (cases a; cases b) simp_all

section \<open>Dictionaries\<close>

type_synonym ('k, 'v) dict = "('k \<times> 'v) list"

text \<open>The interface every keyed table of the program offers: lookup, insert, remove.\<close>

locale keyed_table =
  fixes get :: "'t \<Rightarrow> 'k \<Rightarrow> 'v option"
    and put :: "'k \<Rightarrow> 'v \<Rightarrow> 't \<Rightarrow> 't"
    and drop_key :: "'k \<Rightarrow> 't \<Rightarrow> 't"
  assumes get_put: "get (put k v t) = (get t)(k \<mapsto> v)"
    and get_drop: "get (drop_key k t) = (get t)(k := None)"
begin

lemma get_put_same: "get (put k v t) k = Some v"
  by (simp add: get_put)

lemma get_put_other: "j \<noteq> k \<Longrightarrow> get (put k v t) j = get t j"
  by (simp add: get_put)

lemma get_drop_same: "get (drop_key k t) k = None"
  by (simp add: get_drop)

lemma get_drop_other: "j \<noteq> k \<Longrightarrow> get (drop_key k t) j = get t j"
  by (simp add: get_drop)

lemma get_put_put: "get (put k w (put k v t)) = get (put k w t)"
  by (simp add: get_put)

lemma get_put_comm: "j \<noteq> k \<Longrightarrow> get (put j w (put k v t)) = get (put k v (put j w t))"
  by (simp add: get_put fun_upd_twist)

lemma get_drop_put: "get (drop_key k (put k v t)) = get (drop_key k t)"
  by (simp add: get_put get_drop)

lemma get_fold_put:
  "get (fold (\<lambda>(k, v). put k v) kvs t) = get t ++ map_of (rev kvs)"
proof (induction kvs arbitrary: t)
  case Nil
  then show ?case by simp
next
  case (Cons p kvs)
  obtain k v where p: "p = (k, v)" by (cases p)
  have "(get t)(k \<mapsto> v) ++ map_of (rev kvs) = get t ++ map_of (rev kvs @ [(k, v)])"
    by (simp add: map_add_def fun_eq_iff split: option.splits)
  then show ?case using Cons.IH[of "put k v t"] by (simp only: p get_put fold_simps comp_apply
      prod.case rev.simps)
qed

end

interpretation dict: keyed_table "map_of" AList.update AList.delete
  by unfold_locales (simp_all add: update_conv' delete_conv')

lemma map_of_delete_simp [simp]: "map_of (AList.delete k d) j = (if j = k then None else map_of d j)"
  by (simp add: delete_conv')

lemma map_of_update_simp [simp]:
  "map_of (AList.update k v d) j = (if j = k then Some v else map_of d j)"
  by (simp add: update_conv')

lemma set_update_distinct:
  "distinct (map fst d) \<Longrightarrow>
   set (AList.update k v d) = insert (k, v) {p \<in> set d. fst p \<noteq> k}"
  by (induction d) (auto simp: image_iff)

text \<open>\<open>new Map(entries)\<close> and \<open>Object.fromEntries\<close>: later entries win, first position kept.\<close>

definition from_entries :: "('k \<times> 'v) list \<Rightarrow> ('k, 'v) dict" where
  "from_entries kvs = fold (\<lambda>(k, v). AList.update k v) kvs []"

lemma map_of_from_entries [jsdict]: "map_of (from_entries kvs) = map_of (rev kvs)"
  using dict.get_fold_put[of kvs "[]"] by (simp add: from_entries_def)

lemma map_of_rev_distinct: "distinct (map fst kvs) \<Longrightarrow> map_of (rev kvs) = map_of kvs"
proof (rule map_of_eqI)
  assume d: "distinct (map fst kvs)"
  then have "distinct (map fst (rev kvs))" by (simp add: rev_map[symmetric])
  then show "\<forall>k \<in> set (map fst (rev kvs)). map_of (rev kvs) k = map_of kvs k" using d by auto
qed simp

lemma map_of_from_entries_distinct [jsdict]:
  "distinct (map fst kvs) \<Longrightarrow> map_of (from_entries kvs) = map_of kvs"
  by (simp add: map_of_from_entries map_of_rev_distinct)

lemma update_new: "k \<notin> fst ` set d \<Longrightarrow> AList.update k v d = d @ [(k, v)]"
  by (induction d) auto

lemma from_entries_distinct:
  assumes "distinct (map fst kvs)"
  shows "from_entries kvs = kvs"
proof -
  have "distinct (map fst (d @ kvs)) \<Longrightarrow> fold (\<lambda>(k, v). AList.update k v) kvs d = d @ kvs" for d
    by (induction kvs arbitrary: d) (auto simp: update_new)
  then show ?thesis using assms by (simp add: from_entries_def)
qed

section \<open>Grouping by a key\<close>

text \<open>
  The loop \<open>const list = m.get(k) ?? []; list.push(x); m.set(k, list)\<close>, guarded by a
  \<open>continue\<close> that is \<open>None\<close> here.
\<close>

definition map_push :: "'k \<Rightarrow> 'v \<Rightarrow> ('k, 'v list) dict \<Rightarrow> ('k, 'v list) dict" where
  "map_push k x m = AList.update k (or_else (map_of m k) [] @ [x]) m"

definition group_step ::
  "('v \<Rightarrow> 'k option) \<Rightarrow> 'v \<Rightarrow> ('k, 'v list) dict \<Rightarrow> ('k, 'v list) dict" where
  "group_step key x m = (case key x of None \<Rightarrow> m | Some k \<Rightarrow> map_push k x m)"

definition group_by :: "('v \<Rightarrow> 'k option) \<Rightarrow> 'v list \<Rightarrow> ('k, 'v list) dict" where
  "group_by key xs = fold (group_step key) xs []"

lemma map_of_group_step:
  "map_of (group_step key x m) k =
     (if key x = Some k then Some (or_else (map_of m k) [] @ [x]) else map_of m k)"
  by (auto simp: group_step_def map_push_def split: option.splits)

lemma distinct_group_step:
  "distinct (map fst m) \<Longrightarrow> distinct (map fst (group_step key x m))"
  by (auto simp: group_step_def map_push_def distinct_update split: option.splits)

lemma group_fold_lookup:
  "map_of (fold (group_step key) xs m) k =
     (let l = filter (\<lambda>x. key x = Some k) xs
      in if l = [] then map_of m k else Some (or_else (map_of m k) [] @ l))"
  by (induction xs arbitrary: m) (auto simp: map_of_group_step Let_def)

lemma group_by_lookup [jsdict]:
  "map_of (group_by key xs) k =
     (let l = filter (\<lambda>x. key x = Some k) xs in if l = [] then None else Some l)"
  by (simp add: group_by_def group_fold_lookup Let_def)

lemma distinct_group_by [jsdict]: "distinct (map fst (group_by key xs))"
proof -
  have "distinct (map fst m) \<Longrightarrow> distinct (map fst (fold (group_step key) xs m))" for m
    by (induction xs arbitrary: m) (auto intro: distinct_group_step)
  then show ?thesis by (simp add: group_by_def)
qed

lemma group_by_mem [jsdict]:
  "(k, l) \<in> set (group_by key xs) \<longleftrightarrow> l = filter (\<lambda>x. key x = Some k) xs \<and> l \<noteq> []"
proof -
  have "(k, l) \<in> set (group_by key xs) \<longleftrightarrow> map_of (group_by key xs) k = Some l"
    by (simp add: map_of_eq_Some_iff distinct_group_by)
  then show ?thesis by (auto simp: group_by_lookup Let_def)
qed

lemma group_by_keys [jsdict]: "fst ` set (group_by key xs) = {k. \<exists>x \<in> set xs. key x = Some k}"
proof -
  have "k \<in> fst ` set (group_by key xs) \<longleftrightarrow> (\<exists>x \<in> set xs. key x = Some k)" for k
  proof -
    have "k \<in> fst ` set (group_by key xs) \<longleftrightarrow> (\<exists>l. (k, l) \<in> set (group_by key xs))" by force
    also have "\<dots> \<longleftrightarrow> filter (\<lambda>x. key x = Some k) xs \<noteq> []" by (simp add: group_by_mem)
    finally show ?thesis by (auto simp: filter_empty_conv)
  qed
  then show ?thesis by blast
qed

lemma group_by_mset_values:
  "k \<in> fst ` set (group_by key xs) \<longleftrightarrow> filter (\<lambda>x. key x = Some k) xs \<noteq> []"
  by (auto simp: group_by_keys filter_empty_conv)

section \<open>Text\<close>

text \<open>Decimal text of an integer, as a template literal prints it.\<close>

definition digit_char :: "nat \<Rightarrow> char" where
  "digit_char d = char_of (48 + d)"

fun nat_text :: "nat \<Rightarrow> string" where
  "nat_text n = (if n < 10 then [digit_char n] else nat_text (n div 10) @ [digit_char (n mod 10)])"

declare nat_text.simps [simp del]

definition int_text :: "int \<Rightarrow> string" where
  "int_text i = (if i < 0 then ''-'' @ nat_text (nat (- i)) else nat_text (nat i))"

fun join_with :: "string \<Rightarrow> string list \<Rightarrow> string" where
  "join_with sep [] = []"
| "join_with sep [x] = x"
| "join_with sep (x # y # xs) = x @ sep @ join_with sep (y # xs)"

lemma digit_char_inject:
  assumes "a < 10" "b < 10" "digit_char a = digit_char b"
  shows "a = b"
proof -
  have "(of_char (digit_char a) :: nat) = of_char (digit_char b)" using assms(3) by simp
  then show ?thesis using assms(1,2) by (simp add: digit_char_def)
qed

lemma nat_text_nonempty [simp]: "nat_text n \<noteq> []"
  by (subst nat_text.simps) simp

lemma nat_text_small: "n < 10 \<Longrightarrow> nat_text n = [digit_char n]"
  by (subst nat_text.simps) simp

lemma nat_text_large: "\<not> n < 10 \<Longrightarrow> nat_text n = nat_text (n div 10) @ [digit_char (n mod 10)]"
  by (subst nat_text.simps) simp

lemma nat_text_single: "length (nat_text n) = 1 \<longleftrightarrow> n < 10"
proof (cases "n < 10")
  case False
  have "length (nat_text (n div 10)) \<noteq> 0" by simp
  then show ?thesis using False by (simp add: nat_text_large)
qed (simp add: nat_text_small)

lemma nat_text_inject: "nat_text m = nat_text n \<Longrightarrow> m = n"
proof (induction m arbitrary: n rule: nat_text.induct)
  case (1 m)
  have len: "m < 10 \<longleftrightarrow> n < 10"
    using "1.prems" nat_text_single[of m] nat_text_single[of n] by simp
  show ?case
  proof (cases "m < 10")
    case True
    with len "1.prems" show ?thesis by (simp add: nat_text_small digit_char_inject)
  next
    case False
    with len "1.prems" have "nat_text (m div 10) = nat_text (n div 10)"
      and "digit_char (m mod 10) = digit_char (n mod 10)"
      by (simp_all add: nat_text_large)
    with "1.IH" False have "m div 10 = n div 10" and "m mod 10 = n mod 10"
      by (simp_all add: digit_char_inject)
    then show ?thesis by (metis div_mult_mod_eq)
  qed
qed

definition is_digit :: "char \<Rightarrow> bool" where
  "is_digit c \<longleftrightarrow> 48 \<le> (of_char c :: nat) \<and> (of_char c :: nat) \<le> 57"

lemma digit_char_is_digit: "d < 10 \<Longrightarrow> is_digit (digit_char d)"
  by (simp add: is_digit_def digit_char_def)

lemma nat_text_digits: "\<forall>c \<in> set (nat_text n). is_digit c"
proof (induction n rule: nat_text.induct)
  case (1 n)
  then show ?case
    by (cases "n < 10") (simp_all add: nat_text_small nat_text_large digit_char_is_digit)
qed

section \<open>Sorted lists\<close>

lemma sorted_insort_key_max:
  "sorted (map f (sort_key f xs))"
  by (rule sorted_sort_key)

lemma hd_sort_key_least:
  assumes "sort_key f xs = y # ys" "x \<in> set xs"
  shows "f y \<le> f x"
proof -
  have "x \<in> set (y # ys)" using assms by (metis set_sort)
  moreover have "sorted (map f (y # ys))" by (metis assms(1) sorted_sort_key)
  ultimately show ?thesis by auto
qed

text \<open>A symmetric relation that holds for every pair of positions does not see the order.\<close>

lemma sorted_wrt_insort_sym:
  "symp R \<Longrightarrow> sorted_wrt R (insort_key f x xs) \<longleftrightarrow> sorted_wrt R (x # xs)"
  by (induction xs) (auto simp: set_insort_key dest: sympD)

lemma sorted_wrt_sort_sym: "symp R \<Longrightarrow> sorted_wrt R (sort_key f xs) \<longleftrightarrow> sorted_wrt R xs"
  by (induction xs) (auto simp: sorted_wrt_insort_sym)

lemma sorted_wrt_filter_key:
  "sorted_wrt (\<lambda>p q. \<forall>k. key p = Some k \<and> key q = Some k \<longrightarrow> R p q) xs \<longleftrightarrow>
   (\<forall>k. sorted_wrt R (filter (\<lambda>p. key p = Some k) xs))"
  by (induction xs) auto

lemma sorted_map_wrt: "sorted (map f xs) \<longleftrightarrow> sorted_wrt (\<lambda>x y. f x \<le> f y) xs"
  by (simp add: sorted_wrt_map)

lemma sorted_wrt_conj: "sorted_wrt P xs \<Longrightarrow> sorted_wrt Q xs \<Longrightarrow> sorted_wrt (\<lambda>x y. P x y \<and> Q x y) xs"
  by (induction xs) auto

lemma at_most_one_each:
  "(\<forall>k. length (filter (P k) xs) \<le> 1) \<longleftrightarrow> sorted_wrt (\<lambda>x y. \<forall>k. \<not> (P k x \<and> P k y)) xs"
proof (induction xs)
  case (Cons x xs)
  have "(\<forall>k. length (filter (P k) (x # xs)) \<le> 1) \<longleftrightarrow>
      (\<forall>k. length (filter (P k) xs) \<le> 1) \<and> (\<forall>k. P k x \<longrightarrow> filter (P k) xs = [])"
    by (auto simp: le_Suc_eq)
  then show ?case using Cons by (auto simp: filter_empty_conv)
qed simp

lemma sort_key_empty_iff [simp]: "sort_key f xs = [] \<longleftrightarrow> xs = []"
  by (metis length_0_conv length_sort)

section \<open>Sorting by a comparator\<close>

text \<open>
  \<open>sort(compare)\<close> with a comparator of the sources: the stable insertion sort. For a comparator that
  agrees with a key it is \<open>sort_key\<close>, the only stable sort there is.
\<close>

fun insert_cmp :: "('a \<Rightarrow> 'a \<Rightarrow> int) \<Rightarrow> 'a \<Rightarrow> 'a list \<Rightarrow> 'a list" where
  "insert_cmp cmp x [] = [x]"
| "insert_cmp cmp x (y # ys) = (if cmp x y \<le> 0 then x # y # ys else y # insert_cmp cmp x ys)"

definition js_sort :: "('a \<Rightarrow> 'a \<Rightarrow> int) \<Rightarrow> 'a list \<Rightarrow> 'a list" where
  "js_sort cmp xs = foldr (insert_cmp cmp) xs []"

lemma set_insert_cmp [simp]: "set (insert_cmp cmp x xs) = insert x (set xs)"
  by (induction xs) auto

lemma set_js_sort [simp]: "set (js_sort cmp xs) = set xs"
  by (induction xs) (simp_all add: js_sort_def)

lemma distinct_insert_cmp: "distinct (map f (insert_cmp cmp x xs)) \<longleftrightarrow> distinct (map f (x # xs))"
  by (induction xs) (auto simp: image_iff)

lemma js_sort_distinct: "distinct (map f (js_sort cmp xs)) \<longleftrightarrow> distinct (map f xs)"
proof (induction xs)
  case (Cons x xs)
  have "set (foldr (insert_cmp cmp) xs []) = set xs" using set_js_sort by (simp add: js_sort_def)
  with Cons show ?case by (simp add: js_sort_def distinct_insert_cmp)
qed (simp add: js_sort_def)

lemma insert_cmp_key:
  "(\<And>x y. cmp x y \<le> 0 \<longleftrightarrow> f x \<le> f y) \<Longrightarrow> insert_cmp cmp x xs = insort_key f x xs"
  by (induction xs) simp_all

lemma js_sort_key:
  assumes "\<And>x y. cmp x y \<le> 0 \<longleftrightarrow> f x \<le> f y"
  shows "js_sort cmp xs = sort_key f xs"
  by (induction xs) (simp_all add: js_sort_def insert_cmp_key[OF assms])

lemma js_sort_sorted:
  assumes "\<And>x y. cmp x y \<le> 0 \<or> cmp y x \<le> 0" "\<And>x y z. cmp x y \<le> 0 \<Longrightarrow> cmp y z \<le> 0 \<Longrightarrow> cmp x z \<le> 0"
  shows "sorted_wrt (\<lambda>x y. cmp x y \<le> 0) (js_sort cmp xs)"
proof -
  have "sorted_wrt (\<lambda>x y. cmp x y \<le> 0) (insert_cmp cmp x ys)" if "sorted_wrt (\<lambda>x y. cmp x y \<le> 0) ys" for x ys
    using that
  proof (induction ys)
    case (Cons y ys)
    show ?case
    proof (cases "cmp x y \<le> 0")
      case True
      then have "\<forall>z \<in> set ys. cmp x z \<le> 0" using Cons.prems assms(2) by auto
      then show ?thesis using True Cons.prems by simp
    next
      case False
      then have "cmp y x \<le> 0" using assms(1) by blast
      then show ?thesis using False Cons by simp
    qed
  qed simp
  then show ?thesis by (induction xs) (simp_all add: js_sort_def)
qed

end
