(* ===== verification/MatchMachine.thy ===== *)
theory MatchMachine
  imports Prelude
begin

text \<open>
  The match lifecycle: the shared contract table
  (\<open>packages/shared-contract/state-machines.json\<close>), the Run adapters over it
  (\<open>modules/operations/runtime/runMachine.ts\<close>), the client mirror of the server's
  transition table with its path search (\<open>platform/domain/matchTransitions.ts\<close>), and the
  derived words (\<open>lib/stateWords.ts\<close>, \<open>platform/domain/matchState.ts\<close>).
\<close>

section \<open>The contract table\<close>

text \<open>The operator spelling of the states (\<open>RunStatus\<close>, the keys of \<open>state_keys\<close>).\<close>

datatype run_status = RScheduled | RCalled | RPlaying | RFinished | RRetired

text \<open>The engine and wire spelling (\<open>MatchStatus\<close>): \<open>started\<close> is \<open>playing\<close>.\<close>

datatype match_status = MScheduled | MCalled | MStarted | MFinished | MRetired

text \<open>
  \<open>RunActionKind | MatchEvent\<close>, the union of the two string types: the events of the table
  and the two court changes, which are not events of it.
\<close>

datatype run_action = Call | Start | RecordResult | Postpone | Assign | ClearCourt | Retire | UndoFinish

record transition_row =
  t_event :: run_action
  t_from_states :: "run_status list"
  t_to :: run_status

definition match_states_table :: "run_status list" where
  "match_states_table = [RCalled, RFinished, RPlaying, RRetired, RScheduled]"

definition match_transitions :: "transition_row list" where
  "match_transitions =
    [\<lparr>t_event = Call, t_from_states = [RScheduled], t_to = RCalled\<rparr>,
     \<lparr>t_event = Start, t_from_states = [RCalled], t_to = RPlaying\<rparr>,
     \<lparr>t_event = RecordResult, t_from_states = [RPlaying], t_to = RFinished\<rparr>,
     \<lparr>t_event = Retire, t_from_states = [RPlaying], t_to = RRetired\<rparr>,
     \<lparr>t_event = Postpone, t_from_states = [RCalled, RPlaying], t_to = RScheduled\<rparr>,
     \<lparr>t_event = UndoFinish, t_from_states = [RFinished], t_to = RPlaying\<rparr>]"

instantiation run_status :: finite
begin
instance
proof
  have "(UNIV :: run_status set) \<subseteq> {RScheduled, RCalled, RPlaying, RFinished, RRetired}"
    using run_status.exhaust by blast
  then show "finite (UNIV :: run_status set)" by (rule finite_subset) simp
qed
end

lemma match_status_UNIV: "UNIV = {MScheduled, MCalled, MStarted, MFinished, MRetired}"
  using match_status.exhaust by blast

instantiation match_status :: finite
begin
instance by standard (simp add: match_status_UNIV)
end

section \<open>Run actions\<close>

definition transition :: "run_status \<Rightarrow> run_action \<Rightarrow> run_status option" where
  "transition status action =
     (if action = Assign \<or> action = ClearCourt
      then (if status = RScheduled then Some status else None)
      else map_option t_to
             (find (\<lambda>t. status \<in> set (t_from_states t) \<and> t_event t = action) match_transitions))"

definition can :: "run_status \<Rightarrow> run_action \<Rightarrow> bool" where
  "can status action \<longleftrightarrow> transition status action \<noteq> None"

fun fromEngineStatus :: "match_status \<Rightarrow> run_status" where
  "fromEngineStatus MStarted = RPlaying"
| "fromEngineStatus MScheduled = RScheduled"
| "fromEngineStatus MCalled = RCalled"
| "fromEngineStatus MFinished = RFinished"
| "fromEngineStatus MRetired = RRetired"

definition isRunComplete :: "run_status \<Rightarrow> bool" where
  "isRunComplete status \<longleftrightarrow> status = RFinished \<or> status = RRetired"

datatype timeliness = Ontime | Due | Late | Overdue

definition deriveTimeliness :: "run_status \<Rightarrow> int option \<Rightarrow> int option \<Rightarrow> timeliness" where
  "deriveTimeliness status plannedSlot currentSlot =
     (if status \<noteq> RScheduled \<and> status \<noteq> RCalled then Ontime
      else case (plannedSlot, currentSlot) of
        (Some p, Some c) \<Rightarrow>
          (let slotsPast = c - p
           in if slotsPast < 0 then Ontime
              else if slotsPast = 0 then Due
              else if slotsPast = 1 then Late
              else Overdue)
      | _ \<Rightarrow> Ontime)"

definition deriveLate :: "run_status \<Rightarrow> int option \<Rightarrow> int option \<Rightarrow> bool" where
  "deriveLate status plannedSlot currentSlot \<longleftrightarrow>
     deriveTimeliness status plannedSlot currentSlot \<noteq> Ontime"

text \<open>The missing \<open>span\<close> defaults to 1.\<close>

definition deriveDriftSlots ::
  "run_status \<Rightarrow> int option \<Rightarrow> int option \<Rightarrow> int option \<Rightarrow> int" where
  "deriveDriftSlots status plannedSlot span currentSlot =
     (if status \<noteq> RPlaying then 0
      else case (plannedSlot, currentSlot) of
        (Some p, Some c) \<Rightarrow> max 0 (c - (p + or_else span 1))
      | _ \<Rightarrow> 0)"

lemma transition_simps [simp]:
  "transition RScheduled a =
     (case a of Call \<Rightarrow> Some RCalled | Assign \<Rightarrow> Some RScheduled | ClearCourt \<Rightarrow> Some RScheduled
      | _ \<Rightarrow> None)"
  "transition RCalled a =
     (case a of Start \<Rightarrow> Some RPlaying | Postpone \<Rightarrow> Some RScheduled | _ \<Rightarrow> None)"
  "transition RPlaying a =
     (case a of RecordResult \<Rightarrow> Some RFinished | Retire \<Rightarrow> Some RRetired
      | Postpone \<Rightarrow> Some RScheduled | _ \<Rightarrow> None)"
  "transition RFinished a = (case a of UndoFinish \<Rightarrow> Some RPlaying | _ \<Rightarrow> None)"
  "transition RRetired a = None"
  by (cases a; simp add: transition_def match_transitions_def)+

section \<open>Runs of a match\<close>

text \<open>One legal press, and a sequence of presses; an illegal one refuses the run.\<close>

inductive press :: "run_status \<Rightarrow> run_action \<Rightarrow> run_status \<Rightarrow> bool" where
  press: "transition s a = Some t \<Longrightarrow> press s a t"

inductive_simps press_from_scheduled: "press RScheduled a t"
inductive_simps press_from_called: "press RCalled a t"
inductive_simps press_from_playing: "press RPlaying a t"
inductive_simps press_from_finished: "press RFinished a t"
inductive_cases press_from_retired: "press RRetired a t"

fun play :: "run_status \<Rightarrow> run_action list \<Rightarrow> run_status option" where
  "play s [] = Some s"
| "play s (a # as) = (case transition s a of None \<Rightarrow> None | Some t \<Rightarrow> play t as)"

lemma press_deterministic: "press s a t \<Longrightarrow> press s a u \<Longrightarrow> t = u"
  by (auto elim!: press.cases)

lemma play_append: "play s (as @ bs) = (case play s as of None \<Rightarrow> None | Some t \<Rightarrow> play t bs)"
  by (induction as arbitrary: s) (simp_all split: option.splits)

lemma play_retired: "play RRetired as = Some t \<Longrightarrow> as = [] \<and> t = RRetired"
  by (cases as) simp_all

text \<open>Where a match stands tells which presses it has had: the invariant of a run.\<close>

definition earned :: "run_status \<Rightarrow> run_action set \<Rightarrow> bool" where
  "earned s done_acts \<longleftrightarrow>
     (case s of RScheduled \<Rightarrow> True
      | RCalled \<Rightarrow> Call \<in> done_acts
      | RPlaying \<Rightarrow> {Call, Start} \<subseteq> done_acts
      | RFinished \<Rightarrow> {Call, Start, RecordResult} \<subseteq> done_acts
      | RRetired \<Rightarrow> {Call, Start, Retire} \<subseteq> done_acts)"

lemma earned_step:
  "transition s a = Some t \<Longrightarrow> earned s A \<Longrightarrow> earned t (insert a A)"
  by (cases s; cases a) (auto simp: earned_def)

lemma play_earned:
  "play s as = Some t \<Longrightarrow> earned s A \<Longrightarrow> earned t (A \<union> set as)"
proof (induction as arbitrary: s A)
  case (Cons a as)
  then obtain u where u: "transition s a = Some u" "play u as = Some t"
    by (auto split: option.splits)
  then have "earned t (insert a A \<union> set as)"
    using Cons.IH Cons.prems(2) earned_step by blast
  then show ?case by simp
qed simp

section \<open>The client mirror of the server's table\<close>

fun toWire :: "run_status \<Rightarrow> match_status" where
  "toWire RPlaying = MStarted"
| "toWire RScheduled = MScheduled"
| "toWire RCalled = MCalled"
| "toWire RFinished = MFinished"
| "toWire RRetired = MRetired"

definition VALID_TRANSITIONS :: "(match_status, match_status list) dict" where
  "VALID_TRANSITIONS =
     from_entries (map (\<lambda>state.
       (toWire state,
        map (\<lambda>t. toWire (t_to t)) (filter (\<lambda>t. state \<in> set (t_from_states t)) match_transitions)
        @ [toWire state])) match_states_table)"

definition valid_targets :: "match_status \<Rightarrow> match_status list" where
  "valid_targets from = or_else (map_of VALID_TRANSITIONS from) []"

definition isValidTransition :: "match_status \<Rightarrow> match_status \<Rightarrow> bool" where
  "isValidTransition from to \<longleftrightarrow> to \<in> set (valid_targets from)"

lemma valid_targets_simps [simp]:
  "valid_targets MScheduled = [MCalled, MScheduled]"
  "valid_targets MCalled = [MStarted, MScheduled, MCalled]"
  "valid_targets MStarted = [MFinished, MRetired, MScheduled, MStarted]"
  "valid_targets MFinished = [MStarted, MFinished]"
  "valid_targets MRetired = [MRetired]"
  by (simp_all add: valid_targets_def VALID_TRANSITIONS_def from_entries_def match_states_table_def
      match_transitions_def)

lemma VALID_TRANSITIONS_total: "map_of VALID_TRANSITIONS from \<noteq> None"
  by (cases "from") (simp_all add: VALID_TRANSITIONS_def from_entries_def match_states_table_def)

lemma fromEngineStatus_toWire [simp]:
  "fromEngineStatus (toWire r) = r" "toWire (fromEngineStatus m) = m"
  by (cases r; simp) (cases m; simp)

section \<open>The path search\<close>

text \<open>
  The inner \<open>for\<close> over the targets of a path's tail: it returns as soon as it meets the
  goal (\<open>Inl\<close>), and otherwise hands back the queue and the seen set (\<open>Inr\<close>).
\<close>

fun bfs_expand ::
  "match_status \<Rightarrow> match_status list \<Rightarrow> match_status list \<Rightarrow>
   match_status list list \<Rightarrow> match_status set \<Rightarrow>
   match_status list + (match_status list list \<times> match_status set)" where
  "bfs_expand to path [] queue seen = Inr (queue, seen)"
| "bfs_expand to path (n # ns) queue seen =
     (if n = last path \<or> n \<in> seen then bfs_expand to path ns queue seen
      else if n = to then Inl (tl (path @ [n]))
      else bfs_expand to path ns (queue @ [path @ [n]]) (insert n seen))"

lemma bfs_expand_measure:
  "bfs_expand to path ns queue seen = Inr (queue', seen') \<Longrightarrow>
   length queue' + 2 * card (- seen') \<le> length queue + 2 * card (- seen)"
proof (induction to path ns queue seen rule: bfs_expand.induct)
  case (2 to path n ns queue seen)
  show ?case
  proof (cases "n = last path \<or> n \<in> seen \<or> n = to")
    case True
    with 2 show ?thesis by (auto split: if_splits)
  next
    case False
    have "n \<in> - seen" using False by simp
    then have "card (- insert n seen) = card (- seen) - 1" "card (- seen) \<noteq> 0"
      by (auto simp add: Compl_insert)
    moreover have "length queue' + 2 * card (- seen')
        \<le> length (queue @ [path @ [n]]) + 2 * card (- insert n seen)"
      using 2 False by (simp del: length_append)
    ultimately show ?thesis by (simp only: length_append list.size)
  qed
qed simp

function bfs ::
  "match_status \<Rightarrow> match_status list list \<Rightarrow> match_status set \<Rightarrow> match_status list option" where
  "bfs to [] seen = None"
| "bfs to (path # queue) seen =
     (case bfs_expand to path (valid_targets (last path)) queue seen of
        Inl found \<Rightarrow> Some found
      | Inr (queue', seen') \<Rightarrow> bfs to queue' seen')"
  by pat_completeness auto
termination
  by (relation "measure (\<lambda>(to, queue, seen). length queue + 2 * card (- seen))")
     (auto dest!: bfs_expand_measure)

definition transitionPath :: "match_status \<Rightarrow> match_status \<Rightarrow> match_status list option" where
  "transitionPath from to =
     (if isValidTransition from to then Some [to] else bfs to [[from]] {from})"

text \<open>A walk of the server's machine: consecutive statuses are legal hops.\<close>

fun walk :: "match_status \<Rightarrow> match_status list \<Rightarrow> bool" where
  "walk s [] = True"
| "walk s (t # ts) = (isValidTransition s t \<and> walk t ts)"

definition hops :: "match_status \<Rightarrow> match_status \<Rightarrow> nat option" where
  "hops s t = map_option length (transitionPath s t)"

lemma transitionPath_table:
  "transitionPath MScheduled t = Some (case t of
     MScheduled \<Rightarrow> [MScheduled] | MCalled \<Rightarrow> [MCalled] | MStarted \<Rightarrow> [MCalled, MStarted]
   | MFinished \<Rightarrow> [MCalled, MStarted, MFinished] | MRetired \<Rightarrow> [MCalled, MStarted, MRetired])"
  "transitionPath MCalled t = Some (case t of
     MScheduled \<Rightarrow> [MScheduled] | MCalled \<Rightarrow> [MCalled] | MStarted \<Rightarrow> [MStarted]
   | MFinished \<Rightarrow> [MStarted, MFinished] | MRetired \<Rightarrow> [MStarted, MRetired])"
  "transitionPath MStarted t = Some (case t of
     MScheduled \<Rightarrow> [MScheduled] | MCalled \<Rightarrow> [MScheduled, MCalled] | MStarted \<Rightarrow> [MStarted]
   | MFinished \<Rightarrow> [MFinished] | MRetired \<Rightarrow> [MRetired])"
  "transitionPath MFinished t = Some (case t of
     MScheduled \<Rightarrow> [MStarted, MScheduled] | MCalled \<Rightarrow> [MStarted, MScheduled, MCalled]
   | MStarted \<Rightarrow> [MStarted] | MFinished \<Rightarrow> [MFinished] | MRetired \<Rightarrow> [MStarted, MRetired])"
  "transitionPath MRetired t = (if t = MRetired then Some [MRetired] else None)"
  by (cases t; simp add: transitionPath_def isValidTransition_def)+

lemma transitionPath_walk:
  "transitionPath s t = Some p \<Longrightarrow> walk s p \<and> p \<noteq> [] \<and> last p = t"
  by (cases s; cases t) (auto simp: transitionPath_table isValidTransition_def)

text \<open>Distances are consistent along every hop, so no walk beats the search.\<close>

lemma hops_step:
  assumes "isValidTransition s u" and "hops u t = Some n"
  obtains m where "hops s t = Some m" "m \<le> Suc n"
proof -
  have "\<exists>m. hops s t = Some m \<and> m \<le> Suc n"
    using assms
    by (cases s; cases u; simp add: isValidTransition_def; cases t)
       (auto simp: hops_def transitionPath_table)
  then show ?thesis using that by blast
qed

lemma hops_direct: "isValidTransition s t \<Longrightarrow> hops s t = Some 1"
  by (simp add: hops_def transitionPath_def)

lemma walk_hops:
  "walk s q \<Longrightarrow> q \<noteq> [] \<Longrightarrow> \<exists>n. hops s (last q) = Some n \<and> n \<le> length q"
proof (induction q arbitrary: s)
  case (Cons u q)
  show ?case
  proof (cases "q = []")
    case True
    with Cons.prems show ?thesis by (simp add: hops_direct)
  next
    case False
    with Cons obtain n where n: "hops u (last q) = Some n" "n \<le> length q" by auto
    moreover have "isValidTransition s u" using Cons.prems by simp
    ultimately obtain m where "hops s (last q) = Some m" "m \<le> Suc n" by (metis hops_step)
    with n False show ?thesis by auto
  qed
qed simp

section \<open>Words\<close>

datatype state_word = WLive | WCalled | WDue | WLate | WOverdue | WReady | WPending | WDone
  | WScheduled | WFree | WClosed | WOnCourt | WRetired

fun STATE_WORD :: "state_word \<Rightarrow> string" where
  "STATE_WORD WLive = ''Live''"
| "STATE_WORD WCalled = ''Called''"
| "STATE_WORD WDue = ''Due''"
| "STATE_WORD WLate = ''Late''"
| "STATE_WORD WOverdue = ''Late''"
| "STATE_WORD WReady = ''Ready''"
| "STATE_WORD WPending = ''Pending''"
| "STATE_WORD WDone = ''Done''"
| "STATE_WORD WScheduled = ''Scheduled''"
| "STATE_WORD WFree = ''Free''"
| "STATE_WORD WClosed = ''Closed''"
| "STATE_WORD WOnCourt = ''On court''"
| "STATE_WORD WRetired = ''Retired''"

fun RUN_STATUS_LABEL :: "run_status \<Rightarrow> string" where
  "RUN_STATUS_LABEL RScheduled = STATE_WORD WScheduled"
| "RUN_STATUS_LABEL RCalled = STATE_WORD WCalled"
| "RUN_STATUS_LABEL RPlaying = STATE_WORD WOnCourt"
| "RUN_STATUS_LABEL RFinished = STATE_WORD WDone"
| "RUN_STATUS_LABEL RRetired = STATE_WORD WRetired"

datatype match_state_value = Persisted match_status | StatePending | StateReady

definition deriveReadiness :: "bool \<Rightarrow> match_state_value" where
  "deriveReadiness eligible = (if eligible then StateReady else StatePending)"

fun matchStateLabel :: "match_state_value \<Rightarrow> string" where
  "matchStateLabel StatePending = STATE_WORD WPending"
| "matchStateLabel StateReady = STATE_WORD WReady"
| "matchStateLabel (Persisted MScheduled) = STATE_WORD WScheduled"
| "matchStateLabel (Persisted MCalled) = STATE_WORD WCalled"
| "matchStateLabel (Persisted MStarted) = STATE_WORD WOnCourt"
| "matchStateLabel (Persisted MFinished) = STATE_WORD WDone"
| "matchStateLabel (Persisted MRetired) = STATE_WORD WRetired"

lemma labels_agree: "RUN_STATUS_LABEL (fromEngineStatus m) = matchStateLabel (Persisted m)"
  by (cases m) simp_all

section \<open>Timeliness\<close>

lemma deriveTimeliness_waiting:
  "s = RScheduled \<or> s = RCalled \<Longrightarrow>
   deriveTimeliness s (Some p) (Some c) =
     (if c < p then Ontime else if c = p then Due else if c = p + 1 then Late else Overdue)"
  by (auto simp: deriveTimeliness_def Let_def)

lemma deriveTimeliness_not_waiting:
  "s \<noteq> RScheduled \<Longrightarrow> s \<noteq> RCalled \<Longrightarrow> deriveTimeliness s p c = Ontime"
  by (simp add: deriveTimeliness_def)

lemma deriveTimeliness_unknown [simp]:
  "deriveTimeliness s None c = Ontime" "deriveTimeliness s p None = Ontime"
  by (simp_all add: deriveTimeliness_def split: option.splits)

lemma deriveLate_iff:
  "deriveLate s p c \<longleftrightarrow>
     (s = RScheduled \<or> s = RCalled) \<and> (\<exists>a b. p = Some a \<and> c = Some b \<and> a \<le> b)"
  by (cases s; cases p; cases c)
     (auto simp: deriveLate_def deriveTimeliness_def Let_def)

section \<open>Properties\<close>

text \<open>C19. The client's transition table and the Run machine are one machine: a wire status may
  move to another exactly when it is the same status or one event of the contract takes the
  first to the second (the court changes \<open>Assign\<close> and \<open>ClearCourt\<close> are no status edges).\<close>

theorem client_table_mirrors_contract:
  "isValidTransition a b \<longleftrightarrow>
     a = b \<or> (\<exists>e. e \<notin> {Assign, ClearCourt} \<and>
                  transition (fromEngineStatus a) e = Some (fromEngineStatus b))"
proof -
  have ex: "(\<exists>e. P e) \<longleftrightarrow> P Call \<or> P Start \<or> P RecordResult \<or> P Postpone \<or> P Assign \<or> P ClearCourt
      \<or> P Retire \<or> P UndoFinish" for P :: "run_action \<Rightarrow> bool"
    by (metis run_action.exhaust)
  show ?thesis
    by (cases a; cases b) (simp_all add: isValidTransition_def ex)
qed

text \<open>C17. The path search is a shortest-path search: a result is a legal walk to the target,
  and no legal walk of at least one hop to that target is shorter; no result means that no walk
  reaches the target.\<close>

theorem transitionPath_shortest:
  "(case transitionPath s t of
      Some p \<Rightarrow> walk s p \<and> p \<noteq> [] \<and> last p = t \<and>
                (\<forall>q. walk s q \<longrightarrow> q \<noteq> [] \<longrightarrow> last q = t \<longrightarrow> length p \<le> length q)
    | None \<Rightarrow> (\<forall>q. walk s q \<longrightarrow> q \<noteq> [] \<longrightarrow> last q \<noteq> t))"
proof (cases "transitionPath s t")
  case None
  then show ?thesis using walk_hops[of s] by (fastforce simp: hops_def)
next
  case (Some p)
  then show ?thesis using walk_hops[of s] transitionPath_walk[OF Some]
    by (fastforce simp: hops_def)
qed

theorem transitionPath_shortest_witness:
  "transitionPath MScheduled MFinished = Some [MCalled, MStarted, MFinished] \<and>
   \<not> walk MScheduled [MFinished]"
proof -
  have tab: "transitionPath MScheduled MFinished = Some [MCalled, MStarted, MFinished]"
    by (simp add: transitionPath_table)
  have "\<forall>q. walk MScheduled q \<longrightarrow> q \<noteq> [] \<longrightarrow> last q = MFinished \<longrightarrow>
      length [MCalled, MStarted, MFinished] \<le> length q"
    using transitionPath_shortest[of MScheduled MFinished] by (simp only: tab option.case) blast
  then have "walk MScheduled [MFinished] \<Longrightarrow> False" by (drule_tac x = "[MFinished]" in spec) simp
  with tab show ?thesis by blast
qed

text \<open>C18. No match is finished or retired without having been called and started: whatever legal
  sequence of presses takes a scheduled match to a terminal status contains those presses, and
  a retired match accepts no further press.\<close>

theorem terminal_is_earned:
  assumes "play RScheduled as = Some t"
  shows "(t = RFinished \<longrightarrow> {Call, Start, RecordResult} \<subseteq> set as) \<and>
         (t = RRetired \<longrightarrow> {Call, Start, Retire} \<subseteq> set as \<and> (\<forall>a. \<not> can t a))"
proof -
  have "earned t ({} \<union> set as)"
    by (rule play_earned[OF assms]) (simp add: earned_def)
  then show ?thesis by (auto simp: earned_def can_def)
qed

theorem terminal_is_earned_witness:
  "{Call, Start, Retire} \<subseteq> set [Assign, Call, Start, Postpone, Call, Start, Retire]"
proof -
  have "play RScheduled [Assign, Call, Start, Postpone, Call, Start, Retire] = Some RRetired"
    by simp
  then show ?thesis by (rule terminal_is_earned[THEN conjunct2, THEN mp, THEN conjunct1]) simp
qed

end
