(* ===== verification/Dto.thy ===== *)
theory Dto
  imports MatchMachine
begin

text \<open>
  The wire records of \<open>apps/console/src/api/dto.ts\<close> that the modelled components read and
  write. An optional or nullable field is an \<open>option\<close>.
\<close>

record schedule_assignment =
  as_matchId :: string
  as_slotId :: int
  as_courtId :: int
  as_durationSlots :: int

record schedule_candidate =
  ca_assignments :: "schedule_assignment list"

text \<open>Of \<open>ScheduleDTO\<close>, the fields that decide which assignments are shown.\<close>

record schedule_dto =
  sc_assignments :: "schedule_assignment list"
  sc_candidates :: "schedule_candidate list option"
  sc_activeCandidateIndex :: "int option"

record set_score =
  ss_sideA :: int
  ss_sideB :: int

record match_state_dto =
  ms_matchId :: string
  ms_status :: match_status
  ms_calledAt :: "string option"
  ms_actualStartTime :: "string option"
  ms_actualEndTime :: "string option"
  ms_actualCourtId :: "int option"
  ms_actualSlotId :: "int option"
  ms_originalSlotId :: "int option"
  ms_originalCourtId :: "int option"
  ms_delayed :: "bool option"
  ms_delayReason :: "string option"
  ms_delayedPlayerId :: "string option"
  ms_postponed :: "bool option"
  ms_pinned :: "bool option"
  ms_playerConfirmations :: "(string, bool) dict option"
  ms_score :: "set_score option"
  ms_sets :: "set_score list option"
  ms_notes :: "string option"
  ms_updatedAt :: "string option"

text \<open>The literal \<open>{ matchId, status }\<close>: every optional field absent.\<close>

definition bare_match_state :: "string \<Rightarrow> match_status \<Rightarrow> match_state_dto" where
  "bare_match_state matchId status =
     \<lparr>ms_matchId = matchId, ms_status = status, ms_calledAt = None, ms_actualStartTime = None,
      ms_actualEndTime = None, ms_actualCourtId = None, ms_actualSlotId = None,
      ms_originalSlotId = None, ms_originalCourtId = None, ms_delayed = None,
      ms_delayReason = None, ms_delayedPlayerId = None, ms_postponed = None, ms_pinned = None,
      ms_playerConfirmations = None, ms_score = None, ms_sets = None, ms_notes = None,
      ms_updatedAt = None\<rparr>"

record match_dto =
  md_id :: string
  md_matchNumber :: "int option"
  md_sideA :: "string list"
  md_sideB :: "string list"
  md_sideC :: "string list option"
  md_eventRank :: "string option"
  md_durationSlots :: int

record player_dto =
  pd_id :: string
  pd_name :: string
  pd_groupId :: string
  pd_minRestMinutes :: "int option"

text \<open>Of \<open>TournamentConfig\<close>, the fields that place matches on the day's axis.\<close>

record tournament_config =
  cf_intervalMinutes :: int
  cf_dayStart :: string
  cf_dayEnd :: string
  cf_courtCount :: int
  cf_defaultRestMinutes :: int
  cf_rankCounts :: "(string, int) dict option"

text \<open>\<open>lib/getActiveAssignments.ts\<close>: an index outside the candidate array reads
  \<open>undefined\<close>, so the top-level assignments are used.\<close>

definition nth_opt :: "'a list \<Rightarrow> int \<Rightarrow> 'a option" where
  "nth_opt xs i = (if 0 \<le> i \<and> i < int (length xs) then Some (xs ! nat i) else None)"

definition getActiveAssignments :: "schedule_dto option \<Rightarrow> schedule_assignment list" where
  "getActiveAssignments schedule =
     (case schedule of
        None \<Rightarrow> []
      | Some s \<Rightarrow>
          (let idx = or_else (sc_activeCandidateIndex s) 0
           in case sc_candidates s of
                None \<Rightarrow> sc_assignments s
              | Some cs \<Rightarrow> (case nth_opt cs idx of
                    Some c \<Rightarrow> ca_assignments c
                  | None \<Rightarrow> sc_assignments s)))"

end
