(* ===== verification/JsText.thy ===== *)
theory JsText
  imports Prelude "HOL-Library.Sublist"
begin

text \<open>
  The string operations of the language that the sources call: \<open>trim\<close>, \<open>split\<close>,
  \<open>Number\<close> on a run of digits, and the two regular expressions for decimal numerals. Strings
  are the bytes of their UTF-8 text; \<open>trim\<close> removes the ASCII white space only.
\<close>

definition js_space :: "char \<Rightarrow> bool" where
  "js_space c \<longleftrightarrow> (of_char c :: nat) \<in> {9, 10, 11, 12, 13, 32}"

definition trim :: "string \<Rightarrow> string" where
  "trim s = rev (dropWhile js_space (rev (dropWhile js_space s)))"

fun split_acc :: "string \<Rightarrow> string \<Rightarrow> string \<Rightarrow> string list" where
  "split_acc sep acc [] = [acc]"
| "split_acc sep acc (c # cs) =
     (if prefix sep (c # cs) then acc # split_acc sep [] (drop (length sep - 1) cs)
      else split_acc sep (acc @ [c]) cs)"

definition split_on :: "string \<Rightarrow> string \<Rightarrow> string list" where
  "split_on sep s = split_acc sep [] s"

definition digit_val :: "char \<Rightarrow> nat" where
  "digit_val c = of_char c - 48"

definition parse_nat :: "string \<Rightarrow> nat" where
  "parse_nat s = foldl (\<lambda>n c. 10 * n + digit_val c) 0 s"

text \<open>\<open>/^\d+$/\<close> and \<open>/^[1-9]\d*$/\<close>.\<close>

definition all_digits :: "string \<Rightarrow> bool" where
  "all_digits s \<longleftrightarrow> s \<noteq> [] \<and> list_all is_digit s"

definition pos_numeral :: "string \<Rightarrow> bool" where
  "pos_numeral s \<longleftrightarrow> all_digits s \<and> hd s \<noteq> CHR ''0''"

text \<open>A JSON document whose numbers are integers.\<close>

datatype js_value = JNull | JBool bool | JNum int | JStr string | JArr "js_value list"
  | JObj "(string \<times> js_value) list"

section \<open>Numerals\<close>

lemma zero_char: "CHR ''0'' = char_of (48 :: nat)"
  by (subst eq_commute) (simp add: char_of_eq_iff)

lemma digit_char_val: "is_digit c \<Longrightarrow> digit_char (digit_val c) = c"
  by (simp add: digit_char_def digit_val_def is_digit_def)

lemma digit_val_less: "is_digit c \<Longrightarrow> digit_val c < 10"
  by (auto simp: digit_val_def is_digit_def)

lemma digit_val_char: "d < 10 \<Longrightarrow> digit_val (digit_char d) = d"
  by (simp add: digit_char_def digit_val_def)

lemma digit_val_pos: "is_digit c \<Longrightarrow> c \<noteq> CHR ''0'' \<Longrightarrow> 0 < digit_val c"
proof -
  assume "is_digit c" "c \<noteq> CHR ''0''"
  moreover have "of_char c \<noteq> (48 :: nat)"
  proof
    assume "of_char c = (48 :: nat)"
    then have "c = char_of (48 :: nat)" by (metis char_of_char)
    with \<open>c \<noteq> CHR ''0''\<close> show False by (simp only: zero_char)
  qed
  ultimately show ?thesis by (simp add: digit_val_def is_digit_def)
qed

lemma parse_nat_snoc: "parse_nat (s @ [c]) = 10 * parse_nat s + digit_val c"
  by (simp add: parse_nat_def)

lemma pos_numeral_parse:
  "pos_numeral s \<Longrightarrow> 0 < parse_nat s \<and> nat_text (parse_nat s) = s"
proof (induction s rule: rev_induct)
  case (snoc c s)
  have c: "is_digit c" using snoc.prems by (simp add: pos_numeral_def all_digits_def)
  show ?case
  proof (cases "s = []")
    case True
    then have "c \<noteq> CHR ''0''" using snoc.prems by (simp add: pos_numeral_def)
    then show ?thesis using True c digit_val_pos digit_val_less
      by (simp add: parse_nat_def nat_text_small digit_char_val)
  next
    case False
    then have "pos_numeral s" using snoc.prems by (auto simp: pos_numeral_def all_digits_def)
    with snoc.IH have "0 < parse_nat s" "nat_text (parse_nat s) = s" by auto
    then show ?thesis using digit_val_less[OF c] c
      by (simp add: parse_nat_snoc nat_text_large digit_char_val)
  qed
qed (simp add: pos_numeral_def all_digits_def)

lemma parse_nat_text: "parse_nat (nat_text n) = n"
proof (induction n rule: nat_text.induct)
  case (1 n)
  show ?case
  proof (cases "n < 10")
    case True
    then show ?thesis by (simp add: nat_text_small parse_nat_def digit_val_char)
  next
    case False
    with 1 show ?thesis by (simp add: nat_text_large parse_nat_snoc digit_val_char)
  qed
qed

lemma all_digits_nat_text: "all_digits (nat_text n)"
  using nat_text_digits by (simp add: all_digits_def list_all_iff)

lemma hd_nat_text: "0 < n \<Longrightarrow> hd (nat_text n) \<noteq> CHR ''0''"
proof (induction n rule: nat_text.induct)
  case (1 n)
  show ?case
  proof (cases "n < 10")
    case True
    have "digit_char n \<noteq> digit_char 0" using digit_char_inject[of n 0] True 1(2) by auto
    moreover have "digit_char 0 = CHR ''0''" by (simp only: digit_char_def zero_char add_0_right)
    ultimately show ?thesis using True by (simp add: nat_text_small)
  next
    case False
    with 1 show ?thesis by (simp add: nat_text_large)
  qed
qed

lemma pos_numeral_nat_text: "0 < n \<Longrightarrow> pos_numeral (nat_text n)"
  by (simp add: pos_numeral_def all_digits_nat_text hd_nat_text)

section \<open>Splitting and joining\<close>

lemma split_acc_nonempty [simp]: "split_acc sep acc s \<noteq> []"
  by (induction sep acc s rule: split_acc.induct) auto

lemma join_with_Cons: "xs \<noteq> [] \<Longrightarrow> join_with sep (x # xs) = x @ sep @ join_with sep xs"
  by (cases xs) simp_all

lemma split_acc_free: "c \<notin> set s \<Longrightarrow> split_acc [c] acc s = [acc @ s]"
  by (induction s arbitrary: acc) auto

lemma split_acc_step: "c \<notin> set s \<Longrightarrow> split_acc [c] acc (s @ c # rest) = (acc @ s) # split_acc [c] [] rest"
  by (induction s arbitrary: acc) auto

lemma split_join:
  "vs \<noteq> [] \<Longrightarrow> \<forall>v \<in> set vs. c \<notin> set v \<Longrightarrow> split_on [c] (join_with [c] vs) = vs"
proof (induction vs)
  case (Cons v vs)
  then show ?case
    by (cases vs) (simp_all add: split_on_def split_acc_free split_acc_step)
qed simp

lemma join_split_acc: "sep \<noteq> [] \<Longrightarrow> join_with sep (split_acc sep acc s) = acc @ s"
proof (induction sep acc s rule: split_acc.induct)
  case (2 sep acc c cs)
  show ?case
  proof (cases "prefix sep (c # cs)")
    case True
    then obtain r where r: "c # cs = sep @ r" by (auto simp: prefix_def)
    then have d: "drop (length sep - 1) cs = r"
      using \<open>sep \<noteq> []\<close> by (cases sep) auto
    then have "split_acc sep acc (c # cs) = acc # split_acc sep [] r" using True by simp
    moreover have "join_with sep (split_acc sep [] r) = r" using 2 True d by simp
    ultimately show ?thesis by (simp only: r join_with_Cons split_acc_nonempty not_False_eq_True)
  next
    case False
    with 2 show ?thesis by simp
  qed
qed simp

lemma join_split [simp]: "sep \<noteq> [] \<Longrightarrow> join_with sep (split_on sep s) = s"
  by (simp add: split_on_def join_split_acc)

section \<open>Trimming\<close>

lemma trim_empty [simp]: "trim [] = []"
  by (simp add: trim_def)

lemma dropWhile_fixed: "s = [] \<or> \<not> P (hd s) \<Longrightarrow> dropWhile P s = s"
  by (cases s) auto

lemma hd_dropWhile_not: "dropWhile P s \<noteq> [] \<Longrightarrow> \<not> P (hd (dropWhile P s))"
  by (rule hd_dropWhile)

lemma trim_ends:
  assumes "trim s \<noteq> []"
  shows "\<not> js_space (hd (trim s)) \<and> \<not> js_space (last (trim s))"
proof -
  let ?a = "dropWhile js_space s"
  let ?b = "dropWhile js_space (rev ?a)"
  have b: "?b \<noteq> []" using assms by (simp add: trim_def)
  then have "\<not> js_space (hd ?b)" by (rule hd_dropWhile)
  then have l: "\<not> js_space (last (trim s))" using b by (simp add: trim_def last_rev)
  have "?a \<noteq> []" using b by (metis dropWhile.simps(1) rev.simps(1))
  then have ha: "\<not> js_space (hd ?a)" by (rule hd_dropWhile)
  obtain pre where "rev ?a = pre @ ?b" by (metis takeWhile_dropWhile_id)
  then have "?a = rev ?b @ rev pre" by (metis rev_append rev_rev_ident)
  then have "hd ?a = hd (trim s)" using assms by (metis hd_append2 trim_def)
  with ha l show ?thesis by simp
qed

lemma trim_fixed: "s = [] \<or> \<not> js_space (hd s) \<and> \<not> js_space (last s) \<Longrightarrow> trim s = s"
  by (auto simp: trim_def dropWhile_fixed hd_rev)

lemma trim_idem [simp]: "trim (trim s) = trim s"
  using trim_ends trim_fixed by blast

section \<open>Numbers from text\<close>

text \<open>
  \<open>Number(text)\<close> where it is an integer: blank text, a decimal literal with sign, fraction and
  exponent, or a hexadecimal, octal or binary one. \<open>None\<close> is every other result (a fraction, an
  infinity, \<open>NaN\<close>). Integers are exact here; a double is exact up to 2 to the 53.
\<close>

definition split_sign :: "string \<Rightarrow> int \<times> string" where
  "split_sign s = (case s of
       c # r \<Rightarrow> if c = CHR ''+'' then (1, r) else if c = CHR ''-'' then (- 1, r) else (1, s)
     | [] \<Rightarrow> (1, s))"

definition read_exponent :: "string \<Rightarrow> int option" where
  "read_exponent s = (case s of
       [] \<Rightarrow> Some 0
     | c # r \<Rightarrow>
         if c = CHR ''e'' \<or> c = CHR ''E''
         then (let (sg, ds) = split_sign r
               in if all_digits ds then Some (sg * int (parse_nat ds)) else None)
         else None)"

definition read_decimal :: "string \<Rightarrow> int option" where
  "read_decimal s =
     (let (sg, u) = split_sign s;
          ip = takeWhile is_digit u;
          r = dropWhile is_digit u;
          (fp, q) = (case r of
              c # r' \<Rightarrow> if c = CHR ''.'' then (takeWhile is_digit r', dropWhile is_digit r') else ([], r)
            | [] \<Rightarrow> ([], r))
      in if ip = [] \<and> fp = [] then None
         else case read_exponent q of
             None \<Rightarrow> None
           | Some e \<Rightarrow>
               (let m = int (parse_nat (ip @ fp)); k = e - int (length fp)
                in if 0 \<le> k then Some (sg * m * 10 ^ nat k)
                   else if 10 ^ nat (- k) dvd m then Some (sg * (m div 10 ^ nat (- k)))
                   else None))"

definition radix_digit :: "char \<Rightarrow> nat" where
  "radix_digit c =
     (let v = (of_char c :: nat)
      in if 48 \<le> v \<and> v \<le> 57 then v - 48
         else if 97 \<le> v \<and> v \<le> 122 then v - 87
         else if 65 \<le> v \<and> v \<le> 90 then v - 55 else 36)"

definition radix_of :: "char \<Rightarrow> nat option" where
  "radix_of c =
     (if c = CHR ''x'' \<or> c = CHR ''X'' then Some 16
      else if c = CHR ''o'' \<or> c = CHR ''O'' then Some 8
      else if c = CHR ''b'' \<or> c = CHR ''B'' then Some 2 else None)"

definition js_integer :: "string \<Rightarrow> int option" where
  "js_integer text =
     (let t = trim text
      in if t = [] then Some 0
         else case t of
             z # x # ds \<Rightarrow>
               (case (z = CHR ''0'', radix_of x) of
                  (True, Some b) \<Rightarrow>
                    if ds \<noteq> [] \<and> list_all (\<lambda>c. radix_digit c < b) ds
                    then Some (int (foldl (\<lambda>n c. b * n + radix_digit c) 0 ds)) else None
                | _ \<Rightarrow> read_decimal t)
           | _ \<Rightarrow> read_decimal t)"

lemma digit_not_space: "is_digit c \<Longrightarrow> \<not> js_space c"
  by (auto simp: is_digit_def js_space_def)

lemma trim_digits: "all_digits s \<Longrightarrow> trim s = s"
proof -
  assume s: "all_digits s"
  then have "is_digit (hd s)" "is_digit (last s)"
    by (auto simp: all_digits_def list_all_iff)
  then show ?thesis using digit_not_space by (intro trim_fixed) auto
qed

lemma digit_not_in: "is_digit c \<Longrightarrow> (of_char d :: nat) < 48 \<or> 57 < (of_char d :: nat) \<Longrightarrow> c \<noteq> d"
  by (auto simp: is_digit_def)

lemma read_decimal_digits: "all_digits s \<Longrightarrow> read_decimal s = Some (int (parse_nat s))"
proof -
  assume s: "all_digits s"
  then obtain c cs where cs: "s = c # cs" by (cases s) (auto simp: all_digits_def)
  then have c: "is_digit c" using s by (simp add: all_digits_def)
  have "c \<noteq> CHR ''+''" "c \<noteq> CHR ''-''" using c by (auto simp: is_digit_def)
  then have sg: "split_sign s = (1, s)" by (simp add: split_sign_def cs)
  have tw: "takeWhile is_digit s = s" "dropWhile is_digit s = []"
    using s by (simp_all add: all_digits_def list_all_iff)
  show ?thesis unfolding read_decimal_def sg prod.case Let_def tw using cs
    by (simp add: read_exponent_def)
qed

lemma js_integer_digits: "all_digits s \<Longrightarrow> js_integer s = Some (int (parse_nat s))"
proof -
  assume s: "all_digits s"
  have radix: "radix_of x = None" if "x \<in> set s" for x
  proof -
    have "is_digit x" using s that by (auto simp: all_digits_def list_all_iff)
    then have "x \<noteq> CHR ''x''" "x \<noteq> CHR ''X''" "x \<noteq> CHR ''o''" "x \<noteq> CHR ''O''" "x \<noteq> CHR ''b''" "x \<noteq> CHR ''B''"
      by (simp_all add: digit_not_in)
    then show ?thesis by (simp add: radix_of_def)
  qed
  have "js_integer s = read_decimal s"
  proof (cases s)
    case (Cons z r)
    have "trim (z # r) = z # r" using trim_digits[OF s] Cons by simp
    then show ?thesis
      using radix Cons by (cases r) (auto simp: js_integer_def Let_def split: bool.split)
  qed (use s in \<open>simp add: all_digits_def\<close>)
  then show ?thesis by (simp add: read_decimal_digits s)
qed

lemma js_integer_nat_text [simp]: "js_integer (nat_text n) = Some (int n)"
  by (simp add: js_integer_digits all_digits_nat_text parse_nat_text)

section \<open>URLs\<close>

text \<open>\<open>encodeURIComponent\<close> on the bytes of a text.\<close>

definition hex_char :: "nat \<Rightarrow> char" where
  "hex_char d = (if d < 10 then digit_char d else char_of (d + 55))"

definition uri_plain :: "char \<Rightarrow> bool" where
  "uri_plain c \<longleftrightarrow> is_digit c \<or> (65 \<le> (of_char c :: nat) \<and> (of_char c :: nat) \<le> 90) \<or>
     (97 \<le> (of_char c :: nat) \<and> (of_char c :: nat) \<le> 122) \<or> c \<in> set ''-_.!~*'' \<or>
     (of_char c :: nat) \<in> {39, 40, 41}"

definition encode_uri_component :: "string \<Rightarrow> string" where
  "encode_uri_component s =
     concat (map (\<lambda>c. if uri_plain c then [c]
       else CHR ''%'' # [hex_char (of_char c div 16), hex_char (of_char c mod 16)]) s)"

lemma hex_char_code: "d < 16 \<Longrightarrow> (of_char (hex_char d) :: nat) = (if d < 10 then d + 48 else d + 55)"
  by (simp add: hex_char_def digit_char_def)

text \<open>\<open>URLSearchParams\<close>: pairs in order, a key may repeat.\<close>

type_synonym url_params = "(string \<times> string) list"

definition param_get :: "url_params \<Rightarrow> string \<Rightarrow> string option" where
  "param_get ps k = map_of ps k"

definition param_all :: "url_params \<Rightarrow> string \<Rightarrow> string list" where
  "param_all ps k = map snd (filter (\<lambda>p. fst p = k) ps)"

definition param_set :: "string \<Rightarrow> string \<Rightarrow> url_params \<Rightarrow> url_params" where
  "param_set k v ps =
     takeWhile (\<lambda>p. fst p \<noteq> k) ps @ (k, v) # filter (\<lambda>p. fst p \<noteq> k) (dropWhile (\<lambda>p. fst p \<noteq> k) ps)"

lemma param_get_set:
  "param_get (param_set k v ps) j = (if j = k then Some v else param_get ps j)"
proof -
  have other: "j \<noteq> k \<Longrightarrow> map_of (filter (\<lambda>p. fst p \<noteq> k) qs) j = map_of qs j" for qs :: url_params
    by (induction qs) auto
  have "map_of (param_set k v ps) j = (if j = k then Some v else map_of ps j)"
  proof (induction ps)
    case (Cons p ps)
    then show ?case using other[of "p # ps"] by (cases p) (auto simp: param_set_def map_add_def)
  qed (simp add: param_set_def)
  then show ?thesis by (simp add: param_get_def)
qed

lemma param_get_empty [simp]: "param_get [] k = None"
  by (simp add: param_get_def)

end
