(* ===== verification/TimeSlots.thy ===== *)
theory TimeSlots
  imports Dto JsText
begin

text \<open>
  \<open>lib/time.ts\<close>: clock times, slot arithmetic of a day that may run past midnight, and the
  decision where a match is drawn once it has actual times.

  \<open>Number\<close> of a part that is no run of digits is \<open>NaN\<close>, which is \<open>None\<close> here: arithmetic on
  it stays \<open>None\<close> and every comparison with it is false. The two day bounds of a configuration
  are \<open>HH:MM\<close> times (the API schema rejects any other string), so they are read as minutes
  directly; a time stamp of a match is not so restricted and keeps its \<open>None\<close>. Reading a time
  stamp (\<open>Date.parse\<close>) and the local wall clock are the host's, the record \<open>host_clock\<close>.
\<close>

record host_clock =
  hc_parse :: "string \<Rightarrow> int option"      \<comment> \<open>\<open>Date.parse\<close> in ms\<close>
  hc_minutes :: "int \<Rightarrow> int"              \<comment> \<open>local minutes of the day of an instant\<close>
  hc_today :: "int \<Rightarrow> int \<Rightarrow> int"         \<comment> \<open>today at hour and minute, in ms\<close>

definition MIN_PER_DAY :: int where
  "MIN_PER_DAY = 24 * 60"

definition pad2 :: "int \<Rightarrow> string" where
  "pad2 n = (let s = int_text n in replicate (2 - length s) CHR ''0'' @ s)"

text \<open>\<open>Number\<close> on the parts of a time: blank is 0, a run of digits its value; other numeric
  spellings (signs, fractions, exponents) do not occur in times and read as \<open>NaN\<close> here.\<close>

definition js_number :: "string \<Rightarrow> int option" where
  "js_number s =
     (let t = trim s
      in if t = [] then Some 0 else if all_digits t then Some (int (parse_nat t)) else None)"

definition timeToMinutes :: "string \<Rightarrow> int option" where
  "timeToMinutes time =
     (case split_on '':'' time of
        h # m # _ \<Rightarrow>
          (case (js_number h, js_number m) of (Some a, Some b) \<Rightarrow> Some (a * 60 + b) | _ \<Rightarrow> None)
      | _ \<Rightarrow> None)"

definition js_mod :: "int \<Rightarrow> int \<Rightarrow> int" where
  "js_mod a b = (if 0 \<le> a then a mod b else - ((- a) mod b))"

definition minutesToTime :: "int \<Rightarrow> string" where
  "minutesToTime minutes =
     (let total = js_mod (js_mod minutes MIN_PER_DAY + MIN_PER_DAY) MIN_PER_DAY
      in pad2 (total div 60) @ '':'' @ pad2 (js_mod total 60))"

text \<open>\<open>/^([0-1][0-9]|2[0-3]):[0-5][0-9]$/\<close>.\<close>

definition digit_upto :: "nat \<Rightarrow> char \<Rightarrow> bool" where
  "digit_upto k c \<longleftrightarrow> is_digit c \<and> digit_val c \<le> k"

definition isValidTime :: "string \<Rightarrow> bool" where
  "isValidTime time =
     (case time of
        [a, b, s, c, d] \<Rightarrow>
          (digit_upto 1 a \<and> is_digit b \<or> a = CHR ''2'' \<and> digit_upto 3 b) \<and>
          s = CHR '':'' \<and> digit_upto 5 c \<and> is_digit d
      | _ \<Rightarrow> False)"

definition day_start :: "tournament_config \<Rightarrow> int" where
  "day_start config = or_else (timeToMinutes (cf_dayStart config)) 0"

definition day_end :: "tournament_config \<Rightarrow> int" where
  "day_end config = or_else (timeToMinutes (cf_dayEnd config)) 0"

definition isOvernightSchedule :: "tournament_config \<Rightarrow> bool" where
  "isOvernightSchedule config \<longleftrightarrow> day_end config \<le> day_start config"

definition getAdjustedEndMinutes :: "tournament_config \<Rightarrow> int" where
  "getAdjustedEndMinutes config =
     (let start = day_start config; e = day_end config
      in if e \<le> start then e + MIN_PER_DAY else e)"

definition ceil_div :: "int \<Rightarrow> int \<Rightarrow> int" where
  "ceil_div a b = - ((- a) div b)"

definition calculateTotalSlots :: "tournament_config \<Rightarrow> int" where
  "calculateTotalSlots config =
     (let start = day_start config; e = getAdjustedEndMinutes config
      in ceil_div (e - start) (cf_intervalMinutes config))"

definition slotToTime :: "int \<Rightarrow> tournament_config \<Rightarrow> string" where
  "slotToTime slotId config =
     (let start = day_start config
      in minutesToTime (start + slotId * cf_intervalMinutes config))"

definition formatSlotRange :: "int \<Rightarrow> int \<Rightarrow> tournament_config \<Rightarrow> string" where
  "formatSlotRange slotId durationSlots config =
     slotToTime slotId config @ '' - '' @ slotToTime (slotId + durationSlots) config"

definition timeToSlot :: "string \<Rightarrow> tournament_config \<Rightarrow> int option" where
  "timeToSlot time config =
     (let start = day_start config; e = day_end config
      in map_option (\<lambda>t.
           (let t' = (if e \<le> start \<and> t < start then t + MIN_PER_DAY else t)
            in (t' - start) div cf_intervalMinutes config)) (timeToMinutes time))"

text \<open>The slot of a local minute of the day, shared by \<open>getCurrentSlot\<close> and \<open>slotOfMs\<close>.\<close>

definition slot_of_minutes :: "int \<Rightarrow> tournament_config \<Rightarrow> int" where
  "slot_of_minutes mins config =
     (let start = day_start config;
          effective = (if isOvernightSchedule config \<and> mins < start then mins + MIN_PER_DAY else mins)
      in (effective - start) div cf_intervalMinutes config)"

definition getCurrentSlot :: "int \<Rightarrow> tournament_config option \<Rightarrow> int" where
  "getCurrentSlot nowMinutes config =
     (case config of None \<Rightarrow> 0 | Some c \<Rightarrow> max 0 (slot_of_minutes nowMinutes c))"

definition isMatchInProgress ::
  "schedule_assignment \<Rightarrow> match_state_dto option \<Rightarrow> int \<Rightarrow> bool" where
  "isMatchInProgress assignment matchState currentSlot =
     (let status = map_option ms_status matchState
      in if status = Some MStarted then True
         else if status = Some MFinished \<or> status = Some MCalled then False
         else as_slotId assignment \<le> currentSlot \<and>
              currentSlot < as_slotId assignment + as_durationSlots assignment)"

definition getUpcomingMatches ::
  "schedule_assignment list option \<Rightarrow> int \<Rightarrow> nat \<Rightarrow> schedule_assignment list" where
  "getUpcomingMatches schedule currentSlot limit =
     (case schedule of
        None \<Rightarrow> []
      | Some as \<Rightarrow> take limit (sort_key as_slotId (filter (\<lambda>a. currentSlot \<le> as_slotId a) as)))"

text \<open>\<open>/^(\d{2}):(\d{2})$/\<close> on the trimmed text, for the legacy stamps.\<close>

definition legacy_hhmm :: "string \<Rightarrow> (int \<times> int) option" where
  "legacy_hhmm s =
     (case trim s of
        [a, b, c, d, e] \<Rightarrow>
          if is_digit a \<and> is_digit b \<and> c = CHR '':'' \<and> is_digit d \<and> is_digit e
          then Some (int (parse_nat [a, b]), int (parse_nat [d, e])) else None
      | _ \<Rightarrow> None)"

definition parseMatchStartMs :: "host_clock \<Rightarrow> string option \<Rightarrow> int option" where
  "parseMatchStartMs hc value =
     (case value of
        None \<Rightarrow> None
      | Some v \<Rightarrow>
          if v = [] then None
          else case hc_parse hc v of
            Some t \<Rightarrow> Some t
          | None \<Rightarrow>
              (case legacy_hhmm v of
                 Some (hh, mm) \<Rightarrow>
                   if 0 \<le> hh \<and> hh \<le> 23 \<and> 0 \<le> mm \<and> mm \<le> 59 then Some (hc_today hc hh mm) else None
               | None \<Rightarrow> None))"

definition slotOfMs :: "host_clock \<Rightarrow> int \<Rightarrow> tournament_config \<Rightarrow> int" where
  "slotOfMs hc ms config = slot_of_minutes (hc_minutes hc ms) config"

definition msToSlot :: "host_clock \<Rightarrow> int \<Rightarrow> tournament_config \<Rightarrow> int" where
  "msToSlot hc ms config = max 0 (slotOfMs hc ms config)"

definition ACTUAL_DRIFT_LIMIT_MINUTES :: int where
  "ACTUAL_DRIFT_LIMIT_MINUTES = 240"

definition isNearPlan :: "int \<Rightarrow> int \<Rightarrow> tournament_config \<Rightarrow> bool" where
  "isNearPlan actualSlot planSlotId config \<longleftrightarrow>
     \<bar>actualSlot - planSlotId\<bar> * cf_intervalMinutes config \<le> ACTUAL_DRIFT_LIMIT_MINUTES"

text \<open>\<open>Math.round(minutes / interval)\<close> of an elapsed time in ms: round half up.\<close>

definition round_slots :: "int \<Rightarrow> int \<Rightarrow> int" where
  "round_slots elapsedMs interval =
     (2 * elapsedMs + 60000 * interval) div (2 * (60000 * interval))"

definition truthy :: "string option \<Rightarrow> bool" where
  "truthy s \<longleftrightarrow> s \<noteq> None \<and> s \<noteq> Some []"

text \<open>The finished branch of \<open>getRenderSlot\<close>; \<open>None\<close> falls through to the next test.\<close>

definition render_finished ::
  "host_clock \<Rightarrow> int \<times> int \<Rightarrow> match_state_dto \<Rightarrow> tournament_config \<Rightarrow> (int \<times> int) option" where
  "render_finished hc plan st config =
     (if ms_status st = MFinished \<and> truthy (ms_actualStartTime st) \<and> truthy (ms_actualEndTime st)
      then case (parseMatchStartMs hc (ms_actualStartTime st),
                 parseMatchStartMs hc (ms_actualEndTime st)) of
          (Some startMs, Some endMs) \<Rightarrow>
            if endMs \<ge> startMs
            then (let startSlot = slotOfMs hc startMs config
                  in if isNearPlan startSlot (fst plan) config
                     then Some (max 0 startSlot,
                            if endMs - startMs \<le> ACTUAL_DRIFT_LIMIT_MINUTES * 60000
                            then max 1 (round_slots (endMs - startMs) (cf_intervalMinutes config))
                            else snd plan)
                     else None)
            else None
        | _ \<Rightarrow> None
      else None)"

definition render_started ::
  "host_clock \<Rightarrow> int \<times> int \<Rightarrow> match_state_dto \<Rightarrow> tournament_config \<Rightarrow> (int \<times> int) option" where
  "render_started hc plan st config =
     (if ms_status st = MStarted \<and> truthy (ms_actualStartTime st)
      then case parseMatchStartMs hc (ms_actualStartTime st) of
          Some startMs \<Rightarrow>
            (let startSlot = slotOfMs hc startMs config
             in if isNearPlan startSlot (fst plan) config
                then Some (max 0 startSlot, snd plan) else None)
        | None \<Rightarrow> None
      else None)"

definition getRenderSlot ::
  "host_clock \<Rightarrow> int \<times> int \<Rightarrow> match_state_dto option \<Rightarrow> tournament_config \<Rightarrow> int \<times> int" where
  "getRenderSlot hc plan matchState config =
     (case matchState of
        None \<Rightarrow> plan
      | Some st \<Rightarrow>
          or_else (or_opt (render_finished hc plan st config) (render_started hc plan st config)) plan)"

definition hasStaleActualTiming ::
  "host_clock \<Rightarrow> int \<Rightarrow> match_state_dto option \<Rightarrow> tournament_config \<Rightarrow> bool" where
  "hasStaleActualTiming hc planSlot matchState config =
     (case matchState of
        None \<Rightarrow> False
      | Some st \<Rightarrow>
          if ms_status st \<noteq> MStarted \<and> ms_status st \<noteq> MFinished then False
          else case parseMatchStartMs hc (ms_actualStartTime st) of
            None \<Rightarrow> False
          | Some startMs \<Rightarrow> \<not> isNearPlan (slotOfMs hc startMs config) planSlot config)"

section \<open>Clock facts\<close>

lemma div_int_pos_less:
  assumes "0 < (k :: int)" "a div k < q"
  shows "a < q * k"
proof -
  have "a mod k < k" using assms(1) by simp
  moreover have "(a div k + 1) * k \<le> q * k" using assms by (intro mult_right_mono) linarith+
  moreover have "(a div k + 1) * k = a div k * k + k" by (simp add: distrib_right)
  moreover have "a div k * k + a mod k = a" by (rule div_mult_mod_eq)
  ultimately show ?thesis by linarith
qed

lemma mod_second_turn: "(k :: int) \<le> x \<Longrightarrow> x < 2 * k \<Longrightarrow> x mod k = x - k"
proof -
  assume "k \<le> x" "x < 2 * k"
  then have "(x - k) mod k = x - k" by (intro mod_pos_pos_trivial) auto
  then show ?thesis by simp
qed

text \<open>Every clock time is one of 1440: the round trip of formatting is a finite check, done on
  the two halves separately.\<close>

lemma upt_cases: "0 \<le> (n :: int) \<Longrightarrow> n < int k \<Longrightarrow> n \<in> int ` {0..<k}"
  by (auto simp: image_iff intro: bexI[of _ "nat n"])

lemma pad2_cases:
  assumes "0 \<le> n" "n < 100"
  shows "pad2 n = [digit_char (nat n div 10), digit_char (nat n mod 10)]"
proof (cases "n < 10")
  case True
  with assms have "nat n < 10" by simp
  moreover have "digit_char 0 = CHR ''0''" by (simp only: digit_char_def zero_char add_0_right)
  ultimately show ?thesis using assms by (simp add: pad2_def int_text_def nat_text_small Let_def)
next
  case False
  with assms have "\<not> nat n < 10" "nat n div 10 < 10" by auto
  then show ?thesis using assms
    by (simp add: pad2_def int_text_def nat_text_large nat_text_small Let_def)
qed

lemma js_mod_day:
  "js_mod (js_mod m MIN_PER_DAY + MIN_PER_DAY) MIN_PER_DAY = m mod MIN_PER_DAY"
proof -
  have pos: "0 < MIN_PER_DAY" by (simp add: MIN_PER_DAY_def)
  have "- MIN_PER_DAY < js_mod m MIN_PER_DAY"
    using pos by (auto simp: js_mod_def) (smt (verit) pos_mod_sign)
  then have nn: "0 \<le> js_mod m MIN_PER_DAY + MIN_PER_DAY" by simp
  have "js_mod m MIN_PER_DAY mod MIN_PER_DAY = m mod MIN_PER_DAY"
    by (auto simp: js_mod_def mod_minus_eq)
  then show ?thesis using nn by (simp add: js_mod_def)
qed

lemma minutesToTime_parts:
  "minutesToTime m = pad2 (m mod MIN_PER_DAY div 60) @ '':'' @ pad2 (m mod MIN_PER_DAY mod 60)"
proof -
  have "0 \<le> m mod MIN_PER_DAY" by (simp add: MIN_PER_DAY_def)
  then show ?thesis unfolding minutesToTime_def Let_def js_mod_day by (simp add: js_mod_def)
qed

lemma js_space_digit: "is_digit c \<Longrightarrow> \<not> js_space c"
  by (auto simp: is_digit_def js_space_def)

lemma digit_not_colon: "is_digit c \<Longrightarrow> c \<noteq> CHR '':''"
  by (auto simp: is_digit_def)

lemma js_number_two:
  assumes "is_digit a" "is_digit b"
  shows "js_number [a, b] = Some (int (10 * digit_val a + digit_val b))"
proof -
  have "trim [a, b] = [a, b]"
    using assms by (intro trim_fixed) (simp add: js_space_digit)
  then show ?thesis using assms
    by (simp add: js_number_def Let_def all_digits_def parse_nat_def)
qed

lemma split_clock:
  assumes "is_digit a" "is_digit b" "is_digit c" "is_digit d"
  shows "split_on '':'' [a, b, CHR '':'', c, d] = [[a, b], [c, d]]"
  using assms[THEN digit_not_colon] by (simp add: split_on_def)

lemma timeToMinutes_digits:
  assumes "is_digit a" "is_digit b" "is_digit c" "is_digit d"
  shows "timeToMinutes [a, b, CHR '':'', c, d] =
     Some (int (10 * digit_val a + digit_val b) * 60 + int (10 * digit_val c + digit_val d))"
  using assms by (simp add: timeToMinutes_def split_clock js_number_two)

lemma clock_digits:
  assumes "0 \<le> n" "n < 100"
  shows "is_digit (digit_char (nat n div 10))" "is_digit (digit_char (nat n mod 10))"
    "int (10 * digit_val (digit_char (nat n div 10)) + digit_val (digit_char (nat n mod 10))) = n"
proof -
  have "nat n div 10 < 10" using assms by auto
  then show "is_digit (digit_char (nat n div 10))" "is_digit (digit_char (nat n mod 10))"
    "int (10 * digit_val (digit_char (nat n div 10)) + digit_val (digit_char (nat n mod 10))) = n"
    using assms by (simp_all add: digit_char_is_digit digit_val_char)
qed

lemma timeToMinutes_minutesToTime: "timeToMinutes (minutesToTime m) = Some (m mod MIN_PER_DAY)"
proof -
  let ?t = "m mod MIN_PER_DAY"
  have t: "0 \<le> ?t" "?t < 1440" by (simp_all add: MIN_PER_DAY_def)
  then have h: "0 \<le> ?t div 60" "?t div 60 < 100" and mm: "0 \<le> ?t mod 60" "?t mod 60 < 100"
    by (auto simp: pos_imp_zdiv_nonneg_iff)
  note dh = clock_digits[OF h] and dm = clock_digits[OF mm]
  have "minutesToTime m = [digit_char (nat (?t div 60) div 10), digit_char (nat (?t div 60) mod 10),
      CHR '':'', digit_char (nat (?t mod 60) div 10), digit_char (nat (?t mod 60) mod 10)]"
    unfolding minutesToTime_parts by (simp add: pad2_cases[OF h] pad2_cases[OF mm])
  then have "timeToMinutes (minutesToTime m) = Some (?t div 60 * 60 + ?t mod 60)"
    by (simp only: timeToMinutes_digits[OF dh(1,2) dm(1,2)] dh(3) dm(3))
  also have "?t div 60 * 60 + ?t mod 60 = ?t" by (rule div_mult_mod_eq)
  finally show ?thesis .
qed

lemma digit_upto_3_2: "c = CHR ''2'' \<Longrightarrow> is_digit c \<and> digit_val c = 2"
  by (simp add: is_digit_def digit_val_def)

lemma valid_time_minutes:
  assumes "isValidTime s"
  obtains n where "timeToMinutes s = Some n" "0 \<le> n" "n < 1440"
proof -
  obtain a b c d where s: "s = [a, b, CHR '':'', c, d]"
    and ab: "digit_upto 1 a \<and> is_digit b \<or> a = CHR ''2'' \<and> digit_upto 3 b"
    and cd: "digit_upto 5 c" "is_digit d"
    using assms by (auto simp: isValidTime_def split: list.splits)
  have dig: "is_digit a" "is_digit b" "is_digit c" using ab cd digit_upto_3_2
    by (auto simp: digit_upto_def)
  have "10 * digit_val a + digit_val b < 24"
    using ab digit_val_less[OF dig(2)] digit_upto_3_2[of a] by (auto simp: digit_upto_def)
  moreover have "10 * digit_val c + digit_val d < 60"
    using cd digit_val_less[OF cd(2)] by (auto simp: digit_upto_def)
  ultimately show ?thesis using that timeToMinutes_digits[OF dig cd(2)] s by simp
qed

text \<open>The configurations the API accepts.\<close>

definition valid_config :: "tournament_config \<Rightarrow> bool" where
  "valid_config c \<longleftrightarrow> isValidTime (cf_dayStart c) \<and> isValidTime (cf_dayEnd c) \<and> 0 < cf_intervalMinutes c"

lemma valid_config_bounds:
  assumes "valid_config c"
  shows "0 \<le> day_start c" "day_start c < MIN_PER_DAY" "0 \<le> day_end c" "day_end c < MIN_PER_DAY"
    "0 < cf_intervalMinutes c"
proof -
  obtain a where a: "timeToMinutes (cf_dayStart c) = Some a" "0 \<le> a" "a < 1440"
    using assms valid_time_minutes unfolding valid_config_def by metis
  obtain b where b: "timeToMinutes (cf_dayEnd c) = Some b" "0 \<le> b" "b < 1440"
    using assms valid_time_minutes unfolding valid_config_def by metis
  show "0 \<le> day_start c" "day_start c < MIN_PER_DAY" "0 \<le> day_end c" "day_end c < MIN_PER_DAY"
    using a b by (simp_all add: day_start_def day_end_def MIN_PER_DAY_def)
  show "0 < cf_intervalMinutes c" using assms by (simp add: valid_config_def)
qed

lemma render_started_near:
  "render_started hc plan st c = Some (s, d) \<Longrightarrow>
   \<exists>ms. parseMatchStartMs hc (ms_actualStartTime st) = Some ms \<and>
        isNearPlan (slotOfMs hc ms c) (fst plan) c \<and> s = max 0 (slotOfMs hc ms c) \<and> d = snd plan"
  by (auto simp: render_started_def Let_def split: if_splits option.splits)

lemma render_finished_near:
  "render_finished hc plan st c = Some (s, d) \<Longrightarrow>
   \<exists>ms. parseMatchStartMs hc (ms_actualStartTime st) = Some ms \<and>
        isNearPlan (slotOfMs hc ms c) (fst plan) c \<and> s = max 0 (slotOfMs hc ms c) \<and>
        (d = snd plan \<or> 1 \<le> d)"
  by (auto simp: render_finished_def Let_def split: if_splits option.splits)

lemma getRenderSlot_stale:
  "hasStaleActualTiming hc (fst plan) st c \<Longrightarrow> getRenderSlot hc plan st c = plan"
  by (auto simp: hasStaleActualTiming_def getRenderSlot_def render_finished_def render_started_def
      Let_def split: option.splits if_splits)

text \<open>The caption guard asks only about started and finished matches.\<close>

lemma stale_guard_skips_retired:
  "ms_status st = MRetired \<Longrightarrow> \<not> hasStaleActualTiming hc plan (Some st) c"
  by (simp add: hasStaleActualTiming_def)

section \<open>Properties\<close>

text \<open>Slots and clock times are inverse within a day: for a configuration the API accepts, the
  clock time of a slot that begins before the day is one full turn long converts back to exactly
  that slot, also when the day runs past midnight.\<close>

theorem slot_time_roundtrip:
  assumes "valid_config c" "0 \<le> s" "s < calculateTotalSlots c"
  shows "timeToSlot (slotToTime s c) c = Some s"
proof -
  note b = valid_config_bounds[OF assms(1)]
  let ?i = "cf_intervalMinutes c" and ?a = "day_start c" and ?e = "getAdjustedEndMinutes c"
  have "s * ?i < ?e - ?a"
  proof -
    have "s < - ((- (?e - ?a)) div ?i)" using assms(3) by (simp add: calculateTotalSlots_def ceil_div_def)
    then have "(- (?e - ?a)) div ?i < - s" by linarith
    then have "- (?e - ?a) < - s * ?i" using div_int_pos_less[OF b(5)] by blast
    then show ?thesis by simp
  qed
  have si: "0 \<le> s * ?i" using assms(2) b(5) by simp
  have "timeToMinutes (slotToTime s c) = Some ((?a + s * ?i) mod MIN_PER_DAY)"
    by (simp add: slotToTime_def timeToMinutes_minutesToTime)
  moreover have "(let t = (?a + s * ?i) mod MIN_PER_DAY;
      t' = (if day_end c \<le> ?a \<and> t < ?a then t + MIN_PER_DAY else t) in t' - ?a) = s * ?i"
  proof (cases "?a + s * ?i < MIN_PER_DAY")
    case True
    then show ?thesis using b si by (simp add: Let_def)
  next
    case False
    have night: "day_end c \<le> ?a"
    proof (rule ccontr)
      assume "\<not> day_end c \<le> ?a"
      then have "?e = day_end c" by (simp add: getAdjustedEndMinutes_def)
      then show False using \<open>s * ?i < ?e - ?a\<close> b(4) False by linarith
    qed
    then have e: "?e = day_end c + MIN_PER_DAY" by (simp add: getAdjustedEndMinutes_def)
    then have lt: "?a + s * ?i < 2 * MIN_PER_DAY" using \<open>s * ?i < ?e - ?a\<close> b(4) by linarith
    then have "(?a + s * ?i) mod MIN_PER_DAY = ?a + s * ?i - MIN_PER_DAY"
      using False by (intro mod_second_turn) auto
    moreover have "?a + s * ?i - MIN_PER_DAY < ?a"
      using \<open>s * ?i < ?e - ?a\<close> e night by linarith
    ultimately show ?thesis using night by (simp add: Let_def)
  qed
  ultimately show ?thesis using b(5) by (simp add: timeToSlot_def Let_def)
qed

definition night_config :: tournament_config where
  "night_config = \<lparr>cf_intervalMinutes = 30, cf_dayStart = ''22:00'', cf_dayEnd = ''06:00'',
     cf_courtCount = 4, cf_defaultRestMinutes = 30, cf_rankCounts = None\<rparr>"

lemma night_config_valid: "valid_config night_config"
  by (simp add: valid_config_def night_config_def isValidTime_def digit_upto_def is_digit_def
      digit_val_def)

lemma night_config_day: "day_start night_config = 1320" "day_end night_config = 360"
  by (simp_all add: day_start_def day_end_def night_config_def timeToMinutes_digits is_digit_def
      digit_val_def)

theorem slot_time_roundtrip_witness:
  "timeToSlot (slotToTime 5 night_config) night_config = Some 5"
  by (rule slot_time_roundtrip[OF night_config_valid])
     (simp_all add: calculateTotalSlots_def getAdjustedEndMinutes_def night_config_day Let_def
       MIN_PER_DAY_def ceil_div_def night_config_def[THEN arg_cong, of cf_intervalMinutes])

text \<open>A drawn position never strays from the plan: wherever \<open>getRenderSlot\<close> puts a match, the
  slot is the planned one or within the four-hour drift limit of it, the span is the planned one
  or at least one slot, and a match whose stamp is reported stale is drawn exactly at its plan.\<close>

theorem render_slot_near_plan:
  assumes "0 < cf_intervalMinutes c" "0 \<le> fst plan" "getRenderSlot hc plan st c = (s, d)"
  shows "(s = fst plan \<or> \<bar>s - fst plan\<bar> * cf_intervalMinutes c \<le> 240) \<and>
         (d = snd plan \<or> 1 \<le> d) \<and>
         (hasStaleActualTiming hc (fst plan) st c \<longrightarrow> (s, d) = plan)"
proof -
  have near: "\<bar>max 0 x - fst plan\<bar> * cf_intervalMinutes c \<le> 240"
    if "isNearPlan x (fst plan) c" for x
  proof -
    have "\<bar>max 0 x - fst plan\<bar> \<le> \<bar>x - fst plan\<bar>" using assms(2) by linarith
    then have "\<bar>max 0 x - fst plan\<bar> * cf_intervalMinutes c \<le> \<bar>x - fst plan\<bar> * cf_intervalMinutes c"
      using assms(1) by (intro mult_right_mono) auto
    then show ?thesis using that by (simp add: isNearPlan_def ACTUAL_DRIFT_LIMIT_MINUTES_def)
  qed
  have "(s = fst plan \<or> \<bar>s - fst plan\<bar> * cf_intervalMinutes c \<le> 240) \<and> (d = snd plan \<or> 1 \<le> d)"
  proof (cases st)
    case None
    then show ?thesis using assms(3) by (auto simp: getRenderSlot_def)
  next
    case (Some m)
    show ?thesis
    proof (cases "or_opt (render_finished hc plan m c) (render_started hc plan m c)")
      case None
      then show ?thesis using assms(3) Some by (simp add: getRenderSlot_def)
    next
      case (Some r)
      then have "render_finished hc plan m c = Some (s, d) \<or> render_started hc plan m c = Some (s, d)"
        using assms(3) \<open>st = Some m\<close>
        by (cases "render_finished hc plan m c") (auto simp: getRenderSlot_def)
      then show ?thesis using render_finished_near render_started_near near by metis
    qed
  qed
  then show ?thesis using getRenderSlot_stale assms(3) by metis
qed

definition demo_clock :: host_clock where
  "demo_clock = \<lparr>hc_parse = (\<lambda>s. if s = ''t1'' then Some 0 else None),
     hc_minutes = (\<lambda>ms. 1380), hc_today = (\<lambda>h m. 0)\<rparr>"

theorem render_slot_near_plan_witness:
  "let (s, d) = getRenderSlot demo_clock (3, 2)
       (Some ((bare_match_state ''m'' MStarted)\<lparr>ms_actualStartTime := Some ''t1''\<rparr>)) night_config
   in s = 3 \<or> \<bar>s - 3\<bar> * 30 \<le> 240"
proof -
  obtain s d where sd: "getRenderSlot demo_clock (3, 2)
      (Some ((bare_match_state ''m'' MStarted)\<lparr>ms_actualStartTime := Some ''t1''\<rparr>)) night_config = (s, d)"
    by fastforce
  have i: "cf_intervalMinutes night_config = 30" by (simp add: night_config_def)
  show ?thesis using render_slot_near_plan[OF _ _ sd] i unfolding sd by simp
qed

end
