(* ===== verification/MatchIdentity.thy ===== *)
theory MatchIdentity
  imports JsText
begin

text \<open>
  How a match and its sides are named: the decomposed identity of
  \<open>platform/domain/matchIdentity.ts\<close> with its one formatter, the structured sides of
  \<open>platform/domain/sides.ts\<close>, and the bracket adapter \<open>platform/domain/bracketLabels.ts\<close>.
  The middle dot and the en dash are written as the bytes of their UTF-8 encoding.
\<close>

definition middot :: string where
  "middot = [CHR 0xC2, CHR 0xB7]"

definition endash :: string where
  "endash = [CHR 0xE2, CHR 0x80, CHR 0x93]"

section \<open>Identity values\<close>

datatype bracket_phase_kind = Elimination | RoundRobin

record bracket_match_phase =
  ph_kind :: bracket_phase_kind
  ph_round_index :: int
  ph_stage :: string
  ph_segment :: "string option"
  ph_main_segment :: "string option"

text \<open>\<open>BracketIdentity event_code phase sequence\<close> and \<open>MeetIdentity event_code position
  sequence\<close>; the constructors \<open>bracketMatchIdentity\<close> and \<open>meetMatchIdentity\<close> of the source
  are these.\<close>

datatype match_identity =
    BracketIdentity string bracket_match_phase int
  | MeetIdentity string "int option" "int option"

record meet_rank_coordinates =
  rk_event_code :: string
  rk_position :: "int option"

text \<open>The sorted candidate list of \<open>decomposeMeetEventRank\<close>: trimmed, non-empty, without
  duplicates (a \<open>Set\<close> keeps the first), longest first.\<close>

definition js_set :: "'a list \<Rightarrow> 'a list" where
  "js_set xs = rev (remdups (rev xs))"

definition configured_codes :: "string list \<Rightarrow> string list" where
  "configured_codes codes =
     sort_key (\<lambda>c. - int (length c)) (js_set (filter (\<lambda>c. c \<noteq> []) (map trim codes)))"

fun match_configured :: "string \<Rightarrow> string list \<Rightarrow> meet_rank_coordinates option" where
  "match_configured rank [] = None"
| "match_configured rank (eventCode # codes) =
     (if \<not> prefix eventCode rank then match_configured rank codes
      else let suffix = drop (length eventCode) rank
           in if pos_numeral suffix
              then Some \<lparr>rk_event_code = eventCode, rk_position = Some (int (parse_nat suffix))\<rparr>
              else if suffix = [] then Some \<lparr>rk_event_code = eventCode, rk_position = None\<rparr>
              else match_configured rank codes)"

definition is_upper :: "char \<Rightarrow> bool" where
  "is_upper c \<longleftrightarrow> 65 \<le> (of_char c :: nat) \<and> (of_char c :: nat) \<le> 90"

definition decomposeMeetEventRank :: "string option \<Rightarrow> string list \<Rightarrow> meet_rank_coordinates" where
  "decomposeMeetEventRank eventRank configuredEventCodes =
     (let rank = (case eventRank of None \<Rightarrow> [] | Some r \<Rightarrow> trim r)
      in if rank = [] then \<lparr>rk_event_code = [], rk_position = None\<rparr>
         else case match_configured rank (configured_codes configuredEventCodes) of
           Some r \<Rightarrow> r
         | None \<Rightarrow>
             (let letters = takeWhile is_upper rank; digits = dropWhile is_upper rank
              in if letters \<noteq> [] \<and> pos_numeral digits
                 then \<lparr>rk_event_code = letters, rk_position = Some (int (parse_nat digits))\<rparr>
                 else \<lparr>rk_event_code = rank, rk_position = None\<rparr>))"

definition meetMatchIdentityFromStored ::
  "string option \<Rightarrow> int option \<Rightarrow> string list \<Rightarrow> match_identity" where
  "meetMatchIdentityFromStored event_rank sequence configured =
     (let rank = decomposeMeetEventRank event_rank configured
      in MeetIdentity (rk_event_code rank) (rk_position rank) sequence)"

text \<open>\<open>/^P(\d+)_(\d+)$/\<close>.\<close>

definition positions_segment :: "string \<Rightarrow> (string \<times> string) option" where
  "positions_segment segment =
     (case segment of
        [] \<Rightarrow> None
      | p # rest \<Rightarrow>
          (let a = takeWhile is_digit rest; b = dropWhile is_digit rest
           in if p = CHR ''P'' \<and> a \<noteq> [] \<and> b \<noteq> [] \<and> hd b = CHR ''_'' \<and> all_digits (tl b)
              then Some (a, tl b) else None))"

definition segmentShort :: "string \<Rightarrow> bracket_phase_kind \<Rightarrow> string option \<Rightarrow> string" where
  "segmentShort segment kind mainSegment =
     (if kind = Elimination \<and> mainSegment = Some segment then []
      else if segment = ''L'' then ''L''
      else if segment = ''PLATE'' then ''PL''
      else case positions_segment segment of
        Some (a, b) \<Rightarrow> a @ endash @ b
      | None \<Rightarrow> segment)"

fun formatMatchIdentity :: "match_identity \<Rightarrow> string option \<Rightarrow> string" where
  "formatMatchIdentity (MeetIdentity event_code position sequence) machineId =
     (if event_code \<noteq> []
      then (case position of Some n \<Rightarrow> event_code @ int_text n | None \<Rightarrow> event_code)
      else case sequence of
        Some n \<Rightarrow> ''M'' @ int_text n
      | None \<Rightarrow> (case machineId of Some i \<Rightarrow> take 6 i | None \<Rightarrow> []))"
| "formatMatchIdentity (BracketIdentity event_code phase sequence) machineId =
     (if ph_kind phase = RoundRobin
      then event_code @ '' '' @ ph_stage phase @ middot @ int_text sequence
      else if ph_segment phase = Some ''GF''
      then event_code @ '' GF'' @ (if ph_round_index phase > 0 \<or> sequence > 1 then ''-R'' else [])
      else
        (let tag = (case ph_segment phase of
               Some s \<Rightarrow> if s \<noteq> [] then segmentShort s (ph_kind phase) (ph_main_segment phase) else []
             | None \<Rightarrow> []);
             head = (if tag \<noteq> [] then event_code @ '' '' @ tag else event_code)
         in if ph_stage phase = ''F'' then head @ '' F''
            else head @ '' '' @ ph_stage phase @
                 (if prefix ''R'' (ph_stage phase) then middot else []) @ int_text sequence))"

section \<open>Sides\<close>

record person_ref =
  pr_id :: "string option"
  pr_name :: string

datatype unresolved_side =
    Bye
  | PendingMember "person_ref list" int
  | WinnerOf string
  | LoserOf string
  | Withheld
  | Undetermined

record side =
  sd_persons :: "person_ref list"
  sd_unresolved :: "unresolved_side option"
  sd_seed :: "int option"
  sd_participantKey :: "string option"

definition UNDETERMINED :: side where
  "UNDETERMINED = \<lparr>sd_persons = [], sd_unresolved = Some Undetermined, sd_seed = None,
                   sd_participantKey = None\<rparr>"

definition meetSideFromIds :: "string list option \<Rightarrow> (string, string) dict \<Rightarrow> side" where
  "meetSideFromIds ids nameById =
     (case ids of
        None \<Rightarrow> UNDETERMINED
      | Some l \<Rightarrow>
          if l = [] then UNDETERMINED
          else \<lparr>sd_persons = map (\<lambda>i. \<lparr>pr_id = Some i, pr_name = or_else (map_of nameById i) i\<rparr>) l,
                sd_unresolved = None, sd_seed = None,
                sd_participantKey = (if length l = 1 then Some (hd l) else None)\<rparr>)"

datatype wire_kind = KBye | KPendingMember | KWinnerOf | KLoserOf | KWithheld | KUndetermined

record wire_unresolved =
  wu_kind :: wire_kind
  wu_known :: "person_ref list option"
  wu_missing :: "int option"
  wu_reference :: "string option"

record wire_side =
  ws_persons :: "person_ref list option"
  ws_unresolved :: "wire_unresolved option"
  ws_seed :: "int option"
  ws_participantKey :: "string option"

definition sideFromWire :: "wire_side option \<Rightarrow> side" where
  "sideFromWire dto =
     (case dto of
        None \<Rightarrow> UNDETERMINED
      | Some d \<Rightarrow>
          (let persons = or_else (ws_persons d) [];
               unresolved =
                 (case ws_unresolved d of
                    Some u \<Rightarrow>
                      Some (case wu_kind u of
                          KBye \<Rightarrow> Bye
                        | KWithheld \<Rightarrow> Withheld
                        | KUndetermined \<Rightarrow> Undetermined
                        | KWinnerOf \<Rightarrow> WinnerOf (or_else (wu_reference u) [])
                        | KLoserOf \<Rightarrow> LoserOf (or_else (wu_reference u) [])
                        | KPendingMember \<Rightarrow> PendingMember (or_else (wu_known u) []) (or_else (wu_missing u) 1))
                  | None \<Rightarrow> if persons = [] then Some Undetermined else None)
           in \<lparr>sd_persons = persons, sd_unresolved = unresolved, sd_seed = ws_seed d,
               sd_participantKey = ws_participantKey d\<rparr>))"

definition relabel :: "(string, string) dict \<Rightarrow> string \<Rightarrow> string" where
  "relabel labelById raw =
     (case map_of labelById raw of None \<Rightarrow> raw | Some l \<Rightarrow> if l = [] \<or> l = raw then raw else l)"

definition resolveFeederReference :: "side \<Rightarrow> (string, string) dict \<Rightarrow> side" where
  "resolveFeederReference s labelById =
     (case sd_unresolved s of
        Some (WinnerOf raw) \<Rightarrow> s\<lparr>sd_unresolved := Some (WinnerOf (relabel labelById raw))\<rparr>
      | Some (LoserOf raw) \<Rightarrow> s\<lparr>sd_unresolved := Some (LoserOf (relabel labelById raw))\<rparr>
      | _ \<Rightarrow> s)"

definition PARTNER_PENDING :: string where
  "PARTNER_PENDING = ''partner to be confirmed''"

definition formatSideLines :: "side \<Rightarrow> string list" where
  "formatSideLines s =
     (if sd_persons s \<noteq> []
      then map pr_name (sd_persons s) @
           (case sd_unresolved s of Some (PendingMember _ _) \<Rightarrow> [PARTNER_PENDING] | _ \<Rightarrow> [])
      else case or_else (sd_unresolved s) Undetermined of
          Bye \<Rightarrow> [''Bye'']
        | WinnerOf r \<Rightarrow> [''Winner of '' @ r]
        | LoserOf r \<Rightarrow> [''Loser of '' @ r]
        | Withheld \<Rightarrow> [''Player not published'']
        | PendingMember known missing \<Rightarrow> map pr_name known @ [PARTNER_PENDING]
        | Undetermined \<Rightarrow> [''To be decided''])"

definition formatSideCondensed :: "side \<Rightarrow> string" where
  "formatSideCondensed s = join_with '' / '' (formatSideLines s)"

definition sideSummaryText :: "side \<Rightarrow> string" where
  "sideSummaryText s = join_with '' and '' (formatSideLines s)"

definition sideSummaryPhrase :: "side \<Rightarrow> side \<Rightarrow> string" where
  "sideSummaryPhrase a b = sideSummaryText a @ '' versus '' @ sideSummaryText b"

definition isEmptySide :: "side \<Rightarrow> bool" where
  "isEmptySide s \<longleftrightarrow> length (formatSideLines s) = 0"

definition formatPersonName :: "string \<Rightarrow> string" where
  "formatPersonName name = trim name"

definition formatSideName :: "string \<Rightarrow> string \<Rightarrow> string" where
  "formatSideName s joiner = join_with joiner (map formatPersonName (split_on joiner s))"

definition sideNameLines :: "string \<Rightarrow> string \<Rightarrow> string list" where
  "sideNameLines s joiner = map formatPersonName (split_on joiner s)"

section \<open>Bracket labels\<close>

text \<open>The fields of \<open>BracketTournamentDTO\<close> that the adapters read.\<close>

record bracket_slot =
  bs_participant_id :: "string option"
  bs_feeder_play_unit_id :: "string option"
  bs_feeder_take_loser :: bool

record play_unit =
  pu_id :: string
  pu_event_id :: string
  pu_round_index :: int
  pu_match_index :: int
  pu_side_a :: "string list option"
  pu_side_b :: "string list option"
  pu_slot_a :: bracket_slot
  pu_slot_b :: bracket_slot
  pu_segment :: "string option"

record bracket_event =
  ev_id :: string
  ev_discipline :: string
  ev_format :: string

definition roundStage :: "int \<Rightarrow> string" where
  "roundStage roundsFromFinal =
     (if roundsFromFinal \<le> 0 then ''F''
      else if roundsFromFinal = 1 then ''SF''
      else if roundsFromFinal = 2 then ''QF''
      else ''R'' @ int_text (2 ^ nat (roundsFromFinal + 1)))"

definition MAIN_SEGMENT :: "(string, string) dict" where
  "MAIN_SEGMENT = [(''de'', ''W''), (''monrad'', ''M''), (''compass'', ''E'')]"

definition playUnitIdentity ::
  "string \<Rightarrow> string \<Rightarrow> int \<Rightarrow> int \<Rightarrow> int \<Rightarrow> string option \<Rightarrow> match_identity" where
  "playUnitIdentity discipline fmt roundIndex matchIndex maxRound segment =
     (let roundRobin = (fmt = ''rr'');
          stage = (if roundRobin then ''R'' @ int_text (roundIndex + 1)
                   else roundStage (maxRound - roundIndex))
      in BracketIdentity discipline
           \<lparr>ph_kind = (if roundRobin then RoundRobin else Elimination),
            ph_round_index = roundIndex, ph_stage = stage, ph_segment = segment,
            ph_main_segment = map_of MAIN_SEGMENT fmt\<rparr>
           (matchIndex + 1))"

definition playUnitLabel ::
  "string \<Rightarrow> string \<Rightarrow> int \<Rightarrow> int \<Rightarrow> int \<Rightarrow> string option \<Rightarrow> string" where
  "playUnitLabel discipline fmt roundIndex matchIndex maxRound segment =
     formatMatchIdentity (playUnitIdentity discipline fmt roundIndex matchIndex maxRound segment) None"

definition groupOf :: "play_unit \<Rightarrow> string" where
  "groupOf pu = pu_event_id pu @ ''::'' @ or_else (pu_segment pu) []"

definition max_rounds :: "play_unit list \<Rightarrow> (string, int) dict" where
  "max_rounds pus =
     fold (\<lambda>pu m. if pu_round_index pu > or_else (map_of m (groupOf pu)) (- 1)
                  then AList.update (groupOf pu) (pu_round_index pu) m else m) pus []"

definition buildPlayUnitIdentities ::
  "bracket_event list \<Rightarrow> play_unit list \<Rightarrow> (string, match_identity) dict" where
  "buildPlayUnitIdentities events pus =
     (let eventById = from_entries (map (\<lambda>e. (ev_id e, e)) events);
          maxRound = max_rounds pus
      in fold (\<lambda>pu out.
           (let ev = map_of eventById (pu_event_id pu)
            in AList.update (pu_id pu)
                 (playUnitIdentity
                    (case ev of Some e \<Rightarrow> ev_discipline e | None \<Rightarrow> pu_event_id pu)
                    (case ev of Some e \<Rightarrow> ev_format e | None \<Rightarrow> ''se'')
                    (pu_round_index pu) (pu_match_index pu)
                    (or_else (map_of maxRound (groupOf pu)) (pu_round_index pu))
                    (pu_segment pu)) out)) pus [])"

definition buildPlayUnitLabels ::
  "bracket_event list \<Rightarrow> play_unit list \<Rightarrow> (string, string) dict" where
  "buildPlayUnitLabels events pus =
     from_entries (map (\<lambda>(i, identity). (i, formatMatchIdentity identity None))
       (buildPlayUnitIdentities events pus))"

definition DISCIPLINE_NAMES :: "(string, string) dict" where
  "DISCIPLINE_NAMES =
     [(''MS'', ''Men'' @ [CHR 0x27] @ ''s Singles''), (''WS'', ''Women'' @ [CHR 0x27] @ ''s Singles''),
      (''MD'', ''Men'' @ [CHR 0x27] @ ''s Doubles''), (''WD'', ''Women'' @ [CHR 0x27] @ ''s Doubles''),
      (''XD'', ''Mixed Doubles'')]"

definition disciplineLabel :: "string option \<Rightarrow> string" where
  "disciplineLabel discipline =
     (case discipline of
        None \<Rightarrow> []
      | Some d \<Rightarrow> if d = [] then [] else or_else (map_of DISCIPLINE_NAMES d) d)"

definition teamName :: "string \<Rightarrow> string \<Rightarrow> string" where
  "teamName a b = a @ '' / '' @ b"

definition BYE_ID :: string where
  "BYE_ID = ''__BYE__''"

definition sideFromLegacy ::
  "string list option \<Rightarrow> bracket_slot \<Rightarrow> (string, string) dict \<Rightarrow> side" where
  "sideFromLegacy sd slot nameById =
     (if sd \<noteq> None \<and> sd \<noteq> Some [] then meetSideFromIds sd nameById
      else if bs_participant_id slot = Some BYE_ID \<or> bs_participant_id slot = None
      then (case bs_feeder_play_unit_id slot of
              Some f \<Rightarrow>
                if f \<noteq> []
                then \<lparr>sd_persons = [],
                      sd_unresolved = Some (if bs_feeder_take_loser slot then LoserOf f else WinnerOf f),
                      sd_seed = None, sd_participantKey = None\<rparr>
                else \<lparr>sd_persons = [], sd_unresolved = Some Bye, sd_seed = None,
                      sd_participantKey = None\<rparr>
            | None \<Rightarrow> \<lparr>sd_persons = [], sd_unresolved = Some Bye, sd_seed = None,
                       sd_participantKey = None\<rparr>)
      else meetSideFromIds (map_option (\<lambda>p. [p]) (bs_participant_id slot)) nameById)"

definition sideLabel ::
  "string list option \<Rightarrow> bracket_slot \<Rightarrow> (string, string) dict \<Rightarrow>
   (string, string) dict option \<Rightarrow> string" where
  "sideLabel sd slot nameById labelById =
     (let built = sideFromLegacy sd slot nameById;
          resolved = (case labelById of Some l \<Rightarrow> resolveFeederReference built l | None \<Rightarrow> built)
      in formatSideCondensed resolved)"

definition playUnitSideLabels ::
  "play_unit \<Rightarrow> (string, string) dict \<Rightarrow> (string, string) dict option \<Rightarrow> string \<times> string" where
  "playUnitSideLabels pu nameById labelById =
     (sideLabel (pu_side_a pu) (pu_slot_a pu) nameById labelById,
      sideLabel (pu_side_b pu) (pu_slot_b pu) nameById labelById)"

section \<open>Facts about ranks\<close>

definition rank_text :: "meet_rank_coordinates \<Rightarrow> string" where
  "rank_text r = rk_event_code r @ (case rk_position r of Some n \<Rightarrow> int_text n | None \<Rightarrow> [])"

definition explains :: "string \<Rightarrow> string \<Rightarrow> bool" where
  "explains c rank \<longleftrightarrow> prefix c rank \<and> (drop (length c) rank = [] \<or> pos_numeral (drop (length c) rank))"

lemma int_text_parse: "pos_numeral s \<Longrightarrow> int_text (int (parse_nat s)) = s"
  using pos_numeral_parse by (simp add: int_text_def)

lemma prefix_drop: "prefix c r \<Longrightarrow> c @ drop (length c) r = r"
  by (auto simp: prefix_def)

lemma match_configured_Cons:
  "match_configured rank (c # cs) =
     (if explains c rank
      then Some \<lparr>rk_event_code = c,
                 rk_position = (if drop (length c) rank = [] then None
                                else Some (int (parse_nat (drop (length c) rank))))\<rparr>
      else match_configured rank cs)"
  by (auto simp: explains_def Let_def pos_numeral_def all_digits_def)

declare match_configured.simps(2) [simp del]

lemma match_configured_Some:
  "match_configured rank codes = Some r \<Longrightarrow>
   rk_event_code r \<in> set codes \<and> explains (rk_event_code r) rank \<and> rank_text r = rank \<and>
   (\<forall>c \<in> set (takeWhile (\<lambda>c. c \<noteq> rk_event_code r) codes). \<not> explains c rank)"
proof (induction codes)
  case (Cons c cs)
  show ?case
  proof (cases "explains c rank")
    case True
    then have r: "rk_event_code r = c" using Cons.prems by (auto simp: match_configured_Cons)
    moreover have "rank_text r = rank"
      using Cons.prems True prefix_drop[of c rank]
      by (auto simp: match_configured_Cons rank_text_def int_text_parse explains_def)
    ultimately show ?thesis using True by simp
  next
    case False
    then have "match_configured rank cs = Some r"
      using Cons.prems by (simp add: match_configured_Cons)
    with Cons.IH False show ?thesis by auto
  qed
qed simp

lemma match_configured_None:
  "match_configured rank codes = None \<longleftrightarrow> (\<forall>c \<in> set codes. \<not> explains c rank)"
  by (induction codes) (auto simp: match_configured_Cons)

lemma set_js_set [simp]: "set (js_set xs) = set xs"
  by (simp add: js_set_def)

lemma set_configured_codes: "set (configured_codes codes) = trim ` set codes - {[]}"
  by (auto simp: configured_codes_def)

lemma sorted_takeWhile_less:
  fixes f :: "'a \<Rightarrow> int"
  shows "sorted (map f xs) \<Longrightarrow> x \<in> set xs \<Longrightarrow> y \<in> set xs \<Longrightarrow> f y < f x \<Longrightarrow>
    y \<in> set (takeWhile (\<lambda>z. z \<noteq> x) xs)"
proof (induction xs)
  case (Cons a xs)
  show ?case
  proof (cases "a = x")
    case True
    with Cons.prems show ?thesis by (simp, elim disjE) (simp, force)
  next
    case False
    with Cons show ?thesis by (simp, blast)
  qed
qed simp

lemma decompose_text:
  assumes "trim r \<noteq> []"
  shows "rank_text (decomposeMeetEventRank (Some r) codes) = trim r \<and>
         rk_event_code (decomposeMeetEventRank (Some r) codes) \<noteq> []"
proof (cases "match_configured (trim r) (configured_codes codes)")
  case None
  have "takeWhile is_upper (trim r) @ dropWhile is_upper (trim r) = trim r" by simp
  with None assms show ?thesis
    by (auto simp: decomposeMeetEventRank_def Let_def rank_text_def int_text_parse)
next
  case (Some k)
  then show ?thesis
    using match_configured_Some[OF Some] set_configured_codes[of codes] assms
    by (auto simp: decomposeMeetEventRank_def Let_def)
qed

lemma format_meet_identity:
  "code \<noteq> [] \<Longrightarrow> formatMatchIdentity (MeetIdentity code pos sq) fb =
     code @ (case pos of Some n \<Rightarrow> int_text n | None \<Rightarrow> [])"
  by (cases pos) simp_all

section \<open>Facts about sides\<close>

lemma formatSideLines_nonempty: "formatSideLines s \<noteq> []"
  by (auto simp: formatSideLines_def split: unresolved_side.splits)

definition named_persons :: "side \<Rightarrow> person_ref list" where
  "named_persons s = sd_persons s @
     (case sd_unresolved s of Some (PendingMember known _) \<Rightarrow> known | _ \<Rightarrow> [])"

lemma formatSideLines_lines:
  assumes "[] \<notin> pr_name ` set (named_persons s)"
  shows "[] \<notin> set (formatSideLines s)"
proof (cases "sd_unresolved s")
  case None
  then show ?thesis using assms by (auto simp: formatSideLines_def named_persons_def split: if_splits)
next
  case (Some u)
  then show ?thesis using assms
    by (cases u; cases "sd_persons s = []")
       (auto simp: formatSideLines_def named_persons_def PARTNER_PENDING_def)
qed

lemma sideFromWire_undetermined:
  "sd_persons (sideFromWire d) = [] \<Longrightarrow> sd_unresolved (sideFromWire d) \<noteq> None"
  by (cases d) (auto simp: sideFromWire_def UNDETERMINED_def Let_def split: option.splits)

section \<open>Facts about bracket labels\<close>

lemma int_text_pos: "0 \<le> i \<Longrightarrow> int_text i = nat_text (nat i)"
  by (simp add: int_text_def)

lemma int_text_nonneg_inject: "0 \<le> i \<Longrightarrow> 0 \<le> j \<Longrightarrow> int_text i = int_text j \<Longrightarrow> i = j"
  by (auto simp: int_text_pos dest: nat_text_inject)

lemma not_digit_middot: "\<not> is_digit (hd (middot @ s))" "middot @ s \<noteq> []"
  by (simp_all add: middot_def is_digit_def)

lemma takeWhile_digits:
  "\<forall>c \<in> set a. is_digit c \<Longrightarrow> takeWhile is_digit (a @ middot @ s) = a"
  by (induction a) (simp_all add: middot_def is_digit_def)

lemma digits_middot_cancel:
  "nat_text a @ middot @ s = nat_text b @ middot @ t \<Longrightarrow> a = b \<and> s = t"
proof -
  assume eq: "nat_text a @ middot @ s = nat_text b @ middot @ t"
  have "nat_text a = nat_text b"
    using arg_cong[OF eq, of "takeWhile is_digit"]
    by (simp only: takeWhile_digits[OF nat_text_digits])
  then show ?thesis using eq nat_text_inject by auto
qed

text \<open>What follows the head of an elimination label: stage, separator and number.\<close>

definition stage_tail :: "string \<Rightarrow> int \<Rightarrow> string" where
  "stage_tail st n =
     (if st = ''F'' then '' F''
      else '' '' @ st @ (if prefix ''R'' st then middot else []) @ int_text n)"

lemma stage_tail_inject:
  assumes "0 \<le> k" "0 \<le> k'" "0 \<le> n" "0 \<le> n'"
    and "stage_tail (roundStage k) n = stage_tail (roundStage k') n'"
  shows "k = k' \<and> (k = 0 \<or> n = n')"
proof -
  have R: "stage_tail (roundStage j) m = '' R'' @ nat_text (2 ^ nat (j + 1)) @ middot @ int_text m"
    if "3 \<le> j" for j m
    using that by (simp add: stage_tail_def roundStage_def int_text_pos nat_power_eq)
  have small: "stage_tail (roundStage 0) m = '' F''" "stage_tail (roundStage 1) m = '' SF'' @ int_text m"
    "stage_tail (roundStage 2) m = '' QF'' @ int_text m" for m
    by (simp_all add: stage_tail_def roundStage_def)
  have four: "j = 0 \<or> j = 1 \<or> j = 2 \<or> 3 \<le> j" if "0 \<le> j" for j :: int using that by auto
  have pow: "(2 :: nat) ^ a = 2 ^ b \<longleftrightarrow> a = b" for a b by simp
  show ?thesis
    using four[OF assms(1)] four[OF assms(2)] assms(3-5)
    by (elim disjE)
       (auto simp: small R nat_power_eq dest: int_text_nonneg_inject digits_middot_cancel)
qed

lemma elimination_label:
  assumes "fmt \<noteq> ''rr''" "seg \<noteq> Some ''GF''"
  shows "\<exists>hd. \<forall>r m. playUnitLabel d fmt r m M seg = hd @ stage_tail (roundStage (M - r)) (m + 1)"
proof -
  let ?tag = "case seg of
      Some s \<Rightarrow> if s \<noteq> [] then segmentShort s Elimination (map_of MAIN_SEGMENT fmt) else []
    | None \<Rightarrow> []"
  let ?head = "if ?tag \<noteq> [] then d @ '' '' @ ?tag else d"
  have "playUnitLabel d fmt r m M seg = ?head @ stage_tail (roundStage (M - r)) (m + 1)" for r m
    using assms
    by (cases seg) (simp_all add: playUnitLabel_def playUnitIdentity_def Let_def stage_tail_def)
  then show ?thesis by blast
qed

section \<open>Properties\<close>

text \<open>Decomposing a stored event rank loses nothing: whatever event codes are configured,
  formatting the decomposed identity of a non-blank rank prints the trimmed rank again.\<close>

theorem rank_roundtrip:
  assumes "trim r \<noteq> []"
  shows "formatMatchIdentity (meetMatchIdentityFromStored (Some r) sq codes) fallback = trim r"
  using decompose_text[OF assms, of codes]
  by (auto simp: meetMatchIdentityFromStored_def Let_def format_meet_identity rank_text_def
      split: option.splits)

theorem rank_roundtrip_witness:
  "formatMatchIdentity (meetMatchIdentityFromStored (Some '' U101'') None [''U10'', ''U1'']) None = ''U101''"
proof -
  have "trim '' U101'' = ''U101''" by (simp add: trim_def js_space_def)
  then show ?thesis using rank_roundtrip[of "'' U101''" None "[''U10'', ''U1'']" None] by simp
qed

text \<open>The longest configured code that explains a rank wins: if some configured code is the
  whole rank or leaves a position number, the chosen event code is configured, explains the rank
  too, and no configured code that explains it is longer (so \<open>U101\<close> is position 1 of
  \<open>U10\<close>).\<close>

theorem longest_code_wins:
  assumes "c \<in> set codes" "trim c \<noteq> []" "explains (trim c) (trim r)"
  shows "let k = rk_event_code (decomposeMeetEventRank (Some r) codes)
         in k \<in> trim ` set codes \<and> explains k (trim r) \<and> length (trim c) \<le> length k"
proof -
  let ?cs = "configured_codes codes"
  have nb: "trim r \<noteq> []" using assms(2,3) by (auto simp: explains_def)
  have c: "trim c \<in> set ?cs" using assms(1,2) by (simp add: set_configured_codes)
  then obtain k where k: "match_configured (trim r) ?cs = Some k"
    using assms(3) match_configured_None[of "trim r" ?cs] by fastforce
  then have eq: "decomposeMeetEventRank (Some r) codes = k"
    using nb by (simp add: decomposeMeetEventRank_def Let_def)
  note facts = match_configured_Some[OF k]
  have sorted: "sorted (map (\<lambda>c. - int (length c)) ?cs)"
    by (simp add: configured_codes_def)
  have "length (trim c) \<le> length (rk_event_code k)"
  proof (rule ccontr)
    assume "\<not> length (trim c) \<le> length (rk_event_code k)"
    then have "- int (length (trim c)) < - int (length (rk_event_code k))" by simp
    then have "trim c \<in> set (takeWhile (\<lambda>c. c \<noteq> rk_event_code k) ?cs)"
      using sorted_takeWhile_less[OF sorted] facts c by blast
    then show False using facts assms(3) by blast
  qed
  then show ?thesis using facts eq by (auto simp: Let_def set_configured_codes)
qed

theorem longest_code_wins_witness:
  "length (trim ''U10'') \<le> length (rk_event_code (decomposeMeetEventRank (Some ''U101'') [''U1'', ''U10'']))"
proof -
  have t: "trim ''U10'' = ''U10''" "trim ''U101'' = ''U101''" by (simp_all add: trim_def js_space_def)
  have "explains (trim ''U10'') (trim ''U101'')"
    by (simp add: t explains_def pos_numeral_def all_digits_def is_digit_def)
  then show ?thesis
    using longest_code_wins[of "''U10''" "[''U1'', ''U10'']" "''U101''"] t by (simp add: Let_def)
qed

text \<open>A side is never blank: every side renders at least one line, and if the people it
  names have names then every line has text, whatever its unresolved reason.\<close>

theorem side_never_blank:
  "\<not> isEmptySide s \<and>
   ((\<forall>p \<in> set (named_persons s). pr_name p \<noteq> []) \<longrightarrow> (\<forall>l \<in> set (formatSideLines s). l \<noteq> []))"
  using formatSideLines_nonempty[of s] formatSideLines_lines[of s] by (force simp: isEmptySide_def)

theorem side_never_blank_witness:
  "list_all (\<lambda>l. l \<noteq> []) (formatSideLines (sideFromWire None))"
  using side_never_blank[of "sideFromWire None"]
  by (simp add: sideFromWire_def UNDETERMINED_def named_persons_def list_all_iff)

text \<open>Two elimination matches of one draw segment never share a label: with rounds at most the
  segment's last round, equal labels mean the same round and, except for the final (whose number
  is dropped because it is a single match), the same match.\<close>

theorem elimination_labels_distinct:
  assumes "fmt \<noteq> ''rr''" "seg \<noteq> Some ''GF''" "r \<le> M" "r' \<le> M" "0 \<le> m" "0 \<le> m'"
    and "playUnitLabel d fmt r m M seg = playUnitLabel d fmt r' m' M seg"
  shows "r = r' \<and> (r = M \<or> m = m')"
proof -
  obtain hd where "\<forall>r m. playUnitLabel d fmt r m M seg = hd @ stage_tail (roundStage (M - r)) (m + 1)"
    using elimination_label[OF assms(1,2)] by blast
  then have "stage_tail (roundStage (M - r)) (m + 1) = stage_tail (roundStage (M - r')) (m' + 1)"
    using assms(7) by simp
  then show ?thesis using stage_tail_inject[of "M - r" "M - r'" "m + 1" "m' + 1"] assms(3-6) by auto
qed

theorem elimination_labels_distinct_witness:
  "playUnitLabel ''MS'' ''se'' 0 0 2 None \<noteq> playUnitLabel ''MS'' ''se'' 0 1 2 None"
  using elimination_labels_distinct[of "''se''" None 0 2 0 0 1 "''MS''"] by auto

end
