(* ===== verification/OpsBlock.thy ===== *)
theory OpsBlock
  imports TimeSlots MatchIdentity
begin

text \<open>
  \<open>platform/domain/match.ts\<close> and \<open>modules/operations/opsBlock.ts\<close>: the one match shape both
  engines fold into, the two adapters that build it, and the lane packing of blocks that share
  a court at the same time.
\<close>

section \<open>The canonical match\<close>

datatype match_source = Meet | Bracket

record match_score =
  msc_sideA :: int
  msc_sideB :: int
  msc_sets :: "set_score list option"

record match_rec =
  m_source :: match_source
  m_id :: string
  m_key :: string
  m_identity :: match_identity
  m_colorKey :: "string option"
  m_court :: "int option"
  m_slot :: "int option"
  m_span :: int
  m_status :: match_status
  m_sideA :: string
  m_sideB :: string
  m_sidesUnresolved :: "bool option"
  m_playerIds :: "string list"
  m_score :: "match_score option"
  m_done :: bool
  m_started :: bool
  m_actualStartSlot :: "int option"
  m_actualEndSlot :: "int option"

type_synonym ops_block = match_rec

fun source_text :: "match_source \<Rightarrow> string" where
  "source_text Meet = ''meet''"
| "source_text Bracket = ''bracket''"

definition matchKey :: "match_source \<Rightarrow> string \<Rightarrow> string" where
  "matchKey source ident = source_text source @ '':'' @ ident"

text \<open>The text before the first colon and after it; no colon is the \<open>-1\<close> of \<open>indexOf\<close>.\<close>

definition parseMatchKey :: "string \<Rightarrow> (match_source \<times> string) option" where
  "parseMatchKey key =
     (let source = takeWhile (\<lambda>c. c \<noteq> CHR '':'') key; rest = dropWhile (\<lambda>c. c \<noteq> CHR '':'') key
      in if rest = [] then None
         else if source = ''meet'' then Some (Meet, tl rest)
         else if source = ''bracket'' then Some (Bracket, tl rest)
         else None)"

section \<open>The adapters\<close>

definition UNRESOLVED_SIDE_LABEL :: string where
  "UNRESOLVED_SIDE_LABEL = ''To be decided''"

definition UNRESOLVED_OPERATIONAL_SIDE :: string where
  "UNRESOLVED_OPERATIONAL_SIDE = ''Participant unresolved: action required''"

definition operationalSide :: "string \<Rightarrow> match_status \<Rightarrow> bool \<Rightarrow> string" where
  "operationalSide label status resolved =
     (if status = MScheduled then label
      else if \<not> resolved \<or> prefix ''Winner of '' label \<or> prefix ''Loser of '' label
      then UNRESOLVED_OPERATIONAL_SIDE else label)"

definition meetSideResolved :: "string list option \<Rightarrow> bool" where
  "meetSideResolved ids \<longleftrightarrow> or_else (map_option length ids) 0 > 0"

definition meetSide :: "string list option \<Rightarrow> (string, string) dict \<Rightarrow> string" where
  "meetSide ids nameById =
     (if \<not> meetSideResolved ids then UNRESOLVED_SIDE_LABEL
      else join_with '' / '' (map (\<lambda>i. or_else (map_of nameById i) i) (or_else ids [])))"

definition meetPlayerIds :: "match_dto \<Rightarrow> string list" where
  "meetPlayerIds m = js_set (md_sideA m @ md_sideB m @ or_else (md_sideC m) [])"

definition meetActualSlot ::
  "host_clock \<Rightarrow> string option \<Rightarrow> tournament_config option \<Rightarrow> int option" where
  "meetActualSlot hc value config =
     (case config of
        None \<Rightarrow> None
      | Some c \<Rightarrow> (case parseMatchStartMs hc value of None \<Rightarrow> None | Some ms \<Rightarrow> Some (msToSlot hc ms c)))"

definition is_terminal :: "match_status \<Rightarrow> bool" where
  "is_terminal status \<longleftrightarrow> status = MFinished \<or> status = MRetired"

definition meet_block ::
  "host_clock \<Rightarrow> (string, schedule_assignment) dict \<Rightarrow> (string, match_state_dto) dict \<Rightarrow>
   (string, string) dict \<Rightarrow> tournament_config option \<Rightarrow> match_dto \<Rightarrow> ops_block" where
  "meet_block hc assignByMatch matchStates nameById config m =
     (let a = map_of assignByMatch (md_id m);
          st = map_of matchStates (md_id m);
          postponed = Option.bind st ms_postponed = Some True;
          court = (if postponed then None
                   else or_opt (Option.bind st ms_actualCourtId) (map_option as_courtId a));
          slot = (if postponed then None
                  else or_opt (Option.bind st ms_actualSlotId) (map_option as_slotId a));
          status = or_else (map_option ms_status st) MScheduled;
          staleTiming = (case (config, slot) of
              (Some c, Some s) \<Rightarrow> hasStaleActualTiming hc s st c | _ \<Rightarrow> False);
          terminal = is_terminal status
      in \<lparr>m_source = Meet, m_id = md_id m, m_key = matchKey Meet (md_id m),
          m_identity = meetMatchIdentityFromStored (md_eventRank m) (md_matchNumber m)
            (map fst (or_else (Option.bind config cf_rankCounts) [])),
          m_colorKey = md_eventRank m, m_court = court, m_slot = slot,
          m_span = or_else (map_option as_durationSlots a) 1,
          m_status = status,
          m_sideA = operationalSide (meetSide (Some (md_sideA m)) nameById) status
                      (meetSideResolved (Some (md_sideA m))),
          m_sideB = operationalSide (meetSide (Some (md_sideB m)) nameById) status
                      (meetSideResolved (Some (md_sideB m))),
          m_sidesUnresolved = Some (\<not> meetSideResolved (Some (md_sideA m))
                                    \<or> \<not> meetSideResolved (Some (md_sideB m))),
          m_playerIds = meetPlayerIds m,
          m_score = (if terminal
             then (case st of
                 None \<Rightarrow> None
               | Some s \<Rightarrow> map_option (\<lambda>sc. \<lparr>msc_sideA = ss_sideA sc, msc_sideB = ss_sideB sc,
                                            msc_sets = ms_sets s\<rparr>) (ms_score s))
             else None),
          m_done = terminal, m_started = (status = MStarted \<or> terminal),
          m_actualStartSlot = (if \<not> staleTiming \<and> (status = MStarted \<or> terminal)
             then meetActualSlot hc (Option.bind st ms_actualStartTime) config else None),
          m_actualEndSlot = (if \<not> staleTiming \<and> terminal
             then meetActualSlot hc (Option.bind st ms_actualEndTime) config else None)\<rparr>)"

definition meetToOpsBlocks ::
  "host_clock \<Rightarrow> match_dto list \<Rightarrow> schedule_dto option \<Rightarrow> (string, match_state_dto) dict \<Rightarrow>
   (string, string) dict \<Rightarrow> tournament_config option \<Rightarrow> ops_block list" where
  "meetToOpsBlocks hc matches schedule matchStates nameById config =
     (let assignByMatch = from_entries
            (map (\<lambda>a. (as_matchId a, a)) (or_else (map_option sc_assignments schedule) []))
      in map (meet_block hc assignByMatch matchStates nameById config) matches)"

text \<open>The bracket snapshot, as far as the adapter reads it.\<close>

record bracket_assignment =
  ba_play_unit_id :: string
  ba_slot_id :: int
  ba_court_id :: int
  ba_duration_slots :: int
  ba_actual_start_slot :: "int option"
  ba_actual_end_slot :: "int option"

record bracket_result =
  br_play_unit_id :: string
  br_sets :: "set_score list option"

record bracket_participant =
  bp_id :: string
  bp_name :: string
  bp_members :: "string list option"

record bracket_tournament =
  bt_participants :: "bracket_participant list"
  bt_events :: "bracket_event list"
  bt_play_units :: "play_unit list"
  bt_assignments :: "bracket_assignment list"
  bt_results :: "bracket_result list"

definition bracketPlayerIds :: "play_unit \<Rightarrow> (string, string list) dict \<Rightarrow> string list" where
  "bracketPlayerIds pu membersById =
     js_set (concat (map (\<lambda>slot. case bs_participant_id slot of
          None \<Rightarrow> []
        | Some pid \<Rightarrow> if pid = [] then [] else or_else (map_of membersById pid) [pid])
       [pu_slot_a pu, pu_slot_b pu]))"

definition count_set :: "set_score \<Rightarrow> int \<times> int \<Rightarrow> int \<times> int" where
  "count_set s = (\<lambda>(a, b). if ss_sideA s > ss_sideB s then (a + 1, b)
                           else if ss_sideB s > ss_sideA s then (a, b + 1) else (a, b))"

definition bracketScore :: "bracket_result option \<Rightarrow> match_score option" where
  "bracketScore result =
     (case Option.bind result br_sets of
        None \<Rightarrow> None
      | Some sets \<Rightarrow>
          if sets = [] then None
          else (let (a, b) = fold count_set sets (0, 0)
                in Some \<lparr>msc_sideA = a, msc_sideB = b, msc_sets = Some sets\<rparr>))"

definition bracket_block ::
  "(string, string) dict \<Rightarrow> (string, string list) dict \<Rightarrow> (string, bracket_assignment) dict \<Rightarrow>
   (string, bracket_result) dict \<Rightarrow> (string, string) dict \<Rightarrow> (string, string) dict \<Rightarrow>
   (string, match_identity) dict \<Rightarrow> play_unit \<Rightarrow> ops_block" where
  "bracket_block nameById membersById assignByPu resultByPu disciplineByEvent labelById identityById pu =
     (let a = map_of assignByPu (pu_id pu);
          result = map_of resultByPu (pu_id pu);
          labels = playUnitSideLabels pu nameById (Some labelById);
          started = Option.bind a ba_actual_start_slot \<noteq> None;
          status = (if result \<noteq> None then MFinished else if started then MStarted else MScheduled)
      in \<lparr>m_source = Bracket, m_id = pu_id pu, m_key = matchKey Bracket (pu_id pu),
          m_identity = the (map_of identityById (pu_id pu)),
          m_colorKey = Some (or_else (map_of disciplineByEvent (pu_event_id pu)) (pu_event_id pu)),
          m_court = map_option ba_court_id a, m_slot = map_option ba_slot_id a,
          m_span = or_else (map_option ba_duration_slots a) 1,
          m_status = status,
          m_sideA = operationalSide (fst labels) status True,
          m_sideB = operationalSide (snd labels) status True,
          m_sidesUnresolved = None,
          m_playerIds = bracketPlayerIds pu membersById,
          m_score = bracketScore result,
          m_done = (result \<noteq> None), m_started = started,
          m_actualStartSlot = Option.bind a ba_actual_start_slot,
          m_actualEndSlot = Option.bind a ba_actual_end_slot\<rparr>)"

definition bracketToOpsBlocks :: "bracket_tournament \<Rightarrow> ops_block list" where
  "bracketToOpsBlocks data =
     (let nameById = from_entries (map (\<lambda>p. (bp_id p, bp_name p)) (bt_participants data));
          membersById = from_entries (map (\<lambda>p. (bp_id p, or_else (bp_members p) []))
            (filter (\<lambda>p. or_else (bp_members p) [] \<noteq> []) (bt_participants data)));
          assignByPu = from_entries (map (\<lambda>a. (ba_play_unit_id a, a)) (bt_assignments data));
          resultByPu = from_entries (map (\<lambda>r. (br_play_unit_id r, r)) (bt_results data));
          disciplineByEvent = from_entries (map (\<lambda>e. (ev_id e, ev_discipline e)) (bt_events data));
          labelById = buildPlayUnitLabels (bt_events data) (bt_play_units data);
          identityById = buildPlayUnitIdentities (bt_events data) (bt_play_units data)
      in map (bracket_block nameById membersById assignByPu resultByPu disciplineByEvent labelById
                identityById) (bt_play_units data))"

section \<open>Lane packing\<close>

definition chipLanePx :: "int \<Rightarrow> int" where
  "chipLanePx longestLabel = max 72 (longestLabel * 8 + 42 + 34)"

record block_lane =
  laneIndex :: nat
  laneCount :: nat

text \<open>\<open>LanePackable\<close>.\<close>

record lane_block =
  lb_key :: string
  lb_court :: "int option"
  lb_slot :: "int option"
  lb_span :: int

definition lane_block_of :: "ops_block \<Rightarrow> lane_block" where
  "lane_block_of m = \<lparr>lb_key = m_key m, lb_court = m_court m, lb_slot = m_slot m, lb_span = m_span m\<rparr>"

record active_block =
  ab_key :: string
  ab_lane :: nat
  ab_end :: int

record lane_state =
  ls_active :: "active_block list"
  ls_laneOf :: "(string, nat) dict"
  ls_countOf :: "(string, nat) dict"

text \<open>\<open>while (used.has(lane)) lane++\<close>.\<close>

function first_free :: "nat list \<Rightarrow> nat \<Rightarrow> nat" where
  "first_free used lane = (if lane \<in> set used then first_free used (Suc lane) else lane)"
  by pat_completeness auto
termination
proof (relation "measure (\<lambda>(used, lane). card {x \<in> set used. lane \<le> x})", goal_cases)
  case (2 used lane)
  then have "lane \<in> {x \<in> set used. lane \<le> x} - {x \<in> set used. Suc lane \<le> x}" by simp
  moreover have "{x \<in> set used. Suc lane \<le> x} \<subseteq> {x \<in> set used. lane \<le> x}"
    by (rule subsetI) simp
  ultimately have "{x \<in> set used. Suc lane \<le> x} \<subset> {x \<in> set used. lane \<le> x}" by blast
  then have "card {x \<in> set used. Suc lane \<le> x} < card {x \<in> set used. lane \<le> x}"
    by (intro psubset_card_mono finite_subset[OF _ finite_set]) auto
  then show ?case by (simp only: in_measure case_prod_conv)
qed simp

declare first_free.simps [simp del]

definition lb_start :: "lane_block \<Rightarrow> int" where
  "lb_start b = or_else (lb_slot b) 0"

definition lb_end :: "lane_block \<Rightarrow> int" where
  "lb_end b = lb_start b + lb_span b"

definition raise_count :: "nat \<Rightarrow> active_block \<Rightarrow> (string, nat) dict \<Rightarrow> (string, nat) dict" where
  "raise_count n x m =
     (if n > or_else (map_of m (ab_key x)) 1 then AList.update (ab_key x) n m else m)"

definition pack_step :: "lane_block \<Rightarrow> lane_state \<Rightarrow> lane_state" where
  "pack_step b st =
     (let active = filter (\<lambda>x. ab_end x > lb_start b) (ls_active st);
          lane = first_free (map ab_lane active) 0;
          active' = active @ [\<lparr>ab_key = lb_key b, ab_lane = lane, ab_end = lb_end b\<rparr>]
      in \<lparr>ls_active = active',
          ls_laneOf = AList.update (lb_key b) lane (ls_laneOf st),
          ls_countOf = fold (raise_count (length active')) active' (ls_countOf st)\<rparr>)"

definition pack_court :: "lane_block list \<Rightarrow> lane_state \<Rightarrow> lane_state" where
  "pack_court list st = fold pack_step (sort_key lb_start list) (st\<lparr>ls_active := []\<rparr>)"

definition lane_court :: "lane_block \<Rightarrow> int option" where
  "lane_court b = (if lb_court b = None \<or> lb_slot b = None then None else lb_court b)"

definition pack_all :: "lane_block list \<Rightarrow> lane_state" where
  "pack_all blocks = fold (\<lambda>(court, list). pack_court list) (group_by lane_court blocks)
     \<lparr>ls_active = [], ls_laneOf = [], ls_countOf = []\<rparr>"

definition packBlockLanes :: "lane_block list \<Rightarrow> (string, block_lane) dict" where
  "packBlockLanes blocks =
     (let st = pack_all blocks
      in fold (\<lambda>b. AList.update (lb_key b)
            \<lparr>laneIndex = or_else (map_of (ls_laneOf st) (lb_key b)) 0,
             laneCount = or_else (map_of (ls_countOf st) (lb_key b)) 1\<rparr>) blocks [])"

section \<open>Facts about keys\<close>

lemma parse_source_text: "CHR '':'' \<notin> set (source_text src)"
  by (cases src) simp_all

lemma takeWhile_until:
  "c \<notin> set xs \<Longrightarrow> takeWhile (\<lambda>x. x \<noteq> c) (xs @ c # ys) = xs"
  "c \<notin> set xs \<Longrightarrow> dropWhile (\<lambda>x. x \<noteq> c) (xs @ c # ys) = c # ys"
  by (induction xs) auto

lemma parse_matchKey: "parseMatchKey (matchKey src i) = Some (src, i)"
  by (cases src)
     (simp_all add: parseMatchKey_def matchKey_def takeWhile_until[OF parse_source_text, simplified] Let_def)

lemma split_at_colon:
  assumes "dropWhile (\<lambda>c. c \<noteq> CHR '':'') key \<noteq> []"
  shows "key = takeWhile (\<lambda>c. c \<noteq> CHR '':'') key @ '':'' @ tl (dropWhile (\<lambda>c. c \<noteq> CHR '':'') key)"
proof -
  let ?r = "dropWhile (\<lambda>c. c \<noteq> CHR '':'') key"
  have "hd ?r = CHR '':''" using hd_dropWhile[OF assms] by simp
  then have "?r = '':'' @ tl ?r" using assms by (cases ?r) simp_all
  then show ?thesis by (metis takeWhile_dropWhile_id)
qed

lemma parse_some_key: "parseMatchKey key = Some (src, i) \<Longrightarrow> key = matchKey src i"
  using split_at_colon[of key]
  by (cases src) (auto simp: parseMatchKey_def matchKey_def Let_def split: if_splits)

lemma matchKey_inject: "matchKey s i = matchKey t j \<longleftrightarrow> s = t \<and> i = j"
  by (metis parse_matchKey option.inject prod.inject)

section \<open>Facts about the packing\<close>

lemma first_free_not_used: "first_free used lane \<notin> set used"
  by (induction used lane rule: first_free.induct) (simp add: first_free.simps)

lemma first_free_passes: "lane \<le> x \<Longrightarrow> x < first_free used lane \<Longrightarrow> x \<in> set used"
proof (induction used lane rule: first_free.induct)
  case (1 used lane)
  show ?case
  proof (cases "lane \<in> set used")
    case True
    then show ?thesis using 1 by (cases "x = lane") (auto simp: first_free.simps[of used lane])
  next
    case False
    then show ?thesis using 1 by (simp add: first_free.simps[of used lane])
  qed
qed

lemma first_free_bound: "first_free used 0 \<le> length used"
proof -
  have "{..<first_free used 0} \<subseteq> set used" using first_free_passes[of 0] by auto
  then have "card {..<first_free used 0} \<le> card (set used)" by (intro card_mono) simp_all
  then show ?thesis using card_length[of used] by simp
qed

lemma raise_counts:
  "or_else (map_of (fold (raise_count n) xs m) k) 1 =
     (if k \<in> ab_key ` set xs then max n (or_else (map_of m k) 1) else or_else (map_of m k) 1)"
  by (induction xs arbitrary: m) (auto simp: raise_count_def max_def)


text \<open>Blocks of one court that share a slot.\<close>

definition share :: "lane_block \<Rightarrow> lane_block \<Rightarrow> bool" where
  "share a b \<longleftrightarrow> lane_court a \<noteq> None \<and> lane_court a = lane_court b \<and>
     lb_start a < lb_end b \<and> lb_start b < lb_end a"

definition lane_of :: "lane_state \<Rightarrow> lane_block \<Rightarrow> nat option" where
  "lane_of st b = map_of (ls_laneOf st) (lb_key b)"

definition count_of :: "lane_state \<Rightarrow> lane_block \<Rightarrow> nat" where
  "count_of st b = or_else (map_of (ls_countOf st) (lb_key b)) 1"

text \<open>What holds once the blocks \<open>P\<close> are placed, while court \<open>c\<close> is swept at slot \<open>cur\<close>.\<close>

definition packed :: "lane_block set \<Rightarrow> lane_state \<Rightarrow> bool" where
  "packed P st \<longleftrightarrow>
     (\<forall>b \<in> P. \<exists>l. lane_of st b = Some l \<and> l < count_of st b) \<and>
     (\<forall>a \<in> P. \<forall>b \<in> P. a \<noteq> b \<and> share a b \<longrightarrow> lane_of st a \<noteq> lane_of st b)"

definition sweeping :: "lane_block set \<Rightarrow> int \<Rightarrow> int \<Rightarrow> lane_state \<Rightarrow> bool" where
  "sweeping P c cur st \<longleftrightarrow>
     (\<forall>b \<in> P. lane_court b = Some c \<and> cur < lb_end b \<longrightarrow>
        (\<exists>x \<in> set (ls_active st). lane_of st b = Some (ab_lane x) \<and> ab_end x = lb_end b)) \<and>
     (\<forall>b \<in> P. lane_court b = Some c \<longrightarrow> lb_start b \<le> cur)"

lemma lane_of_step:
  "lane_of (pack_step b st) a =
     (if lb_key a = lb_key b
      then Some (first_free (map ab_lane (filter (\<lambda>x. ab_end x > lb_start b) (ls_active st))) 0)
      else lane_of st a)"
  by (simp add: lane_of_def pack_step_def Let_def)

lemma count_of_pack_step:
  "count_of (pack_step b st) a =
     (let act = filter (\<lambda>x. ab_end x > lb_start b) (ls_active st);
          act' = act @ [\<lparr>ab_key = lb_key b, ab_lane = first_free (map ab_lane act) 0, ab_end = lb_end b\<rparr>]
      in if lb_key a \<in> ab_key ` set act' then max (length act') (count_of st a) else count_of st a)"
  unfolding count_of_def pack_step_def Let_def lane_state.select_convs raise_counts by (rule refl)

lemma count_of_step:
  "count_of st a \<le> count_of (pack_step b st) a"
  "lb_key a = lb_key b \<Longrightarrow>
     Suc (length (filter (\<lambda>x. ab_end x > lb_start b) (ls_active st))) \<le> count_of (pack_step b st) a"
  by (simp_all add: count_of_pack_step Let_def)

lemma active_step:
  "set (ls_active (pack_step b st)) =
     insert \<lparr>ab_key = lb_key b,
       ab_lane = first_free (map ab_lane (filter (\<lambda>x. ab_end x > lb_start b) (ls_active st))) 0,
       ab_end = lb_end b\<rparr>
     {x \<in> set (ls_active st). ab_end x > lb_start b}"
  by (simp add: pack_step_def Let_def)

lemma pack_step_inv:
  assumes P: "packed P st" and S: "sweeping P c cur st"
    and c: "lane_court b = Some c" and cur: "cur \<le> lb_start b"
    and new: "\<forall>a \<in> P. lb_key a \<noteq> lb_key b"
  shows "packed (insert b P) (pack_step b st) \<and> sweeping (insert b P) c (lb_start b) (pack_step b st)"
proof -
  let ?act = "filter (\<lambda>x. ab_end x > lb_start b) (ls_active st)"
  let ?l = "first_free (map ab_lane ?act) 0"
  have lb: "lane_of (pack_step b st) b = Some ?l" by (simp add: lane_of_step)
  have old: "lane_of (pack_step b st) a = lane_of st a" if "a \<in> P" for a
    using that new by (simp add: lane_of_step)
  have alive: "\<exists>x \<in> set ?act. lane_of st a = Some (ab_lane x) \<and> ab_end x = lb_end a"
    if a: "a \<in> P" "lane_court a = Some c" "lb_start b < lb_end a" for a
  proof -
    have "cur < lb_end a" using a(3) cur by linarith
    then obtain x where "x \<in> set (ls_active st)" "lane_of st a = Some (ab_lane x)" "ab_end x = lb_end a"
      using S a unfolding sweeping_def by blast
    then show ?thesis using a(3) by auto
  qed
  have fresh: "lane_of st a \<noteq> Some ?l" if a: "a \<in> P" "share a b" for a
  proof -
    obtain x where x: "x \<in> set ?act" "lane_of st a = Some (ab_lane x)"
      using alive[OF a(1)] a(2) c unfolding share_def by auto
    then have "ab_lane x \<in> set (map ab_lane ?act)" by simp
    then have "ab_lane x \<noteq> ?l" using first_free_not_used by metis
    then show ?thesis using x by simp
  qed
  have "?l < count_of (pack_step b st) b"
    using first_free_bound[of "map ab_lane ?act"] count_of_step(2)[of b b st] by simp
  then have "\<forall>a \<in> insert b P. \<exists>l. lane_of (pack_step b st) a = Some l \<and> l < count_of (pack_step b st) a"
    using lb old P count_of_step(1) unfolding packed_def by (metis insert_iff less_le_trans)
  moreover have "share a b \<longleftrightarrow> share b a" for a by (auto simp: share_def)
  then have "\<forall>x \<in> insert b P. \<forall>y \<in> insert b P. x \<noteq> y \<and> share x y \<longrightarrow>
      lane_of (pack_step b st) x \<noteq> lane_of (pack_step b st) y"
    using lb old P fresh unfolding packed_def by (metis insert_iff)
  moreover have "sweeping (insert b P) c (lb_start b) (pack_step b st)"
    unfolding sweeping_def active_step
  proof (intro conjI ballI impI)
    fix a assume a: "a \<in> insert b P" "lane_court a = Some c \<and> lb_start b < lb_end a"
    show "\<exists>x \<in> insert \<lparr>ab_key = lb_key b, ab_lane = ?l, ab_end = lb_end b\<rparr>
        {x \<in> set (ls_active st). lb_start b < ab_end x}.
        lane_of (pack_step b st) a = Some (ab_lane x) \<and> ab_end x = lb_end a"
    proof (cases "a = b")
      case False
      then show ?thesis using a alive[of a] old[of a] by auto
    qed (simp add: lb)
  next
    fix a assume "a \<in> insert b P" "lane_court a = Some c"
    then show "lb_start a \<le> lb_start b" using S cur unfolding sweeping_def by auto
  qed
  ultimately show ?thesis unfolding packed_def by blast
qed

lemma pack_steps_inv:
  assumes "packed P st" "sweeping P c cur st" "sorted (map lb_start bs)" "\<forall>b \<in> set bs. cur \<le> lb_start b"
    "\<forall>b \<in> set bs. lane_court b = Some c" "distinct (map lb_key bs)"
    "\<forall>a \<in> P. \<forall>b \<in> set bs. lb_key a \<noteq> lb_key b"
  shows "packed (P \<union> set bs) (fold pack_step bs st)"
  using assms
proof (induction bs arbitrary: P cur st)
  case (Cons b bs)
  have "packed (insert b P) (pack_step b st) \<and> sweeping (insert b P) c (lb_start b) (pack_step b st)"
    by (rule pack_step_inv) (use Cons.prems in auto)
  then have "packed (insert b P \<union> set bs) (fold pack_step bs (pack_step b st))"
    by (intro Cons.IH[of "insert b P" "pack_step b st" "lb_start b"]) (use Cons.prems in auto)
  then show ?case by simp
qed simp

lemma packed_active: "packed P (st\<lparr>ls_active := xs\<rparr>) \<longleftrightarrow> packed P st"
  by (simp add: packed_def lane_of_def count_of_def)

lemma pack_court_inv:
  assumes P: "packed P st" and new: "\<forall>a \<in> P. lane_court a \<noteq> Some c"
    and bs: "\<forall>b \<in> set bs. lane_court b = Some c" "distinct (map lb_key bs)"
    and keys: "\<forall>a \<in> P. \<forall>b \<in> set bs. lb_key a \<noteq> lb_key b"
  shows "packed (P \<union> set bs) (pack_court bs st)"
proof (cases "bs = []")
  case True
  then show ?thesis using P by (simp add: pack_court_def packed_active)
next
  case False
  let ?s = "sort_key lb_start bs" and ?st = "st\<lparr>ls_active := []\<rparr>"
  let ?cur = "lb_start (hd ?s)"
  have "packed (P \<union> set ?s) (fold pack_step ?s ?st)"
  proof (rule pack_steps_inv[where cur = ?cur and c = c])
    show "packed P ?st" using P by (simp add: packed_active)
    show "sweeping P c ?cur ?st" using new by (simp add: sweeping_def)
    show "sorted (map lb_start ?s)" by simp
    obtain y ys where s: "?s = y # ys" using False by (cases ?s) auto
    show "\<forall>b \<in> set ?s. ?cur \<le> lb_start b"
      using hd_sort_key_least[OF s] by (simp add: s[THEN arg_cong, of hd])
    show "distinct (map lb_key ?s)"
      using bs(2) by (simp add: distinct_map)
  qed (use bs keys in auto)
  then show ?thesis by (simp add: pack_court_def)
qed

lemma pack_courts_inv:
  assumes "packed P st" "distinct (map fst gs)" "\<forall>(c, l) \<in> set gs. \<forall>b \<in> set l. lane_court b = Some c"
    "\<forall>(c, l) \<in> set gs. distinct (map lb_key l)"
    "\<forall>(c, l) \<in> set gs. \<forall>a \<in> P. lane_court a \<noteq> Some c"
    "inj_on lb_key (P \<union> \<Union> (set ` snd ` set gs))"
  shows "packed (P \<union> \<Union> (set ` snd ` set gs)) (fold (\<lambda>(c, l). pack_court l) gs st)"
  using assms
proof (induction gs arbitrary: P st)
  case (Cons g gs)
  obtain c l where g: "g = (c, l)" by (cases g)
  have "packed (P \<union> set l) (pack_court l st)"
  proof (rule pack_court_inv)
    show "\<forall>a \<in> P. \<forall>b \<in> set l. lb_key a \<noteq> lb_key b"
    proof (intro ballI notI)
      fix a b assume ab: "a \<in> P" "b \<in> set l" "lb_key a = lb_key b"
      then have "a = b" by (intro inj_onD[OF Cons.prems(6)]) (auto simp: g)
      then show False using ab Cons.prems(3,5) by (auto simp: g)
    qed
  qed (use Cons.prems in \<open>auto simp: g\<close>)
  then have "packed ((P \<union> set l) \<union> \<Union> (set ` snd ` set gs))
      (fold (\<lambda>(c, l). pack_court l) gs (pack_court l st))"
  proof (rule Cons.IH)
    show "\<forall>(d, k) \<in> set gs. \<forall>a \<in> P \<union> set l. lane_court a \<noteq> Some d"
    proof (intro ballI, clarify)
      fix d k a assume d: "(d, k) \<in> set gs" and a: "a \<in> P \<union> set l" "lane_court a = Some d"
      from a(1) show False
      proof
        assume "a \<in> P"
        moreover have "\<forall>p \<in> P. lane_court p \<noteq> Some d" using Cons.prems(5) d by auto
        ultimately show False using a(2) by blast
      next
        assume "a \<in> set l"
        then have "lane_court a = Some c" using Cons.prems(3) by (auto simp: g)
        then have "d = c" using a(2) by simp
        then show False using Cons.prems(2) d by (force simp: g)
      qed
    qed
    show "inj_on lb_key (P \<union> set l \<union> \<Union> (set ` snd ` set gs))"
      using Cons.prems(6) by (simp add: g Un_assoc)
  qed (use Cons.prems in \<open>auto simp: g\<close>)
  then show ?case by (simp add: g Un_assoc)
qed simp

lemma pack_all_packed:
  assumes "distinct (map lb_key blocks)"
  shows "packed {b \<in> set blocks. lane_court b \<noteq> None} (pack_all blocks)"
proof -
  let ?gs = "group_by lane_court blocks"
  have all: "\<Union> (set ` snd ` set ?gs) = {b \<in> set blocks. lane_court b \<noteq> None}"
  proof -
    have "(\<exists>g \<in> set ?gs. b \<in> set (snd g)) \<longleftrightarrow> b \<in> set blocks \<and> lane_court b \<noteq> None" for b
    proof -
      have "(\<exists>g \<in> set ?gs. b \<in> set (snd g)) \<longleftrightarrow> (\<exists>c l. (c, l) \<in> set ?gs \<and> b \<in> set l)" by force
      also have "\<dots> \<longleftrightarrow> (\<exists>c. b \<in> set (filter (\<lambda>x. lane_court x = Some c) blocks))"
      proof
        assume "\<exists>c l. (c, l) \<in> set ?gs \<and> b \<in> set l"
        then show "\<exists>c. b \<in> set (filter (\<lambda>x. lane_court x = Some c) blocks)"
          unfolding group_by_mem by blast
      next
        assume "\<exists>c. b \<in> set (filter (\<lambda>x. lane_court x = Some c) blocks)"
        then obtain c where c: "b \<in> set (filter (\<lambda>x. lane_court x = Some c) blocks)" ..
        then have "(c, filter (\<lambda>x. lane_court x = Some c) blocks) \<in> set ?gs"
          unfolding group_by_mem by (metis empty_iff list.set(1))
        then show "\<exists>c l. (c, l) \<in> set ?gs \<and> b \<in> set l" using c by blast
      qed
      finally show ?thesis by auto
    qed
    then show ?thesis by auto
  qed
  have "packed ({} \<union> \<Union> (set ` snd ` set ?gs))
      (fold (\<lambda>(c, l). pack_court l) ?gs \<lparr>ls_active = [], ls_laneOf = [], ls_countOf = []\<rparr>)"
  proof (rule pack_courts_inv)
    show "packed {} \<lparr>ls_active = [], ls_laneOf = [], ls_countOf = []\<rparr>" by (simp add: packed_def)
    show "distinct (map fst ?gs)" by (rule distinct_group_by)
    show "\<forall>(c, l) \<in> set ?gs. \<forall>b \<in> set l. lane_court b = Some c"
      by (intro ballI, clarify) (simp only: group_by_mem set_filter mem_Collect_eq)
    show "\<forall>(c, l) \<in> set ?gs. distinct (map lb_key l)"
    proof (intro ballI, clarify)
      fix c l assume "(c, l) \<in> set ?gs"
      then have "l = filter (\<lambda>b. lane_court b = Some c) blocks" by (simp only: group_by_mem)
      then show "distinct (map lb_key l)" using assms by (simp add: distinct_map_filter)
    qed
    show "inj_on lb_key ({} \<union> \<Union> (set ` snd ` set ?gs))"
      using assms unfolding all by (auto simp: distinct_map inj_on_def)
  qed simp
  then show ?thesis by (simp only: pack_all_def all Un_empty_left)
qed

lemma packBlockLanes_lookup:
  assumes "distinct (map lb_key blocks)" "b \<in> set blocks"
  shows "map_of (packBlockLanes blocks) (lb_key b) =
     Some \<lparr>laneIndex = or_else (lane_of (pack_all blocks) b) 0, laneCount = count_of (pack_all blocks) b\<rparr>"
proof -
  let ?f = "\<lambda>b. \<lparr>laneIndex = or_else (lane_of (pack_all blocks) b) 0, laneCount = count_of (pack_all blocks) b\<rparr>"
  have "packBlockLanes blocks = from_entries (map (\<lambda>b. (lb_key b, ?f b)) blocks)"
    by (simp add: packBlockLanes_def from_entries_def Let_def fold_map comp_def lane_of_def count_of_def)
  also have "\<dots> = map (\<lambda>b. (lb_key b, ?f b)) blocks"
    using assms(1) by (intro from_entries_distinct) (simp add: comp_def)
  finally show ?thesis using assms
    by (simp add: map_of_eq_Some_iff comp_def)
qed

lemma pack_steps_mono:
  "count_of st a \<le> count_of (fold pack_step bs st) a"
  "lb_key a \<notin> lb_key ` set bs \<Longrightarrow> lane_of (fold pack_step bs st) a = lane_of st a"
proof -
  show "count_of st a \<le> count_of (fold pack_step bs st) a"
  proof (induction bs arbitrary: st)
    case (Cons b bs)
    show ?case using order_trans[OF count_of_step(1) Cons.IH[of "pack_step b st"]] by simp
  qed simp
  show "lb_key a \<notin> lb_key ` set bs \<Longrightarrow> lane_of (fold pack_step bs st) a = lane_of st a"
    by (induction bs arbitrary: st) (auto simp: lane_of_step)
qed

lemma pack_court_mono:
  "count_of st a \<le> count_of (pack_court bs st) a"
  "lb_key a \<notin> lb_key ` set bs \<Longrightarrow> lane_of (pack_court bs st) a = lane_of st a"
  using pack_steps_mono[where st = "st\<lparr>ls_active := []\<rparr>" and a = a and bs = "sort_key lb_start bs"]
  by (simp_all add: pack_court_def count_of_def lane_of_def)

lemma pack_courts_mono:
  "count_of st a \<le> count_of (fold (\<lambda>(c, l). pack_court l) gs st) a \<and>
   ((\<forall>(c, l) \<in> set gs. lb_key a \<notin> lb_key ` set l) \<longrightarrow>
     lane_of (fold (\<lambda>(c, l). pack_court l) gs st) a = lane_of st a)"
proof (induction gs arbitrary: st)
  case (Cons g gs)
  obtain c l where g: "g = (c, l)" by (cases g)
  have "count_of st a \<le> count_of (fold (\<lambda>(c, l). pack_court l) gs (pack_court l st)) a"
    using pack_court_mono(1)[of st a l] Cons.IH[of "pack_court l st"] by linarith
  moreover have "lb_key a \<notin> lb_key ` set l \<Longrightarrow> lane_of (pack_court l st) a = lane_of st a"
    by (rule pack_court_mono(2))
  ultimately show ?case using Cons.IH[of "pack_court l st"] by (simp add: g)
qed simp

lemma pack_all_unplaced:
  "lb_key a \<notin> lb_key ` {b \<in> set blocks. lane_court b \<noteq> None} \<Longrightarrow> lane_of (pack_all blocks) a = None"
  "0 < count_of (pack_all blocks) a"
proof -
  let ?e = "\<lparr>ls_active = [], ls_laneOf = [], ls_countOf = []\<rparr>" and ?gs = "group_by lane_court blocks"
  note m = pack_courts_mono[of ?e a ?gs, folded pack_all_def]
  show "0 < count_of (pack_all blocks) a" using m by (simp add: count_of_def)
  assume un: "lb_key a \<notin> lb_key ` {b \<in> set blocks. lane_court b \<noteq> None}"
  have "\<forall>(c, l) \<in> set ?gs. lb_key a \<notin> lb_key ` set l"
  proof (intro ballI, clarify)
    fix c l b assume cl: "(c, l) \<in> set ?gs" and b: "lb_key a = lb_key b" "b \<in> set l"
    from cl have "l = filter (\<lambda>x. lane_court x = Some c) blocks" by (simp only: group_by_mem)
    then show False using un b by auto
  qed
  then show "lane_of (pack_all blocks) a = None" using m by (simp add: lane_of_def)
qed

section \<open>Properties\<close>

text \<open>C15. Blocks drawn side by side: two different court-assigned blocks of one court that share a
  slot never get the same lane, so they cannot be painted over one another.\<close>

theorem shared_slots_different_lanes:
  assumes "distinct (map lb_key blocks)" "a \<in> set blocks" "b \<in> set blocks" "a \<noteq> b"
    and "lb_court a = Some c" "lb_court b = Some c" "lb_slot a = Some s" "lb_slot b = Some t"
    and "s < t + lb_span b" "t < s + lb_span a"
  shows "map_option laneIndex (map_of (packBlockLanes blocks) (lb_key a)) \<noteq>
         map_option laneIndex (map_of (packBlockLanes blocks) (lb_key b))"
proof -
  have sh: "share a b" "lane_court a \<noteq> None" "lane_court b \<noteq> None"
    using assms(5-10) by (simp_all add: share_def lane_court_def lb_start_def lb_end_def)
  let ?P = "{b \<in> set blocks. lane_court b \<noteq> None}" and ?st = "pack_all blocks"
  have P: "packed ?P ?st" by (rule pack_all_packed[OF assms(1)])
  have ab: "a \<in> ?P" "b \<in> ?P" using assms(2,3) sh by simp_all
  obtain l k where "lane_of ?st a = Some l" "lane_of ?st b = Some k"
    using P ab unfolding packed_def by meson
  moreover have "lane_of ?st a \<noteq> lane_of ?st b" using P ab sh(1) assms(4) unfolding packed_def by blast
  ultimately show ?thesis by (simp add: packBlockLanes_lookup assms(1-3))
qed

definition demo_lane_blocks :: "lane_block list" where
  "demo_lane_blocks = [\<lparr>lb_key = ''m1'', lb_court = Some 1, lb_slot = Some 0, lb_span = 3\<rparr>,
     \<lparr>lb_key = ''m2'', lb_court = Some 1, lb_slot = Some 2, lb_span = 1\<rparr>]"

theorem shared_slots_different_lanes_witness:
  "map_option laneIndex (map_of (packBlockLanes demo_lane_blocks) ''m1'') \<noteq>
   map_option laneIndex (map_of (packBlockLanes demo_lane_blocks) ''m2'')"
  using shared_slots_different_lanes[of demo_lane_blocks "demo_lane_blocks ! 0" "demo_lane_blocks ! 1" 1 0 2]
  by (simp add: demo_lane_blocks_def)

text \<open>Every block has a lane inside its cluster: the lane map has an entry for every block, and
  the lane's index is below the number of lanes the block's width is divided by.\<close>

theorem lane_index_in_range:
  assumes "distinct (map lb_key blocks)" "b \<in> set blocks"
  shows "\<exists>l. map_of (packBlockLanes blocks) (lb_key b) = Some l \<and> laneIndex l < laneCount l"
proof (cases "lane_court b = None")
  case False
  then obtain l where "lane_of (pack_all blocks) b = Some l" "l < count_of (pack_all blocks) b"
    using pack_all_packed[OF assms(1)] assms(2) unfolding packed_def by blast
  then show ?thesis by (simp add: packBlockLanes_lookup[OF assms])
next
  case True
  have "lb_key b \<notin> lb_key ` {a \<in> set blocks. lane_court a \<noteq> None}"
  proof
    assume "lb_key b \<in> lb_key ` {a \<in> set blocks. lane_court a \<noteq> None}"
    then obtain a where a: "lb_key b = lb_key a" "a \<in> set blocks" "lane_court a \<noteq> None" by blast
    moreover have "inj_on lb_key (set blocks)" using assms(1) by (simp add: distinct_map)
    ultimately have "b = a" using assms(2) by (meson inj_onD)
    then show False using a True by blast
  qed
  then have "lane_of (pack_all blocks) b = None" by (rule pack_all_unplaced(1))
  then show ?thesis using pack_all_unplaced(2)[of blocks b] by (simp add: packBlockLanes_lookup[OF assms])
qed

theorem lane_index_in_range_witness:
  "\<exists>l. map_of (packBlockLanes demo_lane_blocks) ''m2'' = Some l \<and> laneIndex l < laneCount l"
  using lane_index_in_range[of demo_lane_blocks "demo_lane_blocks ! 1"] by (simp add: demo_lane_blocks_def)

text \<open>Keys name one match: a key parses to an engine and an id exactly when it is the key built
  from them, so \<open>parseMatchKey\<close> and \<open>matchKey\<close> are inverse and no two matches share a key.\<close>

theorem match_key_roundtrip:
  "parseMatchKey key = Some (src, i) \<longleftrightarrow> key = matchKey src i"
  using parse_some_key parse_matchKey by blast

text \<open>What the meet adapter says of a match: a postponed match has no court and no slot whatever
  the schedule says, a score and an actual end appear only on a finished match, a finished match
  counts as started, the identities are exactly the people of its sides, each once, and once the
  match is called an empty side is shown as an alert, never as a name.\<close>

theorem meet_block_faithful:
  "let b = meet_block hc assigns states names config m; st = map_of states (md_id m)
   in (Option.bind st ms_postponed = Some True \<longrightarrow> m_court b = None \<and> m_slot b = None) \<and>
     (m_score b \<noteq> None \<longrightarrow> m_done b) \<and> (m_actualEndSlot b \<noteq> None \<longrightarrow> m_done b) \<and>
     (m_done b \<longrightarrow> m_started b) \<and>
     set (m_playerIds b) = set (md_sideA m) \<union> set (md_sideB m) \<union> set (or_else (md_sideC m) []) \<and>
     distinct (m_playerIds b) \<and>
     (m_status b \<noteq> MScheduled \<and> md_sideA m = [] \<longrightarrow> m_sideA b = UNRESOLVED_OPERATIONAL_SIDE) \<and>
     m_sidesUnresolved b = Some (md_sideA m = [] \<or> md_sideB m = [])"
  by (simp add: meet_block_def Let_def meetPlayerIds_def js_set_def operationalSide_def
      meetSideResolved_def Un_ac split: if_splits)

definition demo_match :: match_dto where
  "demo_match = \<lparr>md_id = ''m'', md_matchNumber = Some 1, md_sideA = [''p''], md_sideB = [],
     md_sideC = None, md_eventRank = Some ''MS1'', md_durationSlots = 2\<rparr>"

theorem meet_block_faithful_witness:
  "let b = meet_block demo_clock [(''m'', \<lparr>as_matchId = ''m'', as_slotId = 3, as_courtId = 2, as_durationSlots = 2\<rparr>)]
       [(''m'', (bare_match_state ''m'' MCalled)\<lparr>ms_postponed := Some True\<rparr>)] [] None demo_match
   in m_court b = None \<and> m_slot b = None"
  using meet_block_faithful[of demo_clock "[(''m'', \<lparr>as_matchId = ''m'', as_slotId = 3, as_courtId = 2, as_durationSlots = 2\<rparr>)]"
      "[(''m'', (bare_match_state ''m'' MCalled)\<lparr>ms_postponed := Some True\<rparr>)]" "[]" None demo_match]
  by (simp add: Let_def demo_match_def)

end
