(* ===== verification/BoardPlacements.thy ===== *)
theory BoardPlacements
  imports OpsBlock
begin

text \<open>
  \<open>modules/operations/runtime/boardPlacements.ts\<close>: where the two operations boards draw a match.
  The plan board shows the plan; the live board shows what happened and pushes what is still to
  come past whatever occupies its court.
\<close>

record board_chip =
  ch_key :: string
  ch_courtIndex :: int
  ch_startSlot :: int
  ch_span :: int
  ch_source :: match_source
  ch_state :: run_status
  ch_late :: bool
  ch_overrunSlots :: int
  ch_pushedSlots :: int
  ch_identity :: match_identity
  ch_colorKey :: "string option"
  ch_plannedSpan :: int
  ch_sideA :: "string option"
  ch_sideB :: "string option"

definition courtAssigned :: "ops_block list \<Rightarrow> ops_block list" where
  "courtAssigned blocks = filter (\<lambda>b. m_court b \<noteq> None \<and> m_slot b \<noteq> None) blocks"

definition courtIndexOf :: "ops_block \<Rightarrow> int" where
  "courtIndexOf b = max 0 (or_else (m_court b) 0 - 1)"

definition plan_chip :: "ops_block \<Rightarrow> board_chip" where
  "plan_chip b =
     \<lparr>ch_key = m_key b, ch_courtIndex = courtIndexOf b, ch_startSlot = or_else (m_slot b) 0,
      ch_span = 1, ch_source = m_source b, ch_state = fromEngineStatus (m_status b),
      ch_late = False, ch_overrunSlots = 0, ch_pushedSlots = 0, ch_identity = m_identity b,
      ch_colorKey = m_colorKey b, ch_plannedSpan = max 1 (m_span b), ch_sideA = None, ch_sideB = None\<rparr>"

definition buildPlanChips :: "ops_block list \<Rightarrow> board_chip list" where
  "buildPlanChips blocks = map plan_chip (courtAssigned blocks)"

definition isPlanned :: "board_chip \<Rightarrow> bool" where
  "isPlanned c \<longleftrightarrow> ch_state c = RScheduled \<or> ch_state c = RCalled"

definition projStart :: "int \<Rightarrow> board_chip \<Rightarrow> int" where
  "projStart nowSlot c = (if isPlanned c then max (ch_startSlot c) nowSlot else ch_startSlot c)"

text \<open>The comparator: projected start, then facts before plans, then the planned start.\<close>

definition walk_key :: "int \<Rightarrow> board_chip \<Rightarrow> int \<times> int \<times> int" where
  "walk_key nowSlot c = (projStart nowSlot c, if isPlanned c then 1 else 0, ch_startSlot c)"

fun max_with :: "int \<Rightarrow> jsnum \<Rightarrow> int" where
  "max_with s (Num c) = max s c"
| "max_with s _ = s"

definition moved :: "board_chip \<Rightarrow> int \<Rightarrow> board_chip" where
  "moved c start = c\<lparr>ch_pushedSlots := start - ch_startSlot c, ch_startSlot := start\<rparr>"

definition push_step ::
  "int \<Rightarrow> board_chip \<Rightarrow> jsnum \<times> (string, board_chip) dict \<Rightarrow> jsnum \<times> (string, board_chip) dict" where
  "push_step nowSlot c = (\<lambda>(cursor, pushed).
     let start = (if isPlanned c then max_with (projStart nowSlot c) cursor else projStart nowSlot c);
         pushed' = (if isPlanned c \<and> start \<noteq> ch_startSlot c
                    then AList.update (ch_key c) (moved c start) pushed else pushed)
     in (max cursor (Num (start + ch_span c)), pushed'))"

definition court_pass ::
  "int \<Rightarrow> board_chip list \<Rightarrow> (string, board_chip) dict \<Rightarrow> (string, board_chip) dict" where
  "court_pass nowSlot list pushed =
     snd (fold (push_step nowSlot) (sort_key (walk_key nowSlot) list) (NegInf, pushed))"

definition all_pushed :: "board_chip list \<Rightarrow> int \<Rightarrow> (string, board_chip) dict" where
  "all_pushed chips nowSlot =
     fold (\<lambda>(court, list). court_pass nowSlot list)
       (group_by (\<lambda>c. Some (ch_courtIndex c)) chips) []"

definition applyCourtPushback :: "board_chip list \<Rightarrow> int \<Rightarrow> board_chip list" where
  "applyCourtPushback chips nowSlot =
     (let pushed = all_pushed chips nowSlot
      in if pushed = [] then chips
         else map (\<lambda>c. or_else (map_of pushed (ch_key c)) c) chips)"

text \<open>The start and the span of a live chip, by state.\<close>

definition live_start :: "ops_block \<Rightarrow> int" where
  "live_start b =
     (let state = fromEngineStatus (m_status b); plannedSlot = or_else (m_slot b) 0
      in if state = RPlaying \<or> isRunComplete state then or_else (m_actualStartSlot b) plannedSlot
         else plannedSlot)"

definition live_span :: "ops_block \<Rightarrow> int \<Rightarrow> int" where
  "live_span b currentSlot =
     (let state = fromEngineStatus (m_status b)
      in if state = RPlaying then max 1 (currentSlot - live_start b)
         else if isRunComplete state
         then (case (m_actualStartSlot b, m_actualEndSlot b) of
                 (Some s, Some e) \<Rightarrow> max 1 (e - s) | _ \<Rightarrow> max 1 (m_span b))
         else 1)"

definition live_chip :: "int \<Rightarrow> bool \<Rightarrow> ops_block \<Rightarrow> board_chip" where
  "live_chip currentSlot running b =
     (let state = fromEngineStatus (m_status b); plannedSpan = max 1 (m_span b)
      in \<lparr>ch_key = m_key b, ch_courtIndex = courtIndexOf b, ch_startSlot = live_start b,
          ch_span = live_span b currentSlot, ch_source = m_source b, ch_state = state,
          ch_late = (running \<and> deriveLate state (m_slot b) (Some currentSlot)),
          ch_overrunSlots = deriveDriftSlots state (m_slot b) (Some plannedSpan) (Some currentSlot),
          ch_pushedSlots = 0, ch_identity = m_identity b, ch_colorKey = m_colorKey b,
          ch_plannedSpan = plannedSpan, ch_sideA = Some (m_sideA b), ch_sideB = Some (m_sideB b)\<rparr>)"

definition buildLiveChips :: "ops_block list \<Rightarrow> int \<Rightarrow> bool \<Rightarrow> board_chip list" where
  "buildLiveChips blocks currentSlot running =
     applyCourtPushback (map (live_chip currentSlot running) (courtAssigned blocks)) currentSlot"

section \<open>Facts about the walk\<close>

definition placed :: "(string, board_chip) dict \<Rightarrow> board_chip \<Rightarrow> board_chip" where
  "placed pushed c = or_else (map_of pushed (ch_key c)) c"

definition ch_end :: "board_chip \<Rightarrow> int" where
  "ch_end c = ch_startSlot c + ch_span c"

text \<open>A chip after the pass: a fact unchanged; a plan at a start no earlier than its slot and now.\<close>

definition moved_ok :: "int \<Rightarrow> board_chip \<Rightarrow> board_chip \<Rightarrow> bool" where
  "moved_ok nowSlot c d \<longleftrightarrow>
     (if isPlanned c
      then ch_startSlot c \<le> ch_startSlot d \<and> nowSlot \<le> ch_startSlot d \<and>
           (d = c \<or> d = moved c (ch_startSlot d))
      else d = c)"

definition apart :: "board_chip \<Rightarrow> board_chip \<Rightarrow> bool" where
  "apart c d \<longleftrightarrow> ch_end c \<le> ch_startSlot d \<or> ch_end d \<le> ch_startSlot c"

definition walked :: "int \<Rightarrow> board_chip list \<Rightarrow> jsnum \<Rightarrow> (string, board_chip) dict \<Rightarrow> bool" where
  "walked nowSlot cs cursor pushed \<longleftrightarrow>
     (\<forall>e \<in> set cs. Num (ch_end (placed pushed e)) \<le> cursor \<and> moved_ok nowSlot e (placed pushed e)) \<and>
     sorted_wrt (\<lambda>e p. isPlanned p \<longrightarrow> ch_end (placed pushed e) \<le> ch_startSlot (placed pushed p)) cs"

lemma max_with_ge: "s \<le> max_with s c" "Num e \<le> c \<Longrightarrow> c \<noteq> PosInf \<Longrightarrow> e \<le> max_with s c"
  by (cases c; simp)+

lemma moved_simps [simp]:
  "ch_key (moved c s) = ch_key c" "ch_startSlot (moved c s) = s" "ch_span (moved c s) = ch_span c"
  "ch_courtIndex (moved c s) = ch_courtIndex c" "ch_state (moved c s) = ch_state c"
  by (simp_all add: moved_def)

lemma placed_cong: "map_of p (ch_key c) = map_of q (ch_key c) \<Longrightarrow> placed p c = placed q c"
  by (simp add: placed_def)

lemma push_step_other:
  "ch_key c \<noteq> k \<Longrightarrow> map_of (snd (push_step n c st)) k = map_of (snd st) k"
  by (cases st) (simp add: push_step_def Let_def)

lemma fold_push_other:
  "k \<notin> ch_key ` set cs \<Longrightarrow> map_of (snd (fold (push_step n) cs st)) k = map_of (snd st) k"
  by (induction cs arbitrary: st) (auto simp: push_step_other)

lemma push_step_placed:
  assumes "push_step n c (cursor, pushed) = (cursor', pushed')" "map_of pushed (ch_key c) = None"
  defines "start \<equiv> (if isPlanned c then max_with (projStart n c) cursor else projStart n c)"
  shows "ch_startSlot (placed pushed' c) = start" "ch_span (placed pushed' c) = ch_span c"
    "moved_ok n c (placed pushed' c)" "cursor' = max cursor (Num (start + ch_span c))"
  using assms(1,2) max_with_ge(1)[of "projStart n c" cursor]
  by (auto simp: push_step_def Let_def placed_def start_def moved_ok_def projStart_def)

lemma fold_push_walked:
  assumes "distinct (map ch_key cs)" "\<forall>e \<in> set cs. map_of pushed (ch_key e) = None"
  shows "case fold (push_step n) cs (NegInf, pushed) of (cursor, out) \<Rightarrow>
     cursor \<noteq> PosInf \<and> walked n cs cursor out"
  using assms
proof (induction cs rule: rev_induct)
  case Nil
  then show ?case by (simp add: walked_def)
next
  case (snoc c cs)
  obtain cur mid where mid: "fold (push_step n) cs (NegInf, pushed) = (cur, mid)" by fastforce
  obtain cur' out where out: "push_step n c (cur, mid) = (cur', out)" by fastforce
  have IH: "cur \<noteq> PosInf" "walked n cs cur mid" using snoc mid by auto
  have "ch_key c \<notin> ch_key ` set cs" using snoc.prems(1) by simp
  then have none: "map_of mid (ch_key c) = None"
    using fold_push_other[of "ch_key c" cs n "(NegInf, pushed)"] mid snoc.prems(2) by simp
  note new = push_step_placed[OF out none]
  have same: "placed out e = placed mid e" if "e \<in> set cs" for e
  proof (rule placed_cong)
    have "ch_key c \<noteq> ch_key e" using that \<open>ch_key c \<notin> ch_key ` set cs\<close> by auto
    then show "map_of out (ch_key e) = map_of mid (ch_key e)"
      using push_step_other[of c "ch_key e" n "(cur, mid)"] out by simp
  qed
  have last: "ch_end (placed out e) \<le> ch_startSlot (placed out c)" if "e \<in> set cs" "isPlanned c" for e
    using that IH same[of e] max_with_ge(2)[of "ch_end (placed mid e)" cur] new(1)
    unfolding walked_def by auto
  have "walked n (cs @ [c]) cur' out"
    unfolding walked_def sorted_wrt_append
  proof (intro conjI ballI)
    fix e assume e: "e \<in> set (cs @ [c])"
    show "Num (ch_end (placed out e)) \<le> cur'"
      using e IH(2) same[of e] new unfolding walked_def ch_end_def by (auto simp: le_max_iff_disj)
    show "moved_ok n e (placed out e)"
      using e IH(2) same[of e] new(3) unfolding walked_def by auto
  next
    show "sorted_wrt (\<lambda>e p. isPlanned p \<longrightarrow> ch_end (placed out e) \<le> ch_startSlot (placed out p)) cs"
      using IH(2) same unfolding walked_def by (auto intro: sorted_wrt_mono_rel[rotated])
  qed (use last in auto)
  moreover have "cur' \<noteq> PosInf" using new(4) IH(1) by (cases cur) auto
  ultimately show ?case using mid out by simp
qed

text \<open>What one court's pass achieves, whatever the other courts do.\<close>

definition court_clear :: "int \<Rightarrow> board_chip list \<Rightarrow> (string, board_chip) dict \<Rightarrow> bool" where
  "court_clear n cs pushed \<longleftrightarrow>
     (\<forall>p \<in> set cs. moved_ok n p (placed pushed p)) \<and>
     (\<forall>p \<in> set cs. \<forall>e \<in> set cs. isPlanned p \<and> e \<noteq> p \<and> (isPlanned e \<or> ch_startSlot e \<le> n) \<longrightarrow>
        apart (placed pushed e) (placed pushed p))"

lemma sorted_wrt_pair:
  assumes "sorted_wrt R xs" "x \<in> set xs" "y \<in> set xs" "x \<noteq> y"
  shows "R x y \<or> R y x"
proof -
  obtain i j where "i < length xs" "j < length xs" "x = xs ! i" "y = xs ! j"
    using assms(2,3) by (metis in_set_conv_nth)
  then show ?thesis using assms(1,4)
    by (cases i j rule: linorder_cases) (auto intro: sorted_wrt_nth_less)
qed

lemma walked_clear:
  assumes "walked n cs cursor pushed" "sorted (map (walk_key n) cs)"
  shows "court_clear n cs pushed"
proof -
  let ?R = "\<lambda>e p. walk_key n e \<le> walk_key n p \<and>
    (isPlanned p \<longrightarrow> ch_end (placed pushed e) \<le> ch_startSlot (placed pushed p))"
  have "sorted_wrt (\<lambda>e p. walk_key n e \<le> walk_key n p) cs" using assms(2) by (simp add: sorted_map_wrt)
  moreover have "sorted_wrt (\<lambda>e p. isPlanned p \<longrightarrow> ch_end (placed pushed e) \<le> ch_startSlot (placed pushed p)) cs"
    using assms(1) by (simp add: walked_def)
  ultimately have R: "sorted_wrt ?R cs" by (induction cs) auto
  have "apart (placed pushed e) (placed pushed p)"
    if pe: "p \<in> set cs" "e \<in> set cs" "isPlanned p" "e \<noteq> p" "isPlanned e \<or> ch_startSlot e \<le> n" for p e
  proof -
    consider (1) "?R e p" | (2) "?R p e" using sorted_wrt_pair[OF R pe(2,1,4)] by blast
    then show ?thesis
    proof cases
      case 1
      then show ?thesis using pe(3) by (simp add: apart_def)
    next
      case 2
      have "isPlanned e"
      proof (rule ccontr)
        assume "\<not> isPlanned e"
        then have "walk_key n e = (ch_startSlot e, 0, ch_startSlot e)" "ch_startSlot e \<le> n"
          using pe(5) by (simp_all add: walk_key_def projStart_def)
        moreover have "walk_key n p = (max (ch_startSlot p) n, 1, ch_startSlot p)"
          using pe(3) by (simp add: walk_key_def projStart_def)
        ultimately show False using 2 by simp
      qed
      then show ?thesis using 2 by (simp add: apart_def)
    qed
  qed
  then show ?thesis using assms(1) by (auto simp: court_clear_def walked_def)
qed

lemma court_clear_cong:
  assumes eq: "\<forall>c \<in> set cs. map_of p (ch_key c) = map_of q (ch_key c)" and clear: "court_clear n cs p"
  shows "court_clear n cs q"
  unfolding court_clear_def
proof (intro conjI ballI impI)
  have same: "placed q c = placed p c" if "c \<in> set cs" for c using eq that by (simp add: placed_def)
  fix x assume x: "x \<in> set cs"
  show "moved_ok n x (placed q x)" using clear x same[OF x] by (simp add: court_clear_def)
  fix e assume e: "e \<in> set cs" "isPlanned x \<and> e \<noteq> x \<and> (isPlanned e \<or> ch_startSlot e \<le> n)"
  show "apart (placed q e) (placed q x)"
    unfolding same[OF x] same[OF e(1)] using clear x e unfolding court_clear_def by blast
qed

lemma court_pass_other:
  "k \<notin> ch_key ` set cs \<Longrightarrow> map_of (court_pass n cs pushed) k = map_of pushed k"
  by (simp add: court_pass_def fold_push_other)

lemma court_pass_clear:
  assumes "distinct (map ch_key cs)" "\<forall>e \<in> set cs. map_of pushed (ch_key e) = None"
  shows "court_clear n cs (court_pass n cs pushed)"
proof -
  let ?s = "sort_key (walk_key n) cs"
  have "distinct (map ch_key ?s)" using assms(1) by (simp add: distinct_map)
  then have "walked n ?s (fst (fold (push_step n) ?s (NegInf, pushed))) (court_pass n cs pushed)"
    using fold_push_walked[of ?s pushed n] assms(2) by (simp add: court_pass_def split: prod.splits)
  then have "court_clear n ?s (court_pass n cs pushed)"
    using sorted_sort_key by (rule walked_clear)
  then show ?thesis by (simp add: court_clear_def)
qed

definition groups_pass ::
  "int \<Rightarrow> (int \<times> board_chip list) list \<Rightarrow> (string, board_chip) dict \<Rightarrow> (string, board_chip) dict" where
  "groups_pass n gs pushed = fold (\<lambda>(court, list). court_pass n list) gs pushed"

lemma groups_pass_other:
  "\<forall>(c, l) \<in> set gs. k \<notin> ch_key ` set l \<Longrightarrow> map_of (groups_pass n gs pushed) k = map_of pushed k"
  unfolding groups_pass_def
proof (induction gs arbitrary: pushed)
  case (Cons g gs)
  then show ?case by (cases g) (simp add: court_pass_other)
qed simp

lemma groups_pass_clear:
  assumes "distinct (map ch_key (concat (map snd gs)))"
    "\<forall>e \<in> set (concat (map snd gs)). map_of pushed (ch_key e) = None" "(c, l) \<in> set gs"
  shows "court_clear n l (groups_pass n gs pushed)"
  using assms
proof (induction gs arbitrary: pushed)
  case (Cons g gs)
  obtain d k where g: "g = (d, k)" by (cases g)
  let ?mid = "court_pass n k pushed"
  have step: "groups_pass n (g # gs) pushed = groups_pass n gs ?mid"
    by (simp add: groups_pass_def g)
  have sep: "\<forall>e \<in> set (concat (map snd gs)). ch_key e \<notin> ch_key ` set k"
    using Cons.prems(1) by (force simp: g)
  show ?case
  proof (cases "(c, l) = (d, k)")
    case True
    have kept: "map_of (groups_pass n gs ?mid) (ch_key e) = map_of ?mid (ch_key e)" if "e \<in> set k" for e
    proof (rule groups_pass_other, intro ballI, clarify)
      fix c' l' a assume a: "(c', l') \<in> set gs" "ch_key e = ch_key a" "a \<in> set l'"
      then have "a \<in> set (concat (map snd gs))" by (simp, intro bexI[of _ "(c', l')"]) simp_all
      then have "ch_key a \<notin> ch_key ` set k" using sep by blast
      then show False using imageI[OF that, of ch_key] a(2) by simp
    qed
    have "distinct (map ch_key k)" "\<forall>e \<in> set k. map_of pushed (ch_key e) = None"
      using Cons.prems(1,2) unfolding g by simp_all
    then have "court_clear n k ?mid" by (rule court_pass_clear)
    moreover have "\<forall>e \<in> set k. map_of ?mid (ch_key e) = map_of (groups_pass n gs ?mid) (ch_key e)"
      by (intro ballI kept[symmetric])
    ultimately have "court_clear n k (groups_pass n gs ?mid)" by (rule court_clear_cong[rotated])
    then show ?thesis using True step by simp
  next
    case False
    then have "(c, l) \<in> set gs" using Cons.prems(3) g by auto
    moreover have "\<forall>e \<in> set (concat (map snd gs)). map_of ?mid (ch_key e) = None"
    proof
      fix e assume e: "e \<in> set (concat (map snd gs))"
      then have "ch_key e \<notin> ch_key ` set k" using sep by blast
      moreover have "map_of pushed (ch_key e) = None" using Cons.prems(2) e by (simp add: g)
      ultimately show "map_of ?mid (ch_key e) = None" using court_pass_other by metis
    qed
    moreover have "distinct (map ch_key (concat (map snd gs)))" using Cons.prems(1) by (simp add: g)
    ultimately show ?thesis using Cons.IH step by metis
  qed
qed simp

lemma chips_grouped:
  defines "key \<equiv> \<lambda>c. Some (ch_courtIndex c)"
  assumes "distinct (map ch_key chips)"
  shows "distinct (map ch_key (concat (map snd (group_by key chips))))"
proof -
  let ?gs = "group_by key chips"
  have l: "l = filter (\<lambda>c. key c = Some d) chips" if "(d, l) \<in> set ?gs" for d l
    using that by (simp only: group_by_mem)
  have "distinct (concat (map snd gs)) \<and> set (concat (map snd gs)) \<subseteq> {c \<in> set chips. ch_courtIndex c \<in> fst ` set gs}"
    if "set gs \<subseteq> set ?gs" "distinct (map fst gs)" for gs
    using that
  proof (induction gs)
    case (Cons g gs)
    obtain d k where g: "g = (d, k)" by (cases g)
    then have k: "k = filter (\<lambda>c. key c = Some d) chips" using l[of d k] Cons.prems(1) by simp
    have "distinct k" using assms(2) by (simp add: k distinct_map)
    moreover have "set k \<inter> set (concat (map snd gs)) = {}"
      using Cons k g by (auto simp: key_def)
    ultimately show ?case using Cons k g by (auto simp: key_def)
  qed simp
  note d = this[OF subset_refl distinct_group_by]
  then have "inj_on ch_key (set (concat (map snd ?gs)))"
    using assms(2) by (auto simp: distinct_map intro: inj_on_subset)
  then show ?thesis using d by (simp add: distinct_map)
qed

lemma all_pushed_clear:
  assumes "distinct (map ch_key chips)"
  shows "court_clear n (filter (\<lambda>c. ch_courtIndex c = d) chips) (all_pushed chips n)"
proof (cases "filter (\<lambda>c. ch_courtIndex c = d) chips = []")
  case True
  show ?thesis unfolding True by (simp add: court_clear_def)
next
  case False
  let ?gs = "group_by (\<lambda>c. Some (ch_courtIndex c)) chips"
  have "(d, filter (\<lambda>c. ch_courtIndex c = d) chips) \<in> set ?gs"
    using False by (simp add: group_by_mem)
  then show ?thesis
    using groups_pass_clear[OF chips_grouped[OF assms], of "[]"] by (simp add: all_pushed_def groups_pass_def)
qed

lemma applyCourtPushback_placed:
  "applyCourtPushback chips n = map (placed (all_pushed chips n)) chips"
proof -
  have "map (placed []) chips = chips" by (rule map_idI) (simp add: placed_def)
  then show ?thesis by (simp add: applyCourtPushback_def Let_def placed_def[symmetric])
qed

lemma pushback_moved:
  assumes "distinct (map ch_key chips)" "c \<in> set chips"
  shows "moved_ok n c (placed (all_pushed chips n) c)"
  using all_pushed_clear[OF assms(1), of n "ch_courtIndex c"] assms(2) by (simp add: court_clear_def)

section \<open>Properties\<close>

text \<open>C13. The live board never stacks what is still to come: after the pushback, a match not yet
  started overlaps no other match still to come on its court, and no match whose start is not in
  the future.\<close>

theorem pushback_clears_court:
  assumes "distinct (map ch_key chips)" "p \<in> set chips" "e \<in> set chips" "e \<noteq> p"
    and "ch_courtIndex e = ch_courtIndex p" "isPlanned p" "isPlanned e \<or> ch_startSlot e \<le> nowSlot"
  shows "\<exists>p' e'. p' \<in> set (applyCourtPushback chips nowSlot) \<and> ch_key p' = ch_key p \<and>
           e' \<in> set (applyCourtPushback chips nowSlot) \<and> ch_key e' = ch_key e \<and>
           (ch_startSlot e' + ch_span e' \<le> ch_startSlot p' \<or>
            ch_startSlot p' + ch_span p' \<le> ch_startSlot e')"
proof -
  let ?P = "all_pushed chips nowSlot"
  have "apart (placed ?P e) (placed ?P p)"
    using all_pushed_clear[OF assms(1), of nowSlot "ch_courtIndex p"] assms(2-7)
    by (simp add: court_clear_def)
  moreover have key: "ch_key (placed ?P c) = ch_key c" if "c \<in> set chips" for c
    using pushback_moved[OF assms(1) that, of nowSlot] by (auto simp: moved_ok_def split: if_splits)
      (metis moved_simps(1))+
  ultimately show ?thesis using assms(2,3)
    by (intro exI[of _ "placed ?P p"] exI[of _ "placed ?P e"])
       (simp add: applyCourtPushback_placed apart_def ch_end_def)
qed

definition demo_chip :: "string \<Rightarrow> run_status \<Rightarrow> int \<Rightarrow> int \<Rightarrow> board_chip" where
  "demo_chip k st s n = \<lparr>ch_key = k, ch_courtIndex = 0, ch_startSlot = s, ch_span = n,
     ch_source = Meet, ch_state = st, ch_late = False, ch_overrunSlots = 0, ch_pushedSlots = 0,
     ch_identity = MeetIdentity k None None, ch_colorKey = None, ch_plannedSpan = 1,
     ch_sideA = None, ch_sideB = None\<rparr>"

theorem pushback_clears_court_witness:
  "\<exists>p' e'. p' \<in> set (applyCourtPushback [demo_chip ''a'' RPlaying 2 5, demo_chip ''b'' RScheduled 3 1] 6) \<and>
     ch_key p' = ''b'' \<and>
     e' \<in> set (applyCourtPushback [demo_chip ''a'' RPlaying 2 5, demo_chip ''b'' RScheduled 3 1] 6) \<and>
     ch_key e' = ''a'' \<and>
     (ch_startSlot e' + ch_span e' \<le> ch_startSlot p' \<or> ch_startSlot p' + ch_span p' \<le> ch_startSlot e')"
  using pushback_clears_court[of "[demo_chip ''a'' RPlaying 2 5, demo_chip ''b'' RScheduled 3 1]"
      "demo_chip ''b'' RScheduled 3 1" "demo_chip ''a'' RPlaying 2 5" 6]
  by (simp add: demo_chip_def isPlanned_def)

text \<open>C14. Plans move, facts do not: the pushback keeps the number and the order of the chips; a match
  that has started or ended is returned exactly as it was, and a match still to come is only ever
  moved later, never before now, and carries exactly the distance it was moved.\<close>

theorem pushback_moves_plans_only:
  assumes "distinct (map ch_key chips)" "i < length chips"
    and "d = applyCourtPushback chips nowSlot ! i"
  shows "length (applyCourtPushback chips nowSlot) = length chips \<and>
     (\<not> isPlanned (chips ! i) \<longrightarrow> d = chips ! i) \<and>
     (isPlanned (chips ! i) \<longrightarrow>
        ch_startSlot (chips ! i) \<le> ch_startSlot d \<and> nowSlot \<le> ch_startSlot d \<and>
        (d = chips ! i \<or>
         d = (chips ! i)\<lparr>ch_pushedSlots := ch_startSlot d - ch_startSlot (chips ! i),
                        ch_startSlot := ch_startSlot d\<rparr>))"
proof -
  have "d = placed (all_pushed chips nowSlot) (chips ! i)"
    using assms(2,3) by (simp add: applyCourtPushback_placed)
  then have "moved_ok nowSlot (chips ! i) d" using pushback_moved[OF assms(1)] assms(2) by simp
  then show ?thesis by (auto simp: moved_ok_def moved_def applyCourtPushback_placed)
qed

theorem pushback_moves_plans_only_witness:
  "6 \<le> ch_startSlot (applyCourtPushback [demo_chip ''a'' RPlaying 2 5, demo_chip ''b'' RScheduled 3 1] 6 ! 1) \<and>
   applyCourtPushback [demo_chip ''a'' RPlaying 2 5, demo_chip ''b'' RScheduled 3 1] 6 ! 0 = demo_chip ''a'' RPlaying 2 5"
  using pushback_moves_plans_only[of "[demo_chip ''a'' RPlaying 2 5, demo_chip ''b'' RScheduled 3 1]" 1 _ 6]
    pushback_moves_plans_only[of "[demo_chip ''a'' RPlaying 2 5, demo_chip ''b'' RScheduled 3 1]" 0 _ 6]
  by (simp add: demo_chip_def isPlanned_def)

end
