(* ===== verification/CourtOccupancy.thy ===== *)
theory CourtOccupancy
  imports MatchMachine
begin

text \<open>
  \<open>platform/domain/courtOccupancy.ts\<close>: the three-valued court state the desk counts from, the
  disputes it must resolve, and the clashes of a plan (interval arithmetic on court, slot and
  span, no match status involved).
\<close>

section \<open>Occupancy now\<close>

datatype occupancy_status = OScheduled | OCalled | OPlaying | OStarted | ODone | OFinished | ORetired

datatype court_state = Occupied | Disputed

datatype now_window = Desk | Board

record occupancy_match =
  om_id :: string
  om_status :: occupancy_status
  om_court :: "int option"

record court_claim =
  cl_matchKey :: string
  cl_status :: occupancy_status

record court_dispute =
  cd_courtId :: int
  cd_claims :: "court_claim list"

definition occupiesCourtNow :: "occupancy_status \<Rightarrow> now_window \<Rightarrow> bool" where
  "occupiesCourtNow status nowWindow =
     (if nowWindow = Board \<and> status = OCalled then True
      else status = OPlaying \<or> status = OStarted)"

definition holdsCourtCommitment :: "occupancy_status \<Rightarrow> bool" where
  "holdsCourtCommitment status \<longleftrightarrow>
     status = OCalled \<or> status = OPlaying \<or> status = OStarted \<or>
     status = ODone \<or> status = OFinished \<or> status = ORetired"

text \<open>The guard of both grouping loops: a match that is skipped has no key.\<close>

definition claim_key :: "now_window \<Rightarrow> occupancy_match \<Rightarrow> int option" where
  "claim_key nowWindow m =
     (if om_court m = None \<or> \<not> occupiesCourtNow (om_status m) nowWindow then None else om_court m)"

definition deriveCourtStates ::
  "occupancy_match list \<Rightarrow> now_window \<Rightarrow> (int, court_state) dict" where
  "deriveCourtStates matches nowWindow =
     from_entries (map (\<lambda>(court, claimants).
       (court, if length claimants = 1 then Occupied else Disputed))
       (group_by (claim_key nowWindow) matches))"

definition deriveDisputes :: "occupancy_match list \<Rightarrow> now_window \<Rightarrow> court_dispute list" where
  "deriveDisputes matches nowWindow =
     map (\<lambda>(court, claimants).
            \<lparr>cd_courtId = court,
             cd_claims = map (\<lambda>m. \<lparr>cl_matchKey = om_id m, cl_status = om_status m\<rparr>) claimants\<rparr>)
       (filter (\<lambda>(court, claimants). \<not> length claimants < 2)
         (sort_key fst (group_by (claim_key nowWindow) matches)))"

definition courtsFree :: "int \<Rightarrow> (int, court_state) dict \<Rightarrow> int" where
  "courtsFree courtCount states = max (courtCount - int (length states)) 0"

definition occupiedCourtCount :: "(int, court_state) dict \<Rightarrow> int" where
  "occupiedCourtCount states = int (length (filter (\<lambda>(_, st). st = Occupied) states))"

definition disputedCourtCount :: "(int, court_state) dict \<Rightarrow> int" where
  "disputedCourtCount states = int (length (filter (\<lambda>(_, st). st = Disputed) states))"

text \<open>The matches that claim a court.\<close>

definition claimants :: "now_window \<Rightarrow> occupancy_match list \<Rightarrow> int \<Rightarrow> occupancy_match list" where
  "claimants w ms c = filter (\<lambda>m. claim_key w m = Some c) ms"

lemma claim_key_Some:
  "claim_key w m = Some c \<longleftrightarrow> om_court m = Some c \<and> occupiesCourtNow (om_status m) w"
  by (auto simp: claim_key_def)

lemma deriveCourtStates_eq:
  "deriveCourtStates ms w = map (\<lambda>(c, l). (c, if length l = 1 then Occupied else Disputed))
     (group_by (claim_key w) ms)"
proof -
  have "map fst (map (\<lambda>(c, l). (c, if length l = 1 then Occupied else Disputed))
      (group_by (claim_key w) ms)) = map fst (group_by (claim_key w) ms)"
    by (auto simp: case_prod_beta comp_def)
  then show ?thesis
    unfolding deriveCourtStates_def
    by (intro from_entries_distinct) (simp only: distinct_group_by)
qed

lemma length_deriveCourtStates:
  "length (deriveCourtStates ms w) = card {c. claimants w ms c \<noteq> []}"
proof -
  have "length (deriveCourtStates ms w) = card (fst ` set (group_by (claim_key w) ms))"
    using distinct_card[OF distinct_group_by[of "claim_key w" ms]] by (simp add: deriveCourtStates_eq)
  also have "fst ` set (group_by (claim_key w) ms) = {c. claimants w ms c \<noteq> []}"
    by (auto simp: group_by_keys claimants_def filter_empty_conv)
  finally show ?thesis .
qed

lemma map_of_deriveCourtStates:
  "map_of (deriveCourtStates ms w) c =
     (if claimants w ms c = [] then None
      else Some (if length (claimants w ms c) = 1 then Occupied else Disputed))"
proof -
  have "map_of (deriveCourtStates ms w) c =
      map_option (\<lambda>l. if length l = 1 then Occupied else Disputed)
        (map_of (group_by (claim_key w) ms) c)"
    by (simp add: deriveCourtStates_eq map_of_map)
  then show ?thesis by (simp add: group_by_lookup Let_def claimants_def)
qed

lemma occupied_plus_disputed:
  "occupiedCourtCount st + disputedCourtCount st = int (length st)"
proof -
  have "s = Occupied \<or> s = Disputed" for s by (cases s) simp_all
  then show ?thesis
    by (induction st) (auto simp: occupiedCourtCount_def disputedCourtCount_def)
qed

lemma dispute_courts:
  "cd_courtId ` set (deriveDisputes ms w) = {c. 2 \<le> length (claimants w ms c)}"
proof -
  have "cd_courtId ` set (deriveDisputes ms w) =
      fst ` {x \<in> set (group_by (claim_key w) ms). 2 \<le> length (snd x)}"
    by (simp add: deriveDisputes_def image_image case_prod_beta not_less)
  also have "\<dots> = {c. \<exists>l. (c, l) \<in> set (group_by (claim_key w) ms) \<and> 2 \<le> length l}"
    by (auto simp: image_iff)
  also have "\<dots> = {c. 2 \<le> length (claimants w ms c)}"
    by (auto simp: group_by_mem claimants_def)
  finally show ?thesis .
qed

section \<open>Clashes of a plan\<close>

record planned_placement =
  pl_key :: string
  pl_court :: "int option"
  pl_slot :: "int option"
  pl_span :: "int option"

record planned_clash =
  pc_courtId :: int
  pc_slotId :: int
  pc_keys :: "string list"

definition pl_start :: "planned_placement \<Rightarrow> int" where
  "pl_start p = or_else (pl_slot p) 0"

definition pl_end :: "planned_placement \<Rightarrow> int" where
  "pl_end p = pl_start p + max 1 (or_else (pl_span p) 1)"

definition placed_key :: "planned_placement \<Rightarrow> int option" where
  "placed_key p = (if pl_court p = None \<or> pl_slot p = None then None else pl_court p)"

text \<open>The closure \<open>flush\<close>: what it appends to \<open>clashes\<close>.\<close>

definition flush_cluster ::
  "int \<Rightarrow> planned_placement list \<Rightarrow> planned_clash list \<Rightarrow> planned_clash list" where
  "flush_cluster court cluster clashes =
     (if length cluster > 1
      then clashes @ [\<lparr>pc_courtId = court, pc_slotId = pl_start (hd cluster),
                       pc_keys = map pl_key cluster\<rparr>]
      else clashes)"

fun sweep_court ::
  "int \<Rightarrow> planned_placement list \<Rightarrow> planned_placement list \<Rightarrow> jsnum \<Rightarrow>
   planned_clash list \<Rightarrow> planned_clash list" where
  "sweep_court court [] cluster clusterEnd clashes = flush_cluster court cluster clashes"
| "sweep_court court (p # ps) cluster clusterEnd clashes =
     (if Num (pl_start p) < clusterEnd
      then sweep_court court ps (cluster @ [p]) (max clusterEnd (Num (pl_end p))) clashes
      else sweep_court court ps [p] (Num (pl_end p)) (flush_cluster court cluster clashes))"

definition findPlannedClashes :: "planned_placement list \<Rightarrow> planned_clash list" where
  "findPlannedClashes placements =
     fold (\<lambda>(court, list) clashes. sweep_court court (sort_key pl_start list) [] NegInf clashes)
       (sort_key fst (group_by placed_key placements)) []"

text \<open>Two placements clash when they hold one court at overlapping slots.\<close>

definition overlap :: "planned_placement \<Rightarrow> planned_placement \<Rightarrow> bool" where
  "overlap p q \<longleftrightarrow> pl_start p < pl_end q \<and> pl_start q < pl_end p"

definition clash :: "planned_placement \<Rightarrow> planned_placement \<Rightarrow> bool" where
  "clash p q \<longleftrightarrow> (\<exists>c. placed_key p = Some c \<and> placed_key q = Some c) \<and> overlap p q"

lemma pl_start_less_end [simp]: "pl_start p < pl_end p"
  by (simp add: pl_end_def)

text \<open>The sweep splits a court's sorted list into clusters and reports the long ones.\<close>

fun clusters ::
  "planned_placement list \<Rightarrow> jsnum \<Rightarrow> planned_placement list \<Rightarrow> planned_placement list list" where
  "clusters cl ce [] = [cl]"
| "clusters cl ce (p # ps) =
     (if Num (pl_start p) < ce then clusters (cl @ [p]) (max ce (Num (pl_end p))) ps
      else cl # clusters [p] (Num (pl_end p)) ps)"

definition clash_of :: "int \<Rightarrow> planned_placement list \<Rightarrow> planned_clash" where
  "clash_of court cl =
     \<lparr>pc_courtId = court, pc_slotId = pl_start (hd cl), pc_keys = map pl_key cl\<rparr>"

lemma sweep_clusters:
  "sweep_court court ps cl ce acc =
     acc @ map (clash_of court) (filter (\<lambda>c. length c > 1) (clusters cl ce ps))"
  by (induction court ps cl ce acc rule: sweep_court.induct)
     (auto simp: flush_cluster_def clash_of_def)

lemma concat_clusters: "concat (clusters cl ce ps) = cl @ ps"
  by (induction cl ce ps rule: clusters.induct) auto

definition separated :: "planned_placement list \<Rightarrow> planned_placement list \<Rightarrow> bool" where
  "separated c d \<longleftrightarrow> (\<forall>p \<in> set c. \<forall>q \<in> set d. pl_end p \<le> pl_start q)"

lemma clusters_separated:
  assumes "sorted (map pl_start ps)" "\<forall>p \<in> set cl. Num (pl_end p) \<le> ce"
  shows "sorted_wrt separated (clusters cl ce ps)"
  using assms
proof (induction cl ce ps rule: clusters.induct)
  case (2 cl ce p ps)
  show ?case
  proof (cases "Num (pl_start p) < ce")
    case True
    with 2 show ?thesis by (fastforce simp: le_max_iff_disj)
  next
    case False
    have later: "set c \<subseteq> insert p (set ps)" if "c \<in> set (clusters [p] (Num (pl_end p)) ps)" for c
      using that concat_clusters[of "[p]" "Num (pl_end p)" ps]
      by (metis UN_upper append_Cons append_Nil list.simps(15) set_concat)
    have "separated cl c" if "c \<in> set (clusters [p] (Num (pl_end p)) ps)" for c
    proof -
      have "pl_end r \<le> pl_start q" if r: "r \<in> set cl" and q: "q \<in> insert p (set ps)" for r q
      proof -
        have "Num (pl_end r) \<le> ce" using 2(4) r by blast
        also have "ce \<le> Num (pl_start p)" using False by simp
        finally have "pl_end r \<le> pl_start p" by simp
        moreover have "pl_start p \<le> pl_start q" using 2(3) q by auto
        ultimately show ?thesis by simp
      qed
      then show ?thesis using later[OF that] unfolding separated_def by blast
    qed
    with False 2 show ?thesis by simp
  qed
qed simp

text \<open>Inside a cluster, everything after the first placement meets an earlier one.\<close>

definition chained :: "planned_placement list \<Rightarrow> bool" where
  "chained c \<longleftrightarrow> (\<forall>i < length c. 0 < i \<longrightarrow> (\<exists>j < i. overlap (c ! j) (c ! i)))"

lemma chained_snoc:
  assumes "chained c" "\<exists>r \<in> set c. overlap r p"
  shows "chained (c @ [p])"
  unfolding chained_def
proof (intro allI impI)
  fix i assume i: "i < length (c @ [p])" "0 < i"
  show "\<exists>j < i. overlap ((c @ [p]) ! j) ((c @ [p]) ! i)"
  proof (cases "i < length c")
    case True
    then obtain j where "j < i" "overlap (c ! j) (c ! i)"
      using assms(1) i unfolding chained_def by blast
    then show ?thesis using True by (intro exI[of _ j]) (simp add: nth_append)
  next
    case False
    then have "i = length c" using i by simp
    moreover obtain j where "j < length c" "overlap (c ! j) p"
      using assms(2) by (auto simp: in_set_conv_nth)
    ultimately show ?thesis by (intro exI[of _ j]) (simp add: nth_append)
  qed
qed

lemma clusters_chained:
  assumes "sorted (map pl_start (cl @ ps))" "chained cl"
    and "ce = NegInf \<and> cl = [] \<or> (\<exists>r \<in> set cl. ce = Num (pl_end r))"
  shows "\<forall>c \<in> set (clusters cl ce ps). chained c"
  using assms
proof (induction cl ce ps rule: clusters.induct)
  case (2 cl ce p ps)
  show ?case
  proof (cases "Num (pl_start p) < ce")
    case True
    then obtain r where r: "r \<in> set cl" "ce = Num (pl_end r)" using 2(5) by auto
    have "pl_start r \<le> pl_start p" using 2(3) r by (auto simp: sorted_append)
    then have "overlap r p" using True r by (auto simp: overlap_def intro: le_less_trans)
    then have "chained (cl @ [p])" using chained_snoc[OF 2(4)] r by blast
    moreover have "\<exists>q \<in> set (cl @ [p]). max ce (Num (pl_end p)) = Num (pl_end q)"
      using r by (auto simp: max_def)
    ultimately show ?thesis using 2(1)[OF True] 2(3) True by simp
  next
    case False
    have "chained [p]" by (simp add: chained_def)
    then show ?thesis using False 2(2)[OF False] 2(3,4) by (auto simp: sorted_append)
  qed
qed simp

definition court_clusters :: "planned_placement list \<Rightarrow> int \<Rightarrow> planned_placement list list" where
  "court_clusters ps court =
     clusters [] NegInf (sort_key pl_start (filter (\<lambda>p. placed_key p = Some court) ps))"

lemma fold_sweep:
  "fold (\<lambda>(court, list) clashes. sweep_court court (sort_key pl_start list) [] NegInf clashes) gs acc =
     acc @ concat (map (\<lambda>(court, list). map (clash_of court)
        (filter (\<lambda>c. length c > 1) (clusters [] NegInf (sort_key pl_start list)))) gs)"
  by (induction gs arbitrary: acc) (auto simp: sweep_clusters)

lemma findPlannedClashes_mem:
  "x \<in> set (findPlannedClashes ps) \<longleftrightarrow>
     (\<exists>court cl. cl \<in> set (court_clusters ps court) \<and> 1 < length cl \<and> x = clash_of court cl)"
proof
  assume "x \<in> set (findPlannedClashes ps)"
  then obtain court list cl where "(court, list) \<in> set (group_by placed_key ps)"
    and "cl \<in> set (clusters [] NegInf (sort_key pl_start list))" "1 < length cl"
    and "x = clash_of court cl"
    by (auto simp: findPlannedClashes_def fold_sweep)
  then show "\<exists>court cl. cl \<in> set (court_clusters ps court) \<and> 1 < length cl \<and> x = clash_of court cl"
    by (auto simp: group_by_mem court_clusters_def)
next
  assume "\<exists>court cl. cl \<in> set (court_clusters ps court) \<and> 1 < length cl \<and> x = clash_of court cl"
  then obtain court cl where cl: "cl \<in> set (court_clusters ps court)" "1 < length cl"
    "x = clash_of court cl" by blast
  let ?l = "filter (\<lambda>p. placed_key p = Some court) ps"
  have "?l \<noteq> []"
  proof
    assume "?l = []"
    then have "court_clusters ps court = [[]]" by (simp add: court_clusters_def)
    with cl show False by simp
  qed
  then have "(court, ?l) \<in> set (group_by placed_key ps)" by (simp add: group_by_mem)
  with cl show "x \<in> set (findPlannedClashes ps)"
    by (force simp: findPlannedClashes_def fold_sweep court_clusters_def)
qed

lemma court_clusters_facts:
  "concat (court_clusters ps court) = sort_key pl_start (filter (\<lambda>p. placed_key p = Some court) ps)"
  "sorted_wrt separated (court_clusters ps court)"
  "c \<in> set (court_clusters ps court) \<Longrightarrow> chained c"
proof -
  show "concat (court_clusters ps court) = sort_key pl_start (filter (\<lambda>p. placed_key p = Some court) ps)"
    by (simp add: court_clusters_def concat_clusters)
  show "sorted_wrt separated (court_clusters ps court)"
    unfolding court_clusters_def by (rule clusters_separated) simp_all
  show "c \<in> set (court_clusters ps court) \<Longrightarrow> chained c"
    using clusters_chained[of "[]" "sort_key pl_start (filter (\<lambda>p. placed_key p = Some court) ps)" NegInf]
    by (simp add: court_clusters_def chained_def)
qed

lemma separated_sym_distinct:
  "sorted_wrt separated cs \<Longrightarrow> c \<in> set cs \<Longrightarrow> d \<in> set cs \<Longrightarrow> c \<noteq> d \<Longrightarrow>
   separated c d \<or> separated d c"
  by (induction cs) auto

lemma clash_in_one_cluster:
  assumes "p \<in> set ps" "q \<in> set ps" "p \<noteq> q" "clash p q"
  obtains court c where "c \<in> set (court_clusters ps court)" "p \<in> set c" "q \<in> set c"
    "1 < length c" "placed_key p = Some court"
proof -
  obtain court where k: "placed_key p = Some court" "placed_key q = Some court" and ov: "overlap p q"
    using assms(4) by (auto simp: clash_def)
  let ?cs = "court_clusters ps court"
  have all: "set (concat ?cs) = {x \<in> set ps. placed_key x = Some court}"
    by (simp add: court_clusters_facts(1))
  obtain c where c: "c \<in> set ?cs" "p \<in> set c"
    using assms(1) k(1) all by (auto simp: set_concat)
  obtain d where d: "d \<in> set ?cs" "q \<in> set d"
    using assms(2) k(2) all by (auto simp: set_concat)
  have "c = d"
  proof (rule ccontr)
    assume "c \<noteq> d"
    then have "separated c d \<or> separated d c"
      using separated_sym_distinct court_clusters_facts(2) c(1) d(1) by blast
    then have "pl_end p \<le> pl_start q \<or> pl_end q \<le> pl_start p"
      using c(2) d(2) unfolding separated_def by blast
    then show False using ov unfolding overlap_def by linarith
  qed
  moreover have "1 < length c"
  proof (rule ccontr)
    assume "\<not> 1 < length c"
    with c(2) have "c = [p]" by (cases c) auto
    with d(2) \<open>c = d\<close> assms(3) show False by auto
  qed
  ultimately show ?thesis using that c d k by blast
qed

section \<open>Properties\<close>

text \<open>Every configured court is in exactly one of the three states and the desk's counters add
  up: when every claimed court is one of the configured ones, free, occupied and disputed courts
  sum to the court count and a court counts as free exactly when no match claims it; a court is
  reported as a dispute exactly when two or more matches claim it.\<close>

theorem court_states_partition:
  assumes "\<forall>m \<in> set ms. \<forall>c. claim_key w m = Some c \<longrightarrow> 1 \<le> c \<and> c \<le> n" and "0 \<le> n"
  shows "courtsFree n (deriveCourtStates ms w) + occupiedCourtCount (deriveCourtStates ms w) +
           disputedCourtCount (deriveCourtStates ms w) = n \<and>
         courtsFree n (deriveCourtStates ms w) =
           int (card {c. 1 \<le> c \<and> c \<le> n \<and> claimants w ms c = []}) \<and>
         cd_courtId ` set (deriveDisputes ms w) =
           {c. map_of (deriveCourtStates ms w) c = Some Disputed}"
proof -
  let ?K = "{c. claimants w ms c \<noteq> []}"
  have sub: "?K \<subseteq> {1..n}" using assms(1) by (auto simp: claimants_def filter_empty_conv)
  then have "card ?K \<le> card {1..n}" by (intro card_mono) auto
  then have le: "int (card ?K) \<le> n" using assms(2) by simp
  then have free: "courtsFree n (deriveCourtStates ms w) = n - int (card ?K)"
    by (simp add: courtsFree_def length_deriveCourtStates)
  have sum: "courtsFree n (deriveCourtStates ms w) + occupiedCourtCount (deriveCourtStates ms w) +
      disputedCourtCount (deriveCourtStates ms w) = n"
    using occupied_plus_disputed[of "deriveCourtStates ms w"] free
    by (simp add: length_deriveCourtStates)
  have "{c. 1 \<le> c \<and> c \<le> n \<and> claimants w ms c = []} = {1..n} - ?K" by auto
  then have "card {c. 1 \<le> c \<and> c \<le> n \<and> claimants w ms c = []} = card {1..n} - card ?K"
    using sub by (simp add: card_Diff_subset finite_subset)
  then have count: "courtsFree n (deriveCourtStates ms w) =
      int (card {c. 1 \<le> c \<and> c \<le> n \<and> claimants w ms c = []})"
    using free le \<open>card ?K \<le> card {1..n}\<close> assms(2) by (simp add: of_nat_diff)
  have "map_of (deriveCourtStates ms w) c = Some Disputed \<longleftrightarrow> 2 \<le> length (claimants w ms c)" for c
    by (cases "claimants w ms c") (auto simp: map_of_deriveCourtStates Suc_le_eq)
  then have "cd_courtId ` set (deriveDisputes ms w) =
      {c. map_of (deriveCourtStates ms w) c = Some Disputed}"
    by (simp add: dispute_courts)
  with sum count show ?thesis by blast
qed

definition demo_matches :: "occupancy_match list" where
  "demo_matches =
     [\<lparr>om_id = ''a'', om_status = OPlaying, om_court = Some 1\<rparr>,
      \<lparr>om_id = ''b'', om_status = OStarted, om_court = Some 1\<rparr>,
      \<lparr>om_id = ''c'', om_status = OPlaying, om_court = Some 2\<rparr>,
      \<lparr>om_id = ''d'', om_status = OCalled, om_court = Some 3\<rparr>]"

theorem court_states_partition_witness:
  "courtsFree 4 (deriveCourtStates demo_matches Desk) +
     occupiedCourtCount (deriveCourtStates demo_matches Desk) +
     disputedCourtCount (deriveCourtStates demo_matches Desk) = 4"
  by (rule court_states_partition[THEN conjunct1])
     (auto simp: demo_matches_def claim_key_def occupiesCourtNow_def)

text \<open>C16. Every clash of a plan is found: two different placements that hold the same court at
  overlapping slots appear together in one reported clash of that court.\<close>

theorem planned_clash_found:
  assumes "p \<in> set ps" "q \<in> set ps" "p \<noteq> q" "clash p q"
  shows "\<exists>x \<in> set (findPlannedClashes ps).
           Some (pc_courtId x) = placed_key p \<and> {pl_key p, pl_key q} \<subseteq> set (pc_keys x)"
proof -
  obtain court c where c: "c \<in> set (court_clusters ps court)" "p \<in> set c" "q \<in> set c"
    "1 < length c" "placed_key p = Some court"
    using clash_in_one_cluster[OF assms] .
  then have "clash_of court c \<in> set (findPlannedClashes ps)"
    by (auto simp: findPlannedClashes_mem)
  with c show ?thesis by (intro bexI[of _ "clash_of court c"]) (auto simp: clash_of_def)
qed

definition demo_plan :: "planned_placement list" where
  "demo_plan =
     [\<lparr>pl_key = ''meet:a'', pl_court = Some 1, pl_slot = Some 0, pl_span = Some 2\<rparr>,
      \<lparr>pl_key = ''bracket:b'', pl_court = Some 1, pl_slot = Some 1, pl_span = None\<rparr>,
      \<lparr>pl_key = ''meet:c'', pl_court = Some 2, pl_slot = Some 1, pl_span = None\<rparr>]"

theorem planned_clash_found_witness:
  "\<exists>x \<in> set (findPlannedClashes demo_plan).
     Some (pc_courtId x) = placed_key (demo_plan ! 0) \<and>
     {pl_key (demo_plan ! 0), pl_key (demo_plan ! 1)} \<subseteq> set (pc_keys x)"
  by (rule planned_clash_found)
     (simp_all add: demo_plan_def clash_def overlap_def placed_key_def pl_start_def pl_end_def)

text \<open>A plan is reported clean exactly when it is clean: with one placement per key, the list
  of clashes is empty iff no two placements hold one court at overlapping slots.\<close>

theorem planned_clashes_empty_iff:
  assumes "distinct (map pl_key ps)"
  shows "findPlannedClashes ps = [] \<longleftrightarrow> (\<forall>p \<in> set ps. \<forall>q \<in> set ps. p \<noteq> q \<longrightarrow> \<not> clash p q)"
proof
  assume "findPlannedClashes ps = []"
  then show "\<forall>p \<in> set ps. \<forall>q \<in> set ps. p \<noteq> q \<longrightarrow> \<not> clash p q"
    by (metis clash_in_one_cluster empty_iff empty_set findPlannedClashes_mem)
next
  assume free: "\<forall>p \<in> set ps. \<forall>q \<in> set ps. p \<noteq> q \<longrightarrow> \<not> clash p q"
  show "findPlannedClashes ps = []"
  proof (rule ccontr)
    assume "findPlannedClashes ps \<noteq> []"
    then obtain x where "x \<in> set (findPlannedClashes ps)" by (cases "findPlannedClashes ps") auto
    then obtain court c where c: "c \<in> set (court_clusters ps court)" "1 < length c"
      by (auto simp: findPlannedClashes_mem)
    let ?s = "sort_key pl_start (filter (\<lambda>p. placed_key p = Some court) ps)"
    have "distinct (concat (court_clusters ps court))"
      using distinct_map[of pl_key ps] assms by (simp add: court_clusters_facts(1))
    then have dist: "distinct c" using c(1) by (simp add: distinct_concat_iff)
    obtain j where "j < 1" "overlap (c ! j) (c ! 1)"
      using court_clusters_facts(3)[OF c(1)] c(2) unfolding chained_def by auto
    then have ov: "overlap (c ! 0) (c ! 1)" by simp
    have sub: "set c \<subseteq> {x \<in> set ps. placed_key x = Some court}"
      using c(1) arg_cong[OF court_clusters_facts(1)[of ps court], of set] by auto
    have "c ! 0 \<in> set c" "c ! 1 \<in> set c" using c(2) by (auto intro!: nth_mem)
    moreover have "0 < length c" "1 < length c" using c(2) by linarith+
    then have "c ! 0 \<noteq> c ! 1" using nth_eq_iff_index_eq[OF dist] by simp
    ultimately
    show False using sub ov free unfolding clash_def by blast
  qed
qed

theorem planned_clashes_empty_iff_witness:
  "findPlannedClashes [demo_plan ! 0, demo_plan ! 2] = []"
proof -
  have "distinct (map pl_key [demo_plan ! 0, demo_plan ! 2])"
    by (simp add: demo_plan_def)
  from planned_clashes_empty_iff[OF this] show ?thesis
    by (simp add: demo_plan_def clash_def placed_key_def)
qed

end
