(* ===== verification/RunModel.thy ===== *)
theory RunModel
  imports BoardPlacements CourtOccupancy
begin

text \<open>
  \<open>modules/operations/runtime/runModel.ts\<close>: the desk's model of the running day. Each court has a
  lane (now, next, later, or an explicit conflict), the unassigned matches a queue, and a set of
  people who are on a court; the automatic pull takes from the queue only what nobody's presence
  elsewhere forbids.
\<close>

record run_match =
  rm_key :: string
  rm_id :: string
  rm_source :: match_source
  rm_identity :: match_identity
  rm_colorKey :: "string option"
  rm_sideA :: string
  rm_sideB :: string
  rm_court :: "int option"
  rm_plannedSlot :: "int option"
  rm_span :: int
  rm_status :: run_status
  rm_late :: bool
  rm_timeliness :: timeliness
  rm_eligible :: bool
  rm_playerIds :: "string list"
  rm_actualEndSlot :: "int option"
  rm_score :: "match_score option"

definition run_match_of :: "string set option \<Rightarrow> string set option \<Rightarrow> ops_block \<Rightarrow> run_match" where
  "run_match_of calledBracketIds eligibleBracketIds b =
     (let engine = fromEngineStatus (m_status b);
          status = (if engine = RScheduled \<and> m_source b = Bracket \<and>
                       (case calledBracketIds of None \<Rightarrow> False | Some ids \<Rightarrow> m_id b \<in> ids)
                    then RCalled else engine);
          eligible = (if m_source b = Meet then \<not> or_else (m_sidesUnresolved b) False
                      else case eligibleBracketIds of None \<Rightarrow> False | Some ids \<Rightarrow> m_id b \<in> ids)
      in \<lparr>rm_key = m_key b, rm_id = m_id b, rm_source = m_source b, rm_identity = m_identity b,
          rm_colorKey = m_colorKey b, rm_sideA = m_sideA b, rm_sideB = m_sideB b,
          rm_court = m_court b, rm_plannedSlot = m_slot b, rm_span = m_span b, rm_status = status,
          rm_late = False, rm_timeliness = Ontime, rm_eligible = eligible,
          rm_playerIds = m_playerIds b, rm_actualEndSlot = m_actualEndSlot b, rm_score = m_score b\<rparr>)"

definition toRunMatches ::
  "ops_block list \<Rightarrow> string set option \<Rightarrow> string set option \<Rightarrow> run_match list" where
  "toRunMatches blocks calledBracketIds eligibleBracketIds =
     map (run_match_of calledBracketIds eligibleBracketIds) blocks"

section \<open>Court lanes\<close>

record court_lane =
  ln_court :: int
  ln_now :: "run_match option"
  ln_next :: "run_match option"
  ln_later :: "run_match option"
  ln_conflict :: "run_match list option"
  ln_depth :: nat

fun LANE_RANK :: "run_status \<Rightarrow> int" where
  "LANE_RANK RPlaying = 0"
| "LANE_RANK RCalled = 1"
| "LANE_RANK RScheduled = 2"
| "LANE_RANK RFinished = 3"
| "LANE_RANK RRetired = 3"

definition lane_key :: "run_match \<Rightarrow> int \<times> jsnum \<times> string" where
  "lane_key m = (LANE_RANK (rm_status m), slot_or_inf (rm_plannedSlot m), rm_key m)"

text \<open>The operator word of a state as the occupancy vocabulary spells it.\<close>

fun occupancy_of :: "run_status \<Rightarrow> occupancy_status" where
  "occupancy_of RScheduled = OScheduled"
| "occupancy_of RCalled = OCalled"
| "occupancy_of RPlaying = OPlaying"
| "occupancy_of RFinished = OFinished"
| "occupancy_of RRetired = ORetired"

definition lane_of_court :: "run_match list \<Rightarrow> int \<Rightarrow> run_match list" where
  "lane_of_court matches court =
     sort_key lane_key (filter (\<lambda>m. rm_court m = Some court \<and> \<not> isRunComplete (rm_status m)) matches)"

definition lane_live :: "run_match list \<Rightarrow> run_match list" where
  "lane_live lane =
     (let playing = filter (\<lambda>m. occupiesCourtNow (occupancy_of (rm_status m)) Desk) lane;
          called = filter (\<lambda>m. rm_status m = RCalled) lane
      in if length playing > 1 then playing
         else if length playing = 0 \<and> length called > 1 then called else [])"

definition lane_now :: "bool \<Rightarrow> int option \<Rightarrow> run_match \<Rightarrow> run_match" where
  "lane_now running currentSlot m =
     (let t = (if running then deriveTimeliness (rm_status m) (rm_plannedSlot m) currentSlot else Ontime)
      in m\<lparr>rm_timeliness := t, rm_late := (t \<noteq> Ontime)\<rparr>)"

definition court_lane_of :: "run_match list \<Rightarrow> bool \<Rightarrow> int option \<Rightarrow> int \<Rightarrow> court_lane" where
  "court_lane_of matches running currentSlot court =
     (let lane = lane_of_court matches court;
          live = lane_live lane;
          conflict = (if length live > 1 then Some live else None);
          nowRaw = (if conflict \<noteq> None then None else nth_opt lane 0);
          remaining = (if conflict \<noteq> None then filter (\<lambda>m. m \<notin> set live) lane else tl lane)
      in \<lparr>ln_court = court, ln_now = map_option (lane_now running currentSlot) nowRaw,
          ln_next = nth_opt remaining 0, ln_later = nth_opt remaining 1,
          ln_conflict = conflict, ln_depth = length lane\<rparr>)"

definition deriveCourtLanes :: "run_match list \<Rightarrow> int \<Rightarrow> bool \<Rightarrow> int option \<Rightarrow> court_lane list" where
  "deriveCourtLanes matches courtCount running currentSlot =
     map (court_lane_of matches running currentSlot) [1..max 1 courtCount]"

section \<open>The queue and the people on court\<close>

definition deriveQueue :: "run_match list \<Rightarrow> run_match list" where
  "deriveQueue matches =
     sort_key (\<lambda>m. (slot_or_inf (rm_plannedSlot m), rm_key m))
       (filter (\<lambda>m. rm_court m = None \<and> \<not> isRunComplete (rm_status m)) matches)"

definition busyPlayers :: "run_match list \<Rightarrow> string set" where
  "busyPlayers matches =
     fold (\<lambda>m busy. if rm_court m \<noteq> None \<and> \<not> isRunComplete (rm_status m)
                    then fold insert (rm_playerIds m) busy else busy) matches {}"

definition isPlayerBusy :: "run_match \<Rightarrow> string set \<Rightarrow> bool" where
  "isPlayerBusy m busy \<longleftrightarrow> list_ex (\<lambda>p. p \<in> busy) (rm_playerIds m)"

text \<open>The loop of \<open>onDeck\<close>, with what it has pushed.\<close>

fun on_deck_loop :: "run_match list \<Rightarrow> string set \<Rightarrow> int \<Rightarrow> run_match list \<Rightarrow> run_match list" where
  "on_deck_loop [] busy count out = out"
| "on_deck_loop (m # ms) busy count out =
     (if int (length out) \<ge> count then out
      else on_deck_loop ms busy count
             (if rm_eligible m \<and> can (rm_status m) Assign \<and> \<not> isPlayerBusy m busy
              then out @ [m] else out))"

definition onDeck :: "run_match list \<Rightarrow> string set \<Rightarrow> int \<Rightarrow> run_match list" where
  "onDeck queue busy count = on_deck_loop queue busy count []"

definition nextEligible :: "run_match list \<Rightarrow> string set \<Rightarrow> run_match option" where
  "nextEligible queue busy = nth_opt (onDeck queue busy 1) 0"

text \<open>\<open>freeAt\<close>: the slot each player is rested again.\<close>

definition rest_step :: "int \<Rightarrow> run_match \<Rightarrow> (string, int) dict \<Rightarrow> (string, int) dict" where
  "rest_step restSlots m freeAt =
     (case rm_actualEndSlot m of
        None \<Rightarrow> freeAt
      | Some e \<Rightarrow>
          if \<not> isRunComplete (rm_status m) then freeAt
          else fold (\<lambda>p f. AList.update p (max (or_else (map_of f p) 0) (e + restSlots)) f)
                 (rm_playerIds m) freeAt)"

definition restShortKeys :: "run_match list \<Rightarrow> int option \<Rightarrow> int \<Rightarrow> string list" where
  "restShortKeys matches currentSlot restSlots =
     (case currentSlot of
        None \<Rightarrow> []
      | Some now \<Rightarrow>
          if restSlots \<le> 0 then []
          else (let freeAt = fold (rest_step restSlots) matches []
                in js_set (map rm_key (filter (\<lambda>m.
                     rm_court m = None \<and> \<not> isRunComplete (rm_status m) \<and>
                     list_ex (\<lambda>p. or_else (map_of freeAt p) 0 > now) (rm_playerIds m)) matches))))"

record run_summary =
  su_done :: int
  su_total :: int
  su_playing :: int
  su_courtsFree :: int
  su_late :: int
  su_disputedCourts :: int

definition occupancy_row :: "run_match \<Rightarrow> occupancy_match" where
  "occupancy_row m = \<lparr>om_id = rm_id m, om_status = occupancy_of (rm_status m), om_court = rm_court m\<rparr>"

definition deriveSummary ::
  "run_match list \<Rightarrow> court_lane list \<Rightarrow> board_chip list \<Rightarrow> run_summary" where
  "deriveSummary matches lanes liveChips =
     (let states = deriveCourtStates
            (map occupancy_row (filter (\<lambda>m. rm_court m \<noteq> None) matches)) Desk
      in \<lparr>su_done = int (length (filter (\<lambda>m. isRunComplete (rm_status m)) matches)),
          su_total = int (length matches),
          su_playing = occupiedCourtCount states,
          su_courtsFree = courtsFree (int (length lanes)) states,
          su_late = int (length (filter ch_late liveChips)),
          su_disputedCourts = disputedCourtCount states\<rparr>)"

section \<open>Facts about lanes\<close>

lemma mem_lane [simp]:
  "m \<in> set (lane_of_court ms c) \<longleftrightarrow> m \<in> set ms \<and> rm_court m = Some c \<and> \<not> isRunComplete (rm_status m)"
  by (auto simp: lane_of_court_def)

lemma occupies_desk [simp]:
  "occupiesCourtNow (occupancy_of s) Desk \<longleftrightarrow> s = RPlaying"
  by (cases s) (simp_all add: occupiesCourtNow_def)

lemma lane_filter_length:
  "length (filter P (lane_of_court ms c)) =
     length (filter (\<lambda>m. rm_court m = Some c \<and> \<not> isRunComplete (rm_status m) \<and> P m) ms)"
  by (simp add: lane_of_court_def filter_sort conj_commute conj_left_commute)

lemma nth_opt_simps [simp]:
  "nth_opt xs 0 = (case xs of [] \<Rightarrow> None | x # _ \<Rightarrow> Some x)"
  by (cases xs) (simp_all add: nth_opt_def)

definition playing_on :: "run_match list \<Rightarrow> int \<Rightarrow> run_match list" where
  "playing_on ms c = filter (\<lambda>m. rm_court m = Some c \<and> rm_status m = RPlaying) ms"

definition called_on :: "run_match list \<Rightarrow> int \<Rightarrow> run_match list" where
  "called_on ms c = filter (\<lambda>m. rm_court m = Some c \<and> rm_status m = RCalled) ms"

lemma lane_playing: "length (filter (\<lambda>m. rm_status m = RPlaying) (lane_of_court ms c)) = length (playing_on ms c)"
  unfolding lane_filter_length playing_on_def by (rule arg_cong[where f = length], rule filter_cong)
    (auto simp: isRunComplete_def)

lemma lane_called: "length (filter (\<lambda>m. rm_status m = RCalled) (lane_of_court ms c)) = length (called_on ms c)"
  unfolding lane_filter_length called_on_def by (rule arg_cong[where f = length], rule filter_cong)
    (auto simp: isRunComplete_def)

lemma lane_conflict_iff:
  "ln_conflict (court_lane_of ms r s c) \<noteq> None \<longleftrightarrow>
     length (playing_on ms c) > 1 \<or> playing_on ms c = [] \<and> length (called_on ms c) > 1"
  using lane_playing[of ms c] lane_called[of ms c]
  by (auto simp: court_lane_of_def lane_live_def Let_def)

lemma lane_head_least:
  assumes "lane_of_court ms c = m # rest" "x \<in> set (lane_of_court ms c)"
  shows "lane_key m \<le> lane_key x"
  using hd_sort_key_least[OF assms(1)[unfolded lane_of_court_def]] assms(2)
  by (simp only: lane_of_court_def set_sort)

lemma lane_now_fields [simp]:
  "rm_key (lane_now r s m) = rm_key m" "rm_court (lane_now r s m) = rm_court m"
  "rm_status (lane_now r s m) = rm_status m" "rm_plannedSlot (lane_now r s m) = rm_plannedSlot m"
  "rm_id (lane_now r s m) = rm_id m"
  by (simp_all add: lane_now_def Let_def)

lemma lane_head_playing:
  assumes "p \<in> set (lane_of_court ms c)" "rm_status p = RPlaying"
  obtains m rest where "lane_of_court ms c = m # rest" "rm_status m = RPlaying"
proof (cases "lane_of_court ms c")
  case Nil
  then show ?thesis using assms(1) by simp
next
  case (Cons m rest)
  have "LANE_RANK (rm_status m) \<le> 0" using lane_head_least[OF Cons assms(1)] assms(2)
    by (auto simp: lane_key_def)
  then have "rm_status m = RPlaying" by (cases "rm_status m") simp_all
  then show ?thesis using that Cons by blast
qed

section \<open>Facts about the queue\<close>

lemma busyPlayers_set:
  "busyPlayers ms =
     {p. \<exists>m \<in> set ms. rm_court m \<noteq> None \<and> \<not> isRunComplete (rm_status m) \<and> p \<in> set (rm_playerIds m)}"
proof -
  have "fold (\<lambda>m busy. if rm_court m \<noteq> None \<and> \<not> isRunComplete (rm_status m)
                    then fold insert (rm_playerIds m) busy else busy) ms B =
      B \<union> {p. \<exists>m \<in> set ms. rm_court m \<noteq> None \<and> \<not> isRunComplete (rm_status m) \<and> p \<in> set (rm_playerIds m)}" for B
    by (induction ms arbitrary: B) (auto simp: union_set_fold[symmetric])
  then show ?thesis by (simp add: busyPlayers_def)
qed

lemma isPlayerBusy_iff: "isPlayerBusy m busy \<longleftrightarrow> set (rm_playerIds m) \<inter> busy \<noteq> {}"
  by (auto simp: isPlayerBusy_def list_ex_iff)

definition callable :: "string set \<Rightarrow> run_match \<Rightarrow> bool" where
  "callable busy m \<longleftrightarrow> rm_eligible m \<and> can (rm_status m) Assign \<and> \<not> isPlayerBusy m busy"

lemma on_deck_loop_take:
  "int (length out) \<le> max 0 count \<Longrightarrow>
   on_deck_loop ms busy count out = out @ take (nat count - length out) (filter (callable busy) ms)"
proof (induction ms arbitrary: out)
  case (Cons m ms)
  show ?case
  proof (cases "int (length out) \<ge> count")
    case True
    then have "nat count - length out = 0" by simp
    then show ?thesis using True by simp
  next
    case False
    then have "nat count - length out = Suc (nat count - Suc (length out))" by simp
    then show ?thesis using Cons.IH[of "out @ [m]"] Cons.IH[of out] Cons.prems False
      by (simp add: callable_def)
  qed
qed simp

lemma onDeck_take: "onDeck queue busy count = take (nat count) (filter (callable busy) queue)"
  by (simp add: onDeck_def on_deck_loop_take)

lemma nextEligible_first:
  "nextEligible queue busy = (case filter (callable busy) queue of [] \<Rightarrow> None | m # _ \<Rightarrow> Some m)"
  by (simp add: nextEligible_def onDeck_take split: list.splits)

lemma can_assign: "can s Assign \<longleftrightarrow> s = RScheduled"
  by (cases s) (simp_all add: can_def)

lemma mem_queue [simp]:
  "m \<in> set (deriveQueue ms) \<longleftrightarrow> m \<in> set ms \<and> rm_court m = None \<and> \<not> isRunComplete (rm_status m)"
  by (auto simp: deriveQueue_def)

lemma rest_players_fold:
  "or_else (map_of (fold (\<lambda>p f. AList.update p (max (or_else (map_of f p) 0) v) f) ps f) q) 0 > (now :: int) \<longleftrightarrow>
   or_else (map_of f q) 0 > now \<or> q \<in> set ps \<and> v > now"
  by (induction ps arbitrary: f) (auto simp: less_max_iff_disj)

definition rests_until :: "int \<Rightarrow> string \<Rightarrow> int \<Rightarrow> run_match \<Rightarrow> bool" where
  "rests_until restSlots q now m \<longleftrightarrow> isRunComplete (rm_status m) \<and> q \<in> set (rm_playerIds m) \<and>
     (\<exists>e. rm_actualEndSlot m = Some e \<and> e + restSlots > now)"

lemma rest_fold:
  "or_else (map_of (fold (rest_step r) ms f) q) 0 > now \<longleftrightarrow>
   or_else (map_of f q) 0 > now \<or> (\<exists>m \<in> set ms. rests_until r q now m)"
proof (induction ms arbitrary: f)
  case (Cons m ms)
  have "or_else (map_of (rest_step r m f) q) 0 > now \<longleftrightarrow>
      or_else (map_of f q) 0 > now \<or> rests_until r q now m"
    by (auto simp: rest_step_def rests_until_def rest_players_fold split: option.splits)
  then show ?case using Cons by auto
qed simp

section \<open>Facts about the summary\<close>

lemma count_by_value:
  assumes "distinct (map fst d)"
  shows "length (filter (\<lambda>(_, s). P s) d) = card {k. \<exists>v. map_of d k = Some v \<and> P v}"
proof -
  let ?f = "filter (\<lambda>(_, s). P s) d"
  have "length ?f = card (fst ` set ?f)"
    using distinct_card[of "map fst ?f"] assms by (simp add: distinct_map_filter)
  also have "fst ` set ?f = {k. \<exists>v. map_of d k = Some v \<and> P v}"
    using assms by (force simp: map_of_eq_Some_iff)
  finally show ?thesis .
qed

lemma distinct_court_states: "distinct (map fst (deriveCourtStates ms w))"
proof -
  have "map fst (deriveCourtStates ms w) = map fst (group_by (claim_key w) ms)"
    by (simp add: deriveCourtStates_eq case_prod_beta comp_def)
  then show ?thesis using distinct_group_by by metis
qed

lemma claims_of_runs:
  "length (claimants Desk (map occupancy_row (filter (\<lambda>m. rm_court m \<noteq> None) ms)) c) =
     length (playing_on ms c)"
proof -
  have "claimants Desk (map occupancy_row (filter (\<lambda>m. rm_court m \<noteq> None) ms)) c =
      map occupancy_row (filter (\<lambda>m. claim_key Desk (occupancy_row m) = Some c)
        (filter (\<lambda>m. rm_court m \<noteq> None) ms))"
    by (simp add: claimants_def filter_map comp_def)
  moreover have "filter (\<lambda>m. claim_key Desk (occupancy_row m) = Some c) (filter (\<lambda>m. rm_court m \<noteq> None) ms) =
      playing_on ms c"
    unfolding playing_on_def filter_filter
    by (rule filter_cong) (auto simp: claim_key_Some occupancy_row_def)
  ultimately show ?thesis by simp
qed

lemma courts_in_play:
  defines "states ms \<equiv> deriveCourtStates (map occupancy_row (filter (\<lambda>m. rm_court m \<noteq> None) ms)) Desk"
  shows "occupiedCourtCount (states ms) = int (card {c. length (playing_on ms c) = 1})"
    "disputedCourtCount (states ms) = int (card {c. length (playing_on ms c) \<ge> 2})"
    "length (states ms) = card {c. playing_on ms c \<noteq> []}"
proof -
  let ?occ = "map occupancy_row (filter (\<lambda>m. rm_court m \<noteq> None) ms)"
  have empty: "claimants Desk ?occ c = [] \<longleftrightarrow> playing_on ms c = []" for c
    using claims_of_runs[of ms c] by (metis length_0_conv)
  have look: "map_of (states ms) c = (if playing_on ms c = [] then None
      else Some (if length (playing_on ms c) = 1 then Occupied else Disputed))" for c
    unfolding states_def map_of_deriveCourtStates empty claims_of_runs ..
  have "{c. \<exists>v. map_of (states ms) c = Some v \<and> v = Occupied} = {c. length (playing_on ms c) = 1}"
    by (auto simp: look split: if_splits)
  then show "occupiedCourtCount (states ms) = int (card {c. length (playing_on ms c) = 1})"
    unfolding occupiedCourtCount_def states_def
    using count_by_value[OF distinct_court_states, of "\<lambda>s. s = Occupied"] by simp
  have "(\<exists>v. map_of (states ms) c = Some v \<and> v = Disputed) \<longleftrightarrow> length (playing_on ms c) \<ge> 2" for c
    by (cases "playing_on ms c"; cases "tl (playing_on ms c)") (auto simp: look)
  then show "disputedCourtCount (states ms) = int (card {c. length (playing_on ms c) \<ge> 2})"
    unfolding disputedCourtCount_def states_def
    using count_by_value[OF distinct_court_states, of "\<lambda>s. s = Disputed"] by simp
  show "length (states ms) = card {c. playing_on ms c \<noteq> []}"
    unfolding states_def length_deriveCourtStates empty ..
qed

section \<open>Properties\<close>

text \<open>A court has one current match or says why not: a lane reports a conflict exactly when two
  matches are playing on the court, or none plays and two are called to it; then it names no
  current match at all; and when exactly one match is playing, that match is the current one,
  whatever was planned earlier on the court.\<close>

theorem lane_now_or_conflict:
  "let l = court_lane_of ms running slot c
   in (ln_conflict l \<noteq> None \<longleftrightarrow>
         length (playing_on ms c) > 1 \<or> playing_on ms c = [] \<and> length (called_on ms c) > 1) \<and>
      (ln_conflict l \<noteq> None \<longrightarrow> ln_now l = None) \<and>
      (\<forall>p. playing_on ms c = [p] \<longrightarrow> map_option rm_key (ln_now l) = Some (rm_key p))"
proof -
  let ?l = "court_lane_of ms running slot c"
  have "ln_conflict ?l \<noteq> None \<longrightarrow> ln_now ?l = None"
    by (auto simp: court_lane_of_def Let_def)
  moreover have "map_option rm_key (ln_now ?l) = Some (rm_key p)" if one: "playing_on ms c = [p]" for p
  proof -
    have "p \<in> set (playing_on ms c)" using one by simp
    then have p: "p \<in> set (lane_of_court ms c)" "rm_status p = RPlaying"
      by (auto simp: playing_on_def isRunComplete_def)
    obtain m rest where m: "lane_of_court ms c = m # rest" "rm_status m = RPlaying"
      using lane_head_playing[OF p] by blast
    then have "m \<in> set (lane_of_court ms c)" by simp
    then have "m \<in> set (playing_on ms c)" using m(2) by (simp add: playing_on_def)
    then have "m = p" using one by simp
    moreover have "ln_conflict ?l = None" using lane_conflict_iff[of ms running slot c] one by simp
    ultimately show ?thesis using m(1) by (simp add: court_lane_of_def Let_def split: if_splits)
  qed
  ultimately show ?thesis using lane_conflict_iff by (simp add: Let_def)
qed

definition demo_run :: "string \<Rightarrow> run_status \<Rightarrow> int option \<Rightarrow> string list \<Rightarrow> run_match" where
  "demo_run k st court people =
     \<lparr>rm_key = k, rm_id = k, rm_source = Meet, rm_identity = MeetIdentity k None None,
      rm_colorKey = None, rm_sideA = [], rm_sideB = [], rm_court = court, rm_plannedSlot = Some 1,
      rm_span = 1, rm_status = st, rm_late = False, rm_timeliness = Ontime, rm_eligible = True,
      rm_playerIds = people, rm_actualEndSlot = None, rm_score = None\<rparr>"

theorem lane_now_or_conflict_witness:
  "map_option rm_key (ln_now (court_lane_of
     [demo_run ''a'' RScheduled (Some 1) [], demo_run ''b'' RPlaying (Some 1) []] True (Some 2) 1)) = Some ''b''"
  using lane_now_or_conflict[of "[demo_run ''a'' RScheduled (Some 1) [], demo_run ''b'' RPlaying (Some 1) []]"
      True "Some 2" 1]
  by (simp add: Let_def playing_on_def demo_run_def)

text \<open>C1. The automatic pull never puts a person on two courts: the match it takes is one of the
  queue that can accept a court and has known sides, no unfinished match that holds a court has
  one of its people, and it is the first such match in queue order; it takes none exactly when
  there is no such match.\<close>

theorem next_eligible_never_double_books:
  "(case nextEligible (deriveQueue ms) (busyPlayers ms) of
      Some m \<Rightarrow> m \<in> set ms \<and> rm_court m = None \<and> rm_status m = RScheduled \<and> rm_eligible m \<and>
        (\<forall>n \<in> set ms. rm_court n \<noteq> None \<and> \<not> isRunComplete (rm_status n) \<longrightarrow>
           set (rm_playerIds n) \<inter> set (rm_playerIds m) = {}) \<and>
        (\<forall>n \<in> set (takeWhile (\<lambda>n. n \<noteq> m) (deriveQueue ms)).
           \<not> (rm_eligible n \<and> rm_status n = RScheduled \<and> set (rm_playerIds n) \<inter> busyPlayers ms = {}))
    | None \<Rightarrow> \<forall>m \<in> set (deriveQueue ms).
        \<not> (rm_eligible m \<and> rm_status m = RScheduled \<and> set (rm_playerIds m) \<inter> busyPlayers ms = {}))"
proof (cases "filter (callable (busyPlayers ms)) (deriveQueue ms)")
  case Nil
  then show ?thesis
    by (auto simp: nextEligible_first filter_empty_conv callable_def can_assign isPlayerBusy_iff)
next
  case (Cons m rest)
  obtain us vs where split: "deriveQueue ms = us @ m # vs" "\<forall>u \<in> set us. \<not> callable (busyPlayers ms) u"
    and call: "callable (busyPlayers ms) m"
    using Cons by (auto simp: filter_eq_Cons_iff)
  have "m \<in> set (deriveQueue ms)" using split(1) by simp
  then have m: "m \<in> set ms" "rm_court m = None" "\<not> isRunComplete (rm_status m)" by simp_all
  have "takeWhile (\<lambda>n. n \<noteq> m) (deriveQueue ms) = us"
    using split call by (auto simp: takeWhile_append)
  then have "\<forall>n \<in> set (takeWhile (\<lambda>n. n \<noteq> m) (deriveQueue ms)). \<not> callable (busyPlayers ms) n"
    using split(2) by simp
  then show ?thesis using m call Cons
    by (auto simp: nextEligible_first callable_def can_assign isPlayerBusy_iff busyPlayers_set)
qed

theorem next_eligible_never_double_books_witness:
  "map_option rm_key (nextEligible
     (deriveQueue [demo_run ''a'' RScheduled None [''p''], demo_run ''b'' RPlaying (Some 1) [''p'']])
     (busyPlayers [demo_run ''a'' RScheduled None [''p''], demo_run ''b'' RPlaying (Some 1) [''p''] ])) \<noteq> Some ''a''"
  using next_eligible_never_double_books[of
      "[demo_run ''a'' RScheduled None [''p''], demo_run ''b'' RPlaying (Some 1) [''p'']]"]
  by (auto simp: isRunComplete_def demo_run_def split: option.splits)

text \<open>The rest flag is exact: a match is flagged when, and only when, it waits in the queue and one
  of its people came off court, in a finished match with a known end, less than the rest period
  before the current slot.\<close>

theorem rest_flag_exact:
  assumes "0 \<le> now" "0 < restSlots"
  shows "k \<in> set (restShortKeys ms (Some now) restSlots) \<longleftrightarrow>
     (\<exists>m \<in> set ms. rm_key m = k \<and> rm_court m = None \<and> \<not> isRunComplete (rm_status m) \<and>
        (\<exists>p \<in> set (rm_playerIds m). \<exists>n \<in> set ms. isRunComplete (rm_status n) \<and>
           p \<in> set (rm_playerIds n) \<and>
           (\<exists>e. rm_actualEndSlot n = Some e \<and> now < e + restSlots)))"
proof -
  have free: "or_else (map_of (fold (rest_step restSlots) ms []) p) 0 > now \<longleftrightarrow>
      (\<exists>n \<in> set ms. rests_until restSlots p now n)" for p
    using rest_fold[of now restSlots ms "[]" p] assms(1) by simp
  show ?thesis using assms(2)
    by (auto simp: restShortKeys_def Let_def list_ex_iff free rests_until_def js_set_def)
qed

theorem rest_flag_exact_witness:
  "''a'' \<in> set (restShortKeys [demo_run ''a'' RScheduled None [''p''],
      (demo_run ''b'' RFinished (Some 1) [''p''])\<lparr>rm_actualEndSlot := Some 5\<rparr>] (Some 6) 2)"
  using rest_flag_exact[of 6 2 "''a''" "[demo_run ''a'' RScheduled None [''p''],
      (demo_run ''b'' RFinished (Some 1) [''p''])\<lparr>rm_actualEndSlot := Some 5\<rparr>]"]
  by (simp add: isRunComplete_def demo_run_def)

text \<open>The summary band counts courts, not matches: its playing figure is the number of courts with
  exactly one match in play, its disputed figure the number of courts with two or more, and the
  free figure is what is left of the court lanes; finished matches never exceed the total.\<close>

theorem summary_counts_courts:
  "let s = deriveSummary ms lanes chips
   in su_playing s = int (card {c. length (playing_on ms c) = 1}) \<and>
      su_disputedCourts s = int (card {c. length (playing_on ms c) \<ge> 2}) \<and>
      su_courtsFree s = max 0 (int (length lanes) - int (card {c. playing_on ms c \<noteq> []})) \<and>
      su_done s \<le> su_total s"
  using courts_in_play[of ms]
  by (simp add: deriveSummary_def Let_def courtsFree_def max.commute)

end
