(* ===== verification/CommandQueue.thy ===== *)
theory CommandQueue
  imports Dto JsText
begin

text \<open>
  \<open>lib/commandQueue.ts\<close>, the persistent queue of the operator's commands. The IndexedDB object
  store (key path \<open>id\<close>) is a dictionary; \<open>getAll\<close> returns its rows in key order. A transaction
  is one step; between two transactions another flush or an enqueue may run, which \<open>queue_step\<close>
  states. The server is the function passed to \<open>flush\<close>, threading a state of its own.
\<close>

section \<open>The contract of a command store\<close>

text \<open>
  What both queues of the console (commands here, bracket results in \<open>BracketQueue\<close>) promise:
  adding keeps an existing row, settling touches the row it names, marks it, and leaves it pending
  exactly when the outcome is one to retry.
\<close>

locale command_store =
  fixes lookup :: "'s \<Rightarrow> string \<Rightarrow> 'c option"
    and pending :: "'s \<Rightarrow> 'c list"
    and add :: "'c \<Rightarrow> 's \<Rightarrow> 's"
    and settle :: "string \<Rightarrow> 'r \<Rightarrow> 's \<Rightarrow> 's"
    and cid :: "'c \<Rightarrow> string"
    and is_pending :: "'c \<Rightarrow> bool"
    and mark :: "'r \<Rightarrow> 'c \<Rightarrow> 'c"
    and retry :: "'r \<Rightarrow> bool"
    and wf :: "'s \<Rightarrow> bool"
  assumes wf_add: "wf s \<Longrightarrow> wf (add c s)"
    and wf_settle: "wf s \<Longrightarrow> wf (settle i r s)"
    and pending_iff: "wf s \<Longrightarrow> c \<in> set (pending s) \<longleftrightarrow> lookup s (cid c) = Some c \<and> is_pending c"
    and pending_distinct: "wf s \<Longrightarrow> distinct (map cid (pending s))"
    and lookup_cid: "wf s \<Longrightarrow> lookup s i = Some c \<Longrightarrow> cid c = i"
    and lookup_add: "wf s \<Longrightarrow>
      lookup (add c s) i = (if i = cid c \<and> lookup s i = None then Some c else lookup s i)"
    and lookup_settle: "wf s \<Longrightarrow>
      lookup (settle i r s) j = (if j = i then map_option (mark r) (lookup s i) else lookup s j)"
    and cid_mark: "cid (mark r c) = cid c"
    and pending_mark: "is_pending (mark r c) \<longleftrightarrow> is_pending c \<and> retry r"
begin

lemma add_twice: "wf s \<Longrightarrow> lookup (add c (add c s)) = lookup (add c s)"
  by (rule ext) (auto simp: lookup_add wf_add)

lemma add_keeps: "wf s \<Longrightarrow> lookup s i = Some d \<Longrightarrow> lookup (add c s) i = Some d"
  by (simp add: lookup_add)

lemma wf_settles: "wf s \<Longrightarrow> wf (fold (\<lambda>(i, r). settle i r) outs s)"
  by (induction outs arbitrary: s) (auto simp: wf_settle)

lemma settles_lookup:
  "distinct (map fst outs) \<Longrightarrow> wf s \<Longrightarrow>
   lookup (fold (\<lambda>(i, r). settle i r) outs s) j =
     (case map_of outs j of None \<Rightarrow> lookup s j | Some r \<Rightarrow> map_option (mark r) (lookup s j))"
proof (induction outs arbitrary: s)
  case (Cons o1 outs)
  obtain i r where o1: "o1 = (i, r)" by (cases o1)
  have "map_of outs i = None" using Cons.prems(1) by (simp add: o1 map_of_eq_None_iff)
  then show ?case using Cons.IH[OF _ wf_settle[OF Cons.prems(2)], of i r] Cons.prems
    by (auto simp: o1 lookup_settle split: option.splits)
qed simp

text \<open>After a drain, the rows still pending are those whose outcome is one to retry.\<close>

lemma pending_after_drain:
  assumes wf: "wf s" and ids: "map fst outs = map cid (pending s)"
  shows "c \<in> set (pending (fold (\<lambda>(i, r). settle i r) outs s)) \<longleftrightarrow>
     (\<exists>d r. d \<in> set (pending s) \<and> map_of outs (cid d) = Some r \<and> retry r \<and> c = mark r d)"
proof -
  let ?s = "fold (\<lambda>(i, r). settle i r) outs s"
  have dist: "distinct (map fst outs)" using pending_distinct[OF wf] ids by simp
  note look = settles_lookup[OF dist wf]
  have mem: "c \<in> set (pending ?s) \<longleftrightarrow> lookup ?s (cid c) = Some c \<and> is_pending c"
    by (rule pending_iff[OF wf_settles[OF wf]])
  show ?thesis
  proof
    assume "c \<in> set (pending ?s)"
    then have c: "lookup ?s (cid c) = Some c" "is_pending c" using mem by blast+
    show "\<exists>d r. d \<in> set (pending s) \<and> map_of outs (cid d) = Some r \<and> retry r \<and> c = mark r d"
    proof (cases "map_of outs (cid c)")
      case None
      then have "c \<in> set (pending s)" using c look pending_iff[OF wf] by simp
      then have "cid c \<in> fst ` set outs" using ids by (metis image_eqI set_map)
      then show ?thesis using None by (simp add: map_of_eq_None_iff)
    next
      case (Some r)
      then obtain d where d: "lookup s (cid c) = Some d" "c = mark r d" using c(1) look by auto
      then have "cid d = cid c" by (simp add: cid_mark)
      then have "d \<in> set (pending s)" "retry r" using d c(2) pending_iff[OF wf] by (simp_all add: pending_mark)
      then show ?thesis using Some d \<open>cid d = cid c\<close> by metis
    qed
  next
    assume "\<exists>d r. d \<in> set (pending s) \<and> map_of outs (cid d) = Some r \<and> retry r \<and> c = mark r d"
    then obtain d r where d: "d \<in> set (pending s)" "map_of outs (cid d) = Some r" "retry r" "c = mark r d"
      by blast
    then have "lookup s (cid d) = Some d" "is_pending d" using pending_iff[OF wf] by simp_all
    then show "c \<in> set (pending ?s)" using d mem look by (simp add: cid_mark pending_mark)
  qed
qed

text \<open>No step makes a settled row pending again, loses a row or renames it.\<close>

lemma add_settled:
  "wf s \<Longrightarrow> lookup s i = Some c \<Longrightarrow> \<exists>d. lookup (add e s) i = Some d \<and> (is_pending d \<longrightarrow> is_pending c)"
  by (simp add: lookup_add)

lemma settle_settled:
  "wf s \<Longrightarrow> lookup s i = Some c \<Longrightarrow> \<exists>d. lookup (settle j r s) i = Some d \<and> (is_pending d \<longrightarrow> is_pending c)"
  by (auto simp: lookup_settle pending_mark)

end

section \<open>Commands\<close>

datatype match_action =
    CallToCourt | StartMatch | FinishMatch | RetireMatch | Uncall | AssignCourt | PostponeMatch | ResolveCourt

datatype command_status = QPending | QApplied | QRejected | QConflict

record queued_command =
  qc_id :: string
  qc_tournamentId :: string
  qc_matchId :: string
  qc_action :: match_action
  qc_payload :: "(string, js_value) dict"
  qc_seenVersion :: int
  qc_createdAt :: int
  qc_attempts :: int
  qc_status :: command_status
  qc_rejectionReason :: "string option"

text \<open>\<open>SubmitOk matchStatus matchVersion courtId timeSlot\<close>.\<close>

datatype submit_result =
    SubmitOk string int "int option" "int option"
  | StaleVersion string
  | SubmitConflict string
  | NetworkError string

type_synonym command_db = "(string, queued_command) dict"

text \<open>\<open>SubmitFn\<close>: a result, or the message of the error it throws (\<open>Inr\<close>).\<close>

type_synonym 'w submit_fn = "queued_command \<Rightarrow> 'w \<Rightarrow> (submit_result + string) \<times> 'w"

definition all_rows :: "command_db \<Rightarrow> queued_command list" where
  "all_rows db = map snd (sort_key fst db)"

text \<open>The row literal \<open>{ attempts: 0, status: 'pending', ...command }\<close>.\<close>

definition command_row ::
  "queued_command \<Rightarrow> int option \<Rightarrow> command_status option \<Rightarrow> queued_command" where
  "command_row command attempts status =
     command\<lparr>qc_attempts := or_else attempts 0, qc_status := or_else status QPending\<rparr>"

definition put_new :: "queued_command \<Rightarrow> command_db \<Rightarrow> command_db" where
  "put_new row db = (case map_of db (qc_id row) of
       Some _ \<Rightarrow> db | None \<Rightarrow> AList.update (qc_id row) row db)"

definition enqueue ::
  "queued_command \<Rightarrow> int option \<Rightarrow> command_status option \<Rightarrow> command_db \<Rightarrow> string \<times> command_db" where
  "enqueue command attempts status db =
     (let row = command_row command attempts status in (qc_id row, put_new row db))"

definition getPending :: "command_db \<Rightarrow> queued_command list" where
  "getPending db = sort_key qc_createdAt (filter (\<lambda>c. qc_status c = QPending) (all_rows db))"

definition getById :: "string \<Rightarrow> command_db \<Rightarrow> queued_command option" where
  "getById i db = map_of db i"

definition markApplied :: "string \<Rightarrow> command_db \<Rightarrow> command_db" where
  "markApplied i db = (case map_of db i of
       None \<Rightarrow> db | Some row \<Rightarrow> AList.update i (row\<lparr>qc_status := QApplied\<rparr>) db)"

datatype reject_kind = RejectStale | RejectConflict

definition markRejected :: "string \<Rightarrow> reject_kind \<Rightarrow> string \<Rightarrow> command_db \<Rightarrow> command_db" where
  "markRejected i kind reason db = (case map_of db i of
       None \<Rightarrow> db
     | Some row \<Rightarrow> AList.update i
         (row\<lparr>qc_status := (if kind = RejectStale then QRejected else QConflict),
              qc_rejectionReason := Some reason\<rparr>) db)"

definition markRetryable :: "string \<Rightarrow> command_db \<Rightarrow> command_db" where
  "markRetryable i db = (case map_of db i of
       None \<Rightarrow> db | Some row \<Rightarrow> AList.update i (row\<lparr>qc_attempts := qc_attempts row + 1\<rparr>) db)"

text \<open>The \<open>switch\<close> of the loop.\<close>

fun settle_command :: "string \<Rightarrow> submit_result \<Rightarrow> command_db \<Rightarrow> command_db" where
  "settle_command i (SubmitOk _ _ _ _) db = markApplied i db"
| "settle_command i (StaleVersion message) db = markRejected i RejectStale message db"
| "settle_command i (SubmitConflict message) db = markRejected i RejectConflict message db"
| "settle_command i (NetworkError _) db = markRetryable i db"

fun flush_loop ::
  "'w submit_fn \<Rightarrow> queued_command list \<Rightarrow> command_db \<Rightarrow> 'w \<Rightarrow>
   (string \<times> submit_result) list \<times> command_db \<times> 'w" where
  "flush_loop submit [] db w = ([], db, w)"
| "flush_loop submit (command # commands) db w =
     (let (reply, w') = submit command w;
          result = (case reply of Inl r \<Rightarrow> r | Inr message \<Rightarrow> NetworkError message);
          (outcomes, db', w'') =
            flush_loop submit commands (settle_command (qc_id command) result db) w'
      in ((qc_id command, result) # outcomes, db', w''))"

definition flush ::
  "'w submit_fn \<Rightarrow> command_db \<Rightarrow> 'w \<Rightarrow> (string \<times> submit_result) list \<times> command_db \<times> 'w" where
  "flush submit db w = flush_loop submit (getPending db) db w"

text \<open>\<open>apiClient.submitCommand\<close>: how a reply of the server becomes a \<open>SubmitResult\<close>. An error
  carries a status and the \<open>error\<close> and \<open>message\<close> fields of its body, if it has one.\<close>

datatype http_reply =
    HttpOk string int "int option" "int option"
  | HttpError "int option" "(string \<times> string) option" "string option"

definition submitCommand :: "http_reply \<Rightarrow> submit_result" where
  "submitCommand reply =
     (case reply of
        HttpOk status version court slot \<Rightarrow> SubmitOk status version court slot
      | HttpError status body message \<Rightarrow>
          (case (status = Some 409, body) of
             (True, Some (err, msg)) \<Rightarrow>
               if err = ''stale_version'' then StaleVersion msg
               else if err = ''conflict'' then SubmitConflict msg
               else NetworkError (or_else message ''submit failed'')
           | _ \<Rightarrow> NetworkError (or_else message ''submit failed'')))"

section \<open>The store keeps the contract\<close>

definition db_wf :: "command_db \<Rightarrow> bool" where
  "db_wf db \<longleftrightarrow> distinct (map fst db) \<and> (\<forall>(i, c) \<in> set db. qc_id c = i)"

fun mark_command :: "submit_result \<Rightarrow> queued_command \<Rightarrow> queued_command" where
  "mark_command (SubmitOk _ _ _ _) c = c\<lparr>qc_status := QApplied\<rparr>"
| "mark_command (StaleVersion m) c = c\<lparr>qc_status := QRejected, qc_rejectionReason := Some m\<rparr>"
| "mark_command (SubmitConflict m) c = c\<lparr>qc_status := QConflict, qc_rejectionReason := Some m\<rparr>"
| "mark_command (NetworkError _) c = c\<lparr>qc_attempts := qc_attempts c + 1\<rparr>"

fun is_retry :: "submit_result \<Rightarrow> bool" where
  "is_retry (NetworkError _) = True"
| "is_retry _ = False"

lemma settle_command_eq:
  "settle_command i r db =
     (case map_of db i of None \<Rightarrow> db | Some c \<Rightarrow> AList.update i (mark_command r c) db)"
  by (cases r) (simp_all add: markApplied_def markRejected_def markRetryable_def split: option.split)

lemma mark_command_fields [simp]:
  "qc_id (mark_command r c) = qc_id c" "qc_createdAt (mark_command r c) = qc_createdAt c"
  "qc_action (mark_command r c) = qc_action c" "qc_payload (mark_command r c) = qc_payload c"
  "qc_matchId (mark_command r c) = qc_matchId c" "qc_seenVersion (mark_command r c) = qc_seenVersion c"
  "qc_tournamentId (mark_command r c) = qc_tournamentId c"
  by (cases r; simp)+

lemma mark_command_pending:
  "qc_status (mark_command r c) = QPending \<longleftrightarrow> qc_status c = QPending \<and> is_retry r"
  by (cases r) simp_all

lemma db_wf_update: "db_wf db \<Longrightarrow> qc_id c = i \<Longrightarrow> db_wf (AList.update i c db)"
  unfolding db_wf_def by (auto simp: distinct_update set_update_distinct)

lemma db_wf_lookup: "db_wf db \<Longrightarrow> map_of db i = Some c \<Longrightarrow> qc_id c = i"
  unfolding db_wf_def by (auto dest: map_of_SomeD)

lemma mem_all_rows: "db_wf db \<Longrightarrow> c \<in> set (all_rows db) \<longleftrightarrow> map_of db (qc_id c) = Some c"
  unfolding db_wf_def all_rows_def by (force simp: map_of_eq_Some_iff)

lemma distinct_all_rows: "db_wf db \<Longrightarrow> distinct (map qc_id (all_rows db))"
proof -
  assume wf: "db_wf db"
  have "map qc_id (all_rows db) = map fst (sort_key fst db)"
    using wf unfolding all_rows_def db_wf_def by (auto simp: comp_def intro!: map_cong)
  moreover have "distinct (map fst (sort_key fst db))" using wf by (simp add: db_wf_def distinct_map)
  ultimately show ?thesis by simp
qed

lemma distinct_getPending: "db_wf db \<Longrightarrow> distinct (map qc_id (getPending db))"
  using distinct_all_rows[of db] unfolding getPending_def
  by (auto simp: distinct_map intro: inj_on_subset)

interpretation meet_commands: command_store
  "\<lambda>db i. map_of db i" getPending put_new settle_command qc_id "\<lambda>c. qc_status c = QPending"
  mark_command is_retry db_wf
proof
  fix s :: command_db and c and i j :: string and r
  show "db_wf s \<Longrightarrow> db_wf (put_new c s)"
    by (simp add: put_new_def db_wf_update split: option.split)
  show "db_wf s \<Longrightarrow> db_wf (settle_command i r s)"
    using db_wf_lookup[of s i] by (auto simp: settle_command_eq intro!: db_wf_update split: option.split)
  show "db_wf s \<Longrightarrow> (c \<in> set (getPending s)) = (map_of s (qc_id c) = Some c \<and> qc_status c = QPending)"
    by (auto simp: getPending_def mem_all_rows)
  show "db_wf s \<Longrightarrow> distinct (map qc_id (getPending s))" by (rule distinct_getPending)
  show "db_wf s \<Longrightarrow> map_of s i = Some c \<Longrightarrow> qc_id c = i" by (rule db_wf_lookup)
  show "map_of (put_new c s) i = (if i = qc_id c \<and> map_of s i = None then Some c else map_of s i)"
    by (auto simp: put_new_def split: option.split)
  show "map_of (settle_command i r s) j =
      (if j = i then map_option (mark_command r) (map_of s i) else map_of s j)"
    by (auto simp: settle_command_eq split: option.split)
  show "qc_id (mark_command r c) = qc_id c" by simp
  show "(qc_status (mark_command r c) = QPending) = (qc_status c = QPending \<and> is_retry r)"
    by (rule mark_command_pending)
qed

lemma flush_loop_outcomes:
  "flush_loop submit cs db w = (outs, db', w') \<Longrightarrow>
   map fst outs = map qc_id cs \<and> db' = fold (\<lambda>(i, r). settle_command i r) outs db"
  by (induction cs arbitrary: db w outs db' w')
     (fastforce simp: Let_def split: prod.splits)+

section \<open>Several flushes at once\<close>

text \<open>
  The startup drain, the \<open>online\<close> listener and every submit start a flush of their own, and a
  flush awaits between its transactions. A configuration is the store, what each running flush
  still has to send (the list it read when it began), and the log of the ids put on the wire.
\<close>

record queue_conf =
  cf_db :: command_db
  cf_flushes :: "queued_command list list"
  cf_sent :: "string list"

inductive queue_step :: "queue_conf \<Rightarrow> queue_conf \<Rightarrow> bool" where
  step_enqueue: "queue_step s (s\<lparr>cf_db := snd (enqueue c None None (cf_db s))\<rparr>)"
| step_begin: "queue_step s (s\<lparr>cf_flushes := cf_flushes s @ [getPending (cf_db s)]\<rparr>)"
| step_send: "i < length (cf_flushes s) \<Longrightarrow> cf_flushes s ! i = c # cs \<Longrightarrow>
    queue_step s (s\<lparr>cf_db := settle_command (qc_id c) r (cf_db s),
      cf_flushes := (cf_flushes s)[i := cs], cf_sent := cf_sent s @ [qc_id c]\<rparr>)"

inductive_cases queue_stepE: "queue_step s t"

text \<open>What the row of a command never loses.\<close>

definition same_command :: "queued_command \<Rightarrow> queued_command \<Rightarrow> bool" where
  "same_command c d \<longleftrightarrow> qc_id d = qc_id c \<and> qc_tournamentId d = qc_tournamentId c \<and>
     qc_matchId d = qc_matchId c \<and> qc_action d = qc_action c \<and> qc_payload d = qc_payload c \<and>
     qc_seenVersion d = qc_seenVersion c \<and> qc_createdAt d = qc_createdAt c \<and>
     (qc_status d = QPending \<longrightarrow> qc_status c = QPending)"

lemma put_new_keeps: "map_of db i = Some c \<Longrightarrow> map_of (put_new d db) i = Some c"
  by (auto simp: put_new_def split: option.split)

lemma step_same_command:
  assumes "queue_step s t" "map_of (cf_db s) i = Some c"
  shows "\<exists>d. map_of (cf_db t) i = Some d \<and> same_command c d"
  using assms
proof (cases rule: queue_step.cases)
  case (step_send k d ds r)
  have "map_of (settle_command (qc_id d) r (cf_db s)) i =
      Some (if i = qc_id d then mark_command r c else c)"
    using assms(2) by (auto simp: settle_command_eq split: option.split)
  moreover have "same_command c (mark_command r c)" "same_command c c"
    by (simp_all add: same_command_def mark_command_pending)
  ultimately show ?thesis using step_send by auto
qed (auto simp: enqueue_def Let_def put_new_keeps same_command_def)

section \<open>One drain after another\<close>

text \<open>The drains of one client in sequence, each with the connection it finds.\<close>

fun flush_rounds :: "'w submit_fn list \<Rightarrow> command_db \<Rightarrow> 'w \<Rightarrow> command_db \<times> 'w" where
  "flush_rounds [] db w = (db, w)"
| "flush_rounds (submit # rounds) db w =
     (let (_, db', w') = flush submit db w in flush_rounds rounds db' w')"

text \<open>A connection under which the server always decides.\<close>

definition decides :: "'w submit_fn \<Rightarrow> bool" where
  "decides submit \<longleftrightarrow> (\<forall>c w. case fst (submit c w) of Inl r \<Rightarrow> \<not> is_retry r | Inr _ \<Rightarrow> False)"

lemma flush_loop_decides:
  "decides submit \<Longrightarrow> flush_loop submit cs db w = (outs, db', w') \<Longrightarrow> (i, r) \<in> set outs \<Longrightarrow> \<not> is_retry r"
proof (induction cs arbitrary: db w outs db' w')
  case (Cons c cs)
  obtain reply w1 where reply: "submit c w = (reply, w1)" by (cases "submit c w")
  then obtain s where s: "reply = Inl s" "\<not> is_retry s"
    using Cons.prems(1) unfolding decides_def by (metis fst_conv sum.case(1) sum.case(2) sum.exhaust)
  obtain outs' db1 w2 where rec: "flush_loop submit cs (settle_command (qc_id c) s db) w1 = (outs', db1, w2)"
    by (rule prod_cases3)
  then have "outs = (qc_id c, s) # outs'" using Cons.prems(2) by (simp add: reply s)
  then show ?case using Cons.IH[OF Cons.prems(1) rec] Cons.prems(3) s by auto
qed simp

lemma flush_keeps_wf: "db_wf db \<Longrightarrow> db_wf (fst (snd (flush submit db w)))"
proof -
  assume wf: "db_wf db"
  obtain outs db' w' where fl: "flush submit db w = (outs, db', w')" by (rule prod_cases3)
  then have "db' = fold (\<lambda>(i, r). settle_command i r) outs db"
    using flush_loop_outcomes unfolding flush_def by metis
  then show ?thesis using meet_commands.wf_settles[OF wf] fl by simp
qed

lemma flush_pending:
  assumes "db_wf db" "flush submit db w = (outs, db', w')"
  shows "c \<in> set (getPending db') \<longleftrightarrow>
    (\<exists>d r. d \<in> set (getPending db) \<and> map_of outs (qc_id d) = Some r \<and> is_retry r \<and> c = mark_command r d)"
proof -
  have "map fst outs = map qc_id (getPending db)" "db' = fold (\<lambda>(i, r). settle_command i r) outs db"
    using flush_loop_outcomes[OF assms(2)[unfolded flush_def]] by simp_all
  then show ?thesis using meet_commands.pending_after_drain[OF assms(1), of outs c] by simp
qed

lemma pending_ids_shrink:
  "db_wf db \<Longrightarrow> flush submit db w = (outs, db', w') \<Longrightarrow>
   qc_id ` set (getPending db') \<subseteq> qc_id ` set (getPending db)"
  by (auto simp: flush_pending)

lemma decided_flush_empties:
  assumes "db_wf db" "decides submit" "flush submit db w = (outs, db', w')"
  shows "getPending db' = []"
proof -
  have "\<not> is_retry r" if "map_of outs i = Some r" for i r
    using flush_loop_decides[OF assms(2) assms(3)[unfolded flush_def]] that by (blast dest: map_of_SomeD)
  then have "c \<notin> set (getPending db')" for c using flush_pending[OF assms(1,3), of c] by auto
  then show ?thesis by (cases "getPending db'") auto
qed

lemma flush_rounds_stored:
  assumes "db_wf db" "map_of db i = Some c"
  shows "\<exists>d. map_of (fst (flush_rounds rounds db w)) i = Some d \<and> same_command c d"
  using assms
proof (induction rounds arbitrary: db w c)
  case (Cons submit rounds)
  obtain outs db' w' where fl: "flush submit db w = (outs, db', w')" by (rule prod_cases3)
  have out: "map fst outs = map qc_id (getPending db)" and db': "db' = fold (\<lambda>(i, r). settle_command i r) outs db"
    using flush_loop_outcomes[OF fl[unfolded flush_def]] by simp_all
  have dist: "distinct (map fst outs)" using out distinct_getPending[OF Cons.prems(1)] by simp
  obtain d where d: "map_of db' i = Some d" "same_command c d"
    using meet_commands.settles_lookup[OF dist Cons.prems(1), of i] Cons.prems(2)
    by (auto simp: db' same_command_def mark_command_pending split: option.splits)
  have "db_wf db'" using flush_keeps_wf[OF Cons.prems(1), of submit w] fl by simp
  then obtain e where "map_of (fst (flush_rounds rounds db' w')) i = Some e" "same_command d e"
    using Cons.IH[of db' d w'] d(1) by blast
  then show ?case using d(2) by (auto simp: fl same_command_def)
qed (simp add: same_command_def)

lemma flush_rounds_pending:
  "db_wf db \<Longrightarrow> \<exists>submit \<in> set rounds. decides submit \<Longrightarrow> getPending (fst (flush_rounds rounds db w)) = []"
proof (induction rounds arbitrary: db w)
  case (Cons submit rounds)
  obtain outs db' w' where fl: "flush submit db w = (outs, db', w')" by (rule prod_cases3)
  have wf: "db_wf db'" using flush_keeps_wf[OF Cons.prems(1), of submit w] fl by simp
  have stays: "getPending (fst (flush_rounds rs e v)) = []" if "db_wf e" "getPending e = []" for rs e v
    using that
  proof (induction rs arbitrary: e v)
    case (Cons s rs)
    obtain o1 e' v' where fl: "flush s e v = (o1, e', v')" by (rule prod_cases3)
    have "getPending e' = []" using pending_ids_shrink[OF Cons.prems(1) fl] Cons.prems(2) by simp
    moreover have "db_wf e'" using flush_keeps_wf[OF Cons.prems(1), of s v] fl by simp
    ultimately show ?case using Cons.IH by (simp add: fl)
  qed simp
  show ?case
  proof (cases "decides submit")
    case True
    then show ?thesis using stays[OF wf decided_flush_empties[OF Cons.prems(1) True fl]] by (simp add: fl)
  next
    case False
    then show ?thesis using Cons.IH[OF wf] Cons.prems(2) by (simp add: fl)
  qed
qed simp

section \<open>Properties\<close>

text \<open>The same connection with a record of what goes over it, and what it answers to a list of commands sent
  one after another.\<close>

definition wire_recorded :: "'w submit_fn \<Rightarrow> ('w \<times> queued_command list) submit_fn" where
  "wire_recorded submit command = (\<lambda>(w, sent). let (reply, w') = submit command w in (reply, (w', sent @ [command])))"

fun answers :: "'w submit_fn \<Rightarrow> queued_command list \<Rightarrow> 'w \<Rightarrow> submit_result list \<times> 'w" where
  "answers submit [] w = ([], w)"
| "answers submit (command # commands) w =
     (let (reply, w') = submit command w; (rs, w'') = answers submit commands w'
      in ((case reply of Inl r \<Rightarrow> r | Inr message \<Rightarrow> NetworkError message) # rs, w''))"

lemma wire_recorded_loop:
  "flush_loop (wire_recorded submit) cs db (w, sent) =
     (let (rs, w') = answers submit cs w
      in (zip (map qc_id cs) rs, fold (\<lambda>(i, r). settle_command i r) (zip (map qc_id cs) rs) db, (w', sent @ cs)))"
  by (induction cs arbitrary: db w sent) (simp_all add: wire_recorded_def Let_def split_beta)

lemma answers_length: "length (fst (answers submit cs w)) = length cs"
  by (induction cs arbitrary: w) (simp_all add: Let_def split_beta)

lemma flush_loop_answers:
  "flush_loop submit cs db w =
     (let (rs, w') = answers submit cs w
      in (zip (map qc_id cs) rs, fold (\<lambda>(i, r). settle_command i r) (zip (map qc_id cs) rs) db, w'))"
  by (induction cs arbitrary: db w) (simp_all add: Let_def split_beta)

text \<open>C10. One flush settles the queue: what it puts on the wire is every pending command exactly once, in
  the order of their creation, whatever the others' outcomes, and nothing else; the outcomes are the
  server's answers to them in that order; each row then carries its outcome, no other row changes, and
  what is still pending afterwards is exactly the commands that met a network error, with one attempt
  more.\<close>

theorem flush_settles_pending:
  assumes "db_wf db" "flush (wire_recorded submit) db (w, before) = (outs, db', (w', sent))"
  shows "\<exists>now. sent = before @ now \<and> distinct (map qc_id now) \<and> sorted (map qc_createdAt now) \<and>
     (\<forall>c. c \<in> set now \<longleftrightarrow> map_of db (qc_id c) = Some c \<and> qc_status c = QPending) \<and>
     map fst outs = map qc_id now \<and> (map snd outs, w') = answers submit now w \<and>
     flush submit db w = (outs, db', w') \<and>
     (\<forall>i. map_of db' i = (case map_of outs i of None \<Rightarrow> map_of db i
        | Some r \<Rightarrow> map_option (mark_command r) (map_of db i))) \<and>
     (\<forall>c. c \<in> set (getPending db') \<longleftrightarrow>
        (\<exists>d m. d \<in> set now \<and> map_of outs (qc_id d) = Some (NetworkError m) \<and>
               c = d\<lparr>qc_attempts := qc_attempts d + 1\<rparr>))"
proof -
  let ?now = "getPending db"
  have run: "sent = before @ ?now" "outs = zip (map qc_id ?now) (fst (answers submit ?now w))"
    "w' = snd (answers submit ?now w)" "flush submit db w = (outs, db', w')"
    using assms(2)[unfolded flush_def wire_recorded_loop]
    by (auto simp: flush_def flush_loop_answers[of submit] Let_def split_beta)
  have len: "length (fst (answers submit ?now w)) = length (map qc_id ?now)" by (simp add: answers_length)
  have out: "map fst outs = map qc_id ?now"
    and db': "db' = fold (\<lambda>(i, r). settle_command i r) outs db"
    using flush_loop_outcomes[OF assms(2)[unfolded flush_def]] by simp_all
  have snds: "(map snd outs, w') = answers submit ?now w" using run(2,3) len by (simp add: map_snd_zip)
  have dist: "distinct (map fst outs)" using distinct_getPending[OF assms(1)] out by simp
  have retry: "is_retry r \<longleftrightarrow> (\<exists>m. r = NetworkError m)" for r by (cases r) simp_all
  have "sorted (map qc_createdAt ?now)" by (simp add: getPending_def)
  moreover have "\<forall>i. map_of db' i = (case map_of outs i of None \<Rightarrow> map_of db i
      | Some r \<Rightarrow> map_option (mark_command r) (map_of db i))"
    using meet_commands.settles_lookup[OF dist assms(1)] by (simp add: db')
  moreover have "c \<in> set (getPending db') \<longleftrightarrow>
      (\<exists>d m. d \<in> set ?now \<and> map_of outs (qc_id d) = Some (NetworkError m) \<and>
             c = d\<lparr>qc_attempts := qc_attempts d + 1\<rparr>)" for c
    using meet_commands.pending_after_drain[OF assms(1) out, of c] by (auto simp: db' retry)
  ultimately show ?thesis
    using run(1,4) out dist snds meet_commands.pending_iff[OF assms(1)]
    by (intro exI[of _ ?now]) simp
qed

definition demo_command :: queued_command where
  "demo_command = \<lparr>qc_id = ''c1'', qc_tournamentId = ''t'', qc_matchId = ''m'', qc_action = StartMatch,
     qc_payload = [], qc_seenVersion = 1, qc_createdAt = 10, qc_attempts = 0, qc_status = QPending,
     qc_rejectionReason = None\<rparr>"

definition demo_db :: command_db where
  "demo_db = [(''c1'', demo_command)]"

lemma demo_db_wf: "db_wf demo_db"
  by (simp add: db_wf_def demo_db_def demo_command_def)

lemma demo_db_pending: "getPending demo_db = [demo_command]"
  by (simp add: getPending_def all_rows_def demo_db_def demo_command_def)

theorem flush_settles_pending_witness:
  "snd (snd (snd (flush (wire_recorded (\<lambda>c w. (Inr ''offline'', w))) demo_db ((), [])))) = [demo_command]"
proof -
  let ?submit = "\<lambda>c w. (Inr ''offline'', w)"
  obtain outs db' w' sent where f: "flush (wire_recorded ?submit) demo_db ((), []) = (outs, db', (w', sent))"
    by (metis prod.collapse)
  obtain now where now: "sent = now" "distinct (map qc_id now)"
    "\<forall>c. c \<in> set now \<longleftrightarrow> map_of demo_db (qc_id c) = Some c \<and> qc_status c = QPending"
    using flush_settles_pending[OF demo_db_wf f] by auto
  have "set now = {demo_command}"
    using now(3) by (auto simp: demo_db_def demo_command_def split: if_splits)
  then have "now = [demo_command]" using now(2) by (cases now; cases "tl now") auto
  then show ?thesis by (simp add: f now(1))
qed

text \<open>C11. A settled command stays settled: however many flushes and enqueues interleave, a stored
  command is never lost, its content never changes, and once it is applied, rejected or in
  conflict it is never pending again.\<close>

theorem settled_never_pending_again:
  assumes "queue_step\<^sup>*\<^sup>* s t" "map_of (cf_db s) i = Some c"
  shows "\<exists>d. map_of (cf_db t) i = Some d \<and> qc_action d = qc_action c \<and> qc_matchId d = qc_matchId c \<and>
     qc_payload d = qc_payload c \<and> qc_seenVersion d = qc_seenVersion c \<and>
     qc_createdAt d = qc_createdAt c \<and> (qc_status c \<noteq> QPending \<longrightarrow> qc_status d \<noteq> QPending)"
proof -
  have "\<exists>d. map_of (cf_db t) i = Some d \<and> same_command c d"
    using assms
  proof (induction rule: rtranclp_induct)
    case base
    then show ?case by (simp add: same_command_def)
  next
    case (step t u)
    then obtain d where d: "map_of (cf_db t) i = Some d" "same_command c d" by blast
    obtain e where "map_of (cf_db u) i = Some e" "same_command d e"
      using step_same_command[OF step.hyps(2) d(1)] by blast
    then show ?case using d(2) by (auto simp: same_command_def)
  qed
  then show ?thesis by (auto simp: same_command_def)
qed

theorem settled_never_pending_again_witness:
  "\<exists>d. map_of (cf_db \<lparr>cf_db = [(''c1'', demo_command\<lparr>qc_status := QApplied\<rparr>)],
       cf_flushes = [[]], cf_sent = []\<rparr>) ''c1'' = Some d \<and> qc_status d \<noteq> QPending"
proof -
  let ?s = "\<lparr>cf_db = [(''c1'', demo_command\<lparr>qc_status := QApplied\<rparr>)], cf_flushes = [], cf_sent = []\<rparr>"
  have "queue_step ?s (?s\<lparr>cf_flushes := cf_flushes ?s @ [getPending (cf_db ?s)]\<rparr>)"
    by (rule step_begin)
  then have "queue_step\<^sup>*\<^sup>* ?s \<lparr>cf_db = [(''c1'', demo_command\<lparr>qc_status := QApplied\<rparr>)],
      cf_flushes = [[]], cf_sent = []\<rparr>"
    by (simp add: getPending_def all_rows_def)
  from settled_never_pending_again[OF this, of "''c1''" "demo_command\<lparr>qc_status := QApplied\<rparr>"]
  show ?thesis by auto
qed

text \<open>C12. The queue drains: however often the connection fails before and after, once a drain meets a
  server that decides, nothing is pending any more, and every command that was pending is still
  stored, unchanged and settled.\<close>

theorem repeated_drains_settle:
  assumes "db_wf db" "\<exists>submit \<in> set rounds. decides submit" "c \<in> set (getPending db)"
  shows "getPending (fst (flush_rounds rounds db w)) = [] \<and>
    (\<exists>d. map_of (fst (flush_rounds rounds db w)) (qc_id c) = Some d \<and> qc_payload d = qc_payload c \<and>
       qc_action d = qc_action c \<and> qc_status d \<noteq> QPending)"
proof -
  let ?e = "fst (flush_rounds rounds db w)"
  have none: "getPending ?e = []" by (rule flush_rounds_pending[OF assms(1,2)])
  have wf: "db_wf (fst (flush_rounds rs e v))" if "db_wf e" for rs e v
    using that
  proof (induction rs arbitrary: e v)
    case (Cons s rs)
    then show ?case using flush_keeps_wf[OF Cons.prems, of s v] by (auto split: prod.split)
  qed simp
  have "map_of db (qc_id c) = Some c" using meet_commands.pending_iff[OF assms(1)] assms(3) by blast
  then obtain d where d: "map_of ?e (qc_id c) = Some d" "same_command c d"
    using flush_rounds_stored[OF assms(1), of "qc_id c" c rounds w] by blast
  have "qc_id d = qc_id c" using d(2) by (simp add: same_command_def)
  then have "qc_status d = QPending \<Longrightarrow> d \<in> set (getPending ?e)"
    using meet_commands.pending_iff[OF wf[OF assms(1), of rounds w], of d] d(1) by simp
  then have "qc_status d \<noteq> QPending" using none by auto
  then show ?thesis using none d by (auto simp: same_command_def)
qed

theorem repeated_drains_settle_witness:
  "getPending (fst (flush_rounds [\<lambda>c w. (Inr ''offline'', w), \<lambda>c w. (Inl (SubmitConflict ''taken''), w)] demo_db ())) = []"
proof -
  let ?up = "(\<lambda>c w. (Inl (SubmitConflict ''taken''), w)) :: unit submit_fn"
  let ?rounds = "[\<lambda>c w. (Inr ''offline'', w), ?up]"
  have "decides ?up" by (simp add: decides_def)
  then have "\<exists>submit \<in> set ?rounds. decides submit" by simp
  moreover have "demo_command \<in> set (getPending demo_db)" by (simp add: demo_db_pending)
  ultimately show ?thesis by (rule repeated_drains_settle[OF demo_db_wf, THEN conjunct1])
qed

text \<open>Two overlapping flushes put one command on the wire twice: the list each sends is the one it
  read when it began. The server's idempotency key is what absorbs the repeat.\<close>

lemma overlapping_flushes_resend:
  "\<exists>t. queue_step\<^sup>*\<^sup>* \<lparr>cf_db = demo_db, cf_flushes = [], cf_sent = []\<rparr> t \<and> cf_sent t = [''c1'', ''c1'']"
proof -
  let ?ok = "SubmitOk ''playing'' 2 None None"
  let ?s0 = "\<lparr>cf_db = demo_db, cf_flushes = [], cf_sent = []\<rparr>"
  let ?s1 = "?s0\<lparr>cf_flushes := [[demo_command]]\<rparr>"
  let ?s2 = "?s0\<lparr>cf_flushes := [[demo_command], [demo_command]]\<rparr>"
  let ?s3 = "?s2\<lparr>cf_db := settle_command ''c1'' ?ok demo_db, cf_flushes := [[], [demo_command]],
    cf_sent := [''c1'']\<rparr>"
  let ?s4 = "?s3\<lparr>cf_db := settle_command ''c1'' ?ok (cf_db ?s3), cf_flushes := [[], []],
    cf_sent := [''c1'', ''c1'']\<rparr>"
  have cid: "qc_id demo_command = ''c1''" by (simp add: demo_command_def)
  have 1: "queue_step ?s0 ?s1" using step_begin[of ?s0] by (simp add: demo_db_pending)
  have 2: "queue_step ?s1 ?s2" using step_begin[of ?s1] by (simp add: demo_db_pending)
  have 3: "queue_step ?s2 ?s3" using step_send[of 0 ?s2 demo_command "[]" ?ok] by (simp add: cid)
  have 4: "queue_step ?s3 ?s4" using step_send[of 1 ?s3 demo_command "[]" ?ok] by (simp add: cid)
  have "queue_step\<^sup>*\<^sup>* ?s0 ?s4"
    using 1 2 3 4 by (meson rtranclp.rtrancl_refl rtranclp.rtrancl_into_rtrancl)
  then show ?thesis by (intro exI[of _ ?s4]) simp
qed

end
