(* ===== verification/MatchStateStore.thy ===== *)
theory MatchStateStore
  imports CommandQueue
begin

text \<open>
  \<open>store/matchStateStore.ts\<close>, the live match states with the bookkeeping of in-flight commands,
  \<open>lib/mergeMatchStates.ts\<close>, the merge of a polled snapshot, and \<open>hooks/useCommandQueue.ts\<close>, the
  optimistic submission of one command against that store and the queue.
\<close>

section \<open>The store\<close>

datatype conflict_flavour = StaleVersionFlavour | ConflictFlavour

record conflict_record =
  cr_flavour :: conflict_flavour
  cr_message :: string
  cr_occurredAt :: int

record match_store =
  st_matchStates :: "(string, match_state_dto) dict"
  st_pendingCommandsByMatchId :: "(string, string) dict"
  st_recentConflictsByMatchId :: "(string, conflict_record) dict"
  st_canonicalVersionsByMatchId :: "(string, int) dict"

definition empty_store :: match_store where
  "empty_store = \<lparr>st_matchStates = [], st_pendingCommandsByMatchId = [],
     st_recentConflictsByMatchId = [], st_canonicalVersionsByMatchId = []\<rparr>"

text \<open>Comparing two states by their serialisation is comparing the records; a reordered key makes
  the code write where the model does not, with the same content.\<close>

definition matchStatesEqual ::
  "(string, match_state_dto) dict \<Rightarrow> (string, match_state_dto) dict \<Rightarrow> bool" where
  "matchStatesEqual a b \<longleftrightarrow>
     length a = length b \<and> list_all (\<lambda>(k, v). map_of b k = Some v) a"

definition setMatchStates :: "(string, match_state_dto) dict \<Rightarrow> match_store \<Rightarrow> match_store" where
  "setMatchStates states s =
     (if matchStatesEqual (st_matchStates s) states then s else s\<lparr>st_matchStates := states\<rparr>)"

definition setMatchState :: "string \<Rightarrow> match_state_dto \<Rightarrow> match_store \<Rightarrow> match_store" where
  "setMatchState matchId state s =
     s\<lparr>st_matchStates := AList.update matchId state (st_matchStates s)\<rparr>"

definition resetStore :: "match_store \<Rightarrow> match_store" where
  "resetStore s = empty_store"

definition setPendingCommand :: "string \<Rightarrow> string \<Rightarrow> match_store \<Rightarrow> match_store" where
  "setPendingCommand matchId commandId s =
     s\<lparr>st_pendingCommandsByMatchId := AList.update matchId commandId (st_pendingCommandsByMatchId s)\<rparr>"

definition clearPendingCommand :: "string \<Rightarrow> match_store \<Rightarrow> match_store" where
  "clearPendingCommand matchId s =
     s\<lparr>st_pendingCommandsByMatchId := AList.delete matchId (st_pendingCommandsByMatchId s)\<rparr>"

definition applyOptimisticStatus :: "string \<Rightarrow> match_status \<Rightarrow> match_store \<Rightarrow> match_store" where
  "applyOptimisticStatus matchId status s =
     (let existing = or_else (map_of (st_matchStates s) matchId) (bare_match_state matchId MScheduled);
          new = existing\<lparr>ms_matchId := matchId, ms_status := status\<rparr>
      in s\<lparr>st_matchStates := AList.update matchId new (st_matchStates s)\<rparr>)"

definition recordConflict ::
  "string \<Rightarrow> conflict_flavour \<Rightarrow> string \<Rightarrow> int \<Rightarrow> match_store \<Rightarrow> match_store" where
  "recordConflict matchId flavour message now s =
     s\<lparr>st_recentConflictsByMatchId := AList.update matchId
         \<lparr>cr_flavour = flavour, cr_message = message, cr_occurredAt = now\<rparr>
         (st_recentConflictsByMatchId s)\<rparr>"

definition dismissConflict :: "string \<Rightarrow> match_store \<Rightarrow> match_store" where
  "dismissConflict matchId s =
     s\<lparr>st_recentConflictsByMatchId := AList.delete matchId (st_recentConflictsByMatchId s)\<rparr>"

definition setMatchVersion :: "string \<Rightarrow> int \<Rightarrow> match_store \<Rightarrow> match_store" where
  "setMatchVersion matchId version s =
     s\<lparr>st_canonicalVersionsByMatchId := AList.update matchId version (st_canonicalVersionsByMatchId s)\<rparr>"

section \<open>Merging a snapshot\<close>

definition merge_one :: "match_state_dto \<Rightarrow> match_state_dto option \<Rightarrow> match_state_dto" where
  "merge_one backendState localState =
     backendState\<lparr>
       ms_postponed := or_opt (ms_postponed backendState) (Option.bind localState ms_postponed),
       ms_playerConfirmations := or_opt (ms_playerConfirmations backendState)
         (Option.bind localState ms_playerConfirmations)\<rparr>"

definition mergeMatchStates ::
  "(string, match_state_dto) dict \<Rightarrow> (string, match_state_dto) dict \<Rightarrow>
   (string, match_state_dto) dict" where
  "mergeMatchStates backend local_states =
     (let merged = fold (\<lambda>(matchId, backendState) m.
            AList.update matchId (merge_one backendState (map_of local_states matchId)) m) backend []
      in fold (\<lambda>(matchId, localState) m.
           if map_of m matchId = None then AList.update matchId localState m else m)
           local_states merged)"

section \<open>Submitting a command\<close>

definition ACTION_TO_LEGACY_STATUS :: "match_action \<Rightarrow> match_status option" where
  "ACTION_TO_LEGACY_STATUS action =
     (case action of
        CallToCourt \<Rightarrow> Some MCalled | StartMatch \<Rightarrow> Some MStarted | FinishMatch \<Rightarrow> Some MFinished
      | RetireMatch \<Rightarrow> Some MRetired | Uncall \<Rightarrow> Some MScheduled | AssignCourt \<Rightarrow> Some MScheduled
      | PostponeMatch \<Rightarrow> Some MScheduled | ResolveCourt \<Rightarrow> None)"

definition CANONICAL_TO_LEGACY_STATUS :: "(string, match_status) dict" where
  "CANONICAL_TO_LEGACY_STATUS = [(''scheduled'', MScheduled), (''called'', MCalled),
     (''playing'', MStarted), (''finished'', MFinished), (''retired'', MRetired)]"

definition buildCommandOkPatch ::
  "match_state_dto \<Rightarrow> match_status \<Rightarrow> int option \<Rightarrow> int option \<Rightarrow> match_action option \<Rightarrow>
   match_state_dto" where
  "buildCommandOkPatch previous legacyStatus timeSlot courtId action =
     (let patch = previous\<lparr>ms_status := legacyStatus\<rparr>
      in if action = Some PostponeMatch
         then patch\<lparr>ms_postponed := Some True, ms_actualCourtId := None, ms_actualSlotId := None\<rparr>
         else let patch' = (if action = Some AssignCourt then patch\<lparr>ms_postponed := Some False\<rparr> else patch)
              in patch'\<lparr>ms_actualCourtId := or_opt courtId (ms_actualCourtId patch'),
                       ms_actualSlotId := or_opt timeSlot (ms_actualSlotId patch')\<rparr>)"

text \<open>The body \<open>apiClient.submitCommand\<close> is given, and the server the hook talks to under tournament
  \<open>tid\<close>; a read that throws is \<open>None\<close>.\<close>

record command_request =
  rq_id :: string
  rq_match_id :: string
  rq_action :: match_action
  rq_payload :: "(string, js_value) dict"
  rq_seen_version :: int

record 'w command_server =
  sv_submit :: "string \<Rightarrow> command_request \<Rightarrow> 'w \<Rightarrow> (submit_result + string) \<times> 'w"
  sv_version :: "string \<Rightarrow> string \<Rightarrow> 'w \<Rightarrow> int option \<times> 'w"
  sv_state :: "string \<Rightarrow> string \<Rightarrow> 'w \<Rightarrow> match_state_dto option \<times> 'w"

definition submitFn :: "'w command_server \<Rightarrow> string \<Rightarrow> 'w submit_fn" where
  "submitFn server tid cmd w =
     sv_submit server tid
       \<lparr>rq_id = qc_id cmd, rq_match_id = qc_matchId cmd, rq_action = qc_action cmd,
        rq_payload = qc_payload cmd, rq_seen_version = qc_seenVersion cmd\<rparr> w"

text \<open>The drain on start and on reconnect: a flush whose outcomes are dropped, so the store is not
  touched.\<close>

definition drain :: "'w command_server \<Rightarrow> string \<Rightarrow> command_db \<Rightarrow> 'w \<Rightarrow> command_db \<times> 'w" where
  "drain server tid db w = snd (flush (submitFn server tid) db w)"

text \<open>
  What a submit reads from outside: the edit right, the fresh id, the clock, the store as the
  component last rendered it (the closure's \<open>matchStates\<close> and \<open>canonicalVersionsByMatchId\<close>),
  which need not be the store it writes to, and what the other flushes and presses do to the queue
  and the server between the \<open>await enqueue\<close> and the read of the pending commands.
\<close>

record 'w submit_env =
  en_canEdit :: bool
  en_commandId :: string
  en_now :: int
  en_rendered :: match_store
  en_meanwhile :: "command_db \<times> 'w \<Rightarrow> command_db \<times> 'w"

text \<open>The refetch after a rejection, with the rollback when it fails.\<close>

definition settle_rejected ::
  "'w command_server \<Rightarrow> string \<Rightarrow> string \<Rightarrow> match_status \<Rightarrow> match_store \<Rightarrow> 'w \<Rightarrow> match_store \<times> 'w" where
  "settle_rejected server tid matchId previousStatus s w =
     (case sv_state server tid matchId w of
        (None, w') \<Rightarrow> (applyOptimisticStatus matchId previousStatus s, w')
      | (Some fresh, w') \<Rightarrow>
          (let s' = setMatchState matchId fresh s
           in case sv_version server tid matchId w' of
                (None, w'') \<Rightarrow> (s', w'')
              | (Some v, w'') \<Rightarrow> (setMatchVersion matchId v s', w'')))"

definition settle_outcome ::
  "'w command_server \<Rightarrow> string \<Rightarrow> 'w submit_env \<Rightarrow> match_action \<Rightarrow> string \<Rightarrow> match_status \<Rightarrow>
   submit_result \<Rightarrow> match_store \<Rightarrow> 'w \<Rightarrow> match_store \<times> 'w" where
  "settle_outcome server tid env action matchId previousStatus result s w =
     (case result of
        SubmitOk matchStatus matchVersion courtId timeSlot \<Rightarrow>
          (let legacy = or_else (map_of CANONICAL_TO_LEGACY_STATUS matchStatus) MScheduled;
               previous = or_else (map_of (st_matchStates (en_rendered env)) matchId)
                            (bare_match_state matchId MScheduled);
               s1 = clearPendingCommand matchId s;
               s2 = setMatchState matchId
                      (buildCommandOkPatch previous legacy timeSlot courtId (Some action)) s1
           in (setMatchVersion matchId matchVersion s2, w))
      | StaleVersion message \<Rightarrow>
          settle_rejected server tid matchId previousStatus
            (recordConflict matchId StaleVersionFlavour message (en_now env)
               (clearPendingCommand matchId s)) w
      | SubmitConflict message \<Rightarrow>
          settle_rejected server tid matchId previousStatus
            (recordConflict matchId ConflictFlavour message (en_now env)
               (clearPendingCommand matchId s)) w
      | NetworkError _ \<Rightarrow> (s, w))"

definition NO_COMMAND_OUTCOME :: string where
  "NO_COMMAND_OUTCOME = ''no outcome: possibly absorbed by a concurrent flush''"

text \<open>The version to send: the rendered cache, else a read, else 0; a read value is cached.\<close>

definition seen_version ::
  "'w command_server \<Rightarrow> string \<Rightarrow> 'w submit_env \<Rightarrow> string \<Rightarrow> match_store \<Rightarrow> 'w \<Rightarrow>
   int \<times> match_store \<times> 'w" where
  "seen_version server tid env matchId s w =
     (case map_of (st_canonicalVersionsByMatchId (en_rendered env)) matchId of
        Some v \<Rightarrow> (v, s, w)
      | None \<Rightarrow> (let (r, w') = sv_version server tid matchId w; v = or_else r 0
                in (v, setMatchVersion matchId v s, w')))"

definition submit ::
  "'w command_server \<Rightarrow> string \<Rightarrow> 'w submit_env \<Rightarrow> match_action \<Rightarrow> string \<Rightarrow>
   (string, js_value) dict \<Rightarrow> match_store \<Rightarrow> command_db \<Rightarrow> 'w \<Rightarrow>
   (string \<times> submit_result) \<times> match_store \<times> command_db \<times> 'w" where
  "submit server tid env action matchId payload s db w =
     (if \<not> en_canEdit env then (([], SubmitConflict ''View-only access''), s, db, w)
      else
        (let commandId = en_commandId env;
             (seenVersion, s1, w1) = seen_version server tid env matchId s w;
             previousStatus = (case map_of (st_matchStates (en_rendered env)) matchId of
                 Some m \<Rightarrow> ms_status m | None \<Rightarrow> MScheduled);
             s2 = (case ACTION_TO_LEGACY_STATUS action of
                 Some st \<Rightarrow> applyOptimisticStatus matchId st s1 | None \<Rightarrow> s1);
             s3 = setPendingCommand matchId commandId s2;
             command = \<lparr>qc_id = commandId, qc_tournamentId = tid, qc_matchId = matchId,
               qc_action = action, qc_payload = payload, qc_seenVersion = seenVersion,
               qc_createdAt = en_now env, qc_attempts = 0, qc_status = QPending,
               qc_rejectionReason = None\<rparr>;
             (_, db1) = enqueue command None None db;
             (db1', w1') = en_meanwhile env (db1, w1);
             (outcomes, db2, w2) = flush (submitFn server tid) db1' w1';
             result = or_else (map_option snd (find (\<lambda>p. fst p = commandId) outcomes))
               (NetworkError NO_COMMAND_OUTCOME);
             (s4, w3) = settle_outcome server tid env action matchId previousStatus result s3 w2
         in ((commandId, result), s4, db2, w3)))"

section \<open>One match at a time\<close>

definition same_elsewhere :: "string \<Rightarrow> match_store \<Rightarrow> match_store \<Rightarrow> bool" where
  "same_elsewhere i s t \<longleftrightarrow> (\<forall>j. j \<noteq> i \<longrightarrow>
     map_of (st_matchStates t) j = map_of (st_matchStates s) j \<and>
     map_of (st_pendingCommandsByMatchId t) j = map_of (st_pendingCommandsByMatchId s) j \<and>
     map_of (st_recentConflictsByMatchId t) j = map_of (st_recentConflictsByMatchId s) j \<and>
     map_of (st_canonicalVersionsByMatchId t) j = map_of (st_canonicalVersionsByMatchId s) j)"

lemma same_elsewhere_refl [simp, intro]: "same_elsewhere i s s"
  by (simp add: same_elsewhere_def)

lemma store_ops_elsewhere [simp]:
  "same_elsewhere i s (setMatchState i m t) = same_elsewhere i s t"
  "same_elsewhere i s (setPendingCommand i c t) = same_elsewhere i s t"
  "same_elsewhere i s (clearPendingCommand i t) = same_elsewhere i s t"
  "same_elsewhere i s (applyOptimisticStatus i x t) = same_elsewhere i s t"
  "same_elsewhere i s (recordConflict i f msg n t) = same_elsewhere i s t"
  "same_elsewhere i s (dismissConflict i t) = same_elsewhere i s t"
  "same_elsewhere i s (setMatchVersion i v t) = same_elsewhere i s t"
  by (simp_all add: same_elsewhere_def setMatchState_def setPendingCommand_def clearPendingCommand_def
      applyOptimisticStatus_def recordConflict_def dismissConflict_def setMatchVersion_def Let_def)

lemma settle_rejected_elsewhere [simp]:
  "same_elsewhere i s (fst (settle_rejected server tid i p t w)) = same_elsewhere i s t"
  by (simp add: settle_rejected_def Let_def split: prod.split option.split)

lemma settle_outcome_elsewhere [simp]:
  "same_elsewhere i s (fst (settle_outcome server tid env a i p r t w)) = same_elsewhere i s t"
  by (cases r) (simp_all add: settle_outcome_def Let_def)

text \<open>The store before the outcome is known.\<close>

definition optimistic ::
  "'w command_server \<Rightarrow> string \<Rightarrow> 'w submit_env \<Rightarrow> match_action \<Rightarrow> string \<Rightarrow> match_store \<Rightarrow> 'w \<Rightarrow> match_store" where
  "optimistic server tid env action i s w =
     (let (_, s1, _) = seen_version server tid env i s w
      in setPendingCommand i (en_commandId env)
           (case ACTION_TO_LEGACY_STATUS action of
              Some st \<Rightarrow> applyOptimisticStatus i st s1 | None \<Rightarrow> s1))"

lemma optimistic_elsewhere [simp]: "same_elsewhere i s (optimistic server tid env action i s w)"
  by (simp add: optimistic_def seen_version_def Let_def split: prod.split option.split)

definition sent_command ::
  "string \<Rightarrow> 'w submit_env \<Rightarrow> match_action \<Rightarrow> string \<Rightarrow> (string, js_value) dict \<Rightarrow> int \<Rightarrow> queued_command" where
  "sent_command tid env action i payload v =
     \<lparr>qc_id = en_commandId env, qc_tournamentId = tid, qc_matchId = i, qc_action = action,
      qc_payload = payload, qc_seenVersion = v, qc_createdAt = en_now env, qc_attempts = 0,
      qc_status = QPending, qc_rejectionReason = None\<rparr>"

definition rendered_status :: "'w submit_env \<Rightarrow> string \<Rightarrow> match_status" where
  "rendered_status env i =
     (case map_of (st_matchStates (en_rendered env)) i of Some m \<Rightarrow> ms_status m | None \<Rightarrow> MScheduled)"

text \<open>A submit by someone who may edit, split into its three stages.\<close>

lemma submit_stages:
  assumes "en_canEdit env" "submit server tid env action i payload s db w = ((cid, result), s', db', w')"
  obtains v s1 w1 dm wm outs w2 where
    "seen_version server tid env i s w = (v, s1, w1)"
    "cid = en_commandId env"
    "en_meanwhile env (put_new (sent_command tid env action i payload v) db, w1) = (dm, wm)"
    "flush (submitFn server tid) dm wm = (outs, db', w2)"
    "result = or_else (map_of outs cid) (NetworkError NO_COMMAND_OUTCOME)"
    "settle_outcome server tid env action i (rendered_status env i) result
       (optimistic server tid env action i s w) w2 = (s', w')"
proof -
  have find: "map_option snd (find (\<lambda>p. fst p = k) xs) = map_of xs k"
    for k :: string and xs :: "(string \<times> submit_result) list"
    by (induction xs) auto
  obtain v s1 w1 where sv: "seen_version server tid env i s w = (v, s1, w1)" by (rule prod_cases3)
  obtain dm wm where mw: "en_meanwhile env (put_new (sent_command tid env action i payload v) db, w1) = (dm, wm)"
    by (rule prod.exhaust)
  obtain outs db2 w2 where fl: "flush (submitFn server tid) dm wm = (outs, db2, w2)"
    by (rule prod_cases3)
  have row: "command_row (sent_command tid env action i payload v) None None =
      sent_command tid env action i payload v"
    by (simp add: command_row_def sent_command_def)
  have "db' = db2" "cid = en_commandId env"
    "result = or_else (map_of outs cid) (NetworkError NO_COMMAND_OUTCOME)"
    "settle_outcome server tid env action i (rendered_status env i) result
       (optimistic server tid env action i s w) w2 = (s', w')"
    using assms fl mw row
    by (auto simp: submit_def Let_def sv enqueue_def sent_command_def[symmetric] optimistic_def find
        rendered_status_def[symmetric] split: prod.splits)
  then show ?thesis using that sv mw fl by blast
qed

text \<open>A flush settles the row of an id exactly when the row is pending as the flush reads it.\<close>

lemma flush_of_one:
  assumes "db_wf d" and fl: "flush f d w = (outs, d', w')"
  shows "case map_of d k of
      Some row \<Rightarrow> if qc_status row = QPending then \<exists>r. map_of outs k = Some r \<and> map_of d' k = Some (mark_command r row)
                  else map_of outs k = None \<and> map_of d' k = Some row
    | None \<Rightarrow> map_of outs k = None \<and> map_of d' k = None"
proof -
  have outs: "map fst outs = map qc_id (getPending d)"
    and d': "d' = fold (\<lambda>(i, r). settle_command i r) outs d"
    using flush_loop_outcomes[OF fl[unfolded flush_def]] by simp_all
  have dist: "distinct (map fst outs)" using outs meet_commands.pending_distinct[OF assms(1)] by simp
  have look: "map_of d' k = (case map_of d k of None \<Rightarrow> None
      | Some row \<Rightarrow> Some (case map_of outs k of None \<Rightarrow> row | Some r \<Rightarrow> mark_command r row))"
    unfolding d' meet_commands.settles_lookup[OF dist assms(1)] by (simp split: option.split)
  have mem: "map_of outs k \<noteq> None \<longleftrightarrow> (\<exists>c. map_of d k = Some c \<and> qc_status c = QPending)"
  proof -
    have "map_of outs k \<noteq> None \<longleftrightarrow> k \<in> qc_id ` set (getPending d)"
      using outs by (metis map_of_eq_None_iff list.set_map)
    also have "\<dots> \<longleftrightarrow> (\<exists>c. map_of d k = Some c \<and> qc_status c = QPending)"
      using meet_commands.pending_iff[OF assms(1)] db_wf_lookup[OF assms(1)] by (metis imageE imageI)
    finally show ?thesis .
  qed
  show ?thesis using look mem by (cases "map_of d k"; cases "map_of outs k") auto
qed

text \<open>What a store says of one match.\<close>

definition in_flight :: "match_store \<Rightarrow> string \<Rightarrow> string option" where
  "in_flight s i = map_of (st_pendingCommandsByMatchId s) i"

definition shown_status :: "match_store \<Rightarrow> string \<Rightarrow> match_status option" where
  "shown_status s i = map_option ms_status (map_of (st_matchStates s) i)"

definition shown_state :: "match_store \<Rightarrow> string \<Rightarrow> match_state_dto option" where
  "shown_state s i = map_of (st_matchStates s) i"

definition cached_version :: "match_store \<Rightarrow> string \<Rightarrow> int option" where
  "cached_version s i = map_of (st_canonicalVersionsByMatchId s) i"

definition banner :: "match_store \<Rightarrow> string \<Rightarrow> conflict_record option" where
  "banner s i = map_of (st_recentConflictsByMatchId s) i"

lemma store_views [simp]:
  "shown_state (setMatchState i m s) j = (if j = i then Some m else shown_state s j)"
  "shown_state (setPendingCommand i c s) j = shown_state s j"
  "shown_state (clearPendingCommand i s) j = shown_state s j"
  "shown_state (applyOptimisticStatus i x s) j = (if j = i
     then Some ((or_else (shown_state s i) (bare_match_state i MScheduled))\<lparr>ms_matchId := i, ms_status := x\<rparr>)
     else shown_state s j)"
  "shown_state (recordConflict i f msg n s) j = shown_state s j"
  "shown_state (setMatchVersion i v s) j = shown_state s j"
  "in_flight (setMatchState i m s) j = in_flight s j"
  "in_flight (setPendingCommand i c s) j = (if j = i then Some c else in_flight s j)"
  "in_flight (clearPendingCommand i s) j = (if j = i then None else in_flight s j)"
  "in_flight (applyOptimisticStatus i x s) j = in_flight s j"
  "in_flight (recordConflict i f msg n s) j = in_flight s j"
  "in_flight (setMatchVersion i v s) j = in_flight s j"
  "banner (setMatchState i m s) j = banner s j"
  "banner (setPendingCommand i c s) j = banner s j"
  "banner (clearPendingCommand i s) j = banner s j"
  "banner (applyOptimisticStatus i x s) j = banner s j"
  "banner (recordConflict i f msg n s) j =
     (if j = i then Some \<lparr>cr_flavour = f, cr_message = msg, cr_occurredAt = n\<rparr> else banner s j)"
  "banner (setMatchVersion i v s) j = banner s j"
  "cached_version (setMatchState i m s) j = cached_version s j"
  "cached_version (setPendingCommand i c s) j = cached_version s j"
  "cached_version (clearPendingCommand i s) j = cached_version s j"
  "cached_version (applyOptimisticStatus i x s) j = cached_version s j"
  "cached_version (recordConflict i f msg n s) j = cached_version s j"
  "cached_version (setMatchVersion i v s) j = (if j = i then Some v else cached_version s j)"
  by (auto simp: shown_state_def in_flight_def banner_def cached_version_def setMatchState_def
      setPendingCommand_def clearPendingCommand_def applyOptimisticStatus_def recordConflict_def
      setMatchVersion_def Let_def)

lemma status_views [simp]:
  "shown_status (setMatchState i m s) j = (if j = i then Some (ms_status m) else shown_status s j)"
  "shown_status (setPendingCommand i c s) j = shown_status s j"
  "shown_status (clearPendingCommand i s) j = shown_status s j"
  "shown_status (applyOptimisticStatus i x s) j = (if j = i then Some x else shown_status s j)"
  "shown_status (recordConflict i f msg n s) j = shown_status s j"
  "shown_status (setMatchVersion i v s) j = shown_status s j"
  by (auto simp: shown_status_def setMatchState_def setPendingCommand_def clearPendingCommand_def
      applyOptimisticStatus_def recordConflict_def setMatchVersion_def Let_def)

text \<open>A state with another status; what a press shows before its outcome is known; and what an accepted
  command shows: the last rendered state with the server's status, moved as the command says.\<close>

definition restatused :: "string \<Rightarrow> match_status \<Rightarrow> match_state_dto option \<Rightarrow> match_state_dto" where
  "restatused i x state = (or_else state (bare_match_state i MScheduled))\<lparr>ms_matchId := i, ms_status := x\<rparr>"

definition accepted_state ::
  "match_action \<Rightarrow> string \<Rightarrow> int option \<Rightarrow> int option \<Rightarrow> match_state_dto \<Rightarrow> match_state_dto" where
  "accepted_state action status court slot before = before\<lparr>
     ms_status := (if status = ''called'' then MCalled else if status = ''playing'' then MStarted
       else if status = ''finished'' then MFinished else if status = ''retired'' then MRetired else MScheduled),
     ms_postponed := (if action = PostponeMatch then Some True else if action = AssignCourt then Some False
       else ms_postponed before),
     ms_actualCourtId := (if action = PostponeMatch then None
       else if court \<noteq> None then court else ms_actualCourtId before),
     ms_actualSlotId := (if action = PostponeMatch then None
       else if slot \<noteq> None then slot else ms_actualSlotId before)\<rparr>"

lemma or_opt_if: "or_opt a b = (if a \<noteq> None then a else b)"
  by (cases a) simp_all

lemma ok_patch: "buildCommandOkPatch p (or_else (map_of CANONICAL_TO_LEGACY_STATUS st) MScheduled) slot court (Some a)
    = accepted_state a st court slot p"
  by (cases a) (auto simp: buildCommandOkPatch_def accepted_state_def CANONICAL_TO_LEGACY_STATUS_def Let_def or_opt_if)

lemma optimistic_views:
  assumes "seen_version server tid env i s w = (v, s1, w1)"
  shows "in_flight (optimistic server tid env a i s w) i = Some (en_commandId env)"
    "banner (optimistic server tid env a i s w) i = banner s i"
    "cached_version (optimistic server tid env a i s w) i = cached_version s1 i"
    "shown_state (optimistic server tid env a i s w) i =
       (case ACTION_TO_LEGACY_STATUS a of Some x \<Rightarrow> Some (restatused i x (shown_state s i)) | None \<Rightarrow> shown_state s i)"
proof -
  have "shown_state s1 i = shown_state s i" "banner s1 i = banner s i"
    using assms by (auto simp: seen_version_def Let_def split: option.splits prod.splits)
  then show "in_flight (optimistic server tid env a i s w) i = Some (en_commandId env)"
    "banner (optimistic server tid env a i s w) i = banner s i"
    "cached_version (optimistic server tid env a i s w) i = cached_version s1 i"
    "shown_state (optimistic server tid env a i s w) i =
       (case ACTION_TO_LEGACY_STATUS a of Some x \<Rightarrow> Some (restatused i x (shown_state s i)) | None \<Rightarrow> shown_state s i)"
    using assms by (simp_all add: optimistic_def restatused_def split: option.split)
qed

text \<open>After a rejection: the state and the version the server reads out, each kept as it was where the read
  fails, and on a failed read of the state the status rendered before the press.\<close>

definition corrected ::
  "'w command_server \<Rightarrow> string \<Rightarrow> string \<Rightarrow> match_status \<Rightarrow> match_store \<Rightarrow> 'w \<Rightarrow> match_store \<Rightarrow> 'w \<Rightarrow> bool" where
  "corrected server tid i status_before before w after w' \<longleftrightarrow>
     (case sv_state server tid i w of
        (Some fresh, wr) \<Rightarrow> shown_state after i = Some fresh \<and>
          (case sv_version server tid i wr of
             (Some v, wv) \<Rightarrow> cached_version after i = Some v \<and> w' = wv
           | (None, wv) \<Rightarrow> cached_version after i = cached_version before i \<and> w' = wv)
      | (None, wr) \<Rightarrow> shown_state after i = Some (restatused i status_before (shown_state before i)) \<and>
          cached_version after i = cached_version before i \<and> w' = wr)"

lemma restatused_twice: "restatused i x (Some (restatused i y m)) = restatused i x m"
  by (simp add: restatused_def)

lemma settle_rejected_views:
  assumes "settle_rejected server tid i x t w = (s', w')"
    and "cached_version t i = cached_version before i"
    and "restatused i x (shown_state t i) = restatused i x (shown_state before i)"
  shows "corrected server tid i x before w s' w' \<and> in_flight s' i = in_flight t i \<and> banner s' i = banner t i"
proof -
  obtain r w1 where r: "sv_state server tid i w = (r, w1)" by (cases "sv_state server tid i w")
  obtain q w2 where q: "sv_version server tid i w1 = (q, w2)" by (cases "sv_version server tid i w1")
  show ?thesis
    using assms r q
    by (cases r; cases q) (auto simp: settle_rejected_def corrected_def restatused_def Let_def)
qed

section \<open>Properties\<close>

text \<open>A press touches one match only: whatever a submit answers, the state, the in-flight marker,
  the conflict banner and the cached version of every other match are what they were, and the
  press of someone who may only view changes nothing at all.\<close>

theorem submit_touches_one_match:
  assumes "submit server tid env action i payload s db w = (answer, s', db', w')"
  shows "same_elsewhere i s s' \<and> (\<not> en_canEdit env \<longrightarrow> s' = s \<and> db' = db \<and> w' = w)"
proof (cases "en_canEdit env")
  case True
  obtain cid result where ans: "answer = (cid, result)" by (cases answer)
  obtain w2 where
    "settle_outcome server tid env action i (rendered_status env i) result
       (optimistic server tid env action i s w) w2 = (s', w')"
    using submit_stages[OF True assms[unfolded ans]] by metis
  then have "s' = fst (settle_outcome server tid env action i (rendered_status env i) result
      (optimistic server tid env action i s w) w2)" by simp
  then show ?thesis using True by simp
next
  case False
  then show ?thesis using assms by (simp add: submit_def)
qed

definition offline_server :: "unit command_server" where
  "offline_server = \<lparr>sv_submit = (\<lambda>tid c w. (Inr ''offline'', w)), sv_version = (\<lambda>tid i w. (None, w)),
     sv_state = (\<lambda>tid i w. (None, w))\<rparr>"

definition editor_env :: "unit submit_env" where
  "editor_env = \<lparr>en_canEdit = True, en_commandId = ''c1'', en_now = 5, en_rendered = empty_store, en_meanwhile = id\<rparr>"

theorem submit_touches_one_match_witness:
  "same_elsewhere ''m'' empty_store
     (fst (snd (submit offline_server ''t'' editor_env StartMatch ''m'' [] empty_store [] ())))"
proof -
  obtain ans s' db' w' where
    eq: "submit offline_server ''t'' editor_env StartMatch ''m'' [] empty_store [] () = (ans, s', db', w')"
    by (rule prod_cases4)
  show ?thesis using submit_touches_one_match[OF eq] by (simp add: eq)
qed

text \<open>C2. Every outcome of a press is accounted for, whatever other flushes did to the queue in between.
  If the row still waits when this press's flush reads the queue, the flush answers for it and its
  row is settled by that answer: an accepted command clears the in-flight marker, caches the
  server's version and shows the last rendered state with the server's status, court and slot
  (postponed and off its court after a postponement); a rejected one clears the marker, raises its
  banner and shows the state and version the server then reads out, or the status before the press
  where that read fails; a lost one keeps the marker, the optimistic status and the waiting row. If
  another flush took the row, the press reports that it has no outcome, and marker, optimistic
  status and row stay. No other match is touched.\<close>

theorem submit_outcome_accounted:
  assumes "en_canEdit env" "map_of db (en_commandId env) = None"
    and "seen_version server tid env i s w = (v, s1, w1)"
    and "en_meanwhile env (put_new (sent_command tid env action i payload v) db, w1) = (dm, wm)" "db_wf dm"
    and "flush (submitFn server tid) dm wm = (outs, db2, w2)"
    and "submit server tid env action i payload s db w = ((cid, result), s', db', w')"
  shows "db' = db2 \<and> cid = en_commandId env \<and> same_elsewhere i s s' \<and>
     map_of (put_new (sent_command tid env action i payload v) db) cid = Some (sent_command tid env action i payload v) \<and>
     (case map_of dm cid of
        Some row \<Rightarrow> (if qc_status row = QPending
          then map_of outs cid = Some result \<and> map_of db' cid = Some (mark_command result row)
          else result = NetworkError NO_COMMAND_OUTCOME \<and> map_of db' cid = Some row)
      | None \<Rightarrow> result = NetworkError NO_COMMAND_OUTCOME \<and> map_of db' cid = None) \<and>
     (case result of
        SubmitOk status version court slot \<Rightarrow> in_flight s' i = None \<and> banner s' i = banner s i \<and>
          shown_state s' i = Some (accepted_state action status court slot
            (or_else (shown_state (en_rendered env) i) (bare_match_state i MScheduled))) \<and>
          cached_version s' i = Some version \<and> w' = w2
      | StaleVersion m \<Rightarrow> in_flight s' i = None \<and>
          banner s' i = Some \<lparr>cr_flavour = StaleVersionFlavour, cr_message = m, cr_occurredAt = en_now env\<rparr> \<and>
          corrected server tid i (rendered_status env i) (optimistic server tid env action i s w) w2 s' w'
      | SubmitConflict m \<Rightarrow> in_flight s' i = None \<and>
          banner s' i = Some \<lparr>cr_flavour = ConflictFlavour, cr_message = m, cr_occurredAt = en_now env\<rparr> \<and>
          corrected server tid i (rendered_status env i) (optimistic server tid env action i s w) w2 s' w'
      | NetworkError _ \<Rightarrow> in_flight s' i = Some cid \<and> banner s' i = banner s i \<and>
          shown_state s' i = (case ACTION_TO_LEGACY_STATUS action of
            Some x \<Rightarrow> Some (restatused i x (shown_state s i)) | None \<Rightarrow> shown_state s i) \<and>
          cached_version s' i = cached_version s1 i \<and> w' = w2)"
proof -
  let ?c = "sent_command tid env action i payload v" and ?o = "optimistic server tid env action i s w"
  have cid: "cid = en_commandId env" and db2: "db' = db2"
    and res: "result = or_else (map_of outs cid) (NetworkError NO_COMMAND_OUTCOME)"
    and st: "settle_outcome server tid env action i (rendered_status env i) result ?o w2 = (s', w')"
    using submit_stages[OF assms(1,7)] assms(3,4,6) by (metis prod.inject)+
  have row: "map_of (put_new ?c db) cid = Some ?c"
    using assms(2) by (simp add: put_new_def sent_command_def cid)
  have one: "case map_of dm cid of
        Some row \<Rightarrow> (if qc_status row = QPending
          then map_of outs cid = Some result \<and> map_of db' cid = Some (mark_command result row)
          else result = NetworkError NO_COMMAND_OUTCOME \<and> map_of db' cid = Some row)
      | None \<Rightarrow> result = NetworkError NO_COMMAND_OUTCOME \<and> map_of db' cid = None"
    using flush_of_one[OF assms(5,6), of cid] res by (auto simp: db2 split: option.splits if_splits)
  have elsewhere: "same_elsewhere i s s'"
    using settle_outcome_elsewhere[of i s server tid env action "rendered_status env i" result ?o w2] st by simp
  note o = optimistic_views[OF assms(3)]
  have rejected: "corrected server tid i (rendered_status env i) ?o w2 s' w' \<and> in_flight s' i = None \<and>
      banner s' i = Some \<lparr>cr_flavour = f, cr_message = m, cr_occurredAt = en_now env\<rparr>"
    if "settle_rejected server tid i (rendered_status env i)
          (recordConflict i f m (en_now env) (clearPendingCommand i ?o)) w2 = (s', w')" for f m
    using settle_rejected_views[OF that, of ?o] by simp
  show ?thesis
    using db2 cid elsewhere row one
  proof (intro conjI)
    show "case result of
        SubmitOk status version court slot \<Rightarrow> in_flight s' i = None \<and> banner s' i = banner s i \<and>
          shown_state s' i = Some (accepted_state action status court slot
            (or_else (shown_state (en_rendered env) i) (bare_match_state i MScheduled))) \<and>
          cached_version s' i = Some version \<and> w' = w2
      | StaleVersion m \<Rightarrow> in_flight s' i = None \<and>
          banner s' i = Some \<lparr>cr_flavour = StaleVersionFlavour, cr_message = m, cr_occurredAt = en_now env\<rparr> \<and>
          corrected server tid i (rendered_status env i) ?o w2 s' w'
      | SubmitConflict m \<Rightarrow> in_flight s' i = None \<and>
          banner s' i = Some \<lparr>cr_flavour = ConflictFlavour, cr_message = m, cr_occurredAt = en_now env\<rparr> \<and>
          corrected server tid i (rendered_status env i) ?o w2 s' w'
      | NetworkError _ \<Rightarrow> in_flight s' i = Some cid \<and> banner s' i = banner s i \<and>
          shown_state s' i = (case ACTION_TO_LEGACY_STATUS action of
            Some x \<Rightarrow> Some (restatused i x (shown_state s i)) | None \<Rightarrow> shown_state s i) \<and>
          cached_version s' i = cached_version s1 i \<and> w' = w2"
    proof (cases result)
      case (SubmitOk a b d e)
      then show ?thesis using st o
        by (auto simp: settle_outcome_def Let_def ok_patch shown_state_def[of "en_rendered env"])
    next
      case (StaleVersion m)
      then show ?thesis using st rejected by (simp add: settle_outcome_def)
    next
      case (SubmitConflict m)
      then show ?thesis using st rejected by (simp add: settle_outcome_def)
    next
      case (NetworkError m)
      then show ?thesis using st o cid by (auto simp: settle_outcome_def)
    qed
  qed
qed

definition busy_server :: "unit command_server" where
  "busy_server = \<lparr>sv_submit = (\<lambda>tid c w. (Inl (SubmitConflict ''court taken''), w)),
     sv_version = (\<lambda>tid i w. (Some 3, w)), sv_state = (\<lambda>tid i w. (Some (bare_match_state i MCalled), w))\<rparr>"

theorem submit_outcome_accounted_witness:
  "let s' = fst (snd (submit busy_server ''t'' editor_env StartMatch ''m'' [] empty_store [] ()))
   in shown_state s' ''m'' = Some (bare_match_state ''m'' MCalled) \<and> cached_version s' ''m'' = Some 3 \<and>
      in_flight s' ''m'' = None"
proof -
  let ?c = "sent_command ''t'' editor_env StartMatch ''m'' [] 3"
  obtain ans s' db' w' where
    eq: "submit busy_server ''t'' editor_env StartMatch ''m'' [] empty_store [] () = (ans, s', db', w')"
    by (rule prod_cases4)
  obtain cid result where ans: "ans = (cid, result)" by (cases ans)
  have seen: "seen_version busy_server ''t'' editor_env ''m'' empty_store () =
      (3, setMatchVersion ''m'' 3 empty_store, ())"
    by (simp add: seen_version_def busy_server_def editor_env_def empty_store_def)
  have mid: "en_meanwhile editor_env (put_new ?c [], ()) = ([(''c1'', ?c)], ())"
    by (simp add: editor_env_def put_new_def sent_command_def)
  obtain outs db2 where fl: "flush (submitFn busy_server ''t'') [(''c1'', ?c)] () = (outs, db2, ())"
    by (rule prod_cases3[of "flush (submitFn busy_server ''t'') [(''c1'', ?c)] ()"]) auto
  have pend: "getPending [(''c1'', ?c)] = [?c]"
    by (simp add: getPending_def all_rows_def sent_command_def)
  have outs: "outs = [(''c1'', SubmitConflict ''court taken'')]"
    using fl[unfolded flush_def pend]
    by (simp add: submitFn_def busy_server_def sent_command_def editor_env_def)
  have "en_canEdit editor_env" "map_of [] (en_commandId editor_env) = (None :: queued_command option)"
    "db_wf [(''c1'', ?c)]"
    by (simp_all add: editor_env_def db_wf_def sent_command_def)
  note all = submit_outcome_accounted[OF this(1,2) seen mid this(3) fl eq[unfolded ans]]
  have c1: "cid = ''c1''" using all by (simp add: editor_env_def)
  have "result = SubmitConflict ''court taken''"
    using all[unfolded c1] by (simp add: outs sent_command_def)
  then show ?thesis using all by (simp add: eq corrected_def) (simp add: busy_server_def)
qed

text \<open>A poll never loses what only this client knows: after the merge, a match the server reports
  has the server's state with the postponed flag and the confirmations filled from the local one
  where the server has none, a match it does not report keeps its local state, and no other match
  appears.\<close>

theorem merge_keeps_local_knowledge:
  assumes "distinct (map fst backend)" "distinct (map fst local_states)"
  shows "map_of (mergeMatchStates backend local_states) i =
     (case map_of backend i of
        Some b \<Rightarrow> Some (b\<lparr>ms_postponed := or_opt (ms_postponed b) (Option.bind (map_of local_states i) ms_postponed),
                         ms_playerConfirmations := or_opt (ms_playerConfirmations b)
                           (Option.bind (map_of local_states i) ms_playerConfirmations)\<rparr>)
      | None \<Rightarrow> map_of local_states i)"
proof -
  let ?m = "fold (\<lambda>(k, b) m. AList.update k (merge_one b (map_of local_states k)) m) backend []"
  have "?m = from_entries (map (\<lambda>(k, b). (k, merge_one b (map_of local_states k))) backend)"
    by (simp add: from_entries_def fold_map comp_def split_def)
  also have "\<dots> = map (\<lambda>(k, b). (k, merge_one b (map_of local_states k))) backend"
    using assms(1) by (intro from_entries_distinct) (simp add: comp_def case_prod_beta)
  finally have fm: "?m = map (\<lambda>(k, b). (k, merge_one b (map_of local_states k))) backend" .
  have "map_of (map (\<lambda>(k, b). (k, f k b)) xs) i = map_option (f i) (map_of xs i)"
    for f :: "string \<Rightarrow> match_state_dto \<Rightarrow> match_state_dto" and xs
    by (induction xs) auto
  note m = this[of "\<lambda>k b. merge_one b (map_of local_states k)" backend, folded fm]
  have "map_of (fold (\<lambda>(k, l) m. if map_of m k = None then AList.update k l m else m) ls m0) i =
      (case map_of m0 i of Some x \<Rightarrow> Some x | None \<Rightarrow> map_of ls i)"
    if "distinct (map fst ls)" for ls and m0 :: "(string, match_state_dto) dict"
    using that
  proof (induction ls arbitrary: m0)
    case (Cons a ls)
    obtain k l where a: "a = (k, l)" by (cases a)
    have "map_of ls k = None" using Cons.prems by (simp add: a map_of_eq_None_iff)
    then show ?case using Cons by (auto simp: a split: option.splits)
  qed (simp split: option.split)
  note look = this[OF assms(2), of ?m]
  have "map_of (mergeMatchStates backend local_states) i =
      (case map_option (\<lambda>b. merge_one b (map_of local_states i)) (map_of backend i) of
         Some x \<Rightarrow> Some x | None \<Rightarrow> map_of local_states i)"
    unfolding mergeMatchStates_def Let_def look m ..
  then show ?thesis by (simp add: merge_one_def split: option.split)
qed

theorem merge_keeps_local_knowledge_witness:
  "map_option ms_postponed (map_of (mergeMatchStates [(''m'', bare_match_state ''m'' MCalled)]
     [(''m'', (bare_match_state ''m'' MScheduled)\<lparr>ms_postponed := Some True\<rparr>)]) ''m'') = Some (Some True)"
  using merge_keeps_local_knowledge[of "[(''m'', bare_match_state ''m'' MCalled)]"
      "[(''m'', (bare_match_state ''m'' MScheduled)\<lparr>ms_postponed := Some True\<rparr>)]" "''m''"]
  by (simp add: bare_match_state_def)

section \<open>What the drain does not look at\<close>

text \<open>The request names the tournament of the mounted workspace, whatever tournament the command
  was given in; a drain never clears the marker a lost submit left, because it has no access to the
  store.\<close>

lemma submitFn_ignores_tournament:
  "submitFn server tid (c\<lparr>qc_tournamentId := other\<rparr>) w = submitFn server tid c w"
  by (simp add: submitFn_def)

lemma drain_settles_pending:
  assumes "db_wf db" "drain server tid db w = (db', w')" "c \<in> set (getPending db')"
  obtains d where "d \<in> set (getPending db)" "c = d\<lparr>qc_attempts := qc_attempts d + 1\<rparr>"
proof -
  obtain outs where fl: "flush (submitFn server tid) db w = (outs, db', w')"
    using assms(2) by (metis drain_def prod.collapse)
  have out: "map fst outs = map qc_id (getPending db)"
    and db': "db' = fold (\<lambda>(i, r). settle_command i r) outs db"
    using flush_loop_outcomes[OF fl[unfolded flush_def]] by simp_all
  obtain d r where "d \<in> set (getPending db)" "is_retry r" "c = mark_command r d"
    using meet_commands.pending_after_drain[OF assms(1) out, of c] assms(3) by (auto simp: db')
  then show ?thesis using that by (cases r) auto
qed

end
