(* ===== verification/RunActions.thy ===== *)
theory RunActions
  imports RunModel MatchStateStore
begin

text \<open>
  \<open>modules/operations/runtime/runActions.ts\<close>: the router from a desk action to the one write seam
  of the match's engine. A run of the router is the list of calls it makes; an engine call of the
  bracket resolves to a snapshot (\<open>Some\<close>) that is applied, or fails (\<open>None\<close>) silently.
\<close>

datatype 'd seam_call =
    MeetSubmit match_action string "(string, js_value) dict option"
  | SetCalledBracket string bool
  | BracketStart string
  | BracketResult string "string option"
  | BracketAssignCourt string int int
  | BracketUnassign string
  | BracketClearCourt string
  | OnBracketData 'd

record action_target =
  tg_court :: "int option"
  tg_slot :: "int option"
  tg_winnerSide :: "string option"

definition slotForAssign :: "int \<Rightarrow> run_match list \<Rightarrow> int \<Rightarrow> int" where
  "slotForAssign court matches currentSlot =
     (let courtSlots = List.map_filter rm_plannedSlot
            (filter (\<lambda>m. rm_court m = Some court \<and> \<not> isRunComplete (rm_status m)) matches)
      in fold max courtSlots currentSlot + 1)"

definition apply_dto :: "('d seam_call \<Rightarrow> 'd option) \<Rightarrow> 'd seam_call \<Rightarrow> 'd seam_call list" where
  "apply_dto engine call = call # (case engine call of Some dto \<Rightarrow> [OnBracketData dto] | None \<Rightarrow> [])"

definition slot_value :: "int option \<Rightarrow> js_value list" where
  "slot_value s = (case s of None \<Rightarrow> [] | Some i \<Rightarrow> [JNum i])"

definition runAction ::
  "('d seam_call \<Rightarrow> 'd option) \<Rightarrow> run_match \<Rightarrow> run_action \<Rightarrow> action_target option \<Rightarrow> 'd seam_call list" where
  "runAction engine match kind target =
     (if \<not> can (rm_status match) kind then []
      else
        let court_id = or_else (or_opt (Option.bind target tg_court) (rm_court match)) 0
        in if rm_source match = Meet
           then (case kind of
               Call \<Rightarrow> [MeetSubmit CallToCourt (rm_id match) None]
             | Start \<Rightarrow> [MeetSubmit StartMatch (rm_id match) None]
             | RecordResult \<Rightarrow> [MeetSubmit FinishMatch (rm_id match) None]
             | Assign \<Rightarrow> [MeetSubmit AssignCourt (rm_id match)
                 (Some ((''court_id'', JNum court_id) #
                    map (\<lambda>v. (''time_slot'', v)) (slot_value (Option.bind target tg_slot))))]
             | Postpone \<Rightarrow> [MeetSubmit PostponeMatch (rm_id match) (Some [])]
             | _ \<Rightarrow> [])
           else (case kind of
               Call \<Rightarrow> [SetCalledBracket (rm_id match) True]
             | Start \<Rightarrow> apply_dto engine (BracketStart (rm_id match))
             | RecordResult \<Rightarrow> [BracketResult (rm_id match) (Option.bind target tg_winnerSide)]
             | Assign \<Rightarrow> apply_dto engine (BracketAssignCourt (rm_id match) court_id
                 (or_else (or_opt (Option.bind target tg_slot) (rm_plannedSlot match)) 0))
             | Postpone \<Rightarrow> apply_dto engine (BracketUnassign (rm_id match))
             | ClearCourt \<Rightarrow> apply_dto engine (BracketClearCourt (rm_id match))
             | _ \<Rightarrow> []))"

section \<open>Facts about the router\<close>

fun is_write :: "'d seam_call \<Rightarrow> bool" where
  "is_write (OnBracketData _) = False"
| "is_write _ = True"

fun written_match :: "'d seam_call \<Rightarrow> string option" where
  "written_match (MeetSubmit _ i _) = Some i"
| "written_match (SetCalledBracket i _) = Some i"
| "written_match (BracketStart i) = Some i"
| "written_match (BracketResult i _) = Some i"
| "written_match (BracketAssignCourt i _ _) = Some i"
| "written_match (BracketUnassign i) = Some i"
| "written_match (BracketClearCourt i) = Some i"
| "written_match (OnBracketData _) = None"

lemma apply_dto_writes [simp]: "is_write c \<Longrightarrow> filter is_write (apply_dto engine c) = [c]"
  by (simp add: apply_dto_def split: option.split)

lemma apply_dto_mem:
  "d \<in> set (apply_dto engine c) \<longleftrightarrow> d = c \<or> (\<exists>dto. engine c = Some dto \<and> d = OnBracketData dto)"
  by (auto simp: apply_dto_def split: option.splits)

lemma fold_max_ge: "fold max xs (a :: int) \<ge> a"
proof (induction xs arbitrary: a)
  case (Cons x xs)
  show ?case using Cons[of "max x a"] by simp
qed simp

lemma fold_max_mem: "x \<in> set xs \<Longrightarrow> x \<le> fold max xs (a :: int)"
proof (induction xs arbitrary: a)
  case (Cons y ys)
  then show ?case using fold_max_ge[of "max y a" ys] by (cases "x = y") auto
qed simp

lemma fold_max_choice: "fold max xs (a :: int) = a \<or> fold max xs a \<in> set xs"
proof (induction xs arbitrary: a)
  case (Cons x xs)
  then show ?case using Cons[of "max x a"] by (auto simp: max_def split: if_splits)
qed simp

section \<open>Properties\<close>

text \<open>What a desk action means for a match: the engine and the match it is for, the status the match is to
  have, what becomes of its court and slot, and the winner that is recorded.\<close>

datatype court_effect = KeepsPlace | PlacedAt int "int option" | GivesUpPlace | WithdrawsCourt

record desk_effect =
  de_source :: match_source
  de_match :: string
  de_status :: "match_status option"
  de_court :: court_effect
  de_winner :: "string option"

text \<open>What each call of a seam does, by the contract of the seam: a command of the meet queue aims at the
  status \<open>ACTION_TO_LEGACY_STATUS\<close> gives it, and the bracket calls do what their routes say.\<close>

fun meet_court_effect :: "match_action \<Rightarrow> (string, js_value) dict option \<Rightarrow> court_effect" where
  "meet_court_effect AssignCourt p =
     (case map_of (or_else p []) ''court_id'' of
        Some (JNum c) \<Rightarrow> PlacedAt c (case map_of (or_else p []) ''time_slot'' of Some (JNum s) \<Rightarrow> Some s | _ \<Rightarrow> None)
      | _ \<Rightarrow> KeepsPlace)"
| "meet_court_effect PostponeMatch p = GivesUpPlace"
| "meet_court_effect _ p = KeepsPlace"

fun seam_effect :: "'d seam_call \<Rightarrow> desk_effect option" where
  "seam_effect (MeetSubmit a i p) = Some \<lparr>de_source = Meet, de_match = i,
     de_status = ACTION_TO_LEGACY_STATUS a, de_court = meet_court_effect a p, de_winner = None\<rparr>"
| "seam_effect (SetCalledBracket i on) = Some \<lparr>de_source = Bracket, de_match = i,
     de_status = Some (if on then MCalled else MScheduled), de_court = KeepsPlace, de_winner = None\<rparr>"
| "seam_effect (BracketStart i) = Some \<lparr>de_source = Bracket, de_match = i,
     de_status = Some MStarted, de_court = KeepsPlace, de_winner = None\<rparr>"
| "seam_effect (BracketResult i w) = Some \<lparr>de_source = Bracket, de_match = i,
     de_status = Some MFinished, de_court = KeepsPlace, de_winner = w\<rparr>"
| "seam_effect (BracketAssignCourt i c s) = Some \<lparr>de_source = Bracket, de_match = i,
     de_status = Some MScheduled, de_court = PlacedAt c (Some s), de_winner = None\<rparr>"
| "seam_effect (BracketUnassign i) = Some \<lparr>de_source = Bracket, de_match = i,
     de_status = Some MScheduled, de_court = GivesUpPlace, de_winner = None\<rparr>"
| "seam_effect (BracketClearCourt i) = Some \<lparr>de_source = Bracket, de_match = i,
     de_status = Some MScheduled, de_court = WithdrawsCourt, de_winner = None\<rparr>"
| "seam_effect (OnBracketData d) = None"

text \<open>What the action asks for: the status is the machine's successor; an assignment goes to the court and
  slot named, else to the match's own court (0 without one) and, in the bracket, its planned slot.\<close>

definition desk_intent :: "run_match \<Rightarrow> run_action \<Rightarrow> action_target option \<Rightarrow> desk_effect" where
  "desk_intent m kind target =
     \<lparr>de_source = rm_source m, de_match = rm_id m,
      de_status = map_option toWire (transition (rm_status m) kind),
      de_court =
        (case kind of
           Assign \<Rightarrow> PlacedAt (or_else (or_opt (Option.bind target tg_court) (rm_court m)) 0)
             (if rm_source m = Meet then Option.bind target tg_slot
              else Some (or_else (or_opt (Option.bind target tg_slot) (rm_plannedSlot m)) 0))
         | Postpone \<Rightarrow> GivesUpPlace
         | ClearCourt \<Rightarrow> WithdrawsCourt
         | _ \<Rightarrow> KeepsPlace),
      de_winner = (if kind = RecordResult \<and> rm_source m = Bracket then Option.bind target tg_winnerSide else None)\<rparr>"

text \<open>The calls that resolve with a new snapshot of the bracket.\<close>

fun gives_snapshot :: "'d seam_call \<Rightarrow> bool" where
  "gives_snapshot (BracketStart _) = True"
| "gives_snapshot (BracketAssignCourt _ _ _) = True"
| "gives_snapshot (BracketUnassign _) = True"
| "gives_snapshot (BracketClearCourt _) = True"
| "gives_snapshot _ = False"

text \<open>The events of the table without a desk action, and the one verb a meet has no twin of.\<close>

definition unrouted :: "run_match \<Rightarrow> run_action \<Rightarrow> bool" where
  "unrouted m kind \<longleftrightarrow> kind = Retire \<or> kind = UndoFinish \<or> (kind = ClearCourt \<and> rm_source m = Meet)"

text \<open>C20. The router refines the machine: an action that is not legal in the match's state, and one that
  no seam serves (an event that is no desk action, the withdrawal of a court of a meet match), calls
  nothing; every other one makes exactly one write, whose engine, match, status, court, slot and winner
  are the ones the machine and the press ask for, followed by the snapshot the engine answers with where
  the call has one.\<close>

theorem router_follows_machine:
  "if transition (rm_status m) kind = None \<or> unrouted m kind
   then runAction engine m kind target = []
   else (\<exists>w. runAction engine m kind target =
            w # (if gives_snapshot w then (case engine w of Some dto \<Rightarrow> [OnBracketData dto] | None \<Rightarrow> []) else []) \<and>
          seam_effect w = Some (desk_intent m kind target))"
proof (cases "can (rm_status m) kind")
  case True
  then obtain t where "transition (rm_status m) kind = Some t" by (auto simp: can_def)
  then show ?thesis using True
    by (cases kind; cases "rm_status m"; cases "rm_source m")
       (auto simp: runAction_def Let_def apply_dto_def ACTION_TO_LEGACY_STATUS_def unrouted_def desk_intent_def
         slot_value_def split: option.split)
qed (simp add: runAction_def can_def)

text \<open>A newcomer joins the end of a lane: the slot chosen for an assignment is after now and after
  the planned slot of every unfinished match of the court, and no later than it has to be.\<close>

theorem assigned_slot_is_last:
  "currentSlot < slotForAssign court ms currentSlot \<and>
   (\<forall>m \<in> set ms. rm_court m = Some court \<and> \<not> isRunComplete (rm_status m) \<longrightarrow>
      slot_or_inf (rm_plannedSlot m) = PosInf \<or>
      slot_or_inf (rm_plannedSlot m) < Num (slotForAssign court ms currentSlot)) \<and>
   (slotForAssign court ms currentSlot = currentSlot + 1 \<or>
    (\<exists>m \<in> set ms. rm_court m = Some court \<and> rm_plannedSlot m = Some (slotForAssign court ms currentSlot - 1)))"
proof -
  let ?on = "filter (\<lambda>m. rm_court m = Some court \<and> \<not> isRunComplete (rm_status m)) ms"
  let ?xs = "List.map_filter rm_plannedSlot ?on"
  have eq: "slotForAssign court ms currentSlot = fold max ?xs currentSlot + 1"
    by (simp add: slotForAssign_def Let_def)
  have mem: "s \<in> set ?xs \<longleftrightarrow> (\<exists>m \<in> set ?on. rm_plannedSlot m = Some s)" for s
    by (force simp: List.map_filter_def image_iff)
  have "fold max ?xs currentSlot = currentSlot \<or> fold max ?xs currentSlot \<in> set ?xs"
    by (rule fold_max_choice)
  then have "slotForAssign court ms currentSlot = currentSlot + 1 \<or>
      (\<exists>m \<in> set ms. rm_court m = Some court \<and> rm_plannedSlot m = Some (slotForAssign court ms currentSlot - 1))"
    unfolding eq using mem by auto
  moreover have "slot_or_inf (rm_plannedSlot m) = PosInf \<or>
      slot_or_inf (rm_plannedSlot m) < Num (slotForAssign court ms currentSlot)" if "m \<in> set ?on" for m
  proof (cases "rm_plannedSlot m")
    case (Some s)
    then have "s \<in> set ?xs" using mem that by blast
    then have "s \<le> fold max ?xs currentSlot" by (rule fold_max_mem)
    then show ?thesis by (simp add: Some eq)
  qed simp
  moreover have "currentSlot < slotForAssign court ms currentSlot"
    using fold_max_ge[of currentSlot ?xs] by (simp add: eq)
  ultimately show ?thesis by auto
qed

theorem assigned_slot_is_last_witness:
  "slot_or_inf (Some 1) < Num (slotForAssign 2 [demo_run ''a'' RScheduled (Some 2) []] 0)"
  using assigned_slot_is_last[of 0 2 "[demo_run ''a'' RScheduled (Some 2) []]"]
  by (simp add: demo_run_def isRunComplete_def)

end
