(* ===== verification/BracketQueue.thy ===== *)
theory BracketQueue
  imports CommandQueue OpsBlock
begin

text \<open>
  \<open>lib/bracketCommandQueue.ts\<close>, the queue of bracket results (a module of its own beside the command
  queue: other rows, another \<open>ok\<close> outcome), and \<open>hooks/useBracketResultQueue.ts\<close>, the submission
  of one result. The store keeps the same contract \<open>command_store\<close>, so the facts about draining it
  come from there. \<open>'d\<close> is the server's tournament snapshot, which nothing here looks into.
\<close>

datatype winner_side = SideA | SideB

datatype outcome_reason = Walkover | RetiredOut | Forfeit

record bracket_result_command =
  bc_id :: string
  bc_tournamentId :: string
  bc_matchId :: string
  bc_correction :: "bool option"
  bc_winnerSide :: winner_side
  bc_finishedAtSlot :: "int option"
  bc_walkover :: bool
  bc_reason :: "outcome_reason option"
  bc_score :: "set_score list option"
  bc_seenVersion :: int
  bc_createdAt :: int
  bc_attempts :: int
  bc_status :: command_status
  bc_rejectionReason :: "string option"

datatype 'd bracket_submit_result =
    BracketOk 'd | BracketStale string | BracketConflict string | BracketNetworkError string

type_synonym bracket_db = "(string, bracket_result_command) dict"

type_synonym ('d, 'w) bracket_submit_fn =
  "bracket_result_command \<Rightarrow> 'w \<Rightarrow> ('d bracket_submit_result + string) \<times> 'w"

definition bracket_rows :: "bracket_db \<Rightarrow> bracket_result_command list" where
  "bracket_rows db = map snd (sort_key fst db)"

definition bracket_row ::
  "bracket_result_command \<Rightarrow> int option \<Rightarrow> command_status option \<Rightarrow> bracket_result_command" where
  "bracket_row command attempts status =
     command\<lparr>bc_attempts := or_else attempts 0, bc_status := or_else status QPending\<rparr>"

definition bracket_put_new :: "bracket_result_command \<Rightarrow> bracket_db \<Rightarrow> bracket_db" where
  "bracket_put_new row db = (case map_of db (bc_id row) of
       Some _ \<Rightarrow> db | None \<Rightarrow> AList.update (bc_id row) row db)"

definition bracket_enqueue ::
  "bracket_result_command \<Rightarrow> int option \<Rightarrow> command_status option \<Rightarrow> bracket_db \<Rightarrow> string \<times> bracket_db" where
  "bracket_enqueue command attempts status db =
     (let row = bracket_row command attempts status in (bc_id row, bracket_put_new row db))"

definition bracket_getPending :: "bracket_db \<Rightarrow> bracket_result_command list" where
  "bracket_getPending db =
     sort_key bc_createdAt (filter (\<lambda>c. bc_status c = QPending) (bracket_rows db))"

definition bracket_getById :: "string \<Rightarrow> bracket_db \<Rightarrow> bracket_result_command option" where
  "bracket_getById i db = map_of db i"

definition bracket_markApplied :: "string \<Rightarrow> bracket_db \<Rightarrow> bracket_db" where
  "bracket_markApplied i db = (case map_of db i of
       None \<Rightarrow> db | Some row \<Rightarrow> AList.update i (row\<lparr>bc_status := QApplied\<rparr>) db)"

definition bracket_markRejected :: "string \<Rightarrow> reject_kind \<Rightarrow> string \<Rightarrow> bracket_db \<Rightarrow> bracket_db" where
  "bracket_markRejected i kind reason db = (case map_of db i of
       None \<Rightarrow> db
     | Some row \<Rightarrow> AList.update i
         (row\<lparr>bc_status := (if kind = RejectStale then QRejected else QConflict),
              bc_rejectionReason := Some reason\<rparr>) db)"

definition bracket_markRetryable :: "string \<Rightarrow> bracket_db \<Rightarrow> bracket_db" where
  "bracket_markRetryable i db = (case map_of db i of
       None \<Rightarrow> db | Some row \<Rightarrow> AList.update i (row\<lparr>bc_attempts := bc_attempts row + 1\<rparr>) db)"

fun settle_result :: "string \<Rightarrow> 'd bracket_submit_result \<Rightarrow> bracket_db \<Rightarrow> bracket_db" where
  "settle_result i (BracketOk _) db = bracket_markApplied i db"
| "settle_result i (BracketStale message) db = bracket_markRejected i RejectStale message db"
| "settle_result i (BracketConflict message) db = bracket_markRejected i RejectConflict message db"
| "settle_result i (BracketNetworkError _) db = bracket_markRetryable i db"

fun bracket_flush_loop ::
  "('d, 'w) bracket_submit_fn \<Rightarrow> bracket_result_command list \<Rightarrow> bracket_db \<Rightarrow> 'w \<Rightarrow>
   (string \<times> 'd bracket_submit_result) list \<times> bracket_db \<times> 'w" where
  "bracket_flush_loop submit [] db w = ([], db, w)"
| "bracket_flush_loop submit (command # commands) db w =
     (let (reply, w') = submit command w;
          result = (case reply of Inl r \<Rightarrow> r | Inr message \<Rightarrow> BracketNetworkError message);
          (outcomes, db', w'') =
            bracket_flush_loop submit commands (settle_result (bc_id command) result db) w'
      in ((bc_id command, result) # outcomes, db', w''))"

definition bracket_flush ::
  "('d, 'w) bracket_submit_fn \<Rightarrow> bracket_db \<Rightarrow> 'w \<Rightarrow>
   (string \<times> 'd bracket_submit_result) list \<times> bracket_db \<times> 'w" where
  "bracket_flush submit db w = bracket_flush_loop submit (bracket_getPending db) db w"

section \<open>Submitting one result\<close>

text \<open>The reply of the HTTP client: the snapshot, or an error with the status and the \<open>error\<close>,
  \<open>message\<close> and \<open>detail\<close> fields of the body (a \<open>detail\<close> that is no string is \<open>None\<close>), and the
  text of the thrown value.\<close>

record http_error =
  he_status :: "int option"
  he_error :: "string option"
  he_message :: "string option"
  he_detail :: "string option"
  he_text :: string

definition REFUSED :: string where
  "REFUSED = ''The server refused this result. Reload and review the scores before trying again.''"

definition classify_reply :: "'d + http_error \<Rightarrow> 'd bracket_submit_result" where
  "classify_reply reply =
     (case reply of
        Inl dto \<Rightarrow> BracketOk dto
      | Inr e \<Rightarrow>
          (case he_status e of
             None \<Rightarrow> BracketNetworkError (he_text e)
           | Some status \<Rightarrow>
               if status \<ge> 400 \<and> status < 500 \<and> status \<noteq> 409 \<and> status \<noteq> 429
               then BracketConflict (case he_detail e of
                      Some d \<Rightarrow> d | None \<Rightarrow> or_else (he_message e) REFUSED)
               else if status = 409
               then if he_error e = Some ''stale_version''
                    then BracketStale (or_else (he_message e) ''stale version'')
                    else BracketConflict (or_else (or_opt (he_message e) (he_detail e)) ''conflict'')
               else BracketNetworkError (he_text e)))"

record bracket_result_input =
  bi_matchId :: string
  bi_correction :: "bool option"
  bi_winnerSide :: winner_side
  bi_seenVersion :: int
  bi_finishedAtSlot :: "int option"
  bi_walkover :: "bool option"
  bi_reason :: "outcome_reason option"
  bi_score :: "set_score list option"

text \<open>What the caller's handlers are told, in order.\<close>

datatype 'd handler_call =
    OnOptimistic bracket_result_input | OnSettled 'd | OnConflict reject_kind string

definition result_command ::
  "string \<Rightarrow> string \<Rightarrow> int \<Rightarrow> bracket_result_input \<Rightarrow> bracket_result_command" where
  "result_command commandId tid now input =
     \<lparr>bc_id = commandId, bc_tournamentId = tid, bc_matchId = bi_matchId input,
      bc_correction = bi_correction input, bc_winnerSide = bi_winnerSide input,
      bc_finishedAtSlot = bi_finishedAtSlot input, bc_walkover = or_else (bi_walkover input) False,
      bc_reason = bi_reason input, bc_score = bi_score input, bc_seenVersion = bi_seenVersion input,
      bc_createdAt = now, bc_attempts = 0, bc_status = QPending, bc_rejectionReason = None\<rparr>"

text \<open>The server: recording a command under a tournament, and reading the tournament (\<open>None\<close> when
  the read fails or finds nothing).\<close>

record ('d, 'w) bracket_server =
  bv_record :: "string \<Rightarrow> bracket_result_command \<Rightarrow> 'w \<Rightarrow> ('d + http_error) \<times> 'w"
  bv_bracket :: "string \<Rightarrow> 'w \<Rightarrow> 'd option \<times> 'w"

definition submit_result_fn ::
  "('d, 'w) bracket_server \<Rightarrow> string \<Rightarrow> ('d, 'w) bracket_submit_fn" where
  "submit_result_fn server tid cmd w =
     (let (reply, w') = bv_record server tid cmd w in (Inl (classify_reply reply), w'))"

definition NO_OUTCOME :: string where
  "NO_OUTCOME = ''no outcome: possibly absorbed by a concurrent flush''"

definition submitBracketResult ::
  "('d, 'w) bracket_server \<Rightarrow> string \<Rightarrow> string \<Rightarrow> int \<Rightarrow> bracket_result_input \<Rightarrow> bracket_db \<Rightarrow> 'w \<Rightarrow>
   'd bracket_submit_result \<times> 'd handler_call list \<times> bracket_db \<times> 'w" where
  "submitBracketResult server tid commandId now input db w =
     (let db1 = snd (bracket_enqueue (result_command commandId tid now input) None None db);
          (outcomes, db2, w2) = bracket_flush (submit_result_fn server tid) db1 w;
          result = or_else (map_option snd (find (\<lambda>p. fst p = commandId) outcomes))
                     (BracketNetworkError NO_OUTCOME)
      in (case result of
            BracketOk dto \<Rightarrow> (result, [OnOptimistic input, OnSettled dto], db2, w2)
          | BracketStale message \<Rightarrow>
              (let (fresh, w3) = bv_bracket server tid w2
               in (result, [OnOptimistic input, OnConflict RejectStale message]
                     @ (case fresh of Some dto \<Rightarrow> [OnSettled dto] | None \<Rightarrow> []), db2, w3))
          | BracketConflict message \<Rightarrow>
              (let (fresh, w3) = bv_bracket server tid w2
               in (result, [OnOptimistic input, OnConflict RejectConflict message]
                     @ (case fresh of Some dto \<Rightarrow> [OnSettled dto] | None \<Rightarrow> []), db2, w3))
          | BracketNetworkError _ \<Rightarrow> (result, [OnOptimistic input], db2, w2)))"

section \<open>The store keeps the contract\<close>

definition bracket_wf :: "bracket_db \<Rightarrow> bool" where
  "bracket_wf db \<longleftrightarrow> distinct (map fst db) \<and> (\<forall>(i, c) \<in> set db. bc_id c = i)"

fun mark_result :: "'d bracket_submit_result \<Rightarrow> bracket_result_command \<Rightarrow> bracket_result_command" where
  "mark_result (BracketOk _) c = c\<lparr>bc_status := QApplied\<rparr>"
| "mark_result (BracketStale m) c = c\<lparr>bc_status := QRejected, bc_rejectionReason := Some m\<rparr>"
| "mark_result (BracketConflict m) c = c\<lparr>bc_status := QConflict, bc_rejectionReason := Some m\<rparr>"
| "mark_result (BracketNetworkError _) c = c\<lparr>bc_attempts := bc_attempts c + 1\<rparr>"

fun is_bracket_retry :: "'d bracket_submit_result \<Rightarrow> bool" where
  "is_bracket_retry (BracketNetworkError _) = True"
| "is_bracket_retry _ = False"

lemma settle_result_eq:
  "settle_result i r db =
     (case map_of db i of None \<Rightarrow> db | Some c \<Rightarrow> AList.update i (mark_result r c) db)"
  by (cases r) (simp_all add: bracket_markApplied_def bracket_markRejected_def
      bracket_markRetryable_def split: option.split)

lemma mark_result_fields [simp]:
  "bc_id (mark_result r c) = bc_id c" "bc_createdAt (mark_result r c) = bc_createdAt c"
  "bc_seenVersion (mark_result r c) = bc_seenVersion c" "bc_score (mark_result r c) = bc_score c"
  by (cases r; simp)+

lemma mark_result_pending:
  "bc_status (mark_result r c) = QPending \<longleftrightarrow> bc_status c = QPending \<and> is_bracket_retry r"
  by (cases r) simp_all

lemma bracket_wf_update: "bracket_wf db \<Longrightarrow> bc_id c = i \<Longrightarrow> bracket_wf (AList.update i c db)"
  unfolding bracket_wf_def by (auto simp: distinct_update set_update_distinct)

lemma bracket_wf_lookup: "bracket_wf db \<Longrightarrow> map_of db i = Some c \<Longrightarrow> bc_id c = i"
  unfolding bracket_wf_def by (auto dest: map_of_SomeD)

lemma mem_bracket_rows: "bracket_wf db \<Longrightarrow> c \<in> set (bracket_rows db) \<longleftrightarrow> map_of db (bc_id c) = Some c"
  unfolding bracket_wf_def bracket_rows_def by (force simp: map_of_eq_Some_iff)

lemma distinct_bracket_pending: "bracket_wf db \<Longrightarrow> distinct (map bc_id (bracket_getPending db))"
proof -
  assume wf: "bracket_wf db"
  have "map bc_id (bracket_rows db) = map fst (sort_key fst db)"
    using wf unfolding bracket_rows_def bracket_wf_def by (auto simp: comp_def intro!: map_cong)
  moreover have "distinct (map fst (sort_key fst db))" using wf by (simp add: bracket_wf_def distinct_map)
  ultimately have "distinct (map bc_id (bracket_rows db))" by simp
  then show ?thesis unfolding bracket_getPending_def by (auto simp: distinct_map intro: inj_on_subset)
qed

interpretation bracket_results: command_store
  "\<lambda>db i. map_of db i" bracket_getPending bracket_put_new settle_result bc_id
  "\<lambda>c. bc_status c = QPending" mark_result is_bracket_retry bracket_wf
proof
  fix s :: bracket_db and c and i j :: string and r
  show "bracket_wf s \<Longrightarrow> bracket_wf (bracket_put_new c s)"
    by (simp add: bracket_put_new_def bracket_wf_update split: option.split)
  show "bracket_wf s \<Longrightarrow> bracket_wf (settle_result i r s)"
    using bracket_wf_lookup[of s i]
    by (auto simp: settle_result_eq intro!: bracket_wf_update split: option.split)
  show "bracket_wf s \<Longrightarrow> (c \<in> set (bracket_getPending s)) =
      (map_of s (bc_id c) = Some c \<and> bc_status c = QPending)"
    by (auto simp: bracket_getPending_def mem_bracket_rows)
  show "bracket_wf s \<Longrightarrow> distinct (map bc_id (bracket_getPending s))" by (rule distinct_bracket_pending)
  show "bracket_wf s \<Longrightarrow> map_of s i = Some c \<Longrightarrow> bc_id c = i" by (rule bracket_wf_lookup)
  show "map_of (bracket_put_new c s) i = (if i = bc_id c \<and> map_of s i = None then Some c else map_of s i)"
    by (auto simp: bracket_put_new_def split: option.split)
  show "map_of (settle_result i r s) j =
      (if j = i then map_option (mark_result r) (map_of s i) else map_of s j)"
    by (auto simp: settle_result_eq split: option.split)
  show "bc_id (mark_result r c) = bc_id c" by simp
  show "(bc_status (mark_result r c) = QPending) = (bc_status c = QPending \<and> is_bracket_retry r)"
    by (rule mark_result_pending)
qed

lemma bracket_flush_outcomes:
  "bracket_flush_loop submit cs db w = (outs, db', w') \<Longrightarrow>
   map fst outs = map bc_id cs \<and> db' = fold (\<lambda>(i, r). settle_result i r) outs db"
  by (induction cs arbitrary: db w outs db' w')
     (fastforce simp: Let_def split: prod.splits)+

lemma find_map_of: "map_option snd (find (\<lambda>p. fst p = k) xs) = map_of xs k"
  by (induction xs) auto

section \<open>Properties\<close>

text \<open>A bracket result is retried only when the server did not decide: a reply leaves the command
  in the queue exactly when there was no response at all, or a response that is neither 409 nor
  another client error (429 and the server errors); a version conflict is told apart from every
  other refusal.\<close>

theorem only_undecided_replies_retry:
  "((\<exists>m. classify_reply reply = BracketNetworkError m) \<longleftrightarrow>
     (\<exists>e. reply = Inr e \<and> (case he_status e of None \<Rightarrow> True
        | Some st \<Rightarrow> st = 429 \<or> st < 400 \<or> 500 \<le> st))) \<and>
   ((\<exists>m. classify_reply reply = BracketStale m) \<longleftrightarrow>
     (\<exists>e. reply = Inr e \<and> he_status e = Some 409 \<and> he_error e = Some ''stale_version''))"
  by (auto simp: classify_reply_def split: sum.splits option.splits if_splits)

text \<open>Submitting a bracket result with a fresh id settles it: when the server's reply was a
  decision the command is no longer pending, the caller gets exactly one outcome (the
  authoritative snapshot, or the conflict followed by a refetch), and without a reply the command
  is kept for the next flush and no outcome is claimed.\<close>

theorem submit_result_settles:
  assumes "bracket_wf db" "map_of db commandId = None"
    and "submitBracketResult server tid commandId now input db w = (result, calls, db', w')"
  shows "\<exists>row. map_of db' commandId = Some row \<and> bc_seenVersion row = bi_seenVersion input \<and>
     (case result of
        BracketOk dto \<Rightarrow> bc_status row = QApplied \<and> calls = [OnOptimistic input, OnSettled dto]
      | BracketStale m \<Rightarrow> bc_status row = QRejected \<and> bc_rejectionReason row = Some m \<and>
          take 2 calls = [OnOptimistic input, OnConflict RejectStale m]
      | BracketConflict m \<Rightarrow> bc_status row = QConflict \<and> bc_rejectionReason row = Some m \<and>
          take 2 calls = [OnOptimistic input, OnConflict RejectConflict m]
      | BracketNetworkError _ \<Rightarrow> bc_status row = QPending \<and> bc_attempts row = 1 \<and>
          calls = [OnOptimistic input])"
proof -
  let ?c = "bracket_row (result_command commandId tid now input) None None"
  let ?db1 = "bracket_put_new ?c db"
  have c: "bc_id ?c = commandId" "bc_status ?c = QPending" "bc_seenVersion ?c = bi_seenVersion input"
    "bc_attempts ?c = 0"
    by (simp_all add: bracket_row_def result_command_def)
  obtain outs db2 w2 where fl: "bracket_flush (submit_result_fn server tid) ?db1 w = (outs, db2, w2)"
    by (rule prod_cases3)
  have wf: "bracket_wf ?db1" using assms(1) by (rule bracket_results.wf_add)
  have look: "map_of ?db1 commandId = Some ?c"
    using bracket_results.lookup_add[OF assms(1), of ?c commandId] assms(2) c(1) by simp
  have outs: "map fst outs = map bc_id (bracket_getPending ?db1)"
    and db2: "db2 = fold (\<lambda>(i, r). settle_result i r) outs ?db1"
    using bracket_flush_outcomes[OF fl[unfolded bracket_flush_def]] by simp_all
  have dist: "distinct (map fst outs)" using outs bracket_results.pending_distinct[OF wf] by simp
  have "?c \<in> set (bracket_getPending ?db1)"
    using bracket_results.pending_iff[OF wf, of ?c] look c by simp
  then have "commandId \<in> fst ` set outs" using outs c(1) by (metis image_eqI set_map)
  then obtain r where r: "map_of outs commandId = Some r"
    by (metis map_of_eq_None_iff option.exhaust)
  have row: "map_of db2 commandId = Some (mark_result r ?c)"
    unfolding db2 bracket_results.settles_lookup[OF dist wf] using r look by simp
  have "result = r \<and> db' = db2 \<and> calls = (case r of
      BracketOk dto \<Rightarrow> [OnOptimistic input, OnSettled dto]
    | BracketStale m \<Rightarrow> [OnOptimistic input, OnConflict RejectStale m]
        @ (case fst (bv_bracket server tid w2) of Some dto \<Rightarrow> [OnSettled dto] | None \<Rightarrow> [])
    | BracketConflict m \<Rightarrow> [OnOptimistic input, OnConflict RejectConflict m]
        @ (case fst (bv_bracket server tid w2) of Some dto \<Rightarrow> [OnSettled dto] | None \<Rightarrow> [])
    | BracketNetworkError _ \<Rightarrow> [OnOptimistic input])"
    using assms(3)
    by (cases r) (auto simp: submitBracketResult_def Let_def bracket_enqueue_def fl find_map_of r
        split: prod.splits)
  then show ?thesis using row c by (cases r) auto
qed

definition demo_server :: "(nat, nat) bracket_server" where
  "demo_server = \<lparr>bv_record = (\<lambda>tid c w. (Inr \<lparr>he_status = Some 409, he_error = Some ''stale_version'',
     he_message = Some ''old'', he_detail = None, he_text = []\<rparr>, w + 1)), bv_bracket = (\<lambda>tid w. (Some 7, w))\<rparr>"

definition demo_input :: bracket_result_input where
  "demo_input = \<lparr>bi_matchId = ''m'', bi_correction = None, bi_winnerSide = SideA, bi_seenVersion = 3,
     bi_finishedAtSlot = None, bi_walkover = None, bi_reason = None, bi_score = None\<rparr>"

theorem submit_result_settles_witness:
  "\<exists>row. map_of (fst (snd (snd (submitBracketResult demo_server ''t'' ''c1'' 5 demo_input [] 0)))) ''c1'' = Some row
     \<and> bc_seenVersion row = 3"
proof -
  obtain result calls db' w' where
    eq: "submitBracketResult demo_server ''t'' ''c1'' 5 demo_input [] 0 = (result, calls, db', w')"
    by (rule prod_cases4)
  have "bi_seenVersion demo_input = 3" by (simp add: demo_input_def)
  then show ?thesis using submit_result_settles[OF _ _ eq] by (auto simp: bracket_wf_def eq)
qed

end
