(* ===== verification/TrafficLight.thy ===== *)
theory TrafficLight
  imports TimeSlots MatchIdentity
begin

text \<open>
  \<open>lib/trafficLight.ts\<close>: may a match be called? Red when one of its people is called to or playing
  another match, yellow when one is still resting, green otherwise. A time that \<open>timeToSlot\<close>
  cannot read is \<open>NaN\<close> (\<open>None\<close>); a comparison with it is false.
\<close>

definition getMatchPlayerIds :: "match_dto \<Rightarrow> string list" where
  "getMatchPlayerIds match = md_sideA match @ md_sideB match @ or_else (md_sideC match) []"

definition label_or_unknown :: "string \<Rightarrow> string" where
  "label_or_unknown s = (if s = [] then ''?'' else s)"

text \<open>\<open>getMatchLabel\<close> of \<open>trafficLight.ts\<close>, and the one of \<open>matchUtils.ts\<close>, whose match may be
  missing.\<close>

definition getMatchLabel :: "match_dto \<Rightarrow> string" where
  "getMatchLabel match =
     label_or_unknown (formatMatchIdentity
       (meetMatchIdentityFromStored (md_eventRank match) (md_matchNumber match) []) (Some (md_id match)))"

definition utilMatchLabel :: "match_dto option \<Rightarrow> string option \<Rightarrow> string" where
  "utilMatchLabel match fallbackId =
     label_or_unknown (formatMatchIdentity
       (meetMatchIdentityFromStored (Option.bind match md_eventRank) (Option.bind match md_matchNumber) [])
       (or_opt (map_option md_id match) fallbackId))"

definition excluded :: "string option \<Rightarrow> match_dto \<Rightarrow> bool" where
  "excluded excludeMatchId match \<longleftrightarrow>
     (case excludeMatchId of None \<Rightarrow> False | Some e \<Rightarrow> e \<noteq> [] \<and> md_id match = e)"

definition status_of :: "(string, match_state_dto) dict \<Rightarrow> string \<Rightarrow> match_status option" where
  "status_of matchStates i = map_option ms_status (map_of matchStates i)"

record active_check =
  ac_matchId :: string
  ac_matchLabel :: string
  ac_status :: match_status

fun isPlayerActive ::
  "string \<Rightarrow> (string, match_state_dto) dict \<Rightarrow> match_dto list \<Rightarrow> string option \<Rightarrow> active_check option" where
  "isPlayerActive playerId matchStates [] excludeMatchId = None"
| "isPlayerActive playerId matchStates (match # matches) excludeMatchId =
     (if excluded excludeMatchId match then isPlayerActive playerId matchStates matches excludeMatchId
      else case status_of matchStates (md_id match) of
        Some st \<Rightarrow>
          if (st = MCalled \<or> st = MStarted) \<and> playerId \<in> set (getMatchPlayerIds match)
          then Some \<lparr>ac_matchId = md_id match, ac_matchLabel = getMatchLabel match, ac_status = st\<rparr>
          else isPlayerActive playerId matchStates matches excludeMatchId
      | None \<Rightarrow> isPlayerActive playerId matchStates matches excludeMatchId)"

record finished_match =
  fm_assignment :: schedule_assignment
  fm_state :: match_state_dto
  fm_match :: match_dto

definition actual_end_slot ::
  "match_state_dto \<Rightarrow> schedule_assignment \<Rightarrow> tournament_config \<Rightarrow> int option" where
  "actual_end_slot state assignment config =
     (case ms_actualEndTime state of
        Some t \<Rightarrow> if t \<noteq> [] then timeToSlot t config
                  else Some (as_slotId assignment + as_durationSlots assignment)
      | None \<Rightarrow> Some (as_slotId assignment + as_durationSlots assignment))"

text \<open>One turn of the loop of \<open>findLastFinishedMatch\<close> over (\<open>latestEnd\<close>, \<open>result\<close>).\<close>

definition last_finished_step ::
  "string \<Rightarrow> (string, match_state_dto) dict \<Rightarrow> schedule_dto \<Rightarrow> tournament_config \<Rightarrow> string option \<Rightarrow>
   match_dto \<Rightarrow> int \<times> finished_match option \<Rightarrow> int \<times> finished_match option" where
  "last_finished_step playerId matchStates schedule config excludeMatchId match acc =
     (if excluded excludeMatchId match then acc
      else case map_of matchStates (md_id match) of
        None \<Rightarrow> acc
      | Some state \<Rightarrow>
          if ms_status state \<noteq> MFinished \<or> playerId \<notin> set (getMatchPlayerIds match) then acc
          else case find (\<lambda>a. as_matchId a = md_id match) (sc_assignments schedule) of
            None \<Rightarrow> acc
          | Some assignment \<Rightarrow>
              (case actual_end_slot state assignment config of
                 Some endSlot \<Rightarrow>
                   if endSlot > fst acc
                   then (endSlot, Some \<lparr>fm_assignment = assignment, fm_state = state, fm_match = match\<rparr>)
                   else acc
               | None \<Rightarrow> acc))"

definition findLastFinishedMatch ::
  "string \<Rightarrow> (string, match_state_dto) dict \<Rightarrow> match_dto list \<Rightarrow> schedule_dto \<Rightarrow> tournament_config \<Rightarrow>
   string option \<Rightarrow> finished_match option" where
  "findLastFinishedMatch playerId matchStates matches schedule config excludeMatchId =
     snd (fold (last_finished_step playerId matchStates schedule config excludeMatchId) matches (-1, None))"

record rest_check =
  rc_availableAtSlot :: int
  rc_matchId :: string
  rc_matchLabel :: string

definition restSlotsOf :: "string \<Rightarrow> player_dto list \<Rightarrow> tournament_config \<Rightarrow> int" where
  "restSlotsOf playerId players config =
     (let player = find (\<lambda>p. pd_id p = playerId) players;
          minutes = or_else (Option.bind player pd_minRestMinutes) (cf_defaultRestMinutes config)
      in ceil_div minutes (cf_intervalMinutes config))"

definition isPlayerResting ::
  "string \<Rightarrow> (string, match_state_dto) dict \<Rightarrow> match_dto list \<Rightarrow> player_dto list \<Rightarrow> schedule_dto \<Rightarrow>
   tournament_config \<Rightarrow> int \<Rightarrow> string option \<Rightarrow> rest_check option" where
  "isPlayerResting playerId matchStates matches players schedule config currentSlot excludeMatchId =
     (case findLastFinishedMatch playerId matchStates matches schedule config excludeMatchId of
        None \<Rightarrow> None
      | Some lastFinished \<Rightarrow>
          (case actual_end_slot (fm_state lastFinished) (fm_assignment lastFinished) config of
             None \<Rightarrow> None
           | Some endSlot \<Rightarrow>
               (let availableAtSlot = endSlot + restSlotsOf playerId players config
                in if currentSlot < availableAtSlot
                   then Some \<lparr>rc_availableAtSlot = availableAtSlot,
                              rc_matchId = md_id (fm_match lastFinished),
                              rc_matchLabel = getMatchLabel (fm_match lastFinished)\<rparr>
                   else None)))"

datatype availability = Available | Active | Resting

record player_status =
  ps_playerId :: string
  ps_playerName :: string
  ps_status :: availability
  ps_reason :: "string option"
  ps_matchId :: "string option"
  ps_availableAtSlot :: "int option"

definition plural_slots :: "int \<Rightarrow> string" where
  "plural_slots n = int_text n @ '' slot'' @ (if n \<noteq> 1 then ''s'' else [])"

definition player_status_of ::
  "string \<Rightarrow> schedule_dto \<Rightarrow> match_dto list \<Rightarrow> (string, match_state_dto) dict \<Rightarrow> player_dto list \<Rightarrow>
   tournament_config \<Rightarrow> int \<Rightarrow> string \<Rightarrow> player_status" where
  "player_status_of matchId schedule matches matchStates players config currentSlot playerId =
     (let found = find (\<lambda>p. pd_id p = playerId) players;
          playerName = (case found of Some p \<Rightarrow> if pd_name p = [] then playerId else pd_name p
                        | None \<Rightarrow> playerId)
      in case isPlayerActive playerId matchStates matches (Some matchId) of
           Some a \<Rightarrow> \<lparr>ps_playerId = playerId, ps_playerName = playerName, ps_status = Active,
             ps_reason = Some ((if ac_status a = MCalled then ''Called to'' else ''Playing'')
                               @ '' '' @ ac_matchLabel a),
             ps_matchId = Some (ac_matchId a), ps_availableAtSlot = None\<rparr>
         | None \<Rightarrow>
             (case isPlayerResting playerId matchStates matches players schedule config currentSlot
                     (Some matchId) of
                Some r \<Rightarrow> \<lparr>ps_playerId = playerId, ps_playerName = playerName, ps_status = Resting,
                  ps_reason = Some (''Resting after '' @ rc_matchLabel r @ '' (''
                    @ plural_slots (rc_availableAtSlot r - currentSlot) @ '' remaining)''),
                  ps_matchId = Some (rc_matchId r), ps_availableAtSlot = Some (rc_availableAtSlot r)\<rparr>
              | None \<Rightarrow> \<lparr>ps_playerId = playerId, ps_playerName = playerName, ps_status = Available,
                  ps_reason = None, ps_matchId = None, ps_availableAtSlot = None\<rparr>))"

definition getPlayerStatuses ::
  "string \<Rightarrow> schedule_dto \<Rightarrow> match_dto list \<Rightarrow> (string, match_state_dto) dict \<Rightarrow> player_dto list \<Rightarrow>
   tournament_config \<Rightarrow> int \<Rightarrow> player_status list" where
  "getPlayerStatuses matchId schedule matches matchStates players config currentSlot =
     (case find (\<lambda>m. md_id m = matchId) matches of
        None \<Rightarrow> []
      | Some match \<Rightarrow>
          map (player_status_of matchId schedule matches matchStates players config currentSlot)
            (getMatchPlayerIds match))"

datatype traffic_light = Green | Yellow | Red

record traffic_light_result =
  tl_status :: traffic_light
  tl_reason :: "string option"
  tl_blockedBy :: "string list option"
  tl_playersBlocked :: "string list option"
  tl_playersResting :: "string list option"
  tl_availableInSlots :: "int option"

definition green_light :: "string option \<Rightarrow> traffic_light_result" where
  "green_light reason = \<lparr>tl_status = Green, tl_reason = reason, tl_blockedBy = None,
     tl_playersBlocked = None, tl_playersResting = None, tl_availableInSlots = None\<rparr>"

definition red_light :: "player_status list \<Rightarrow> traffic_light_result" where
  "red_light activePlayers =
     (let names = map ps_playerName activePlayers
      in \<lparr>tl_status = Red,
          tl_reason = Some (if length activePlayers = 1
             then hd names @ '' is '' @ or_else (ps_reason (hd activePlayers)) []
             else join_with ''; '' (map (\<lambda>p. ps_playerName p @ '': '' @ or_else (ps_reason p) []) activePlayers)),
          tl_blockedBy = Some (filter (\<lambda>i. i \<noteq> []) (List.map_filter ps_matchId activePlayers)),
          tl_playersBlocked = Some names, tl_playersResting = None, tl_availableInSlots = None\<rparr>)"

text \<open>\<open>Math.max\<close> of the players' slots: the list is not empty.\<close>

definition earliest_of :: "player_status list \<Rightarrow> int" where
  "earliest_of restingPlayers =
     (case map (\<lambda>p. or_else (ps_availableAtSlot p) 0) restingPlayers of
        [] \<Rightarrow> 0 | x # xs \<Rightarrow> fold max xs x)"

definition yellow_light :: "player_status list \<Rightarrow> int \<Rightarrow> traffic_light_result" where
  "yellow_light restingPlayers currentSlot =
     (let names = map ps_playerName restingPlayers;
          earliestAvailable = earliest_of restingPlayers
      in \<lparr>tl_status = Yellow,
          tl_reason = Some (if length restingPlayers = 1
             then hd names @ '' is '' @ or_else (ps_reason (hd restingPlayers)) []
             else join_with '' & '' names @ '' are resting (''
                  @ plural_slots (earliestAvailable - currentSlot) @ '')''),
          tl_blockedBy = None, tl_playersBlocked = None, tl_playersResting = Some names,
          tl_availableInSlots = Some (earliestAvailable - currentSlot)\<rparr>)"

definition computeTrafficLight ::
  "string \<Rightarrow> schedule_dto \<Rightarrow> match_dto list \<Rightarrow> (string, match_state_dto) dict \<Rightarrow> player_dto list \<Rightarrow>
   tournament_config \<Rightarrow> int \<Rightarrow> traffic_light_result" where
  "computeTrafficLight matchId schedule matches matchStates players config currentSlot =
     (let st = status_of matchStates matchId
      in if st = Some MStarted \<or> st = Some MFinished then green_light None
         else if st = Some MCalled then green_light (Some ''Already called'')
         else (let playerStatuses =
                     getPlayerStatuses matchId schedule matches matchStates players config currentSlot;
                   activePlayers = filter (\<lambda>p. ps_status p = Active) playerStatuses;
                   restingPlayers = filter (\<lambda>p. ps_status p = Resting) playerStatuses
               in if length activePlayers > 0 then red_light activePlayers
                  else if length restingPlayers > 0 then yellow_light restingPlayers currentSlot
                  else green_light (Some ''Ready to call'')))"

definition computeAllTrafficLights ::
  "schedule_dto option \<Rightarrow> match_dto list \<Rightarrow> (string, match_state_dto) dict \<Rightarrow> player_dto list \<Rightarrow>
   tournament_config option \<Rightarrow> int \<Rightarrow> (string, traffic_light_result) dict" where
  "computeAllTrafficLights schedule matches matchStates players config currentSlot =
     (case (schedule, config) of
        (Some sched, Some c) \<Rightarrow>
          fold (\<lambda>a. AList.update (as_matchId a)
                 (computeTrafficLight (as_matchId a) sched matches matchStates players c currentSlot))
            (sc_assignments sched) []
      | _ \<Rightarrow> [])"

section \<open>Facts about the light\<close>

definition committed :: "(string, match_state_dto) dict \<Rightarrow> string \<Rightarrow> match_dto \<Rightarrow> bool" where
  "committed matchStates p m \<longleftrightarrow>
     (status_of matchStates (md_id m) = Some MCalled \<or> status_of matchStates (md_id m) = Some MStarted) \<and>
     p \<in> set (getMatchPlayerIds m)"

lemma isPlayerActive_iff:
  "isPlayerActive p states ms ex \<noteq> None \<longleftrightarrow> (\<exists>m \<in> set ms. \<not> excluded ex m \<and> committed states p m)"
  by (induction p states ms ex rule: isPlayerActive.induct)
     (auto simp: committed_def split: option.splits)

text \<open>The slot a player is free again, if a finished match of theirs says so.\<close>

definition rested_at ::
  "string \<Rightarrow> (string, match_state_dto) dict \<Rightarrow> match_dto list \<Rightarrow> player_dto list \<Rightarrow> schedule_dto \<Rightarrow>
   tournament_config \<Rightarrow> string option \<Rightarrow> int option" where
  "rested_at p states ms players sched c ex =
     (case findLastFinishedMatch p states ms sched c ex of
        None \<Rightarrow> None
      | Some f \<Rightarrow> map_option (\<lambda>e. e + restSlotsOf p players c) (actual_end_slot (fm_state f) (fm_assignment f) c))"

lemma isPlayerResting_slot:
  "map_option rc_availableAtSlot (isPlayerResting p states ms players sched c now ex) =
     (case rested_at p states ms players sched c ex of
        None \<Rightarrow> None | Some a \<Rightarrow> if now < a then Some a else None)"
  by (simp add: isPlayerResting_def rested_at_def Let_def split: option.split)

lemma resting_iff:
  "isPlayerResting p states ms players sched c now ex \<noteq> None \<longleftrightarrow>
     (\<exists>a. rested_at p states ms players sched c ex = Some a \<and> now < a)"
  using isPlayerResting_slot[of p states ms players sched c now ex] by (auto split: option.splits if_splits)

lemma player_status_cases:
  "ps_status (player_status_of i sched ms states players c now p) =
     (if isPlayerActive p states ms (Some i) \<noteq> None then Active
      else if isPlayerResting p states ms players sched c now (Some i) \<noteq> None then Resting
      else Available)"
  by (simp add: player_status_of_def Let_def split: option.split)

lemma player_status_slot:
  assumes "isPlayerActive p states ms (Some i) = None"
    "isPlayerResting p states ms players sched c now (Some i) \<noteq> None"
  shows "ps_availableAtSlot (player_status_of i sched ms states players c now p) =
     rested_at p states ms players sched c (Some i)"
proof -
  obtain r where r: "isPlayerResting p states ms players sched c now (Some i) = Some r" using assms(2) by blast
  then have "rested_at p states ms players sched c (Some i) = Some (rc_availableAtSlot r)"
    using isPlayerResting_slot[of p states ms players sched c now "Some i"] by (auto split: option.splits if_splits)
  then show ?thesis using assms(1) r by (simp add: player_status_of_def Let_def)
qed

text \<open>The people of the match whose light it is.\<close>

definition people_of :: "string \<Rightarrow> match_dto list \<Rightarrow> string list" where
  "people_of i ms = (case find (\<lambda>m. md_id m = i) ms of None \<Rightarrow> [] | Some m \<Rightarrow> getMatchPlayerIds m)"

lemma getPlayerStatuses_map:
  "getPlayerStatuses i sched ms states players c now =
     map (player_status_of i sched ms states players c now) (people_of i ms)"
  by (simp add: getPlayerStatuses_def people_of_def split: option.split)

definition undecided :: "(string, match_state_dto) dict \<Rightarrow> string \<Rightarrow> bool" where
  "undecided states i \<longleftrightarrow> status_of states i \<notin> {Some MStarted, Some MFinished, Some MCalled}"

definition is_active :: "string \<Rightarrow> (string, match_state_dto) dict \<Rightarrow> match_dto list \<Rightarrow> string \<Rightarrow> bool" where
  "is_active i states ms p \<longleftrightarrow> isPlayerActive p states ms (Some i) \<noteq> None"

definition is_resting ::
  "string \<Rightarrow> (string, match_state_dto) dict \<Rightarrow> match_dto list \<Rightarrow> player_dto list \<Rightarrow> schedule_dto \<Rightarrow>
   tournament_config \<Rightarrow> int \<Rightarrow> string \<Rightarrow> bool" where
  "is_resting i states ms players sched c now p \<longleftrightarrow>
     (\<exists>a. rested_at p states ms players sched c (Some i) = Some a \<and> now < a)"

lemma light_status:
  "tl_status (computeTrafficLight i sched ms states players c now) =
     (if \<not> undecided states i then Green
      else if list_ex (is_active i states ms) (people_of i ms) then Red
      else if list_ex (is_resting i states ms players sched c now) (people_of i ms) then Yellow
      else Green)"
proof -
  have act: "length (filter (\<lambda>p. ps_status p = Active) (getPlayerStatuses i sched ms states players c now)) > 0
      \<longleftrightarrow> list_ex (is_active i states ms) (people_of i ms)"
    by (auto simp: getPlayerStatuses_map list_ex_iff filter_empty_conv is_active_def player_status_cases)
  have rest: "length (filter (\<lambda>p. ps_status p = Resting) (getPlayerStatuses i sched ms states players c now)) > 0
      \<longleftrightarrow> list_ex (is_resting i states ms players sched c now) (people_of i ms)"
    if "\<not> list_ex (is_active i states ms) (people_of i ms)"
    using that unfolding list_ex_iff is_resting_def resting_iff[symmetric] is_active_def
    by (auto simp: getPlayerStatuses_map filter_empty_conv player_status_cases)
  show ?thesis
    unfolding computeTrafficLight_def Let_def act
    using rest by (auto simp: undecided_def green_light_def red_light_def yellow_light_def Let_def)
qed

lemma excluded_own: "i \<noteq> [] \<Longrightarrow> excluded (Some i) m \<longleftrightarrow> md_id m = i"
  by (simp add: excluded_def)

lemma fold_max_least: "fold max xs (x :: int) > t \<longleftrightarrow> x > t \<or> (\<exists>y \<in> set xs. y > t)"
  by (induction xs arbitrary: x) (auto simp: less_max_iff_disj)

lemma earliest_of_gt:
  "ps \<noteq> [] \<Longrightarrow> earliest_of ps > t \<longleftrightarrow> (\<exists>p \<in> set ps. or_else (ps_availableAtSlot p) 0 > t)"
  by (cases ps) (auto simp: earliest_of_def fold_max_least)

lemma yellow_available:
  assumes "tl_status (computeTrafficLight i sched ms states players c now) = Yellow"
  obtains e where
    "tl_availableInSlots (computeTrafficLight i sched ms states players c now) = Some (e - now)"
    "\<And>t. now \<le> t \<Longrightarrow> e > t \<longleftrightarrow> list_ex (is_resting i states ms players sched c t) (people_of i ms)"
proof -
  let ?rest = "filter (\<lambda>p. ps_status p = Resting) (getPlayerStatuses i sched ms states players c now)"
  have und: "undecided states i" and noact: "\<not> list_ex (is_active i states ms) (people_of i ms)"
    using assms unfolding light_status by (auto split: if_splits)
  have na: "isPlayerActive p states ms (Some i) = None" if "p \<in> set (people_of i ms)" for p
    using noact that by (auto simp: list_ex_iff is_active_def)
  have light: "computeTrafficLight i sched ms states players c now = yellow_light ?rest now" and ne: "?rest \<noteq> []"
    using assms und noact
    by (auto simp: computeTrafficLight_def Let_def undecided_def green_light_def red_light_def
        split: if_splits)
  have "tl_availableInSlots (computeTrafficLight i sched ms states players c now) = Some (earliest_of ?rest - now)"
    unfolding light by (simp add: yellow_light_def Let_def)
  moreover have "earliest_of ?rest > t \<longleftrightarrow> list_ex (is_resting i states ms players sched c t) (people_of i ms)"
    if "now \<le> t" for t
  proof -
    have slot: "ps_availableAtSlot (player_status_of i sched ms states players c now p) =
        rested_at p states ms players sched c (Some i)"
      if "p \<in> set (people_of i ms)" "is_resting i states ms players sched c now p" for p
      by (rule player_status_slot[OF na[OF that(1)]]) (use that(2) in \<open>simp only: is_resting_def resting_iff\<close>)
    have "p \<in> set (people_of i ms) \<Longrightarrow>
        ps_status (player_status_of i sched ms states players c now p) = Resting \<longleftrightarrow>
        is_resting i states ms players sched c now p" for p
      using na[of p] by (simp add: player_status_cases is_resting_def resting_iff[symmetric] del: not_None_eq)
    then have mem: "x \<in> set ?rest \<longleftrightarrow> (\<exists>p \<in> set (people_of i ms). is_resting i states ms players sched c now p \<and>
        x = player_status_of i sched ms states players c now p)" for x
      by (auto simp: getPlayerStatuses_map)
    have "earliest_of ?rest > t \<longleftrightarrow> (\<exists>p \<in> set (people_of i ms). is_resting i states ms players sched c now p \<and>
        or_else (rested_at p states ms players sched c (Some i)) 0 > t)"
      unfolding earliest_of_gt[OF ne] using mem slot by (metis (no_types, lifting))
    also have "\<dots> \<longleftrightarrow> (\<exists>p \<in> set (people_of i ms). is_resting i states ms players sched c t p)"
      using \<open>now \<le> t\<close> by (force simp: is_resting_def)
    finally show ?thesis by (simp add: list_ex_iff)
  qed
  ultimately show ?thesis using that by blast
qed

lemma unreadable_end_never_counts:
  assumes "\<forall>s \<in> snd ` set states. ms_status s = MFinished \<longrightarrow>
     (\<exists>t. ms_actualEndTime s = Some t \<and> t \<noteq> [] \<and> timeToSlot t c = None)"
  shows "findLastFinishedMatch p states ms sched c ex = None"
proof -
  have step: "last_finished_step p states sched c ex m acc = acc" for m acc
  proof (cases "map_of states (md_id m)")
    case (Some st)
    then have "st \<in> snd ` set states" by (force dest: map_of_SomeD)
    then show ?thesis using assms Some
      by (auto simp: last_finished_step_def actual_end_slot_def split: option.split)
  qed (simp add: last_finished_step_def)
  have "fold (last_finished_step p states sched c ex) ms acc = acc" for acc
    by (induction ms) (simp_all add: step)
  then show ?thesis by (simp add: findLastFinishedMatch_def)
qed

section \<open>Properties\<close>

text \<open>Red means a person is needed elsewhere: the light of a match that is not yet under way is red
  exactly when one of its people is in another match that is called or in play.\<close>

theorem red_iff_committed_elsewhere:
  assumes "i \<noteq> []" "find (\<lambda>m. md_id m = i) ms = Some match"
    and "status_of states i \<notin> {Some MStarted, Some MFinished, Some MCalled}"
  shows "tl_status (computeTrafficLight i sched ms states players c now) = Red \<longleftrightarrow>
     (\<exists>p \<in> set (getMatchPlayerIds match). \<exists>m \<in> set ms. md_id m \<noteq> i \<and>
        (status_of states (md_id m) = Some MCalled \<or> status_of states (md_id m) = Some MStarted) \<and>
        p \<in> set (getMatchPlayerIds m))"
proof -
  have "people_of i ms = getMatchPlayerIds match" using assms(2) by (simp add: people_of_def)
  then show ?thesis unfolding light_status list_ex_iff is_active_def isPlayerActive_iff
    using assms(1,3) by (auto simp: undecided_def committed_def excluded_own)
qed

definition demo_meet :: "string \<Rightarrow> string list \<Rightarrow> string list \<Rightarrow> match_dto" where
  "demo_meet i a b = \<lparr>md_id = i, md_matchNumber = Some 1, md_sideA = a, md_sideB = b, md_sideC = None,
     md_eventRank = None, md_durationSlots = 1\<rparr>"

definition demo_schedule :: "schedule_assignment list \<Rightarrow> schedule_dto" where
  "demo_schedule as = \<lparr>sc_assignments = as, sc_candidates = None, sc_activeCandidateIndex = None\<rparr>"

theorem red_iff_committed_elsewhere_witness:
  "tl_status (computeTrafficLight ''a'' (demo_schedule []) [demo_meet ''a'' [''p''] [''q''], demo_meet ''b'' [''p''] [''r'']]
     [(''b'', bare_match_state ''b'' MStarted)] [] night_config 0) = Red"
  using red_iff_committed_elsewhere[of "''a''" "[demo_meet ''a'' [''p''] [''q''], demo_meet ''b'' [''p''] [''r'']]"
      "demo_meet ''a'' [''p''] [''q'']" "[(''b'', bare_match_state ''b'' MStarted)]" "demo_schedule []" "[]"
      night_config 0]
  by (simp add: demo_meet_def getMatchPlayerIds_def status_of_def bare_match_state_def)

text \<open>The yellow countdown is exact: when a yellow light says so many slots, the light stays yellow
  for that many slots and is green from then on, as long as nothing else changes.\<close>

theorem yellow_countdown_exact:
  assumes "tl_status (computeTrafficLight i sched ms states players c now) = Yellow" "0 \<le> n"
  shows "\<exists>k. tl_availableInSlots (computeTrafficLight i sched ms states players c now) = Some k \<and> 0 < k \<and>
     tl_status (computeTrafficLight i sched ms states players c (now + n)) = (if n < k then Yellow else Green)"
proof -
  obtain e where e: "tl_availableInSlots (computeTrafficLight i sched ms states players c now) = Some (e - now)"
    "\<And>t. now \<le> t \<Longrightarrow> e > t \<longleftrightarrow> list_ex (is_resting i states ms players sched c t) (people_of i ms)"
    using yellow_available[OF assms(1)] by blast
  have und: "undecided states i" "\<not> list_ex (is_active i states ms) (people_of i ms)"
    "list_ex (is_resting i states ms players sched c now) (people_of i ms)"
    using assms(1) unfolding light_status by (auto split: if_splits)
  have "0 < e - now" using e(2)[of now] und(3) by simp
  moreover have "tl_status (computeTrafficLight i sched ms states players c (now + n)) =
      (if n < e - now then Yellow else Green)"
    unfolding light_status using und e(2)[of "now + n"] assms(2) by auto
  ultimately show ?thesis using e(1) by blast
qed

definition demo_rest_states :: "(string, match_state_dto) dict" where
  "demo_rest_states = [(''b'', bare_match_state ''b'' MFinished)]"

definition demo_rest_matches :: "match_dto list" where
  "demo_rest_matches = [demo_meet ''a'' [''p''] [''q''], demo_meet ''b'' [''p''] [''r'']]"

definition demo_rest_schedule :: schedule_dto where
  "demo_rest_schedule = demo_schedule [\<lparr>as_matchId = ''b'', as_slotId = 0, as_courtId = 1, as_durationSlots = 1\<rparr>]"

lemma demo_rested_at:
  "rested_at p demo_rest_states demo_rest_matches [] demo_rest_schedule night_config (Some ''a'') =
     (if p \<in> {''p'', ''r''} then Some 2 else None)"
  by (simp add: rested_at_def findLastFinishedMatch_def last_finished_step_def demo_rest_states_def
      demo_rest_matches_def demo_rest_schedule_def demo_schedule_def demo_meet_def bare_match_state_def
      excluded_def getMatchPlayerIds_def actual_end_slot_def restSlotsOf_def night_config_def ceil_div_def)

lemma demo_rest_yellow:
  "tl_status (computeTrafficLight ''a'' demo_rest_schedule demo_rest_matches demo_rest_states [] night_config 0) = Yellow"
  unfolding light_status list_ex_iff is_active_def isPlayerActive_iff is_resting_def demo_rested_at
  by (simp add: undecided_def status_of_def committed_def demo_rest_states_def demo_rest_matches_def
      people_of_def demo_meet_def getMatchPlayerIds_def bare_match_state_def)

theorem yellow_countdown_exact_witness:
  "tl_status (computeTrafficLight ''a'' demo_rest_schedule demo_rest_matches demo_rest_states [] night_config (0 + 5))
     \<noteq> Red"
  using yellow_countdown_exact[OF demo_rest_yellow, of 5] by (auto split: if_splits)

text \<open>The rest window needs a clock time: when every finished match carries an end stamp that is
  not of the form hours and minutes (an ISO instant, which is what the live tracker writes), no
  player is ever found resting and no light is ever yellow.\<close>

theorem iso_end_stamps_never_yellow:
  assumes "\<forall>s \<in> snd ` set states. ms_status s = MFinished \<longrightarrow>
     (\<exists>t. ms_actualEndTime s = Some t \<and> t \<noteq> [] \<and> timeToMinutes t = None)"
  shows "tl_status (computeTrafficLight i sched ms states players c now) \<noteq> Yellow"
proof -
  have "\<forall>s \<in> snd ` set states. ms_status s = MFinished \<longrightarrow>
      (\<exists>t. ms_actualEndTime s = Some t \<and> t \<noteq> [] \<and> timeToSlot t c = None)"
    using assms by (fastforce simp: timeToSlot_def Let_def)
  note none = unreadable_end_never_counts[OF this]
  have "\<not> is_resting i states ms players sched c now p" for p
    by (simp add: is_resting_def rested_at_def none)
  then show ?thesis unfolding light_status by (simp add: list_ex_iff)
qed

definition iso_end :: string where
  "iso_end = ''2026-07-02T10:30:00Z''"

lemma iso_end_unreadable: "timeToMinutes iso_end = None"
  by (simp add: timeToMinutes_def iso_end_def split_on_def js_number_def trim_def all_digits_def
      is_digit_def js_space_def Let_def)

theorem iso_end_stamps_never_yellow_witness:
  "tl_status (computeTrafficLight ''a'' demo_rest_schedule demo_rest_matches
     [(''b'', (bare_match_state ''b'' MFinished)\<lparr>ms_actualEndTime := Some iso_end\<rparr>)] [] night_config 0) \<noteq> Yellow"
proof (rule iso_end_stamps_never_yellow)
  have "iso_end \<noteq> []" by (simp add: iso_end_def)
  then show "\<forall>s \<in> snd ` set [(''b'', (bare_match_state ''b'' MFinished)\<lparr>ms_actualEndTime := Some iso_end\<rparr>)].
      ms_status s = MFinished \<longrightarrow> (\<exists>t. ms_actualEndTime s = Some t \<and> t \<noteq> [] \<and> timeToMinutes t = None)"
    using iso_end_unreadable by simp
qed

end
