(* ===== verification/ConstraintChecker.thy ===== *)
theory ConstraintChecker
  imports TrafficLight
begin

text \<open>
  \<open>lib/constraintChecker.ts\<close>: the violations of a schedule the client paints, per player (overlap,
  rest between neighbouring matches) and per court and slot.
\<close>

datatype violation_type = Overlap | Rest | CourtCapacity

datatype severity = Hard | Soft

record constraint_violation =
  cv_type :: violation_type
  cv_severity :: severity
  cv_playerIds :: "string list"
  cv_matchIds :: "string list"
  cv_description :: string

record player_slot =
  sl_start :: int
  sl_end :: int
  sl_matchId :: string

definition checkerLabel :: "match_dto option \<Rightarrow> string option \<Rightarrow> string" where
  "checkerLabel match fallbackId =
     label_or_unknown (formatMatchIdentity
       (meetMatchIdentityFromStored
          (if Option.bind match md_matchNumber \<noteq> None then None else Option.bind match md_eventRank)
          (Option.bind match md_matchNumber) [])
       (or_opt (map_option md_id match) fallbackId))"

text \<open>The pairs the double loop of \<open>buildPlayerSlots\<close> pushes, in order.\<close>

definition slot_entries ::
  "schedule_assignment list \<Rightarrow> (string, match_dto) dict \<Rightarrow> (string \<times> player_slot) list" where
  "slot_entries assignments matchMap =
     concat (map (\<lambda>a. case map_of matchMap (as_matchId a) of
          None \<Rightarrow> []
        | Some match \<Rightarrow> map (\<lambda>playerId. (playerId,
            \<lparr>sl_start = as_slotId a, sl_end = as_slotId a + as_durationSlots a,
             sl_matchId = as_matchId a\<rparr>)) (getMatchPlayerIds match)) assignments)"

definition buildPlayerSlots ::
  "schedule_assignment list \<Rightarrow> (string, match_dto) dict \<Rightarrow> (string, player_slot list) dict" where
  "buildPlayerSlots assignments matchMap =
     map (\<lambda>(p, entries). (p, map snd entries))
       (group_by (\<lambda>(p, _). Some p) (slot_entries assignments matchMap))"

text \<open>The loop over \<open>i\<close> and \<open>i + 1\<close>.\<close>

definition neighbours :: "'a list \<Rightarrow> ('a \<times> 'a) list" where
  "neighbours xs = zip xs (tl xs)"

definition overlap_violation ::
  "(string, match_dto) dict \<Rightarrow> string \<Rightarrow> player_slot \<times> player_slot \<Rightarrow> constraint_violation" where
  "overlap_violation matchMap playerId = (\<lambda>(s, t).
     \<lparr>cv_type = Overlap, cv_severity = Hard, cv_playerIds = [playerId],
      cv_matchIds = [sl_matchId s, sl_matchId t],
      cv_description = ''Player overlap in ''
        @ checkerLabel (map_of matchMap (sl_matchId s)) (Some (sl_matchId s)) @ '' and ''
        @ checkerLabel (map_of matchMap (sl_matchId t)) (Some (sl_matchId t))\<rparr>)"

definition checkPlayerOverlap ::
  "schedule_assignment list \<Rightarrow> (string, match_dto) dict \<Rightarrow> constraint_violation list" where
  "checkPlayerOverlap assignments matchMap =
     concat (map (\<lambda>(playerId, slots).
         map (overlap_violation matchMap playerId)
           (filter (\<lambda>(s, t). sl_end s > sl_start t) (neighbours (sort_key sl_start slots))))
       (buildPlayerSlots assignments matchMap))"

text \<open>A rest of zero minutes is falsy, so it falls back to the default.\<close>

definition checker_rest_slots ::
  "(string, player_dto) dict \<Rightarrow> tournament_config \<Rightarrow> string \<Rightarrow> int" where
  "checker_rest_slots playerMap config playerId =
     (case Option.bind (map_of playerMap playerId) pd_minRestMinutes of
        Some minutes \<Rightarrow>
          if minutes \<noteq> 0 then ceil_div minutes (cf_intervalMinutes config)
          else ceil_div (cf_defaultRestMinutes config) (cf_intervalMinutes config)
      | None \<Rightarrow> ceil_div (cf_defaultRestMinutes config) (cf_intervalMinutes config))"

definition rest_violation ::
  "(string, match_dto) dict \<Rightarrow> string \<Rightarrow> int \<Rightarrow> player_slot \<times> player_slot \<Rightarrow> constraint_violation" where
  "rest_violation matchMap playerId restSlots = (\<lambda>(s, t).
     \<lparr>cv_type = Rest, cv_severity = Soft, cv_playerIds = [playerId],
      cv_matchIds = [sl_matchId s, sl_matchId t],
      cv_description = ''Rest violation: ''
        @ checkerLabel (map_of matchMap (sl_matchId s)) (Some (sl_matchId s)) @ '' to ''
        @ checkerLabel (map_of matchMap (sl_matchId t)) (Some (sl_matchId t)) @ '' (''
        @ int_text (sl_start t - sl_end s) @ ''/'' @ int_text restSlots @ '' slots)''\<rparr>)"

definition checkRestViolations ::
  "schedule_assignment list \<Rightarrow> (string, match_dto) dict \<Rightarrow> (string, player_dto) dict \<Rightarrow>
   tournament_config \<Rightarrow> constraint_violation list" where
  "checkRestViolations assignments matchMap playerMap config =
     concat (map (\<lambda>(playerId, slots).
         let restSlots = checker_rest_slots playerMap config playerId
         in map (rest_violation matchMap playerId restSlots)
              (filter (\<lambda>(s, t). sl_start t - sl_end s < restSlots \<and> sl_start t - sl_end s \<ge> 0)
                 (neighbours (sort_key sl_start slots))))
       (buildPlayerSlots assignments matchMap))"

definition court_slot_key :: "int \<Rightarrow> int \<Rightarrow> string" where
  "court_slot_key court s = int_text court @ ''-'' @ int_text s"

definition court_entries ::
  "schedule_assignment list \<Rightarrow> (string, match_dto) dict \<Rightarrow> (string \<times> string) list" where
  "court_entries assignments matchMap =
     concat (map (\<lambda>a. if map_of matchMap (as_matchId a) = None then []
         else map (\<lambda>s. (court_slot_key (as_courtId a) s, as_matchId a))
                [as_slotId a .. as_slotId a + as_durationSlots a - 1]) assignments)"

definition capacity_violation ::
  "(string, match_dto) dict \<Rightarrow> string \<Rightarrow> string list \<Rightarrow> constraint_violation" where
  "capacity_violation matchMap key matchIds =
     (let labels = map (\<lambda>i. checkerLabel (map_of matchMap i) (Some i)) matchIds;
          parts = split_on ''-'' key
      in \<lparr>cv_type = CourtCapacity, cv_severity = Hard, cv_playerIds = [], cv_matchIds = matchIds,
          cv_description = ''Court '' @ or_else (nth_opt parts 0) ''undefined'' @ '' conflict: ''
            @ join_with '', '' labels @ '' at slot '' @ or_else (nth_opt parts 1) ''undefined''\<rparr>)"

definition checkCourtCapacity ::
  "schedule_assignment list \<Rightarrow> (string, match_dto) dict \<Rightarrow> constraint_violation list" where
  "checkCourtCapacity assignments matchMap =
     List.map_filter (\<lambda>(key, entries).
         if length entries > 1 then Some (capacity_violation matchMap key (map snd entries)) else None)
       (group_by (\<lambda>(k, _). Some k) (court_entries assignments matchMap))"

definition index_matches :: "match_dto list \<Rightarrow> (string, match_dto) dict" where
  "index_matches matches = from_entries (map (\<lambda>m. (md_id m, m)) matches)"

definition index_players :: "player_dto list \<Rightarrow> (string, player_dto) dict" where
  "index_players players = from_entries (map (\<lambda>p. (pd_id p, p)) players)"

definition computeConstraintViolations ::
  "schedule_assignment list \<Rightarrow> match_dto list \<Rightarrow> player_dto list \<Rightarrow> tournament_config \<Rightarrow>
   constraint_violation list" where
  "computeConstraintViolations assignments matches players config =
     (let matchMap = index_matches matches; playerMap = index_players players
      in checkPlayerOverlap assignments matchMap
         @ checkRestViolations assignments matchMap playerMap config
         @ checkCourtCapacity assignments matchMap)"

section \<open>Facts about neighbours\<close>

lemma neighbours_Cons: "neighbours (x # y # xs) = (x, y) # neighbours (y # xs)"
  by (simp add: neighbours_def)

lemma neighbours_small [simp]: "neighbours [] = []" "neighbours [x] = []"
  by (simp_all add: neighbours_def)

text \<open>In a list sorted by start, checking neighbours is checking all pairs.\<close>

lemma neighbours_disjoint:
  assumes "sorted (map sl_start xs)" "\<forall>x \<in> set xs. sl_start x < sl_end x"
  shows "(\<forall>(s, t) \<in> set (neighbours xs). sl_end s \<le> sl_start t) \<longleftrightarrow>
     sorted_wrt (\<lambda>s t. sl_end s \<le> sl_start t) xs"
  using assms
proof (induction xs)
  case (Cons x xs)
  show ?case
  proof (cases xs)
    case (Cons y ys)
    have IH: "(\<forall>(s, t) \<in> set (neighbours xs). sl_end s \<le> sl_start t) \<longleftrightarrow>
        sorted_wrt (\<lambda>s t. sl_end s \<le> sl_start t) xs"
      using Cons.IH Cons.prems by simp
    have "\<forall>z \<in> set xs. sl_start y \<le> sl_start z" using Cons.prems(1) Cons by auto
    then have "sl_end x \<le> sl_start y \<Longrightarrow> \<forall>z \<in> set xs. sl_end x \<le> sl_start z" by fastforce
    then show ?thesis using IH Cons by (auto simp: neighbours_Cons)
  qed simp
qed simp

definition slots_of ::
  "schedule_assignment list \<Rightarrow> (string, match_dto) dict \<Rightarrow> string \<Rightarrow> player_slot list" where
  "slots_of assignments matchMap p = map snd (filter (\<lambda>e. fst e = p) (slot_entries assignments matchMap))"

lemma mem_buildPlayerSlots:
  "(p, l) \<in> set (buildPlayerSlots as mm) \<longleftrightarrow> l = slots_of as mm p \<and> l \<noteq> []"
proof -
  have "(p, l) \<in> set (buildPlayerSlots as mm) \<longleftrightarrow>
      (\<exists>es. (p, es) \<in> set (group_by (\<lambda>(p, _). Some p) (slot_entries as mm)) \<and> l = map snd es)"
    by (force simp: buildPlayerSlots_def)
  then show ?thesis by (auto simp: group_by_mem slots_of_def case_prod_beta)
qed

lemma slot_entries_positive:
  "\<forall>a \<in> set as. 0 < as_durationSlots a \<Longrightarrow> (p, s) \<in> set (slot_entries as mm) \<Longrightarrow> sl_start s < sl_end s"
  by (auto simp: slot_entries_def split: option.splits)

lemma player_disjoint:
  assumes "\<forall>x \<in> set xs. sl_start x < sl_end x"
  shows "filter (\<lambda>(s, t). sl_end s > sl_start t) (neighbours (sort_key sl_start xs)) = [] \<longleftrightarrow>
     sorted_wrt (\<lambda>s t. sl_end s \<le> sl_start t \<or> sl_end t \<le> sl_start s) xs"
proof -
  let ?s = "sort_key sl_start xs" and ?R = "\<lambda>s t. sl_end s \<le> sl_start t \<or> sl_end t \<le> sl_start s"
  have pos: "\<forall>x \<in> set ?s. sl_start x < sl_end x" using assms by simp
  have "filter (\<lambda>(s, t). sl_end s > sl_start t) (neighbours ?s) = [] \<longleftrightarrow>
      (\<forall>(s, t) \<in> set (neighbours ?s). sl_end s \<le> sl_start t)"
    by (auto simp: filter_empty_conv not_less)
  also have "\<dots> \<longleftrightarrow> sorted_wrt (\<lambda>s t. sl_end s \<le> sl_start t) ?s"
    by (rule neighbours_disjoint[OF sorted_sort_key pos])
  also have "\<dots> \<longleftrightarrow> sorted_wrt ?R ?s"
  proof
    assume R: "sorted_wrt ?R ?s"
    have "sorted_wrt (\<lambda>s t. sl_start s \<le> sl_start t) ?s"
      using sorted_sort_key[of sl_start xs] by (simp add: sorted_map_wrt)
    with R have "sorted_wrt (\<lambda>s t. ?R s t \<and> sl_start s \<le> sl_start t) ?s" by (rule sorted_wrt_conj)
    then show "sorted_wrt (\<lambda>s t. sl_end s \<le> sl_start t) ?s"
      by (rule sorted_wrt_mono_rel[rotated]) (use pos in force)
  qed (auto intro: sorted_wrt_mono_rel[rotated])
  also have "\<dots> \<longleftrightarrow> sorted_wrt ?R xs" by (rule sorted_wrt_sort_sym) (auto intro: sympI)
  finally show ?thesis .
qed

section \<open>Facts about courts\<close>

lemma int_text_digits: "0 \<le> i \<Longrightarrow> \<forall>c \<in> set (int_text i). is_digit c"
  using nat_text_digits by (auto simp: int_text_def)

lemma int_text_inject: "0 \<le> i \<Longrightarrow> 0 \<le> j \<Longrightarrow> int_text i = int_text j \<Longrightarrow> i = j"
  using nat_text_inject[of "nat i" "nat j"] by (simp add: int_text_def)

lemma court_slot_key_inject:
  assumes "0 \<le> c" "0 \<le> s" "0 \<le> d" "0 \<le> t" "court_slot_key c s = court_slot_key d t"
  shows "c = d \<and> s = t"
proof -
  have dash: "\<not> is_digit CHR ''-''" by (simp add: is_digit_def)
  have head: "takeWhile is_digit (court_slot_key c s) = int_text c"
    if "0 \<le> c" for c s using int_text_digits[OF that] dash by (simp add: court_slot_key_def takeWhile_append)
  then have c: "int_text c = int_text d" using assms by metis
  then have "int_text s = int_text t" using assms(5) by (simp add: court_slot_key_def)
  then show ?thesis using c assms int_text_inject by blast
qed

definition covers :: "int \<times> int \<Rightarrow> schedule_assignment \<Rightarrow> bool" where
  "covers k a \<longleftrightarrow> as_courtId a = fst k \<and> as_slotId a \<le> snd k \<and> snd k < as_slotId a + as_durationSlots a"

definition known :: "(string, match_dto) dict \<Rightarrow> schedule_assignment \<Rightarrow> bool" where
  "known mm a \<longleftrightarrow> map_of mm (as_matchId a) \<noteq> None"

lemma count_range:
  assumes "\<forall>x \<in> {l..h}. P x \<longleftrightarrow> x = y"
  shows "length (filter P [l..h]) = (if l \<le> y \<and> y \<le> h then 1 else 0)"
proof -
  have "length (filter P [l..h]) = card {x \<in> {l..h}. P x}"
    by (simp add: distinct_length_filter Int_def conj_commute)
  also have "{x \<in> {l..h}. P x} = (if l \<le> y \<and> y \<le> h then {y} else {})" using assms by auto
  finally show ?thesis by simp
qed

lemma court_entries_count:
  assumes "\<forall>a \<in> set as. 0 \<le> as_courtId a \<and> 0 \<le> as_slotId a" "0 \<le> c" "0 \<le> s"
  shows "length (filter (\<lambda>e. fst e = court_slot_key c s) (court_entries as mm)) =
     length (filter (covers (c, s)) (filter (known mm) as))"
  using assms(1)
proof (induction as)
  case (Cons a as)
  let ?k = "court_slot_key c s"
  have key: "court_slot_key (as_courtId a) x = ?k \<longleftrightarrow> as_courtId a = c \<and> x = s"
    if "x \<in> {as_slotId a .. as_slotId a + as_durationSlots a - 1}" for x
    using court_slot_key_inject[of "as_courtId a" x c s] Cons.prems assms(2,3) that by auto
  have "length (filter (\<lambda>x. court_slot_key (as_courtId a) x = ?k)
      [as_slotId a .. as_slotId a + as_durationSlots a - 1]) = (if covers (c, s) a then 1 else 0)"
  proof (cases "as_courtId a = c")
    case True
    have "\<forall>x \<in> {as_slotId a .. as_slotId a + as_durationSlots a - 1}.
        court_slot_key (as_courtId a) x = ?k \<longleftrightarrow> x = s" using key True by blast
    from count_range[OF this] show ?thesis using True by (auto simp: covers_def)
  next
    case False
    then have "filter (\<lambda>x. court_slot_key (as_courtId a) x = ?k)
        [as_slotId a .. as_slotId a + as_durationSlots a - 1] = []"
      using key by (simp add: filter_empty_conv)
    then show ?thesis using False by (simp add: covers_def)
  qed
  then have "length (filter (\<lambda>e. fst e = ?k) (court_entries [a] mm)) =
      length (filter (covers (c, s)) (filter (known mm) [a]))"
    by (cases "covers (c, s) a") (simp_all add: court_entries_def known_def filter_map comp_def)
  moreover have "court_entries (a # as) mm = court_entries [a] mm @ court_entries as mm"
    by (simp add: court_entries_def)
  ultimately show ?case using Cons by simp
qed (simp add: court_entries_def)

text \<open>A personal rest of zero minutes counts as no entry at all.\<close>

lemma zero_rest_reads_default:
  assumes "map_of playerMap p = Some pl" "pd_minRestMinutes pl = Some 0"
  shows "checker_rest_slots playerMap c p = checker_rest_slots [] c p"
  using assms by (simp add: checker_rest_slots_def)

section \<open>Properties\<close>

text \<open>C27. No overlap is missed or invented: with matches of at least one slot, the checker reports a
  player overlap exactly when some player is in two assignments that share a slot, although it
  compares neighbours only.\<close>

theorem overlap_check_complete:
  assumes "\<forall>a \<in> set as. 0 < as_durationSlots a"
  shows "checkPlayerOverlap as mm = [] \<longleftrightarrow>
     (\<forall>p. sorted_wrt (\<lambda>s t. sl_end s \<le> sl_start t \<or> sl_end t \<le> sl_start s) (slots_of as mm p))"
proof -
  have pos: "\<forall>x \<in> set (slots_of as mm p). sl_start x < sl_end x" for p
    using slot_entries_positive[OF assms] by (auto simp: slots_of_def)
  have "checkPlayerOverlap as mm = [] \<longleftrightarrow>
      (\<forall>(p, l) \<in> set (buildPlayerSlots as mm).
         filter (\<lambda>(s, t). sl_end s > sl_start t) (neighbours (sort_key sl_start l)) = [])"
    by (auto simp: checkPlayerOverlap_def)
  also have "\<dots> \<longleftrightarrow> (\<forall>p. slots_of as mm p \<noteq> [] \<longrightarrow>
      sorted_wrt (\<lambda>s t. sl_end s \<le> sl_start t \<or> sl_end t \<le> sl_start s) (slots_of as mm p))"
    unfolding Ball_def split_paired_All case_prod_conv mem_buildPlayerSlots
    using player_disjoint[OF pos] by blast
  also have "\<dots> \<longleftrightarrow> (\<forall>p. sorted_wrt (\<lambda>s t. sl_end s \<le> sl_start t \<or> sl_end t \<le> sl_start s) (slots_of as mm p))"
  proof -
    have "slots_of as mm p = [] \<Longrightarrow>
        sorted_wrt (\<lambda>s t. sl_end s \<le> sl_start t \<or> sl_end t \<le> sl_start s) (slots_of as mm p)" for p
      by simp
    then show ?thesis by blast
  qed
  finally show ?thesis .
qed

definition demo_assignments :: "schedule_assignment list" where
  "demo_assignments = [\<lparr>as_matchId = ''a'', as_slotId = 0, as_courtId = 1, as_durationSlots = 3\<rparr>,
     \<lparr>as_matchId = ''b'', as_slotId = 2, as_courtId = 1, as_durationSlots = 1\<rparr>]"

theorem overlap_check_complete_witness:
  "checkPlayerOverlap demo_assignments (index_matches [demo_meet ''a'' [''p''] [], demo_meet ''b'' [''p''] []]) \<noteq> []"
proof -
  let ?mm = "index_matches [demo_meet ''a'' [''p''] [], demo_meet ''b'' [''p''] []]"
  have "\<not> sorted_wrt (\<lambda>s t. sl_end s \<le> sl_start t \<or> sl_end t \<le> sl_start s) (slots_of demo_assignments ?mm ''p'')"
    by (simp add: slots_of_def slot_entries_def demo_assignments_def index_matches_def from_entries_def
        demo_meet_def getMatchPlayerIds_def)
  moreover have "\<forall>a \<in> set demo_assignments. 0 < as_durationSlots a" by (simp add: demo_assignments_def)
  ultimately show ?thesis using overlap_check_complete[of demo_assignments ?mm] by blast
qed

text \<open>A court is over capacity exactly when two known matches share it: the checker reports a
  capacity violation if and only if two assignments of known matches hold one court in a common
  slot.\<close>

theorem capacity_check_complete:
  assumes "\<forall>a \<in> set as. 0 \<le> as_courtId a \<and> 0 \<le> as_slotId a"
  shows "checkCourtCapacity as mm = [] \<longleftrightarrow>
     sorted_wrt (\<lambda>a b. \<forall>k. \<not> (covers k a \<and> covers k b))
       (filter (\<lambda>a. map_of mm (as_matchId a) \<noteq> None) as)"
proof -
  let ?es = "court_entries as mm" and ?known = "filter (known mm) as"
  have "checkCourtCapacity as mm = [] \<longleftrightarrow>
      (\<forall>(k, l) \<in> set (group_by (\<lambda>(k, _). Some k) ?es). length l \<le> 1)"
    unfolding Ball_def split_paired_All case_prod_conv
    by (auto simp: checkCourtCapacity_def List.map_filter_def filter_empty_conv not_less Ball_def)
      (meson not_le)+
  also have "\<dots> \<longleftrightarrow> (\<forall>k. length (filter (\<lambda>e. fst e = k) ?es) \<le> 1)"
  proof -
    have "(\<lambda>(j, _). Some j) = (\<lambda>e :: string \<times> string. Some (fst e))" by auto
    then have "(\<forall>(k, l) \<in> set (group_by (\<lambda>(k, _). Some k) ?es). length l \<le> 1) \<longleftrightarrow>
        (\<forall>k. filter (\<lambda>e. fst e = k) ?es \<noteq> [] \<longrightarrow> length (filter (\<lambda>e. fst e = k) ?es) \<le> 1)"
      by (auto simp: group_by_mem)
    then show ?thesis by (metis le_zero_eq list.size(3) nat_le_linear)
  qed
  also have "\<dots> \<longleftrightarrow> (\<forall>k. length (filter (covers k) ?known) \<le> 1)"
  proof
    assume A: "\<forall>k. length (filter (\<lambda>e. fst e = k) ?es) \<le> 1"
    show "\<forall>k. length (filter (covers k) ?known) \<le> 1"
    proof
      fix k
      show "length (filter (covers k) ?known) \<le> 1"
      proof (cases "0 \<le> fst k \<and> 0 \<le> snd k")
        case True
        then show ?thesis using A court_entries_count[OF assms, of "fst k" "snd k" mm] by (metis prod.collapse)
      next
        case False
        then have "filter (covers k) ?known = []" using assms by (auto simp: filter_empty_conv covers_def)
        then show ?thesis by simp
      qed
    qed
  next
    assume B: "\<forall>k. length (filter (covers k) ?known) \<le> 1"
    show "\<forall>k. length (filter (\<lambda>e. fst e = k) ?es) \<le> 1"
    proof
      fix k
      show "length (filter (\<lambda>e. fst e = k) ?es) \<le> 1"
      proof (cases "filter (\<lambda>e. fst e = k) ?es")
        case (Cons e es)
        then have "e \<in> set ?es" "fst e = k" by (auto simp: filter_eq_Cons_iff)
        then obtain c s where "k = court_slot_key c s" "0 \<le> c" "0 \<le> s"
          using assms by (fastforce simp: court_entries_def split: if_splits)
        then show ?thesis using B court_entries_count[OF assms] by metis
      qed simp
    qed
  qed
  also have "\<dots> \<longleftrightarrow> sorted_wrt (\<lambda>a b. \<forall>k. \<not> (covers k a \<and> covers k b)) ?known" by (rule at_most_one_each)
  finally show ?thesis unfolding known_def .
qed

theorem capacity_check_complete_witness:
  "checkCourtCapacity demo_assignments (index_matches [demo_meet ''a'' [''p''] [], demo_meet ''b'' [''q''] []]) \<noteq> []"
proof -
  let ?mm = "index_matches [demo_meet ''a'' [''p''] [], demo_meet ''b'' [''q''] []]"
  have "covers (1, 2) (demo_assignments ! 0)" "covers (1, 2) (demo_assignments ! 1)"
    by (simp_all add: covers_def demo_assignments_def)
  then have "\<not> sorted_wrt (\<lambda>a b. \<forall>k. \<not> (covers k a \<and> covers k b))
      (filter (\<lambda>a. map_of ?mm (as_matchId a) \<noteq> None) demo_assignments)"
    by (auto simp: demo_assignments_def index_matches_def from_entries_def demo_meet_def)
  moreover have "\<forall>a \<in> set demo_assignments. 0 \<le> as_courtId a \<and> 0 \<le> as_slotId a"
    by (simp add: demo_assignments_def)
  ultimately show ?thesis using capacity_check_complete[of demo_assignments ?mm] by blast
qed

end
