(* ===== verification/Notices.thy ===== *)
theory Notices
  imports MatchStateStore TrafficLight
begin

text \<open>
  What the console tells the operator: the write gate (\<open>platform/domain/permissions.ts\<close>,
  \<open>hooks/useCanEdit.ts\<close>), the toast and solver-log rings of \<open>store/uiStore.ts\<close>, the alerts rail
  (\<open>platform/domain/alertModel.ts\<close>, \<open>store/alertStore.ts\<close>) and the activity trail
  (\<open>hooks/useActivityLog.ts\<close>). Fresh ids and the clock are arguments. A field that the code leaves
  out of a literal is \<open>None\<close>; the callback of a toast's button is a value of the type \<open>'a\<close>.
\<close>

section \<open>Who may write\<close>

datatype tournament_role = Owner | Operator | Viewer

definition canEdit :: "tournament_role option \<Rightarrow> bool" where
  "canEdit role \<longleftrightarrow> role = Some Owner \<or> role = Some Operator"

fun roleLabel :: "tournament_role option \<Rightarrow> string" where
  "roleLabel (Some Owner) = ''Owner''"
| "roleLabel (Some Operator) = ''Operator''"
| "roleLabel _ = ''Viewer''"

definition READ_ONLY_MESSAGE :: string where
  "READ_ONLY_MESSAGE = ''You have view-only access to this workspace. Ask an owner for operator access to make changes.''"

section \<open>Toasts\<close>

datatype toast_level = TInfo | TSuccess | TWarn | TError

text \<open>\<open>durationMs\<close>: absent, or present and perhaps \<open>null\<close>.\<close>

record 'a toast_body =
  tb_level :: toast_level
  tb_message :: string
  tb_detail :: "string option"
  tb_actionLabel :: "string option"
  tb_onAction :: "'a option"
  tb_durationMs :: "int option option"

record 'a toast = "'a toast_body" +
  ts_id :: string

definition same_notice :: "('a, 'b) toast_body_scheme \<Rightarrow> ('a, 'c) toast_body_scheme \<Rightarrow> bool" where
  "same_notice t u \<longleftrightarrow> tb_level t = tb_level u \<and> tb_message t = tb_message u"

text \<open>\<open>{ ...existing, ...toast, id: existing.id }\<close>.\<close>

definition refresh_toast :: "'a toast \<Rightarrow> 'a toast_body \<Rightarrow> 'a toast" where
  "refresh_toast existing toast =
     \<lparr>tb_level = tb_level toast, tb_message = tb_message toast,
      tb_detail = or_opt (tb_detail toast) (tb_detail existing),
      tb_actionLabel = or_opt (tb_actionLabel toast) (tb_actionLabel existing),
      tb_onAction = or_opt (tb_onAction toast) (tb_onAction existing),
      tb_durationMs = or_opt (tb_durationMs toast) (tb_durationMs existing),
      ts_id = ts_id existing\<rparr>"

definition toast_entry :: "string \<Rightarrow> 'a toast_body \<Rightarrow> 'a toast" where
  "toast_entry i toast =
     \<lparr>tb_level = tb_level toast, tb_message = tb_message toast, tb_detail = tb_detail toast,
      tb_actionLabel = tb_actionLabel toast, tb_onAction = tb_onAction toast,
      tb_durationMs = or_opt (tb_durationMs toast)
        (Some (if tb_level toast = TError then None else Some 5000)),
      ts_id = i\<rparr>"

definition pushToast :: "string \<Rightarrow> 'a toast_body \<Rightarrow> 'a toast list \<Rightarrow> string \<times> 'a toast list" where
  "pushToast fresh toast toasts =
     (case find (same_notice toast) toasts of
        Some existing \<Rightarrow> (ts_id existing,
          map (\<lambda>t. if ts_id t = ts_id existing then refresh_toast existing toast else t) toasts)
      | None \<Rightarrow> (fresh, toasts @ [toast_entry fresh toast]))"

definition dismissToast :: "string \<Rightarrow> 'a toast list \<Rightarrow> 'a toast list" where
  "dismissToast i toasts = filter (\<lambda>t. ts_id t \<noteq> i) toasts"

definition clearToasts :: "'a toast list \<Rightarrow> 'a toast list" where
  "clearToasts toasts = []"

definition view_only_toast :: "'a toast_body" where
  "view_only_toast = \<lparr>tb_level = TInfo, tb_message = ''View-only access'',
     tb_detail = Some READ_ONLY_MESSAGE, tb_actionLabel = None, tb_onAction = None,
     tb_durationMs = Some (Some 4000)\<rparr>"

definition assertCanEdit ::
  "tournament_role option \<Rightarrow> string \<Rightarrow> 'a toast list \<Rightarrow> bool \<times> 'a toast list" where
  "assertCanEdit role fresh toasts =
     (if canEdit role then (True, toasts) else (False, snd (pushToast fresh view_only_toast toasts)))"

section \<open>The solver log\<close>

datatype solver_log_type = LInfo | LSolution | LViolation | LStats | LProgress

record solver_log_entry =
  sl_id :: int
  sl_message :: string
  sl_timestamp :: int
  sl_type :: solver_log_type

definition addSolverLog ::
  "int \<Rightarrow> string \<Rightarrow> solver_log_type \<Rightarrow> solver_log_entry list \<Rightarrow> solver_log_entry list" where
  "addSolverLog now message kind logs =
     (let newId = (case logs of [] \<Rightarrow> 1 | _ \<Rightarrow> Max (set (map sl_id logs)) + 1)
      in drop (length logs - 49) logs
         @ [\<lparr>sl_id = newId, sl_message = message, sl_timestamp = now, sl_type = kind\<rparr>])"

definition clearSolverLogs :: "solver_log_entry list \<Rightarrow> solver_log_entry list" where
  "clearSolverLogs logs = []"

section \<open>The alerts rail\<close>

datatype advisory_severity = AInfo | AWarn | ACritical

record advisory =
  av_id :: string
  av_severity :: advisory_severity
  av_summary :: string
  av_detail :: "string option"
  av_detectedAt :: string

datatype alert_severity = Decision | Warning | Info
datatype alert_source = FromAdvisory | FromActivity

record alert_entry =
  al_id :: string
  al_severity :: alert_severity
  al_ts :: string
  al_title :: string
  al_message :: "string option"
  al_advisory :: "advisory option"
  al_source :: alert_source

definition classifyAdvisory :: "advisory \<Rightarrow> alert_severity" where
  "classifyAdvisory a =
     (if av_severity a = ACritical then Decision else if av_severity a = AWarn then Warning else Info)"

definition advisoryToEntry :: "advisory \<Rightarrow> alert_entry" where
  "advisoryToEntry a = \<lparr>al_id = av_id a, al_severity = classifyAdvisory a, al_ts = av_detectedAt a,
     al_title = av_summary a, al_message = av_detail a, al_advisory = Some a, al_source = FromAdvisory\<rparr>"

definition sortPanel :: "(string \<Rightarrow> string \<Rightarrow> int) \<Rightarrow> alert_entry list \<Rightarrow> alert_entry list" where
  "sortPanel localeCompare entries = js_sort (\<lambda>a b. localeCompare (al_ts b) (al_ts a)) entries"

record alert_state =
  at_conditions :: "(string, alert_entry) dict"
  at_activity :: "alert_entry list"

definition MAX_ACTIVITY :: nat where
  "MAX_ACTIVITY = 100"

definition resolution_of :: "string \<Rightarrow> alert_entry \<Rightarrow> alert_entry" where
  "resolution_of now e = \<lparr>al_id = ''resolved:'' @ al_id e, al_severity = Info, al_ts = now,
     al_title = al_title e, al_message = Some ''condition cleared'', al_advisory = None,
     al_source = FromAdvisory\<rparr>"

definition syncAdvisories :: "string \<Rightarrow> advisory list \<Rightarrow> alert_state \<Rightarrow> alert_state" where
  "syncAdvisories now advisories s =
     (let live = filter (\<lambda>e. al_severity e \<noteq> Decision) (map advisoryToEntry advisories);
          liveIds = set (map al_id live);
          resolutions = map (resolution_of now)
            (filter (\<lambda>e. al_severity e = Warning \<and> al_id e \<notin> liveIds) (map snd (at_conditions s)));
          conditions = fold (\<lambda>e c. AList.update (al_id e) e c) live []
      in \<lparr>at_conditions = conditions,
          at_activity = (if resolutions \<noteq> [] then take MAX_ACTIVITY (resolutions @ at_activity s)
                         else at_activity s)\<rparr>)"

definition logActivity :: "alert_entry \<Rightarrow> alert_state \<Rightarrow> alert_state" where
  "logActivity entry s = s\<lparr>at_activity := take MAX_ACTIVITY (entry # at_activity s)\<rparr>"

definition resetAlerts :: "alert_state \<Rightarrow> alert_state" where
  "resetAlerts s = \<lparr>at_conditions = [], at_activity = []\<rparr>"

section \<open>The activity trail\<close>

definition matchLabel :: "match_dto list \<Rightarrow> string \<Rightarrow> string" where
  "matchLabel matches matchId =
     ''Match '' @ utilMatchLabel (find (\<lambda>m. md_id m = matchId) matches) (Some matchId)"

fun transitionMessage :: "match_status \<Rightarrow> bool \<Rightarrow> string option" where
  "transitionMessage MCalled hasScore = Some ''called to court''"
| "transitionMessage MStarted hasScore = Some ''match started''"
| "transitionMessage MFinished hasScore =
     Some (if hasScore then ''score recorded'' else ''marked finished'')"
| "transitionMessage MScheduled hasScore = Some ''returned to the queue''"
| "transitionMessage MRetired hasScore = None"

fun status_text :: "match_status \<Rightarrow> string" where
  "status_text MScheduled = ''scheduled''"
| "status_text MCalled = ''called''"
| "status_text MStarted = ''started''"
| "status_text MFinished = ''finished''"
| "status_text MRetired = ''retired''"

definition activity_entry ::
  "string \<Rightarrow> match_dto list \<Rightarrow> string \<Rightarrow> match_status \<Rightarrow> string \<Rightarrow> alert_entry" where
  "activity_entry now matches matchId status msg =
     \<lparr>al_id = ''activity:'' @ matchId @ '':'' @ status_text status @ '':'' @ now,
      al_severity = Info, al_ts = now, al_title = matchLabel matches matchId,
      al_message = Some msg, al_advisory = None, al_source = FromActivity\<rparr>"

text \<open>The two refs of the hook: the statuses it saw last and whether it has seen any.\<close>

record activity_refs =
  ar_seeded :: bool
  ar_prev :: "(string, match_status) dict"

fun fresh_entries ::
  "string \<Rightarrow> match_dto list \<Rightarrow> (string, match_status) dict \<Rightarrow> (string, match_state_dto) dict \<Rightarrow>
   alert_entry list" where
  "fresh_entries now matches prev [] = []"
| "fresh_entries now matches prev ((matchId, st) # states) =
     (if map_of prev matchId = Some (ms_status st) then fresh_entries now matches prev states
      else case transitionMessage (ms_status st) (ms_score st \<noteq> None) of
        None \<Rightarrow> fresh_entries now matches prev states
      | Some msg \<Rightarrow> activity_entry now matches matchId (ms_status st) msg
                    # fresh_entries now matches prev states)"

definition handle ::
  "string \<Rightarrow> match_dto list \<Rightarrow> (string, match_state_dto) dict \<Rightarrow> activity_refs \<times> alert_state \<Rightarrow>
   activity_refs \<times> alert_state" where
  "handle now matches states rs =
     (let (r, s) = rs;
          next_seen = from_entries (map (\<lambda>(k, st). (k, ms_status st)) states)
      in if \<not> ar_seeded r then (\<lparr>ar_seeded = True, ar_prev = next_seen\<rparr>, s)
         else (r\<lparr>ar_prev := next_seen\<rparr>,
               fold logActivity (fresh_entries now matches (ar_prev r) states) s))"

section \<open>One toast per notice\<close>

definition notice_key :: "('a, 'b) toast_body_scheme \<Rightarrow> toast_level \<times> string" where
  "notice_key t = (tb_level t, tb_message t)"

definition toasts_wf :: "'a toast list \<Rightarrow> bool" where
  "toasts_wf ts \<longleftrightarrow> distinct (map ts_id ts) \<and> distinct (map notice_key ts)"

lemma same_notice_key: "same_notice t u \<longleftrightarrow> notice_key t = notice_key u"
  by (simp add: same_notice_def notice_key_def)

lemma toast_views [simp]:
  "ts_id (refresh_toast e b) = ts_id e" "notice_key (refresh_toast e b) = notice_key b"
  "ts_id (toast_entry i b) = i" "notice_key (toast_entry i b) = notice_key b"
  by (simp_all add: refresh_toast_def toast_entry_def notice_key_def)

lemma map_one_same:
  assumes "distinct (map f xs)" "e \<in> set xs" "g e' = g e"
  shows "map g (map (\<lambda>t. if f t = f e then e' else t) xs) = map g xs"
  using assms by (auto simp: distinct_map inj_on_def)

lemma pushToast_wf:
  assumes "toasts_wf ts" "fresh \<notin> set (map ts_id ts)"
  shows "toasts_wf (snd (pushToast fresh b ts))"
proof (cases "find (same_notice b) ts")
  case None
  then have "notice_key b \<notin> set (map notice_key ts)"
    by (auto simp: find_None_iff same_notice_key)
  then show ?thesis using assms None by (simp add: pushToast_def toasts_wf_def)
next
  case (Some e)
  then have e: "e \<in> set ts" "notice_key b = notice_key e"
    by (auto simp: find_Some_iff same_notice_key)
  have d: "distinct (map ts_id ts)" using assms(1) by (simp add: toasts_wf_def)
  show ?thesis
    using assms(1) map_one_same[OF d e(1), of ts_id "refresh_toast e b"]
      map_one_same[OF d e(1), of notice_key "refresh_toast e b"] e(2)
    by (simp add: pushToast_def toasts_wf_def Some del: map_map)
qed

lemma dismissToast_wf: "toasts_wf ts \<Longrightarrow> toasts_wf (dismissToast i ts)"
  by (simp add: toasts_wf_def dismissToast_def distinct_map_filter)

text \<open>What a push shows: exactly one toast of that level and message, under the returned id, with the
  pushed detail.\<close>

lemma pushToast_shows:
  assumes "toasts_wf ts" "fresh \<notin> set (map ts_id ts)" "pushToast fresh b ts = (i, ts')"
  obtains t where "filter (same_notice b) ts' = [t]" "ts_id t = i"
    "tb_detail b \<noteq> None \<Longrightarrow> tb_detail t = tb_detail b"
proof -
  have wf: "distinct (map notice_key ts')" using pushToast_wf[OF assms(1,2), of b] assms(3)
    by (simp add: toasts_wf_def)
  have "\<exists>t \<in> set ts'. notice_key t = notice_key b \<and> ts_id t = i \<and>
      (tb_detail b \<noteq> None \<longrightarrow> tb_detail t = tb_detail b)"
  proof (cases "find (same_notice b) ts")
    case None
    then show ?thesis using assms(3) by (auto simp: pushToast_def toast_entry_def notice_key_def)
  next
    case (Some e)
    then have "e \<in> set ts" by (auto simp: find_Some_iff)
    then have "refresh_toast e b \<in> set ts'" "i = ts_id e"
      using assms(3) Some by (auto simp: pushToast_def)
    moreover have "tb_detail b \<noteq> None \<Longrightarrow> tb_detail (refresh_toast e b) = tb_detail b"
      by (auto simp: refresh_toast_def)
    ultimately show ?thesis by (metis toast_views(1,2))
  qed
  then obtain t where t: "t \<in> set ts'" "notice_key t = notice_key b" "ts_id t = i"
    "tb_detail b \<noteq> None \<longrightarrow> tb_detail t = tb_detail b" by blast
  have "filter (\<lambda>u. notice_key b = notice_key u) ts' = [t]"
  proof -
    have "filter (\<lambda>u. notice_key t = notice_key u) xs = [t]"
      if "distinct (map notice_key xs)" "t \<in> set xs" for xs
      using that by (induction xs) (auto simp: filter_empty_conv rev_image_eqI)
    then show ?thesis using wf t(1,2) by simp
  qed
  moreover have "filter (same_notice b) ts' = filter (\<lambda>u. notice_key b = notice_key u) ts'"
    by (rule filter_cong) (simp_all add: same_notice_key)
  ultimately have "filter (same_notice b) ts' = [t]" by simp
  then show ?thesis using that t(3,4) by blast
qed

section \<open>The solver log is a ring\<close>

text \<open>At most fifty lines, numbered upwards; the line just logged is the last one.\<close>

definition logs_wf :: "solver_log_entry list \<Rightarrow> bool" where
  "logs_wf logs \<longleftrightarrow> length logs \<le> 50 \<and> sorted_wrt (<) (map sl_id logs)"

lemma addSolverLog_wf:
  assumes "logs_wf logs"
  shows "logs_wf (addSolverLog now msg kind logs)"
proof -
  have "sl_id e < (case logs of [] \<Rightarrow> 1 | _ \<Rightarrow> Max (set (map sl_id logs)) + 1)" if "e \<in> set logs" for e
    using that by (cases logs) (auto intro!: le_less_trans[OF Max_ge])
  moreover have "sorted_wrt (<) (map sl_id (drop n logs))" for n
    using assms by (simp add: logs_wf_def drop_map[symmetric] sorted_wrt_drop)
  ultimately show ?thesis
    using assms by (auto simp: logs_wf_def addSolverLog_def Let_def sorted_wrt_append dest!: in_set_dropD)
qed

section \<open>Nothing leaves the rail unrecorded\<close>

definition rail_wf :: "alert_state \<Rightarrow> bool" where
  "rail_wf s \<longleftrightarrow> distinct (map fst (at_conditions s)) \<and> length (at_activity s) \<le> MAX_ACTIVITY \<and>
     list_all (\<lambda>(k, e). al_id e = k \<and> al_severity e \<noteq> Decision) (at_conditions s) \<and>
     list_all (\<lambda>e. al_severity e = Info) (at_activity s)"

lemma fold_update_entries:
  "fold (\<lambda>e c. AList.update (f e) e c) es c = fold (\<lambda>(k, v). AList.update k v) (map (\<lambda>e. (f e, e)) es) c"
  by (induction es arbitrary: c) simp_all

lemma distinct_update_all: "distinct (map fst (fold (\<lambda>(k, v). AList.update k v) kvs d))"
  if "distinct (map fst d)"
  using that by (induction kvs arbitrary: d) (auto simp: distinct_update)

lemma conditions_lookup:
  "map_of (at_conditions (syncAdvisories now advs s)) i =
     map_of (rev (map (\<lambda>e. (al_id e, e)) (filter (\<lambda>e. al_severity e \<noteq> Decision) (map advisoryToEntry advs)))) i"
  by (simp add: syncAdvisories_def Let_def fold_update_entries from_entries_def[symmetric]
      map_of_from_entries del: filter_map map_map)

lemma conditions_ids:
  "fst ` set (at_conditions (syncAdvisories now advs s)) =
     al_id ` {e \<in> advisoryToEntry ` set advs. al_severity e \<noteq> Decision}"
proof -
  have "dom (map_of (at_conditions (syncAdvisories now advs s))) =
      dom (map_of (rev (map (\<lambda>e. (al_id e, e))
        (filter (\<lambda>e. al_severity e \<noteq> Decision) (map advisoryToEntry advs)))))"
    by (rule arg_cong[where f = dom]) (rule ext, rule conditions_lookup)
  then show ?thesis by (simp add: dom_map_of_conv_image_fst image_image)
qed

lemma list_all_take: "list_all P xs \<Longrightarrow> list_all P (take n xs)"
  by (auto simp: list_all_iff dest: in_set_takeD)

text \<open>One poll, as seen on the rail: \<open>warning_out\<close> is the set of warnings that leave it.\<close>

definition warnings_out :: "advisory list \<Rightarrow> alert_state \<Rightarrow> alert_entry list" where
  "warnings_out advs s =
     filter (\<lambda>e. al_severity e = Warning \<and>
        (\<forall>a \<in> set advs. av_id a = al_id e \<longrightarrow> av_severity a = ACritical)) (map snd (at_conditions s))"

lemma Decision_iff [simp]: "classifyAdvisory a = Decision \<longleftrightarrow> av_severity a = ACritical"
  by (cases "av_severity a") (simp_all add: classifyAdvisory_def)

lemma advisoryToEntry_views [simp]:
  "al_id (advisoryToEntry a) = av_id a" "al_severity (advisoryToEntry a) = classifyAdvisory a"
  by (simp_all add: advisoryToEntry_def)

lemma live_ids:
  "i \<in> set (map al_id (filter (\<lambda>e. al_severity e \<noteq> Decision) (map advisoryToEntry advs))) \<longleftrightarrow>
     (\<exists>a \<in> set advs. av_id a = i \<and> av_severity a \<noteq> ACritical)"
  by (induction advs) auto

lemma activity_after_sync:
  assumes "length (at_activity s) \<le> MAX_ACTIVITY"
  shows "at_activity (syncAdvisories now advs s) =
     take MAX_ACTIVITY (map (resolution_of now) (warnings_out advs s) @ at_activity s)"
proof -
  have "filter (\<lambda>e. al_severity e = Warning \<and>
          al_id e \<notin> set (map al_id (filter (\<lambda>e. al_severity e \<noteq> Decision) (map advisoryToEntry advs))))
        (map snd (at_conditions s)) = warnings_out advs s"
    unfolding warnings_out_def live_ids by (rule filter_cong) auto
  then show ?thesis using assms
    by (simp add: syncAdvisories_def Let_def del: filter_map map_map set_map)
qed

lemma syncAdvisories_wf:
  assumes "rail_wf s"
  shows "rail_wf (syncAdvisories now advs s)"
proof -
  let ?s = "syncAdvisories now advs s"
  have d: "distinct (map fst (at_conditions ?s))"
    by (simp add: syncAdvisories_def Let_def fold_update_entries distinct_update_all del: filter_map map_map)
  have "al_id e = k \<and> al_severity e \<noteq> Decision" if "(k, e) \<in> set (at_conditions ?s)" for k e
  proof -
    have "map_of (at_conditions ?s) k = Some e" using d that by simp
    then show ?thesis unfolding conditions_lookup by (auto dest!: map_of_SomeD)
  qed
  moreover have "length (at_activity ?s) \<le> MAX_ACTIVITY \<and> list_all (\<lambda>e. al_severity e = Info) (at_activity ?s)"
  proof -
    have "list_all (\<lambda>e. al_severity e = Info) (map (resolution_of now) xs @ at_activity s)" for xs
      using assms by (auto simp: rail_wf_def resolution_of_def list_all_iff)
    moreover have "length (at_activity s) \<le> MAX_ACTIVITY" using assms by (simp add: rail_wf_def)
    ultimately show ?thesis
      by (simp add: activity_after_sync list_all_take del: take_append list_all_append length_append)
  qed
  ultimately show ?thesis using d by (auto simp: rail_wf_def list_all_iff)
qed

lemma logActivity_wf: "rail_wf s \<Longrightarrow> al_severity e = Info \<Longrightarrow> rail_wf (logActivity e s)"
  by (simp add: rail_wf_def logActivity_def MAX_ACTIVITY_def list_all_take list_all_iff
      del: take_Suc_Cons) (auto dest: in_set_takeD)


text \<open>C8. After a poll the rail holds one condition per live advisory that is not a decision, and every
  warning that is no longer on it, cleared or escalated to a decision, heads the trail as \<open>condition
  cleared\<close>, up to the size of the ring; nothing else enters the trail.\<close>

theorem no_warning_leaves_unrecorded:
  assumes "rail_wf s" "length (at_conditions s) \<le> MAX_ACTIVITY"
  shows "fst ` set (at_conditions (syncAdvisories now advs s)) =
       {av_id a | a. a \<in> set advs \<and> av_severity a \<noteq> ACritical} \<and>
     take (length (warnings_out advs s)) (at_activity (syncAdvisories now advs s)) =
       map (resolution_of now) (warnings_out advs s) \<and>
     (\<exists>n. at_activity (syncAdvisories now advs s) =
       map (resolution_of now) (warnings_out advs s) @ take n (at_activity s))"
proof -
  have n: "length (warnings_out advs s) \<le> MAX_ACTIVITY"
    using assms(2) length_filter_le[of _ "map snd (at_conditions s)"]
    by (simp add: warnings_out_def del: filter_map) (meson le_trans length_filter_le length_map)
  have act: "at_activity (syncAdvisories now advs s) = map (resolution_of now) (warnings_out advs s)
      @ take (MAX_ACTIVITY - length (warnings_out advs s)) (at_activity s)"
    using assms(1) n by (simp add: activity_after_sync rail_wf_def)
  have ids: "fst ` set (at_conditions (syncAdvisories now advs s)) =
       {av_id a | a. a \<in> set advs \<and> av_severity a \<noteq> ACritical}"
    unfolding conditions_ids by force
  show ?thesis unfolding ids act by auto
qed

theorem no_warning_leaves_unrecorded_witness:
  "map al_message (at_activity (syncAdvisories ''t'' [] \<lparr>at_conditions =
      [(''a'', \<lparr>al_id = ''a'', al_severity = Warning, al_ts = ''s'', al_title = ''x'', al_message = None,
         al_advisory = None, al_source = FromAdvisory\<rparr>)], at_activity = []\<rparr>)) = [Some ''condition cleared'']"
  using no_warning_leaves_unrecorded[of "\<lparr>at_conditions =
      [(''a'', \<lparr>al_id = ''a'', al_severity = Warning, al_ts = ''s'', al_title = ''x'', al_message = None,
         al_advisory = None, al_source = FromAdvisory\<rparr>)], at_activity = []\<rparr>" "''t''" "[]"]
  by (auto simp: rail_wf_def MAX_ACTIVITY_def warnings_out_def resolution_of_def)

text \<open>An overrun that gets worse is logged as cleared: the poll keeps its id and raises its severity,
  which takes it off the rail.\<close>

lemma escalation_logged_as_cleared:
  "map al_message (at_activity (syncAdvisories now
      [\<lparr>av_id = i, av_severity = ACritical, av_summary = t, av_detail = d, av_detectedAt = now\<rparr>]
      (syncAdvisories now0
        [\<lparr>av_id = i, av_severity = AWarn, av_summary = t, av_detail = d, av_detectedAt = now0\<rparr>]
        \<lparr>at_conditions = [], at_activity = []\<rparr>))) = [Some ''condition cleared'']"
  by (simp add: syncAdvisories_def Let_def advisoryToEntry_def classifyAdvisory_def resolution_of_def
      MAX_ACTIVITY_def)

section \<open>The trail is the diff\<close>

definition surfaced :: "(string, match_status) dict \<Rightarrow> string \<Rightarrow> match_state_dto \<Rightarrow> bool" where
  "surfaced prev i st \<longleftrightarrow> map_of prev i \<noteq> Some (ms_status st) \<and> ms_status st \<noteq> MRetired"

lemma transitionMessage_None [simp]: "transitionMessage st h = None \<longleftrightarrow> st = MRetired"
  by (cases st) simp_all

lemma fresh_entries_diff:
  "fresh_entries now ms prev states =
     map (\<lambda>(i, st). activity_entry now ms i (ms_status st)
            (the (transitionMessage (ms_status st) (ms_score st \<noteq> None))))
       (filter (\<lambda>(i, st). surfaced prev i st) states)"
  by (induction now ms prev states rule: fresh_entries.induct)
     (auto simp: surfaced_def split: option.splits)

lemma fold_logActivity:
  "length (at_activity s) \<le> MAX_ACTIVITY \<Longrightarrow>
   at_activity (fold logActivity es s) = take MAX_ACTIVITY (rev es @ at_activity s)"
proof (induction es arbitrary: s)
  case (Cons e es)
  have "take MAX_ACTIVITY (rev es @ take MAX_ACTIVITY (e # at_activity s)) =
      take MAX_ACTIVITY (rev es @ e # at_activity s)"
    by (cases "length es \<le> MAX_ACTIVITY") (simp_all add: take_append min_def)
  then show ?case using Cons.IH[of "logActivity e s"] by (simp add: logActivity_def)
qed simp

lemma seen_after:
  "map_of (ar_prev (fst (handle now ms states rs))) i =
     map_option ms_status (map_of (rev states) i)"
  by (cases rs) (simp add: handle_def Let_def map_of_from_entries rev_map map_of_map[of _ "rev states"])

definition changed ::
  "(string, match_state_dto) dict \<Rightarrow> string \<times> match_state_dto \<Rightarrow> bool" where
  "changed before k \<longleftrightarrow> status_of before (fst k) \<noteq> Some (ms_status (snd k))"

definition trail_entry :: "string \<Rightarrow> match_dto list \<Rightarrow> string \<times> match_state_dto \<Rightarrow> alert_entry" where
  "trail_entry now ms k = activity_entry now ms (fst k) (ms_status (snd k))
     (the (transitionMessage (ms_status (snd k)) (ms_score (snd k) \<noteq> None)))"

text \<open>C9. Between two snapshots the trail gains, newest first, one entry for each match whose status
  differs between them, except that a match that is retired leaves none; the first snapshot is
  silent.\<close>

theorem trail_is_the_diff:
  assumes "distinct (map fst before)" "rail_wf (snd rs)"
    and first: "handle now0 ms0 before rs = (r, s)" and then_: "handle now ms states (r, s) = (r', s')"
  shows "at_activity s' = take MAX_ACTIVITY
       (rev (map (trail_entry now ms) (filter (\<lambda>k. changed before k \<and> ms_status (snd k) \<noteq> MRetired) states))
        @ at_activity s) \<and>
     (ar_seeded (fst rs) \<or> s = snd rs)"
proof -
  have seen: "map_of (ar_prev r) i = status_of before i" for i
    using seen_after[of now0 ms0 before rs i] first assms(1)
    by (simp add: status_of_def map_of_rev_distinct)
  have seeded: "ar_seeded r" using first by (auto simp: handle_def Let_def split: prod.splits if_splits)
  have "rail_wf s \<and> (ar_seeded (fst rs) \<or> s = snd rs)"
  proof -
    have info: "list_all (\<lambda>e. al_severity e = Info) (fresh_entries now0 ms0 prev before)" for prev
      by (auto simp: fresh_entries_diff activity_entry_def list_all_iff)
    have "rail_wf (fold logActivity es t)" if "rail_wf t" "list_all (\<lambda>e. al_severity e = Info) es" for es t
      using that by (induction es arbitrary: t) (auto intro: logActivity_wf)
    then show ?thesis using first assms(2) info by (auto simp: handle_def Let_def split: prod.splits if_splits)
  qed
  moreover have "fresh_entries now ms (ar_prev r) states =
      map (trail_entry now ms) (filter (\<lambda>k. changed before k \<and> ms_status (snd k) \<noteq> MRetired) states)"
    by (auto simp: fresh_entries_diff surfaced_def changed_def trail_entry_def seen case_prod_beta')
  ultimately show ?thesis using then_ seeded
    by (auto simp: handle_def Let_def fold_logActivity rail_wf_def split: prod.splits)
qed

theorem trail_is_the_diff_witness:
  "map al_message (at_activity (snd (handle ''t'' []
      [(''m'', bare_match_state ''m'' MCalled), (''n'', bare_match_state ''n'' MRetired)]
      (handle ''s'' [] [(''m'', bare_match_state ''m'' MScheduled)]
        (\<lparr>ar_seeded = False, ar_prev = []\<rparr>, \<lparr>at_conditions = [], at_activity = []\<rparr>)))))
   = [Some ''called to court'']"
  using trail_is_the_diff[of "[(''m'', bare_match_state ''m'' MScheduled)]"
      "(\<lparr>ar_seeded = False, ar_prev = []\<rparr>, \<lparr>at_conditions = [], at_activity = []\<rparr>)" "''s''" "[]" _ _
      "''t''" "[]" "[(''m'', bare_match_state ''m'' MCalled), (''n'', bare_match_state ''n'' MRetired)]",
      OF _ _ prod.collapse[symmetric] prod.collapse[symmetric]]
  by (simp add: rail_wf_def MAX_ACTIVITY_def changed_def status_of_def bare_match_state_def trail_entry_def
      activity_entry_def handle_def from_entries_def)

end
