(* ===== verification/LiveTracking.thy ===== *)
theory LiveTracking
  imports Notices
begin

text \<open>
  \<open>hooks/useLiveTracking.ts\<close>, the status writes of the live board: a press walks the match machine
  one write per hop, each write optimistic, versioned and rolled back or refetched when refused; with
  \<open>lib/pollPolicy.ts\<close> and the version handling of \<open>api/client.ts\<close>. The browser and the server are one
  parameter, the record \<open>live_host\<close>, threading a state of its own; one press runs at a time.
\<close>

section \<open>Versions on the wire\<close>

text \<open>\<open>parseInt(text, 10)\<close>: white space, a sign, the longest run of digits; \<open>None\<close> for \<open>NaN\<close>.\<close>

definition parse_int :: "string \<Rightarrow> int option" where
  "parse_int text =
     (let (sgn, rest) = split_sign (dropWhile js_space text);
          ds = takeWhile is_digit rest
      in if ds = [] then None else Some (sgn * int (parse_nat ds)))"

definition strip_etag :: "string \<Rightarrow> string" where
  "strip_etag etag =
     (let weak = (if take 2 etag = ''W/'' then drop 2 etag else etag);
          opened = (if take 1 weak = [CHR 0x22] then drop 1 weak else weak)
      in if opened \<noteq> [] \<and> last opened = CHR 0x22 then butlast opened else opened)"

definition etag_version :: "string option \<Rightarrow> int option" where
  "etag_version etag = Option.bind etag (\<lambda>e. parse_int (strip_etag e))"

section \<open>The host\<close>

text \<open>A request that throws before it has a status is \<open>None\<close> in \<open>pf_status\<close>; \<open>pf_text\<close> is the
  message of the thrown error, \<open>None\<close> when what is thrown is no \<open>Error\<close>.\<close>

datatype put_reply =
    PutOk (po_state: match_state_dto) (po_etag: "string option")
  | PutFailed (pf_status: "int option") (pf_body: "string option") (pf_text: "string option")

record poll_error =
  pe_status :: "int option"
  pe_response_status :: "int option"
  pe_message :: "string option"

record 'w live_host =
  lh_now :: "'w \<Rightarrow> string \<times> 'w"
  lh_uuid :: "'w \<Rightarrow> string \<times> 'w"
  lh_put :: "string \<Rightarrow> string \<Rightarrow> match_state_dto \<Rightarrow> int \<Rightarrow> 'w \<Rightarrow> put_reply \<times> 'w"
  lh_head :: "string \<Rightarrow> string \<Rightarrow> 'w \<Rightarrow> (int \<times> string option) option \<times> 'w"
  lh_state :: "string \<Rightarrow> string \<Rightarrow> 'w \<Rightarrow> match_state_dto option \<times> 'w"
  lh_states :: "string \<Rightarrow> 'w \<Rightarrow> (poll_error + (string, match_state_dto) dict) \<times> 'w"
  lh_reset :: "string \<Rightarrow> 'w \<Rightarrow> bool \<times> 'w"

text \<open>\<open>getMatchVersion\<close> accepts every status, so it throws only when the request itself does.\<close>

definition getMatchVersion :: "'w live_host \<Rightarrow> string \<Rightarrow> string \<Rightarrow> 'w \<Rightarrow> int option \<times> 'w" where
  "getMatchVersion host tid matchId w =
     (case lh_head host tid matchId w of
        (None, w') \<Rightarrow> (None, w')
      | (Some (status, etag), w') \<Rightarrow>
          (Some (if 200 \<le> status \<and> status < 300 then or_else (etag_version etag) 0 else 0), w'))"

datatype write_error =
    MatchVersionMismatch int string
  | OtherError "string option"

definition updateMatchState ::
  "'w live_host \<Rightarrow> string \<Rightarrow> string \<Rightarrow> match_state_dto \<Rightarrow> int \<Rightarrow> 'w \<Rightarrow>
   (write_error + match_state_dto \<times> int) \<times> 'w" where
  "updateMatchState host tid matchId update version w =
     (case lh_put host tid matchId update version w of
        (PutOk state etag, w') \<Rightarrow> (Inr (state, or_else (etag_version etag) (version + 1)), w')
      | (PutFailed status body text, w') \<Rightarrow>
          (case status of
             Some st \<Rightarrow>
               if st = 412 \<or> st = 409
               then (Inl (MatchVersionMismatch st
                       (or_else (or_opt body text) ''Match version mismatch'')), w')
               else (Inl (OtherError text), w')
           | None \<Rightarrow> (Inl (OtherError text), w')))"

definition isTerminalPollError :: "poll_error \<Rightarrow> bool" where
  "isTerminalPollError err \<longleftrightarrow>
     (let status = or_opt (pe_status err) (pe_response_status err)
      in status = Some 401 \<or> status = Some 403 \<or> status = Some 404 \<or> status = Some 410)"

section \<open>The state of the hook\<close>

text \<open>The partial record \<open>additionalData\<close> is the update its spread performs.\<close>

record press_request =
  pr_matchId :: string
  pr_status :: match_status
  pr_data :: "match_state_dto \<Rightarrow> match_state_dto"

text \<open>\<open>lt_wire\<close> records each write put on the wire: the status the board showed and the one sent.\<close>

record 'w live =
  lt_store :: match_store
  lt_toasts :: "press_request toast list"
  lt_wire :: "(match_status \<times> match_status) list"
  lt_world :: 'w

text \<open>What the closure captures.\<close>

record live_scope =
  ls_tid :: string
  ls_tokenMode :: bool
  ls_role :: "tournament_role option"
  ls_matches :: "match_dto list"

definition host_call :: "('w \<Rightarrow> 'x \<times> 'w) \<Rightarrow> 'w live \<Rightarrow> 'x \<times> 'w live" where
  "host_call f s = (let (x, w) = f (lt_world s) in (x, s\<lparr>lt_world := w\<rparr>))"

definition on_store :: "(match_store \<Rightarrow> match_store) \<Rightarrow> 'w live \<Rightarrow> 'w live" where
  "on_store f s = s\<lparr>lt_store := f (lt_store s)\<rparr>"

definition show_toast :: "'w live_host \<Rightarrow> press_request toast_body \<Rightarrow> 'w live \<Rightarrow> 'w live" where
  "show_toast host b s =
     (let (i, s') = host_call (lh_uuid host) s
      in s'\<lparr>lt_toasts := snd (pushToast i b (lt_toasts s'))\<rparr>)"

text \<open>The version to send: the cache, else a read, else 0; what was read is cached.\<close>

definition resolve_version ::
  "'w live_host \<Rightarrow> string \<Rightarrow> string \<Rightarrow> 'w live \<Rightarrow> int \<times> 'w live" where
  "resolve_version host tid matchId s =
     (case map_of (st_canonicalVersionsByMatchId (lt_store s)) matchId of
        Some v \<Rightarrow> (v, s)
      | None \<Rightarrow>
          (let (r, s') = host_call (getMatchVersion host tid matchId) s; v = or_else r 0
           in (v, on_store (setMatchVersion matchId v) s')))"

definition echo_merge :: "match_state_dto \<Rightarrow> match_state_dto \<Rightarrow> match_state_dto" where
  "echo_merge serverState newState = merge_one serverState (Some newState)"

section \<open>One write\<close>

definition stamped :: "match_status \<Rightarrow> match_state_dto \<Rightarrow> string \<Rightarrow> match_state_dto \<Rightarrow> match_state_dto" where
  "stamped status currentState now newState =
     (let absent = (\<lambda>t. t = None \<or> t = Some []);
          n1 = (if status = MCalled \<and> absent (ms_calledAt currentState)
                then newState\<lparr>ms_calledAt := Some now\<rparr> else newState);
          n2 = (if status = MStarted \<and> absent (ms_actualStartTime currentState)
                then n1\<lparr>ms_actualStartTime := Some now\<rparr> else n1)
      in if status = MFinished \<and> absent (ms_actualEndTime currentState)
         then n2\<lparr>ms_actualEndTime := Some now\<rparr> else n2)"

definition moved_on_toast :: "live_scope \<Rightarrow> string \<Rightarrow> string \<Rightarrow> press_request toast_body" where
  "moved_on_toast sc matchId msg =
     \<lparr>tb_level = TWarn, tb_message = matchLabel (ls_matches sc) matchId @ '' already moved on'',
      tb_detail = Some (msg @ ''. The board has been re-synced to the server.''),
      tb_actionLabel = None, tb_onAction = None, tb_durationMs = None\<rparr>"

definition retry_toast :: "live_scope \<Rightarrow> press_request \<Rightarrow> string \<Rightarrow> string \<Rightarrow> press_request toast_body" where
  "retry_toast sc p what detail =
     \<lparr>tb_level = TError, tb_message = matchLabel (ls_matches sc) (pr_matchId p) @ what,
      tb_detail = Some detail, tb_actionLabel = Some ''Retry'', tb_onAction = Some p, tb_durationMs = None\<rparr>"

text \<open>The refetch after a 412 or 409, with the rollback when it fails.\<close>

definition refetch ::
  "'w live_host \<Rightarrow> string \<Rightarrow> string \<Rightarrow> match_status \<Rightarrow> 'w live \<Rightarrow> 'w live" where
  "refetch host tid matchId previousStatus s =
     (case host_call (lh_state host tid matchId) s of
        (None, s1) \<Rightarrow> on_store (applyOptimisticStatus matchId previousStatus) s1
      | (Some fresh, s1) \<Rightarrow>
          (case host_call (getMatchVersion host tid matchId) (on_store (setMatchState matchId fresh) s1) of
             (None, s2) \<Rightarrow> s2
           | (Some v, s2) \<Rightarrow> on_store (setMatchVersion matchId v) s2))"

definition settle_write ::
  "'w live_host \<Rightarrow> live_scope \<Rightarrow> press_request \<Rightarrow> match_status \<Rightarrow> match_state_dto \<Rightarrow>
   write_error + match_state_dto \<times> int \<Rightarrow> 'w live \<Rightarrow> 'w live" where
  "settle_write host sc p previousStatus newState reply s =
     (case reply of
        Inr (serverState, newVersion) \<Rightarrow>
          on_store (setMatchVersion (pr_matchId p) newVersion)
            (on_store (setMatchState (pr_matchId p) (echo_merge serverState newState)) s)
      | Inl (MatchVersionMismatch st msg) \<Rightarrow>
          show_toast host (if st = 409 then moved_on_toast sc (pr_matchId p) msg
                      else retry_toast sc p '': version mismatch'' msg)
            (refetch host (ls_tid sc) (pr_matchId p) previousStatus s)
      | Inl (OtherError text) \<Rightarrow>
          show_toast host (retry_toast sc p '' did not save'' (or_else text ''Network error'')) s)"

definition state_in :: "match_store \<Rightarrow> string \<Rightarrow> match_status \<Rightarrow> match_state_dto" where
  "state_in st matchId d = or_else (map_of (st_matchStates st) matchId) (bare_match_state matchId d)"

definition send_write :: "'w live_host \<Rightarrow> live_scope \<Rightarrow> press_request \<Rightarrow> 'w live \<Rightarrow> 'w live" where
  "send_write host sc p s =
     (let i = pr_matchId p;
          currentState = state_in (lt_store s) i MScheduled;
          (now, s1) = host_call (lh_now host) s;
          newState = stamped (pr_status p) currentState now
            (pr_data p (currentState\<lparr>ms_matchId := i, ms_status := pr_status p\<rparr>));
          (version, s2) = resolve_version host (ls_tid sc) i s1;
          s3 = on_store (setMatchState i newState) s2;
          (reply, s4) = host_call (updateMatchState host (ls_tid sc) i newState version) s3;
          s5 = s4\<lparr>lt_wire := lt_wire s4 @ [(ms_status currentState, ms_status newState)]\<rparr>
      in settle_write host sc p (ms_status currentState) newState reply s5)"

section \<open>A press\<close>

text \<open>The promise of a press: fulfilled, or rejected with a message.\<close>

type_synonym 'w pressed = "'w live \<times> string option"

text \<open>The loop over the intermediate hops: the first rejection ends it. Running out of fuel is
  \<open>None\<close>.\<close>

fun walk_on :: "(match_status \<Rightarrow> 'w live \<Rightarrow> 'w pressed option) \<Rightarrow> match_status list \<Rightarrow> 'w live \<Rightarrow>
  'w pressed option" where
  "walk_on hop [] s = Some (s, None)"
| "walk_on hop (t # ts) s =
     (case hop t s of
        None \<Rightarrow> None
      | Some (s', Some e) \<Rightarrow> Some (s', Some e)
      | Some (s', None) \<Rightarrow> walk_on hop ts s')"

definition believed :: "match_store \<Rightarrow> string \<Rightarrow> match_status" where
  "believed st matchId = or_else (shown_status st matchId) MScheduled"

definition quoted :: "string \<Rightarrow> string" where
  "quoted s = [CHR 0x27] @ s @ [CHR 0x27]"

definition bad_transition :: "match_status \<Rightarrow> match_status \<Rightarrow> string" where
  "bad_transition a b = ''Invalid state transition: cannot go from '' @ quoted (status_text a) @ '' to ''
     @ quoted (status_text b)"

definition gate :: "'w live_host \<Rightarrow> live_scope \<Rightarrow> 'w live \<Rightarrow> bool \<times> 'w live" where
  "gate host sc s =
     (if ls_tokenMode sc then (False, s)
      else if canEdit (ls_role sc) then (True, s) else (False, show_toast host view_only_toast s))"

primrec updateMatchStatus ::
  "nat \<Rightarrow> 'w live_host \<Rightarrow> live_scope \<Rightarrow> press_request \<Rightarrow> 'w live \<Rightarrow> 'w pressed option" where
  "updateMatchStatus 0 host sc p s = None"
| "updateMatchStatus (Suc n) host sc p s =
     (case gate host sc s of
        (False, s') \<Rightarrow> Some (s', None)
      | (True, s) \<Rightarrow>
          (let startStatus = believed (lt_store s) (pr_matchId p)
           in case transitionPath startStatus (pr_status p) of
                None \<Rightarrow> Some (s, Some (bad_transition startStatus (pr_status p)))
              | Some path \<Rightarrow>
                  (case walk_on (\<lambda>t. updateMatchStatus n host sc
                           \<lparr>pr_matchId = pr_matchId p, pr_status = t, pr_data = \<lambda>m. m\<rparr>) (butlast path) s of
                     None \<Rightarrow> None
                   | Some (s', Some e) \<Rightarrow> Some (s', Some e)
                   | Some (s', None) \<Rightarrow>
                       if 1 < length path \<and>
                          believed (lt_store s') (pr_matchId p) \<noteq> path ! (length path - 2)
                       then Some (s', None)
                       else Some (send_write host sc p s', None))))"

section \<open>The other writers\<close>

definition setMatchScore ::
  "'w live_host \<Rightarrow> live_scope \<Rightarrow> string \<Rightarrow> set_score \<Rightarrow> string option \<Rightarrow> 'w live \<Rightarrow> 'w live \<times> write_error option" where
  "setMatchScore host sc matchId score notes s =
     (case gate host sc s of
        (False, s') \<Rightarrow> (s', None)
      | (True, s) \<Rightarrow>
          (let (version, s1) = resolve_version host (ls_tid sc) matchId s;
               (now, s2) = host_call (lh_now host) s1;
               update = (bare_match_state matchId MFinished)\<lparr>ms_score := Some score, ms_notes := notes,
                 ms_actualEndTime := Some now\<rparr>;
               (reply, s3) = host_call (updateMatchState host (ls_tid sc) matchId update version) s2;
               s4 = s3\<lparr>lt_wire := lt_wire s3 @ [(believed (lt_store s3) matchId, MFinished)]\<rparr>
           in case reply of
                Inr (updated, newVersion) \<Rightarrow>
                  (on_store (setMatchVersion matchId newVersion) (on_store (setMatchState matchId updated) s4), None)
              | Inl e \<Rightarrow> (s4, Some e)))"

definition confirmPlayer ::
  "'w live_host \<Rightarrow> live_scope \<Rightarrow> string \<Rightarrow> string \<Rightarrow> bool \<Rightarrow> 'w live \<Rightarrow> 'w live" where
  "confirmPlayer host sc matchId playerId confirmed s =
     (case gate host sc s of
        (False, s') \<Rightarrow> s'
      | (True, s) \<Rightarrow>
          (let currentState = state_in (lt_store s) matchId MCalled;
               newState = currentState\<lparr>ms_playerConfirmations :=
                 Some (AList.update playerId confirmed (or_else (ms_playerConfirmations currentState) []))\<rparr>;
               s1 = on_store (setMatchState matchId newState) s;
               (version, s2) = resolve_version host (ls_tid sc) matchId s1;
               (reply, s3) = host_call (updateMatchState host (ls_tid sc) matchId newState version) s2;
               s4 = s3\<lparr>lt_wire := lt_wire s3 @ [(ms_status currentState, ms_status newState)]\<rparr>
           in case reply of
                Inr (serverState, newVersion) \<Rightarrow>
                  on_store (setMatchVersion matchId newVersion)
                    (on_store (setMatchState matchId (echo_merge serverState newState)) s4)
              | Inl e \<Rightarrow> s4))"

definition resetStates :: "'w live_host \<Rightarrow> live_scope \<Rightarrow> 'w live \<Rightarrow> 'w live \<times> bool" where
  "resetStates host sc s =
     (if ls_tokenMode sc then (s, True)
      else case host_call (lh_reset host (ls_tid sc)) s of
             (True, s') \<Rightarrow> (on_store (setMatchStates []) s', True)
           | (False, s') \<Rightarrow> (s', False))"

section \<open>Polling\<close>

record poll_state =
  ps_terminalFor :: "string option"
  ps_syncError :: "string option"

definition pollTerminal :: "string \<Rightarrow> poll_state \<Rightarrow> bool" where
  "pollTerminal pollSource ps \<longleftrightarrow> pollSource \<noteq> [] \<and> ps_terminalFor ps = Some pollSource"

definition syncMatchStates ::
  "'w live_host \<Rightarrow> string \<Rightarrow> 'w live \<times> poll_state \<Rightarrow> 'w live \<times> poll_state" where
  "syncMatchStates host pollSource sp =
     (let (s, ps) = sp
      in if pollSource = [] then (s, ps)
         else case host_call (lh_states host pollSource) s of
           (Inr backendStates, s') \<Rightarrow>
             (on_store (\<lambda>st. setMatchStates (mergeMatchStates backendStates (st_matchStates st)) st) s',
              ps\<lparr>ps_syncError := None\<rparr>)
         | (Inl err, s') \<Rightarrow>
             (s', \<lparr>ps_terminalFor = (if isTerminalPollError err then Some pollSource else ps_terminalFor ps),
                   ps_syncError = Some (or_else (pe_message err) ''Connection lost'')\<rparr>))"

text \<open>One tick of the interval: not while hidden, and never again once the source is terminal.\<close>

definition poll_tick ::
  "'w live_host \<Rightarrow> string \<Rightarrow> bool \<Rightarrow> 'w live \<times> poll_state \<Rightarrow> 'w live \<times> poll_state" where
  "poll_tick host pollSource hidden sp =
     (if pollTerminal pollSource (snd sp) \<or> hidden then sp else syncMatchStates host pollSource sp)"

section \<open>Progress\<close>

record progress_stats =
  pg_total :: int
  pg_finished :: int
  pg_inProgress :: int

definition with_status ::
  "(string, match_state_dto) dict \<Rightarrow> match_status \<Rightarrow> schedule_assignment list \<Rightarrow> schedule_assignment list" where
  "with_status matchStates st = filter (\<lambda>a. status_of matchStates (as_matchId a) = Some st)"

definition progressStats ::
  "schedule_assignment list \<Rightarrow> (string, match_state_dto) dict \<Rightarrow> progress_stats" where
  "progressStats scheduledAssignments matchStates =
     \<lparr>pg_total = int (length scheduledAssignments),
      pg_finished = int (length (with_status matchStates MFinished scheduledAssignments)),
      pg_inProgress = int (length (with_status matchStates MStarted scheduledAssignments))\<rparr>"

definition pg_remaining :: "progress_stats \<Rightarrow> int" where
  "pg_remaining g = pg_total g - pg_finished g"

text \<open>\<open>Math.round\<close> of a quotient rounds a half upwards.\<close>

definition pg_percentage :: "progress_stats \<Rightarrow> int" where
  "pg_percentage g =
     (if pg_total g > 0 then (200 * pg_finished g + pg_total g) div (2 * pg_total g) else 0)"

record by_status =
  bs_scheduled :: "schedule_assignment list"
  bs_called :: "schedule_assignment list"
  bs_started :: "schedule_assignment list"
  bs_finished :: "schedule_assignment list"

definition matchesByStatus ::
  "schedule_assignment list \<Rightarrow> (string, match_state_dto) dict \<Rightarrow> by_status" where
  "matchesByStatus scheduledAssignments matchStates =
     \<lparr>bs_scheduled = filter (\<lambda>a. status_of matchStates (as_matchId a) = None
          \<or> status_of matchStates (as_matchId a) = Some MScheduled) scheduledAssignments,
      bs_called = with_status matchStates MCalled scheduledAssignments,
      bs_started = with_status matchStates MStarted scheduledAssignments,
      bs_finished = with_status matchStates MFinished scheduledAssignments\<rparr>"

section \<open>A press ends\<close>

lemma walk_on_mono:
  assumes "\<And>t s r. hop t s = Some r \<Longrightarrow> hop' t s = Some r" "walk_on hop ts s = Some r"
  shows "walk_on hop' ts s = Some r"
  using assms(2)
proof (induction ts arbitrary: s)
  case (Cons t ts)
  then obtain s' e where h: "hop t s = Some (s', e)" by (auto split: option.splits)
  with Cons show ?case by (auto simp: assms(1)[OF h] split: option.splits)
qed simp

lemma more_fuel:
  "updateMatchStatus n host sc p s = Some r \<Longrightarrow> updateMatchStatus (Suc n) host sc p s = Some r"
proof (induction n arbitrary: p s r)
  case (Suc n)
  let ?hop = "\<lambda>k t. updateMatchStatus k host sc \<lparr>pr_matchId = pr_matchId p, pr_status = t, pr_data = \<lambda>m. m\<rparr>"
  have up: "walk_on (?hop (Suc n)) ts s = Some r" if "walk_on (?hop n) ts s = Some r" for ts s r
    using walk_on_mono[of "?hop n" "?hop (Suc n)" ts s r] Suc.IH that by blast
  show ?case
  proof (cases "gate host sc s")
    case (Pair ok s1)
    show ?thesis
    proof (cases "ok \<and> transitionPath (believed (lt_store s1) (pr_matchId p)) (pr_status p) \<noteq> None")
      case True
      then obtain path where path: "transitionPath (believed (lt_store s1) (pr_matchId p)) (pr_status p) = Some path"
        by blast
      obtain s2 e where w: "walk_on (?hop n) (butlast path) s1 = Some (s2, e)"
        using Suc.prems Pair True path by (auto simp: Let_def split: option.splits)
      show ?thesis
        using Suc.prems Pair True path w up[OF w]
        by (simp del: updateMatchStatus.simps(2) add: updateMatchStatus.simps(2)[of n]
            updateMatchStatus.simps(2)[of "Suc n"])
    next
      case False
      then show ?thesis using Suc.prems Pair by (auto simp: Let_def split: bool.splits)
    qed
  qed
qed simp

lemma gate_passed: "gate host sc s = (True, s') \<Longrightarrow> s' = s"
  by (simp add: gate_def split: if_splits)

lemma press_returns_if_walk_does:
  assumes "\<And>path. transitionPath (believed (lt_store s) (pr_matchId p)) (pr_status p) = Some path \<Longrightarrow>
     walk_on (\<lambda>t. updateMatchStatus n host sc
       \<lparr>pr_matchId = pr_matchId p, pr_status = t, pr_data = \<lambda>m. m\<rparr>) (butlast path) s \<noteq> None"
  shows "updateMatchStatus (Suc n) host sc p s \<noteq> None"
  using assms by (auto simp: Let_def dest!: gate_passed split: prod.splits bool.splits option.splits)

text \<open>The intermediate hops of a path: none, one, or two of which the second is a state that is
  reached in at most two hops from anywhere.\<close>

fun short_walk :: "match_status \<Rightarrow> match_status list \<Rightarrow> bool" where
  "short_walk a [] = True"
| "short_walk a [x] = isValidTransition a x"
| "short_walk a [x, y] = (isValidTransition a x \<and> (y = MScheduled \<or> y = MStarted))"
| "short_walk a _ = False"

lemma any_path: "transitionPath a t = Some path \<Longrightarrow> short_walk a (butlast path)"
  by (cases a; cases t; simp add: transitionPath_table isValidTransition_def; hypsubst;
      simp add: isValidTransition_def)

lemma near_path:
  "transitionPath a t = Some path \<Longrightarrow> t = MScheduled \<or> t = MStarted \<Longrightarrow> length (butlast path) < 2"
  by (cases a; cases t; simp add: transitionPath_table isValidTransition_def; hypsubst;
      simp add: isValidTransition_def)

lemma last_hop_legal:
  "transitionPath a t = Some path \<Longrightarrow> 1 < length path \<Longrightarrow> isValidTransition (path ! (length path - 2)) t"
  by (cases a; cases t; simp add: transitionPath_table isValidTransition_def; hypsubst;
      simp add: isValidTransition_def)

lemma walk_on_returns:
  assumes "short_walk a ts" "\<And>x. isValidTransition a x \<Longrightarrow> hop x s \<noteq> None"
    and "\<And>y u. 2 \<le> length ts \<Longrightarrow> y = MScheduled \<or> y = MStarted \<Longrightarrow> hop y u \<noteq> None"
  shows "walk_on hop ts s \<noteq> None"
  using assms(1)
proof (cases rule: short_walk.elims(2))
  case (2 x)
  then show ?thesis using assms(2)[of x] by (auto split: option.splits)
next
  case (3 x y)
  then obtain u e where "hop x s = Some (u, e)" using assms(2)[of x] by auto
  moreover have "hop y u \<noteq> None" using assms(3) 3 by simp
  ultimately show ?thesis using 3 by (auto split: option.splits)
qed simp_all

abbreviation hop_press :: "press_request \<Rightarrow> match_status \<Rightarrow> press_request" where
  "hop_press p t \<equiv> \<lparr>pr_matchId = pr_matchId p, pr_status = t, pr_data = \<lambda>m. m\<rparr>"

lemma direct_press_returns:
  assumes "isValidTransition (believed (lt_store s) (pr_matchId p)) (pr_status p)"
  shows "updateMatchStatus (Suc n) host sc p s \<noteq> None"
  by (rule press_returns_if_walk_does) (use assms in \<open>auto simp: transitionPath_def\<close>)

lemma near_press_returns:
  assumes "pr_status p = MScheduled \<or> pr_status p = MStarted"
  shows "updateMatchStatus (Suc (Suc n)) host sc p s \<noteq> None"
proof (rule press_returns_if_walk_does)
  fix path assume path: "transitionPath (believed (lt_store s) (pr_matchId p)) (pr_status p) = Some path"
  show "walk_on (\<lambda>t. updateMatchStatus (Suc n) host sc (hop_press p t)) (butlast path) s \<noteq> None"
    by (rule walk_on_returns[OF any_path[OF path]])
       (use direct_press_returns[of s "hop_press p _" n host sc] near_path[OF path assms] in simp_all)
qed

lemma press_returns: "updateMatchStatus (Suc (Suc (Suc n))) host sc p s \<noteq> None"
proof (rule press_returns_if_walk_does)
  fix path assume path: "transitionPath (believed (lt_store s) (pr_matchId p)) (pr_status p) = Some path"
  show "walk_on (\<lambda>t. updateMatchStatus (Suc (Suc n)) host sc (hop_press p t)) (butlast path) s \<noteq> None"
    by (rule walk_on_returns[OF any_path[OF path]])
       (rule direct_press_returns near_press_returns, simp)+
qed

section \<open>What goes on the wire\<close>

declare updateMatchStatus.simps(2) [simp del]

lemma host_call_views [simp]:
  "lt_wire (snd (host_call f s)) = lt_wire s" "lt_store (snd (host_call f s)) = lt_store s"
  "lt_toasts (snd (host_call f s)) = lt_toasts s"
  by (simp_all add: host_call_def case_prod_beta)

lemma on_store_views [simp]:
  "lt_wire (on_store f s) = lt_wire s" "lt_store (on_store f s) = f (lt_store s)"
  "lt_toasts (on_store f s) = lt_toasts s" "lt_world (on_store f s) = lt_world s"
  by (simp_all add: on_store_def)

lemma toast_views_live [simp]:
  "lt_wire (show_toast host b s) = lt_wire s" "lt_store (show_toast host b s) = lt_store s"
  by (simp_all add: show_toast_def case_prod_beta)

lemma refetch_wire [simp]: "lt_wire (refetch host tid i st s) = lt_wire s"
  by (auto simp: refetch_def case_prod_beta split: option.split)

lemma resolve_version_wire [simp]: "lt_wire (snd (resolve_version host tid i s)) = lt_wire s"
  by (auto simp: resolve_version_def case_prod_beta Let_def split: option.split)

lemma settle_write_wire [simp]: "lt_wire (settle_write host sc p st new reply s) = lt_wire s"
  by (auto simp: settle_write_def split: sum.split write_error.split)

lemma gate_views [simp]:
  "lt_wire (snd (gate host sc s)) = lt_wire s" "lt_store (snd (gate host sc s)) = lt_store s"
  by (simp_all add: gate_def)

lemma state_in_status: "ms_status (state_in st i MScheduled) = believed st i"
  by (simp add: state_in_def believed_def shown_status_def bare_match_state_def)
     (cases "map_of (st_matchStates st) i", simp_all)

lemma stamped_status [simp]: "ms_status (stamped st cur now new) = ms_status new"
  by (simp add: stamped_def Let_def)

definition keeps_status :: "(match_state_dto \<Rightarrow> match_state_dto) \<Rightarrow> bool" where
  "keeps_status f \<longleftrightarrow> (\<forall>m. ms_status (f m) = ms_status m)"

lemma keeps_status_id [simp]: "keeps_status (\<lambda>m. m)"
  by (simp add: keeps_status_def)

lemma send_write_wire:
  "keeps_status (pr_data p) \<Longrightarrow>
   lt_wire (send_write host sc p s) = lt_wire s @ [(believed (lt_store s) (pr_matchId p), pr_status p)]"
  by (simp add: send_write_def case_prod_beta Let_def state_in_status keeps_status_def)

definition legal_writes :: "(match_status \<times> match_status) list \<Rightarrow> bool" where
  "legal_writes ws \<longleftrightarrow> list_all (\<lambda>(a, b). isValidTransition a b) ws"

definition writes_on :: "'w live \<Rightarrow> 'w live \<Rightarrow> bool" where
  "writes_on s s' \<longleftrightarrow> (\<exists>ws. lt_wire s' = lt_wire s @ ws \<and> legal_writes ws)"

lemma writes_on_same: "lt_wire s' = lt_wire s \<Longrightarrow> writes_on s s'"
  by (simp add: writes_on_def legal_writes_def)

lemma writes_on_trans: "writes_on s t \<Longrightarrow> writes_on t u \<Longrightarrow> writes_on s u"
  by (auto simp: writes_on_def legal_writes_def)

lemma walk_on_writes:
  assumes "\<And>t s s' e. hop t s = Some (s', e) \<Longrightarrow> writes_on s s'" "walk_on hop ts s = Some (s', e)"
  shows "writes_on s s'"
  using assms(2)
proof (induction ts arbitrary: s)
  case Nil
  then show ?case by (simp add: writes_on_same)
next
  case (Cons t ts)
  obtain u d where h: "hop t s = Some (u, d)" using Cons.prems by (auto split: option.splits)
  have "writes_on s u" by (rule assms(1)[OF h])
  then show ?case using Cons h by (auto split: option.splits intro: writes_on_trans)
qed

text \<open>A press past the gate, taken apart.\<close>

lemma press_cases:
  assumes "updateMatchStatus (Suc n) host sc p s = Some (s', e)"
  obtains (refused) "fst (gate host sc s) = False" "s' = snd (gate host sc s)" "e = None"
  | (no_path) "transitionPath (believed (lt_store s) (pr_matchId p)) (pr_status p) = None" "s' = s" "e \<noteq> None"
  | (rejected) path where "transitionPath (believed (lt_store s) (pr_matchId p)) (pr_status p) = Some path"
      "walk_on (\<lambda>t. updateMatchStatus n host sc (hop_press p t)) (butlast path) s = Some (s', e)" "e \<noteq> None"
  | (lost) path where "transitionPath (believed (lt_store s) (pr_matchId p)) (pr_status p) = Some path"
      "walk_on (\<lambda>t. updateMatchStatus n host sc (hop_press p t)) (butlast path) s = Some (s', None)"
      "e = None" "1 < length path" "believed (lt_store s') (pr_matchId p) \<noteq> path ! (length path - 2)"
  | (sent) path u where "transitionPath (believed (lt_store s) (pr_matchId p)) (pr_status p) = Some path"
      "walk_on (\<lambda>t. updateMatchStatus n host sc (hop_press p t)) (butlast path) s = Some (u, None)"
      "1 < length path \<Longrightarrow> believed (lt_store u) (pr_matchId p) = path ! (length path - 2)"
      "s' = send_write host sc p u" "e = None"
proof (cases "gate host sc s")
  case (Pair ok s1)
  show ?thesis
  proof (cases ok)
    case False
    have "Some (s1, None) = Some (s', e)"
      using assms[unfolded updateMatchStatus.simps(2) Pair] False by (simp only: prod.case bool.case)
    then show ?thesis using Pair False by (intro refused) simp_all
  next
    case True
    then have s1: "s1 = s" using gate_passed[of host sc s s1] Pair by simp
    show ?thesis
    proof (cases "transitionPath (believed (lt_store s) (pr_matchId p)) (pr_status p)")
      case None
      then have "s' = s" "e \<noteq> None" using assms Pair True s1 by (auto simp: Let_def updateMatchStatus.simps(2))
      then show ?thesis using None no_path by blast
    next
      case (Some path)
      let ?w = "walk_on (\<lambda>t. updateMatchStatus n host sc (hop_press p t)) (butlast path) s"
      have ev: "(case ?w of None \<Rightarrow> None | Some (s', Some e) \<Rightarrow> Some (s', Some e)
          | Some (s', None) \<Rightarrow>
              if 1 < length path \<and> believed (lt_store s') (pr_matchId p) \<noteq> path ! (length path - 2)
              then Some (s', None) else Some (send_write host sc p s', None)) = Some (s', e)"
        using assms Pair True s1 Some by (simp add: Let_def updateMatchStatus.simps(2))
      show ?thesis
      proof (cases ?w)
        case None
        then show ?thesis using ev by simp
      next
        case w: (Some ud)
        obtain u d where ud: "ud = (u, d)" by (cases ud)
        show ?thesis
        proof (cases d)
          case None
          show ?thesis
          proof (cases "1 < length path \<and> believed (lt_store u) (pr_matchId p) \<noteq> path ! (length path - 2)")
            case True
            then show ?thesis using ev w ud None lost[OF Some] by simp
          next
            case False
            then show ?thesis using ev w ud None sent[OF Some] by auto
          qed
        next
          case (Some d')
          then have "u = s'" "d = e" "e \<noteq> None" using ev w ud by auto
          then show ?thesis using rejected \<open>transitionPath _ _ = Some path\<close> w ud by simp
        qed
      qed
    qed
  qed
qed

lemma updateMatchStatus_writes:
  "keeps_status (pr_data p) \<Longrightarrow> updateMatchStatus n host sc p s = Some (s', e) \<Longrightarrow> writes_on s s'"
proof (induction n arbitrary: p s s' e)
  case (Suc n)
  have hop: "writes_on u u'" if "updateMatchStatus n host sc (hop_press p t) u = Some (u', d)" for t u u' d
    using Suc.IH[OF _ that] by simp
  have walked: "writes_on u u'"
    if "walk_on (\<lambda>t. updateMatchStatus n host sc (hop_press p t)) ts u = Some (u', d)" for ts u u' d
    by (rule walk_on_writes[OF _ that]) (rule hop)
  from Suc.prems(2) show ?case
  proof (cases rule: press_cases)
    case refused
    then show ?thesis by (simp add: writes_on_same)
  next
    case no_path
    then show ?thesis by (simp add: writes_on_same)
  next
    case (rejected path)
    then show ?thesis using walked by blast
  next
    case (lost path)
    then show ?thesis using walked by blast
  next
    case (sent path u)
    have "isValidTransition (believed (lt_store u) (pr_matchId p)) (pr_status p)"
    proof (cases "1 < length path")
      case True
      then show ?thesis using last_hop_legal[OF sent(1)] sent(3) by simp
    next
      case False
      then obtain t where "path = [t]" using transitionPath_walk[OF sent(1)]
        by (cases path; cases "tl path") auto
      then show ?thesis using transitionPath_walk[OF sent(1)] sent(2) by auto
    qed
    then have "writes_on u s'"
      using sent(4) send_write_wire[OF Suc.prems(1), of host sc u] by (simp add: writes_on_def legal_writes_def)
    then show ?thesis using walked[OF sent(2)] writes_on_trans by blast
  qed
qed simp

section \<open>A server that keeps the contract\<close>

text \<open>
  What the client relies on, for one match: \<open>sv\<close> reads its status and version off the server's state;
  the clock, the fresh ids and the reads leave them alone, the version read is the current one, and a
  write under the current version along an edge of the table is accepted, echoed with its status and
  stored under the version of its answer.
\<close>

definition serves_match ::
  "'w live_host \<Rightarrow> string \<Rightarrow> string \<Rightarrow> ('w \<Rightarrow> match_status \<times> int) \<Rightarrow> bool" where
  "serves_match host tid i sv \<longleftrightarrow>
     (\<forall>w. sv (snd (lh_now host w)) = sv w \<and> sv (snd (lh_uuid host w)) = sv w) \<and>
     (\<forall>w. sv (snd (lh_head host tid i w)) = sv w \<and>
        (\<exists>etag. fst (lh_head host tid i w) = Some (200, etag) \<and> etag_version etag = Some (snd (sv w)))) \<and>
     (\<forall>w m. isValidTransition (fst (sv w)) (ms_status m) \<longrightarrow>
        (\<exists>body etag w'. lh_put host tid i m (snd (sv w)) w = (PutOk body etag, w') \<and>
           ms_status body = ms_status m \<and>
           sv w' = (ms_status m, or_else (etag_version etag) (snd (sv w) + 1))))"

definition in_sync :: "('w \<Rightarrow> match_status \<times> int) \<Rightarrow> string \<Rightarrow> 'w live \<Rightarrow> bool" where
  "in_sync sv i s \<longleftrightarrow> believed (lt_store s) i = fst (sv (lt_world s)) \<and>
     (case map_of (st_canonicalVersionsByMatchId (lt_store s)) i of
        None \<Rightarrow> True | Some v \<Rightarrow> v = snd (sv (lt_world s)))"

lemma believed_views [simp]:
  "believed (setMatchState i m st) i = ms_status m"
  "believed (setMatchVersion j v st) i = believed st i"
  by (simp_all add: believed_def)

lemma version_views [simp]:
  "map_of (st_canonicalVersionsByMatchId (setMatchVersion i v st)) i = Some v"
  "st_canonicalVersionsByMatchId (setMatchState i m st) = st_canonicalVersionsByMatchId st"
  by (simp_all add: setMatchVersion_def setMatchState_def)

lemma echo_merge_status [simp]: "ms_status (echo_merge a b) = ms_status a"
  by (simp add: echo_merge_def merge_one_def)

lemma resolve_version_served:
  assumes "serves_match host tid i sv" "in_sync sv i s" "resolve_version host tid i s = (v, s')"
  shows "v = snd (sv (lt_world s))" "sv (lt_world s') = sv (lt_world s)"
    "lt_toasts s' = lt_toasts s" "lt_wire s' = lt_wire s"
proof -
  have "v = snd (sv (lt_world s)) \<and> sv (lt_world s') = sv (lt_world s) \<and> lt_toasts s' = lt_toasts s \<and>
      lt_wire s' = lt_wire s"
  proof (cases "map_of (st_canonicalVersionsByMatchId (lt_store s)) i")
    case None
    obtain r w where h: "lh_head host tid i (lt_world s) = (r, w)" by (cases "lh_head host tid i (lt_world s)")
    then obtain etag where "r = Some (200, etag)" "etag_version etag = Some (snd (sv (lt_world s)))"
      "sv w = sv (lt_world s)"
      using assms(1) by (metis serves_match_def fst_conv snd_conv)
    then show ?thesis using assms(3) None h
      by (auto simp: resolve_version_def host_call_def getMatchVersion_def Let_def)
  next
    case (Some x)
    then show ?thesis using assms(2,3) by (auto simp: resolve_version_def in_sync_def)
  qed
  then show "v = snd (sv (lt_world s))" "sv (lt_world s') = sv (lt_world s)"
    "lt_toasts s' = lt_toasts s" "lt_wire s' = lt_wire s" by simp_all
qed

lemma send_write_served:
  assumes serves: "serves_match host (ls_tid sc) (pr_matchId p) sv" and sync: "in_sync sv (pr_matchId p) s"
    and keeps: "keeps_status (pr_data p)"
    and legal: "isValidTransition (believed (lt_store s) (pr_matchId p)) (pr_status p)"
  shows "in_sync sv (pr_matchId p) (send_write host sc p s) \<and>
    believed (lt_store (send_write host sc p s)) (pr_matchId p) = pr_status p \<and>
    lt_toasts (send_write host sc p s) = lt_toasts s"
proof -
  let ?i = "pr_matchId p" and ?cur = "state_in (lt_store s) (pr_matchId p) MScheduled"
  obtain now s1 where n: "host_call (lh_now host) s = (now, s1)" by fastforce
  then have s1: "sv (lt_world s1) = sv (lt_world s)" "lt_store s1 = lt_store s" "lt_toasts s1 = lt_toasts s"
    using serves by (auto simp: serves_match_def host_call_def case_prod_beta)
  obtain v s2 where r: "resolve_version host (ls_tid sc) ?i s1 = (v, s2)" by fastforce
  have "in_sync sv ?i s1" using sync s1 by (auto simp: in_sync_def split: option.split)
  note s2 = resolve_version_served[OF serves this r]
  define new where "new = stamped (pr_status p) ?cur now (pr_data p (?cur\<lparr>ms_matchId := ?i, ms_status := pr_status p\<rparr>))"
  have new: "ms_status new = pr_status p" using keeps by (simp add: new_def keeps_status_def)
  have "isValidTransition (fst (sv (lt_world s2))) (ms_status new)"
    using legal sync s1(1) s2(2) by (simp add: new in_sync_def)
  then obtain body etag w' where put: "lh_put host (ls_tid sc) ?i new v (lt_world s2) = (PutOk body etag, w')"
    "ms_status body = pr_status p" "sv w' = (pr_status p, or_else (etag_version etag) (v + 1))"
    using serves new s2(1,2) unfolding serves_match_def by metis
  let ?s3 = "on_store (setMatchState ?i new) s2"
  have reply: "host_call (updateMatchState host (ls_tid sc) ?i new v) ?s3 =
      (Inr (body, or_else (etag_version etag) (v + 1)), ?s3\<lparr>lt_world := w'\<rparr>)"
    using put(1) by (simp add: host_call_def updateMatchState_def)
  show ?thesis
    using put(2,3) s2(3) s1(3)
    by (simp add: send_write_def n r reply new_def[symmetric] Let_def s1(2) settle_write_def in_sync_def)
qed

lemma direct_press:
  assumes "\<not> ls_tokenMode sc" "canEdit (ls_role sc)"
    and "isValidTransition (believed (lt_store s) (pr_matchId p)) (pr_status p)"
  shows "updateMatchStatus (Suc n) host sc p s = Some (send_write host sc p s, None)"
  using assms by (simp add: gate_def transitionPath_def Let_def updateMatchStatus.simps(2))

text \<open>A legal walk of presses, each a single hop.\<close>

lemma walk_on_served:
  assumes serves: "serves_match host (ls_tid sc) (pr_matchId p) sv"
    and may: "\<not> ls_tokenMode sc" "canEdit (ls_role sc)"
  shows "in_sync sv (pr_matchId p) s \<Longrightarrow> walk (believed (lt_store s) (pr_matchId p)) ts \<Longrightarrow>
    \<exists>u. walk_on (\<lambda>t. updateMatchStatus (Suc n) host sc (hop_press p t)) ts s = Some (u, None) \<and>
      in_sync sv (pr_matchId p) u \<and>
      believed (lt_store u) (pr_matchId p) = last (believed (lt_store s) (pr_matchId p) # ts) \<and>
      lt_wire u = lt_wire s @ zip (believed (lt_store s) (pr_matchId p) # ts) ts \<and>
      lt_toasts u = lt_toasts s"
proof (induction ts arbitrary: s)
  case (Cons t ts)
  let ?s = "send_write host sc (hop_press p t) s"
  have legal: "isValidTransition (believed (lt_store s) (pr_matchId p)) t" using Cons.prems(2) by simp
  have sent: "in_sync sv (pr_matchId p) ?s \<and> believed (lt_store ?s) (pr_matchId p) = t \<and>
      lt_toasts ?s = lt_toasts s"
    using send_write_served[of host sc "hop_press p t" sv s] serves Cons.prems(1) legal by simp
  have wire: "lt_wire ?s = lt_wire s @ [(believed (lt_store s) (pr_matchId p), t)]"
    using send_write_wire[of "hop_press p t" host sc s] by simp
  have "walk (believed (lt_store ?s) (pr_matchId p)) ts" using Cons.prems(2) sent by simp
  then obtain u where u: "walk_on (\<lambda>t. updateMatchStatus (Suc n) host sc (hop_press p t)) ts ?s = Some (u, None)"
    "in_sync sv (pr_matchId p) u" "believed (lt_store u) (pr_matchId p) = last (t # ts)"
    "lt_wire u = lt_wire ?s @ zip (t # ts) ts" "lt_toasts u = lt_toasts s"
    using Cons.IH[of ?s] sent by auto
  have "updateMatchStatus (Suc n) host sc (hop_press p t) s = Some (?s, None)"
    by (rule direct_press) (simp_all add: may legal)
  then show ?case using u wire by simp
qed simp

lemma walk_butlast: "walk a path \<Longrightarrow> walk a (butlast path)"
  by (induction path arbitrary: a) auto

lemma walk_last_hop: "walk a path \<Longrightarrow> path \<noteq> [] \<Longrightarrow> isValidTransition (last (a # butlast path)) (last path)"
  by (induction path arbitrary: a) auto

lemma zip_hops:
  "path \<noteq> [] \<Longrightarrow> zip (a # butlast path) (butlast path) @ [(last (a # butlast path), last path)] = zip (a # path) path"
  by (induction path arbitrary: a) auto

lemma nth_before_last:
  assumes "1 < length path"
  shows "path ! (length path - 2) = last (butlast path)"
proof -
  have "butlast path \<noteq> []" using assms by (cases path rule: rev_cases) auto
  then show ?thesis using assms by (simp add: last_conv_nth nth_butlast numeral_2_eq_2)
qed

section \<open>Two servers\<close>

text \<open>A quoted version survives the wire.\<close>

definition etag_of :: "nat \<Rightarrow> string" where
  "etag_of v = [CHR 0x22] @ nat_text v @ [CHR 0x22]"

lemma etag_roundtrip [simp]: "etag_version (Some (etag_of v)) = Some (int v)"
proof -
  have d: "all_digits (nat_text v)" by (rule all_digits_nat_text)
  then obtain c cs where cs: "nat_text v = c # cs" by (cases "nat_text v") (auto simp: all_digits_def)
  have c: "is_digit c" using d by (simp add: cs all_digits_def)
  have "\<not> js_space c" using c by (rule digit_not_space)
  moreover have "c \<noteq> CHR ''+''" "c \<noteq> CHR ''-''" using c by (auto simp: is_digit_def)
  moreover have "takeWhile is_digit (nat_text v) = nat_text v"
    using d by (simp add: all_digits_def list_all_iff)
  ultimately have "parse_int (nat_text v) = Some (int v)"
    by (simp add: parse_int_def split_sign_def cs parse_nat_text[of v, unfolded cs])
  moreover have "strip_etag (etag_of v) = nat_text v"
    by (simp add: strip_etag_def etag_of_def Let_def take_Cons' last_append)
  ultimately show ?thesis by (simp add: etag_version_def)
qed

text \<open>A server that holds the status and the version of one match and keeps the contract, and one that
  cannot be reached.\<close>

definition contract_server :: "(match_status \<times> nat) live_host" where
  "contract_server = \<lparr>lh_now = (\<lambda>w. (''t'', w)), lh_uuid = (\<lambda>w. (''u'', w)),
     lh_put = (\<lambda>tid i m v w.
       if v \<noteq> int (snd w) then (PutFailed (Some 412) None (Some ''stale''), w)
       else if isValidTransition (fst w) (ms_status m)
            then (PutOk m (Some (etag_of (Suc (snd w)))), (ms_status m, Suc (snd w)))
            else (PutFailed (Some 409) None (Some ''conflict''), w)),
     lh_head = (\<lambda>tid i w. (Some (200, Some (etag_of (snd w))), w)),
     lh_state = (\<lambda>tid i w. (Some (bare_match_state i (fst w)), w)),
     lh_states = (\<lambda>tid w. (Inr [], w)),
     lh_reset = (\<lambda>tid w. (True, (MScheduled, snd w)))\<rparr>"

definition offline_server :: "(match_status \<times> nat) live_host" where
  "offline_server = contract_server\<lparr>
     lh_put := (\<lambda>tid i m v w. (PutFailed None None (Some ''Network error''), w)),
     lh_head := (\<lambda>tid i w. (None, w)), lh_state := (\<lambda>tid i w. (None, w))\<rparr>"

lemma contract_server_serves:
  "serves_match contract_server tid i (\<lambda>w. (fst w, int (snd w)))"
  by (simp add: serves_match_def contract_server_def)

definition board :: "match_status \<times> nat \<Rightarrow> (match_status \<times> nat) live" where
  "board w = \<lparr>lt_store = empty_store, lt_toasts = [], lt_wire = [], lt_world = w\<rparr>"

definition desk :: live_scope where
  "desk = \<lparr>ls_tid = ''t'', ls_tokenMode = False, ls_role = Some Operator, ls_matches = []\<rparr>"

definition finish_m :: press_request where
  "finish_m = \<lparr>pr_matchId = ''m'', pr_status = MFinished, pr_data = \<lambda>m. m\<rparr>"

text \<open>A refused hop does not end the walk: the refetch shows the match finished elsewhere, the next hop
  of the old path is legal from there, and the walk undoes the finish and repeats it.\<close>

lemma refused_hop_undoes_finish:
  "map_option (\<lambda>r. (lt_wire (fst r), lt_world (fst r), map tb_message (lt_toasts (fst r))))
     (updateMatchStatus 3 contract_server desk finish_m (board (MFinished, 5)))
   = Some ([(MScheduled, MCalled), (MFinished, MStarted), (MStarted, MFinished)], (MFinished, 7),
       [''Match m already moved on''])"
  by code_simp

text \<open>Nor does a hop that failed on the way: its optimistic status stays, so the following hops are sent
  from a status the server never confirmed.\<close>

lemma failed_hop_is_followed:
  "map_option (\<lambda>r. (lt_wire (fst r), lt_world (fst r), believed (lt_store (fst r)) ''m''))
     (updateMatchStatus 3 offline_server desk finish_m (board (MScheduled, 5)))
   = Some ([(MScheduled, MCalled), (MCalled, MStarted), (MStarted, MFinished)], (MScheduled, 5), MFinished)"
  by code_simp

section \<open>Properties\<close>

text \<open>C6. A press always ends: whatever the server answers at each hop, three levels of nested presses
  are enough, and more fuel changes nothing.\<close>

theorem press_always_ends:
  "\<exists>s' e. \<forall>n. updateMatchStatus (3 + n) host sc p s = Some (s', e)"
proof -
  obtain s' e where r: "updateMatchStatus 3 host sc p s = Some (s', e)"
    using press_returns[of 0 host sc p s] by (auto simp: numeral_3_eq_3 simp del: updateMatchStatus.simps)
  have "updateMatchStatus (3 + n) host sc p s = Some (s', e)" for n
  proof (induction n)
    case 0
    show ?case using r by (simp only: add_0_right)
  next
    case (Suc n)
    show ?case using more_fuel[OF Suc.IH] by (simp only: add_Suc_right)
  qed
  then show ?thesis by blast
qed

text \<open>C4. Only legal writes leave the board: whatever the server answers in between, every write a press
  sends moves the match along an edge of the transition table from the status the board shows at
  that moment, and nothing is taken back from the wire; from the public board and from a viewer
  nothing is sent and no match state changes.\<close>

theorem only_legal_writes_sent:
  assumes "keeps_status (pr_data p)" "updateMatchStatus n host sc p s = Some (s', e)"
  shows "\<exists>ws. lt_wire s' = lt_wire s @ ws \<and> list_all (\<lambda>(a, b). isValidTransition a b) ws \<and>
    (ls_tokenMode sc \<or> \<not> canEdit (ls_role sc) \<longrightarrow> ws = [] \<and> lt_store s' = lt_store s)"
proof -
  obtain ws where ws: "lt_wire s' = lt_wire s @ ws" "legal_writes ws"
    using updateMatchStatus_writes[OF assms] by (auto simp: writes_on_def)
  moreover have "lt_wire s' = lt_wire s \<and> lt_store s' = lt_store s"
    if no: "ls_tokenMode sc \<or> \<not> canEdit (ls_role sc)"
  proof (cases n)
    case 0
    then show ?thesis using assms(2) by simp
  next
    case (Suc k)
    have "fst (gate host sc s) = False" using no by (auto simp: gate_def)
    then have "s' = snd (gate host sc s)" using assms(2) Suc by (cases "gate host sc s") (auto simp: updateMatchStatus.simps(2))
    then show ?thesis by simp
  qed
  ultimately show ?thesis by (auto simp: legal_writes_def)
qed

text \<open>C5. A press reaches its target: by an operator whose board agrees with a server that keeps the
  contract, on a match that can get there, it sends exactly the hops of the path in their order, each
  under the current version, ends with both at the target and shows no toast; a target without a path
  is refused with its reason and sends nothing.\<close>

theorem press_reaches_target:
  assumes serves: "serves_match host (ls_tid sc) (pr_matchId p) sv"
    and sync: "in_sync sv (pr_matchId p) s"
    and may: "\<not> ls_tokenMode sc" "canEdit (ls_role sc)" "keeps_status (pr_data p)"
  shows "case transitionPath (fst (sv (lt_world s))) (pr_status p) of
      None \<Rightarrow> updateMatchStatus (2 + n) host sc p s
        = Some (s, Some (bad_transition (fst (sv (lt_world s))) (pr_status p)))
    | Some path \<Rightarrow> \<exists>s'. updateMatchStatus (2 + n) host sc p s = Some (s', None) \<and>
        fst (sv (lt_world s')) = pr_status p \<and> believed (lt_store s') (pr_matchId p) = pr_status p \<and>
        lt_wire s' = lt_wire s @ zip (fst (sv (lt_world s)) # path) path \<and> lt_toasts s' = lt_toasts s"
proof -
  let ?a = "believed (lt_store s) (pr_matchId p)"
  have a: "fst (sv (lt_world s)) = ?a" using sync by (simp add: in_sync_def)
  have gate: "gate host sc s = (True, s)" using may by (simp add: gate_def)
  show ?thesis
  proof (cases "transitionPath ?a (pr_status p)")
    case None
    then show ?thesis using gate by (simp add: a Let_def numeral_2_eq_2 updateMatchStatus.simps(2))
  next
    case (Some path)
    note w = transitionPath_walk[OF Some]
    obtain u where u: "walk_on (\<lambda>t. updateMatchStatus (Suc n) host sc (hop_press p t)) (butlast path) s = Some (u, None)"
      "in_sync sv (pr_matchId p) u" "believed (lt_store u) (pr_matchId p) = last (?a # butlast path)"
      "lt_wire u = lt_wire s @ zip (?a # butlast path) (butlast path)" "lt_toasts u = lt_toasts s"
      using walk_on_served[OF serves may(1,2) sync, of "butlast path" n] w walk_butlast by blast
    have "butlast path = [] \<longleftrightarrow> \<not> 1 < length path" using w by (cases path rule: rev_cases) auto
    then have "\<not> (1 < length path \<and> believed (lt_store u) (pr_matchId p) \<noteq> path ! (length path - 2))"
      using u(3) by (auto simp: nth_before_last)
    then have "updateMatchStatus (2 + n) host sc p s = Some (send_write host sc p u, None)"
      using gate Some u(1) by (auto simp: Let_def numeral_2_eq_2 updateMatchStatus.simps(2))
    moreover have "isValidTransition (believed (lt_store u) (pr_matchId p)) (pr_status p)"
      using walk_last_hop w u(3) by metis
    note end_state = send_write_served[OF serves u(2) may(3) this]
    moreover have "lt_wire (send_write host sc p u) = lt_wire s @ zip (?a # path) path"
      using send_write_wire[OF may(3), of host sc u] u(3,4) zip_hops[of path ?a] w by simp
    ultimately show ?thesis using Some u(5) by (auto simp: a in_sync_def)
  qed
qed

theorem press_reaches_target_witness:
  "case updateMatchStatus 2 contract_server desk finish_m (board (MScheduled, 5)) of
     Some (s', None) \<Rightarrow> fst (lt_world s') = MFinished \<and>
       lt_wire s' = [(MScheduled, MCalled), (MCalled, MStarted), (MStarted, MFinished)]
   | _ \<Rightarrow> False"
  using press_reaches_target[where sc = desk and p = finish_m and s = "board (MScheduled, 5)" and n = 0,
      OF contract_server_serves]
  by (auto simp: in_sync_def board_def believed_def shown_status_def empty_store_def desk_def canEdit_def
      finish_m_def keeps_status_def transitionPath_table)

theorem only_legal_writes_sent_witness:
  "case updateMatchStatus 3 contract_server desk finish_m (board (MFinished, 5)) of
     Some (s', e) \<Rightarrow> legal_writes (lt_wire s')
   | None \<Rightarrow> False"
proof -
  obtain s' e where r: "updateMatchStatus 3 contract_server desk finish_m (board (MFinished, 5)) = Some (s', e)"
    using press_returns[of 0 contract_server desk finish_m "board (MFinished, 5)"]
    by (auto simp: numeral_3_eq_3)
  have "keeps_status (pr_data finish_m)" by (simp add: finish_m_def)
  moreover have "lt_wire (board w) = []" for w by (simp add: board_def)
  ultimately show ?thesis using only_legal_writes_sent[OF _ r] by (auto simp: r legal_writes_def)
qed

section \<open>Scores and confirmations\<close>

text \<open>What a write of a score sends: the end of the match, whatever the board shows; the refused score
  changes nothing on the board.\<close>

lemma setMatchScore_refused:
  assumes "setMatchScore host sc i score notes s = (s', Some e)"
  shows "st_matchStates (lt_store s') = st_matchStates (lt_store s)"
  using assms
  by (auto simp: setMatchScore_def resolve_version_def host_call_def on_store_def Let_def case_prod_beta
      setMatchVersion_def split: prod.splits bool.splits sum.splits option.splits dest!: gate_passed)

lemma confirmPlayer_elsewhere:
  "same_elsewhere i (lt_store s) (lt_store (confirmPlayer host sc i player c s))"
proof -
  have v: "same_elsewhere i t (lt_store (snd (resolve_version host tid i u))) = same_elsewhere i t (lt_store u)"
    for t u tid
    by (auto simp: resolve_version_def Let_def case_prod_beta split: option.split)
  show ?thesis
    by (auto simp: confirmPlayer_def Let_def v case_prod_beta dest!: gate_passed
        split: prod.split bool.split sum.split)
qed

section \<open>Polling and progress\<close>

text \<open>Once a source has answered a terminal status the interval never asks again.\<close>

lemma terminal_poll_is_final:
  "pollTerminal src (snd sp) \<Longrightarrow> poll_tick host src hidden sp = sp"
  by (simp add: poll_tick_def)

lemma terminal_error_stops:
  assumes "src \<noteq> []" "lh_states host src (lt_world s) = (Inl err, w)" "isTerminalPollError err"
  shows "pollTerminal src (snd (syncMatchStates host src (s, ps)))"
  using assms by (simp add: syncMatchStates_def host_call_def pollTerminal_def)

lemma poll_error_keeps_board:
  "lh_states host src (lt_world s) = (Inl err, w) \<Longrightarrow>
   lt_store (fst (syncMatchStates host src (s, ps))) = lt_store s"
  by (simp add: syncMatchStates_def host_call_def)

lemma with_status_length: "length (with_status ms st as) \<le> length as"
  by (simp add: with_status_def)

lemma progress_bounds:
  "0 \<le> pg_percentage (progressStats as ms)" "pg_percentage (progressStats as ms) \<le> 100"
  "0 \<le> pg_remaining (progressStats as ms)"
  "pg_finished (progressStats as ms) + pg_inProgress (progressStats as ms) \<le> pg_total (progressStats as ms)"
proof -
  let ?t = "int (length as)" and ?f = "int (length (with_status ms MFinished as))"
  have f: "?f \<le> ?t" using with_status_length[of ms MFinished as] by simp
  show "0 \<le> pg_percentage (progressStats as ms)"
    by (simp add: pg_percentage_def progressStats_def div_int_pos_iff)
  have "(200 * ?f + ?t) div (2 * ?t) \<le> 100" if "0 < ?t"
  proof -
    have "(200 * ?f + ?t) div (2 * ?t) \<le> (201 * ?t) div (2 * ?t)"
      using f that by (intro zdiv_mono1) simp_all
    also have "\<dots> = 201 div 2" using that by (subst div_mult_mult2) simp_all
    finally show ?thesis by simp
  qed
  then show "pg_percentage (progressStats as ms) \<le> 100"
    by (simp add: pg_percentage_def progressStats_def)
  show "0 \<le> pg_remaining (progressStats as ms)" using f by (simp add: pg_remaining_def progressStats_def)
  have "length (with_status ms MFinished xs) + length (with_status ms MStarted xs) \<le> length xs" for xs
    by (induction xs) (auto simp: with_status_def)
  then show "pg_finished (progressStats as ms) + pg_inProgress (progressStats as ms)
      \<le> pg_total (progressStats as ms)"
    unfolding progressStats_def by (simp, metis of_nat_add of_nat_le_iff)
qed

text \<open>The four lists of the board share out the assignments, but for the retired ones, which are in none
  of them.\<close>

lemma by_status_shares_out:
  "length (bs_scheduled (matchesByStatus as ms)) + length (bs_called (matchesByStatus as ms)) +
   length (bs_started (matchesByStatus as ms)) + length (bs_finished (matchesByStatus as ms)) +
   length (with_status ms MRetired as) = length as"
proof (induction as)
  case (Cons a as)
  show ?case
  proof (cases "status_of ms (as_matchId a)")
    case None
    then show ?thesis using Cons by (simp add: matchesByStatus_def with_status_def)
  next
    case (Some st)
    then show ?thesis using Cons by (cases st) (simp_all add: matchesByStatus_def with_status_def)
  qed
qed (simp add: matchesByStatus_def with_status_def)

end
