(* ===== verification/TournamentStore.thy ===== *)
theory TournamentStore
  imports Notices
begin

text \<open>
  The tournament document: \<open>store/tournamentStore.ts\<close>, the store behind setup, roster, matches and
  schedule; the persisted snapshot of \<open>hooks/useTournamentState.ts\<close> (\<open>serializeTournamentState\<close>,
  \<open>hydrate\<close>); and \<open>hooks/useProposals.ts\<close>, the commit of a reviewed re-plan. Records the store does
  not look into (config, groups, players, matches) are JavaScript objects: dictionaries of
  \<open>js_value\<close>s, with \<open>{ ...a, ...b }\<close> as the update of one by the other.
\<close>

section \<open>Objects\<close>

type_synonym js_object = "(string, js_value) dict"

definition spread :: "js_object \<Rightarrow> js_object \<Rightarrow> js_object" where
  "spread a b = fold (\<lambda>(k, v). AList.update k v) b a"

definition has_id :: "string \<Rightarrow> js_object \<Rightarrow> bool" where
  "has_id i ob \<longleftrightarrow> map_of ob ''id'' = Some (JStr i)"

text \<open>A number-or-missing field.\<close>

fun as_number :: "js_value option \<Rightarrow> int option" where
  "as_number (Some (JNum n)) = Some n"
| "as_number _ = None"

definition matchNumber :: "js_object \<Rightarrow> int option" where
  "matchNumber m = as_number (map_of m ''matchNumber'')"

lemma map_of_spread: "map_of (spread a b) = map_of a ++ map_of (rev b)"
  unfolding spread_def by (rule dict.get_fold_put)

section \<open>The state\<close>

record scored_candidate =
  sd_assignments :: "schedule_assignment list"
  sd_objectiveScore :: js_value

text \<open>Of a schedule, the fields the store writes; the others travel in \<open>fs_rest\<close>.\<close>

record full_schedule =
  fs_assignments :: "schedule_assignment list"
  fs_candidates :: "scored_candidate list option"
  fs_activeCandidateIndex :: "int option"
  fs_objectiveScore :: js_value
  fs_rest :: js_object

record tournament_state =
  tn_config :: "js_object option"
  tn_groups :: "js_object list"
  tn_players :: "js_object list"
  tn_bracketPlayers :: "js_object list"
  tn_bracketRosterMigrated :: bool
  tn_matches :: "js_object list"
  tn_schedule :: "full_schedule option"
  tn_standings :: "js_object list"
  tn_scheduleIsStale :: bool
  tn_isScheduleLocked :: bool
  tn_scheduleVersion :: int
  tn_scheduleHistory :: "js_object list"
  tn_planFinalized :: "bool option"
  tn_hydrated :: bool

definition DEFAULT_CONFIG :: js_object where
  "DEFAULT_CONFIG = [(''intervalMinutes'', JNum 15), (''dayStart'', JStr ''09:00''), (''dayEnd'', JStr ''17:00''),
     (''breaks'', JArr []), (''courtCount'', JNum 2), (''defaultRestMinutes'', JNum 30),
     (''freezeHorizonSlots'', JNum 0),
     (''rankCounts'', JObj [(''MS'', JNum 3), (''WS'', JNum 3), (''MD'', JNum 2), (''WD'', JNum 2), (''XD'', JNum 2)]),
     (''closedCourts'', JArr []), (''courtClosures'', JArr []), (''clockShiftMinutes'', JNum 0)]"

definition INITIAL :: tournament_state where
  "INITIAL = \<lparr>tn_config = Some DEFAULT_CONFIG, tn_groups = [], tn_players = [], tn_bracketPlayers = [],
     tn_bracketRosterMigrated = False, tn_matches = [], tn_schedule = None, tn_standings = [],
     tn_scheduleIsStale = False, tn_isScheduleLocked = False, tn_scheduleVersion = 0,
     tn_scheduleHistory = [], tn_planFinalized = None, tn_hydrated = True\<rparr>"

definition NON_SCHEDULING_KEYS :: "string list" where
  "NON_SCHEDULING_KEYS = [''scoringFormat'', ''setsToWin'', ''pointsPerSet'', ''deuceEnabled'',
     ''standingsMode'', ''tvDisplayMode'', ''tvAccent'', ''tvPreset'', ''tvGridColumns'', ''tvCardSize'',
     ''tvShowScores'', ''courtOrder'', ''hiddenCourts'', ''tournamentName'', ''clockShiftMinutes'']"

definition NON_SCHEDULING_PLAYER_KEYS :: "string list" where
  "NON_SCHEDULING_PLAYER_KEYS = [''notes'']"

section \<open>Operations\<close>

text \<open>Two values are compared by their JSON text, which is comparing the values (a missing key reads
  \<open>undefined\<close>).\<close>

definition setConfig :: "js_object \<Rightarrow> tournament_state \<Rightarrow> tournament_state" where
  "setConfig config s =
     (case tn_config s of
        None \<Rightarrow> s\<lparr>tn_config := Some config\<rparr>
      | Some prev \<Rightarrow>
          (let changedKeys = filter (\<lambda>k. map_of config k \<noteq> map_of prev k) (map fst config);
               schedulingFieldsChanged = list_ex (\<lambda>k. k \<notin> set NON_SCHEDULING_KEYS) changedKeys
           in s\<lparr>tn_config := Some config,
                tn_scheduleIsStale := (if schedulingFieldsChanged then True else tn_scheduleIsStale s)\<rparr>))"

definition update_by_id :: "string \<Rightarrow> js_object \<Rightarrow> js_object list \<Rightarrow> js_object list" where
  "update_by_id i updates = map (\<lambda>x. if has_id i x then spread x updates else x)"

definition addGroup :: "js_object \<Rightarrow> tournament_state \<Rightarrow> tournament_state" where
  "addGroup g s = s\<lparr>tn_groups := tn_groups s @ [g]\<rparr>"

definition updateGroup :: "string \<Rightarrow> js_object \<Rightarrow> tournament_state \<Rightarrow> tournament_state" where
  "updateGroup i updates s = s\<lparr>tn_groups := update_by_id i updates (tn_groups s)\<rparr>"

definition in_group :: "string \<Rightarrow> js_object \<Rightarrow> bool" where
  "in_group i p \<longleftrightarrow> map_of p ''groupId'' = Some (JStr i)"

definition deleteGroup :: "string \<Rightarrow> tournament_state \<Rightarrow> string + tournament_state" where
  "deleteGroup i s =
     (let playersInGroup = filter (in_group i) (tn_players s)
      in if length playersInGroup > 0
         then Inl (''Cannot delete group: '' @ nat_text (length playersInGroup)
                   @ '' players assigned. Remove players first.'')
         else Inr (s\<lparr>tn_groups := filter (\<lambda>g. \<not> has_id i g) (tn_groups s)\<rparr>))"

definition addPlayer :: "js_object \<Rightarrow> tournament_state \<Rightarrow> tournament_state" where
  "addPlayer player s = s\<lparr>tn_players := tn_players s @ [player], tn_scheduleIsStale := True\<rparr>"

definition updatePlayer :: "string \<Rightarrow> js_object \<Rightarrow> tournament_state \<Rightarrow> tournament_state" where
  "updatePlayer i updates s =
     s\<lparr>tn_players := update_by_id i updates (tn_players s),
       tn_scheduleIsStale := (tn_scheduleIsStale s \<or>
         list_ex (\<lambda>k. k \<notin> set NON_SCHEDULING_PLAYER_KEYS) (map fst updates))\<rparr>"

definition deletePlayer :: "string \<Rightarrow> tournament_state \<Rightarrow> tournament_state" where
  "deletePlayer i s =
     s\<lparr>tn_players := filter (\<lambda>p. \<not> has_id i p) (tn_players s), tn_scheduleIsStale := True\<rparr>"

text \<open>\<open>importPlayers\<close> and \<open>setPlayers\<close>.\<close>

definition setPlayers :: "js_object list \<Rightarrow> tournament_state \<Rightarrow> tournament_state" where
  "setPlayers players s = s\<lparr>tn_players := players, tn_scheduleIsStale := True\<rparr>"

definition setBracketPlayers :: "js_object list \<Rightarrow> tournament_state \<Rightarrow> tournament_state" where
  "setBracketPlayers ps s = s\<lparr>tn_bracketPlayers := ps\<rparr>"

definition addBracketPlayer :: "js_object \<Rightarrow> tournament_state \<Rightarrow> tournament_state" where
  "addBracketPlayer p s = s\<lparr>tn_bracketPlayers := tn_bracketPlayers s @ [p]\<rparr>"

definition updateBracketPlayer :: "string \<Rightarrow> js_object \<Rightarrow> tournament_state \<Rightarrow> tournament_state" where
  "updateBracketPlayer i updates s =
     s\<lparr>tn_bracketPlayers := update_by_id i updates (tn_bracketPlayers s)\<rparr>"

definition deleteBracketPlayer :: "string \<Rightarrow> tournament_state \<Rightarrow> tournament_state" where
  "deleteBracketPlayer i s =
     s\<lparr>tn_bracketPlayers := filter (\<lambda>p. \<not> has_id i p) (tn_bracketPlayers s)\<rparr>"

definition addMatch :: "js_object \<Rightarrow> tournament_state \<Rightarrow> tournament_state" where
  "addMatch match s =
     (let maxNumber = fold (\<lambda>m mx. max mx (or_else (matchNumber m) 0)) (tn_matches s) 0;
          newMatch = (if or_else (matchNumber match) 0 \<noteq> 0 then match
                      else AList.update ''matchNumber'' (JNum (maxNumber + 1)) match)
      in s\<lparr>tn_matches := tn_matches s @ [newMatch], tn_scheduleIsStale := True\<rparr>)"

definition updateMatch :: "string \<Rightarrow> js_object \<Rightarrow> tournament_state \<Rightarrow> tournament_state" where
  "updateMatch i updates s =
     s\<lparr>tn_matches := update_by_id i updates (tn_matches s), tn_scheduleIsStale := True\<rparr>"

definition deleteMatch :: "string \<Rightarrow> tournament_state \<Rightarrow> tournament_state" where
  "deleteMatch i s =
     s\<lparr>tn_matches := filter (\<lambda>m. \<not> has_id i m) (tn_matches s), tn_scheduleIsStale := True\<rparr>"

text \<open>\<open>importMatches\<close> and \<open>setMatches\<close>.\<close>

definition number_matches :: "js_object list \<Rightarrow> js_object list" where
  "number_matches matches =
     map (\<lambda>(i, m). AList.update ''matchNumber'' (JNum (or_else (matchNumber m) (int i + 1))) m)
       (enumerate 0 matches)"

definition importMatches :: "js_object list \<Rightarrow> tournament_state \<Rightarrow> tournament_state" where
  "importMatches matches s = s\<lparr>tn_matches := number_matches matches, tn_scheduleIsStale := True\<rparr>"

definition setSchedule :: "full_schedule option \<Rightarrow> tournament_state \<Rightarrow> tournament_state" where
  "setSchedule schedule s =
     s\<lparr>tn_schedule := schedule, tn_scheduleIsStale := False, tn_isScheduleLocked := (schedule \<noteq> None)\<rparr>"

definition setActiveCandidateIndex :: "int \<Rightarrow> tournament_state \<Rightarrow> tournament_state" where
  "setActiveCandidateIndex index s =
     (case tn_schedule s of
        None \<Rightarrow> s
      | Some sch \<Rightarrow>
          (case fs_candidates sch of
             None \<Rightarrow> s
           | Some cs \<Rightarrow>
               if index < 0 \<or> index \<ge> int (length cs) then s
               else let cand = cs ! nat index
                    in s\<lparr>tn_schedule := Some (sch\<lparr>fs_assignments := sd_assignments cand,
                         fs_activeCandidateIndex := Some index,
                         fs_objectiveScore := sd_objectiveScore cand\<rparr>)\<rparr>))"

definition setScheduleStale :: "bool \<Rightarrow> tournament_state \<Rightarrow> tournament_state" where
  "setScheduleStale stale s = s\<lparr>tn_scheduleIsStale := stale\<rparr>"

definition lockSchedule :: "tournament_state \<Rightarrow> tournament_state" where
  "lockSchedule s = s\<lparr>tn_isScheduleLocked := True\<rparr>"

definition unlockSchedule :: "tournament_state \<Rightarrow> tournament_state" where
  "unlockSchedule s = s\<lparr>tn_isScheduleLocked := False, tn_schedule := None\<rparr>"

definition setScheduleVersion :: "int \<Rightarrow> tournament_state \<Rightarrow> tournament_state" where
  "setScheduleVersion v s = s\<lparr>tn_scheduleVersion := v\<rparr>"

definition setScheduleHistory :: "js_object list \<Rightarrow> tournament_state \<Rightarrow> tournament_state" where
  "setScheduleHistory h s = s\<lparr>tn_scheduleHistory := h\<rparr>"

definition setPlanFinalized :: "bool \<Rightarrow> tournament_state \<Rightarrow> tournament_state" where
  "setPlanFinalized b s = s\<lparr>tn_planFinalized := Some b\<rparr>"

definition setBracketRosterMigrated :: "bool \<Rightarrow> tournament_state \<Rightarrow> tournament_state" where
  "setBracketRosterMigrated b s = s\<lparr>tn_bracketRosterMigrated := b\<rparr>"

definition setHydrated :: "bool \<Rightarrow> tournament_state \<Rightarrow> tournament_state" where
  "setHydrated b s = s\<lparr>tn_hydrated := b\<rparr>"

definition resetTournament :: "tournament_state \<Rightarrow> tournament_state" where
  "resetTournament s = INITIAL"

text \<open>The object that is exported and, every field of it perhaps missing, imported; unreadable text is
  \<open>None\<close>.\<close>

record exported =
  ex_config :: "js_object option"
  ex_groups :: "js_object list option"
  ex_players :: "js_object list option"
  ex_matches :: "js_object list option"

definition exportData :: "tournament_state \<Rightarrow> exported" where
  "exportData s = \<lparr>ex_config = tn_config s, ex_groups = Some (tn_groups s),
     ex_players = Some (tn_players s), ex_matches = Some (tn_matches s)\<rparr>"

definition importData :: "exported option \<Rightarrow> tournament_state \<Rightarrow> string + tournament_state" where
  "importData parsed s =
     (case parsed of
        None \<Rightarrow> Inl ''Invalid JSON data''
      | Some data \<Rightarrow>
          Inr (s\<lparr>tn_config := Some (or_else (ex_config data) DEFAULT_CONFIG),
                 tn_groups := or_else (ex_groups data) [], tn_players := or_else (ex_players data) [],
                 tn_matches := or_else (ex_matches data) [], tn_schedule := None\<rparr>))"

section \<open>The persisted snapshot\<close>

record state_dto =
  sn_config :: "js_object option"
  sn_groups :: "js_object list"
  sn_players :: "js_object list"
  sn_matches :: "js_object list"
  sn_schedule :: "full_schedule option"
  sn_scheduleIsStale :: bool
  sn_scheduleVersion :: "int option"
  sn_scheduleHistory :: "js_object list option"
  sn_bracketPlayers :: "js_object list option"
  sn_bracketRosterMigrated :: "bool option"
  sn_planFinalized :: "bool option"
  sn_standings :: "js_object list option"

definition serializeTournamentState :: "tournament_state \<Rightarrow> state_dto" where
  "serializeTournamentState s = \<lparr>sn_config = tn_config s, sn_groups = tn_groups s, sn_players = tn_players s,
     sn_matches = tn_matches s, sn_schedule = tn_schedule s, sn_scheduleIsStale = tn_scheduleIsStale s,
     sn_scheduleVersion = Some (tn_scheduleVersion s), sn_scheduleHistory = Some (tn_scheduleHistory s),
     sn_bracketPlayers = Some (tn_bracketPlayers s),
     sn_bracketRosterMigrated = Some (tn_bracketRosterMigrated s),
     sn_planFinalized = Some (or_else (tn_planFinalized s) False), sn_standings = None\<rparr>"

definition hydrate :: "state_dto \<Rightarrow> tournament_state \<Rightarrow> tournament_state" where
  "hydrate d s = s\<lparr>tn_config := sn_config d, tn_groups := sn_groups d, tn_players := sn_players d,
     tn_matches := sn_matches d, tn_schedule := sn_schedule d, tn_standings := or_else (sn_standings d) [],
     tn_scheduleIsStale := sn_scheduleIsStale d, tn_scheduleVersion := or_else (sn_scheduleVersion d) 0,
     tn_scheduleHistory := or_else (sn_scheduleHistory d) [], tn_isScheduleLocked := (sn_schedule d \<noteq> None),
     tn_bracketPlayers := or_else (sn_bracketPlayers d) [],
     tn_bracketRosterMigrated := or_else (sn_bracketRosterMigrated d) False,
     tn_planFinalized := Some (or_else (sn_planFinalized d) False)\<rparr>"

definition resetToDefaults :: "tournament_state \<Rightarrow> tournament_state" where
  "resetToDefaults s = s\<lparr>tn_config := None, tn_groups := [], tn_players := [], tn_matches := [],
     tn_schedule := None, tn_standings := [], tn_scheduleIsStale := False, tn_scheduleVersion := 0,
     tn_scheduleHistory := [], tn_isScheduleLocked := False, tn_bracketPlayers := [],
     tn_bracketRosterMigrated := False, tn_planFinalized := None\<rparr>"

section \<open>Staleness\<close>

definition changed_keys :: "js_object \<Rightarrow> js_object \<Rightarrow> string set" where
  "changed_keys a b = {k. k \<in> fst ` set b \<and> map_of b k \<noteq> map_of a k}"

lemma setConfig_stale:
  "tn_config s = Some prev \<Longrightarrow>
   tn_scheduleIsStale (setConfig c s) \<longleftrightarrow>
     tn_scheduleIsStale s \<or> \<not> changed_keys prev c \<subseteq> set NON_SCHEDULING_KEYS"
  by (auto simp: setConfig_def Let_def list_ex_iff changed_keys_def)

text \<open>Only the keys of the new config are compared: a scheduling key that is dropped goes unnoticed.\<close>

lemma dropped_key_unnoticed:
  "tn_config s = Some prev \<Longrightarrow> tn_scheduleIsStale (setConfig [] s) = tn_scheduleIsStale s"
  by (simp add: setConfig_stale changed_keys_def)

lemma updatePlayer_stale:
  "tn_scheduleIsStale (updatePlayer i u s) \<longleftrightarrow>
     tn_scheduleIsStale s \<or> \<not> fst ` set u \<subseteq> {''notes''}"
  by (auto simp: updatePlayer_def list_ex_iff NON_SCHEDULING_PLAYER_KEYS_def)

section \<open>Match numbers\<close>

definition numbered :: "tournament_state \<Rightarrow> bool" where
  "numbered s \<longleftrightarrow> distinct (map matchNumber (tn_matches s)) \<and>
     list_all (\<lambda>m. \<exists>n > 0. matchNumber m = Some n) (tn_matches s)"

lemma fold_max_upper:
  "n \<le> fold (\<lambda>m mx. max mx (f m)) ms (n :: int) \<and> (\<forall>m \<in> set ms. f m \<le> fold (\<lambda>m mx. max mx (f m)) ms n)"
proof (induction ms arbitrary: n)
  case (Cons m ms)
  show ?case using Cons.IH[of "max n (f m)"] by auto
qed simp

lemma matchNumber_update [simp]:
  "matchNumber (AList.update ''matchNumber'' (JNum n) m) = Some n"
  by (simp add: matchNumber_def update_conv')

lemma addMatch_numbered:
  assumes "numbered s" "or_else (matchNumber m) 0 = 0"
  shows "numbered (addMatch m s)"
proof -
  let ?mx = "fold (\<lambda>m mx. max mx (or_else (matchNumber m) 0)) (tn_matches s) 0"
  have le: "0 \<le> ?mx" "k \<in> set (tn_matches s) \<Longrightarrow> or_else (matchNumber k) 0 \<le> ?mx" for k
    using fold_max_upper[of 0 "\<lambda>m. or_else (matchNumber m) 0" "tn_matches s"] by auto
  have "matchNumber k \<noteq> Some (?mx + 1)" if "k \<in> set (tn_matches s)" for k
    using le(2)[OF that] by (cases "matchNumber k") auto
  then have "Some (?mx + 1) \<notin> matchNumber ` set (tn_matches s)" by (auto dest: sym)
  then show ?thesis using assms le(1)
    by (simp add: numbered_def addMatch_def Let_def)
qed

text \<open>An import numbers by position and does not look at the numbers already there.\<close>

lemma import_numbers_collide:
  "map matchNumber (tn_matches (importMatches
     [[(''id'', JStr a)], [(''id'', JStr b), (''matchNumber'', JNum 1)]] s)) = [Some 1, Some 1]"
  by (simp add: importMatches_def number_matches_def matchNumber_def enumerate_eq_zip)

section \<open>Groups and players\<close>

definition homed :: "tournament_state \<Rightarrow> bool" where
  "homed s \<longleftrightarrow> (\<forall>p \<in> set (tn_players s). \<forall>i. in_group i p \<longrightarrow> (\<exists>g \<in> set (tn_groups s). has_id i g))"

text \<open>The roster's operations; an update does not touch the keys the roster is held together by.\<close>

inductive roster_step :: "tournament_state \<Rightarrow> tournament_state \<Rightarrow> bool" where
  add_group: "roster_step s (addGroup g s)"
| update_group: "''id'' \<notin> fst ` set u \<Longrightarrow> roster_step s (updateGroup i u s)"
| delete_group: "deleteGroup i s = Inr t \<Longrightarrow> roster_step s t"
| add_player: "(\<And>i. in_group i p \<Longrightarrow> \<exists>g \<in> set (tn_groups s). has_id i g) \<Longrightarrow> roster_step s (addPlayer p s)"
| update_player: "''groupId'' \<notin> fst ` set u \<Longrightarrow> roster_step s (updatePlayer i u s)"
| delete_player: "roster_step s (deletePlayer i s)"

lemma spread_other: "k \<notin> fst ` set b \<Longrightarrow> map_of (spread a b) k = map_of a k"
proof -
  assume "k \<notin> fst ` set b"
  then have "map_of (rev b) k = None" by (simp add: map_of_eq_None_iff)
  then show ?thesis by (simp add: map_of_spread map_add_def)
qed

lemma roster_step_homed: "roster_step s t \<Longrightarrow> homed s \<Longrightarrow> homed t"
proof (induction rule: roster_step.induct)
  case (add_group s g)
  then show ?case by (auto simp: homed_def addGroup_def)
next
  case (update_group u s i)
  have "(\<exists>g \<in> set (update_by_id i u gs). has_id j g) \<longleftrightarrow> (\<exists>g \<in> set gs. has_id j g)" for j gs
    using update_group(1) by (induction gs) (auto simp: update_by_id_def has_id_def spread_other)
  then have "(\<exists>g \<in> set (tn_groups (updateGroup i u s)). has_id j g) \<longleftrightarrow> (\<exists>g \<in> set (tn_groups s). has_id j g)" for j
    by (simp add: updateGroup_def)
  moreover have "tn_players (updateGroup i u s) = tn_players s" by (simp add: updateGroup_def)
  ultimately show ?case using update_group(2) unfolding homed_def by simp
next
  case (delete_group i s t)
  then have t: "t = s\<lparr>tn_groups := filter (\<lambda>g. \<not> has_id i g) (tn_groups s)\<rparr>"
    and none: "\<forall>p \<in> set (tn_players s). \<not> in_group i p"
    by (auto simp: deleteGroup_def Let_def filter_empty_conv split: if_splits)
  show ?case unfolding homed_def
  proof (intro ballI allI impI)
    fix p j assume p: "p \<in> set (tn_players t)" "in_group j p"
    then obtain g where g: "g \<in> set (tn_groups s)" "has_id j g" using delete_group t by (auto simp: homed_def)
    have "j \<noteq> i" using p none t by auto
    then have "\<not> has_id i g" using g(2) by (simp add: has_id_def)
    then show "\<exists>g \<in> set (tn_groups t). has_id j g" using g t by auto
  qed
next
  case (add_player p s)
  then show ?case by (auto simp: homed_def addPlayer_def)
next
  case (update_player u s i)
  then have "in_group j (spread p u) = in_group j p" for j p by (simp add: in_group_def spread_other)
  then show ?case using update_player
    by (auto simp: homed_def updatePlayer_def update_by_id_def split: if_splits)
next
  case (delete_player s i)
  then show ?case by (auto simp: homed_def deletePlayer_def)
qed

section \<open>The lock\<close>

text \<open>The lock is on exactly when there is a schedule.\<close>

definition lock_agrees :: "tournament_state \<Rightarrow> bool" where
  "lock_agrees s \<longleftrightarrow> (tn_isScheduleLocked s \<longleftrightarrow> tn_schedule s \<noteq> None)"

lemma lock_agrees_ops:
  "lock_agrees (setSchedule sch s)" "lock_agrees (unlockSchedule s)" "lock_agrees (hydrate d s)"
  "lock_agrees (resetTournament s)" "lock_agrees (resetToDefaults s)"
  "lock_agrees s \<Longrightarrow> lock_agrees (setConfig c s)"
  "lock_agrees s \<Longrightarrow> lock_agrees (addPlayer p s)" "lock_agrees s \<Longrightarrow> lock_agrees (updatePlayer i u s)"
  "lock_agrees s \<Longrightarrow> lock_agrees (addMatch p s)" "lock_agrees s \<Longrightarrow> lock_agrees (importMatches ms s)"
  "lock_agrees s \<Longrightarrow> lock_agrees (setActiveCandidateIndex n s)"
  by (auto simp: lock_agrees_def setSchedule_def unlockSchedule_def hydrate_def resetTournament_def INITIAL_def
      resetToDefaults_def setConfig_def addPlayer_def updatePlayer_def addMatch_def importMatches_def
      setActiveCandidateIndex_def Let_def split: option.split)

text \<open>An import of data drops the schedule and leaves the lock and the staleness as they were.\<close>

lemma import_keeps_lock:
  "importData (Some d) s = Inr t \<Longrightarrow>
   tn_schedule t = None \<and> tn_isScheduleLocked t = tn_isScheduleLocked s \<and>
   tn_scheduleIsStale t = tn_scheduleIsStale s"
  by (auto simp: importData_def)

section \<open>The active candidate\<close>

definition schedule_view :: "full_schedule \<Rightarrow> schedule_dto" where
  "schedule_view sch = \<lparr>sc_assignments = fs_assignments sch,
     sc_candidates = map_option (map (\<lambda>c. \<lparr>ca_assignments = sd_assignments c\<rparr>)) (fs_candidates sch),
     sc_activeCandidateIndex = fs_activeCandidateIndex sch\<rparr>"

text \<open>The top-level assignments are those of the active candidate.\<close>

definition mirrors :: "full_schedule \<Rightarrow> bool" where
  "mirrors sch \<longleftrightarrow> getActiveAssignments (Some (schedule_view sch)) = fs_assignments sch"

lemma active_candidate_shown:
  assumes "tn_schedule s = Some sch" "fs_candidates sch = Some cs" "0 \<le> i" "i < int (length cs)"
  shows "\<exists>sch'. tn_schedule (setActiveCandidateIndex i s) = Some sch' \<and> mirrors sch' \<and>
    fs_assignments sch' = sd_assignments (cs ! nat i) \<and> fs_candidates sch' = Some cs"
  using assms by (auto simp: setActiveCandidateIndex_def Let_def mirrors_def getActiveAssignments_def
      schedule_view_def nth_opt_def)

section \<open>Round trips\<close>

lemma serialize_hydrate:
  "serializeTournamentState (hydrate (serializeTournamentState s) t) = serializeTournamentState s"
  by (simp add: serializeTournamentState_def hydrate_def)

lemma export_import:
  "importData (Some (exportData s)) t = Inr t' \<Longrightarrow>
   tn_config t' = Some (or_else (tn_config s) DEFAULT_CONFIG) \<and> tn_groups t' = tn_groups s \<and>
   tn_players t' = tn_players s \<and> tn_matches t' = tn_matches s"
  by (auto simp: importData_def exportData_def)

end
