(* ===== verification/Proposals.thy ===== *)
theory Proposals
  imports TournamentStore
begin

text \<open>
  \<open>hooks/useProposals.ts\<close>, the two-phase commit of a re-plan: a proposal is created by the server from
  the schedule on screen, reviewed, and committed or cancelled. The server is a parameter threading a
  state of its own; a call that throws is \<open>Inl\<close> with the message of the thrown \<open>Error\<close>, \<open>None\<close> when
  what is thrown is no \<open>Error\<close>.
\<close>

record proposal =
  pp_id :: string
  pp_proposedSchedule :: full_schedule
  pp_proposedConfig :: "js_object option"

datatype replan =
    WarmRestart (rp_stayCloseWeight: int)
  | Repair (rp_disruption: js_object)
  | ManualEdit (rp_matchId: string) (rp_slotId: int) (rp_courtId: int)
  | DirectorAction (rp_action: js_object)

text \<open>The body of a creation; the clock is sent with a warm restart and a repair only.\<close>

record replan_request =
  rr_kind :: replan
  rr_originalSchedule :: full_schedule
  rr_config :: js_object
  rr_players :: "js_object list"
  rr_matches :: "js_object list"
  rr_matchStates :: "(string, match_state_dto) dict"
  rr_nowIso :: "string option"

record commit_response =
  co_state :: state_dto
  co_summary :: "string option"

record 'w replan_server =
  rs_create :: "string \<Rightarrow> replan_request \<Rightarrow> 'w \<Rightarrow> (string option + proposal) \<times> 'w"
  rs_commit :: "string \<Rightarrow> string \<Rightarrow> 'w \<Rightarrow> (string option + commit_response) \<times> 'w"
  rs_cancel :: "string \<Rightarrow> string \<Rightarrow> 'w \<Rightarrow> bool \<times> 'w"

datatype proposal_status = PIdle | PLoading | PError

record 'w planner =
  pl_store :: tournament_state
  pl_activeProposal :: "proposal option"
  pl_advisories :: "advisory list"
  pl_toasts :: "unit toast list"
  pl_status :: proposal_status
  pl_error :: "string option"
  pl_world :: 'w

text \<open>What a call reads: the tournament, the role, the live states, the clock, a fresh toast id.\<close>

record planner_scope =
  sp_tid :: string
  sp_role :: "tournament_role option"
  sp_matchStates :: "(string, match_state_dto) dict"
  sp_now :: string
  sp_fresh :: string

definition plain_toast :: "toast_level \<Rightarrow> string \<Rightarrow> int option \<Rightarrow> unit toast_body" where
  "plain_toast level msg duration = \<lparr>tb_level = level, tb_message = msg, tb_detail = None,
     tb_actionLabel = None, tb_onAction = None, tb_durationMs = Some duration\<rparr>"

definition push :: "planner_scope \<Rightarrow> unit toast_body \<Rightarrow> 'w planner \<Rightarrow> 'w planner" where
  "push sc b s = s\<lparr>pl_toasts := snd (pushToast (sp_fresh sc) b (pl_toasts s))\<rparr>"

definition may_edit :: "planner_scope \<Rightarrow> 'w planner \<Rightarrow> bool \<times> 'w planner" where
  "may_edit sc s = (let (ok, ts) = assertCanEdit (sp_role sc) (sp_fresh sc) (pl_toasts s)
     in (ok, s\<lparr>pl_toasts := ts\<rparr>))"

definition guard :: "planner_scope \<Rightarrow> 'w planner \<Rightarrow> bool \<times> 'w planner" where
  "guard sc s =
     (case may_edit sc s of
        (False, s') \<Rightarrow> (False, s')
      | (True, s') \<Rightarrow>
          if tn_config (pl_store s') = None \<or> tn_schedule (pl_store s') = None
          then (False, push sc (plain_toast TError ''No schedule to update'' (Some 4000)) s')
          else (True, s'))"

definition handleError :: "planner_scope \<Rightarrow> string option \<Rightarrow> string \<Rightarrow> 'w planner \<Rightarrow> 'w planner" where
  "handleError sc err fallback s =
     (let msg = or_else err fallback
      in push sc (plain_toast TError msg None) (s\<lparr>pl_error := Some msg, pl_status := PError\<rparr>))"

fun failure_copy :: "replan \<Rightarrow> string" where
  "failure_copy (WarmRestart _) = ''Failed to create proposal''"
| "failure_copy (Repair _) = ''Failed to create repair proposal''"
| "failure_copy (ManualEdit _ _ _) = ''Failed to create manual-edit proposal''"
| "failure_copy (DirectorAction _) = ''Failed to create director-action proposal''"

definition sends_clock :: "replan \<Rightarrow> bool" where
  "sends_clock k \<longleftrightarrow> (case k of WarmRestart _ \<Rightarrow> True | Repair _ \<Rightarrow> True | _ \<Rightarrow> False)"

text \<open>The four creators, one body per kind.\<close>

definition createProposal ::
  "'w replan_server \<Rightarrow> planner_scope \<Rightarrow> replan \<Rightarrow> 'w planner \<Rightarrow> proposal option \<times> 'w planner" where
  "createProposal server sc kind s =
     (case guard sc s of
        (False, s') \<Rightarrow> (None, s')
      | (True, s1) \<Rightarrow>
          (let st = pl_store s1;
               s2 = s1\<lparr>pl_status := PLoading, pl_error := None\<rparr>;
               req = \<lparr>rr_kind = kind, rr_originalSchedule = the (tn_schedule st), rr_config = the (tn_config st),
                 rr_players = tn_players st, rr_matches = tn_matches st, rr_matchStates = sp_matchStates sc,
                 rr_nowIso = (if sends_clock kind then Some (sp_now sc) else None)\<rparr>
           in case rs_create server (sp_tid sc) req (pl_world s2) of
                (Inr proposal, w) \<Rightarrow>
                  (Some proposal, s2\<lparr>pl_world := w, pl_activeProposal := Some proposal, pl_status := PIdle\<rparr>)
              | (Inl err, w) \<Rightarrow> (None, handleError sc err (failure_copy kind) (s2\<lparr>pl_world := w\<rparr>))))"

text \<open>\<open>id || activeProposal?.id\<close>, an empty id being none.\<close>

definition target_id :: "string option \<Rightarrow> proposal option \<Rightarrow> string option" where
  "target_id i active =
     (let t = (if i = None \<or> i = Some [] then map_option pp_id active else i)
      in if t = Some [] then None else t)"

definition install :: "state_dto \<Rightarrow> tournament_state \<Rightarrow> tournament_state" where
  "install d st =
     (let s1 = setSchedule (sn_schedule d) st;
          s2 = setScheduleVersion (or_else (sn_scheduleVersion d) 0) s1;
          s3 = setScheduleHistory (or_else (sn_scheduleHistory d) []) s2;
          s4 = (case sn_config d of Some c \<Rightarrow> setConfig c s3 | None \<Rightarrow> s3)
      in setScheduleStale False s4)"

definition commit_done :: "string option \<Rightarrow> string" where
  "commit_done summary =
     (case summary of Some t \<Rightarrow> if t = [] then ''Proposal committed'' else t | None \<Rightarrow> ''Proposal committed'')"

definition commitProposal ::
  "'w replan_server \<Rightarrow> planner_scope \<Rightarrow> string option \<Rightarrow> 'w planner \<Rightarrow> commit_response option \<times> 'w planner" where
  "commitProposal server sc i s =
     (case may_edit sc s of
        (False, s') \<Rightarrow> (None, s')
      | (True, s1) \<Rightarrow>
          (case target_id i (pl_activeProposal s1) of
             None \<Rightarrow> (None, s1)
           | Some target \<Rightarrow>
               (let s2 = s1\<lparr>pl_status := PLoading, pl_error := None\<rparr>
                in case rs_commit server (sp_tid sc) target (pl_world s2) of
                     (Inr result, w) \<Rightarrow>
                       (Some result,
                        (push sc (plain_toast TSuccess (commit_done (co_summary result)) (Some 4000))
                          (s2\<lparr>pl_world := w, pl_store := install (co_state result) (pl_store s2),
                              pl_activeProposal := None, pl_advisories := []\<rparr>))\<lparr>pl_status := PIdle\<rparr>)
                   | (Inl err, w) \<Rightarrow> (None, handleError sc err ''Commit failed'' (s2\<lparr>pl_world := w\<rparr>)))))"

text \<open>Whether or not the server knew the proposal, it is dropped here.\<close>

definition cancelProposal ::
  "'w replan_server \<Rightarrow> planner_scope \<Rightarrow> string option \<Rightarrow> 'w planner \<Rightarrow> 'w planner" where
  "cancelProposal server sc i s =
     (case target_id i (pl_activeProposal s) of
        None \<Rightarrow> s
      | Some target \<Rightarrow>
          (let (_, w) = rs_cancel server (sp_tid sc) target (pl_world s)
           in s\<lparr>pl_world := w, pl_activeProposal := None, pl_status := PIdle\<rparr>))"

section \<open>Lemmas\<close>

lemma may_edit_editor: "canEdit (sp_role sc) \<Longrightarrow> may_edit sc s = (True, s)"
  by (simp add: may_edit_def assertCanEdit_def)

lemma may_edit_viewer:
  "\<not> canEdit (sp_role sc) \<Longrightarrow> \<exists>ts. may_edit sc s = (False, s\<lparr>pl_toasts := ts\<rparr>)"
  by (auto simp: may_edit_def assertCanEdit_def)

lemma push_views [simp]:
  "pl_store (push sc b s) = pl_store s" "pl_activeProposal (push sc b s) = pl_activeProposal s"
  "pl_advisories (push sc b s) = pl_advisories s" "pl_status (push sc b s) = pl_status s"
  "pl_world (push sc b s) = pl_world s" "pl_error (push sc b s) = pl_error s"
  by (simp_all add: push_def)

lemma setConfig_views [simp]:
  "tn_config (setConfig c s) = Some c" "tn_schedule (setConfig c s) = tn_schedule s"
  "tn_isScheduleLocked (setConfig c s) = tn_isScheduleLocked s"
  "tn_scheduleVersion (setConfig c s) = tn_scheduleVersion s"
  "tn_scheduleHistory (setConfig c s) = tn_scheduleHistory s"
  "tn_players (setConfig c s) = tn_players s" "tn_matches (setConfig c s) = tn_matches s"
  by (simp_all add: setConfig_def Let_def split: option.split)

lemma install_views [simp]:
  "tn_schedule (install d st) = sn_schedule d" "\<not> tn_scheduleIsStale (install d st)"
  "tn_isScheduleLocked (install d st) \<longleftrightarrow> sn_schedule d \<noteq> None"
  "tn_scheduleVersion (install d st) = or_else (sn_scheduleVersion d) 0"
  "tn_scheduleHistory (install d st) = or_else (sn_scheduleHistory d) []"
  "tn_config (install d st) = or_opt (sn_config d) (tn_config st)"
  "tn_players (install d st) = tn_players st" "tn_matches (install d st) = tn_matches st"
  by (simp_all add: install_def Let_def setSchedule_def setScheduleVersion_def setScheduleHistory_def
      setScheduleStale_def split: option.split)

text \<open>Nobody without the edit right reaches the server with a re-plan, and a failed creation leaves
  the schedule and the proposal under review as they were.\<close>

lemma create_keeps_store: "pl_store (snd (createProposal server sc k s)) = pl_store s"
  by (auto simp: createProposal_def guard_def may_edit_def handleError_def Let_def
      split: prod.split bool.split sum.split)

lemma create_needs_edit:
  assumes "\<not> canEdit (sp_role sc)"
  shows "fst (createProposal server sc k s) = None" "pl_world (snd (createProposal server sc k s)) = pl_world s"
  using may_edit_viewer[OF assms, of s] by (auto simp: createProposal_def guard_def)

lemma cancel_drops_review:
  assumes "pl_activeProposal s = Some p" "pp_id p \<noteq> []"
  shows "pl_activeProposal (cancelProposal server sc None s) = None"
    "pl_store (cancelProposal server sc None s) = pl_store s"
  using assms by (simp_all add: cancelProposal_def target_id_def Let_def case_prod_beta)

section \<open>Properties\<close>

text \<open>C7. A commit installs the server's plan or nothing: on success the schedule, its version, its history
  and a changed config are the server's, roster and matches are untouched, the schedule is locked when there
  is one and not stale even though the config changed, and the review and the advisories are cleared; on a
  failure the document, the review and the advisories are untouched and the reason is shown; a commit with
  no proposal to name (none given and none under review, or one with an empty id) changes nothing; and a
  viewer's commit never reaches the server.\<close>

theorem commit_installs_or_nothing:
  assumes "commitProposal server sc i s = (r, s')"
  shows "if \<not> canEdit (sp_role sc) then r = None \<and> pl_world s' = pl_world s \<and> pl_store s' = pl_store s
    else case target_id i (pl_activeProposal s) of
      None \<Rightarrow> r = None \<and> s' = s
    | Some t \<Rightarrow>
        (case fst (rs_commit server (sp_tid sc) t (pl_world s)) of
           Inr result \<Rightarrow> r = Some result \<and> pl_status s' = PIdle \<and>
             tn_schedule (pl_store s') = sn_schedule (co_state result) \<and>
             tn_scheduleVersion (pl_store s') = or_else (sn_scheduleVersion (co_state result)) 0 \<and>
             tn_scheduleHistory (pl_store s') = or_else (sn_scheduleHistory (co_state result)) [] \<and>
             tn_config (pl_store s') = or_opt (sn_config (co_state result)) (tn_config (pl_store s)) \<and>
             tn_players (pl_store s') = tn_players (pl_store s) \<and> tn_matches (pl_store s') = tn_matches (pl_store s) \<and>
             lock_agrees (pl_store s') \<and> \<not> tn_scheduleIsStale (pl_store s') \<and>
             pl_activeProposal s' = None \<and> pl_advisories s' = []
         | Inl err \<Rightarrow> r = None \<and> pl_status s' = PError \<and> pl_error s' = Some (or_else err ''Commit failed'') \<and>
             pl_store s' = pl_store s \<and> pl_activeProposal s' = pl_activeProposal s \<and>
             pl_advisories s' = pl_advisories s)"
proof (cases "canEdit (sp_role sc)")
  case False
  then show ?thesis using assms may_edit_viewer[OF False, of s] by (auto simp: commitProposal_def)
next
  case True
  show ?thesis
  proof (cases "target_id i (pl_activeProposal s)")
    case None
    then show ?thesis using assms True by (simp add: commitProposal_def may_edit_editor)
  next
    case (Some t)
    obtain a w where "rs_commit server (sp_tid sc) t (pl_world s) = (a, w)" by fastforce
    then show ?thesis
      using assms True Some
      by (cases a) (auto simp: commitProposal_def may_edit_editor Let_def handleError_def lock_agrees_def)
  qed
qed

definition one_commit_server :: "state_dto \<Rightarrow> nat replan_server" where
  "one_commit_server d = \<lparr>rs_create = (\<lambda>tid req w. (Inl None, w)),
     rs_commit = (\<lambda>tid i w. (if w = 0 then Inr \<lparr>co_state = d, co_summary = None\<rparr> else Inl (Some ''expired''), w + 1)),
     rs_cancel = (\<lambda>tid i w. (True, w))\<rparr>"

theorem commit_installs_or_nothing_witness:
  "\<not> tn_scheduleIsStale (pl_store (snd (commitProposal
      (one_commit_server (serializeTournamentState (INITIAL\<lparr>tn_config := Some []\<rparr>)))
      \<lparr>sp_tid = ''t'', sp_role = Some Owner, sp_matchStates = [], sp_now = ''n'', sp_fresh = ''f''\<rparr> (Some ''p'')
      \<lparr>pl_store = INITIAL, pl_activeProposal = None, pl_advisories = [], pl_toasts = [], pl_status = PIdle,
        pl_error = None, pl_world = 0\<rparr>)))"
  using commit_installs_or_nothing[of "one_commit_server (serializeTournamentState (INITIAL\<lparr>tn_config := Some []\<rparr>))"
      "\<lparr>sp_tid = ''t'', sp_role = Some Owner, sp_matchStates = [], sp_now = ''n'', sp_fresh = ''f''\<rparr>" "Some ''p''"
      "\<lparr>pl_store = INITIAL, pl_activeProposal = None, pl_advisories = [], pl_toasts = [], pl_status = PIdle,
        pl_error = None, pl_world = 0\<rparr>" _ _, OF prod.collapse[symmetric]]
  by (simp add: canEdit_def target_id_def one_commit_server_def)

end
