(* ===== verification/SaveFunnel.thy ===== *)
theory SaveFunnel
  imports Proposals
begin

text \<open>
  \<open>hooks/useTournamentState.ts\<close>, the single funnel through which the tournament document is saved: a
  change arms a debounce, the flush puts the whole snapshot, a change during the put asks for a
  follow-up, and a refused put re-reads the server. The module variables and the parts of the stores
  they use are one record; each callback (a change of the store, the timer, the answer to a request,
  the operator's answer to the unlock dialog, mounting and unmounting) is one operation on it. The
  serialised text of a snapshot stands for the snapshot, so the fingerprints are \<open>state_dto\<close> values.
\<close>

section \<open>State\<close>

datatype persist_status = SIdle | SDirty | SSaving | SError

text \<open>What the flush is waiting for: the put (sanctioned to clear the schedule or not), the operator's
  answer, the second put, the re-read after a refusal, the re-read after a declined unlock.\<close>

datatype flight_stage = Putting bool | AskUnlock | Retrying
  | Resyncing "string option" string | Declining

record flight =
  fl_tid :: string
  fl_payload :: state_dto
  fl_stage :: flight_stage

record funnel =
  fu_store :: tournament_state
  fu_active :: "string option"
  fu_hydrated :: bool
  fu_timer :: bool
  fu_flight :: "flight option"
  fu_followup :: bool
  fu_clearNext :: bool
  fu_acked :: "(string, state_dto) dict"
  fu_status :: persist_status
  fu_lastSaveError :: "string option"
  fu_toasts :: "unit toast list"

definition fingerprint :: "funnel \<Rightarrow> state_dto" where
  "fingerprint s = serializeTournamentState (fu_store s)"

definition shouldScheduleFollowup ::
  "state_dto \<Rightarrow> state_dto option \<Rightarrow> state_dto option \<Rightarrow> bool \<Rightarrow> bool" where
  "shouldScheduleFollowup fp acknowledged inFlight hasInFlight \<longleftrightarrow>
     (if hasInFlight then Some fp \<noteq> inFlight else Some fp \<noteq> acknowledged)"

definition requestClearScheduleOnNextSave :: "funnel \<Rightarrow> funnel" where
  "requestClearScheduleOnNextSave s = s\<lparr>fu_clearNext := True\<rparr>"

definition crossModuleNoteFor :: "string list option \<Rightarrow> string option" where
  "crossModuleNoteFor schedules =
     (case schedules of
        None \<Rightarrow> None
      | Some names \<Rightarrow>
          if ''bracket'' \<notin> set names then None
          else if ''meet'' \<in> set names
          then Some ''This will also clear the bracket schedule. Both the meet and bracket schedules will be cleared.''
          else Some ''This will also clear the bracket schedule.'')"

section \<open>The subscription\<close>

text \<open>The fields the change comparator looks at; the code compares references, the model contents. The
  version and the history of the schedule are not among them.\<close>

definition watched_change :: "tournament_state \<Rightarrow> tournament_state \<Rightarrow> bool" where
  "watched_change state prev \<longleftrightarrow>
     tn_config state \<noteq> tn_config prev \<or> tn_groups state \<noteq> tn_groups prev \<or>
     tn_players state \<noteq> tn_players prev \<or> tn_matches state \<noteq> tn_matches prev \<or>
     tn_schedule state \<noteq> tn_schedule prev \<or> tn_scheduleIsStale state \<noteq> tn_scheduleIsStale prev \<or>
     tn_bracketPlayers state \<noteq> tn_bracketPlayers prev \<or>
     tn_bracketRosterMigrated state \<noteq> tn_bracketRosterMigrated prev \<or>
     tn_planFinalized state \<noteq> tn_planFinalized prev"

definition on_change :: "tournament_state \<Rightarrow> funnel \<Rightarrow> funnel" where
  "on_change prev s =
     (case fu_active s of
        None \<Rightarrow> s
      | Some tid \<Rightarrow>
          if \<not> fu_hydrated s \<or> \<not> watched_change (fu_store s) prev then s
          else if \<not> shouldScheduleFollowup (fingerprint s) (map_of (fu_acked s) tid)
                    (map_option fl_payload (fu_flight s)) (fu_flight s \<noteq> None) then s
          else let s1 = (if fu_status s \<noteq> SSaving then s\<lparr>fu_status := SDirty\<rparr> else s)
               in if fu_flight s1 \<noteq> None then s1\<lparr>fu_followup := True\<rparr> else s1\<lparr>fu_timer := True\<rparr>)"

definition edit :: "(tournament_state \<Rightarrow> tournament_state) \<Rightarrow> funnel \<Rightarrow> funnel" where
  "edit f s = on_change (fu_store s) (s\<lparr>fu_store := f (fu_store s)\<rparr>)"

section \<open>The flush\<close>

text \<open>\<open>forceSaveNow\<close> up to the request; the edit right is an argument, its toast is \<open>assertCanEdit\<close>'s.\<close>

definition forceSaveNow :: "bool \<Rightarrow> bool \<Rightarrow> funnel \<Rightarrow> funnel" where
  "forceSaveNow cleanup mayEdit s =
     (let hadPendingTimer = fu_timer s;
          s1 = s\<lparr>fu_timer := False\<rparr>
      in case fu_flight s1 of
           Some f \<Rightarrow>
             if cleanup \<and> fl_payload f = fingerprint s1 then s1 else s1\<lparr>fu_followup := True\<rparr>
         | None \<Rightarrow>
             (case fu_active s1 of
                None \<Rightarrow> s1
              | Some tid \<Rightarrow>
                  if tid = [] then s1
                  else if cleanup \<and> \<not> hadPendingTimer \<and> \<not> fu_clearNext s1 \<and>
                          map_of (fu_acked s1) tid = Some (fingerprint s1) then s1
                  else if \<not> mayEdit then s1
                  else s1\<lparr>fu_followup := False, fu_clearNext := False, fu_status := SSaving,
                          fu_flight := Some \<lparr>fl_tid = tid, fl_payload = fingerprint s1,
                            fl_stage = Putting (fu_clearNext s1)\<rparr>\<rparr>))"

text \<open>The \<open>finally\<close> of the flush.\<close>

definition land :: "funnel \<Rightarrow> funnel" where
  "land s = s\<lparr>fu_flight := None, fu_followup := False, fu_timer := (fu_timer s \<or> fu_followup s)\<rparr>"

definition put_ok :: "funnel \<Rightarrow> funnel" where
  "put_ok s =
     (case fu_flight s of
        None \<Rightarrow> s
      | Some f \<Rightarrow>
          (case fl_stage f of
             Putting _ \<Rightarrow> land (s\<lparr>fu_acked := AList.update (fl_tid f) (fl_payload f) (fu_acked s), fu_status := SIdle, fu_lastSaveError := None\<rparr>)
           | Retrying \<Rightarrow> land (s\<lparr>fu_acked := AList.update (fl_tid f) (fl_payload f) (fu_acked s), fu_status := SIdle, fu_lastSaveError := None\<rparr>)
           | _ \<Rightarrow> s))"

record put_error =
  er_status :: "int option"
  er_code :: "string option"
  er_message :: string

text \<open>\<open>handleRejectedSave\<close> up to its read: only a 409 re-reads the server.\<close>

definition handleRejectedSave :: "put_error \<Rightarrow> flight \<Rightarrow> funnel \<Rightarrow> funnel" where
  "handleRejectedSave err f s =
     (let s1 = s\<lparr>fu_lastSaveError := Some (er_message err), fu_status := SError\<rparr>
      in if er_status err \<noteq> Some 409 then land s1
         else s1\<lparr>fu_flight := Some (f\<lparr>fl_stage := Resyncing (er_code err) (er_message err)\<rparr>)\<rparr>)"

text \<open>What it says once the page has been re-read.\<close>

definition rejection_toast :: "string option \<Rightarrow> string \<Rightarrow> unit toast_body" where
  "rejection_toast code msg =
     (let warn = (\<lambda>m d ms. \<lparr>tb_level = TWarn, tb_message = m, tb_detail = Some d, tb_actionLabel = None,
           tb_onAction = None, tb_durationMs = Some (Some ms)\<rparr>)
      in if code = Some ''STATE_VERSION_CONFLICT''
         then warn ''Someone else saved first''
           (''This workspace changed in another tab or by another operator. '' @
            ''Your view has been re-synced to the server. Re-apply your change '' @ ''if it is still needed.'') 8000
         else if code = Some ''DRAW_STARTED''
         then warn ''A started draw locks the schedule''
           (''It can'' @ [CHR 0x27] @ ''t be cleared while a draw is in play. The workspace has been re-synced to the server.'') 6000
         else warn ''That change was rejected'' (msg @ ''. The workspace has been re-synced to the server.'') 6000)"

definition put_failed :: "put_error \<Rightarrow> funnel \<Rightarrow> funnel" where
  "put_failed err s =
     (case fu_flight s of
        None \<Rightarrow> s
      | Some f \<Rightarrow>
          (case fl_stage f of
             Putting clear \<Rightarrow>
               if er_status err = Some 409 \<and> er_code err = Some ''CONFIG_LOCKED'' \<and> \<not> clear
               then s\<lparr>fu_flight := Some (f\<lparr>fl_stage := AskUnlock\<rparr>)\<rparr>
               else handleRejectedSave err f s
           | Retrying \<Rightarrow> handleRejectedSave err f s
           | _ \<Rightarrow> s))"

text \<open>The operator's answer: unlocking is a change of the store like any other.\<close>

definition answer_unlock :: "bool \<Rightarrow> funnel \<Rightarrow> funnel" where
  "answer_unlock confirmed s =
     (case fu_flight s of
        None \<Rightarrow> s
      | Some f \<Rightarrow>
          if fl_stage f \<noteq> AskUnlock then s
          else if confirmed
          then edit unlockSchedule (s\<lparr>fu_flight := Some (f\<lparr>fl_stage := Retrying\<rparr>)\<rparr>)
          else s\<lparr>fu_flight := Some (f\<lparr>fl_stage := Declining\<rparr>)\<rparr>)"

text \<open>The answer to the re-read: it failed (\<open>None\<close>), there is no document (\<open>Some None\<close>), or here it is.
  A hydration does not reach the subscription.\<close>

definition reread :: "string \<Rightarrow> state_dto option option \<Rightarrow> funnel \<Rightarrow> funnel" where
  "reread fresh answer s =
     (case fu_flight s of
        None \<Rightarrow> s
      | Some f \<Rightarrow>
          (let taken = (case answer of
                 Some (Some remote) \<Rightarrow> s\<lparr>fu_store := hydrate remote (fu_store s)\<rparr>
               | _ \<Rightarrow> s)
           in case fl_stage f of
                Resyncing code msg \<Rightarrow>
                  land (if answer = None then s
                        else taken\<lparr>fu_status := SIdle,
                          fu_toasts := snd (pushToast fresh (rejection_toast code msg) (fu_toasts s))\<rparr>)
              | Declining \<Rightarrow> land (taken\<lparr>fu_status := SIdle, fu_lastSaveError := None\<rparr>)
              | _ \<Rightarrow> s))"

section \<open>Mounting\<close>

definition mount :: "string \<Rightarrow> funnel \<Rightarrow> funnel" where
  "mount tid s = s\<lparr>fu_hydrated := False, fu_store := setHydrated False (fu_store s), fu_active := Some tid\<rparr>"

text \<open>The answer to the first read of a mounted workspace, \<open>None\<close> when it failed.\<close>

definition first_read :: "state_dto option option \<Rightarrow> funnel \<Rightarrow> funnel" where
  "first_read answer s =
     (case fu_active s of
        None \<Rightarrow> s
      | Some tid \<Rightarrow>
          (let s1 = (case answer of
                 None \<Rightarrow> s
               | Some remote \<Rightarrow>
                   (let st = (case remote of Some d \<Rightarrow> hydrate d (fu_store s) | None \<Rightarrow> resetToDefaults (fu_store s))
                    in s\<lparr>fu_store := st,
                         fu_acked := AList.update tid (serializeTournamentState st) (fu_acked s)\<rparr>))
           in s1\<lparr>fu_hydrated := True, fu_store := setHydrated True (fu_store s1)\<rparr>))"

definition unmount :: "bool \<Rightarrow> funnel \<Rightarrow> funnel" where
  "unmount mayEdit s = (forceSaveNow True mayEdit s)\<lparr>fu_active := None\<rparr>"

definition fresh_page :: funnel where
  "fresh_page = \<lparr>fu_store = INITIAL, fu_active = None, fu_hydrated = False, fu_timer = False, fu_flight = None,
     fu_followup = False, fu_clearNext = False, fu_acked = [], fu_status = SIdle,
     fu_lastSaveError = None, fu_toasts = []\<rparr>"

section \<open>No edit is lost in a session\<close>

text \<open>The fields of a snapshot that the comparator looks at; the version and the history of the schedule
  ride along.\<close>

definition watched_part :: "state_dto \<Rightarrow> state_dto" where
  "watched_part d = d\<lparr>sn_scheduleVersion := None, sn_scheduleHistory := None\<rparr>"

definition same_document :: "state_dto option \<Rightarrow> state_dto \<Rightarrow> bool" where
  "same_document a d \<longleftrightarrow> map_option watched_part a = Some (watched_part d)"

text \<open>A session of an operator who may edit: every callback of the open page, in any order and with any
  answer. Beside the funnel goes the document on screen when a re-read was last over: the server's own,
  or, when the re-read after a declined unlock gave none, the one the operator declined to save.\<close>

definition after_reread :: "string \<Rightarrow> state_dto option option \<Rightarrow> funnel \<times> state_dto option \<Rightarrow> funnel \<times> state_dto option" where
  "after_reread fresh answer p =
     (let s = reread fresh answer (fst p)
      in (s, case map_option fl_stage (fu_flight (fst p)) of
               Some (Resyncing _ _) \<Rightarrow> if answer = None then snd p else Some (fingerprint s)
             | Some Declining \<Rightarrow> Some (fingerprint s)
             | _ \<Rightarrow> snd p))"

inductive session_step :: "funnel \<times> state_dto option \<Rightarrow> funnel \<times> state_dto option \<Rightarrow> bool" where
  edits: "session_step (s, g) (edit f s, g)"
| flushes: "session_step (s, g) (forceSaveNow cleanup True s, g)"
| asks_clear: "session_step (s, g) (requestClearScheduleOnNextSave s, g)"
| accepted: "session_step (s, g) (put_ok s, g)"
| refused: "session_step (s, g) (put_failed err s, g)"
| answers: "session_step (s, g) (answer_unlock confirmed s, g)"
| rereads: "session_step p (after_reread fresh answer p)"

text \<open>What is true between any two callbacks: a put in flight carries the document on screen or a
  follow-up is owed; while the server is re-read after a refusal the failure shows or a follow-up is owed;
  with nothing in flight the document is the one last acknowledged, or the one of the last re-read, or the
  timer is armed, or the failure is on display.\<close>

definition stage_ok :: "funnel \<Rightarrow> flight \<Rightarrow> bool" where
  "stage_ok s f \<longleftrightarrow>
     (case fl_stage f of
        Resyncing _ _ \<Rightarrow> fu_status s = SError \<or> fu_followup s
      | Declining \<Rightarrow> True
      | _ \<Rightarrow> watched_part (fl_payload f) = watched_part (fingerprint s) \<or> fu_followup s)"

definition funnel_ok :: "string \<Rightarrow> funnel \<times> state_dto option \<Rightarrow> bool" where
  "funnel_ok tid p \<longleftrightarrow> (let s = fst p in tid \<noteq> [] \<and> fu_active s = Some tid \<and> fu_hydrated s \<and>
     (case fu_flight s of
        None \<Rightarrow> same_document (map_of (fu_acked s) tid) (fingerprint s) \<or> same_document (snd p) (fingerprint s) \<or>
          fu_timer s \<or> fu_status s = SError
      | Some f \<Rightarrow> fl_tid f = tid \<and> stage_ok s f))"

lemma fingerprint_store [simp]:
  "fingerprint (s\<lparr>fu_timer := a\<rparr>) = fingerprint s" "fingerprint (s\<lparr>fu_flight := b\<rparr>) = fingerprint s"
  "fingerprint (s\<lparr>fu_followup := a\<rparr>) = fingerprint s" "fingerprint (s\<lparr>fu_status := c\<rparr>) = fingerprint s"
  "fingerprint (s\<lparr>fu_acked := d\<rparr>) = fingerprint s" "fingerprint (s\<lparr>fu_clearNext := a\<rparr>) = fingerprint s"
  "fingerprint (s\<lparr>fu_active := e\<rparr>) = fingerprint s"
  "fingerprint (s\<lparr>fu_lastSaveError := g\<rparr>) = fingerprint s" "fingerprint (land s) = fingerprint s"
  "fingerprint (s\<lparr>fu_toasts := h\<rparr>) = fingerprint s"
  by (simp_all add: fingerprint_def land_def)

lemma unwatched_change:
  "\<not> watched_change st st' \<Longrightarrow>
   watched_part (serializeTournamentState st) = watched_part (serializeTournamentState st')"
  by (simp add: watched_change_def watched_part_def serializeTournamentState_def)

lemma edit_cases:
  assumes "fu_active s = Some tid" "fu_hydrated s"
  obtains (unseen) "edit f s = s\<lparr>fu_store := f (fu_store s)\<rparr>"
      "watched_part (fingerprint (edit f s)) = watched_part (fingerprint s)"
  | (known) "edit f s = s\<lparr>fu_store := f (fu_store s)\<rparr>"
      "(if fu_flight s = None then map_of (fu_acked s) tid else map_option fl_payload (fu_flight s)) =
         Some (fingerprint (edit f s))"
  | (owed) "fu_flight (edit f s) \<noteq> None" "fu_followup (edit f s)"
  | (armed) "fu_flight (edit f s) = None" "fu_timer (edit f s)"
proof -
  let ?t = "s\<lparr>fu_store := f (fu_store s)\<rparr>"
  have e: "edit f s = (if \<not> watched_change (fu_store ?t) (fu_store s) then ?t
      else if \<not> shouldScheduleFollowup (fingerprint ?t) (map_of (fu_acked s) tid)
          (map_option fl_payload (fu_flight s)) (fu_flight s \<noteq> None) then ?t
      else let s1 = (if fu_status ?t \<noteq> SSaving then ?t\<lparr>fu_status := SDirty\<rparr> else ?t)
           in if fu_flight s1 \<noteq> None then s1\<lparr>fu_followup := True\<rparr> else s1\<lparr>fu_timer := True\<rparr>)"
    using assms by (simp add: edit_def on_change_def)
  show ?thesis
  proof (cases "watched_change (fu_store ?t) (fu_store s)")
    case False
    then show ?thesis using unseen e unwatched_change[OF False] by (simp add: fingerprint_def)
  next
    case True
    show ?thesis
    proof (cases "shouldScheduleFollowup (fingerprint ?t) (map_of (fu_acked s) tid)
          (map_option fl_payload (fu_flight s)) (fu_flight s \<noteq> None)")
      case False
      then have "edit f s = ?t" using e True by simp
      then show ?thesis using known False by (auto simp: shouldScheduleFollowup_def split: if_splits)
    next
      case w: True
      then show ?thesis using owed armed e True by (cases "fu_flight s") (simp_all add: Let_def)
    qed
  qed
qed

lemma edit_keeps: "fu_active (edit f s) = fu_active s" "fu_hydrated (edit f s) = fu_hydrated s"
  "fu_acked (edit f s) = fu_acked s" "fu_flight (edit f s) = fu_flight s"
  by (simp_all add: edit_def on_change_def Let_def split: option.split)

lemma edit_ok:
  assumes "funnel_ok tid (s, g)"
  shows "funnel_ok tid (edit f s, g)"
proof -
  have s: "fu_active s = Some tid" "fu_hydrated s" using assms by (simp_all add: funnel_ok_def Let_def)
  from s show ?thesis
  proof (cases rule: edit_cases[where f = f])
    case unseen
    then show ?thesis using assms
      by (cases "fu_flight s") (auto simp: funnel_ok_def Let_def stage_ok_def same_document_def split: flight_stage.splits)
  next
    case known
    then show ?thesis using assms
      by (cases "fu_flight s") (auto simp: funnel_ok_def Let_def stage_ok_def same_document_def split: flight_stage.splits)
  next
    case owed
    then show ?thesis using assms
      by (cases "fu_flight s") (auto simp: funnel_ok_def Let_def stage_ok_def edit_keeps split: flight_stage.splits)
  next
    case armed
    then show ?thesis using assms by (simp add: funnel_ok_def Let_def edit_keeps)
  qed
qed

lemma land_ok: "fl_tid f = tid \<Longrightarrow> tid \<noteq> [] \<Longrightarrow> fu_active s = Some tid \<Longrightarrow> fu_hydrated s \<Longrightarrow>
    same_document (map_of (fu_acked s) tid) (fingerprint s) \<or> same_document g (fingerprint s) \<or>
      fu_timer s \<or> fu_followup s \<or> fu_status s = SError \<Longrightarrow>
    funnel_ok tid (land s, g)"
  by (auto simp: funnel_ok_def land_def Let_def fingerprint_def)

lemma put_ok_ok: "funnel_ok tid (s, g) \<Longrightarrow> funnel_ok tid (put_ok s, g)"
  by (cases "fu_flight s")
    (auto simp: funnel_ok_def put_ok_def land_def Let_def stage_ok_def same_document_def fingerprint_def
      split: flight_stage.splits)

lemma put_failed_ok: "funnel_ok tid (s, g) \<Longrightarrow> funnel_ok tid (put_failed err s, g)"
  by (cases "fu_flight s")
    (auto simp: funnel_ok_def put_failed_def handleRejectedSave_def land_def Let_def stage_ok_def
      split: flight_stage.splits)

lemma answer_ok:
  assumes "funnel_ok tid (s, g)"
  shows "funnel_ok tid (answer_unlock b s, g)"
proof (cases "fu_flight s")
  case (Some f)
  show ?thesis
  proof (cases "fl_stage f = AskUnlock \<and> b")
    case True
    then have "funnel_ok tid (s\<lparr>fu_flight := Some (f\<lparr>fl_stage := Retrying\<rparr>)\<rparr>, g)"
      using assms Some by (simp add: funnel_ok_def Let_def stage_ok_def)
    from edit_ok[OF this] show ?thesis using True Some by (simp add: answer_unlock_def)
  next
    case False
    then show ?thesis using assms Some by (auto simp: answer_unlock_def funnel_ok_def Let_def stage_ok_def)
  qed
qed (use assms in \<open>simp add: answer_unlock_def\<close>)

lemma reread_ok: "funnel_ok tid p \<Longrightarrow> funnel_ok tid (after_reread fresh answer p)"
  by (cases "fu_flight (fst p)")
    (auto simp: after_reread_def reread_def funnel_ok_def Let_def stage_ok_def land_def same_document_def fingerprint_def
      split: flight_stage.splits option.splits)

lemma flush_ok: "funnel_ok tid (s, g) \<Longrightarrow> funnel_ok tid (forceSaveNow c True s, g)"
  by (cases "fu_flight s")
    (auto simp: funnel_ok_def forceSaveNow_def Let_def stage_ok_def same_document_def split: flight_stage.splits)

lemma session_step_ok: "session_step p q \<Longrightarrow> funnel_ok tid p \<Longrightarrow> funnel_ok tid q"
proof (induction rule: session_step.induct)
  case (asks_clear s g)
  then show ?case
    by (auto simp: funnel_ok_def requestClearScheduleOnNextSave_def Let_def stage_ok_def split: option.splits flight_stage.splits)
qed (auto intro: edit_ok flush_ok put_ok_ok put_failed_ok answer_ok reread_ok)

lemma session_ok: "session_step\<^sup>*\<^sup>* p q \<Longrightarrow> funnel_ok tid p \<Longrightarrow> funnel_ok tid q"
  by (induction rule: rtranclp_induct) (auto intro: session_step_ok)

lemma first_read_ok:
  assumes "tid \<noteq> []" "fu_flight s = None"
  shows "funnel_ok tid (first_read (Some remote) (mount tid s), g)"
  using assms
  by (auto simp: funnel_ok_def first_read_def mount_def Let_def fingerprint_def serializeTournamentState_def
      setHydrated_def same_document_def split: option.split)

section \<open>What the funnel does not cover\<close>

definition conflict :: put_error where
  "conflict = \<lparr>er_status = Some 409, er_code = Some ''STATE_VERSION_CONFLICT'',
     er_message = ''conflict''\<rparr>"

definition finalize :: "bool \<Rightarrow> tournament_state \<Rightarrow> tournament_state" where
  "finalize b s = setPlanFinalized b s"

definition opened :: "string \<Rightarrow> funnel" where
  "opened tid = first_read (Some None) (mount tid fresh_page)"

text \<open>The re-read after a conflict does not renew the acknowledgement: with the page at the other
  session's document, an edit back to the document this page last saved is taken for saved.\<close>

lemma edit_after_resync_lost:
  assumes "A = serializeTournamentState (fu_store (opened ''t''))"
    and "s = reread ''u'' (Some (Some (A\<lparr>sn_planFinalized := Some True\<rparr>)))
           (put_failed conflict (forceSaveNow False True
             (edit (addGroup [(''id'', JStr ''g'')]) (opened ''t''))))"
  shows "sn_planFinalized (fingerprint s) = Some True" "fu_status s = SIdle"
      "map tb_message (fu_toasts s) = [''Someone else saved first'']"
    and "fingerprint (edit (finalize False) s) = A" "fu_timer (edit (finalize False) s) = False"
      "fu_flight (edit (finalize False) s) = None" "fu_status (edit (finalize False) s) = SIdle"
  unfolding assms by code_simp+

text \<open>A declined unlock whose re-read fails leaves the declined edit on screen with nothing to say that it
  is not saved.\<close>

lemma declined_edit_stays:
  assumes "s = reread ''u'' None (answer_unlock False
      (put_failed \<lparr>er_status = Some 409, er_code = Some ''CONFIG_LOCKED'', er_message = ''locked''\<rparr>
        (forceSaveNow False True (edit (addGroup [(''id'', JStr ''g'')]) (opened ''t'')))))"
  shows "map_of (fu_acked s) ''t'' \<noteq> Some (fingerprint s)" "fu_status s = SIdle" "fu_lastSaveError s = None"
    "fu_timer s = False" "fu_flight s = None"
  unfolding assms by code_simp+

text \<open>A follow-up owed when the page leaves a workspace is flushed into the next one, when that one's
  document has not arrived by then: the first workspace's document goes out under the second's name.\<close>

lemma followup_crosses_workspaces:
  assumes "s = edit (addGroup [(''id'', JStr ''h'')]) (forceSaveNow False True
      (edit (addGroup [(''id'', JStr ''g'')]) (opened ''a'')))"
    and "t = forceSaveNow False True (put_ok (mount ''b'' (unmount True s)))"
  shows "map_option fl_tid (fu_flight t) = Some ''b''"
    "map_option (map (\<lambda>g. map_of g ''id'') \<circ> sn_groups \<circ> fl_payload) (fu_flight t)
       = Some [Some (JStr ''g''), Some (JStr ''h'')]"
  unfolding assms by code_simp+

text \<open>And when the page goes to no workspace, the flush finds none: the last edits are dropped.\<close>

lemma followup_dropped_on_leave:
  assumes "s = edit (addGroup [(''id'', JStr ''h'')]) (forceSaveNow False True
      (edit (addGroup [(''id'', JStr ''g'')]) (opened ''a'')))"
    and "t = forceSaveNow False True (put_ok (unmount True s))"
  shows "fu_flight t = None" "fu_timer t = False" "map_of (fu_acked t) ''a'' \<noteq> Some (fingerprint t)"
  unfolding assms by code_simp+

section \<open>Properties\<close>



end
