(* ===== verification/Workspace.thy ===== *)
theory Workspace
  imports JsText "HOL-Library.Sublist"
begin

text \<open>
  What a workspace shows of itself, under \<open>platform/\<close>: the lifecycle badge (\<open>domain/lifecycle.ts\<close>), the
  module catalog (\<open>domain/moduleModel.ts\<close>, \<open>product-shell/types.ts\<close>), the phase stepper
  (\<open>domain/overviewPhase.ts\<close>), the setup and readiness checklists (\<open>domain/setupChecklist.ts\<close>) and the
  navigation rail (\<open>product-shell/workspaceNav.ts\<close>). A tab key is the string it is in the source; lower
  case is the parameter \<open>lower\<close>.
\<close>

section \<open>Lifecycle\<close>

datatype workspace_phase =
    PAnnounced | PEntriesOpen | PEntriesReview | PSetup | PReady | PLive | PComplete

datatype badge_tone = Green | Idle | Done

record lifecycle_badge =
  lb_text :: string
  lb_tone :: badge_tone

definition lifecycleBadge :: "workspace_phase option \<Rightarrow> string option \<Rightarrow> lifecycle_badge option" where
  "lifecycleBadge phase status =
     (if status = Some ''archived'' then Some \<lparr>lb_text = ''Archived'', lb_tone = Idle\<rparr>
      else if phase = Some PLive then Some \<lparr>lb_text = ''Live'', lb_tone = Green\<rparr>
      else if phase = Some PComplete then Some \<lparr>lb_text = ''Complete'', lb_tone = Done\<rparr>
      else None)"

definition lifecycleChip :: "workspace_phase option \<Rightarrow> string option \<Rightarrow> lifecycle_badge option" where
  "lifecycleChip phase status =
     (let badge = lifecycleBadge phase status
      in if map_option lb_text badge = Some ''Live'' then None else badge)"

section \<open>Modules\<close>

datatype module_id = Meet | Bracket | Display | Entries
datatype module_status = Enabled | AvailableModule | Disabled | ComingSoon
datatype ws_kind = MeetKind | BracketKind

fun MODULE_LABELS :: "module_id \<Rightarrow> string" where
  "MODULE_LABELS Meet = ''Meet''"
| "MODULE_LABELS Bracket = ''Bracket''"
| "MODULE_LABELS Display = ''Display''"
| "MODULE_LABELS Entries = ''Entries''"

definition OPERATIONS_LABEL :: string where
  "OPERATIONS_LABEL = ''Operations''"

record workspace_module =
  wm_id :: module_id
  wm_label :: string
  wm_status :: module_status
  wm_note :: "string option"
  wm_hasData :: "bool option"

definition ENABLEABLE_MODULE_IDS :: "module_id list" where
  "ENABLEABLE_MODULE_IDS = [Meet, Bracket, Display, Entries]"

definition DERIVED_MODULE_ORDER :: "module_id list" where
  "DERIVED_MODULE_ORDER = [Meet, Bracket, Display]"

definition MEET_OPERATOR_TABS :: "string list" where
  "MEET_OPERATOR_TABS = [''setup'', ''roster'', ''matches'', ''schedule'', ''live'']"

definition moduleForTab :: "string \<Rightarrow> ws_kind option \<Rightarrow> module_id" where
  "moduleForTab tab kind =
     (if tab = ''tv'' then Display
      else if tab = ''entries'' then Entries
      else if prefix ''bracket-'' tab then Bracket
      else if tab \<in> set MEET_OPERATOR_TABS then Meet
      else if kind = Some BracketKind then Bracket else Meet)"

fun defaultTabForModule :: "module_id \<Rightarrow> string" where
  "defaultTabForModule Bracket = ''bracket-setup''"
| "defaultTabForModule Display = ''tv''"
| "defaultTabForModule Entries = ''entries''"
| "defaultTabForModule Meet = ''setup''"

definition primaryModuleForOpen :: "workspace_module list \<Rightarrow> module_id" where
  "primaryModuleForOpen modules =
     (let present = filter (\<lambda>i. list_ex (\<lambda>m. wm_id m = i) modules) ENABLEABLE_MODULE_IDS;
          byStatus = (\<lambda>s. find (\<lambda>i. map_option wm_status (find (\<lambda>m. wm_id m = i) modules) = Some s) present);
          first = (case present of i # _ \<Rightarrow> Some i | [] \<Rightarrow> None)
      in or_else (or_opt (or_opt (byStatus Enabled) (byStatus AvailableModule)) first) Meet)"

definition moduleNote :: "module_id \<Rightarrow> module_status \<Rightarrow> string option" where
  "moduleNote i status =
     (case status of
        ComingSoon \<Rightarrow> Some (MODULE_LABELS i @ '' is not enabled for this workspace yet.'')
      | Disabled \<Rightarrow> Some (MODULE_LABELS i @ '' is turned off. Re-enable to use it.'')
      | _ \<Rightarrow> None)"

definition modulesForWorkspace :: "ws_kind option \<Rightarrow> workspace_module list" where
  "modulesForWorkspace kind =
     (let isBracket = (kind = Some BracketKind);
          status = (\<lambda>i. if i = Display then AvailableModule
                        else if (i = Bracket) = isBracket then Enabled else AvailableModule)
      in map (\<lambda>i. \<lparr>wm_id = i, wm_label = MODULE_LABELS i, wm_status = status i,
                wm_note = moduleNote i (status i), wm_hasData = None\<rparr>) DERIVED_MODULE_ORDER)"

record module_dto =
  mo_moduleId :: module_id
  mo_status :: module_status
  mo_hasData :: "bool option"

definition modulesFromDto :: "module_dto list \<Rightarrow> workspace_module list" where
  "modulesFromDto dtos =
     (let byId = from_entries (map (\<lambda>d. (mo_moduleId d,
            (if mo_status d = ComingSoon then AvailableModule else mo_status d, or_else (mo_hasData d) False))) dtos)
      in List.map_filter (\<lambda>i. map_option (\<lambda>(s, hasData).
           \<lparr>wm_id = i, wm_label = MODULE_LABELS i, wm_status = s, wm_note = moduleNote i s,
            wm_hasData = Some hasData\<rparr>) (map_of byId i)) ENABLEABLE_MODULE_IDS)"

definition isModuleEnterable :: "module_status \<Rightarrow> bool" where
  "isModuleEnterable status \<longleftrightarrow> status = Enabled \<or> status = AvailableModule"

definition isModuleEnableable :: "module_status \<Rightarrow> bool" where
  "isModuleEnableable status \<longleftrightarrow> status = AvailableModule \<or> status = Disabled"

section \<open>The summary row\<close>

record match_signals =
  mg_total :: "int option"
  mg_scheduled :: "int option"

record entries_signals =
  eg_drawsPublished :: "bool option"
  eg_closed :: "bool option"

record signals =
  sg_phase :: "string option"
  sg_setup :: "(string, bool) dict option"
  sg_attention :: "(string \<times> string) list option"
  sg_matches :: "match_signals option"
  sg_entries :: "entries_signals option"

record summary_dto =
  su_kind :: "string option"
  su_modules :: "module_dto list option"
  su_signals :: "signals option"

section \<open>Phases\<close>

definition KNOWN_PHASES :: "(string \<times> workspace_phase) list" where
  "KNOWN_PHASES = [(''announced'', PAnnounced), (''entries_open'', PEntriesOpen),
     (''entries_review'', PEntriesReview), (''setup'', PSetup), (''ready'', PReady), (''live'', PLive),
     (''complete'', PComplete)]"

definition ENTRIES_PHASES :: "workspace_phase list" where
  "ENTRIES_PHASES = [PAnnounced, PEntriesOpen, PEntriesReview]"

definition resolvePhase :: "summary_dto option \<Rightarrow> workspace_phase" where
  "resolvePhase summary =
     (let raw = Option.bind (Option.bind summary su_signals) sg_phase
      in or_else (Option.bind raw (map_of KNOWN_PHASES)) PSetup)"

definition visiblePhases :: "summary_dto option \<Rightarrow> workspace_phase list" where
  "visiblePhases summary =
     (case summary of
        None \<Rightarrow> []
      | Some su \<Rightarrow>
          (let modules = or_else (su_modules su) [];
               hasEngine = list_ex (\<lambda>m. (mo_moduleId m = Meet \<or> mo_moduleId m = Bracket) \<and> mo_status m = Enabled) modules;
               takesEntries = list_ex (\<lambda>m. mo_moduleId m = Entries \<and> mo_status m = Enabled) modules
           in if \<not> hasEngine \<and> modules \<noteq> [] then []
              else filter (\<lambda>phase. takesEntries \<or> phase \<notin> set ENTRIES_PHASES) (map snd KNOWN_PHASES)))"

definition phaseIndex :: "workspace_phase list \<Rightarrow> workspace_phase \<Rightarrow> int" where
  "phaseIndex phases phase =
     (case find (\<lambda>(i, p). p = phase) (enumerate 0 phases) of Some (i, _) \<Rightarrow> int i | None \<Rightarrow> - 1)"

fun PHASE_LABEL :: "workspace_phase \<Rightarrow> string" where
  "PHASE_LABEL PAnnounced = ''Announced''"
| "PHASE_LABEL PEntriesOpen = ''Entries open''"
| "PHASE_LABEL PEntriesReview = ''Entries review''"
| "PHASE_LABEL PSetup = ''Setup''"
| "PHASE_LABEL PReady = ''Ready''"
| "PHASE_LABEL PLive = ''Live''"
| "PHASE_LABEL PComplete = ''Complete''"

section \<open>Checklists\<close>

record checklist_action =
  ck_actionLabel :: string
  ck_segment :: string

record checklist_step =
  ck_key :: string
  ck_label :: string
  ck_done :: bool
  ck_reason :: "string option"
  ck_action :: "checklist_action option"
  ck_blocked :: bool

fun STEP_ORDER :: "ws_kind \<Rightarrow> string list" where
  "STEP_ORDER MeetKind = [''configured'', ''roster'', ''scheduled'', ''results'']"
| "STEP_ORDER BracketKind = [''events'', ''bracketBuilt'', ''results'']"

definition STEP_REASON_CODE :: "(string, string) dict" where
  "STEP_REASON_CODE = [(''roster'', ''NO_ROSTER''), (''scheduled'', ''NOT_SCHEDULED''), (''bracketBuilt'', ''NO_BRACKET'')]"

definition REASON_ACTION :: "(string, string) dict" where
  "REASON_ACTION = [(''NO_ROSTER'', ''Add players''), (''NOT_SCHEDULED'', ''Generate schedule''),
     (''NO_BRACKET'', ''Build the bracket''), (''NO_MODULES_ENABLED'', ''Enable a module''),
     (''DISPLAY_NO_SOURCE'', ''Enable an operator''), (''ENTRIES_CLOSING_SOON'', ''Check the entries desk''),
     (''UNRESOLVED_PAIRS'', ''Resolve pairs''), (''AT_CAP_WITH_WAITLIST'', ''Review the waitlist''),
     (''ENTRIES_NOT_COMMITTED'', ''Commit entries to the roster''),
     (''COMMITTED_ENTRY_WITHDREW'', ''Review a withdrawal''), (''UNPAID_ENTRIES'', ''Mark payments'')]"

definition STEP_FALLBACK_ACTION :: "(string, string) dict" where
  "STEP_FALLBACK_ACTION = [(''configured'', ''Configure''), (''events'', ''Add events''), (''results'', ''Record results'')]"

definition upper_letter :: "char \<Rightarrow> bool" where
  "upper_letter c \<longleftrightarrow> CHR ''A'' \<le> c \<and> c \<le> CHR ''Z''"

definition setupLabel :: "string \<Rightarrow> string" where
  "setupLabel key = trim (concat (map (\<lambda>c. if upper_letter c then [CHR '' '', c] else [c]) key))"

definition stepTarget :: "(string \<Rightarrow> string) \<Rightarrow> string \<Rightarrow> ws_kind \<Rightarrow> string option" where
  "stepTarget lower key kind =
     (let k = lower key; br = (kind = BracketKind); has = (\<lambda>w. sublist w k)
      in if has ''config'' then Some (if br then ''bracket-setup'' else ''setup'')
         else if has ''roster'' \<or> has ''player'' \<or> has ''participant''
         then Some (if br then ''bracket-roster'' else ''roster'')
         else if has ''event'' then Some ''bracket-draws''
         else if has ''draw'' \<or> has ''bracket'' then Some ''bracket-draws''
         else if has ''schedul'' then Some (if br then ''bracket-schedule'' else ''schedule'')
         else if has ''result'' \<or> has ''score'' \<or> has ''live''
         then Some (if br then ''bracket-live'' else ''live'')
         else None)"

definition step_action :: "(string \<Rightarrow> string) \<Rightarrow> ws_kind \<Rightarrow> string \<Rightarrow> checklist_action option" where
  "step_action lower kind key =
     map_option (\<lambda>segment.
       \<lparr>ck_actionLabel = or_else (or_opt (Option.bind (map_of STEP_REASON_CODE key) (map_of REASON_ACTION))
            (map_of STEP_FALLBACK_ACTION key)) (''Open '' @ lower (setupLabel key)),
        ck_segment = segment\<rparr>) (stepTarget lower key kind)"

text \<open>The walk over the keys with its flag \<open>seenIncomplete\<close>.\<close>

fun checklist_walk ::
  "(string \<Rightarrow> string) \<Rightarrow> ws_kind \<Rightarrow> (string, bool) dict \<Rightarrow> (string, string) dict \<Rightarrow> bool \<Rightarrow> string list \<Rightarrow>
   checklist_step list" where
  "checklist_walk lower kind setup reasonByCode seenIncomplete [] = []"
| "checklist_walk lower kind setup reasonByCode seenIncomplete (key # keys) =
     (let complete = or_else (map_of setup key) False;
          blocked = (\<not> complete \<and> seenIncomplete);
          reason = (if complete then None
                    else Option.bind (map_of STEP_REASON_CODE key) (map_of reasonByCode));
          action = (if \<not> complete \<and> \<not> blocked then step_action lower kind key else None)
      in \<lparr>ck_key = key, ck_label = setupLabel key, ck_done = complete, ck_reason = reason,
          ck_action = action, ck_blocked = blocked\<rparr>
         # checklist_walk lower kind setup reasonByCode (seenIncomplete \<or> \<not> complete) keys)"

definition kind_of :: "summary_dto \<Rightarrow> ws_kind" where
  "kind_of su = (if su_kind su = Some ''bracket'' then BracketKind else MeetKind)"

definition checklist_keys :: "ws_kind \<Rightarrow> (string, bool) dict \<Rightarrow> string list" where
  "checklist_keys kind setup =
     (let known = filter (\<lambda>k. map_of setup k \<noteq> None) (STEP_ORDER kind)
      in known @ filter (\<lambda>k. k \<notin> set known) (map fst setup))"

definition buildChecklist :: "(string \<Rightarrow> string) \<Rightarrow> summary_dto option \<Rightarrow> checklist_step list" where
  "buildChecklist lower summary =
     (case Option.bind summary su_signals of
        None \<Rightarrow> []
      | Some sg \<Rightarrow>
          (case sg_setup sg of
             None \<Rightarrow> []
           | Some setup \<Rightarrow>
               (let kind = kind_of (the summary);
                    reasonByCode = from_entries (or_else (sg_attention sg) [])
                in checklist_walk lower kind setup reasonByCode False (checklist_keys kind setup))))"

definition readiness_step ::
  "string \<Rightarrow> string \<Rightarrow> bool \<Rightarrow> string \<Rightarrow> string \<Rightarrow> string \<Rightarrow> checklist_step" where
  "readiness_step key label complete reason actionLabel segment =
     \<lparr>ck_key = key, ck_label = label, ck_done = complete,
      ck_reason = (if complete then None else Some reason),
      ck_action = (if complete then None else Some \<lparr>ck_actionLabel = actionLabel, ck_segment = segment\<rparr>),
      ck_blocked = False\<rparr>"

definition buildReadinessChecklist :: "summary_dto option \<Rightarrow> checklist_step list" where
  "buildReadinessChecklist summary =
     (case Option.bind summary su_signals of
        None \<Rightarrow> []
      | Some sg \<Rightarrow>
          (let br = (su_kind (the summary) = Some ''bracket'');
               setup = or_else (sg_setup sg) [];
               total = or_else (Option.bind (sg_matches sg) mg_total) 0;
               scheduled = or_else (Option.bind (sg_matches sg) mg_scheduled) 0;
               engine =
                 [readiness_step ''draws'' (if br then ''Draws generated'' else ''Schedule generated'')
                    (or_else (map_of setup (if br then ''bracketBuilt'' else ''scheduled'')) False)
                    (if br then ''No draw has been generated yet'' else ''No schedule has been generated yet'')
                    (if br then ''Build the bracket'' else ''Generate schedule'')
                    (if br then ''bracket-draws'' else ''schedule''),
                  readiness_step ''courts'' ''Courts assigned'' (total > 0 \<and> scheduled \<ge> total)
                    (if total > 0 then int_text scheduled @ '' of '' @ int_text total @ '' matches have a court and a time''
                     else ''There are no matches to assign yet'')
                    ''Open the plan'' (if br then ''bracket-schedule'' else ''schedule'')]
           in case sg_entries sg of
                None \<Rightarrow> engine
              | Some entries \<Rightarrow> engine @
                  [readiness_step ''publication'' ''Draw published'' (or_else (eg_drawsPublished entries) False)
                     ''The draw is not visible on the entry page yet'' ''Open publication settings'' ''ws-sharing'',
                   readiness_step ''entriesClosed'' ''Entries closed'' (or_else (eg_closed entries) False)
                     ''At least one event is still taking entries'' ''Open the entries desk'' ''entries'']))"

definition checklistProgress :: "checklist_step list \<Rightarrow> (int \<times> int) option" where
  "checklistProgress steps =
     (if steps = [] then None else Some (int (length (filter ck_done steps)), int (length steps)))"

section \<open>Routes\<close>

record workflow_route =
  wr_path :: string
  wr_section :: string
  wr_tab :: string
  wr_bracketTab :: "string option"

abbreviation workflow_row :: "string \<Rightarrow> string \<Rightarrow> string \<Rightarrow> string option \<Rightarrow> workflow_route" where
  "workflow_row p sec t b \<equiv> \<lparr>wr_path = p, wr_section = sec, wr_tab = t, wr_bracketTab = b\<rparr>"

definition WORKFLOW_ROUTES :: "workflow_route list" where
  "WORKFLOW_ROUTES = [
     workflow_row ''overview'' ''overview'' ''overview'' None,
     workflow_row ''setup/details'' ''setup'' ''setup'' None,
     workflow_row ''setup/entries'' ''setup'' ''setup'' None,
     workflow_row ''setup/scoring'' ''setup'' ''setup'' None,
     workflow_row ''setup/public-site'' ''setup'' ''setup'' None,
     workflow_row ''participants/entries'' ''participants'' ''entries'' None,
     workflow_row ''participants/people'' ''participants'' ''roster'' (Some ''bracket-roster''),
     workflow_row ''meet/matches'' ''meet'' ''matches'' None,
     workflow_row ''meet/team-structure'' ''meet'' ''roster'' None,
     workflow_row ''bracket/draws'' ''bracket'' ''bracket-draws'' None,
     workflow_row ''bracket/draw'' ''bracket'' ''bracket-draw'' None,
     workflow_row ''bracket/matches'' ''bracket'' ''bracket-matches'' None,
     workflow_row ''bracket/settings'' ''bracket'' ''bracket-setup'' None,
     workflow_row ''operations/plan'' ''operations'' ''schedule'' (Some ''bracket-schedule''),
     workflow_row ''operations/live'' ''operations'' ''live'' (Some ''bracket-live''),
     workflow_row ''display/board'' ''display'' ''display-config'' None,
     workflow_row ''display/preview'' ''display'' ''tv'' None,
     workflow_row ''administration/team'' ''administration'' ''ws-members'' None,
     workflow_row ''administration/modules'' ''administration'' ''ws-modules'' None,
     workflow_row ''administration/backups'' ''administration'' ''ws-sync'' None,
     workflow_row ''administration/activity'' ''administration'' ''ws-sync'' None,
     workflow_row ''administration/lifecycle'' ''administration'' ''ws-settings'' None]"

definition WORKFLOW_BY_PATH :: "string \<Rightarrow> workflow_route option" where
  "WORKFLOW_BY_PATH = map_of (from_entries (map (\<lambda>r. (wr_path r, r)) WORKFLOW_ROUTES))"

definition workflowRouteForPath :: "string \<Rightarrow> ws_kind option \<Rightarrow> workflow_route option" where
  "workflowRouteForPath path kind =
     (case WORKFLOW_BY_PATH path of
        None \<Rightarrow> None
      | Some route \<Rightarrow>
          (case wr_bracketTab route of
             Some t \<Rightarrow> if kind = Some BracketKind \<and> t \<noteq> [] then Some (route\<lparr>wr_tab := t\<rparr>) else Some route
           | None \<Rightarrow> Some route))"

definition rendererDefaults :: "(string, string) dict" where
  "rendererDefaults = [(''bracket-events'', ''bracket/draws''), (''ws-venue'', ''setup/details''),
     (''ws-sharing'', ''setup/public-site'')]"

text \<open>A tab without a route throws.\<close>

definition workflowPathForSegment :: "string \<Rightarrow> string + string" where
  "workflowPathForSegment segment =
     (case find (\<lambda>c. wr_tab c = segment \<or> wr_bracketTab c = Some segment) WORKFLOW_ROUTES of
        Some route \<Rightarrow> Inr (wr_path route)
      | None \<Rightarrow>
          (case map_of rendererDefaults segment of
             Some fallback \<Rightarrow> Inr fallback
           | None \<Rightarrow> Inl (''No canonical workflow route for renderer tab: '' @ segment)))"

section \<open>The rail\<close>

record nav_item =
  ni_path :: "string option"
  ni_segment :: string
  ni_label :: string
  ni_matchPaths :: "string list"

definition item :: "string \<Rightarrow> string \<Rightarrow> string \<Rightarrow> nav_item" where
  "item path segment label = \<lparr>ni_path = Some path, ni_segment = segment, ni_label = label, ni_matchPaths = []\<rparr>"

record nav_section =
  ns_id :: string
  ns_label :: string
  ns_items :: "nav_item list"

record workflow_navigation =
  wn_overview :: nav_item
  wn_sections :: "nav_section list"
  wn_admin_label :: string
  wn_admin :: "nav_item list"

definition nav_href :: "string \<Rightarrow> string \<Rightarrow> string" where
  "nav_href tid path = ''/tournaments/'' @ encode_uri_component tid @ ''/'' @ path"

definition workflowHref :: "string \<Rightarrow> string \<Rightarrow> string + string" where
  "workflowHref tid segment = map_sum id (nav_href tid) (workflowPathForSegment segment)"

definition workflowItemHref :: "string \<Rightarrow> nav_item \<Rightarrow> string + string" where
  "workflowItemHref tid it =
     (case ni_path it of Some p \<Rightarrow> Inr (nav_href tid p) | None \<Rightarrow> workflowHref tid (ni_segment it))"

definition bracket_primary :: "ws_kind option \<Rightarrow> module_id set \<Rightarrow> bool" where
  "bracket_primary kind enabled \<longleftrightarrow> kind = Some BracketKind \<or> (Meet \<notin> enabled \<and> Bracket \<in> enabled)"

definition buildWorkflowNavigation :: "ws_kind option \<Rightarrow> module_id set \<Rightarrow> workflow_navigation" where
  "buildWorkflowNavigation kind enabled =
     (let bracketPrimary = bracket_primary kind enabled;
          peopleTab = (if bracketPrimary then ''bracket-roster'' else ''roster'');
          participants = (if Entries \<in> enabled
             then [item ''participants/entries'' ''entries'' (MODULE_LABELS Entries)] else [])
             @ [item ''participants/people'' peopleTab ''Roster''];
          sections =
            [\<lparr>ns_id = ''setup'', ns_label = ''Setup'', ns_items =
                [item ''setup/details'' ''setup'' ''Details'', item ''setup/entries'' ''setup'' ''Entries'',
                 item ''setup/scoring'' ''setup'' ''Scoring'', item ''setup/public-site'' ''setup'' ''Public site'']\<rparr>,
             \<lparr>ns_id = ''participants'', ns_label = ''Participants'', ns_items = participants\<rparr>]
            @ (if Meet \<in> enabled
               then [\<lparr>ns_id = ''meet'', ns_label = MODULE_LABELS Meet,
                      ns_items = [item ''meet/matches'' ''matches'' ''Matches'']\<rparr>] else [])
            @ (if Bracket \<in> enabled
               then [\<lparr>ns_id = ''bracket'', ns_label = MODULE_LABELS Bracket,
                      ns_items = [item ''bracket/draws'' ''bracket-draws'' ''Draws'',
                        item ''bracket/matches'' ''bracket-matches'' ''Matches'',
                        item ''bracket/settings'' ''bracket-setup'' ''Draw settings'']\<rparr>] else [])
            @ [\<lparr>ns_id = ''operations'', ns_label = OPERATIONS_LABEL, ns_items =
                 [item ''operations/plan'' (if bracketPrimary then ''bracket-schedule'' else ''schedule'') ''Plan'',
                  item ''operations/live'' (if bracketPrimary then ''bracket-live'' else ''live'') ''Live day'']\<rparr>]
            @ (if Display \<in> enabled
               then [\<lparr>ns_id = ''display'', ns_label = MODULE_LABELS Display,
                      ns_items = [item ''display/board'' ''display-config'' ''Board'',
                        item ''display/preview'' ''tv'' ''Preview'']\<rparr>] else [])
      in \<lparr>wn_overview = item ''overview'' ''overview'' ''Overview'', wn_sections = sections,
          wn_admin_label = ''Settings'',
          wn_admin = [item ''administration/team'' ''ws-members'' ''Team'',
            item ''administration/modules'' ''ws-modules'' ''Modules'',
            (item ''administration/lifecycle'' ''ws-settings'' ''Workspace'')
              \<lparr>ni_matchPaths := [''administration/backups'', ''administration/activity'']\<rparr>]\<rparr>)"

definition workflowSectionOfPath :: "workflow_navigation \<Rightarrow> string \<Rightarrow> string option" where
  "workflowSectionOfPath nav path =
     (let registered = map_option wr_section (WORKFLOW_BY_PATH path);
          listed = map_option ns_id
            (find (\<lambda>sec. list_ex (\<lambda>it. ni_path it = Some path) (ns_items sec)) (wn_sections nav))
      in case registered of
           Some r \<Rightarrow> if r \<noteq> ''overview'' \<and> r \<noteq> ''administration'' \<and>
                        list_ex (\<lambda>sec. ns_id sec = r) (wn_sections nav)
                     then Some r else listed
         | None \<Rightarrow> listed)"

definition ADMIN_SEGMENTS :: "string list" where
  "ADMIN_SEGMENTS = [''ws-venue'', ''ws-members'', ''ws-sharing'', ''ws-modules'', ''ws-sync'', ''ws-settings'']"

definition SHELL_SEGMENT_TITLE :: "(string, string) dict" where
  "SHELL_SEGMENT_TITLE = [(''overview'', ''Overview''), (''ws-venue'', ''Venue''), (''ws-members'', ''Team''),
     (''ws-sharing'', ''Site''), (''ws-modules'', ''Modules''), (''ws-sync'', ''Workspace''),
     (''ws-settings'', ''Workspace'')]"

definition SHELL_SEGMENTS :: "string list" where
  "SHELL_SEGMENTS = ''overview'' # ''display-config'' # ADMIN_SEGMENTS"

definition isAdminSegment :: "string \<Rightarrow> bool" where
  "isAdminSegment tab \<longleftrightarrow> tab \<in> set ADMIN_SEGMENTS"

text \<open>The older projection by module ownership, whose sections carry a role.\<close>

datatype section_role = Intake | Engine | Shared | Output

record ws_section =
  wsec_id :: string
  wsec_label :: string
  wsec_role :: section_role
  wsec_items :: "nav_item list"

record workspace_nav =
  wv_overview :: nav_item
  wv_sections :: "ws_section list"
  wv_admin_label :: string
  wv_admin :: "nav_item list"

definition bare_item :: "string \<Rightarrow> string \<Rightarrow> nav_item" where
  "bare_item segment label = \<lparr>ni_path = None, ni_segment = segment, ni_label = label, ni_matchPaths = []\<rparr>"

definition section_when :: "bool \<Rightarrow> string \<Rightarrow> string \<Rightarrow> section_role \<Rightarrow> nav_item list \<Rightarrow> ws_section list" where
  "section_when shown i label role items =
     (if shown then [\<lparr>wsec_id = i, wsec_label = label, wsec_role = role, wsec_items = items\<rparr>] else [])"

definition buildWorkspaceNav :: "ws_kind option \<Rightarrow> module_id set \<Rightarrow> workspace_nav" where
  "buildWorkspaceNav kind enabled =
     \<lparr>wv_overview = bare_item ''overview'' ''Overview'',
      wv_sections =
        section_when (Entries \<in> enabled) ''entries'' (MODULE_LABELS Entries) Intake [bare_item ''entries'' ''Desk'']
        @ section_when (Meet \<in> enabled) ''meet'' (MODULE_LABELS Meet) Engine
            [bare_item ''roster'' ''Roster'', bare_item ''matches'' ''Matches'', bare_item ''setup'' ''Configuration'']
        @ section_when (Bracket \<in> enabled) ''bracket'' (MODULE_LABELS Bracket) Engine
            [bare_item ''bracket-roster'' ''Roster'', bare_item ''bracket-draws'' ''Draws'',
             bare_item ''bracket-matches'' ''Matches'', bare_item ''bracket-setup'' ''Configuration'']
        @ section_when (Meet \<in> enabled \<or> Bracket \<in> enabled) ''operations'' OPERATIONS_LABEL Shared
            (if bracket_primary kind enabled
             then [bare_item ''bracket-schedule'' ''Plan'', bare_item ''bracket-live'' ''Live day'']
             else [bare_item ''schedule'' ''Plan'', bare_item ''live'' ''Live day''])
        @ section_when (Display \<in> enabled) ''display'' (MODULE_LABELS Display) Output
            [bare_item ''tv'' ''Preview'', bare_item ''display-config'' ''Configuration''],
      wv_admin_label = ''Workspace'',
      wv_admin = [bare_item ''ws-venue'' ''Venue'', bare_item ''ws-members'' ''Team'', bare_item ''ws-sharing'' ''Site'',
        bare_item ''ws-modules'' ''Modules'', bare_item ''ws-sync'' ''Backups'',
        bare_item ''ws-settings'' ''Workspace settings'']\<rparr>"

definition sectionOfSegment :: "workspace_nav \<Rightarrow> string \<Rightarrow> string option" where
  "sectionOfSegment nav segment =
     map_option wsec_id (find (\<lambda>s. list_ex (\<lambda>it. ni_segment it = segment) (wsec_items s)) (wv_sections nav))"

section \<open>Checklist lemmas\<close>

lemma walk_keys [simp]: "map ck_key (checklist_walk lower kind setup rs seen keys) = keys"
  by (induction keys arbitrary: seen) (simp_all add: Let_def)

lemma walk_length [simp]: "length (checklist_walk lower kind setup rs seen keys) = length keys"
  using walk_keys[of lower kind "setup" rs seen keys] length_map by metis

lemma walk_nth:
  "i < length keys \<Longrightarrow>
   (let step = checklist_walk lower kind setup rs seen keys ! i;
        later = (seen \<or> (\<exists>j < i. \<not> or_else (map_of setup (keys ! j)) False))
    in ck_done step = or_else (map_of setup (keys ! i)) False \<and>
       ck_blocked step = (\<not> ck_done step \<and> later) \<and>
       ck_action step = (if ck_done step \<or> later then None else step_action lower kind (keys ! i)))"
proof (induction keys arbitrary: seen i)
  case (Cons k keys)
  show ?case
  proof (cases i)
    case 0
    then show ?thesis by (simp add: Let_def)
  next
    case (Suc n)
    have "(\<exists>j < Suc n. \<not> or_else (map_of setup ((k # keys) ! j)) False) \<longleftrightarrow>
        \<not> or_else (map_of setup k) False \<or> (\<exists>j < n. \<not> or_else (map_of setup (keys ! j)) False)"
      by (auto simp: less_Suc_eq_0_disj)
    then show ?thesis
      using Cons.IH[of n True] Cons.IH[of n seen] Cons.prems
      by (cases "or_else (map_of setup k) False") (auto simp: Suc Let_def)
  qed
qed simp

lemma checklist_keys_set:
  "set (checklist_keys kind setup) = fst ` set setup"
proof -
  have "map_of setup k \<noteq> None \<longleftrightarrow> k \<in> fst ` set setup" for k by (simp add: map_of_eq_None_iff)
  then show ?thesis by (auto simp: checklist_keys_def Let_def)
qed

lemma checklist_keys_distinct:
  "distinct (map fst setup) \<Longrightarrow> distinct (checklist_keys kind setup)"
  by (cases kind) (auto simp: checklist_keys_def Let_def)

section \<open>Properties\<close>

text \<open>C25. The setup checklist lists every fact the server reports once, ticks exactly the true ones, and
  offers an action at no step but the first incomplete one: every later incomplete step is blocked.\<close>

theorem one_actionable_step:
  assumes "su_signals su = Some sg" "sg_setup sg = Some setup" "distinct (map fst setup)"
    and "steps = buildChecklist lower (Some su)"
  shows "distinct (map ck_key steps) \<and> set (map ck_key steps) = fst ` set setup \<and>
    (\<forall>i < length steps.
       ck_done (steps ! i) = (map_of setup (ck_key (steps ! i)) = Some True) \<and>
       ck_blocked (steps ! i) = (\<not> ck_done (steps ! i) \<and> (\<exists>j < i. \<not> ck_done (steps ! j))) \<and>
       ck_action (steps ! i) = (if ck_done (steps ! i) \<or> ck_blocked (steps ! i) then None
         else step_action lower (kind_of su) (ck_key (steps ! i))))"
proof -
  let ?keys = "checklist_keys (kind_of su) setup"
  have steps: "steps = checklist_walk lower (kind_of su) setup (from_entries (or_else (sg_attention sg) [])) False ?keys"
    using assms by (simp add: buildChecklist_def Let_def)
  have keys: "map ck_key steps = ?keys" by (simp add: steps)
  then have len: "length steps = length ?keys" by (metis length_map)
  have key_at: "ck_key (steps ! i) = ?keys ! i" if "i < length steps" for i
    using keys that by (metis nth_map)
  have yes: "or_else (map_of setup k) False = (map_of setup k = Some True)" for k
    by (cases "map_of setup k") auto
  have ticked: "ck_done (steps ! i) = (map_of setup (?keys ! i) = Some True)" if "i < length steps" for i
    using walk_nth[of i ?keys lower "kind_of su" "setup" "from_entries (or_else (sg_attention sg) [])" False]
      that len by (simp add: steps Let_def yes)
  have "ck_blocked (steps ! i) = (\<not> ck_done (steps ! i) \<and> (\<exists>j < i. \<not> ck_done (steps ! j))) \<and>
       ck_action (steps ! i) = (if ck_done (steps ! i) \<or> ck_blocked (steps ! i) then None
         else step_action lower (kind_of su) (?keys ! i))" if i: "i < length steps" for i
  proof -
    have "(\<exists>j < i. \<not> ck_done (steps ! j)) \<longleftrightarrow> (\<exists>j < i. map_of setup (?keys ! j) \<noteq> Some True)"
      using ticked i by auto
    then show ?thesis
      using walk_nth[of i ?keys lower "kind_of su" "setup" "from_entries (or_else (sg_attention sg) [])" False]
        i len by (auto simp: steps Let_def yes)
  qed
  moreover have "distinct (map ck_key steps)" "set (map ck_key steps) = fst ` set setup"
    unfolding keys by (rule checklist_keys_distinct[OF assms(3)], rule checklist_keys_set)
  ultimately show ?thesis using ticked key_at by metis
qed

definition demo_signals :: signals where
  "demo_signals = \<lparr>sg_phase = None, sg_setup = Some [(''roster'', False), (''scheduled'', False), (''configured'', True)],
     sg_attention = None, sg_matches = None, sg_entries = None\<rparr>"

definition demo_summary :: summary_dto where
  "demo_summary = \<lparr>su_kind = Some ''meet'', su_modules = None, su_signals = Some demo_signals\<rparr>"

theorem one_actionable_step_witness:
  "set (map ck_key (buildChecklist (\<lambda>s. s) (Some demo_summary))) = {''roster'', ''scheduled'', ''configured''} \<and>
   map ck_blocked (buildChecklist (\<lambda>s. s) (Some demo_summary)) = [False, False, True]"
proof -
  have "set (map ck_key (buildChecklist (\<lambda>s. s) (Some demo_summary))) =
      fst ` set [(''roster'', False), (''scheduled'', False), (''configured'', True)]"
    using one_actionable_step[of demo_summary demo_signals, OF _ _ _ refl]
    by (simp add: demo_summary_def demo_signals_def)
  moreover have "map ck_blocked (buildChecklist (\<lambda>s. s) (Some demo_summary)) = [False, False, True]"
    by code_simp
  ultimately show ?thesis by simp
qed

section \<open>The rail leads where it says\<close>

definition rail_items :: "workflow_navigation \<Rightarrow> (string option \<times> nav_item) list" where
  "rail_items nav = (None, wn_overview nav) # map (Pair None) (wn_admin nav)
     @ concat (map (\<lambda>sec. map (Pair (Some (ns_id sec))) (ns_items sec)) (wn_sections nav))"

text \<open>A link opens a surface: its path is registered, renders that tab, and lies in the section that lists
  the item. The surface an item should open is the one it names, but for the three items the engines
  share where only Bracket is enabled in a workspace of another kind: there they open Meet's.\<close>

definition leads_home :: "ws_kind option \<Rightarrow> workflow_navigation \<Rightarrow> string \<Rightarrow> string option \<times> nav_item \<Rightarrow> bool" where
  "leads_home kind nav tab si \<longleftrightarrow>
     (case ni_path (snd si) of
        None \<Rightarrow> False
      | Some p \<Rightarrow> map_option wr_tab (workflowRouteForPath p kind) = Some tab \<and>
                  workflowSectionOfPath nav p = fst si)"

definition rail_surface :: "ws_kind option \<Rightarrow> module_id set \<Rightarrow> nav_item \<Rightarrow> string" where
  "rail_surface kind enabled it =
     (if kind \<noteq> Some BracketKind \<and> Meet \<notin> enabled \<and> Bracket \<in> enabled then
        (if ni_path it = Some ''participants/people'' then ''roster''
         else if ni_path it = Some ''operations/plan'' then ''schedule''
         else if ni_path it = Some ''operations/live'' then ''live'' else ni_segment it)
      else ni_segment it)"

lemma by_path: "WORKFLOW_BY_PATH = map_of (map (\<lambda>r. (wr_path r, r)) WORKFLOW_ROUTES)"
proof -
  have "distinct (map fst (map (\<lambda>r. (wr_path r, r)) WORKFLOW_ROUTES))" by code_simp
  then show ?thesis unfolding WORKFLOW_BY_PATH_def by (rule map_of_from_entries_distinct)
qed

text \<open>The routes the rail links to.\<close>

lemma route_at:
  assumes "i < length WORKFLOW_ROUTES" "r = WORKFLOW_ROUTES ! i" "p = wr_path r"
  shows "WORKFLOW_BY_PATH p = Some r"
proof -
  have "distinct (map fst (map (\<lambda>r. (wr_path r, r)) WORKFLOW_ROUTES))" by code_simp
  moreover have "(p, r) \<in> set (map (\<lambda>r. (wr_path r, r)) WORKFLOW_ROUTES)" using assms by simp
  ultimately show ?thesis by (simp add: by_path)
qed

lemma rail_routes:
  "WORKFLOW_BY_PATH ''overview'' = Some (workflow_row ''overview'' ''overview'' ''overview'' None)"
  "WORKFLOW_BY_PATH ''setup/details'' = Some (workflow_row ''setup/details'' ''setup'' ''setup'' None)"
  "WORKFLOW_BY_PATH ''setup/entries'' = Some (workflow_row ''setup/entries'' ''setup'' ''setup'' None)"
  "WORKFLOW_BY_PATH ''setup/scoring'' = Some (workflow_row ''setup/scoring'' ''setup'' ''setup'' None)"
  "WORKFLOW_BY_PATH ''setup/public-site'' = Some (workflow_row ''setup/public-site'' ''setup'' ''setup'' None)"
  "WORKFLOW_BY_PATH ''participants/entries'' = Some (workflow_row ''participants/entries'' ''participants'' ''entries'' None)"
  "WORKFLOW_BY_PATH ''participants/people'' = Some (workflow_row ''participants/people'' ''participants'' ''roster'' (Some ''bracket-roster''))"
  "WORKFLOW_BY_PATH ''meet/matches'' = Some (workflow_row ''meet/matches'' ''meet'' ''matches'' None)"
  "WORKFLOW_BY_PATH ''bracket/draws'' = Some (workflow_row ''bracket/draws'' ''bracket'' ''bracket-draws'' None)"
  "WORKFLOW_BY_PATH ''bracket/matches'' = Some (workflow_row ''bracket/matches'' ''bracket'' ''bracket-matches'' None)"
  "WORKFLOW_BY_PATH ''bracket/settings'' = Some (workflow_row ''bracket/settings'' ''bracket'' ''bracket-setup'' None)"
  "WORKFLOW_BY_PATH ''operations/plan'' = Some (workflow_row ''operations/plan'' ''operations'' ''schedule'' (Some ''bracket-schedule''))"
  "WORKFLOW_BY_PATH ''operations/live'' = Some (workflow_row ''operations/live'' ''operations'' ''live'' (Some ''bracket-live''))"
  "WORKFLOW_BY_PATH ''display/board'' = Some (workflow_row ''display/board'' ''display'' ''display-config'' None)"
  "WORKFLOW_BY_PATH ''display/preview'' = Some (workflow_row ''display/preview'' ''display'' ''tv'' None)"
  "WORKFLOW_BY_PATH ''administration/team'' = Some (workflow_row ''administration/team'' ''administration'' ''ws-members'' None)"
  "WORKFLOW_BY_PATH ''administration/modules'' = Some (workflow_row ''administration/modules'' ''administration'' ''ws-modules'' None)"
  "WORKFLOW_BY_PATH ''administration/lifecycle'' = Some (workflow_row ''administration/lifecycle'' ''administration'' ''ws-settings'' None)"
  subgoal by (rule route_at[of 0]) (simp_all add: WORKFLOW_ROUTES_def)
  subgoal by (rule route_at[of 1]) (simp_all add: WORKFLOW_ROUTES_def)
  subgoal by (rule route_at[of 2]) (simp_all add: WORKFLOW_ROUTES_def)
  subgoal by (rule route_at[of 3]) (simp_all add: WORKFLOW_ROUTES_def)
  subgoal by (rule route_at[of 4]) (simp_all add: WORKFLOW_ROUTES_def)
  subgoal by (rule route_at[of 5]) (simp_all add: WORKFLOW_ROUTES_def)
  subgoal by (rule route_at[of 6]) (simp_all add: WORKFLOW_ROUTES_def)
  subgoal by (rule route_at[of 7]) (simp_all add: WORKFLOW_ROUTES_def)
  subgoal by (rule route_at[of 9]) (simp_all add: WORKFLOW_ROUTES_def)
  subgoal by (rule route_at[of 11]) (simp_all add: WORKFLOW_ROUTES_def)
  subgoal by (rule route_at[of 12]) (simp_all add: WORKFLOW_ROUTES_def)
  subgoal by (rule route_at[of 13]) (simp_all add: WORKFLOW_ROUTES_def)
  subgoal by (rule route_at[of 14]) (simp_all add: WORKFLOW_ROUTES_def)
  subgoal by (rule route_at[of 15]) (simp_all add: WORKFLOW_ROUTES_def)
  subgoal by (rule route_at[of 16]) (simp_all add: WORKFLOW_ROUTES_def)
  subgoal by (rule route_at[of 17]) (simp_all add: WORKFLOW_ROUTES_def)
  subgoal by (rule route_at[of 18]) (simp_all add: WORKFLOW_ROUTES_def)
  subgoal by (rule route_at[of 21]) (simp_all add: WORKFLOW_ROUTES_def)
  done

lemma rail_sections:
  "list_ex (\<lambda>sec. ns_id sec = ''setup'') (wn_sections (buildWorkflowNavigation kind enabled))"
  "list_ex (\<lambda>sec. ns_id sec = ''participants'') (wn_sections (buildWorkflowNavigation kind enabled))"
  "list_ex (\<lambda>sec. ns_id sec = ''operations'') (wn_sections (buildWorkflowNavigation kind enabled))"
  "Meet \<in> enabled \<Longrightarrow> list_ex (\<lambda>sec. ns_id sec = ''meet'') (wn_sections (buildWorkflowNavigation kind enabled))"
  "Bracket \<in> enabled \<Longrightarrow> list_ex (\<lambda>sec. ns_id sec = ''bracket'') (wn_sections (buildWorkflowNavigation kind enabled))"
  "Display \<in> enabled \<Longrightarrow> list_ex (\<lambda>sec. ns_id sec = ''display'') (wn_sections (buildWorkflowNavigation kind enabled))"
  by (simp_all add: buildWorkflowNavigation_def Let_def cong: conj_left_cong)

text \<open>Every item of every section of the rail, written out.\<close>

lemma section_items:
  "list_all (\<lambda>sec. list_all (P (ns_id sec)) (ns_items sec)) (wn_sections (buildWorkflowNavigation kind enabled)) \<longleftrightarrow>
   P ''setup'' (item ''setup/details'' ''setup'' ''Details'') \<and>
   P ''setup'' (item ''setup/entries'' ''setup'' ''Entries'') \<and>
   P ''setup'' (item ''setup/scoring'' ''setup'' ''Scoring'') \<and>
   P ''setup'' (item ''setup/public-site'' ''setup'' ''Public site'') \<and>
   (Entries \<in> enabled \<longrightarrow> P ''participants'' (item ''participants/entries'' ''entries'' (MODULE_LABELS Entries))) \<and>
   P ''participants'' (item ''participants/people''
     (if bracket_primary kind enabled then ''bracket-roster'' else ''roster'') ''Roster'') \<and>
   (Meet \<in> enabled \<longrightarrow> P ''meet'' (item ''meet/matches'' ''matches'' ''Matches'')) \<and>
   (Bracket \<in> enabled \<longrightarrow> P ''bracket'' (item ''bracket/draws'' ''bracket-draws'' ''Draws'') \<and>
     P ''bracket'' (item ''bracket/matches'' ''bracket-matches'' ''Matches'') \<and>
     P ''bracket'' (item ''bracket/settings'' ''bracket-setup'' ''Draw settings'')) \<and>
   P ''operations'' (item ''operations/plan''
     (if bracket_primary kind enabled then ''bracket-schedule'' else ''schedule'') ''Plan'') \<and>
   P ''operations'' (item ''operations/live''
     (if bracket_primary kind enabled then ''bracket-live'' else ''live'') ''Live day'') \<and>
   (Display \<in> enabled \<longrightarrow> P ''display'' (item ''display/board'' ''display-config'' ''Board'') \<and>
     P ''display'' (item ''display/preview'' ''tv'' ''Preview''))"
  unfolding buildWorkflowNavigation_def Let_def
  by (cases "Entries \<in> enabled"; cases "Meet \<in> enabled"; cases "Bracket \<in> enabled"; cases "Display \<in> enabled")
    (simp_all del: MODULE_LABELS.simps)

text \<open>The paths of the sections and the other paths of the rail differ in their first two letters.\<close>

lemma listed_paths:
  "list_all (\<lambda>sec. list_all (\<lambda>it. map_option (take 2) (ni_path it) \<noteq> Some ''ov'' \<and>
      map_option (take 2) (ni_path it) \<noteq> Some ''ad'') (ns_items sec))
    (wn_sections (buildWorkflowNavigation kind enabled))"
  by (rule section_items[where P = "\<lambda>_ it. map_option (take 2) (ni_path it) \<noteq> Some ''ov'' \<and>
      map_option (take 2) (ni_path it) \<noteq> Some ''ad''", THEN iffD2])
    (simp add: item_def cong: conj_left_cong)

lemma unlisted:
  assumes "take 2 p = ''ov'' \<or> take 2 p = ''ad''"
  shows "find (\<lambda>sec. list_ex (\<lambda>it. ni_path it = Some p) (ns_items sec))
      (wn_sections (buildWorkflowNavigation kind enabled)) = None"
proof -
  have "ni_path it \<noteq> Some p" if "sec \<in> set (wn_sections (buildWorkflowNavigation kind enabled))"
    "it \<in> set (ns_items sec)" for sec it
    using listed_paths[of kind enabled] that assms unfolding list_all_iff by (metis option.map(2))
  then show ?thesis by (auto simp: find_None_iff list_ex_iff)
qed

lemma leads_home_in:
  assumes "WORKFLOW_BY_PATH p = Some r" "wr_section r = sid" "sid \<noteq> ''overview''" "sid \<noteq> ''administration''"
    and "list_ex (\<lambda>sec. ns_id sec = sid) (wn_sections nav)"
    and "seg = (case wr_bracketTab r of None \<Rightarrow> wr_tab r
      | Some t \<Rightarrow> if kind = Some BracketKind \<and> t \<noteq> [] then t else wr_tab r)"
  shows "leads_home kind nav seg (Some sid, item p named lab)"
  using assms by (auto simp: leads_home_def workflowRouteForPath_def workflowSectionOfPath_def item_def Let_def
      split: option.split)

lemma leads_home_out:
  assumes "WORKFLOW_BY_PATH p = Some r" "wr_section r = ''overview'' \<or> wr_section r = ''administration''"
    and "take 2 p = ''ov'' \<or> take 2 p = ''ad''"
    and "seg = wr_tab r" "wr_bracketTab r = None" "ni_path it = Some p"
  shows "leads_home kind (buildWorkflowNavigation kind enabled) seg (None, it)"
  using assms unlisted[OF assms(3), of kind enabled]
  by (auto simp: leads_home_def workflowRouteForPath_def workflowSectionOfPath_def Let_def)

lemma rail_admin:
  "wn_admin (buildWorkflowNavigation kind enabled) =
     [item ''administration/team'' ''ws-members'' ''Team'', item ''administration/modules'' ''ws-modules'' ''Modules'',
      (item ''administration/lifecycle'' ''ws-settings'' ''Workspace'')
        \<lparr>ni_matchPaths := [''administration/backups'', ''administration/activity'']\<rparr>]"
  by (simp add: buildWorkflowNavigation_def Let_def)

lemma rail_items_paths:
  "map (ni_path \<circ> snd) (rail_items (buildWorkflowNavigation kind enabled)) = map Some
  ([''overview'', ''administration/team'', ''administration/modules'', ''administration/lifecycle'',
     ''setup/details'', ''setup/entries'', ''setup/scoring'', ''setup/public-site'']
   @ (if Entries \<in> enabled then [''participants/entries''] else [])
   @ [''participants/people'']
   @ (if Meet \<in> enabled then [''meet/matches''] else [])
   @ (if Bracket \<in> enabled then [''bracket/draws'', ''bracket/matches'', ''bracket/settings''] else [])
   @ [''operations/plan'', ''operations/live'']
   @ (if Display \<in> enabled then [''display/board'', ''display/preview''] else []))"
  unfolding buildWorkflowNavigation_def rail_items_def Let_def
  by (cases "Entries \<in> enabled"; cases "Meet \<in> enabled"; cases "Bracket \<in> enabled"; cases "Display \<in> enabled")
    (simp_all add: item_def)

lemma distinct_map_Some [simp]: "distinct (map Some xs) = distinct xs"
  by (simp add: distinct_map)

lemma rail_paths_distinct: "distinct (map (ni_path \<circ> snd) (rail_items (buildWorkflowNavigation kind enabled)))"
proof -
  let ?all = "[''overview'', ''administration/team'', ''administration/modules'', ''administration/lifecycle'',
     ''setup/details'', ''setup/entries'', ''setup/scoring'', ''setup/public-site'']
   @ [''participants/entries'']
   @ [''participants/people'']
   @ [''meet/matches'']
   @ [''bracket/draws'', ''bracket/matches'', ''bracket/settings'']
   @ [''operations/plan'', ''operations/live'']
   @ [''display/board'', ''display/preview'']"
  have "subseq ([''overview'', ''administration/team'', ''administration/modules'', ''administration/lifecycle'',
     ''setup/details'', ''setup/entries'', ''setup/scoring'', ''setup/public-site'']
   @ (if Entries \<in> enabled then [''participants/entries''] else [])
   @ [''participants/people'']
   @ (if Meet \<in> enabled then [''meet/matches''] else [])
   @ (if Bracket \<in> enabled then [''bracket/draws'', ''bracket/matches'', ''bracket/settings''] else [])
   @ [''operations/plan'', ''operations/live'']
   @ (if Display \<in> enabled then [''display/board'', ''display/preview''] else [])) ?all"
    by (intro list_emb_append_mono) auto
  moreover have "distinct ?all" by code_simp
  ultimately show ?thesis unfolding rail_items_paths subseq_conv_nths by (metis distinct_nthsI distinct_map_Some)
qed

text \<open>C26. Every link of the rail leads home, for every kind of workspace and every set of enabled modules:
  its path is a registered route that is found again in the section that lists the item, and it
  renders the tab the item names, except exactly where only Bracket is enabled in a workspace that is
  not of the Bracket kind: there the roster, the plan and the live day, which the rail names after
  Bracket, render Meet's, and every other link still renders what it names. The paths of the rail
  are distinct.\<close>

theorem rail_links_lead_home:
  "list_all (\<lambda>si. leads_home kind (buildWorkflowNavigation kind enabled) (rail_surface kind enabled (snd si)) si)
      (rail_items (buildWorkflowNavigation kind enabled)) \<and>
   distinct (map (ni_path \<circ> snd) (rail_items (buildWorkflowNavigation kind enabled)))"
proof
  let ?nav = "buildWorkflowNavigation kind enabled"
  let ?home = "\<lambda>sid it. leads_home kind ?nav (rail_surface kind enabled it) (sid, it)"
  have overview: "?home None (wn_overview ?nav)"
    by (rule leads_home_out[OF rail_routes(1)])
      (simp_all add: buildWorkflowNavigation_def item_def rail_surface_def Let_def)
  have admin: "list_all (?home None) (wn_admin ?nav)"
    unfolding rail_admin list.pred_inject
    by (intro conjI leads_home_out[OF rail_routes(16)] leads_home_out[OF rail_routes(17)]
        leads_home_out[OF rail_routes(18)]) (simp_all add: item_def rail_surface_def)
  have listed: "list_all (\<lambda>sec. list_all (?home (Some (ns_id sec))) (ns_items sec)) (wn_sections ?nav)"
    apply (rule section_items[where P = "\<lambda>sid. ?home (Some sid)", THEN iffD2])
    by (intro conjI impI; rule leads_home_in, rule rail_routes,
        simp_all add: rail_sections rail_surface_def item_def bracket_primary_def)
  show "list_all (\<lambda>si. leads_home kind ?nav (rail_surface kind enabled (snd si)) si) (rail_items ?nav)"
    using overview admin listed by (auto simp: rail_items_def list_all_iff)
  show "distinct (map (ni_path \<circ> snd) (rail_items ?nav))" by (rule rail_paths_distinct)
qed

theorem rail_links_lead_home_witness:
  "leads_home (Some MeetKind) (buildWorkflowNavigation (Some MeetKind) {Bracket}) ''live''
     (Some ''operations'', item ''operations/live'' ''bracket-live'' ''Live day'')"
proof -
  let ?nav = "buildWorkflowNavigation (Some MeetKind) {Bracket}"
  let ?si = "(Some ''operations'', item ''operations/live'' ''bracket-live'' ''Live day'')"
  have "?si \<in> set (rail_items ?nav)"
    by (simp add: rail_items_def buildWorkflowNavigation_def bracket_primary_def Let_def)
  then have "leads_home (Some MeetKind) ?nav (rail_surface (Some MeetKind) {Bracket} (snd ?si)) ?si"
    using rail_links_lead_home[of "Some MeetKind" "{Bracket}"] unfolding list_all_iff by blast
  then show ?thesis by (simp add: rail_surface_def item_def)
qed

text \<open>Where the kind says Meet and only Bracket is enabled the rail names the Bracket surfaces and its
  links render the Meet ones.\<close>

lemma rail_of_bracket_only_meet:
  "\<exists>sec \<in> set (wn_sections (buildWorkflowNavigation (Some MeetKind) {Bracket})).
     item ''participants/people'' ''bracket-roster'' ''Roster'' \<in> set (ns_items sec)"
  "map_option wr_tab (workflowRouteForPath ''participants/people'' (Some MeetKind)) = Some ''roster''"
  by (simp_all add: buildWorkflowNavigation_def bracket_primary_def workflowRouteForPath_def rail_routes(7))

section \<open>Modules, phases and tabs\<close>

text \<open>A workspace opens into an enabled module whenever it has one.\<close>

lemma opens_into_enabled:
  assumes "m \<in> set modules" "wm_status m = Enabled" "distinct (map wm_id modules)"
  shows "\<exists>k \<in> set modules. wm_id k = primaryModuleForOpen modules \<and> wm_status k = Enabled"
proof -
  have look: "find (\<lambda>k. wm_id k = wm_id x) modules = Some x" if "x \<in> set modules" for x
    using assms(3) that by (induction modules) auto
  let ?present = "filter (\<lambda>i. list_ex (\<lambda>m. wm_id m = i) modules) ENABLEABLE_MODULE_IDS"
  let ?is = "\<lambda>i. map_option wm_status (find (\<lambda>m. wm_id m = i) modules) = Some Enabled"
  have "wm_id m \<in> set ?present" "?is (wm_id m)"
    using assms look by (auto simp: ENABLEABLE_MODULE_IDS_def list_ex_iff intro: module_id.exhaust[of "wm_id m"])
  then obtain i where i: "find ?is ?present = Some i"
    by (cases "find ?is ?present") (auto simp: find_None_iff)
  then have "?is i" by (auto simp: find_Some_iff)
  then obtain k where "find (\<lambda>m. wm_id m = i) modules = Some k" "wm_status k = Enabled" by auto
  then have "k \<in> set modules" "wm_id k = i" "wm_status k = Enabled" by (auto simp: find_Some_iff)
  then show ?thesis using i by (auto simp: primaryModuleForOpen_def Let_def)
qed

lemma chip_never_live: "map_option lb_text (lifecycleChip phase status) \<noteq> Some ''Live''"
  by (simp add: lifecycleChip_def Let_def)

text \<open>An unknown phase is \<open>setup\<close>, and the stepper of a workspace with an engine can show it.\<close>

lemma setup_always_visible:
  "visiblePhases su \<noteq> [] \<Longrightarrow> PSetup \<in> set (visiblePhases su)"
  by (auto simp: visiblePhases_def Let_def KNOWN_PHASES_def ENTRIES_PHASES_def split: option.splits if_splits)

text \<open>Every tab a link can ask for has a path that renders it, or is an alias, or throws.\<close>

lemma path_renders_segment:
  assumes "workflowPathForSegment t = Inr p" "map_of rendererDefaults t = None"
  shows "\<exists>r \<in> set WORKFLOW_ROUTES. wr_path r = p \<and> (wr_tab r = t \<or> wr_bracketTab r = Some t)"
  proof -
  obtain c where "find (\<lambda>c. wr_tab c = t \<or> wr_bracketTab c = Some t) WORKFLOW_ROUTES = Some c" "wr_path c = p"
    using assms by (auto simp: workflowPathForSegment_def split: option.splits)
  then show ?thesis unfolding find_Some_iff by (metis nth_mem)
qed

end
