(* ===== verification/DenseView.thy ===== *)
theory DenseView
  imports JsText
begin

text \<open>
  The shared state of the operator's data tables (\<open>components/control-plane/denseData.ts\<close>) and the hook
  that keeps it in the address bar (\<open>hooks/useDenseDataState.ts\<close>): rows, pages and facets of a table, the
  query string of its state, the saved views; and the inventory that holds its order while polls arrive
  (\<open>hooks/useStableInventory.ts\<close>). The locale comparisons and lower case of the host are parameters; a
  cell is the value a column's accessor may give.
\<close>

section \<open>State\<close>

datatype sort_direction = Ascending | Descending
datatype density = Comfortable | Compact

record dense_sort =
  so_id :: string
  so_direction :: sort_direction

record dense_state =
  ds_search :: string
  ds_sort :: "dense_sort option"
  ds_filters :: "(string, string list) dict"
  ds_hiddenColumns :: "string list"
  ds_density :: density
  ds_page :: int
  ds_pageSize :: int
  ds_groupBy :: "string option"

definition OPERATOR_INVENTORY_PAGE_SIZE :: int where
  "OPERATOR_INVENTORY_PAGE_SIZE = 100"

definition DEFAULT_DENSE_DATA_STATE :: dense_state where
  "DEFAULT_DENSE_DATA_STATE =
     \<lparr>ds_search = [], ds_sort = None, ds_filters = [], ds_hiddenColumns = [], ds_density = Comfortable,
      ds_page = 1, ds_pageSize = 50, ds_groupBy = None\<rparr>"

text \<open>\<open>Partial<DenseDataState>\<close>: a field that is absent is \<open>None\<close>.\<close>

record dense_partial =
  dp_search :: "string option"
  dp_sort :: "dense_sort option option"
  dp_hiddenColumns :: "string list option"
  dp_density :: "density option"
  dp_page :: "int option"
  dp_pageSize :: "int option"
  dp_groupBy :: "string option option"

definition base_state :: "dense_partial \<Rightarrow> dense_state" where
  "base_state d =
     \<lparr>ds_search = or_else (dp_search d) (ds_search DEFAULT_DENSE_DATA_STATE),
      ds_sort = or_else (dp_sort d) (ds_sort DEFAULT_DENSE_DATA_STATE),
      ds_filters = ds_filters DEFAULT_DENSE_DATA_STATE,
      ds_hiddenColumns = or_else (dp_hiddenColumns d) (ds_hiddenColumns DEFAULT_DENSE_DATA_STATE),
      ds_density = or_else (dp_density d) (ds_density DEFAULT_DENSE_DATA_STATE),
      ds_page = or_else (dp_page d) (ds_page DEFAULT_DENSE_DATA_STATE),
      ds_pageSize = or_else (dp_pageSize d) (ds_pageSize DEFAULT_DENSE_DATA_STATE),
      ds_groupBy = or_else (dp_groupBy d) (ds_groupBy DEFAULT_DENSE_DATA_STATE)\<rparr>"

section \<open>Rows\<close>

datatype cell = CMissing | CText string | CNum int | CFlag bool | CList "cell list" | COther string

fun normalizedValue :: "cell \<Rightarrow> string" where
  "normalizedValue CMissing = []"
| "normalizedValue (CText s) = s"
| "normalizedValue (CNum i) = int_text i"
| "normalizedValue (CFlag b) = (if b then ''true'' else ''false'')"
| "normalizedValue (CList cs) = join_with '' '' (map normalizedValue cs)"
| "normalizedValue (COther s) = s"

text \<open>The host: lower case, and \<open>localeCompare\<close> as it is called with three sets of options.\<close>

record dense_host =
  dh_lower :: "string \<Rightarrow> string"
  dh_base :: "string \<Rightarrow> string \<Rightarrow> int"
  dh_numeric :: "string \<Rightarrow> string \<Rightarrow> int"
  dh_plain :: "string \<Rightarrow> string \<Rightarrow> int"

definition compareValues :: "dense_host \<Rightarrow> cell \<Rightarrow> cell \<Rightarrow> int" where
  "compareValues h a b =
     (case (a, b) of
        (CNum x, CNum y) \<Rightarrow> x - y
      | _ \<Rightarrow> dh_base h (normalizedValue a) (normalizedValue b))"

record 'r dense_column =
  dc_id :: string
  dc_accessor :: "'r \<Rightarrow> cell"
  dc_compare :: "('r \<Rightarrow> 'r \<Rightarrow> int) option"
  dc_defaultHidden :: bool

definition column_values :: "'r dense_column \<Rightarrow> 'r \<Rightarrow> string list" where
  "column_values c row = map trim (split_on '','' (normalizedValue (dc_accessor c row)))"

definition found_in :: "dense_host \<Rightarrow> 'r dense_column list \<Rightarrow> string \<Rightarrow> 'r \<Rightarrow> bool" where
  "found_in h columns search row \<longleftrightarrow>
     list_ex (\<lambda>c. sublist search (dh_lower h (normalizedValue (dc_accessor c row)))) columns"

definition passes_facet :: "'r dense_column list \<Rightarrow> 'r \<Rightarrow> string \<times> string list \<Rightarrow> bool" where
  "passes_facet columns row f \<longleftrightarrow>
     (case f of (columnId, selected) \<Rightarrow>
        selected = [] \<or>
        (case find (\<lambda>c. dc_id c = columnId) columns of
           None \<Rightarrow> True
         | Some c \<Rightarrow> list_ex (\<lambda>v. v \<in> set (column_values c row)) selected))"

definition dense_keeps :: "dense_host \<Rightarrow> 'r dense_column list \<Rightarrow> dense_state \<Rightarrow> 'r \<Rightarrow> bool" where
  "dense_keeps h columns st row \<longleftrightarrow>
     (let search = dh_lower h (trim (ds_search st))
      in (search = [] \<or> found_in h columns search row) \<and>
         list_all (passes_facet columns row) (ds_filters st))"

definition dense_compare ::
  "dense_host \<Rightarrow> 'r dense_column list \<Rightarrow> ('r \<Rightarrow> string) option \<Rightarrow> dense_sort \<Rightarrow> 'r \<Rightarrow> 'r \<Rightarrow> int" where
  "dense_compare h columns rowId so a b =
     (let column = find (\<lambda>c. dc_id c = so_id so) columns;
          value = (\<lambda>r. case column of Some c \<Rightarrow> dc_accessor c r | None \<Rightarrow> CMissing);
          result = (case Option.bind column dc_compare of
              Some f \<Rightarrow> f a b
            | None \<Rightarrow> compareValues h (value a) (value b));
          directed = (if so_direction so = Descending then - result else result)
      in if directed \<noteq> 0 then directed
         else (case rowId of Some f \<Rightarrow> dh_plain h (f a) (f b) | None \<Rightarrow> 0))"

definition getDenseDataRows ::
  "dense_host \<Rightarrow> 'r list \<Rightarrow> 'r dense_column list \<Rightarrow> dense_state \<Rightarrow> ('r \<Rightarrow> string) option \<Rightarrow> 'r list" where
  "getDenseDataRows h rows columns st rowId =
     (let filtered = filter (dense_keeps h columns st) rows
      in case ds_sort st of
           Some so \<Rightarrow> js_sort (dense_compare h columns rowId so) filtered
         | None \<Rightarrow> filtered)"

record 'r dense_page =
  pg_rows :: "'r list"
  pg_total :: int
  pg_page :: int
  pg_pageSize :: int
  pg_pageCount :: int

definition pages_for :: "int \<Rightarrow> int \<Rightarrow> int" where
  "pages_for n sz = max 1 ((n + sz - 1) div sz)"

definition slice_page :: "int \<Rightarrow> int \<Rightarrow> 'r list \<Rightarrow> 'r list" where
  "slice_page page sz xs = take (nat sz) (drop (nat ((page - 1) * sz)) xs)"

definition getDenseDataPage ::
  "dense_host \<Rightarrow> 'r list \<Rightarrow> 'r dense_column list \<Rightarrow> dense_state \<Rightarrow> ('r \<Rightarrow> string) option \<Rightarrow> 'r dense_page" where
  "getDenseDataPage h rows columns st rowId =
     (let sorted = getDenseDataRows h rows columns st rowId;
          pageCount = pages_for (int (length sorted)) (ds_pageSize st);
          page = min (max 1 (ds_page st)) pageCount
      in \<lparr>pg_rows = slice_page page (ds_pageSize st) sorted, pg_total = int (length sorted), pg_page = page,
          pg_pageSize = ds_pageSize st, pg_pageCount = pageCount\<rparr>)"

definition count_value :: "string \<Rightarrow> (string, int) dict \<Rightarrow> (string, int) dict" where
  "count_value v counts = AList.update v (or_else (map_of counts v) 0 + 1) counts"

definition getDenseDataFacetOptions :: "dense_host \<Rightarrow> 'r list \<Rightarrow> 'r dense_column \<Rightarrow> (string \<times> int) list" where
  "getDenseDataFacetOptions h rows column =
     (let counts = fold (\<lambda>row. fold count_value (filter (\<lambda>v. v \<noteq> []) (column_values column row))) rows []
      in js_sort (\<lambda>a b. dh_numeric h (fst a) (fst b)) counts)"

definition isDenseColumnVisible :: "dense_state \<Rightarrow> 'r dense_column \<Rightarrow> bool" where
  "isDenseColumnVisible st column \<longleftrightarrow> dc_id column \<notin> set (ds_hiddenColumns st)"

definition getDefaultHiddenColumns :: "'r dense_column list \<Rightarrow> string list" where
  "getDefaultHiddenColumns columns = map dc_id (filter dc_defaultHidden columns)"

section \<open>Steps on the state\<close>

definition toggleDenseFilter :: "dense_state \<Rightarrow> string \<Rightarrow> string \<Rightarrow> dense_state" where
  "toggleDenseFilter st i v =
     (let current = or_else (map_of (ds_filters st) i) [];
          nxt = (if v \<in> set current then filter (\<lambda>x. x \<noteq> v) current else sort (current @ [v]))
      in st\<lparr>ds_page := 1, ds_filters := AList.update i nxt (ds_filters st)\<rparr>)"

definition setDenseSort :: "dense_state \<Rightarrow> string \<Rightarrow> dense_state" where
  "setDenseSort st i =
     (let so = (case ds_sort st of
          None \<Rightarrow> Some \<lparr>so_id = i, so_direction = Ascending\<rparr>
        | Some c \<Rightarrow>
            if so_id c \<noteq> i then Some \<lparr>so_id = i, so_direction = Ascending\<rparr>
            else if so_direction c = Ascending then Some \<lparr>so_id = i, so_direction = Descending\<rparr>
            else None)
      in st\<lparr>ds_page := 1, ds_sort := so\<rparr>)"

definition clearDenseDataFilters :: "dense_state \<Rightarrow> dense_state" where
  "clearDenseDataFilters st = st\<lparr>ds_search := [], ds_filters := [], ds_page := 1\<rparr>"

section \<open>The query string\<close>

definition dense_key :: "string \<Rightarrow> string \<Rightarrow> string" where
  "dense_key p n = p @ ''.'' @ n"

definition parsePositiveInteger :: "string option \<Rightarrow> int \<Rightarrow> int" where
  "parsePositiveInteger v fallback =
     (case Option.bind v js_integer of
        Some n \<Rightarrow> if 0 < n then n else fallback
      | None \<Rightarrow> fallback)"

text \<open>The loop over the parameters that collects the facets. \<open>[...new Set(values)].sort()\<close> does not see
  which of two equal values is kept.\<close>

definition read_filter :: "string \<Rightarrow> string \<times> string \<Rightarrow> (string, string list) dict \<Rightarrow> (string, string list) dict" where
  "read_filter filterPrefix p filters =
     (case p of (param, value) \<Rightarrow>
        if prefix filterPrefix param then
          (let i = drop (length filterPrefix) param;
               values = filter (\<lambda>x. x \<noteq> []) (map trim (split_on '','' value))
           in if i \<noteq> [] \<and> values \<noteq> [] then AList.update i (sort (remdups values)) filters else filters)
        else filters)"

definition decodeDenseDataState :: "url_params \<Rightarrow> dense_partial \<Rightarrow> string \<Rightarrow> dense_state" where
  "decodeDenseDataState params defaults p =
     (let base = base_state defaults;
          get = (\<lambda>n. param_get params (dense_key p n));
          nonempty = (\<lambda>v. case v of Some t \<Rightarrow> t \<noteq> [] | None \<Rightarrow> False);
          sz = (case get ''pageSize'' of Some t \<Rightarrow> js_integer t | None \<Rightarrow> Some 0)
      in \<lparr>ds_search = or_else (get ''q'') (ds_search base),
          ds_sort = (if nonempty (get ''sort'')
            then Some \<lparr>so_id = the (get ''sort''),
              so_direction = (if get ''dir'' = Some ''desc'' then Descending else Ascending)\<rparr>
            else ds_sort base),
          ds_filters = fold (read_filter (dense_key p ''filter'' @ ''.'')) params [],
          ds_hiddenColumns = (if nonempty (get ''columns'')
            then sort (filter (\<lambda>x. x \<noteq> []) (split_on '','' (the (get ''columns''))))
            else ds_hiddenColumns base),
          ds_density = (if get ''density'' = Some ''compact'' then Compact else ds_density base),
          ds_page = parsePositiveInteger (get ''page'') (ds_page base),
          ds_pageSize = (case sz of
              Some n \<Rightarrow> if n \<in> {25, 50, 100} then n else ds_pageSize base
            | None \<Rightarrow> ds_pageSize base),
          ds_groupBy = or_opt (get ''group'') (ds_groupBy base)\<rparr>)"

text \<open>\<open>params.set\<close> under a condition.\<close>

definition set_when :: "bool \<Rightarrow> string \<Rightarrow> string \<Rightarrow> url_params \<Rightarrow> url_params" where
  "set_when b k v ps = (if b then param_set k v ps else ps)"

definition write_filters :: "dense_host \<Rightarrow> string \<Rightarrow> (string, string list) dict \<Rightarrow> url_params \<Rightarrow> url_params" where
  "write_filters h p filters =
     fold (\<lambda>(i, values). param_set (dense_key p (''filter.'' @ i)) (join_with '','' values))
       (js_sort (\<lambda>a b. dh_plain h (fst a) (fst b)) (filter (\<lambda>(i, values). values \<noteq> []) filters))"

definition encodeDenseDataState :: "dense_host \<Rightarrow> dense_state \<Rightarrow> string \<Rightarrow> dense_partial \<Rightarrow> url_params" where
  "encodeDenseDataState h st p defaults =
     (let put = (\<lambda>b n v. set_when b (dense_key p n) v);
          sorted = (ds_sort st \<noteq> None)
      in (put (or_else (ds_groupBy st) [] \<noteq> []) ''group'' (or_else (ds_groupBy st) [])
        \<circ> put (ds_pageSize st \<noteq> or_else (dp_pageSize defaults) (ds_pageSize DEFAULT_DENSE_DATA_STATE))
            ''pageSize'' (int_text (ds_pageSize st))
        \<circ> put (ds_page st \<noteq> 1) ''page'' (int_text (ds_page st))
        \<circ> put (ds_density st \<noteq> Comfortable) ''density'' ''compact''
        \<circ> put (ds_hiddenColumns st \<noteq> []) ''columns'' (join_with '','' (sort (ds_hiddenColumns st)))
        \<circ> write_filters h p (ds_filters st)
        \<circ> put (sorted \<and> so_direction (the (ds_sort st)) = Descending) ''dir'' ''desc''
        \<circ> put sorted ''sort'' (so_id (the (ds_sort st)))
        \<circ> put (ds_search st \<noteq> []) ''q'' (ds_search st)) [])"

definition owned_param :: "string \<Rightarrow> string \<Rightarrow> bool" where
  "owned_param p k \<longleftrightarrow> k = p \<or> prefix (p @ ''.'') k"

definition mergeDenseDataStateParams ::
  "dense_host \<Rightarrow> url_params \<Rightarrow> dense_state \<Rightarrow> string \<Rightarrow> dense_partial \<Rightarrow> url_params" where
  "mergeDenseDataStateParams h existing st p defaults =
     fold (\<lambda>(k, v). param_set k v) (encodeDenseDataState h st p defaults)
       (filter (\<lambda>q. \<not> owned_param p (fst q)) existing)"

section \<open>The hook\<close>

text \<open>The address bar and the local state; a change of the query string decodes it again.\<close>

record dense_hook =
  hk_url :: url_params
  hk_state :: dense_state

definition setDenseState :: "dense_host \<Rightarrow> dense_partial \<Rightarrow> string \<Rightarrow> dense_state \<Rightarrow> dense_hook \<Rightarrow> dense_hook" where
  "setDenseState h defaults p resolved k =
     \<lparr>hk_url = mergeDenseDataStateParams h (hk_url k) resolved p defaults, hk_state = resolved\<rparr>"

definition url_effect :: "dense_partial \<Rightarrow> string \<Rightarrow> dense_hook \<Rightarrow> dense_hook" where
  "url_effect defaults p k = k\<lparr>hk_state := decodeDenseDataState (hk_url k) defaults p\<rparr>"

definition setSearch :: "string \<Rightarrow> dense_state \<Rightarrow> dense_state" where
  "setSearch search st = st\<lparr>ds_search := search, ds_page := 1\<rparr>"

definition setSort :: "dense_sort option \<Rightarrow> dense_state \<Rightarrow> dense_state" where
  "setSort so st = st\<lparr>ds_sort := so, ds_page := 1\<rparr>"

definition setHiddenColumns :: "string list \<Rightarrow> dense_state \<Rightarrow> dense_state" where
  "setHiddenColumns ids st = st\<lparr>ds_hiddenColumns := sort (remdups ids)\<rparr>"

definition setDensity :: "density \<Rightarrow> dense_state \<Rightarrow> dense_state" where
  "setDensity d st = st\<lparr>ds_density := d\<rparr>"

definition setPage :: "int \<Rightarrow> dense_state \<Rightarrow> dense_state" where
  "setPage page st = st\<lparr>ds_page := max 1 page\<rparr>"

text \<open>\<open>DenseDataPageSize\<close>.\<close>

datatype page_size = Rows25 | Rows50 | Rows100

fun rows_of :: "page_size \<Rightarrow> int" where
  "rows_of Rows25 = 25" | "rows_of Rows50 = 50" | "rows_of Rows100 = 100"

definition setPageSize :: "page_size \<Rightarrow> dense_state \<Rightarrow> dense_state" where
  "setPageSize sz st = st\<lparr>ds_pageSize := rows_of sz, ds_page := 1\<rparr>"

definition setGroupBy :: "string option \<Rightarrow> dense_state \<Rightarrow> dense_state" where
  "setGroupBy g st = st\<lparr>ds_groupBy := g\<rparr>"

text \<open>The facets two tables write whole: the event and issue facets of the bracket roster, which go back to
  the first page, and the event, issue and school facets of the meet roster, which do not.\<close>

definition facet_choice :: "bool \<Rightarrow> string \<Rightarrow> string list" where
  "facet_choice none v = (if none then [] else [v])"

definition pickBracketFilter :: "string \<Rightarrow> string \<Rightarrow> dense_state \<Rightarrow> dense_state" where
  "pickBracketFilter i v st =
     st\<lparr>ds_page := 1, ds_filters := AList.update i (facet_choice (v = ''all'') v) (ds_filters st)\<rparr>"

definition pickRosterFilter :: "string \<Rightarrow> string \<Rightarrow> dense_state \<Rightarrow> dense_state" where
  "pickRosterFilter i v st = st\<lparr>ds_filters := AList.update i (facet_choice (v = ''all'') v) (ds_filters st)\<rparr>"

definition setSchoolParam :: "string \<Rightarrow> dense_state \<Rightarrow> dense_state" where
  "setSchoolParam i st = st\<lparr>ds_filters := AList.update ''school'' (facet_choice (i = []) i) (ds_filters st)\<rparr>"

section \<open>Saved views\<close>

record dense_view =
  sv_id :: string
  sv_name :: string
  sv_state :: dense_state
  sv_createdAt :: string
  sv_updatedAt :: string

text \<open>What the storage holds under a key, as \<open>JSON.parse\<close> gives it; an item that is no view is \<open>None\<close>.\<close>

datatype stored_views = Unreadable | NoArray | ViewList "dense_view option list"

record view_storage =
  vs_items :: "(string, stored_views) dict"
  vs_readable :: bool
  vs_writable :: bool

definition denseDataViewStorageKey :: "string \<Rightarrow> string \<Rightarrow> string \<Rightarrow> string" where
  "denseDataViewStorageKey userId workspaceId viewId =
     ''shuttleworks:dense-view:'' @ encode_uri_component userId @ '':'' @ encode_uri_component workspaceId
       @ '':'' @ encode_uri_component viewId"

definition views_list :: "string \<Rightarrow> view_storage \<Rightarrow> dense_view list" where
  "views_list k s =
     (if vs_readable s
      then (case map_of (vs_items s) k of
              Some (ViewList xs) \<Rightarrow> List.map_filter (\<lambda>x. x) xs
            | _ \<Rightarrow> [])
      else [])"

definition views_write :: "string \<Rightarrow> dense_view list \<Rightarrow> view_storage \<Rightarrow> view_storage" where
  "views_write k views s =
     (if vs_writable s then s\<lparr>vs_items := AList.update k (ViewList (map Some views)) (vs_items s)\<rparr> else s)"

definition views_save ::
  "string \<Rightarrow> string \<Rightarrow> string \<Rightarrow> string \<Rightarrow> dense_state \<Rightarrow> view_storage \<Rightarrow> dense_view \<times> view_storage" where
  "views_save k now i name st s =
     (let views = views_list k s;
          previous = find (\<lambda>v. sv_id v = i) views;
          saved = \<lparr>sv_id = i, sv_name = (if trim name = [] then ''Saved view'' else trim name), sv_state = st,
            sv_createdAt = (case previous of Some v \<Rightarrow> sv_createdAt v | None \<Rightarrow> now), sv_updatedAt = now\<rparr>
      in (saved, views_write k (saved # filter (\<lambda>v. sv_id v \<noteq> i) views) s))"

definition views_remove :: "string \<Rightarrow> string \<Rightarrow> view_storage \<Rightarrow> view_storage" where
  "views_remove k i s = views_write k (filter (\<lambda>v. sv_id v \<noteq> i) (views_list k s)) s"

section \<open>The stable inventory\<close>

record inventory =
  iv_scope :: string
  iv_ids :: "string list"
  iv_initialized :: bool

definition take_snapshot :: "string \<Rightarrow> string list \<Rightarrow> string list \<Rightarrow> inventory" where
  "take_snapshot scope matching allIds = \<lparr>iv_scope = scope, iv_ids = matching, iv_initialized = allIds \<noteq> []\<rparr>"

definition inventory_render :: "string \<Rightarrow> string list \<Rightarrow> string list \<Rightarrow> inventory \<Rightarrow> inventory" where
  "inventory_render scope matching allIds snapshot =
     (let replaced = (iv_ids snapshot \<noteq> [] \<and> allIds \<noteq> [] \<and> \<not> list_ex (\<lambda>i. i \<in> set allIds) (iv_ids snapshot))
      in if iv_scope snapshot \<noteq> scope \<or> (\<not> iv_initialized snapshot \<and> allIds \<noteq> []) \<or> replaced
         then take_snapshot scope matching allIds else snapshot)"

definition inventory_ids :: "string list \<Rightarrow> string list \<Rightarrow> inventory \<Rightarrow> string list" where
  "inventory_ids matching allIds current =
     filter (\<lambda>i. i \<in> set allIds) (iv_ids current) @ filter (\<lambda>i. i \<notin> set (iv_ids current)) matching"

definition inventory_pending :: "string list \<Rightarrow> string list \<Rightarrow> inventory \<Rightarrow> bool" where
  "inventory_pending matching allIds current \<longleftrightarrow> inventory_ids matching allIds current \<noteq> matching"

section \<open>Setting new parameters\<close>

lemma param_set_new: "k \<notin> fst ` set ps \<Longrightarrow> param_set k v ps = ps @ [(k, v)]"
  by (induction ps) (auto simp: param_set_def)

lemma fold_param_set_new:
  "distinct (map fst kvs) \<Longrightarrow> fst ` set kvs \<inter> fst ` set ps = {} \<Longrightarrow>
   fold (\<lambda>(k, v). param_set k v) kvs ps = ps @ kvs"
proof (induction kvs arbitrary: ps)
  case (Cons q kvs)
  then show ?case by (cases q) (auto simp: param_set_new)
qed simp

definition opt_pair :: "bool \<Rightarrow> string \<Rightarrow> string \<Rightarrow> url_params" where
  "opt_pair b k v = (if b then [(k, v)] else [])"

lemma set_when_new: "k \<notin> fst ` set ps \<Longrightarrow> set_when b k v ps = ps @ opt_pair b k v"
  by (simp add: set_when_def opt_pair_def param_set_new)

lemma opt_pair_keys [simp]: "fst ` set (opt_pair b k v) = (if b then {k} else {})"
  by (simp add: opt_pair_def)

lemma map_of_opt_pair [simp]:
  "j \<noteq> k \<Longrightarrow> map_of (opt_pair b k v @ rest) j = map_of rest j"
  "map_of (opt_pair b k v @ rest) k = (if b then Some v else map_of rest k)"
  "map_of (opt_pair b k v) k = (if b then Some v else None)"
  "j \<noteq> k \<Longrightarrow> map_of (opt_pair b k v) j = None"
  by (simp_all add: opt_pair_def)

lemma dense_key_eq [simp]: "dense_key p a = dense_key p b \<longleftrightarrow> a = b"
  by (simp add: dense_key_def)

section \<open>The encoded parameters as a list\<close>

definition filter_pairs :: "dense_host \<Rightarrow> string \<Rightarrow> (string, string list) dict \<Rightarrow> url_params" where
  "filter_pairs h p filters =
     map (\<lambda>(i, values). (dense_key p (''filter.'' @ i), join_with '','' values))
       (js_sort (\<lambda>a b. dh_plain h (fst a) (fst b)) (filter (\<lambda>(i, values). values \<noteq> []) filters))"

lemma filter_pairs_keys: "fst ` set (filter_pairs h p filters) \<subseteq> (\<lambda>i. dense_key p (''filter.'' @ i)) ` fst ` set filters"
  by (force simp: filter_pairs_def)

lemma distinct_filter_pairs:
  "distinct (map fst filters) \<Longrightarrow> distinct (map fst (filter_pairs h p filters))"
proof -
  assume d: "distinct (map fst filters)"
  let ?l = "js_sort (\<lambda>a b. dh_plain h (fst a) (fst b)) (filter (\<lambda>(i, values). values \<noteq> []) filters)"
  have "distinct (map fst ?l)" using d by (simp add: js_sort_distinct distinct_map_filter)
  then have "distinct (map (\<lambda>i. dense_key p (''filter.'' @ i)) (map fst ?l))"
    by (subst distinct_map) (simp add: inj_on_def)
  moreover have "map fst (filter_pairs h p filters) = map (\<lambda>i. dense_key p (''filter.'' @ i)) (map fst ?l)"
    by (simp add: filter_pairs_def case_prod_beta)
  ultimately show ?thesis by simp
qed

lemma write_filters_list:
  assumes "distinct (map fst filters)" "\<forall>k \<in> fst ` set ps. \<exists>n. k = dense_key p n \<and> \<not> prefix ''filter.'' n"
  shows "write_filters h p filters ps = ps @ filter_pairs h p filters"
proof -
  have "write_filters h p filters ps = fold (\<lambda>(k, v). param_set k v) (filter_pairs h p filters) ps"
    unfolding write_filters_def filter_pairs_def fold_map by (rule fold_cong) (auto simp: fun_eq_iff)
  moreover have "fst ` set (filter_pairs h p filters) \<inter> fst ` set ps = {}"
    using filter_pairs_keys[of h p filters] assms(2) by fastforce
  ultimately show ?thesis using distinct_filter_pairs[OF assms(1)] by (simp add: fold_param_set_new)
qed

lemma encode_list:
  assumes "distinct (map fst (ds_filters st))"
  shows "encodeDenseDataState h st p d =
    opt_pair (ds_search st \<noteq> []) (dense_key p ''q'') (ds_search st)
    @ opt_pair (ds_sort st \<noteq> None) (dense_key p ''sort'') (so_id (the (ds_sort st)))
    @ opt_pair (ds_sort st \<noteq> None \<and> so_direction (the (ds_sort st)) = Descending) (dense_key p ''dir'') ''desc''
    @ filter_pairs h p (ds_filters st)
    @ opt_pair (ds_hiddenColumns st \<noteq> []) (dense_key p ''columns'') (join_with '','' (sort (ds_hiddenColumns st)))
    @ opt_pair (ds_density st \<noteq> Comfortable) (dense_key p ''density'') ''compact''
    @ opt_pair (ds_page st \<noteq> 1) (dense_key p ''page'') (int_text (ds_page st))
    @ opt_pair (ds_pageSize st \<noteq> or_else (dp_pageSize d) 50) (dense_key p ''pageSize'') (int_text (ds_pageSize st))
    @ opt_pair (or_else (ds_groupBy st) [] \<noteq> []) (dense_key p ''group'') (or_else (ds_groupBy st) [])"
proof -
  let ?head = "opt_pair (ds_search st \<noteq> []) (dense_key p ''q'') (ds_search st)
    @ opt_pair (ds_sort st \<noteq> None) (dense_key p ''sort'') (so_id (the (ds_sort st)))
    @ opt_pair (ds_sort st \<noteq> None \<and> so_direction (the (ds_sort st)) = Descending) (dense_key p ''dir'') ''desc''"
  have new: "dense_key p n \<notin> fst ` set (filter_pairs h p (ds_filters st))" if "\<not> prefix ''filter.'' n" for n
    using filter_pairs_keys[of h p "ds_filters st"] that by fastforce
  have wf: "write_filters h p (ds_filters st) ?head = ?head @ filter_pairs h p (ds_filters st)"
    by (rule write_filters_list[OF assms]) (auto simp: opt_pair_def split: if_splits)
  show ?thesis
    unfolding encodeDenseDataState_def Let_def comp_apply
    by (simp add: set_when_new wf[simplified] image_Un new DEFAULT_DENSE_DATA_STATE_def)
qed

section \<open>Reading the parameters back\<close>

text \<open>A value that survives \<open>join(',')\<close>, \<open>split(',')\<close> and \<open>trim\<close>.\<close>

definition plain_value :: "string \<Rightarrow> bool" where
  "plain_value v \<longleftrightarrow> v \<noteq> [] \<and> CHR '','' \<notin> set v \<and> trim v = v"

lemma join_nonempty: "vs \<noteq> [] \<Longrightarrow> \<forall>v \<in> set vs. v \<noteq> [] \<Longrightarrow> join_with sep vs \<noteq> []"
  by (cases vs; cases "tl vs") auto

lemma read_plain_values:
  assumes "vs \<noteq> []" "\<forall>v \<in> set vs. plain_value v"
  shows "filter (\<lambda>x. x \<noteq> []) (map trim (split_on '','' (join_with '','' vs))) = vs"
proof -
  have "split_on '','' (join_with '','' vs) = vs" by (rule split_join) (use assms in \<open>auto simp: plain_value_def\<close>)
  moreover have "map trim vs = vs" using assms(2) by (auto simp: plain_value_def intro: map_idI)
  moreover have "filter (\<lambda>x. x \<noteq> []) vs = vs" using assms(2) by (auto simp: plain_value_def)
  ultimately show ?thesis by simp
qed

definition plain_name :: "string \<Rightarrow> bool" where
  "plain_name v \<longleftrightarrow> v \<noteq> [] \<and> CHR '','' \<notin> set v"

definition plain_filters :: "(string, string list) dict \<Rightarrow> bool" where
  "plain_filters filters \<longleftrightarrow> distinct (map fst filters) \<and>
     list_all (\<lambda>(i, vs). i \<noteq> [] \<and> sorted vs \<and> distinct vs \<and> list_all plain_value vs) filters"

text \<open>A state an address can carry: its facets are sorted sets of values without a comma or outer blanks
  under a named column, its hidden columns are names without a comma, and page and page size are ones the
  table offers.\<close>

definition addressable :: "dense_state \<Rightarrow> bool" where
  "addressable st \<longleftrightarrow> plain_filters (ds_filters st) \<and> list_all plain_name (ds_hiddenColumns st) \<and>
     0 < ds_page st \<and> ds_pageSize st \<in> {25, 50, 100}"

text \<open>What comes back: a field that is at its blank value is not in the address, and reads as the default
  of the table.\<close>

definition revived :: "dense_partial \<Rightarrow> dense_state \<Rightarrow> dense_state" where
  "revived d st =
     (let base = base_state d
      in st\<lparr>ds_search := (if ds_search st = [] then ds_search base else ds_search st),
            ds_sort := (case ds_sort st of
              Some so \<Rightarrow> if so_id so = [] then ds_sort base else Some so | None \<Rightarrow> ds_sort base),
            ds_hiddenColumns := (if ds_hiddenColumns st = [] then ds_hiddenColumns base else sort (ds_hiddenColumns st)),
            ds_density := (if ds_density st = Comfortable then ds_density base else ds_density st),
            ds_page := (if ds_page st = 1 then ds_page base else ds_page st),
            ds_groupBy := (case ds_groupBy st of
              Some g \<Rightarrow> if g = [] then ds_groupBy base else Some g | None \<Rightarrow> ds_groupBy base)\<rparr>)"

lemma filter_prefix_key: "prefix (dense_key p ''filter'' @ ''.'') (dense_key p n) \<longleftrightarrow> prefix ''filter.'' n"
  by (simp add: dense_key_def)

lemma read_filter_other:
  "\<not> prefix ''filter.'' n \<Longrightarrow> read_filter (dense_key p ''filter'' @ ''.'') (dense_key p n, v) fs = fs"
  by (simp add: read_filter_def filter_prefix_key)

lemma read_opt_pair:
  "\<not> prefix ''filter.'' n \<Longrightarrow>
   fold (read_filter (dense_key p ''filter'' @ ''.'')) (opt_pair b (dense_key p n) v) fs = fs"
  by (simp add: opt_pair_def read_filter_other)

lemma read_foreign:
  "\<forall>q \<in> set kept. \<not> owned_param p (fst q) \<Longrightarrow> fold (read_filter (dense_key p ''filter'' @ ''.'')) kept fs = fs"
proof (induction kept)
  case (Cons q kept)
  have "\<not> prefix (dense_key p ''filter'' @ ''.'') (fst q)"
  proof
    assume "prefix (dense_key p ''filter'' @ ''.'') (fst q)"
    then have "owned_param p (fst q)" by (auto simp: dense_key_def owned_param_def prefix_def)
    then show False using Cons.prems by simp
  qed
  then show ?case using Cons by (cases q) (simp add: read_filter_def)
qed simp

lemma read_filter_one:
  assumes "i \<noteq> []" "vs \<noteq> []" "sorted vs" "distinct vs" "list_all plain_value vs"
  shows "read_filter (dense_key p ''filter'' @ ''.'') (dense_key p (''filter.'' @ i), join_with '','' vs) fs =
    AList.update i vs fs"
proof -
  have "drop (length (dense_key p ''filter'' @ ''.'')) (dense_key p (''filter.'' @ i)) = i"
    by (simp add: dense_key_def)
  moreover have "sort (remdups vs) = vs" using assms by (simp add: distinct_remdups_id sorted_sort_id)
  ultimately show ?thesis
    using assms read_plain_values[of vs]
    by (simp add: read_filter_def filter_prefix_key Let_def list_all_iff)
qed

lemma read_filters:
  assumes "plain_filters filters" "distinct (map fst filters)"
  shows "fold (read_filter (dense_key p ''filter'' @ ''.'')) (filter_pairs h p filters) [] =
    js_sort (\<lambda>a b. dh_plain h (fst a) (fst b)) (filter (\<lambda>(i, vs). vs \<noteq> []) filters)"
proof -
  let ?l = "js_sort (\<lambda>a b. dh_plain h (fst a) (fst b)) (filter (\<lambda>(i, vs). vs \<noteq> []) filters)"
  have "fold (read_filter (dense_key p ''filter'' @ ''.'')) (filter_pairs h p filters) [] =
      fold (\<lambda>(i, vs). AList.update i vs) ?l []"
    unfolding filter_pairs_def fold_map
  proof (rule fold_cong[OF refl refl])
    fix q assume q: "q \<in> set ?l"
    obtain i vs where [simp]: "q = (i, vs)" by (cases q)
    have "i \<noteq> []" "vs \<noteq> []" "sorted vs" "distinct vs" "list_all plain_value vs"
      using q assms(1) by (auto simp: plain_filters_def list_all_iff)
    then have "read_filter (dense_key p ''filter'' @ ''.'') (dense_key p (''filter.'' @ i), join_with '','' vs) =
        AList.update i vs"
      by (intro ext read_filter_one)
    then show "(read_filter (dense_key p ''filter'' @ ''.'') \<circ>
        (\<lambda>(i, vs). (dense_key p (''filter.'' @ i), join_with '','' vs))) q = (\<lambda>(i, vs). AList.update i vs) q"
      by (simp only: comp_apply prod.case \<open>q = (i, vs)\<close>)
  qed
  also have "\<dots> = from_entries ?l" by (simp add: from_entries_def)
  also have "\<dots> = ?l"
    by (rule from_entries_distinct) (simp add: js_sort_distinct distinct_map_filter assms(2))
  finally show ?thesis .
qed

lemma map_of_filter_pairs:
  "\<not> prefix ''filter.'' n \<Longrightarrow> map_of (filter_pairs h p filters @ rest) (dense_key p n) = map_of rest (dense_key p n)"
proof -
  assume "\<not> prefix ''filter.'' n"
  then have "dense_key p n \<notin> fst ` set (filter_pairs h p filters)"
    using filter_pairs_keys[of h p filters] by fastforce
  then have "map_of (filter_pairs h p filters) (dense_key p n) = None" by (simp add: map_of_eq_None_iff)
  then show ?thesis by (simp add: map_add_def)
qed

lemma map_of_foreign:
  "\<forall>q \<in> set kept. \<not> owned_param p (fst q) \<Longrightarrow> map_of (kept @ rest) (dense_key p n) = map_of rest (dense_key p n)"
proof -
  assume a: "\<forall>q \<in> set kept. \<not> owned_param p (fst q)"
  have "owned_param p (dense_key p n)" by (simp add: owned_param_def dense_key_def)
  then have "map_of kept (dense_key p n) = None" using a by (auto simp: map_of_eq_None_iff)
  then show ?thesis by (simp add: map_add_def)
qed

lemma param_names_distinct:
  "distinct ([''q'', ''sort'', ''dir''] @ map (\<lambda>i. ''filter.'' @ i) ids @
     [''columns'', ''density'', ''page'', ''pageSize'', ''group'']) \<longleftrightarrow> distinct ids"
proof -
  have "distinct [''q'', ''sort'', ''dir'', ''columns'', ''density'', ''page'', ''pageSize'', ''group'']" by code_simp
  moreover have "distinct (map (\<lambda>i. ''filter.'' @ i) ids) \<longleftrightarrow> distinct ids"
    by (simp add: distinct_map inj_on_def)
  moreover have "''filter.'' @ i \<notin> set [''q'', ''sort'', ''dir'', ''columns'', ''density'', ''page'', ''pageSize'', ''group'']"
    for i by simp
  ultimately show ?thesis by auto
qed

text \<open>The encoded parameters by their names, without the prefix of the table.\<close>

definition filter_names :: "dense_host \<Rightarrow> (string, string list) dict \<Rightarrow> url_params" where
  "filter_names h fs = map (\<lambda>(i, values). (''filter.'' @ i, join_with '','' values))
     (js_sort (\<lambda>a b. dh_plain h (fst a) (fst b)) (filter (\<lambda>(i, values). values \<noteq> []) fs))"

definition name_pairs :: "dense_host \<Rightarrow> dense_state \<Rightarrow> dense_partial \<Rightarrow> url_params" where
  "name_pairs h st d =
    (opt_pair (ds_search st \<noteq> []) ''q'' (ds_search st)
    @ opt_pair (ds_sort st \<noteq> None) ''sort'' (so_id (the (ds_sort st)))
    @ opt_pair (ds_sort st \<noteq> None \<and> so_direction (the (ds_sort st)) = Descending) ''dir'' ''desc'')
    @ filter_names h (ds_filters st)
    @ opt_pair (ds_hiddenColumns st \<noteq> []) ''columns'' (join_with '','' (sort (ds_hiddenColumns st)))
    @ opt_pair (ds_density st \<noteq> Comfortable) ''density'' ''compact''
    @ opt_pair (ds_page st \<noteq> 1) ''page'' (int_text (ds_page st))
    @ opt_pair (ds_pageSize st \<noteq> or_else (dp_pageSize d) 50) ''pageSize'' (int_text (ds_pageSize st))
    @ opt_pair (or_else (ds_groupBy st) [] \<noteq> []) ''group'' (or_else (ds_groupBy st) [])"

lemma opt_pair_key: "opt_pair b (dense_key p n) v = map (\<lambda>(n, v). (dense_key p n, v)) (opt_pair b n v)"
  by (simp add: opt_pair_def)

lemma filter_pairs_names:
  "filter_pairs h p fs = map (\<lambda>(n, v). (dense_key p n, v)) (filter_names h fs)"
  by (simp add: filter_pairs_def filter_names_def case_prod_beta)

lemma encode_names:
  "distinct (map fst (ds_filters st)) \<Longrightarrow>
   encodeDenseDataState h st p d = map (\<lambda>(n, v). (dense_key p n, v)) (name_pairs h st d)"
  by (simp only: encode_list name_pairs_def opt_pair_key filter_pairs_names map_append append_assoc)

lemma fst_opt_pair: "map fst (opt_pair b k v) = (if b then [k] else [])"
  by (simp add: opt_pair_def)

lemma subseq_opt: "subseq (if b then [k] else []) [k]"
  by simp

lemma name_pairs_distinct:
  assumes "distinct (map fst (ds_filters st))"
  shows "distinct (map fst (name_pairs h st d))"
proof -
  let ?ids = "map fst (js_sort (\<lambda>a b. dh_plain h (fst a) (fst b)) (filter (\<lambda>(i, values). values \<noteq> []) (ds_filters st)))"
  have "subseq (map fst (name_pairs h st d))
      (([''q''] @ [''sort''] @ [''dir'']) @ map (\<lambda>i. ''filter.'' @ i) ?ids @
       [''columns''] @ [''density''] @ [''page''] @ [''pageSize''] @ [''group''])"
    unfolding name_pairs_def filter_names_def map_append fst_opt_pair map_map comp_def case_prod_beta fst_conv
    by (intro list_emb_append_mono subseq_opt subseq_order.order_refl)
  moreover have "distinct ?ids" using assms by (simp add: js_sort_distinct distinct_map_filter)
  then have "distinct (([''q''] @ [''sort''] @ [''dir'']) @ map (\<lambda>i. ''filter.'' @ i) ?ids @
       [''columns''] @ [''density''] @ [''page''] @ [''pageSize''] @ [''group''])"
    using param_names_distinct[of ?ids] by (simp only: append_Cons append_Nil)
  ultimately show ?thesis unfolding subseq_conv_nths by (metis distinct_nthsI)
qed

lemma merge_list:
  assumes "distinct (map fst (ds_filters st))"
  shows "mergeDenseDataStateParams h existing st p d =
    filter (\<lambda>q. \<not> owned_param p (fst q)) existing @ encodeDenseDataState h st p d"
proof -
  have keys: "map fst (encodeDenseDataState h st p d) = map (dense_key p) (map fst (name_pairs h st d))"
    unfolding encode_names[OF assms] by (simp add: case_prod_beta)
  have "distinct (map (dense_key p) (map fst (name_pairs h st d)))"
    by (subst distinct_map) (simp add: name_pairs_distinct[OF assms] inj_on_def)
  then have "distinct (map fst (encodeDenseDataState h st p d))" by (simp only: keys)
  moreover have "\<forall>k \<in> set (map fst (encodeDenseDataState h st p d)). owned_param p k"
    unfolding keys by (auto simp: owned_param_def dense_key_def)
  then have "fst ` set (encodeDenseDataState h st p d) \<inter>
      fst ` set (filter (\<lambda>q. \<not> owned_param p (fst q)) existing) = {}"
    by auto
  ultimately show ?thesis unfolding mergeDenseDataStateParams_def by (rule fold_param_set_new)
qed

lemma map_of_eqI_sets:
  "distinct (map fst xs) \<Longrightarrow> distinct (map fst ys) \<Longrightarrow> set xs = set ys \<Longrightarrow> map_of xs = map_of ys"
  by (metis map_of_inject_set)

lemma map_of_names: "map_of (map (\<lambda>(n, v). (dense_key p n, v)) xs) (dense_key p n) = map_of xs n"
  by (induction xs) auto

text \<open>What each field reads out of the address.\<close>

lemma get_name:
  assumes "distinct (map fst (ds_filters st))"
  shows "param_get (mergeDenseDataStateParams h existing st p d) (dense_key p n) = map_of (name_pairs h st d) n"
  unfolding param_get_def merge_list[OF assms] encode_names[OF assms]
  by (subst map_of_foreign) (simp_all add: map_of_names)

lemma map_of_filter_names:
  "\<not> prefix ''filter.'' n \<Longrightarrow> map_of (filter_names h fs @ rest) n = map_of rest n"
proof -
  assume "\<not> prefix ''filter.'' n"
  then have "map_of (map (\<lambda>(i, values). (''filter.'' @ i, join_with '','' values)) xs @ rest) n = map_of rest n" for xs
    by (induction xs) auto
  then show ?thesis by (simp only: filter_names_def)
qed

lemma get_names:
  "map_of (name_pairs h st d) ''q'' = (if ds_search st \<noteq> [] then Some (ds_search st) else None)"
  "map_of (name_pairs h st d) ''sort'' = (if ds_sort st \<noteq> None then Some (so_id (the (ds_sort st))) else None)"
  "map_of (name_pairs h st d) ''dir'' =
     (if ds_sort st \<noteq> None \<and> so_direction (the (ds_sort st)) = Descending then Some ''desc'' else None)"
  "map_of (name_pairs h st d) ''columns'' =
     (if ds_hiddenColumns st \<noteq> [] then Some (join_with '','' (sort (ds_hiddenColumns st))) else None)"
  "map_of (name_pairs h st d) ''density'' = (if ds_density st \<noteq> Comfortable then Some ''compact'' else None)"
  "map_of (name_pairs h st d) ''page'' = (if ds_page st \<noteq> 1 then Some (int_text (ds_page st)) else None)"
  "map_of (name_pairs h st d) ''pageSize'' =
     (if ds_pageSize st \<noteq> or_else (dp_pageSize d) 50 then Some (int_text (ds_pageSize st)) else None)"
  "map_of (name_pairs h st d) ''group'' =
     (if or_else (ds_groupBy st) [] \<noteq> [] then Some (or_else (ds_groupBy st) []) else None)"
  unfolding name_pairs_def append_assoc
  by (((subst map_of_opt_pair(1,4) map_of_filter_names, (simp; fail)) | subst map_of_opt_pair(2,3))+, rule refl)+

lemma int_text_positive: "0 < n \<Longrightarrow> int_text n = nat_text (nat n)"
  by (simp add: int_text_def)

lemma plain_join_nonempty:
  "vs \<noteq> [] \<Longrightarrow> list_all plain_name vs \<Longrightarrow> join_with '','' vs \<noteq> []"
  by (rule join_nonempty) (auto simp: list_all_iff plain_name_def)

text \<open>Two states that show the same table: they may differ in the order of the facets, and in facets with no
  selection.\<close>

definition same_view :: "dense_state \<Rightarrow> dense_state \<Rightarrow> bool" where
  "same_view a b \<longleftrightarrow> a\<lparr>ds_filters := ds_filters b\<rparr> = b \<and>
     map_of (filter (\<lambda>(i, vs). vs \<noteq> []) (ds_filters a)) = map_of (filter (\<lambda>(i, vs). vs \<noteq> []) (ds_filters b))"

lemma decoded_filters:
  assumes "plain_filters (ds_filters st)"
  shows "fold (read_filter (dense_key p ''filter'' @ ''.'')) (mergeDenseDataStateParams h existing st p d) [] =
    js_sort (\<lambda>a b. dh_plain h (fst a) (fst b)) (filter (\<lambda>(i, vs). vs \<noteq> []) (ds_filters st))"
proof -
  have d: "distinct (map fst (ds_filters st))" using assms by (simp add: plain_filters_def)
  have "fold (read_filter (dense_key p ''filter'' @ ''.'')) (filter (\<lambda>q. \<not> owned_param p (fst q)) existing) [] = []"
    by (rule read_foreign) simp
  then show ?thesis
    unfolding merge_list[OF d] encode_list[OF d]
    by (simp add: read_opt_pair read_filters[OF assms d])
qed

lemma decoded_fields:
  assumes "addressable st" "0 < ds_page (base_state d)"
  shows "decodeDenseDataState (mergeDenseDataStateParams h existing st p d) d p =
    (revived d st)\<lparr>ds_filters := js_sort (\<lambda>a b. dh_plain h (fst a) (fst b)) (filter (\<lambda>(i, vs). vs \<noteq> []) (ds_filters st))\<rparr>"
proof -
  let ?u = "mergeDenseDataStateParams h existing st p d" and ?base = "base_state d"
  have fs: "plain_filters (ds_filters st)" using assms by (simp add: addressable_def)
  then have dist: "distinct (map fst (ds_filters st))" by (simp add: plain_filters_def)
  note get = get_name[OF dist] get_names
  have columns: "ds_hiddenColumns st \<noteq> [] \<Longrightarrow>
      sort (filter (\<lambda>x. x \<noteq> []) (split_on '','' (join_with '','' (sort (ds_hiddenColumns st))))) = sort (ds_hiddenColumns st)"
    "ds_hiddenColumns st \<noteq> [] \<Longrightarrow> join_with '','' (sort (ds_hiddenColumns st)) \<noteq> []"
  proof -
    assume ne: "ds_hiddenColumns st \<noteq> []"
    let ?s = "sort (ds_hiddenColumns st)"
    have v: "list_all plain_name ?s" "?s \<noteq> []"
      using assms ne by (auto simp: addressable_def list_all_iff)
    have "split_on '','' (join_with '','' ?s) = ?s"
      using v by (intro split_join) (auto simp: list_all_iff plain_name_def)
    moreover have "filter (\<lambda>x. x \<noteq> []) ?s = ?s"
      using v(1) by (auto simp: list_all_iff plain_name_def)
    ultimately show "sort (filter (\<lambda>x. x \<noteq> []) (split_on '','' (join_with '','' ?s))) = ?s"
      "join_with '','' ?s \<noteq> []"
      using plain_join_nonempty[OF v(2,1)] by (simp_all add: sorted_sort_id)
  qed
  have asc: "\<lparr>so_id = so_id x, so_direction = Ascending\<rparr> = x" if "so_direction x \<noteq> Descending" for x
    using that by (cases "so_direction x") (auto intro: dense_sort.equality)
  have desc: "\<lparr>so_id = so_id x, so_direction = Descending\<rparr> = x" if "so_direction x = Descending" for x
    using that by (auto intro: dense_sort.equality)
  have pos: "0 < ds_page st" "js_integer (int_text (ds_page st)) = Some (ds_page st)"
    "js_integer (int_text (ds_pageSize st)) = Some (ds_pageSize st)"
    using assms by (auto simp: addressable_def int_text_positive)
  have size_ok: "ds_pageSize st \<in> {25, 50, 100}" using assms by (simp add: addressable_def)
  have size_base: "or_else (dp_pageSize d) 50 = ds_pageSize ?base"
    by (simp add: base_state_def DEFAULT_DENSE_DATA_STATE_def)
  let ?r = "(revived d st)\<lparr>ds_filters := js_sort (\<lambda>a b. dh_plain h (fst a) (fst b)) (filter (\<lambda>(i, vs). vs \<noteq> []) (ds_filters st))\<rparr>"
  show ?thesis
  proof (rule dense_state.equality)
    note read = decodeDenseDataState_def Let_def get revived_def
    show "ds_search (decodeDenseDataState ?u d p) = ds_search ?r"
      unfolding read by (simp add: get_names)
    show "ds_sort (decodeDenseDataState ?u d p) = ds_sort ?r"
      unfolding read using asc desc by (cases "ds_sort st") auto
    show "ds_filters (decodeDenseDataState ?u d p) = ds_filters ?r"
      unfolding read by (simp add: decoded_filters[OF fs])
    show "ds_hiddenColumns (decodeDenseDataState ?u d p) = ds_hiddenColumns ?r"
      unfolding read using columns by (cases "ds_hiddenColumns st = []") simp_all
    show "ds_density (decodeDenseDataState ?u d p) = ds_density ?r"
      unfolding read by (cases "ds_density st") simp_all
    show "ds_page (decodeDenseDataState ?u d p) = ds_page ?r"
      unfolding read using pos by (cases "ds_page st = 1") (simp_all add: parsePositiveInteger_def)
    show "ds_pageSize (decodeDenseDataState ?u d p) = ds_pageSize ?r"
      unfolding read size_base using size_ok pos by (cases "ds_pageSize st = ds_pageSize ?base") simp_all
    show "ds_groupBy (decodeDenseDataState ?u d p) = ds_groupBy ?r"
      unfolding read by (cases "ds_groupBy st") simp_all
  qed simp
qed

section \<open>States that stay well formed\<close>

text \<open>The defaults a table can name: a page size of the three, a positive page, sorted hidden columns.\<close>

definition typed_defaults :: "dense_partial \<Rightarrow> bool" where
  "typed_defaults d \<longleftrightarrow> ds_pageSize (base_state d) \<in> {25, 50, 100} \<and> 0 < ds_page (base_state d) \<and>
     sorted (ds_hiddenColumns (base_state d))"

text \<open>The facets hold values that can stand in an address, or values a step of the operator named.\<close>

definition facets_from :: "string list \<Rightarrow> (string, string list) dict \<Rightarrow> bool" where
  "facets_from named filters \<longleftrightarrow> distinct (map fst filters) \<and>
     list_all (\<lambda>(i, vs). sorted vs \<and> distinct vs \<and> list_all (\<lambda>v. plain_value v \<or> v \<in> set named) vs) filters"

definition table_wf :: "string list \<Rightarrow> dense_state \<Rightarrow> bool" where
  "table_wf named st \<longleftrightarrow> facets_from named (ds_filters st) \<and> sorted (ds_hiddenColumns st) \<and>
     0 < ds_page st \<and> ds_pageSize st \<in> {25, 50, 100}"

lemma facets_update:
  assumes "facets_from named fs" "sorted vs" "distinct vs" "list_all (\<lambda>v. plain_value v \<or> v \<in> set named) vs"
  shows "facets_from named (AList.update i vs fs)"
  using assms by (auto simp: facets_from_def list_all_iff set_update_distinct distinct_update)

lemma facets_more: "facets_from named fs \<Longrightarrow> set named \<subseteq> set wide \<Longrightarrow> facets_from wide fs"
  by (fastforce simp: facets_from_def list_all_iff)

lemma facets_lookup:
  "facets_from named fs \<Longrightarrow> sorted (or_else (map_of fs i) []) \<and> distinct (or_else (map_of fs i) []) \<and>
     list_all (\<lambda>v. plain_value v \<or> v \<in> set named) (or_else (map_of fs i) [])"
  by (cases "map_of fs i") (auto simp: facets_from_def list_all_iff dest!: map_of_SomeD)

lemma plain_filters_update:
  assumes "plain_filters fs" "i \<noteq> []" "sorted vs" "distinct vs" "list_all plain_value vs"
  shows "plain_filters (AList.update i vs fs)"
  using assms by (auto simp: plain_filters_def list_all_iff set_update_distinct distinct_update)

lemma split_acc_no_sep: "c \<notin> set acc \<Longrightarrow> v \<in> set (split_acc [c] acc s) \<Longrightarrow> c \<notin> set v"
proof (induction s arbitrary: acc)
  case (Cons a s)
  then show ?case using Cons.IH[of "[]"] Cons.IH[of "acc @ [a]"] by (auto split: if_splits)
qed simp

lemma set_trim: "set (trim s) \<subseteq> set s"
  by (auto simp: trim_def dest!: set_dropWhileD)

lemma trimmed_piece_plain:
  "v \<in> set (map trim (split_on '','' s)) \<Longrightarrow> v \<noteq> [] \<Longrightarrow> plain_value v"
  using set_trim split_acc_no_sep[of "CHR '',''" "[]" _ s] by (fastforce simp: plain_value_def split_on_def)

lemma read_filter_plain: "plain_filters fs \<Longrightarrow> plain_filters (read_filter q p fs)"
proof -
  assume fs: "plain_filters fs"
  obtain param v where p: "p = (param, v)" by (cases p)
  show ?thesis
  proof (cases "prefix q param \<and> drop (length q) param \<noteq> []")
    case True
    have "plain_filters (AList.update (drop (length q) param)
        (sort (remdups (filter (\<lambda>x. x \<noteq> []) (map trim (split_on '','' v))))) fs)"
    proof (rule plain_filters_update[OF fs])
      show "list_all plain_value (sort (remdups (filter (\<lambda>x. x \<noteq> []) (map trim (split_on '','' v)))))"
        using trimmed_piece_plain by (auto simp: list_all_iff)
    qed (use True in simp_all)
    then show ?thesis using True fs by (simp add: p read_filter_def Let_def)
  qed (use fs in \<open>auto simp: p read_filter_def Let_def\<close>)
qed

lemma decoded_filters_plain: "plain_filters fs \<Longrightarrow> plain_filters (fold (read_filter q) params fs)"
  by (induction params arbitrary: fs) (simp_all add: read_filter_plain)

lemma decoded_wf:
  assumes "typed_defaults d"
  shows "table_wf [] (decodeDenseDataState params d p)"
proof -
  have "plain_filters (ds_filters (decodeDenseDataState params d p))"
    using decoded_filters_plain[of "[]"] by (simp add: decodeDenseDataState_def Let_def plain_filters_def)
  then have "facets_from [] (ds_filters (decodeDenseDataState params d p))"
    by (auto simp: plain_filters_def facets_from_def list_all_iff)
  moreover have "sorted (ds_hiddenColumns (decodeDenseDataState params d p))"
    using assms by (simp add: decodeDenseDataState_def Let_def typed_defaults_def)
  moreover have "0 < ds_page (decodeDenseDataState params d p)"
    using assms by (auto simp: decodeDenseDataState_def Let_def parsePositiveInteger_def typed_defaults_def split: option.split)
  moreover have "ds_pageSize (decodeDenseDataState params d p) \<in> {25, 50, 100}"
    using assms by (auto simp: decodeDenseDataState_def Let_def typed_defaults_def split: option.split)
  ultimately show ?thesis by (simp add: table_wf_def)
qed

text \<open>The steps of the operator: the actions of the hook with any argument, and the facets tables write
  whole.\<close>

datatype table_step =
    TSearch string | TSort "dense_sort option" | TToggleSort string | TFacet string string | TClear
  | THide "string list" | TDensity density | TPage int | TPageSize page_size | TGroupBy "string option"
  | TPickBracket string string | TPickRoster string string | TSchool string

fun apply_step :: "table_step \<Rightarrow> dense_state \<Rightarrow> dense_state" where
  "apply_step (TSearch q) st = setSearch q st"
| "apply_step (TSort so) st = setSort so st"
| "apply_step (TToggleSort i) st = setDenseSort st i"
| "apply_step (TFacet i v) st = toggleDenseFilter st i v"
| "apply_step TClear st = clearDenseDataFilters st"
| "apply_step (THide ids) st = setHiddenColumns ids st"
| "apply_step (TDensity d) st = setDensity d st"
| "apply_step (TPage n) st = setPage n st"
| "apply_step (TPageSize n) st = setPageSize n st"
| "apply_step (TGroupBy g) st = setGroupBy g st"
| "apply_step (TPickBracket i v) st = pickBracketFilter i v st"
| "apply_step (TPickRoster i v) st = pickRosterFilter i v st"
| "apply_step (TSchool i) st = setSchoolParam i st"

text \<open>The facet values a step names.\<close>

fun step_values :: "table_step \<Rightarrow> string list" where
  "step_values (TFacet i v) = [v]"
| "step_values (TPickBracket i v) = [v]"
| "step_values (TPickRoster i v) = [v]"
| "step_values (TSchool i) = [i]"
| "step_values _ = []"

lemma toggle_wf:
  assumes "facets_from named (ds_filters st)" "v \<in> set named"
  shows "facets_from named (ds_filters (toggleDenseFilter st i v))"
  using facets_lookup[OF assms(1), of i] assms
  by (auto simp: toggleDenseFilter_def Let_def list_all_iff sorted_filter[of "\<lambda>x. x", simplified] intro!: facets_update)

lemma step_wf:
  assumes "table_wf named st" "set (step_values t) \<subseteq> set named"
  shows "table_wf named (apply_step t st)"
proof -
  have pick: "facets_from named (AList.update i (facet_choice b v) (ds_filters st))" if "v \<in> set named" for i b v
    using assms(1) that by (auto simp: table_wf_def facet_choice_def intro!: facets_update)
  have rows: "rows_of n \<in> {25, 50, 100}" for n by (cases n) simp_all
  show ?thesis
    using assms toggle_wf[of named st] pick rows
    by (cases t) (auto simp: table_wf_def setSearch_def setSort_def setDenseSort_def clearDenseDataFilters_def
        setHiddenColumns_def setDensity_def setPage_def setPageSize_def setGroupBy_def pickBracketFilter_def
        pickRosterFilter_def setSchoolParam_def toggleDenseFilter_def facets_from_def Let_def)
qed

section \<open>Properties\<close>


definition no_defaults :: dense_partial where
  "no_defaults = \<lparr>dp_search = None, dp_sort = None, dp_hiddenColumns = None, dp_density = None, dp_page = None,
     dp_pageSize = Some 100, dp_groupBy = None\<rparr>"

text \<open>The defaults of the bracket roster: it opens sorted by player.\<close>

definition roster_defaults :: dense_partial where
  "roster_defaults = no_defaults\<lparr>dp_sort := Some (Some \<lparr>so_id = ''player'', so_direction = Ascending\<rparr>)\<rparr>"

definition demo_address :: url_params where
  "demo_address = [(''q'', ''x''), (''t.filter.club'', '' B,A,,B''), (''t.page'', ''-3''), (''t.pageSize'', ''30'')]"

lemma roster_defaults_typed: "typed_defaults roster_defaults"
  by (simp add: typed_defaults_def roster_defaults_def no_defaults_def base_state_def DEFAULT_DENSE_DATA_STATE_def)


text \<open>A table that opens blank: its defaults name at most the page size.\<close>

definition opens_blank :: "dense_partial \<Rightarrow> bool" where
  "opens_blank d \<longleftrightarrow> base_state d = DEFAULT_DENSE_DATA_STATE\<lparr>ds_pageSize := ds_pageSize (base_state d)\<rparr>"

lemma revived_blank:
  assumes "opens_blank d" "sorted (ds_hiddenColumns st)" "ds_groupBy st \<noteq> Some []"
    and "ds_sort st = None \<or> so_id (the (ds_sort st)) \<noteq> []"
  shows "revived d st = st"
proof -
  have b: "base_state d = DEFAULT_DENSE_DATA_STATE\<lparr>ds_pageSize := ds_pageSize (base_state d)\<rparr>"
    using assms(1) by (simp add: opens_blank_def)
  have "ds_search (base_state d) = []" "ds_sort (base_state d) = None" "ds_hiddenColumns (base_state d) = []"
    "ds_density (base_state d) = Comfortable" "ds_page (base_state d) = 1" "ds_groupBy (base_state d) = None"
    by (subst b, simp add: DEFAULT_DENSE_DATA_STATE_def)+
  then show ?thesis using assms(2-)
    by (intro dense_state.equality) (auto simp: revived_def Let_def sorted_sort_id split: option.split)
qed

text \<open>C24. The address bar keeps a table: a state whose column names and facet values can stand in an address
  (no comma, no outer blanks), written to the query string and decoded again as the effect on the query
  string does, comes back field by field, a field at its blank value as the default of the table; so in a
  table that opens blank the same table is shown, while in one with a default sort a cleared sort comes back
  as that default. No parameter outside the table's own prefix is touched.\<close>

theorem view_survives_address:
  assumes "addressable st" "typed_defaults d"
  shows "same_view (hk_state (url_effect d p (setDenseState h d p st k))) (revived d st) \<and>
    (opens_blank d \<and> sorted (ds_hiddenColumns st) \<and> ds_groupBy st \<noteq> Some [] \<and>
       (ds_sort st = None \<or> so_id (the (ds_sort st)) \<noteq> []) \<longrightarrow> revived d st = st) \<and>
    (owned_param p n \<or> param_get (hk_url (setDenseState h d p st k)) n = param_get (hk_url k) n)"
proof (intro conjI)
  let ?u = "mergeDenseDataStateParams h (hk_url k) st p d"
  let ?fs = "filter (\<lambda>(i, vs). vs \<noteq> []) (ds_filters st)"
  have dist: "distinct (map fst (ds_filters st))" using assms by (simp add: addressable_def plain_filters_def)
  have "map_of (js_sort (\<lambda>a b. dh_plain h (fst a) (fst b)) ?fs) = map_of ?fs"
    using dist by (intro map_of_eqI_sets) (simp_all add: js_sort_distinct distinct_map_filter)
  moreover have "filter (\<lambda>(i, vs). vs \<noteq> []) (js_sort (\<lambda>a b. dh_plain h (fst a) (fst b)) ?fs) =
      js_sort (\<lambda>a b. dh_plain h (fst a) (fst b)) ?fs"
    by (auto intro: filter_True)
  moreover have "ds_filters (revived d st) = ds_filters st" by (simp add: revived_def Let_def)
  moreover have "0 < ds_page (base_state d)" using assms(2) by (simp add: typed_defaults_def)
  ultimately show "same_view (hk_state (url_effect d p (setDenseState h d p st k))) (revived d st)"
    by (simp add: same_view_def url_effect_def setDenseState_def decoded_fields[OF assms(1)])
  show "opens_blank d \<and> sorted (ds_hiddenColumns st) \<and> ds_groupBy st \<noteq> Some [] \<and>
       (ds_sort st = None \<or> so_id (the (ds_sort st)) \<noteq> []) \<longrightarrow> revived d st = st"
    using revived_blank by blast
  have "map_of (encodeDenseDataState h st p d) n = None" if "\<not> owned_param p n"
    using that by (auto simp: encode_names[OF dist] map_of_eq_None_iff owned_param_def dense_key_def)
  moreover have "map_of (filter (\<lambda>q. \<not> owned_param p (fst q)) xs) n = map_of xs n" if "\<not> owned_param p n" for xs :: url_params
    using that by (induction xs) auto
  ultimately show "owned_param p n \<or> param_get (hk_url (setDenseState h d p st k)) n = param_get (hk_url k) n"
    by (cases "owned_param p n")
      (auto simp: setDenseState_def param_get_def merge_list[OF dist] map_add_def split: option.split)
qed

definition plain_host :: dense_host where
  "plain_host = \<lparr>dh_lower = (\<lambda>s. s), dh_base = (\<lambda>a b. if a < b then - 1 else if a = b then 0 else 1),
     dh_numeric = (\<lambda>a b. if a < b then - 1 else if a = b then 0 else 1),
     dh_plain = (\<lambda>a b. if a < b then - 1 else if a = b then 0 else 1)\<rparr>"

definition demo_view :: dense_state where
  "demo_view = DEFAULT_DENSE_DATA_STATE\<lparr>ds_sort := Some \<lparr>so_id = ''seed'', so_direction = Descending\<rparr>,
     ds_filters := [(''club'', [''A'', ''B'']), (''event'', [''MS''])], ds_page := 3, ds_pageSize := 25\<rparr>"

lemma no_defaults_typed: "typed_defaults no_defaults"
  by (simp add: typed_defaults_def no_defaults_def base_state_def DEFAULT_DENSE_DATA_STATE_def)

theorem view_survives_address_witness:
  "same_view (hk_state (url_effect no_defaults ''t'' (setDenseState plain_host no_defaults ''t'' demo_view
     \<lparr>hk_url = demo_address, hk_state = demo_view\<rparr>))) demo_view \<and>
   hk_url (setDenseState plain_host no_defaults ''t'' demo_view \<lparr>hk_url = demo_address, hk_state = demo_view\<rparr>) =
     [(''q'', ''x''), (''t.sort'', ''seed''), (''t.dir'', ''desc''), (''t.filter.club'', ''A,B''),
      (''t.filter.event'', ''MS''), (''t.page'', ''3''), (''t.pageSize'', ''25'')]"
proof
  have "addressable demo_view" by code_simp
  moreover have "revived no_defaults demo_view = demo_view" by code_simp
  ultimately show "same_view (hk_state (url_effect no_defaults ''t'' (setDenseState plain_host no_defaults ''t'' demo_view
     \<lparr>hk_url = demo_address, hk_state = demo_view\<rparr>))) demo_view"
    using view_survives_address[OF _ no_defaults_typed, of demo_view "''t''" plain_host
        "\<lparr>hk_url = demo_address, hk_state = demo_view\<rparr>"] by simp
qed code_simp

text \<open>The bracket roster opens sorted by player: the third press of a column head clears the sort, the write to
  the address drops it, and the effect on the address brings the default back.\<close>

lemma cleared_sort_returns:
  assumes "addressable st" "ds_sort st = Some \<lparr>so_id = i, so_direction = Descending\<rparr>"
  shows "ds_sort (setDenseSort st i) = None"
    "ds_sort (hk_state (url_effect roster_defaults p (setDenseState h roster_defaults p (setDenseSort st i) k))) =
       Some \<lparr>so_id = ''player'', so_direction = Ascending\<rparr>"
proof -
  show cleared: "ds_sort (setDenseSort st i) = None" using assms(2) by (simp add: setDenseSort_def)
  have ok: "addressable (setDenseSort st i)" using assms(1) by (simp add: addressable_def setDenseSort_def)
  have "0 < ds_page (base_state roster_defaults)" using roster_defaults_typed by (simp add: typed_defaults_def)
  from decoded_fields[OF ok this] show
    "ds_sort (hk_state (url_effect roster_defaults p (setDenseState h roster_defaults p (setDenseSort st i) k))) =
       Some \<lparr>so_id = ''player'', so_direction = Ascending\<rparr>"
    by (simp add: url_effect_def setDenseState_def revived_def Let_def cleared base_state_def roster_defaults_def)
qed

text \<open>The inventory that is held still hides nothing: every matching row is shown exactly once, no row that is
  gone is shown, the rows that were there keep their order, and when nothing is pending the order is the current one.\<close>

theorem inventory_hides_nothing:
  assumes "distinct matching" "set matching \<subseteq> set allIds" "distinct (iv_ids snapshot)"
    and "cur = inventory_render scope matching allIds snapshot"
  shows "distinct (inventory_ids matching allIds cur) \<and>
    set matching \<subseteq> set (inventory_ids matching allIds cur) \<and> set (inventory_ids matching allIds cur) \<subseteq> set allIds \<and>
    (\<exists>new. inventory_ids matching allIds cur = filter (\<lambda>i. i \<in> set allIds) (iv_ids cur) @ new \<and>
       set new \<inter> set (iv_ids cur) = {}) \<and>
    (inventory_pending matching allIds cur \<or> inventory_ids matching allIds cur = matching)"
proof -
  have "distinct (iv_ids cur)" using assms by (auto simp: inventory_render_def take_snapshot_def Let_def)
  then show ?thesis using assms(1,2) by (auto simp: inventory_ids_def inventory_pending_def)
qed

theorem inventory_hides_nothing_witness:
  "distinct (inventory_ids [''c'', ''b'', ''d''] [''b'', ''c'', ''d''] (inventory_render ''s'' [''c'', ''b'', ''d''] [''b'', ''c'', ''d'']
     \<lparr>iv_scope = ''s'', iv_ids = [''a'', ''b'', ''c''], iv_initialized = True\<rparr>)) \<and>
   inventory_ids [''c'', ''b'', ''d''] [''b'', ''c'', ''d''] (inventory_render ''s'' [''c'', ''b'', ''d''] [''b'', ''c'', ''d'']
     \<lparr>iv_scope = ''s'', iv_ids = [''a'', ''b'', ''c''], iv_initialized = True\<rparr>) = [''b'', ''c'', ''d'']"
proof
  show "distinct (inventory_ids [''c'', ''b'', ''d''] [''b'', ''c'', ''d''] (inventory_render ''s'' [''c'', ''b'', ''d'']
     [''b'', ''c'', ''d''] \<lparr>iv_scope = ''s'', iv_ids = [''a'', ''b'', ''c''], iv_initialized = True\<rparr>))"
    by (rule inventory_hides_nothing[THEN conjunct1, OF _ _ _ refl]) simp_all
qed code_simp

section \<open>Saved views\<close>

lemma uri_plain_chars: "\<not> uri_plain (CHR ''%'')" "\<not> uri_plain (CHR '':'')"
  by code_simp+

lemma hex_char_inject: "a < 16 \<Longrightarrow> b < 16 \<Longrightarrow> hex_char a = hex_char b \<Longrightarrow> a = b"
proof -
  assume "a < 16" "b < 16" "hex_char a = hex_char b"
  then have "(if a < 10 then a + 48 else a + 55) = (if b < 10 then b + 48 else b + 55)"
    by (metis hex_char_code)
  then show ?thesis using \<open>a < 16\<close> \<open>b < 16\<close> by (simp split: if_splits)
qed

lemma high_nibble: "(of_char (c :: char) :: nat) div 16 < 16"
  by (rule less_mult_imp_div_less) simp

definition uri_code :: "char \<Rightarrow> string" where
  "uri_code c = (if uri_plain c then [c] else CHR ''%'' # [hex_char (of_char c div 16), hex_char (of_char c mod 16)])"

lemma encode_uri_Cons: "encode_uri_component (c # s) = uri_code c @ encode_uri_component s"
  by (simp add: encode_uri_component_def uri_code_def)

lemma uri_code_prefix_free:
  assumes "uri_code c @ r = uri_code d @ q"
  shows "c = d \<and> r = q"
proof (cases "uri_plain c"; cases "uri_plain d")
  assume np: "\<not> uri_plain c" "\<not> uri_plain d"
  have "(of_char c :: nat) div 16 = of_char d div 16" "(of_char c :: nat) mod 16 = of_char d mod 16"
    using assms np by (auto simp: uri_code_def high_nibble dest!: hex_char_inject[rotated 2])
  then have "(of_char c :: nat) = of_char d" by (metis div_mult_mod_eq)
  then show ?thesis using assms np by (auto simp: uri_code_def)
qed (use assms uri_plain_chars in \<open>auto simp: uri_code_def\<close>)

lemma encode_uri_Nil: "encode_uri_component [] = []" "encode_uri_component (c # s) \<noteq> []"
  by (simp_all add: encode_uri_component_def)

lemma encode_uri_inject: "encode_uri_component s = encode_uri_component t \<Longrightarrow> s = t"
proof (induction s arbitrary: t)
  case Nil
  then have "encode_uri_component t = []" by (simp add: encode_uri_Nil)
  then show ?case by (cases t) (simp_all add: encode_uri_Nil)
next
  case (Cons c s)
  then obtain d u where t: "t = d # u"
    by (cases t) (simp_all add: encode_uri_Nil)
  then show ?case using Cons uri_code_prefix_free[of c "encode_uri_component s" d "encode_uri_component u"]
    by (simp add: encode_uri_Cons)
qed

lemma encode_uri_no_colon: "CHR '':'' \<notin> set (encode_uri_component s)"
proof -
  have all: "\<forall>a \<in> set [0..<16]. hex_char a \<noteq> CHR '':''" by code_simp
  have hex: "CHR '':'' \<noteq> hex_char a" if "a < 16" for a
  proof -
    have "a \<in> set [0..<16]" using that by simp
    then show ?thesis using all by metis
  qed
  show ?thesis using uri_plain_chars hex high_nibble by (auto simp: encode_uri_component_def split: if_splits)
qed

lemma split_at_first: "c \<notin> set a \<Longrightarrow> c \<notin> set b \<Longrightarrow> a @ c # r = b @ c # q \<longleftrightarrow> a = b \<and> r = q"
  by (induction a arbitrary: b) (case_tac b; auto)+

lemma storage_key_inject:
  "denseDataViewStorageKey u w v = denseDataViewStorageKey u' w' v' \<longleftrightarrow> u = u' \<and> w = w' \<and> v = v'"
  using encode_uri_inject
  by (auto simp: denseDataViewStorageKey_def split_at_first encode_uri_no_colon)

text \<open>A saved view never leaks: what one operator saves for one table of one workspace is the first of that
  table's list, replaces the view with the same id, and leaves the list of every other operator, workspace and
  table as it was; where the storage refuses the write nothing changes.\<close>

theorem saved_views_stay_home:
  assumes "vs_readable s" "save = views_save (denseDataViewStorageKey u w v) now i name st s"
  shows "views_list (denseDataViewStorageKey u w v) (snd save) =
      (if vs_writable s then fst save # filter (\<lambda>x. sv_id x \<noteq> i) (views_list (denseDataViewStorageKey u w v) s)
       else views_list (denseDataViewStorageKey u w v) s) \<and>
    ((u', w', v') = (u, w, v) \<or>
     views_list (denseDataViewStorageKey u' w' v') (snd save) = views_list (denseDataViewStorageKey u' w' v') s)"
  using assms by (auto simp: views_save_def views_write_def views_list_def Let_def storage_key_inject
      List.map_filter_def comp_def)

definition empty_storage :: view_storage where
  "empty_storage = \<lparr>vs_items = [], vs_readable = True, vs_writable = True\<rparr>"

theorem saved_views_stay_home_witness:
  "map sv_name (views_list (denseDataViewStorageKey ''a:b'' ''c'' ''d'')
     (snd (views_save (denseDataViewStorageKey ''a:b'' ''c'' ''d'') ''now'' ''1'' '' Mine '' demo_view empty_storage))) = [''Mine''] \<and>
   views_list (denseDataViewStorageKey ''a'' ''b:c'' ''d'')
     (snd (views_save (denseDataViewStorageKey ''a:b'' ''c'' ''d'') ''now'' ''1'' '' Mine '' demo_view empty_storage)) = []"
proof -
  have r: "vs_readable empty_storage" and w: "vs_writable empty_storage" by (simp_all add: empty_storage_def)
  have e: "views_list k empty_storage = []" for k by (simp add: views_list_def empty_storage_def)
  have n: "sv_name (fst (views_save (denseDataViewStorageKey ''a:b'' ''c'' ''d'') ''now'' ''1'' '' Mine '' demo_view empty_storage)) = ''Mine''"
    by code_simp
  show ?thesis
    using saved_views_stay_home[OF r refl, of "''a:b''" "''c''" "''d''" "''now''" "''1''" "'' Mine ''" demo_view
        "''a''" "''b:c''" "''d''"] n
    by (simp add: e w)
qed

end
