(* ===== verification/Roster.thy ===== *)
theory Roster
  imports TournamentStore MatchIdentity
begin

text \<open>
  The lineup of a meet, under \<open>modules/meet\<close>: which positions are configured
  (\<open>roster/positionGrid/helpers.ts\<close>, \<open>lib/doubles.ts\<close>), how players are put into them
  (\<open>roster/positionGrid/useRankAssignment.ts\<close>), which positions the picker offers
  (\<open>roster/hooks/useRankValidation.ts\<close>), and what is wrong with a match
  (\<open>matches/validateMatch.ts\<close>). A hook reads the players it was rendered with and writes through
  \<open>updatePlayer\<close> of the tournament store: an operation is the list of its writes.
\<close>

section \<open>Positions\<close>

record roster_player =
  rp_id :: string
  rp_name :: string
  rp_groupId :: string
  rp_ranks :: "string list option"
  rp_partnerPlayerIds :: "(string, string) dict option"

definition isDoublesCode :: "string \<Rightarrow> bool" where
  "isDoublesCode code = (let stem = dropWhile is_digit (rev code) in stem \<noteq> [] \<and> hd stem = CHR ''D'')"

definition rankCapacity :: "string \<Rightarrow> int" where
  "rankCapacity rank = (if isDoublesCode rank then 2 else 1)"

definition DISCIPLINE_ORDER :: "string list" where
  "DISCIPLINE_ORDER = [''MD'', ''WD'', ''XD'', ''WS'', ''MS'']"

definition defaultEventOrder :: "(string, int) dict \<Rightarrow> string list" where
  "defaultEventOrder counts =
     (let configured = filter (\<lambda>ev. or_else (map_of counts ev) 0 > 0) (map fst counts)
      in filter (\<lambda>ev. ev \<in> set configured) DISCIPLINE_ORDER
         @ filter (\<lambda>ev. ev \<notin> set DISCIPLINE_ORDER) configured)"

definition MAX_POSITION_COUNT :: int where
  "MAX_POSITION_COUNT = 20"

definition safe_integer :: "int \<Rightarrow> bool" where
  "safe_integer n \<longleftrightarrow> \<bar>n\<bar> \<le> 9007199254740991"

definition configuredRankCount :: "(string, int) dict \<Rightarrow> string \<Rightarrow> int option" where
  "configuredRankCount counts division =
     (case map_of counts division of
        None \<Rightarrow> None
      | Some count \<Rightarrow> if safe_integer count \<and> count > 0 then Some (min count MAX_POSITION_COUNT) else None)"

definition configuredSlotPosition :: "string \<Rightarrow> string \<Rightarrow> (string, int) dict \<Rightarrow> int option" where
  "configuredSlotPosition rank division counts =
     (case configuredRankCount counts division of
        None \<Rightarrow> None
      | Some count \<Rightarrow>
          (let r = decomposeMeetEventRank (Some rank) (map fst counts)
           in case rk_position r of
                None \<Rightarrow> None
              | Some position \<Rightarrow>
                  if rk_event_code r \<noteq> division then None
                  else if safe_integer position \<and> position \<le> count then Some position else None))"

definition isConfiguredSlot :: "string \<Rightarrow> (string, int) dict \<Rightarrow> bool" where
  "isConfiguredSlot rank counts = list_ex (\<lambda>d. configuredSlotPosition rank d counts \<noteq> None) (map fst counts)"

definition isConfiguredBareDivision :: "string \<Rightarrow> (string, int) dict \<Rightarrow> bool" where
  "isConfiguredBareDivision rank counts \<longleftrightarrow>
     configuredRankCount counts rank \<noteq> None \<and> \<not> isConfiguredSlot rank counts"

section \<open>Assigning a rank\<close>

definition ranks_of :: "roster_player \<Rightarrow> string list" where
  "ranks_of p = or_else (rp_ranks p) []"

type_synonym rank_writes = "(string \<times> string list) list"

text \<open>The writes that take a singles rank from the other players of the school.\<close>

definition strip_others :: "roster_player list \<Rightarrow> string \<Rightarrow> roster_player \<Rightarrow> string \<Rightarrow> rank_writes" where
  "strip_others players schoolId player rank =
     (if isDoublesCode rank then []
      else map (\<lambda>p. (rp_id p, filter (\<lambda>r. r \<noteq> rank) (ranks_of p)))
        (filter (\<lambda>p. rp_id p \<noteq> rp_id player \<and> rp_groupId p = schoolId \<and> rank \<in> set (ranks_of p)) players))"

definition assignRank :: "roster_player list \<Rightarrow> string \<Rightarrow> string \<Rightarrow> string \<Rightarrow> rank_writes" where
  "assignRank players schoolId playerId rank =
     (case find (\<lambda>p. rp_id p = playerId) players of
        None \<Rightarrow> []
      | Some player \<Rightarrow>
          if rank \<in> set (ranks_of player) then []
          else strip_others players schoolId player rank @ [(rp_id player, ranks_of player @ [rank])])"

definition unassignRank :: "roster_player list \<Rightarrow> string \<Rightarrow> string \<Rightarrow> rank_writes" where
  "unassignRank players playerId rank =
     (case find (\<lambda>p. rp_id p = playerId) players of
        None \<Rightarrow> []
      | Some player \<Rightarrow> [(rp_id player, filter (\<lambda>r. r \<noteq> rank) (ranks_of player))])"

definition moveRank :: "roster_player list \<Rightarrow> string \<Rightarrow> string \<Rightarrow> string \<Rightarrow> string \<Rightarrow> rank_writes" where
  "moveRank players schoolId playerId fromRank toRank =
     (if fromRank = toRank then []
      else case find (\<lambda>p. rp_id p = playerId) players of
        None \<Rightarrow> []
      | Some player \<Rightarrow>
          (let kept = filter (\<lambda>r. r \<noteq> fromRank) (ranks_of player)
           in strip_others players schoolId player toRank
              @ [(rp_id player, if toRank \<in> set kept then kept else kept @ [toRank])]))"

section \<open>Seating division-only entrants\<close>

record seating =
  sg_occupancy :: "(string, int) dict"
  sg_occupiedPositions :: "(string, int list) dict"
  sg_nextRanks :: "(string, string list) dict"
  sg_processedPairs :: "string list"
  sg_seated :: int

definition divisions_of :: "(string, int) dict \<Rightarrow> string list" where
  "divisions_of counts = filter (\<lambda>d. configuredRankCount counts d \<noteq> None) (map fst counts)"

definition note_position ::
  "(string, int) dict \<Rightarrow> string \<Rightarrow> string \<Rightarrow> (string, int list) dict \<Rightarrow> (string, int list) dict" where
  "note_position counts rank division occ =
     (case configuredSlotPosition rank division counts of
        None \<Rightarrow> occ
      | Some position \<Rightarrow> AList.update division (List.insert position (or_else (map_of occ division) [])) occ)"

definition noteOccupiedPosition :: "(string, int) dict \<Rightarrow> string \<Rightarrow> seating \<Rightarrow> seating" where
  "noteOccupiedPosition counts rank st =
     st\<lparr>sg_occupiedPositions := fold (note_position counts rank) (divisions_of counts) (sg_occupiedPositions st)\<rparr>"

definition seat_occupancy :: "seating \<Rightarrow> string \<Rightarrow> int" where
  "seat_occupancy st rank = or_else (map_of (sg_occupancy st) rank) 0"

definition seat_increment :: "(string, int) dict \<Rightarrow> string \<Rightarrow> int \<Rightarrow> seating \<Rightarrow> seating" where
  "seat_increment counts rank places st =
     noteOccupiedPosition counts rank
       (st\<lparr>sg_occupancy := AList.update rank (seat_occupancy st rank + places) (sg_occupancy st)\<rparr>)"

definition count_player :: "(string, int) dict \<Rightarrow> roster_player \<Rightarrow> seating \<Rightarrow> seating" where
  "count_player counts p =
     fold (\<lambda>rank st. if isConfiguredSlot rank counts then seat_increment counts rank 1 st else st)
       (js_set (ranks_of p))"

definition seating_start :: "(string, int) dict \<Rightarrow> roster_player list \<Rightarrow> seating" where
  "seating_start counts schoolPlayers =
     fold (count_player counts) schoolPlayers
       \<lparr>sg_occupancy = [], sg_occupiedPositions = map (\<lambda>d. (d, [])) (divisions_of counts), sg_nextRanks = [],
        sg_processedPairs = [], sg_seated = 0\<rparr>"

definition planned :: "seating \<Rightarrow> roster_player \<Rightarrow> string list" where
  "planned st p = or_else (map_of (sg_nextRanks st) (rp_id p)) (ranks_of p)"

text \<open>\<open>next.splice(next.indexOf(division), 1, slot)\<close> where the division is there.\<close>

fun replace_first :: "string \<Rightarrow> string \<Rightarrow> string list \<Rightarrow> string list" where
  "replace_first a b [] = []"
| "replace_first a b (x # xs) = (if x = a then b # xs else x # replace_first a b xs)"

definition setSlot :: "roster_player \<Rightarrow> string \<Rightarrow> string \<Rightarrow> seating \<Rightarrow> seating" where
  "setSlot p division slot st =
     st\<lparr>sg_nextRanks := AList.update (rp_id p) (replace_first division slot (planned st p)) (sg_nextRanks st)\<rparr>"

definition slot_rank :: "string \<Rightarrow> int \<Rightarrow> string" where
  "slot_rank division position = division @ int_text position"

definition slot_free :: "seating \<Rightarrow> int \<Rightarrow> string \<Rightarrow> bool" where
  "slot_free st places rank \<longleftrightarrow> rankCapacity rank - seat_occupancy st rank \<ge> places"

definition findSlot :: "(string, int) dict \<Rightarrow> seating \<Rightarrow> string \<Rightarrow> int \<Rightarrow> string option" where
  "findSlot counts st division places =
     (case configuredRankCount counts division of
        None \<Rightarrow> None
      | Some count \<Rightarrow>
          (let maxPosition = min count (int (length (or_else (map_of (sg_occupiedPositions st) division) [])) + 1)
           in find (slot_free st places) (map (slot_rank division) [1..maxPosition])))"

definition partner_in :: "roster_player list \<Rightarrow> string \<Rightarrow> roster_player \<Rightarrow> roster_player option" where
  "partner_in schoolPlayers division p =
     (case Option.bind (rp_partnerPlayerIds p) (\<lambda>m. map_of m division) of
        None \<Rightarrow> None
      | Some partnerId \<Rightarrow> if partnerId = [] then None else find (\<lambda>x. rp_id x = partnerId) schoolPlayers)"

definition is_pair :: "string \<Rightarrow> roster_player \<Rightarrow> roster_player \<Rightarrow> bool" where
  "is_pair division p partner \<longleftrightarrow>
     Option.bind (rp_partnerPlayerIds partner) (\<lambda>m. map_of m division) = Some (rp_id p) \<and>
     division \<in> set (ranks_of partner) \<and> rankCapacity (division @ ''1'') = 2"

definition pair_key :: "roster_player \<Rightarrow> roster_player \<Rightarrow> string" where
  "pair_key p partner = join_with '':'' (sort [rp_id p, rp_id partner])"

definition seat_one :: "(string, int) dict \<Rightarrow> string \<Rightarrow> roster_player \<Rightarrow> seating \<Rightarrow> seating" where
  "seat_one counts division p st =
     (case findSlot counts st division 1 of
        None \<Rightarrow> st
      | Some slot \<Rightarrow>
          (seat_increment counts slot 1 (setSlot p division slot st))\<lparr>sg_seated := sg_seated st + 1\<rparr>)"

definition seat_pair ::
  "(string, int) dict \<Rightarrow> string \<Rightarrow> roster_player \<Rightarrow> roster_player \<Rightarrow> seating \<Rightarrow> seating" where
  "seat_pair counts division p partner st =
     (let k = pair_key p partner in
      if k \<in> set (sg_processedPairs st) then st
      else let st' = st\<lparr>sg_processedPairs := sg_processedPairs st @ [k]\<rparr>
           in case findSlot counts st' division 2 of
                None \<Rightarrow> st'
              | Some slot \<Rightarrow>
                  (seat_increment counts slot 2 (setSlot partner division slot (setSlot p division slot st')))
                    \<lparr>sg_seated := sg_seated st' + 2\<rparr>)"

definition seat_candidate ::
  "(string, int) dict \<Rightarrow> roster_player list \<Rightarrow> string \<Rightarrow> roster_player \<Rightarrow> seating \<Rightarrow> seating" where
  "seat_candidate counts schoolPlayers division p st =
     (if division \<notin> set (planned st p) then st
      else case partner_in schoolPlayers division p of
             Some partner \<Rightarrow>
               if is_pair division p partner then seat_pair counts division p partner st
               else seat_one counts division p st
           | None \<Rightarrow> seat_one counts division p st)"

definition seat_division ::
  "(string, int) dict \<Rightarrow> roster_player list \<Rightarrow> string \<Rightarrow> seating \<Rightarrow> seating" where
  "seat_division counts schoolPlayers division =
     fold (seat_candidate counts schoolPlayers division)
       (filter (\<lambda>p. division \<in> set (ranks_of p) \<and> isConfiguredBareDivision division counts) schoolPlayers)"

definition seat_all :: "(string, int) dict \<Rightarrow> roster_player list \<Rightarrow> seating" where
  "seat_all counts schoolPlayers =
     fold (seat_division counts schoolPlayers) (divisions_of counts) (seating_start counts schoolPlayers)"

definition seatUnslotted :: "(string, int) dict option \<Rightarrow> roster_player list \<Rightarrow> string \<Rightarrow> rank_writes \<times> int" where
  "seatUnslotted rankCounts players schoolId =
     (let counts = or_else rankCounts [];
          schoolPlayers = filter (\<lambda>p. rp_groupId p = schoolId) players;
          st = seat_all counts schoolPlayers
      in (List.map_filter (\<lambda>p. map_option (Pair (rp_id p)) (map_of (sg_nextRanks st) (rp_id p))) schoolPlayers,
          sg_seated st))"

section \<open>The writes\<close>

definition update_ranks :: "string \<Rightarrow> string list \<Rightarrow> roster_player list \<Rightarrow> roster_player list" where
  "update_ranks i ranks = map (\<lambda>p. if rp_id p = i then p\<lparr>rp_ranks := Some ranks\<rparr> else p)"

definition run_writes :: "rank_writes \<Rightarrow> roster_player list \<Rightarrow> roster_player list" where
  "run_writes ws ps = fold (\<lambda>(i, ranks). update_ranks i ranks) ws ps"

definition store_writes :: "rank_writes \<Rightarrow> tournament_state \<Rightarrow> tournament_state" where
  "store_writes ws s = fold (\<lambda>(i, ranks). updatePlayer i [(''ranks'', JArr (map JStr ranks))]) ws s"

text \<open>What the hooks read of a player of the store.\<close>

fun str_of :: "js_value \<Rightarrow> string" where
  "str_of (JStr s) = s"
| "str_of _ = []"

fun strings_of :: "js_value \<Rightarrow> string list option" where
  "strings_of (JArr xs) = Some (map str_of xs)"
| "strings_of _ = None"

fun string_map_of :: "js_value \<Rightarrow> (string, string) dict option" where
  "string_map_of (JObj kvs) = Some (map (map_prod (\<lambda>k. k) str_of) kvs)"
| "string_map_of _ = None"

definition read_player :: "js_object \<Rightarrow> roster_player" where
  "read_player p =
     \<lparr>rp_id = (case map_of p ''id'' of Some v \<Rightarrow> str_of v | None \<Rightarrow> []),
      rp_name = (case map_of p ''name'' of Some v \<Rightarrow> str_of v | None \<Rightarrow> []),
      rp_groupId = (case map_of p ''groupId'' of Some v \<Rightarrow> str_of v | None \<Rightarrow> []),
      rp_ranks = Option.bind (map_of p ''ranks'') strings_of,
      rp_partnerPlayerIds = Option.bind (map_of p ''partnerPlayerIds'') string_map_of\<rparr>"

section \<open>What the picker offers\<close>

record rank_option =
  ro_value :: string
  ro_label :: string
  ro_disabled :: bool
  ro_assignedTo :: "string option"

record rank_category =
  rc_label :: string
  rc_ranks :: "rank_option list"

definition getPlayersWithRank ::
  "roster_player list \<Rightarrow> string option \<Rightarrow> string option \<Rightarrow> string \<Rightarrow> roster_player list" where
  "getPlayersWithRank players schoolId currentPlayerId rank =
     (case schoolId of
        None \<Rightarrow> []
      | Some school \<Rightarrow>
          if school = [] then []
          else concat (map (\<lambda>p. map (\<lambda>_. p) (filter (\<lambda>r. r = rank) (ranks_of p)))
            (filter (\<lambda>p. rp_groupId p = school \<and> Some (rp_id p) \<noteq> currentPlayerId) players)))"

definition isRankAssigned :: "roster_player list \<Rightarrow> string option \<Rightarrow> string option \<Rightarrow> string \<Rightarrow> bool" where
  "isRankAssigned players schoolId cur rank \<longleftrightarrow> getPlayersWithRank players schoolId cur rank \<noteq> []"

definition isRankFull :: "roster_player list \<Rightarrow> string option \<Rightarrow> string option \<Rightarrow> string \<Rightarrow> bool" where
  "isRankFull players schoolId cur rank \<longleftrightarrow>
     int (length (getPlayersWithRank players schoolId cur rank)) \<ge> rankCapacity rank"

definition hasIncompletePair :: "roster_player list \<Rightarrow> string option \<Rightarrow> string option \<Rightarrow> string \<Rightarrow> bool" where
  "hasIncompletePair players schoolId cur rank \<longleftrightarrow>
     rankCapacity rank = 2 \<and> getPlayersWithRank players schoolId cur rank = []"

definition rank_option_of ::
  "roster_player list \<Rightarrow> string option \<Rightarrow> string option \<Rightarrow> string \<Rightarrow> int \<Rightarrow> rank_option" where
  "rank_option_of players schoolId cur rankKey i =
     (let rankValue = slot_rank rankKey i;
          assigned = getPlayersWithRank players schoolId cur rankValue
      in \<lparr>ro_value = rankValue,
          ro_label = (case map_of DISCIPLINE_NAMES rankKey of
              Some named \<Rightarrow> rankValue @ '' - '' @ named @ '' '' @ int_text i
            | None \<Rightarrow> rankValue),
          ro_disabled = (int (length assigned) \<ge> rankCapacity rankValue),
          ro_assignedTo = (if assigned = [] then None else Some (join_with '', '' (map rp_name assigned)))\<rparr>)"

definition availableRanks ::
  "(string, int) dict option \<Rightarrow> roster_player list \<Rightarrow> string option \<Rightarrow> string option \<Rightarrow>
   (string, rank_category) dict" where
  "availableRanks rankCounts players schoolId cur =
     (case (rankCounts, schoolId) of
        (Some counts, Some school) \<Rightarrow>
          if school = [] then []
          else List.map_filter (\<lambda>rankKey. map_option (\<lambda>count.
              (rankKey, \<lparr>rc_label = or_else (map_of DISCIPLINE_NAMES rankKey) rankKey,
                 rc_ranks = map (rank_option_of players schoolId cur rankKey) [1..count]\<rparr>))
              (configuredRankCount counts rankKey)) (map fst counts)
      | _ \<Rightarrow> [])"

definition getUnassignedRanks ::
  "(string, rank_category) dict \<Rightarrow> string list \<Rightarrow> (string, rank_category) dict" where
  "getUnassignedRanks available currentRanks =
     filter (\<lambda>(k, category). rc_ranks category \<noteq> [])
       (map (\<lambda>(k, category). (k, category\<lparr>rc_ranks :=
          filter (\<lambda>r. \<not> ro_disabled r \<or> ro_value r \<in> set currentRanks) (rc_ranks category)\<rparr>)) available)"

section \<open>What is wrong with a match\<close>

datatype issue_severity = IssueWarning | IssueError

record match_issue =
  mi_severity :: issue_severity
  mi_code :: string
  mi_message :: string

record roster_match =
  rm_eventRank :: "string option"
  rm_sideA :: "string list option"
  rm_sideB :: "string list option"

definition side_size_issue :: "string \<Rightarrow> int \<Rightarrow> string \<times> string list \<Rightarrow> match_issue list" where
  "side_size_issue rank expected side =
     (case side of (tag, ids) \<Rightarrow>
        if ids = [] then
          [\<lparr>mi_severity = IssueWarning, mi_code = ''empty-side-'' @ tag,
            mi_message = ''Side '' @ tag @ '' has no player'' @ (if expected > 1 then ''s'' else []) @ ''.''\<rparr>]
        else if int (length ids) < expected then
          [\<lparr>mi_severity = IssueWarning, mi_code = ''undersized-'' @ tag,
            mi_message = ''Side '' @ tag @ '' needs a partner: '' @ rank @ '' requires '' @ int_text expected @ ''.''\<rparr>]
        else if int (length ids) > expected then
          [\<lparr>mi_severity = IssueError, mi_code = ''oversized-'' @ tag,
            mi_message = ''Side '' @ tag @ '' has '' @ int_text (int (length ids)) @ '' players: '' @ rank
              @ '' allows '' @ int_text expected @ ''.''\<rparr>]
        else [])"

definition cross_side_issue :: "roster_player list \<Rightarrow> string list \<Rightarrow> string \<Rightarrow> match_issue list" where
  "cross_side_issue players onA i =
     (if i \<in> set onA then
        [\<lparr>mi_severity = IssueError, mi_code = ''cross-side-'' @ i,
          mi_message = (case find (\<lambda>p. rp_id p = i) (rev players) of Some p \<Rightarrow> rp_name p | None \<Rightarrow> ''A player'')
            @ '' is on both sides.''\<rparr>]
      else [])"

definition player_issue :: "roster_player list \<Rightarrow> string \<Rightarrow> string \<Rightarrow> string \<Rightarrow> match_issue list" where
  "player_issue players rank tag i =
     (case find (\<lambda>p. rp_id p = i) (rev players) of
        None \<Rightarrow>
          [\<lparr>mi_severity = IssueError, mi_code = ''unknown-'' @ i,
            mi_message = ''Side '' @ tag @ '' references an unknown player.''\<rparr>]
      | Some p \<Rightarrow>
          if rank \<noteq> [] \<and> rank \<notin> set (ranks_of p) then
            [\<lparr>mi_severity = IssueWarning, mi_code = ''stale-rank-'' @ i,
              mi_message = (if rp_name p = [] then ''(unnamed)'' else rp_name p) @ '' no longer holds '' @ rank
                @ '': reassign.''\<rparr>]
          else [])"

definition validateMatch :: "roster_match \<Rightarrow> roster_player list \<Rightarrow> match_issue list" where
  "validateMatch m players =
     (let rank = (case rm_eventRank m of Some r \<Rightarrow> trim r | None \<Rightarrow> []);
          expected = (if isDoublesCode rank then 2 else 1);
          sides = [(''A'', or_else (rm_sideA m) []), (''B'', or_else (rm_sideB m) [])]
      in (if rank \<noteq> [] then concat (map (side_size_issue rank expected) sides) else [])
         @ concat (map (cross_side_issue players (or_else (rm_sideA m) [])) (or_else (rm_sideB m) []))
         @ concat (map (\<lambda>(tag, ids). concat (map (player_issue players rank tag) ids)) sides))"

definition maxSeverity :: "match_issue list \<Rightarrow> issue_severity option" where
  "maxSeverity issues =
     (if issues = [] then None
      else if list_ex (\<lambda>i. mi_severity i = IssueError) issues then Some IssueError else Some IssueWarning)"

section \<open>What a list of writes does\<close>

definition apply_write :: "rank_writes \<Rightarrow> roster_player \<Rightarrow> roster_player" where
  "apply_write ws p = (case map_of ws (rp_id p) of Some ranks \<Rightarrow> p\<lparr>rp_ranks := Some ranks\<rparr> | None \<Rightarrow> p)"

lemma apply_write_fields [simp]:
  "rp_id (apply_write ws p) = rp_id p" "rp_groupId (apply_write ws p) = rp_groupId p"
  "ranks_of (apply_write ws p) = or_else (map_of ws (rp_id p)) (ranks_of p)"
  by (auto simp: apply_write_def ranks_of_def split: option.split)

lemma run_writes_map: "distinct (map fst ws) \<Longrightarrow> run_writes ws ps = map (apply_write ws) ps"
proof (induction ws arbitrary: ps)
  case Nil
  then show ?case by (simp add: run_writes_def apply_write_def)
next
  case (Cons w ws)
  obtain i ranks where w: "w = (i, ranks)" by (cases w)
  have "run_writes (w # ws) ps = map (apply_write ws) (update_ranks i ranks ps)"
    using Cons by (simp add: run_writes_def w)
  also have "\<dots> = map (apply_write (w # ws)) ps"
  proof -
    have "map_of ws i = None" using Cons.prems by (simp add: w map_of_eq_None_iff)
    then show ?thesis by (auto simp: update_ranks_def apply_write_def w split: option.splits)
  qed
  finally show ?case .
qed

text \<open>A singles position is held by at most one player of a school.\<close>

definition singles_position :: "(string, int) dict \<Rightarrow> string \<Rightarrow> bool" where
  "singles_position counts r \<longleftrightarrow> isConfiguredSlot r counts \<and> \<not> isDoublesCode r"

definition singles_held_once :: "(string, int) dict \<Rightarrow> roster_player list \<Rightarrow> bool" where
  "singles_held_once counts players \<longleftrightarrow>
     (\<forall>p \<in> set players. \<forall>q \<in> set players. \<forall>r \<in> set (ranks_of p).
        singles_position counts r \<and> rp_groupId p = rp_groupId q \<and> r \<in> set (ranks_of q) \<longrightarrow> rp_id p = rp_id q)"

lemma find_distinct:
  assumes "distinct (map rp_id players)" "p \<in> set players"
  shows "find (\<lambda>x. rp_id x = rp_id p) players = Some p"
  using assms by (induction players) auto

lemma strip_others_ids:
  assumes "distinct (map rp_id players)"
  shows "distinct (map fst (strip_others players schoolId player rank @ [(rp_id player, rs)]))"
proof -
  have "distinct (map rp_id (filter P players))" for P using assms by (simp add: distinct_map_filter)
  then show ?thesis by (auto simp: strip_others_def comp_def)
qed

text \<open>What assigning makes of every player's ranks.\<close>

lemma strip_lookup:
  assumes "distinct (map rp_id players)" "q \<in> set players" "rp_id q \<noteq> rp_id player"
  shows "or_else (map_of (strip_others players schoolId player rank @ [(rp_id player, rs)]) (rp_id q)) (ranks_of q) =
    (if \<not> isDoublesCode rank \<and> rp_groupId q = schoolId then filter (\<lambda>r. r \<noteq> rank) (ranks_of q) else ranks_of q)"
proof -
  let ?hit = "\<lambda>p. rp_id p \<noteq> rp_id player \<and> rp_groupId p = schoolId \<and> rank \<in> set (ranks_of p)"
  have "map_of (map (\<lambda>p. (rp_id p, filter (\<lambda>r. r \<noteq> rank) (ranks_of p))) (filter ?hit xs)) (rp_id q) =
      (if q \<in> set xs \<and> ?hit q then Some (filter (\<lambda>r. r \<noteq> rank) (ranks_of q)) else None)"
    if "set xs \<subseteq> set players" for xs
    using that
  proof (induction xs)
    case (Cons x xs)
    have "rp_id x = rp_id q \<longleftrightarrow> x = q"
      using Cons.prems assms(1,2) by (metis distinct_map inj_on_contraD list.set_intros(1) subsetD)
    then show ?case using Cons by auto
  qed simp
  from this[OF subset_refl] show ?thesis
    using assms(2,3) by (auto simp: strip_others_def map_add_def filter_id_conv intro: filter_True[symmetric])
qed

lemma strip_lookup_player:
  "map_of (strip_others players schoolId player rank @ [(rp_id player, rs)]) (rp_id player) = Some rs"
proof -
  have "map_of (strip_others players schoolId player rank) (rp_id player) = None"
    by (auto simp: strip_others_def map_of_eq_None_iff)
  then show ?thesis by (simp add: map_add_def)
qed

lemma singles_after_take:
  assumes once: "singles_held_once counts players" and d: "distinct (map rp_id players)" and pl: "player \<in> set players"
    and rs: "set rs \<subseteq> insert rank (set (ranks_of player))"
  shows "singles_held_once counts (map (apply_write
    (strip_others players (rp_groupId player) player rank @ [(rp_id player, rs)])) players)"
proof -
  let ?w = "apply_write (strip_others players (rp_groupId player) player rank @ [(rp_id player, rs)])"
  have same: "x = player" if "x \<in> set players" "rp_id x = rp_id player" for x
    using d pl that by (metis distinct_map inj_on_contraD)
  have ranks: "ranks_of (?w x) = (if rp_id x = rp_id player then rs
      else if \<not> isDoublesCode rank \<and> rp_groupId x = rp_groupId player then filter (\<lambda>r. r \<noteq> rank) (ranks_of x)
      else ranks_of x)" if "x \<in> set players" for x
    using strip_lookup[OF d that] strip_lookup_player by auto
  have old: "r \<in> set (ranks_of x)" if "x \<in> set players" "r \<in> set (ranks_of (?w x))" "r \<noteq> rank" for x r
    using that rs same[of x] ranks[of x] by (auto split: if_splits)
  have taken: "rp_id x = rp_id player \<or> rank \<in> set (ranks_of x) \<and> rp_groupId x \<noteq> rp_groupId player"
    if "x \<in> set players" "rank \<in> set (ranks_of (?w x))" "\<not> isDoublesCode rank" for x
    using that ranks[of x] by (auto split: if_splits)
  show ?thesis unfolding singles_held_once_def
  proof (clarsimp simp del: apply_write_fields(3) simp: apply_write_fields(1,2))
    fix p q r assume p: "p \<in> set players" and q: "q \<in> set players" and s: "singles_position counts r"
      and g: "rp_groupId p = rp_groupId q" and rp: "r \<in> set (ranks_of (?w p))" and rq: "r \<in> set (ranks_of (?w q))"
    show "rp_id p = rp_id q"
    proof (cases "r = rank")
      case True
      then have "\<not> isDoublesCode rank" using s by (simp add: singles_position_def)
      then show ?thesis using True taken[of p] taken[of q] p q s g rp rq same[of p] same[of q] once
        unfolding singles_held_once_def by metis
    next
      case False
      then show ?thesis using old p q rp rq s g once unfolding singles_held_once_def by metis
    qed
  qed
qed

lemma assign_once:
  assumes "singles_held_once counts players" "distinct (map rp_id players)" "player \<in> set players"
  shows "singles_held_once counts (run_writes (assignRank players (rp_groupId player) (rp_id player) rank) players)"
  using assms singles_after_take[OF assms, of "ranks_of player @ [rank]" rank]
  by (simp add: assignRank_def find_distinct run_writes_map[OF strip_others_ids] run_writes_def[of "[]"])

lemma move_once:
  assumes "singles_held_once counts players" "distinct (map rp_id players)" "player \<in> set players"
  shows "singles_held_once counts (run_writes (moveRank players (rp_groupId player) (rp_id player) from to) players)"
proof (cases "from = to")
  case False
  let ?kept = "filter (\<lambda>r. r \<noteq> from) (ranks_of player)"
  let ?rs = "if to \<in> set ?kept then ?kept else ?kept @ [to]"
  have "moveRank players (rp_groupId player) (rp_id player) from to =
      strip_others players (rp_groupId player) player to @ [(rp_id player, ?rs)]"
    using False find_distinct[OF assms(2,3)] by (simp add: moveRank_def Let_def)
  moreover have "set ?rs \<subseteq> insert to (set (ranks_of player))" by auto
  ultimately show ?thesis using singles_after_take[OF assms] by (simp only: run_writes_map[OF strip_others_ids[OF assms(2)]])
qed (use assms(1) in \<open>simp add: moveRank_def run_writes_def\<close>)

lemma singles_subset:
  assumes "singles_held_once counts players"
    "\<And>p. p \<in> set players \<Longrightarrow> rp_id (f p) = rp_id p \<and> rp_groupId (f p) = rp_groupId p \<and> set (ranks_of (f p)) \<subseteq> set (ranks_of p)"
  shows "singles_held_once counts (map f players)"
  using assms unfolding singles_held_once_def by (clarsimp simp: subset_iff) metis

lemma unassign_once:
  assumes "singles_held_once counts players" "distinct (map rp_id players)"
  shows "singles_held_once counts (run_writes (unassignRank players playerId rank) players)"
proof (cases "find (\<lambda>p. rp_id p = playerId) players")
  case (Some player)
  then have pl: "player \<in> set players" by (auto simp: find_Some_iff)
  have same: "x = player" if "x \<in> set players" "rp_id x = rp_id player" for x
    using assms(2) pl that by (metis distinct_map inj_on_contraD)
  show ?thesis
    using Some by (auto simp: unassignRank_def run_writes_map intro!: singles_subset[OF assms(1)] split: if_splits
        dest!: same)
qed (use assms(1) in \<open>simp add: unassignRank_def run_writes_def\<close>)

section \<open>Seating\<close>

text \<open>No code of the meet is another code followed by a position of it.\<close>

definition codes_apart :: "(string, int) dict \<Rightarrow> bool" where
  "codes_apart counts \<longleftrightarrow>
     list_all (\<lambda>d. list_all (\<lambda>i. configuredSlotPosition (slot_rank d i) d counts = Some i)
       [1..or_else (configuredRankCount counts d) 0]) (divisions_of counts)"

lemma apart_position:
  assumes "codes_apart counts" "configuredRankCount counts d = Some n" "1 \<le> i" "i \<le> n"
  shows "configuredSlotPosition (slot_rank d i) d counts = Some i" "isConfiguredSlot (slot_rank d i) counts"
proof -
  have d: "d \<in> set (divisions_of counts)"
    using assms(2) by (auto simp: divisions_of_def configuredRankCount_def dest: map_of_SomeD split: option.splits)
      (metis fst_conv image_eqI map_of_SomeD)
  then show pos: "configuredSlotPosition (slot_rank d i) d counts = Some i"
    using assms by (auto simp: codes_apart_def list_all_iff)
  show "isConfiguredSlot (slot_rank d i) counts"
    using d pos by (auto simp: isConfiguredSlot_def list_ex_iff divisions_of_def)
qed

lemma seat_increment_simps [simp]:
  "seat_occupancy (seat_increment counts rank n st) r = seat_occupancy st r + (if r = rank then n else 0)"
  "planned (seat_increment counts rank n st) = planned st"
  "sg_nextRanks (seat_increment counts rank n st) = sg_nextRanks st"
  by (auto simp: seat_increment_def seat_occupancy_def noteOccupiedPosition_def planned_def fun_eq_iff)

lemma setSlot_simps [simp]:
  "seat_occupancy (setSlot p d slot st) r = seat_occupancy st r"
  "planned (setSlot p d slot st) q = (if rp_id q = rp_id p then replace_first d slot (planned st p) else planned st q)"
  by (auto simp: setSlot_def seat_occupancy_def planned_def)

lemma seating_update_simps [simp]:
  "seat_occupancy (st\<lparr>sg_seated := n\<rparr>) = seat_occupancy st" "planned (st\<lparr>sg_seated := n\<rparr>) = planned st"
  "seat_occupancy (st\<lparr>sg_processedPairs := ks\<rparr>) = seat_occupancy st" "planned (st\<lparr>sg_processedPairs := ks\<rparr>) = planned st"
  by (simp_all add: seat_occupancy_def planned_def fun_eq_iff)

lemma set_replace_first: "set (replace_first a b xs) \<subseteq> insert b (set xs)"
  by (induction xs) auto

lemma find_in: "find P xs = Some x \<Longrightarrow> x \<in> set xs \<and> P x"
  by (auto simp: find_Some_iff)

lemma findSlot_Some:
  assumes "findSlot counts st d places = Some slot"
  shows "\<exists>n i. configuredRankCount counts d = Some n \<and> 1 \<le> i \<and> i \<le> n \<and> slot = slot_rank d i \<and> slot_free st places slot"
  using assms by (auto simp: findSlot_def Let_def split: option.splits dest!: find_in) blast

definition holders :: "seating \<Rightarrow> roster_player list \<Rightarrow> string \<Rightarrow> roster_player set" where
  "holders st school r = {p \<in> set school. r \<in> set (planned st p)}"

lemma holders_setSlot:
  assumes "distinct (map rp_id school)" "p \<in> set school"
  shows "holders (setSlot p d slot st) school r \<subseteq> (if r = slot then insert p (holders st school r) else holders st school r)"
proof
  fix x assume x: "x \<in> holders (setSlot p d slot st) school r"
  have "rp_id x = rp_id p \<Longrightarrow> x = p" using assms x by (metis (mono_tags) distinct_map holders_def inj_on_contraD mem_Collect_eq)
  then show "x \<in> (if r = slot then insert p (holders st school r) else holders st school r)"
    using x set_replace_first[of d slot "planned st p"] by (auto simp: holders_def split: if_splits)
qed

text \<open>What the seating knows at every step: the occupancy of a configured position is at least the number of
  players who hold it, at most the capacity or what it was; nobody comes to hold anything else.\<close>

definition seating_ok :: "(string, int) dict \<Rightarrow> roster_player list \<Rightarrow> seating \<Rightarrow> bool" where
  "seating_ok counts school st \<longleftrightarrow>
     (\<forall>r. if isConfiguredSlot r counts
          then int (card (holders st school r)) \<le> seat_occupancy st r \<and>
               seat_occupancy st r \<le> max (int (card {p \<in> set school. r \<in> set (ranks_of p)})) (rankCapacity r)
          else holders st school r \<subseteq> {p \<in> set school. r \<in> set (ranks_of p)})"

lemma seating_ok_step:
  assumes ok: "seating_ok counts school st" and slot: "isConfiguredSlot slot counts" "slot_free st places slot"
    and occ: "\<And>r. seat_occupancy st' r = seat_occupancy st r + (if r = slot then places else 0)"
    and hold: "\<And>r. holders st' school r \<subseteq> (if r = slot then new \<union> holders st school r else holders st school r)"
    and new: "finite new" "int (card new) \<le> places"
  shows "seating_ok counts school st'"
  unfolding seating_ok_def
proof
  fix r
  have fin: "finite (holders st school r)" by (simp add: holders_def)
  have grow: "int (card (holders st' school r)) \<le> int (card (holders st school r)) + (if r = slot then places else 0)"
  proof (cases "r = slot")
    case True
    then have "card (holders st' school r) \<le> card (new \<union> holders st school r)"
      using hold[of r] fin new by (intro card_mono) auto
    also have "\<dots> \<le> card new + card (holders st school r)" by (rule card_Un_le)
    finally show ?thesis using True new by simp
  next
    case False
    then have "card (holders st' school r) \<le> card (holders st school r)"
      using hold[of r] fin by (intro card_mono) auto
    then show ?thesis using False by simp
  qed
  show "if isConfiguredSlot r counts
      then int (card (holders st' school r)) \<le> seat_occupancy st' r \<and>
           seat_occupancy st' r \<le> max (int (card {p \<in> set school. r \<in> set (ranks_of p)})) (rankCapacity r)
      else holders st' school r \<subseteq> {p \<in> set school. r \<in> set (ranks_of p)}"
    using ok slot hold[of r] grow occ[of r] unfolding seating_ok_def slot_free_def
    by (cases "r = slot") (auto split: if_splits dest!: spec[of _ r])
qed

lemma seat_one_ok:
  assumes "codes_apart counts" "distinct (map rp_id school)" "p \<in> set school" "seating_ok counts school st"
  shows "seating_ok counts school (seat_one counts d p st)"
proof (cases "findSlot counts st d 1")
  case (Some slot)
  then obtain n i where c: "configuredRankCount counts d = Some n" "1 \<le> i" "i \<le> n" "slot = slot_rank d i" "slot_free st 1 slot"
    using findSlot_Some by blast
  let ?st' = "seat_one counts d p st"
  have eq: "holders ?st' school r = holders (setSlot p d slot st) school r" for r
    using Some by (simp add: seat_one_def holders_def)
  show ?thesis
  proof (rule seating_ok_step[OF assms(4)])
    show "isConfiguredSlot slot counts" using apart_position(2)[OF assms(1)] c by simp
    show "seat_occupancy ?st' r = seat_occupancy st r + (if r = slot then 1 else 0)" for r
      using Some by (simp add: seat_one_def)
    show "holders ?st' school r \<subseteq> (if r = slot then {p} \<union> holders st school r else holders st school r)" for r
      unfolding eq using holders_setSlot[OF assms(2,3), of d slot st r] by (simp split: if_splits)
  qed (use c in simp_all)
qed (use assms(4) in \<open>simp add: seat_one_def\<close>)

lemma seat_pair_ok:
  assumes "codes_apart counts" "distinct (map rp_id school)" "p \<in> set school" "q \<in> set school" "seating_ok counts school st"
  shows "seating_ok counts school (seat_pair counts d p q st)"
proof -
  let ?st1 = "st\<lparr>sg_processedPairs := sg_processedPairs st @ [pair_key p q]\<rparr>"
  have hold1: "holders ?st1 school r = holders st school r" for r by (simp add: holders_def)
  have ok1: "seating_ok counts school ?st1" using assms(5) by (simp add: seating_ok_def hold1)
  show ?thesis
  proof (cases "pair_key p q \<in> set (sg_processedPairs st) \<or> findSlot counts ?st1 d 2 = None")
    case True
    then show ?thesis using assms(5) ok1 by (auto simp: seat_pair_def Let_def)
  next
    case False
    then obtain slot where s: "findSlot counts ?st1 d 2 = Some slot" by auto
    then obtain n i where c: "configuredRankCount counts d = Some n" "1 \<le> i" "i \<le> n" "slot = slot_rank d i"
      "slot_free ?st1 2 slot"
      using findSlot_Some by blast
    let ?st' = "seat_pair counts d p q st"
    have eq: "holders ?st' school r = holders (setSlot q d slot (setSlot p d slot ?st1)) school r" for r
      using False s by (simp add: seat_pair_def Let_def holders_def)
    show ?thesis
    proof (rule seating_ok_step[OF ok1])
      show "isConfiguredSlot slot counts" using apart_position(2)[OF assms(1)] c by simp
      show "seat_occupancy ?st' r = seat_occupancy ?st1 r + (if r = slot then 2 else 0)" for r
        using False s by (simp add: seat_pair_def Let_def)
      show "holders ?st' school r \<subseteq> (if r = slot then {p, q} \<union> holders ?st1 school r else holders ?st1 school r)" for r
        unfolding eq
        using holders_setSlot[OF assms(2,3), of d slot ?st1 r] holders_setSlot[OF assms(2,4), of d slot "setSlot p d slot ?st1" r]
        by (cases "r = slot") auto
      show "int (card {p, q}) \<le> 2" by (cases "p = q") auto
    qed (use c in simp_all)
  qed
qed

lemma seat_candidate_ok:
  assumes "codes_apart counts" "distinct (map rp_id school)" "p \<in> set school" "seating_ok counts school st"
  shows "seating_ok counts school (seat_candidate counts school d p st)"
proof -
  have "partner_in school d p = Some q \<Longrightarrow> q \<in> set school" for q
    by (auto simp: partner_in_def split: option.splits if_splits dest!: find_in)
  then show ?thesis
    using seat_one_ok[OF assms] seat_pair_ok[OF assms(1,2,3) _ assms(4)] assms(4)
    by (auto simp: seat_candidate_def split: option.split)
qed

lemma fold_keeps: "(\<And>x s. x \<in> set xs \<Longrightarrow> P s \<Longrightarrow> P (f x s)) \<Longrightarrow> P s \<Longrightarrow> P (fold f xs s)"
  by (induction xs arbitrary: s) auto

lemma distinct_js_set: "distinct (js_set xs)"
  by (simp add: js_set_def)

lemma count_player_simps:
  "seat_occupancy (count_player counts p st) r =
     seat_occupancy st r + (if isConfiguredSlot r counts \<and> r \<in> set (ranks_of p) then 1 else 0)"
  "sg_nextRanks (count_player counts p st) = sg_nextRanks st"
proof -
  let ?f = "\<lambda>rank st. if isConfiguredSlot rank counts then seat_increment counts rank 1 st else st"
  have "distinct rs \<Longrightarrow> seat_occupancy (fold ?f rs st) r =
      seat_occupancy st r + (if isConfiguredSlot r counts \<and> r \<in> set rs then 1 else 0)" for rs st
    by (induction rs arbitrary: st) auto
  then show "seat_occupancy (count_player counts p st) r =
      seat_occupancy st r + (if isConfiguredSlot r counts \<and> r \<in> set (ranks_of p) then 1 else 0)"
    using distinct_js_set[of "ranks_of p"] by (simp add: count_player_def)
  have "sg_nextRanks (fold ?f rs st) = sg_nextRanks st" for rs st by (induction rs arbitrary: st) auto
  then show "sg_nextRanks (count_player counts p st) = sg_nextRanks st" by (simp add: count_player_def)
qed

lemma seating_start_simps:
  "seat_occupancy (seating_start counts school) r =
     (if isConfiguredSlot r counts then int (length (filter (\<lambda>p. r \<in> set (ranks_of p)) school)) else 0)"
  "planned (seating_start counts school) p = ranks_of p"
proof -
  have "seat_occupancy (fold (count_player counts) ps st) r = seat_occupancy st r +
      (if isConfiguredSlot r counts then int (length (filter (\<lambda>p. r \<in> set (ranks_of p)) ps)) else 0)" for ps st
    by (induction ps arbitrary: st) (auto simp: count_player_simps)
  then show "seat_occupancy (seating_start counts school) r =
      (if isConfiguredSlot r counts then int (length (filter (\<lambda>p. r \<in> set (ranks_of p)) school)) else 0)"
    by (simp add: seating_start_def seat_occupancy_def)
  have "sg_nextRanks (fold (count_player counts) ps st) = sg_nextRanks st" for ps st
    by (induction ps arbitrary: st) (auto simp: count_player_simps)
  then show "planned (seating_start counts school) p = ranks_of p" by (simp add: seating_start_def planned_def)
qed

lemma seating_start_ok:
  assumes "distinct (map rp_id school)"
  shows "seating_ok counts school (seating_start counts school)"
proof -
  have "card {p \<in> set school. r \<in> set (ranks_of p)} = length (filter (\<lambda>p. r \<in> set (ranks_of p)) school)" for r
    using distinct_card[of "filter (\<lambda>p. r \<in> set (ranks_of p)) school"] assms by (simp add: distinct_map)
  then show ?thesis unfolding seating_ok_def seating_start_simps holders_def by simp
qed

lemma seat_all_ok:
  assumes "codes_apart counts" "distinct (map rp_id school)"
  shows "seating_ok counts school (seat_all counts school)"
  unfolding seat_all_def
proof (rule fold_keeps)
  show "seating_ok counts school (seat_division counts school d st)" if "seating_ok counts school st" for d st
    unfolding seat_division_def
    by (rule fold_keeps[of _ "seating_ok counts school"]) (use seat_candidate_ok[OF assms] that in auto)
qed (rule seating_start_ok[OF assms(2)])

section \<open>The writes of a seating\<close>

lemma seat_write_ids:
  assumes "distinct (map rp_id players)"
  shows "distinct (map fst (fst (seatUnslotted counts players schoolId)))"
proof -
  have "distinct (map rp_id xs) \<Longrightarrow> distinct (map fst (List.map_filter (\<lambda>p. map_option (Pair (rp_id p)) (g p)) xs))" for xs and g :: "roster_player \<Rightarrow> string list option"
    by (induction xs) (auto simp: List.map_filter_def split: option.split)
  then show ?thesis using assms by (simp add: seatUnslotted_def Let_def distinct_map_filter)
qed

lemma seated_ranks:
  assumes "distinct (map rp_id players)" "p \<in> set players"
  shows "ranks_of (apply_write (fst (seatUnslotted counts players schoolId)) p) =
    (if rp_groupId p = schoolId
     then planned (seat_all (or_else counts []) (filter (\<lambda>p. rp_groupId p = schoolId) players)) p else ranks_of p)"
proof -
  let ?school = "filter (\<lambda>p. rp_groupId p = schoolId) players"
  let ?next = "\<lambda>p. map_of (sg_nextRanks (seat_all (or_else counts []) ?school)) (rp_id p)"
  have "map_of (List.map_filter (\<lambda>p. map_option (Pair (rp_id p)) (?next p)) xs) (rp_id p) =
      (if p \<in> set xs then ?next p else None)" if "set xs \<subseteq> set players" for xs
    using that
  proof (induction xs)
    case (Cons x xs)
    have "rp_id x = rp_id p \<longleftrightarrow> x = p"
      using Cons.prems assms by (metis distinct_map inj_on_contraD list.set_intros(1) subsetD)
    then show ?case using Cons by (auto simp: map_filter_simps split: option.split)
  qed (simp add: map_filter_simps)
  from this[of ?school] show ?thesis
    using assms(2) by (auto simp: seatUnslotted_def Let_def planned_def)
qed

section \<open>Through the store\<close>

definition players_of :: "tournament_state \<Rightarrow> roster_player list" where
  "players_of s = map read_player (tn_players s)"

definition identified :: "tournament_state \<Rightarrow> bool" where
  "identified s \<longleftrightarrow> (\<forall>p \<in> set (tn_players s). \<exists>i. has_id i p) \<and> distinct (map rp_id (players_of s))"

lemma read_written:
  "read_player (spread p [(''ranks'', JArr (map JStr ranks))]) = (read_player p)\<lparr>rp_ranks := Some ranks\<rparr>"
proof -
  have "map_of (spread p [(''ranks'', v)]) k = (if k = ''ranks'' then Some v else map_of p k)" for k v
    by (simp add: map_of_spread)
  then show ?thesis by (simp add: read_player_def comp_def)
qed

lemma has_id_read: "has_id j p \<Longrightarrow> has_id i p \<longleftrightarrow> rp_id (read_player p) = i"
  by (simp add: has_id_def read_player_def)

lemma has_id_written: "has_id i (spread p [(''ranks'', v)]) = has_id i p"
  by (simp add: has_id_def map_of_spread)

text \<open>A list of writes to the store is the list of writes to the players it holds.\<close>

lemma players_of_update:
  assumes "\<forall>p \<in> set (tn_players s). \<exists>i. has_id i p"
  shows "players_of (updatePlayer i [(''ranks'', JArr (map JStr ranks))] s) = update_ranks i ranks (players_of s)"
    "\<forall>p \<in> set (tn_players (updatePlayer i [(''ranks'', JArr (map JStr ranks))] s)). \<exists>i. has_id i p"
  using assms
  by (auto simp: players_of_def updatePlayer_def update_by_id_def update_ranks_def read_written has_id_read has_id_written)

lemma players_of_writes:
  assumes "\<forall>p \<in> set (tn_players s). \<exists>i. has_id i p"
  shows "players_of (store_writes ws s) = run_writes ws (players_of s) \<and>
    (\<forall>p \<in> set (tn_players (store_writes ws s)). \<exists>i. has_id i p)"
  using assms
proof (induction ws arbitrary: s)
  case (Cons w ws)
  obtain i ranks where w: "w = (i, ranks)" by (cases w)
  show ?case using Cons.IH[OF players_of_update(2)[OF Cons.prems, of i ranks]] players_of_update(1)[OF Cons.prems]
    by (simp add: store_writes_def run_writes_def w)
qed (simp add: store_writes_def run_writes_def)

lemma run_writes_ids: "map rp_id (run_writes ws ps) = map rp_id ps"
  by (induction ws arbitrary: ps) (auto simp: run_writes_def update_ranks_def)

lemma identified_writes: "identified s \<Longrightarrow> identified (store_writes ws s)"
  using players_of_writes[of s ws] by (simp add: identified_def run_writes_ids)

text \<open>The presses of the roster: a player is put into a position, taken out, moved, or the unslotted of a
  school are seated.\<close>

inductive lineup_step :: "(string, int) dict option \<Rightarrow> tournament_state \<Rightarrow> tournament_state \<Rightarrow> bool" for counts where
  assign: "player \<in> set (players_of s) \<Longrightarrow>
     lineup_step counts s (store_writes (assignRank (players_of s) (rp_groupId player) (rp_id player) rank) s)"
| unassign: "lineup_step counts s (store_writes (unassignRank (players_of s) playerId rank) s)"
| move: "player \<in> set (players_of s) \<Longrightarrow>
     lineup_step counts s (store_writes (moveRank (players_of s) (rp_groupId player) (rp_id player) source target) s)"
| seat: "lineup_step counts s (store_writes (fst (seatUnslotted counts (players_of s) schoolId)) s)"

lemma seat_holders:
  assumes "codes_apart (or_else counts [])" "distinct (map rp_id players)"
    and "after = run_writes (fst (seatUnslotted counts players schoolId)) players"
  shows "int (card {p \<in> set after. rp_groupId p = schoolId \<and> r \<in> set (ranks_of p)}) \<le>
    max (int (card {p \<in> set players. rp_groupId p = schoolId \<and> r \<in> set (ranks_of p)})) (rankCapacity r)"
proof -
  let ?school = "filter (\<lambda>p. rp_groupId p = schoolId) players"
  let ?st = "seat_all (or_else counts []) ?school"
  let ?w = "apply_write (fst (seatUnslotted counts players schoolId))"
  have d: "distinct (map rp_id ?school)" using assms(2) by (simp add: distinct_map_filter)
  have after: "after = map ?w players" using assms by (simp add: run_writes_map seat_write_ids)
  have sub: "{p \<in> set after. rp_groupId p = schoolId \<and> r \<in> set (ranks_of p)} \<subseteq> ?w ` holders ?st ?school r"
    using seated_ranks[OF assms(2)] by (auto simp: after holders_def)
  have fin: "finite (holders ?st ?school r)" by (simp add: holders_def)
  have "card {p \<in> set after. rp_groupId p = schoolId \<and> r \<in> set (ranks_of p)} \<le> card (holders ?st ?school r)"
    using card_mono[OF finite_imageI[OF fin] sub] card_image_le[OF fin, of ?w] by (rule order_trans)
  moreover have "int (card (holders ?st ?school r)) \<le> max (int (card {p \<in> set ?school. r \<in> set (ranks_of p)})) (rankCapacity r)"
  proof (cases "isConfiguredSlot r (or_else counts [])")
    case True
    then show ?thesis using seat_all_ok[OF assms(1) d] unfolding seating_ok_def by (auto dest!: spec[of _ r])
  next
    case False
    then have "holders ?st ?school r \<subseteq> {p \<in> set ?school. r \<in> set (ranks_of p)}"
      using seat_all_ok[OF assms(1) d] unfolding seating_ok_def by (auto dest!: spec[of _ r])
    then have "card (holders ?st ?school r) \<le> card {p \<in> set ?school. r \<in> set (ranks_of p)}" by (intro card_mono) auto
    then show ?thesis by simp
  qed
  moreover have "{p \<in> set ?school. r \<in> set (ranks_of p)} = {p \<in> set players. rp_groupId p = schoolId \<and> r \<in> set (ranks_of p)}"
    by auto
  ultimately show ?thesis by simp
qed

lemma seat_once:
  assumes "codes_apart (or_else counts [])" "distinct (map rp_id players)" "singles_held_once (or_else counts []) players"
  shows "singles_held_once (or_else counts []) (run_writes (fst (seatUnslotted counts players schoolId)) players)"
proof -
  let ?w = "apply_write (fst (seatUnslotted counts players schoolId))"
  let ?after = "run_writes (fst (seatUnslotted counts players schoolId)) players"
  have after: "?after = map ?w players" using assms by (simp add: run_writes_map seat_write_ids)
  have "rp_id p = rp_id q" if p: "p \<in> set players" and q: "q \<in> set players" and r: "singles_position (or_else counts []) r"
    and g: "rp_groupId p = rp_groupId q" and h: "r \<in> set (ranks_of (?w p))" "r \<in> set (ranks_of (?w q))" for p q r
  proof (cases "rp_groupId p = schoolId")
    case True
    let ?held = "\<lambda>xs. {x \<in> set xs. rp_groupId x = schoolId \<and> r \<in> set (ranks_of x)}"
    have "card (?held players) \<le> 1"
    proof (rule card_le_Suc0_iff_eq[THEN iffD2, of _, simplified One_nat_def[symmetric]])
      show "\<forall>x \<in> ?held players. \<forall>y \<in> ?held players. x = y"
        using assms(2,3) r unfolding singles_held_once_def by (auto simp: distinct_map inj_on_def) 
    qed simp
    then have "int (card (?held ?after)) \<le> 1"
      using seat_holders[OF assms(1,2) refl, of schoolId r] r by (simp add: rankCapacity_def singles_position_def)
    moreover have "?w x \<in> set ?after" if "x \<in> set players" for x using that unfolding after by simp
    then have "?w p \<in> ?held ?after" "?w q \<in> ?held ?after" using p q g True h by auto
    ultimately have "?w p = ?w q" by (metis (no_types, lifting) One_nat_def card_le_Suc0_iff_eq finite_set
        int_ops(2) of_nat_le_iff rev_finite_subset mem_Collect_eq subsetI)
    then show ?thesis by (metis apply_write_fields(1))
  next
    case False
    then have "r \<in> set (ranks_of p)" "r \<in> set (ranks_of q)" using h g seated_ranks[OF assms(2)] p q by auto
    then show ?thesis using assms(3) p q r g unfolding singles_held_once_def by blast
  qed
  then show ?thesis unfolding after singles_held_once_def by auto
qed

section \<open>The search for a free position\<close>

text \<open>Every configured position with an occupant is noted as occupied.\<close>

definition occupants_noted :: "(string, int) dict \<Rightarrow> seating \<Rightarrow> bool" where
  "occupants_noted counts st \<longleftrightarrow>
     (\<forall>d n i. configuredRankCount counts d = Some n \<and> 1 \<le> i \<and> i \<le> n \<and> seat_occupancy st (slot_rank d i) > 0 \<longrightarrow>
        i \<in> set (or_else (map_of (sg_occupiedPositions st) d) []))"

lemma note_position_grows:
  "set (or_else (map_of occ d) []) \<subseteq> set (or_else (map_of (note_position counts rank e occ) d) [])"
  by (auto simp: note_position_def split: option.split)

lemma note_fold_grows:
  "set (or_else (map_of occ d) []) \<subseteq> set (or_else (map_of (fold (note_position counts rank) ds occ) d) [])"
proof (induction ds arbitrary: occ)
  case (Cons e ds)
  show ?case using note_position_grows[of occ d counts rank e] Cons[of "note_position counts rank e occ"] by auto
qed simp

lemma note_fold_adds:
  "d \<in> set ds \<Longrightarrow> configuredSlotPosition rank d counts = Some i \<Longrightarrow>
   i \<in> set (or_else (map_of (fold (note_position counts rank) ds occ) d) [])"
proof (induction ds arbitrary: occ)
  case (Cons e ds)
  show ?case
  proof (cases "e = d")
    case True
    then have "i \<in> set (or_else (map_of (note_position counts rank e occ) d) [])"
      using Cons.prems by (simp add: note_position_def)
    then show ?thesis using note_fold_grows[of "note_position counts rank e occ" d counts rank ds] by auto
  next
    case False
    then show ?thesis using Cons by simp
  qed
qed simp

lemma divisions_mem: "configuredRankCount counts d = Some n \<Longrightarrow> d \<in> set (divisions_of counts)"
  by (auto simp: divisions_of_def configuredRankCount_def dest: map_of_SomeD split: option.splits)
    (metis fst_conv image_eqI map_of_SomeD)

lemma increment_noted:
  assumes "codes_apart counts" "occupants_noted counts st"
  shows "occupants_noted counts (seat_increment counts rank n st)"
  unfolding occupants_noted_def
proof (intro allI impI, elim conjE)
  fix d m i assume c: "configuredRankCount counts d = Some m" "1 \<le> i" "i \<le> m"
    and o: "seat_occupancy (seat_increment counts rank n st) (slot_rank d i) > 0"
  have occ: "sg_occupiedPositions (seat_increment counts rank n st) =
      fold (note_position counts rank) (divisions_of counts) (sg_occupiedPositions st)"
    by (simp add: seat_increment_def noteOccupiedPosition_def)
  show "i \<in> set (or_else (map_of (sg_occupiedPositions (seat_increment counts rank n st)) d) [])"
  proof (cases "slot_rank d i = rank")
    case True
    then have "configuredSlotPosition rank d counts = Some i" using apart_position(1)[OF assms(1) c] by simp
    then show ?thesis unfolding occ using divisions_mem[OF c(1)] by (rule note_fold_adds[rotated])
  next
    case False
    then have "i \<in> set (or_else (map_of (sg_occupiedPositions st) d) [])"
      using assms(2) c o unfolding occupants_noted_def by auto
    then show ?thesis unfolding occ using note_fold_grows by blast
  qed
qed

lemma noted_same:
  "occupants_noted counts st \<Longrightarrow> seat_occupancy st' = seat_occupancy st \<Longrightarrow>
   sg_occupiedPositions st' = sg_occupiedPositions st \<Longrightarrow> occupants_noted counts st'"
  by (simp add: occupants_noted_def)

lemma seat_candidate_noted:
  assumes "codes_apart counts" "occupants_noted counts st"
  shows "occupants_noted counts (seat_candidate counts school d p st)"
proof -
  have slot: "occupants_noted counts (setSlot q e slot s)" if "occupants_noted counts s" for q e slot s
    by (rule noted_same[OF that]) (simp_all add: fun_eq_iff setSlot_def seat_occupancy_def)
  have upd: "occupants_noted counts (s\<lparr>sg_seated := k\<rparr>)" "occupants_noted counts (s\<lparr>sg_processedPairs := ks\<rparr>)"
    if "occupants_noted counts s" for s k ks
    by (rule noted_same[OF that]; simp)+
  show ?thesis
    using assms by (auto simp: seat_candidate_def seat_one_def seat_pair_def Let_def split: option.split
        intro!: upd increment_noted slot)
qed

lemma seating_start_noted:
  assumes "codes_apart counts"
  shows "occupants_noted counts (seating_start counts school)"
  unfolding seating_start_def
proof (rule fold_keeps)
  show "occupants_noted counts (count_player counts p st)" if "occupants_noted counts st" for p st
    unfolding count_player_def
    by (rule fold_keeps[of _ "occupants_noted counts"]) (use increment_noted[OF assms] that in auto)
qed (simp add: occupants_noted_def seat_occupancy_def)

text \<open>The states in which the search is made.\<close>

inductive seat_reach :: "(string, int) dict \<Rightarrow> roster_player list \<Rightarrow> seating \<Rightarrow> bool" for counts school where
  start: "seat_reach counts school (seating_start counts school)"
| candidate: "seat_reach counts school st \<Longrightarrow> p \<in> set school \<Longrightarrow> seat_reach counts school (seat_candidate counts school d p st)"

lemma seat_all_reached: "seat_reach counts school (seat_all counts school)"
  unfolding seat_all_def
proof (rule fold_keeps)
  show "seat_reach counts school (seat_division counts school d st)" if "seat_reach counts school st" for d st
    unfolding seat_division_def
    by (rule fold_keeps[of _ "seat_reach counts school"]) (use that in \<open>auto intro: seat_reach.candidate\<close>)
qed (rule seat_reach.start)

lemma find_append_Some: "find P xs = Some x \<Longrightarrow> find P (xs @ ys) = Some x"
  by (induction xs) auto

lemma upto_split: "1 \<le> m \<Longrightarrow> m \<le> n \<Longrightarrow> [1..n] = [1..m] @ [m + 1..n]" for m n :: int
  by (rule upto_split2) auto

lemma dropWhile_digits: "list_all is_digit xs \<Longrightarrow> dropWhile is_digit (xs @ ys) = dropWhile is_digit ys"
  by (induction xs) auto

lemma rankCapacity_slot: "1 \<le> i \<Longrightarrow> rankCapacity (slot_rank d i) = rankCapacity d"
  using nat_text_digits[of "nat i"]
  by (simp add: rankCapacity_def isDoublesCode_def slot_rank_def int_text_def dropWhile_digits list_all_iff)

lemma rankCapacity_first: "rankCapacity (d @ ''1'') = rankCapacity d"
  by (simp add: rankCapacity_def isDoublesCode_def is_digit_def)

section \<open>Properties\<close>


definition demo_counts :: "(string, int) dict" where
  "demo_counts = [(''MS'', 3), (''MD'', 2)]"

definition stored_player :: "string \<Rightarrow> string list \<Rightarrow> js_object" where
  "stored_player i ranks = [(''id'', JStr i), (''name'', JStr i), (''groupId'', JStr ''A''), (''ranks'', JArr (map JStr ranks))]"

definition demo_roster :: "roster_player list" where
  "demo_roster = map read_player [stored_player ''p'' [''MS1''], stored_player ''q'' [''MS''], stored_player ''r'' [''MS'', ''MD'']]"

lemma demo_apart: "codes_apart demo_counts" by code_simp

lemma bounded_search_apart:
  assumes "codes_apart counts" "seat_reach counts school st" "configuredRankCount counts d = Some n"
    and "places \<le> rankCapacity d"
  shows "findSlot counts st d places = find (slot_free st places) (map (slot_rank d) [1..n])"
proof -
  have noted: "occupants_noted counts st"
    using assms(2) by induction (simp_all add: seating_start_noted seat_candidate_noted assms(1))
  let ?O = "or_else (map_of (sg_occupiedPositions st) d) []"
  let ?m = "int (length ?O) + 1"
  show ?thesis
  proof (cases "n \<le> ?m")
    case True
    then show ?thesis using assms(3) by (simp add: findSlot_def)
  next
    case False
    have "\<not> {1..?m} \<subseteq> set ?O"
    proof
      assume "{1..?m} \<subseteq> set ?O"
      then have "card {1..?m} \<le> card (set ?O)" by (intro card_mono) simp_all
      also have "\<dots> \<le> length ?O" by (rule card_length)
      finally show False by simp
    qed
    then obtain i where "i \<in> {1..?m}" and out: "i \<notin> set ?O" by blast
    then have i: "1 \<le> i" "i \<le> ?m" "i \<notin> set ?O" by auto
    then have "seat_occupancy st (slot_rank d i) \<le> 0"
      using noted assms(3) False unfolding occupants_noted_def by (metis le_cases linorder_not_less order_trans)
    then have "slot_free st places (slot_rank d i)"
      using assms(4) i by (simp add: slot_free_def rankCapacity_slot)
    then obtain x where "find (slot_free st places) (map (slot_rank d) [1..?m]) = Some x"
      using i by (cases "find (slot_free st places) (map (slot_rank d) [1..?m])") (auto simp: find_None_iff)
    then have "find (slot_free st places) (map (slot_rank d) ([1..?m] @ [?m + 1..n])) = Some x"
      unfolding map_append by (rule find_append_Some)
    moreover have "min n ?m = ?m" "[1..n] = [1..?m] @ [?m + 1..n]" using False upto_split[of ?m n] by auto
    ultimately show ?thesis
      using assms(3) \<open>find (slot_free st places) (map (slot_rank d) [1..?m]) = Some x\<close>
      unfolding findSlot_def by (simp only: option.case Let_def)
  qed
qed

lemma bounded_search_sound:
  assumes "configuredRankCount counts d = Some n" "findSlot counts st d places = Some r"
  shows "find (slot_free st places) (map (slot_rank d) [1..n]) = Some r"
proof -
  let ?m = "int (length (or_else (map_of (sg_occupiedPositions st) d) [])) + 1"
  have found: "find (slot_free st places) (map (slot_rank d) [1..min n ?m]) = Some r"
    using assms by (simp add: findSlot_def Let_def)
  show ?thesis
  proof (cases "n \<le> ?m")
    case True
    then show ?thesis using found by (simp add: min_def)
  next
    case False
    then have "[1..n] = [1..?m] @ [?m + 1..n]" using upto_split[of ?m n] by auto
    then show ?thesis using found False find_append_Some by (simp add: min_def)
  qed
qed

text \<open>C23. The search for a free position stops early: it looks no further than one past the number of
  occupied positions. In every state the seating goes through, a position it finds is the first free one of
  all that are configured; and when the event codes stay apart (every position of a code reads as that
  position; with the codes \<open>U1\<close> and \<open>U11\<close> the first position of \<open>U1\<close> reads as the code \<open>U11\<close>) and no more
  places are asked than a position has, it finds the same position as the search through all of them, so
  that it misses none. Codes that do not stay apart make it miss one (\<open>ambiguous_codes_misread\<close>).\<close>

theorem bounded_search_complete:
  assumes "seat_reach counts school st" "configuredRankCount counts d = Some n"
  shows "(\<forall>r. findSlot counts st d places = Some r \<longrightarrow>
       find (slot_free st places) (map (slot_rank d) [1..n]) = Some r) \<and>
     (codes_apart counts \<and> places \<le> rankCapacity d \<longrightarrow>
       findSlot counts st d places = find (slot_free st places) (map (slot_rank d) [1..n]))"
proof (intro conjI allI impI)
  show "findSlot counts st d places = Some r \<Longrightarrow> find (slot_free st places) (map (slot_rank d) [1..n]) = Some r" for r
    by (rule bounded_search_sound[OF assms(2)])
  assume "codes_apart counts \<and> places \<le> rankCapacity d"
  then show "findSlot counts st d places = find (slot_free st places) (map (slot_rank d) [1..n])"
    by (intro bounded_search_apart[OF _ assms]) simp_all
qed

theorem bounded_search_complete_witness:
  "findSlot demo_counts (seating_start demo_counts demo_roster) ''MS'' 1 =
     find (slot_free (seating_start demo_counts demo_roster) 1) (map (slot_rank ''MS'') [1..3]) \<and>
   findSlot demo_counts (seating_start demo_counts demo_roster) ''MS'' 1 = Some ''MS2''"
proof
  show "findSlot demo_counts (seating_start demo_counts demo_roster) ''MS'' 1 =
     find (slot_free (seating_start demo_counts demo_roster) 1) (map (slot_rank ''MS'') [1..3])"
  proof -
    have n: "configuredRankCount demo_counts ''MS'' = Some 3" by code_simp
    moreover have "1 \<le> rankCapacity ''MS''" by code_simp
    ultimately show ?thesis
      using bounded_search_complete[OF seat_reach.start[of demo_counts demo_roster] n, of 1] demo_apart by blast
  qed
qed code_simp

text \<open>C22. Seating never overfills a position: with event codes that stay apart and players of distinct ids,
  afterwards at most as many players of the school hold a rank as its capacity, or as held it before; nobody
  of another school is touched and nobody is written twice.\<close>

theorem seating_respects_capacity:
  assumes "codes_apart (or_else counts [])" "distinct (map rp_id players)"
    and "after = run_writes (fst (seatUnslotted counts players schoolId)) players"
  shows "int (card {p \<in> set after. rp_groupId p = schoolId \<and> r \<in> set (ranks_of p)}) \<le>
      max (int (card {p \<in> set players. rp_groupId p = schoolId \<and> r \<in> set (ranks_of p)})) (rankCapacity r) \<and>
    filter (\<lambda>p. rp_groupId p \<noteq> schoolId) after = filter (\<lambda>p. rp_groupId p \<noteq> schoolId) players \<and>
    distinct (map fst (fst (seatUnslotted counts players schoolId)))"
proof -
  let ?ws = "fst (seatUnslotted counts players schoolId)"
  have after: "after = map (apply_write ?ws) players" using assms by (simp add: run_writes_map seat_write_ids)
  have none: "map_of ?ws (rp_id p) = None" if "p \<in> set players" "rp_groupId p \<noteq> schoolId" for p
  proof -
    have "rp_id x \<noteq> rp_id p" if "x \<in> set players" "rp_groupId x = schoolId" for x
      using assms(2) that \<open>p \<in> set players\<close> \<open>rp_groupId p \<noteq> schoolId\<close> by (metis distinct_map inj_on_contraD)
    moreover have "fst ` set ?ws \<subseteq> rp_id ` set (filter (\<lambda>p. rp_groupId p = schoolId) players)"
      by (force simp: seatUnslotted_def Let_def List.map_filter_def)
    ultimately have "rp_id p \<notin> fst ` set ?ws" by auto
    then show ?thesis by (simp add: map_of_eq_None_iff)
  qed
  have same: "apply_write ?ws p = p" if "p \<in> set players" "rp_groupId p \<noteq> schoolId" for p
    using none[OF that] by (simp add: apply_write_def)
  have "filter (\<lambda>p. rp_groupId p \<noteq> schoolId) (map (apply_write ?ws) xs) = filter (\<lambda>p. rp_groupId p \<noteq> schoolId) xs"
    if "set xs \<subseteq> set players" for xs
    using that by (induction xs) (auto simp: same)
  then show ?thesis using seat_holders[OF assms] seat_write_ids[OF assms(2)] by (simp add: after)
qed

theorem seating_respects_capacity_witness:
  "int (card {p \<in> set (run_writes (fst (seatUnslotted (Some demo_counts) demo_roster ''A'')) demo_roster).
      rp_groupId p = ''A'' \<and> ''MS2'' \<in> set (ranks_of p)}) \<le> 1 \<and>
   map ranks_of (run_writes (fst (seatUnslotted (Some demo_counts) demo_roster ''A'')) demo_roster) =
     [[''MS1''], [''MS2''], [''MS3'', ''MD1'']]"
proof
  have d: "distinct (map rp_id demo_roster)" by code_simp
  have a: "codes_apart (or_else (Some demo_counts) [])" using demo_apart by simp
  have "card {p \<in> set demo_roster. rp_groupId p = ''A'' \<and> ''MS2'' \<in> set (ranks_of p)} = 0" by code_simp
  moreover have "rankCapacity ''MS2'' = 1" by code_simp
  ultimately show "int (card {p \<in> set (run_writes (fst (seatUnslotted (Some demo_counts) demo_roster ''A'')) demo_roster).
      rp_groupId p = ''A'' \<and> ''MS2'' \<in> set (ranks_of p)}) \<le> 1"
    using seating_respects_capacity[OF a d refl, of "''A''" "''MS2''"] by simp
qed code_simp

definition demo_document :: "tournament_state \<Rightarrow> tournament_state" where
  "demo_document s = s\<lparr>tn_players := [stored_player ''p'' [''MS1''], stored_player ''q'' [''MS''], stored_player ''r'' [''MS'', ''MD'']]\<rparr>"


text \<open>Where one code is another followed by a position, a seated entrant looks like an entrant of the other
  event, and the next position is not found although it is free.\<close>

lemma ambiguous_codes_misread:
  "fst (seatUnslotted (Some [(''U1'', 3), (''U11'', 2)]) (map read_player
     [stored_player ''p'' [''U1''], stored_player ''q'' [''U1'']]) ''A'') = [(''p'', [''U11''])]"
  by code_simp

text \<open>An entrant who holds one place of a doubles position and waits for another is seated beside himself.\<close>

lemma own_partner:
  "fst (seatUnslotted (Some [(''MD'', 2)]) (map read_player [stored_player ''p'' [''MD'', ''MD1'']]) ''A'') =
     [(''p'', [''MD1'', ''MD1''])]"
  by code_simp

text \<open>A match has no issue exactly when it can be played as listed: with a rank, both sides have the
  players it needs and each of them holds the rank; nobody is on both sides and every listed player is known.\<close>

theorem match_clean_iff:
  "maxSeverity (validateMatch m players) = None \<longleftrightarrow>
     (let rank = (case rm_eventRank m of Some r \<Rightarrow> trim r | None \<Rightarrow> []);
          sideA = or_else (rm_sideA m) []; sideB = or_else (rm_sideB m) [];
          known = map_of (map (\<lambda>p. (rp_id p, p)) (rev players))
      in (rank = [] \<or> int (length sideA) = rankCapacity rank \<and> int (length sideB) = rankCapacity rank) \<and>
         set sideA \<inter> set sideB = {} \<and>
         (\<forall>i \<in> set sideA \<union> set sideB. case known i of None \<Rightarrow> False | Some p \<Rightarrow> rank = [] \<or> rank \<in> set (ranks_of p)))"
proof -
  have known: "map_of (map (\<lambda>p. (rp_id p, p)) xs) i = find (\<lambda>p. rp_id p = i) xs" for xs i
    by (induction xs) auto
  have sizes: "side_size_issue rank (if isDoublesCode rank then 2 else 1) (tag, ids) = [] \<longleftrightarrow>
      int (length ids) = rankCapacity rank" for rank tag ids
    by (cases ids; cases "tl ids") (simp_all add: side_size_issue_def rankCapacity_def)
  have cross: "concat (map (cross_side_issue players a) b) = [] \<longleftrightarrow> set a \<inter> set b = {}" for a b
    by (auto simp: cross_side_issue_def)
  have player: "player_issue players rank tag i = [] \<longleftrightarrow>
      (case find (\<lambda>p. rp_id p = i) (rev players) of None \<Rightarrow> False
       | Some p \<Rightarrow> rank = [] \<or> rank \<in> set (ranks_of p))" for rank tag i
    by (auto simp: player_issue_def split: option.split)
  have none: "maxSeverity issues = None \<longleftrightarrow> issues = []" for issues
    by (simp add: maxSeverity_def)
  have sides: "concat (map (\<lambda>(tag, ids). concat (map (player_issue players rank tag) ids)) [(s, a), (t, b)]) = []
      \<longleftrightarrow> (\<forall>i \<in> set a \<union> set b. case find (\<lambda>p. rp_id p = i) (rev players) of None \<Rightarrow> False
            | Some p \<Rightarrow> rank = [] \<or> rank \<in> set (ranks_of p))" for rank a b s t
    by (simp only: list.map prod.case concat.simps append_Nil2 append_is_Nil_conv concat_eq_Nil_conv set_map
        ball_simps player ball_Un)
  have side: "concat (map (side_size_issue rank expected) [u, v]) = [] \<longleftrightarrow>
      side_size_issue rank expected u = [] \<and> side_size_issue rank expected v = []" for rank expected u v
    by simp
  show ?thesis
    unfolding none validateMatch_def Let_def known append_is_Nil_conv cross sides
    by (simp only: side sizes if_distrib [of "\<lambda>x. x = []"] Int_commute if_bool_eq_conj) blast
qed

lemma match_clean_iff_witness:
  "maxSeverity (validateMatch
     \<lparr>rm_eventRank = Some ''MS1'', rm_sideA = Some [''p''], rm_sideB = Some [''q'']\<rparr>
     (map read_player [stored_player ''p'' [''MS1''], stored_player ''q'' [''MS1'', ''MD2'']])) = None"
  unfolding match_clean_iff by code_simp

end
