(* ===== verification/Seeding.thy ===== *)
theory Seeding
  imports Prelude
begin

unbundle bit_operations_syntax

text \<open>
  Where the seeds of a single elimination draw stand (\<open>modules/bracket/bwf.ts\<close>): the array of positions
  is filled section by section, every round putting two new seeds in the middle of each section and
  splitting it there. Indices of the source are natural numbers here once they index the array.
\<close>

section \<open>The placement\<close>

record placement =
  pm_positions :: "int list"
  pm_nextSeed :: int
  pm_next :: "(int \<times> int) list"

definition seed_section :: "int \<times> int \<Rightarrow> placement \<Rightarrow> placement" where
  "seed_section sec st =
     (case sec of (start, stop) \<Rightarrow>
        if stop - start < 3 then st
        else
          let midLo = (start + stop) div 2; midHi = midLo + 1
          in st\<lparr>pm_positions := (pm_positions st)[nat midHi := pm_nextSeed st, nat midLo := pm_nextSeed st + 1],
                pm_nextSeed := pm_nextSeed st + 2,
                pm_next := pm_next st @ [(start, midLo), (midHi, stop)]\<rparr>)"

definition seed_round :: "(int \<times> int) list \<Rightarrow> int list \<Rightarrow> int \<Rightarrow> placement" where
  "seed_round sections positions nextSeed =
     fold seed_section sections \<lparr>pm_positions = positions, pm_nextSeed = nextSeed, pm_next = []\<rparr>"

definition section_weight :: "(int \<times> int) list \<Rightarrow> nat" where
  "section_weight sections = sum_list (map (\<lambda>(a, b). 2 * nat (b - a) + 1) sections)"

lemma seed_section_weight:
  "section_weight (pm_next (seed_section sec st)) < section_weight (pm_next st) + section_weight [sec]"
proof (cases sec)
  case (Pair a b)
  show ?thesis
  proof (cases "b - a < 3")
    case False
    then have "2 * nat ((a + b) div 2 - a) + 1 + (2 * nat (b - ((a + b) div 2 + 1)) + 1) < 2 * nat (b - a) + 1"
      by linarith
    then show ?thesis using False by (simp add: Pair seed_section_def section_weight_def Let_def)
  qed (simp add: Pair seed_section_def section_weight_def)
qed

lemma seed_round_weight:
  assumes "sections \<noteq> []"
  shows "section_weight (pm_next (seed_round sections ps n)) < section_weight sections"
proof -
  have "section_weight (pm_next (fold seed_section xs st)) \<le> section_weight (pm_next st) + section_weight xs" for xs st
  proof (induction xs arbitrary: st)
    case (Cons x xs)
    have "section_weight (x # xs) = section_weight [x] + section_weight xs" by (simp add: section_weight_def)
    with Cons[of "seed_section x st"] seed_section_weight[of x st] show ?case by simp
  qed simp
  from this[of "tl sections" "seed_section (hd sections) \<lparr>pm_positions = ps, pm_nextSeed = n, pm_next = []\<rparr>"]
  show ?thesis
    using seed_section_weight[of "hd sections" "\<lparr>pm_positions = ps, pm_nextSeed = n, pm_next = []\<rparr>"] assms
    by (cases sections) (simp_all add: seed_round_def section_weight_def)
qed

function seed_loop :: "int \<Rightarrow> (int \<times> int) list \<Rightarrow> int list \<Rightarrow> int \<Rightarrow> int list" where
  "seed_loop draw_size sections positions nextSeed =
     (if sections \<noteq> [] \<and> nextSeed \<le> draw_size then
        let st = seed_round sections positions nextSeed
        in seed_loop draw_size (pm_next st) (pm_positions st) (pm_nextSeed st)
      else positions)"
  by pat_completeness auto
termination
  by (relation "measure (\<lambda>(_, sections, _, _). section_weight sections)") (simp_all add: seed_round_weight)

declare seed_loop.simps [simp del]

text \<open>\<open>None\<close> is the error for a size that is not a power of two.\<close>

definition bwfPositions :: "int \<Rightarrow> int list option" where
  "bwfPositions draw_size =
     (if draw_size AND (draw_size - 1) \<noteq> 0 \<or> draw_size < 2 then None
      else Some (seed_loop draw_size [(0, draw_size - 1)] ((replicate (nat draw_size) 0)[0 := 1, nat (draw_size - 1) := 2]) 3))"

definition seedForPosition :: "int \<Rightarrow> int \<Rightarrow> int option option" where
  "seedForPosition draw_size pos =
     map_option (\<lambda>ps. if 0 \<le> pos \<and> pos < int (length ps) then Some (ps ! nat pos) else None) (bwfPositions draw_size)"

section \<open>One round\<close>

text \<open>A round over \<open>m\<close> sections of width \<open>2 * v\<close>: the middle of each section gets the next two seeds.\<close>

definition sections_of :: "nat \<Rightarrow> nat \<Rightarrow> (int \<times> int) list" where
  "sections_of w m = map (\<lambda>i. (int (i * w), int (i * w + w) - 1)) [0..<m]"

definition after_round :: "nat \<Rightarrow> nat \<Rightarrow> int \<Rightarrow> (nat \<Rightarrow> int) \<Rightarrow> nat \<Rightarrow> int" where
  "after_round v m n old p =
     (let i = p div (2 * v); q = p mod (2 * v)
      in if i < m \<and> q = v then n + 2 * int i
         else if i < m \<and> Suc q = v then n + 2 * int i + 1
         else old p)"

lemma sections_of_Suc: "sections_of w (Suc m) = sections_of w m @ [(int (m * w), int (m * w + w) - 1)]"
  by (simp add: sections_of_def)

lemma middle: "(int (m * (2 * v)) + (int (m * (2 * v) + 2 * v) - 1)) div 2 = int (m * (2 * v) + v) - 1"
  by (simp add: algebra_simps)

lemma div_mod_unique: "q < w \<Longrightarrow> p = m * w + q \<longleftrightarrow> p div w = m \<and> p mod w = (q :: nat)"
  by (auto simp: algebra_simps)

lemma seed_round_sections:
  assumes v: "2 \<le> v" and len: "m * (2 * v) \<le> length ps"
  shows "seed_round (sections_of (2 * v) m) ps n =
    \<lparr>pm_positions = map (after_round v m n (nth ps)) [0..<length ps], pm_nextSeed = n + 2 * int m,
     pm_next = sections_of v (2 * m)\<rparr>"
  using len
proof (induction m)
  case 0
  then show ?case by (simp add: seed_round_def sections_of_def after_round_def map_nth)
next
  case (Suc m)
  let ?w = "2 * v"
  let ?old = "map (after_round v m n (nth ps)) [0..<length ps]"
  have m: "m * ?w + v < length ps" "m * ?w + v - 1 < length ps" using Suc.prems v by auto
  have len: "m * ?w \<le> length ps" using Suc.prems by simp
  have pos: "?old[m * ?w + v := n + 2 * int m, m * ?w + v - 1 := n + 2 * int m + 1] =
      map (after_round v (Suc m) n (nth ps)) [0..<length ps]"
  proof (rule nth_equalityI)
    fix p assume "p < length (?old[m * ?w + v := n + 2 * int m, m * ?w + v - 1 := n + 2 * int m + 1])"
    then have p: "p < length ps" by simp
    have hi: "p = m * ?w + v \<longleftrightarrow> p div ?w = m \<and> p mod ?w = v" using v by (intro div_mod_unique) simp
    have lo: "p = m * ?w + v - 1 \<longleftrightarrow> p div ?w = m \<and> Suc (p mod ?w) = v"
      using v div_mod_unique[of "v - 1" ?w p m] by auto
    show "?old[m * ?w + v := n + 2 * int m, m * ?w + v - 1 := n + 2 * int m + 1] ! p =
        map (after_round v (Suc m) n (nth ps)) [0..<length ps] ! p"
      using p m hi lo by (auto simp: nth_list_update after_round_def Let_def less_Suc_eq)
  qed simp
  have sec: "sections_of v (2 * Suc m) = sections_of v (2 * m) @
      [(int (m * ?w), int (m * ?w + v) - 1), (int (m * ?w + v), int (m * ?w + ?w) - 1)]"
    by (simp add: sections_of_Suc algebra_simps)
  have idx: "nat (int x - 1 + 1) = x" "nat (int x - 1) = x - 1" for x by linarith+
  have "\<not> int (m * ?w + ?w) - 1 - int (m * ?w) < 3" using v by simp
  then show ?case
    using Suc.IH[OF len]
    by (simp only: sections_of_Suc[of ?w] seed_round_def fold_append comp_apply fold_simps seed_section_def prod.case
        middle Let_def if_False placement.simps placement.update_convs pos[symmetric] sec idx) simp
qed

section \<open>All rounds\<close>

text \<open>The ends of the sections of round \<open>r\<close>: the positions that are filled before it, by the seeds up to \<open>2 ^ r\<close>.\<close>

definition section_ends :: "nat \<Rightarrow> nat \<Rightarrow> nat set" where
  "section_ends k r = {p. p < 2 ^ k \<and> (p mod 2 ^ (k + 1 - r) = 0 \<or> Suc (p mod 2 ^ (k + 1 - r)) = 2 ^ (k + 1 - r))}"

definition placed :: "nat \<Rightarrow> nat \<Rightarrow> int list \<Rightarrow> bool" where
  "placed k r ps \<longleftrightarrow> length ps = 2 ^ k \<and> (\<forall>p < 2 ^ k. p \<notin> section_ends k r \<longrightarrow> ps ! p = 0) \<and>
     bij_betw (nth ps) (section_ends k r) {1..2 ^ r} \<and>
     (\<forall>s \<in> {1..r}. \<forall>p < 2 ^ k. p \<in> section_ends k s \<longleftrightarrow> 1 \<le> ps ! p \<and> ps ! p \<le> 2 ^ s)"

text \<open>The positions a round fills.\<close>

definition middles :: "nat \<Rightarrow> nat \<Rightarrow> nat set" where
  "middles k v = {p. p < 2 ^ k \<and> (p mod (2 * v) = v \<or> Suc (p mod (2 * v)) = v)}"

lemma mod_half:
  assumes "0 < (v :: nat)"
  shows "p mod v = (if p mod (2 * v) < v then p mod (2 * v) else p mod (2 * v) - v)"
proof -
  have "p mod v = p mod (2 * v) mod v" by (simp add: mod_mod_cancel)
  also have "\<dots> = (if p mod (2 * v) < v then p mod (2 * v) else p mod (2 * v) - v)"
  proof -
    have "\<not> q < v \<Longrightarrow> q < 2 * v \<Longrightarrow> (q - v) mod v = q - v" for q by (rule mod_less) simp
    from this[of "p mod (2 * v)"] show ?thesis using assms mod_less_divisor[of "2 * v" p]
      by (cases "p mod (2 * v) < v") (simp_all add: le_mod_geq)
  qed
  finally show ?thesis .
qed

lemma end_of_half:
  assumes "2 \<le> (v :: nat)"
  shows "p mod v = 0 \<or> Suc (p mod v) = v \<longleftrightarrow>
      (p mod (2 * v) = 0 \<or> Suc (p mod (2 * v)) = 2 * v) \<or> (p mod (2 * v) = v \<or> Suc (p mod (2 * v)) = v)"
proof -
  have "0 < v" using assms by simp
  have "q < 2 * v \<Longrightarrow> (if q < v then q else q - v) = 0 \<or> Suc (if q < v then q else q - v) = v \<longleftrightarrow>
      (q = 0 \<or> Suc q = 2 * v) \<or> (q = v \<or> Suc q = v)" for q
    using assms by (cases "q < v") (simp_all, arith+)
  from this[of "p mod (2 * v)"] show ?thesis
    unfolding mod_half[OF \<open>0 < v\<close>, of p] using \<open>0 < v\<close> by simp
qed

lemma ends_split:
  assumes "r < k" "v = 2 ^ (k - r)"
  shows "section_ends k (Suc r) = section_ends k r \<union> middles k v" "section_ends k r \<inter> middles k v = {}" "2 \<le> v"
    and "2 ^ r * v = 2 ^ k"
proof -
  obtain j where k: "k = Suc (r + j)" using less_imp_Suc_add[OF assms(1)] by blast
  have w: "2 ^ (k + 1 - r) = 2 * v" "2 ^ (k + 1 - Suc r) = v" unfolding assms(2) k by simp_all
  have v: "2 \<le> v" unfolding assms(2) k by simp
  show "section_ends k (Suc r) = section_ends k r \<union> middles k v"
    unfolding section_ends_def middles_def w end_of_half[OF v] by (rule set_eqI) (simp only: mem_Collect_eq Un_iff; argo)
  show "section_ends k r \<inter> middles k v = {}"
    using v unfolding section_ends_def middles_def w by auto
  show "2 \<le> v" by (rule v)
  show "2 ^ r * v = 2 ^ k" unfolding assms(2) k by (simp add: power_add)
qed

lemma pair_parity:
  "n + 2 * int a + (if P then 0 else 1) = n + 2 * int b + (if Q then 0 else 1) \<Longrightarrow> a = b \<and> (P \<longleftrightarrow> Q)"
  by (cases P; cases Q; simp; presburger)

lemma round_fills_middles:
  assumes v: "2 \<le> v" and k: "m * (2 * v) = 2 ^ k"
  shows "bij_betw (after_round v m n old) (middles k v) {n..<n + 2 * int m}"
proof (rule bij_betwI')
  have less: "p div (2 * v) < m" if "p < 2 ^ k" for p
    using that v k by (simp add: div_less_iff_less_mult)
  have val: "p \<in> middles k v \<Longrightarrow> p div (2 * v) < m \<and> after_round v m n old p = n + 2 * int (p div (2 * v)) + (if p mod (2 * v) = v then 0 else 1)" for p
    using less v by (auto simp: middles_def after_round_def Let_def)
  fix p q assume pq: "p \<in> middles k v" "q \<in> middles k v"
  show "after_round v m n old p = after_round v m n old q \<longleftrightarrow> p = q"
  proof
    assume e: "after_round v m n old p = after_round v m n old q"
    then have "n + 2 * int (p div (2 * v)) + (if p mod (2 * v) = v then 0 else 1) =
        n + 2 * int (q div (2 * v)) + (if q mod (2 * v) = v then 0 else 1)" using val pq by simp
    then have "p div (2 * v) = q div (2 * v) \<and> (p mod (2 * v) = v \<longleftrightarrow> q mod (2 * v) = v)"
      by (rule pair_parity)
    then have "p div (2 * v) = q div (2 * v)" "p mod (2 * v) = v \<longleftrightarrow> q mod (2 * v) = v" by blast+
    moreover from this(2) have "p mod (2 * v) = q mod (2 * v)" using pq by (auto simp: middles_def)
    ultimately show "p = q" by (metis div_mult_mod_eq)
  qed simp
next
  fix p assume p: "p \<in> middles k v"
  have "p div (2 * v) < m"
    using p v k by (simp add: middles_def div_less_iff_less_mult)
  then show "after_round v m n old p \<in> {n..<n + 2 * int m}"
    using p by (auto simp: middles_def after_round_def Let_def)
next
  fix y assume y: "y \<in> {n..<n + 2 * int m}"
  define i where "i = nat ((y - n) div 2)"
  define q where "q = (if (y - n) mod 2 = 0 then v else v - 1)"
  have i: "i < m" "y = n + 2 * int i + (y - n) mod 2" using y by (auto simp: i_def)
  have q: "q < 2 * v" "q = v \<or> Suc q = v" using v by (auto simp: q_def)
  have p: "(i * (2 * v) + q) div (2 * v) = i" "(i * (2 * v) + q) mod (2 * v) = q" using q(1) by simp_all
  have "i * (2 * v) + q < Suc i * (2 * v)" using q(1) by simp
  also have "\<dots> \<le> m * (2 * v)" using i(1) by (intro mult_le_mono1) simp
  finally have "i * (2 * v) + q \<in> middles k v" using q p k by (simp add: middles_def)
  moreover have "y = after_round v m n old (i * (2 * v) + q)"
    using i v unfolding after_round_def Let_def p by (auto simp: q_def)
  ultimately show "\<exists>p \<in> middles k v. y = after_round v m n old p" by blast
qed

lemma section_ends_le: "section_ends k r \<subseteq> {p. p < 2 ^ k}"
  by (auto simp: section_ends_def)

lemma placed_step:
  assumes P: "placed k r ps" and r: "1 \<le> r" "r < k" and v: "v = 2 ^ (k - r)"
  shows "placed k (Suc r) (map (after_round v (2 ^ (r - 1)) (2 ^ r + 1) (nth ps)) [0..<2 ^ k])"
proof -
  let ?m = "2 ^ (r - 1) :: nat" and ?n = "2 ^ r + 1 :: int"
  let ?f = "after_round v ?m ?n (nth ps)" and ?M = "middles k v" and ?E = "section_ends k r"
  note split = ends_split[OF r(2) v]
  have mv: "?m * (2 * v) = 2 ^ k"
    using split(4) r(1) by (metis Suc_diff_1 less_eq_Suc_le mult.assoc mult.commute power_Suc One_nat_def)
  have len: "length ps = 2 ^ k" and zero: "p < 2 ^ k \<Longrightarrow> p \<notin> ?E \<Longrightarrow> ps ! p = 0"
    and bij: "bij_betw (nth ps) ?E {1..2 ^ r}"
    and older: "s \<in> {1..r} \<Longrightarrow> p < 2 ^ k \<Longrightarrow> p \<in> section_ends k s \<longleftrightarrow> 1 \<le> ps ! p \<and> ps ! p \<le> 2 ^ s" for p s
    using P unfolding placed_def by blast+
  have keep: "?f p = ps ! p" if "p < 2 ^ k" "p \<notin> ?M" for p
  proof -
    have "p mod (2 * v) \<noteq> v \<and> Suc (p mod (2 * v)) \<noteq> v" using that by (simp add: middles_def)
    then show ?thesis by (simp only: after_round_def Let_def simp_thms if_False)
  qed
  have n2: "?n + 2 * int ?m = 2 ^ Suc r + 1"
    using r(1) by (cases r) simp_all
  have fill: "bij_betw ?f ?M {2 ^ r + 1..2 ^ Suc r}"
  proof -
    have "{?n..<?n + 2 * int ?m} = {2 ^ r + 1..2 ^ Suc r}" unfolding n2 by auto
    with round_fills_middles[OF split(3) mv, of ?n "nth ps"] show ?thesis by simp
  qed
  have old: "bij_betw ?f ?E {1..2 ^ r}"
    using bij keep split(2) section_ends_le[of k r] by (subst bij_betw_cong[where g = "nth ps"]) auto
  have "bij_betw ?f (?E \<union> ?M) ({1..2 ^ r} \<union> {2 ^ r + 1..2 ^ Suc r})"
    using old fill by (rule bij_betw_combine) auto
  moreover have "{1..2 ^ r} \<union> {2 ^ r + 1..2 ^ Suc r} = {1..2 ^ Suc r :: int}"
    by auto
  ultimately have new: "bij_betw ?f (section_ends k (Suc r)) {1..2 ^ Suc r}" by (simp add: split(1))
  have ages: "p \<in> section_ends k s \<longleftrightarrow> 1 \<le> ?f p \<and> ?f p \<le> 2 ^ s" if "s \<in> {1..Suc r}" "p < 2 ^ k" for p s
  proof (cases "p \<in> ?M")
    case True
    then have fp: "?f p \<in> {2 ^ r + 1..2 ^ Suc r}" using fill by (auto simp: bij_betw_def)
    show ?thesis
    proof (cases "s = Suc r")
      case True
      then show ?thesis using fp \<open>p \<in> ?M\<close> by (simp add: split(1))
    next
      case False
      then have s: "s \<in> {1..r}" using that by auto
      then have le: "(2 :: int) ^ s \<le> 2 ^ r" by simp
      have "2 ^ s < ?f p" using fp le unfolding atLeastAtMost_iff by linarith
      moreover have "p \<notin> section_ends k s"
      proof
        assume "p \<in> section_ends k s"
        then have "1 \<le> ps ! p" using older[OF s that(2)] by simp
        then have "p \<in> ?E" using zero[OF that(2)] by auto
        then show False using split(2) True by auto
      qed
      ultimately show ?thesis by simp
    qed
  next
    case False
    show ?thesis
    proof (cases "s = Suc r")
      case True
      have E: "p \<in> ?E \<longleftrightarrow> 1 \<le> ps ! p \<and> ps ! p \<le> 2 ^ r" using older[of r p] r(1) that(2) by simp
      have "(2 :: int) ^ r \<le> 2 ^ s" unfolding True by simp
      moreover have "p \<in> section_ends k s \<longleftrightarrow> p \<in> ?E" unfolding True split(1) using False by simp
      ultimately show ?thesis
        unfolding keep[OF that(2) False] using E zero[OF that(2)] by (metis order_trans not_one_le_zero)
    next
      case False
      then show ?thesis using older[of s p] that keep[OF that(2) \<open>p \<notin> ?M\<close>] by auto
    qed
  qed
  have "\<forall>p < 2 ^ k. p \<notin> section_ends k (Suc r) \<longrightarrow> ?f p = 0"
    using keep zero by (auto simp: split(1))
  moreover have "bij_betw (nth (map ?f [0..<2 ^ k])) (section_ends k (Suc r)) {1..2 ^ Suc r}"
    using new section_ends_le[of k "Suc r"] by (subst bij_betw_cong[where g = ?f]) auto
  ultimately show ?thesis using ages by (simp add: placed_def)
qed

lemma loop_places:
  assumes "placed k r ps" "1 \<le> r" "r \<le> k"
  shows "placed k k (seed_loop (2 ^ k) (sections_of (2 ^ (k + 1 - r)) (2 ^ (r - 1))) ps (2 ^ r + 1))"
  using assms
proof (induction "k - r" arbitrary: r ps)
  case 0
  then have "r = k" by simp
  then show ?case using 0 by (simp add: seed_loop.simps)
next
  case (Suc d)
  then have rk: "r < k" by simp
  define v where "v = (2 :: nat) ^ (k - r)"
  note split = ends_split[OF rk v_def]
  have w: "2 ^ (k + 1 - r) = 2 * v" using rk by (simp add: v_def Suc_diff_le)
  have m: "(2 :: nat) ^ r = 2 * 2 ^ (r - 1)" using Suc.prems(2) by (cases r) simp_all
  have len: "length ps = 2 ^ k" using Suc.prems(1) by (simp add: placed_def)
  then have fit: "2 ^ (r - 1) * (2 * v) \<le> length ps" using split(4) m by (simp add: algebra_simps)
  have "sections_of (2 * v) (2 ^ (r - 1)) \<noteq> []" by (simp add: sections_of_def)
  moreover have "(2 :: int) ^ r + 1 \<le> 2 ^ k" 
    using power_strict_increasing[OF rk, of "2 :: int"] by linarith
  ultimately have "seed_loop (2 ^ k) (sections_of (2 * v) (2 ^ (r - 1))) ps (2 ^ r + 1) =
      seed_loop (2 ^ k) (sections_of v (2 * 2 ^ (r - 1))) (map (after_round v (2 ^ (r - 1)) (2 ^ r + 1) (nth ps)) [0..<2 ^ k])
        (2 ^ r + 1 + 2 * int (2 ^ (r - 1)))"
    by (subst seed_loop.simps)
       (simp only: seed_round_sections[OF split(3) fit] len Let_def placement.simps simp_thms if_True not_False_eq_True)
  moreover have "2 ^ r + 1 + 2 * int (2 ^ (r - 1)) = 2 ^ Suc r + 1"
    using Suc.prems(2) by (cases r) simp_all
  moreover have "placed k (Suc r) (map (after_round v (2 ^ (r - 1)) (2 ^ r + 1) (nth ps)) [0..<2 ^ k])"
    using placed_step[OF Suc.prems(1,2) rk v_def] .
  moreover have "v = 2 ^ (k + 1 - Suc r)" "2 * 2 ^ (r - 1) = (2 :: nat) ^ (Suc r - 1)" using m by (simp_all add: v_def)
  ultimately show ?case using Suc.hyps(1)[of "Suc r"] Suc.hyps(2) rk unfolding w by simp
qed

section \<open>The placement is fair\<close>

lemma placed_start:
  assumes "1 \<le> k"
  shows "placed k 1 ((replicate (2 ^ k) 0)[0 := 1, 2 ^ k - 1 := 2])"
proof -
  have two: "(2 :: nat) \<le> 2 ^ k" using assms by (cases k) simp_all
  define ps where "ps = (replicate (2 ^ k) 0)[0 := 1, 2 ^ k - 1 := (2 :: int)]"
  have ends: "section_ends k (Suc 0) = {0, 2 ^ k - 1}" using two by (auto simp: section_ends_def)
  have nth: "ps ! p = (if p = 2 ^ k - 1 then 2 else if p = 0 then 1 else 0)" if "p < 2 ^ k" for p
    using that two by (auto simp: ps_def nth_list_update)
  have "{1..2 :: int} = {1, 2}" by auto
  then have "bij_betw (nth ps) (section_ends k (Suc 0)) {1..2 ^ Suc 0}"
    using two unfolding ends by (auto simp: bij_betw_def nth inj_on_def)
  moreover have "length ps = 2 ^ k" by (simp add: ps_def)
  ultimately have "placed k (Suc 0) ps" using two nth by (simp add: placed_def ends)
  then show ?thesis by (simp add: ps_def)
qed

lemma power_of_two_and: "(2 :: int) ^ k AND (2 ^ k - 1) = 0"
  by (simp flip: mask_eq_exp_minus_1 take_bit_eq_mask add: take_bit_eq_mod)

lemma bwf_placed:
  assumes "1 \<le> k"
  obtains ps where "bwfPositions (2 ^ k) = Some ps" "placed k k ps"
proof -
  have "(2 :: int) \<le> 2 ^ k" using assms by (cases k) simp_all
  moreover have "sections_of (2 ^ k) 1 = [(0, 2 ^ k - 1)]" by (simp add: sections_of_def)
  moreover have "nat (2 ^ k) = 2 ^ k" "nat (2 ^ k - 1) = 2 ^ k - 1" by (simp_all add: nat_diff_distrib nat_power_eq)
  ultimately have "bwfPositions (2 ^ k) =
      Some (seed_loop (2 ^ k) (sections_of (2 ^ k) 1) ((replicate (2 ^ k) 0)[0 := 1, 2 ^ k - 1 := 2]) 3)"
    by (simp add: bwfPositions_def power_of_two_and nat_power_eq)
  moreover have "placed k k (seed_loop (2 ^ k) (sections_of (2 ^ k) 1) ((replicate (2 ^ k) 0)[0 := 1, 2 ^ k - 1 := 2]) 3)"
    using loop_places[OF placed_start[OF assms]] assms by simp
  ultimately show ?thesis using that by blast
qed

text \<open>The positions of one of the \<open>2 ^ r\<close> equal parts of a draw.\<close>

definition draw_part :: "nat \<Rightarrow> nat \<Rightarrow> nat \<Rightarrow> nat set" where
  "draw_part k r b = {b * 2 ^ (k - r)..<Suc b * 2 ^ (k - r)}"

lemma one_end_per_half:
  assumes "2 \<le> (w :: nat)" "w = 2 * v"
  shows "\<exists>!p. p \<in> {b * v..<Suc b * v} \<and> (p mod w = 0 \<or> Suc (p mod w) = w)"
proof -
  have v: "0 < v" using assms by simp
  define E where "E p \<longleftrightarrow> p mod w = 0 \<or> Suc (p mod w) = w" for p
  obtain c where c: "b = 2 * c \<or> b = Suc (2 * c)" by (metis evenE oddE Suc_eq_plus1)
  have m: "(c * w + q) mod w = q" if "q < w" for q using that by simp
  have end_at: "E (b * v + q) \<longleftrightarrow> q = (if even b then 0 else v - 1)" if "q < v" for q
  proof (cases "even b")
    case True
    then have b: "b * v + q = c * w + q" using c assms(2) by auto
    have "q < w" "Suc q \<noteq> w" using that assms by simp_all
    then show ?thesis unfolding E_def b using True m by simp
  next
    case False
    then have b: "b * v + q = c * w + (v + q)" using c assms(2) by auto
    have "v + q < w" "v + q \<noteq> 0" "Suc (v + q) = w \<longleftrightarrow> q = v - 1" using that assms v by auto
    then show ?thesis unfolding E_def b using False m v by simp
  qed
  define t where "t = (if even b then 0 else v - 1)"
  have t: "t < v" "E (b * v + t)" using v end_at[of t] by (simp_all add: t_def)
  have "\<exists>!p. p \<in> {b * v..<Suc b * v} \<and> E p"
  proof (rule ex1I[of _ "b * v + t"])
    show "b * v + t \<in> {b * v..<Suc b * v} \<and> E (b * v + t)" using t by simp
    fix p assume p: "p \<in> {b * v..<Suc b * v} \<and> E p"
    then obtain q where q: "p = b * v + q" "q < v" by (auto simp: le_iff_add)
    then have "q = t" using p end_at[of q] by (simp add: t_def)
    then show "p = b * v + t" by (simp only: q)
  qed
  then show ?thesis unfolding E_def .
qed

text \<open>C33. The seeds of a draw are spread fairly: for every size that is a power of two each seed gets exactly
  one position, and for every \<open>r\<close> each of the \<open>2 ^ r\<close> equal parts of the
  draw holds exactly one of the best \<open>2 ^ r\<close> seeds.\<close>

theorem seeds_meet_late:
  assumes "1 \<le> k"
  shows "\<exists>ps. bwfPositions (2 ^ k) = Some ps \<and> length ps = 2 ^ k \<and> bij_betw (nth ps) {..<2 ^ k} {1..2 ^ k} \<and>
    (\<forall>r \<le> k. \<forall>b < 2 ^ r. \<exists>!p. p \<in> draw_part k r b \<and> ps ! p \<le> 2 ^ r)"
proof -
  obtain ps where ps: "bwfPositions (2 ^ k) = Some ps" "placed k k ps" using bwf_placed[OF assms] .
  have all: "section_ends k k = {..<2 ^ k}" by (auto simp: section_ends_def)
  have len: "length ps = 2 ^ k" and bij: "bij_betw (nth ps) {..<2 ^ k} {1..2 ^ k}"
    and ages: "s \<in> {1..k} \<Longrightarrow> p < 2 ^ k \<Longrightarrow> p \<in> section_ends k s \<longleftrightarrow> 1 \<le> ps ! p \<and> ps ! p \<le> 2 ^ s" for s p
    using ps(2) unfolding placed_def all by blast+
  have pos: "1 \<le> ps ! p" if "p < 2 ^ k" for p using bij that by (auto simp: bij_betw_def)
  have "\<exists>!p. p \<in> draw_part k r b \<and> ps ! p \<le> 2 ^ r" if r: "r \<le> k" and b: "b < 2 ^ r" for r b
  proof (cases "r = 0")
    case True
    then have "p \<in> draw_part k r b \<longleftrightarrow> p < 2 ^ k" for p using b by (auto simp: draw_part_def)
    moreover have "\<exists>!p. p < 2 ^ k \<and> ps ! p \<le> 1"
    proof -
      have "1 \<in> nth ps ` {..<2 ^ k}" using bij by (simp add: bij_betw_def)
      then obtain p where p: "p < 2 ^ k" "ps ! p = 1" by auto
      have only: "q = p" if "q < 2 ^ k" "ps ! q \<le> 1" for q
      proof (rule inj_onD[of "nth ps" "{..<2 ^ k}"])
        show "inj_on (nth ps) {..<2 ^ k}" using bij by (simp add: bij_betw_def)
        show "ps ! q = ps ! p" unfolding p(2) using that(2) pos[OF that(1)] by (rule order_antisym)
        show "q \<in> {..<2 ^ k}" "p \<in> {..<2 ^ k}" using that(1) p(1) by (simp_all only: lessThan_iff)
      qed
      show ?thesis
      proof (rule ex1I[of _ p])
        show "p < 2 ^ k \<and> ps ! p \<le> 1" using p by simp
        show "q < 2 ^ k \<and> ps ! q \<le> 1 \<Longrightarrow> q = p" for q using only by blast
      qed
    qed
    ultimately show ?thesis using True by simp
  next
    case False
    then have s: "r \<in> {1..k}" using r by simp
    have w: "(2 :: nat) ^ (k + 1 - r) = 2 * 2 ^ (k - r)" using r by (simp add: Suc_diff_le)
    have "Suc b * 2 ^ (k - r) \<le> 2 ^ r * 2 ^ (k - r)" using b by (intro mult_le_mono1) simp
    also have "\<dots> = 2 ^ k" using r by (simp flip: power_add)
    finally have inside: "p \<in> draw_part k r b \<Longrightarrow> p < 2 ^ k" for p by (simp add: draw_part_def)
    then have "p \<in> draw_part k r b \<and> ps ! p \<le> 2 ^ r \<longleftrightarrow>
        p \<in> {b * 2 ^ (k - r)..<Suc b * 2 ^ (k - r)} \<and> (p mod 2 ^ (k + 1 - r) = 0 \<or> Suc (p mod 2 ^ (k + 1 - r)) = 2 ^ (k + 1 - r))" for p
      using ages[OF s, of p] pos[of p] by (auto simp: draw_part_def section_ends_def)
    moreover have "(2 :: nat) \<le> 2 ^ (k + 1 - r)" unfolding w by simp
    note one_end_per_half[OF this w, of b]
    ultimately show ?thesis by (simp only:)
  qed
  then show ?thesis using ps(1) len bij by blast
qed

theorem seeds_meet_late_witness:
  "bwfPositions 8 = Some [1, 6, 5, 4, 3, 8, 7, 2] \<and> seedForPosition 8 3 = Some (Some 4) \<and> bwfPositions 6 = None \<and>
   (\<exists>!p. p \<in> draw_part 3 2 1 \<and> [1, 6, 5, 4, 3, 8, 7, 2 :: int] ! p \<le> 2 ^ 2)"
proof (intro conjI)
  show b: "bwfPositions 8 = Some [1, 6, 5, 4, 3, 8, 7, 2]" by code_simp
  show "seedForPosition 8 3 = Some (Some 4)" "bwfPositions 6 = None" by code_simp+
  have e: "(2 :: int) ^ 3 = 8" by simp
  obtain ps where "bwfPositions (2 ^ 3) = Some ps" "\<forall>r \<le> 3. \<forall>b < 2 ^ r. \<exists>!p. p \<in> draw_part 3 r b \<and> ps ! p \<le> 2 ^ r"
    using seeds_meet_late[of 3] by auto
  with b have F: "\<forall>r \<le> 3. \<forall>b < 2 ^ r. \<exists>!p. p \<in> draw_part 3 r b \<and> [1, 6, 5, 4, 3, 8, 7, 2 :: int] ! p \<le> 2 ^ r" by (simp add: e)
  show "\<exists>!p. p \<in> draw_part 3 2 1 \<and> [1, 6, 5, 4, 3, 8, 7, 2 :: int] ! p \<le> 2 ^ 2" by (rule F[rule_format]) simp_all
qed

end
