(* ===== verification/Pairing.thy ===== *)
theory Pairing
  imports Roster Seeding "HOL-Library.Multiset"
begin

text \<open>
  Who is entered in a bracket draw, under \<open>modules/bracket\<close>: the participants of an event and the ids of
  new teams (\<open>rosterEvents.ts\<close>), the pairing commands (\<open>pairingMutation.ts\<close>), the body of the write
  (\<open>eventUpsertPayload.ts\<close>), and the surfaces that send it: the entry toggle and partner picker of
  a player (\<open>BracketPlayerFields.tsx\<close>), the two pickers of a draw (\<open>ParticipantPicker.tsx\<close>), the
  commit of their picks and the creation of a draw (\<open>BracketDrawsTab.tsx\<close>), and the swap of two slots of
  a generated draw (\<open>DrawView.tsx\<close>). What the server does with a write is a parameter.
\<close>

section \<open>Participants\<close>

record participant =
  pt_id :: string
  pt_name :: string
  pt_members :: "string list option"
  pt_seed :: "int option"
  pt_entryPlayerId :: "string option"
  pt_personId :: "string option"
  pt_personSource :: "string option"

datatype event_status = DrawDraft | DrawGenerated | DrawStarted

record draw_event = bracket_event +
  de_status :: "event_status option"
  de_bracket_size :: "int option"
  de_seeded_count :: "int option"
  de_rr_rounds :: "int option"
  de_config :: "js_object option"
  de_participants :: "participant list option"

record upsert_in =
  ui_discipline :: string
  ui_format :: string
  ui_bracket_size :: "int option"
  ui_seeded_count :: "int option"
  ui_rr_rounds :: "int option"
  ui_config :: "js_object option"
  ui_duration_slots :: int
  ui_participants :: "participant list"

definition entered_in :: "draw_event \<Rightarrow> participant list" where
  "entered_in ev = or_else (de_participants ev) []"

definition is_draft :: "draw_event \<Rightarrow> bool" where
  "is_draft ev \<longleftrightarrow> or_else (de_status ev) DrawDraft = DrawDraft"

definition members_of :: "participant \<Rightarrow> string list" where
  "members_of p = or_else (pt_members p) []"

text \<open>The people of a row: the members of a team, the row itself otherwise.\<close>

definition occupants :: "participant \<Rightarrow> string list" where
  "occupants p = (if members_of p = [] then [pt_id p] else members_of p)"

definition containsPlayer :: "string \<Rightarrow> participant \<Rightarrow> bool" where
  "containsPlayer playerId p \<longleftrightarrow> pt_id p = playerId \<or> playerId \<in> set (members_of p)"

definition team_with :: "string \<Rightarrow> participant \<Rightarrow> bool" where
  "team_with playerId p \<longleftrightarrow> members_of p \<noteq> [] \<and> playerId \<in> set (members_of p)"

definition teamForPlayer :: "participant list \<Rightarrow> string \<Rightarrow> participant option" where
  "teamForPlayer ps playerId = find (team_with playerId) ps"

definition isEnteredIn :: "draw_event \<Rightarrow> string \<Rightarrow> bool" where
  "isEnteredIn ev playerId = list_ex (containsPlayer playerId) (entered_in ev)"

definition enteredPlayerIds :: "draw_event \<Rightarrow> string set" where
  "enteredPlayerIds ev = set (concat (map occupants (entered_in ev)))"

definition partnerIdForPlayer :: "participant list option \<Rightarrow> string \<Rightarrow> string option" where
  "partnerIdForPlayer ps playerId =
     (case teamForPlayer (or_else ps []) playerId of
        None \<Rightarrow> None
      | Some team \<Rightarrow> find (\<lambda>m. m \<noteq> playerId) (members_of team))"

text \<open>The number of a synthesised team id, \<open>^{eventId}-T(\d+)$\<close>.\<close>

definition team_number :: "string \<Rightarrow> string \<Rightarrow> nat option" where
  "team_number eventId i =
     (let stem = eventId @ ''-T''
      in if prefix stem i \<and> all_digits (drop (length stem) i) then Some (parse_nat (drop (length stem) i)) else None)"

definition nextTeamId :: "string \<Rightarrow> string list \<Rightarrow> string" where
  "nextTeamId eventId ids =
     eventId @ ''-T'' @ nat_text (fold (\<lambda>i m. case team_number eventId i of Some n \<Rightarrow> max m n | None \<Rightarrow> m) ids 0 + 1)"

definition toUpsertParticipant :: "participant \<Rightarrow> participant" where
  "toUpsertParticipant p = p\<lparr>pt_members := (if members_of p = [] then None else Some (members_of p))\<rparr>"

definition buildEventUpsertPayload :: "draw_event \<Rightarrow> participant list \<Rightarrow> upsert_in" where
  "buildEventUpsertPayload ev participants =
     \<lparr>ui_discipline = ev_discipline ev, ui_format = ev_format ev, ui_bracket_size = de_bracket_size ev,
      ui_seeded_count = de_seeded_count ev, ui_rr_rounds = de_rr_rounds ev, ui_config = de_config ev,
      ui_duration_slots = 1, ui_participants = participants\<rparr>"

section \<open>Pairing commands\<close>

record pairing_player =
  pp_id :: string
  pp_name :: string
  pp_entryPlayerId :: "string option"

datatype pairing_command =
  PairAssign pairing_player pairing_player
| PairChange pairing_player pairing_player
| PairDissolve string
| PairReplace "participant list"

datatype pairing_error = SelfPaired | PartnerTaken | PairingLocked

fun pairing_message :: "pairing_error \<Rightarrow> string" where
  "pairing_message SelfPaired = ''A player cannot be paired with themself.''"
| "pairing_message PartnerTaken = ''That partner is already entered in this draw.''"
| "pairing_message PairingLocked = ''Participants are locked once a draw is generated.''"

definition assertAvailablePartner ::
  "participant list \<Rightarrow> string \<Rightarrow> string \<Rightarrow> string option \<Rightarrow> pairing_error option" where
  "assertAvailablePartner ps playerId partnerId ignoredTeamId =
     (if playerId = partnerId then Some SelfPaired
      else case find (\<lambda>p. Some (pt_id p) \<noteq> ignoredTeamId \<and> containsPlayer partnerId p) ps of
             None \<Rightarrow> None
           | Some occupied \<Rightarrow> if members_of occupied \<noteq> [] then Some PartnerTaken else None)"

definition withoutEntryPlayerId :: "participant \<Rightarrow> participant" where
  "withoutEntryPlayerId p = p\<lparr>pt_entryPlayerId := None\<rparr>"

definition changed_team :: "pairing_player \<Rightarrow> pairing_player \<Rightarrow> participant \<Rightarrow> participant" where
  "changed_team player partner p =
     (withoutEntryPlayerId (toUpsertParticipant p))
       \<lparr>pt_name := teamName (pp_name player) (pp_name partner), pt_members := Some [pp_id player, pp_id partner],
        pt_entryPlayerId := pp_entryPlayerId player\<rparr>"

definition new_team :: "string \<Rightarrow> pairing_player \<Rightarrow> pairing_player \<Rightarrow> participant" where
  "new_team i player partner =
     \<lparr>pt_id = i, pt_name = teamName (pp_name player) (pp_name partner),
      pt_members = Some [pp_id player, pp_id partner], pt_seed = None,
      pt_entryPlayerId = pp_entryPlayerId player, pt_personId = None, pt_personSource = None\<rparr>"

definition regroup ::
  "string \<Rightarrow> participant list \<Rightarrow> pairing_player \<Rightarrow> pairing_player \<Rightarrow> participant list" where
  "regroup eventId current player partner =
     (case teamForPlayer current (pp_id player) of
        Some team \<Rightarrow>
          map (\<lambda>p. if pt_id p \<noteq> pt_id team then toUpsertParticipant p else changed_team player partner p)
            (filter (\<lambda>p. pt_id p = pt_id team \<or> \<not> containsPlayer (pp_id partner) p) current)
      | None \<Rightarrow>
          map toUpsertParticipant
            (filter (\<lambda>p. \<not> containsPlayer (pp_id partner) p)
              (filter (\<lambda>p. \<not> containsPlayer (pp_id player) p) current))
          @ [new_team (nextTeamId eventId (map pt_id current)) player partner])"

function applyBracketPairingCommand ::
  "string \<Rightarrow> participant list option \<Rightarrow> pairing_command \<Rightarrow> pairing_error + participant list" where
  "applyBracketPairingCommand eventId ps (PairReplace new) = Inr new"
| "applyBracketPairingCommand eventId ps (PairDissolve playerId) =
     (let current = or_else ps []
      in case teamForPlayer current playerId of
           None \<Rightarrow> Inr (map toUpsertParticipant (filter (\<lambda>p. pt_id p \<noteq> playerId) current))
         | Some team \<Rightarrow> Inr (map toUpsertParticipant (filter (\<lambda>p. pt_id p \<noteq> pt_id team) current)))"
| "applyBracketPairingCommand eventId ps (PairChange player partner) =
     (let current = or_else ps []; existingTeam = teamForPlayer current (pp_id player)
      in case assertAvailablePartner current (pp_id player) (pp_id partner) (map_option pt_id existingTeam) of
           Some e \<Rightarrow> Inl e
         | None \<Rightarrow>
             if existingTeam = None then applyBracketPairingCommand eventId ps (PairAssign player partner)
             else Inr (regroup eventId current player partner))"
| "applyBracketPairingCommand eventId ps (PairAssign player partner) =
     (let current = or_else ps []
      in case assertAvailablePartner current (pp_id player) (pp_id partner) None of
           Some e \<Rightarrow> Inl e
         | None \<Rightarrow> Inr (regroup eventId current player partner))"
  by pat_completeness auto
termination
  by (relation "measure (\<lambda>(_, _, c). case c of PairChange _ _ \<Rightarrow> 1 | _ \<Rightarrow> 0)") simp_all

text \<open>The one write seam: the lock, then the body that goes to the server.\<close>

definition commitBracketPairing ::
  "draw_event \<Rightarrow> pairing_command \<Rightarrow> pairing_error + (string \<times> upsert_in)" where
  "commitBracketPairing ev command =
     (if \<not> is_draft ev then Inl PairingLocked
      else case applyBracketPairingCommand (ev_id ev) (de_participants ev) command of
             Inl e \<Rightarrow> Inl e
           | Inr participants \<Rightarrow> Inr (ev_id ev, buildEventUpsertPayload ev participants))"

section \<open>The entry controls of a player\<close>

record bracket_player =
  bpl_id :: string
  bpl_name :: string
  bpl_entryPlayerId :: "string option"

datatype toggle_outcome = OpensPicker | Sends "pairing_error + (string \<times> upsert_in)"

definition single_row :: "bracket_player \<Rightarrow> participant" where
  "single_row p =
     \<lparr>pt_id = bpl_id p, pt_name = bpl_name p, pt_members = None, pt_seed = None,
      pt_entryPlayerId = bpl_entryPlayerId p, pt_personId = None, pt_personSource = None\<rparr>"

definition handleToggle :: "bracket_player \<Rightarrow> draw_event \<Rightarrow> toggle_outcome" where
  "handleToggle player ev =
     (let existing = map toUpsertParticipant (entered_in ev)
      in if isEnteredIn ev (bpl_id player) then
           (if isDoublesCode (ev_discipline ev) then Sends (commitBracketPairing ev (PairDissolve (bpl_id player)))
            else Sends (Inr (ev_id ev, buildEventUpsertPayload ev
              (filter (\<lambda>p. pt_id p \<noteq> bpl_id player \<and> bpl_id player \<notin> set (members_of p)) existing))))
         else if isDoublesCode (ev_discipline ev) then OpensPicker
         else Sends (Inr (ev_id ev, buildEventUpsertPayload ev (existing @ [single_row player]))))"

definition as_pairing :: "bracket_player \<Rightarrow> pairing_player" where
  "as_pairing p = \<lparr>pp_id = bpl_id p, pp_name = bpl_name p, pp_entryPlayerId = bpl_entryPlayerId p\<rparr>"

definition confirmPartner ::
  "bracket_player list \<Rightarrow> bracket_player \<Rightarrow> string \<Rightarrow> draw_event \<Rightarrow>
   (pairing_error + (string \<times> upsert_in)) option" where
  "confirmPartner roster player partnerId ev =
     (case find (\<lambda>p. bpl_id p = partnerId) roster of
        None \<Rightarrow> None
      | Some partner \<Rightarrow>
          (let command = (if list_ex (team_with (bpl_id player)) (entered_in ev) then PairChange else PairAssign)
           in Some (commitBracketPairing ev (command (as_pairing player) (as_pairing partner)))))"

section \<open>The pickers of a draw\<close>

text \<open>A pick of either picker; a single has no members.\<close>

record picked =
  pk_id :: string
  pk_name :: string
  pk_members :: "string list option"
  pk_entryPlayerId :: "string option"

definition initial_pairs :: "draw_event \<Rightarrow> picked list" where
  "initial_pairs ev = map (\<lambda>p. \<lparr>pk_id = pt_id p, pk_name = pt_name p, pk_members = pt_members p,
     pk_entryPlayerId = pt_entryPlayerId p\<rparr>) (entered_in ev)"

definition toggle_single :: "string \<Rightarrow> string list \<Rightarrow> string list" where
  "toggle_single i current = (if i \<in> set current then filter (\<lambda>x. x \<noteq> i) current else current @ [i])"

definition saved_singles :: "bracket_player list \<Rightarrow> string list \<Rightarrow> picked list" where
  "saved_singles players picked_ids =
     map (\<lambda>p. \<lparr>pk_id = bpl_id p, pk_name = bpl_name p, pk_members = None, pk_entryPlayerId = bpl_entryPlayerId p\<rparr>)
       (List.map_filter (\<lambda>i. find (\<lambda>p. bpl_id p = i) players) picked_ids)"

datatype pick_step = StepA | StepB

record doubles_picker =
  dp_step :: pick_step
  dp_pickedA :: "bracket_player option"
  dp_pickedB :: "bracket_player option"
  dp_pairs :: "picked list"
  dp_replacement :: "(picked \<times> bracket_player) option"

definition open_picker :: "picked list \<Rightarrow> doubles_picker" where
  "open_picker initial = \<lparr>dp_step = StepA, dp_pickedA = None, dp_pickedB = None, dp_pairs = initial, dp_replacement = None\<rparr>"

definition pair_people :: "picked \<Rightarrow> string list" where
  "pair_people x = (let m = or_else (pk_members x) [] in if m = [] then [pk_id x] else m)"

definition pairedWith :: "picked list \<Rightarrow> (string, string) dict" where
  "pairedWith pairs =
     fold (\<lambda>x d. case or_else (pk_members x) [] of
         a # b # _ \<Rightarrow> if a \<noteq> [] \<and> b \<noteq> [] then AList.update b a (AList.update a b d) else d
       | _ \<Rightarrow> d) pairs []"

text \<open>The radio of a player is disabled while the player is the one chosen for A.\<close>

definition unavailable :: "doubles_picker \<Rightarrow> string \<Rightarrow> bool" where
  "unavailable d i \<longleftrightarrow> dp_step d = StepB \<and> map_option bpl_id (dp_pickedA d) = Some i"

definition pick :: "bracket_player list \<Rightarrow> string \<Rightarrow> doubles_picker \<Rightarrow> doubles_picker" where
  "pick players i d =
     (case find (\<lambda>p. bpl_id p = i) players of
        None \<Rightarrow> d
      | Some p \<Rightarrow>
          (case (case map_of (pairedWith (dp_pairs d)) (bpl_id p) of
                   None \<Rightarrow> None
                 | Some _ \<Rightarrow> find (\<lambda>x. bpl_id p \<in> set (or_else (pk_members x) [])) (dp_pairs d)) of
             Some pair \<Rightarrow> d\<lparr>dp_replacement := Some (pair, p)\<rparr>
           | None \<Rightarrow>
               if dp_step d = StepA then d\<lparr>dp_pickedA := Some p, dp_step := StepB\<rparr>
               else if dp_pickedA d = None then d
               else d\<lparr>dp_pickedB := Some p\<rparr>))"

definition makePair :: "string \<Rightarrow> doubles_picker \<Rightarrow> picked option" where
  "makePair eventId d =
     (case (dp_pickedA d, dp_pickedB d) of
        (Some a, Some b) \<Rightarrow>
          Some \<lparr>pk_id = nextTeamId eventId (map pk_id (dp_pairs d)), pk_name = teamName (bpl_name a) (bpl_name b),
                pk_members = Some [bpl_id a, bpl_id b], pk_entryPlayerId = bpl_entryPlayerId a\<rparr>
      | _ \<Rightarrow> None)"

definition confirmPair :: "string \<Rightarrow> doubles_picker \<Rightarrow> (picked list \<times> doubles_picker) option" where
  "confirmPair eventId d =
     (case (makePair eventId d, dp_pickedA d, dp_pickedB d) of
        (Some nextPair, Some a, Some b) \<Rightarrow>
          (let nextPairs = filter (\<lambda>x. bpl_id a \<notin> set (pair_people x) \<and> bpl_id b \<notin> set (pair_people x)) (dp_pairs d)
                 @ [nextPair]
           in Some (nextPairs, d\<lparr>dp_pairs := nextPairs, dp_pickedA := None, dp_pickedB := None, dp_step := StepA\<rparr>))
      | _ \<Rightarrow> None)"

text \<open>Saving: what is committed, and the picker afterwards.\<close>

definition savePairs :: "string \<Rightarrow> doubles_picker \<Rightarrow> picked list option \<times> doubles_picker" where
  "savePairs eventId d =
     (if dp_pickedB d \<noteq> None
      then case confirmPair eventId d of Some (xs, d') \<Rightarrow> (Some xs, d') | None \<Rightarrow> (None, d)
      else (Some (dp_pairs d), d))"

definition confirmReplacement :: "doubles_picker \<Rightarrow> doubles_picker" where
  "confirmReplacement d =
     (case dp_replacement d of
        None \<Rightarrow> d
      | Some (pair, player) \<Rightarrow>
          (let d' = d\<lparr>dp_pairs := filter (\<lambda>x. pk_id x \<noteq> pk_id pair) (dp_pairs d), dp_replacement := None\<rparr>
           in if dp_step d = StepA then d'\<lparr>dp_pickedA := Some player, dp_step := StepB\<rparr>
              else d'\<lparr>dp_pickedB := Some player\<rparr>))"

definition dismissReplacement :: "doubles_picker \<Rightarrow> doubles_picker" where
  "dismissReplacement d = d\<lparr>dp_replacement := None\<rparr>"

definition seedOf :: "draw_event \<Rightarrow> string \<Rightarrow> int option" where
  "seedOf ev i = Option.bind (find (\<lambda>p. pt_id p = i) (entered_in ev)) pt_seed"

definition picked_row :: "draw_event \<Rightarrow> picked \<Rightarrow> participant" where
  "picked_row ev x =
     \<lparr>pt_id = pk_id x, pt_name = pk_name x, pt_members = pk_members x, pt_seed = seedOf ev (pk_id x),
      pt_entryPlayerId = pk_entryPlayerId x, pt_personId = None, pt_personSource = None\<rparr>"

definition commitPicks :: "draw_event \<Rightarrow> picked list \<Rightarrow> pairing_error + (string \<times> upsert_in)" where
  "commitPicks ev picks =
     (let participants = map (picked_row ev) picks
      in if isDoublesCode (ev_discipline ev) then commitBracketPairing ev (PairReplace participants)
         else Inr (ev_id ev, buildEventUpsertPayload ev participants))"

section \<open>Everyone at most once\<close>

text \<open>The invariant of a draw: its rows have ids of their own, each row is a person or a pair, and nobody is in
  two rows or twice in one.\<close>

definition entered_once :: "participant list \<Rightarrow> bool" where
  "entered_once ps \<longleftrightarrow> distinct (map pt_id ps) \<and> distinct (concat (map occupants ps)) \<and>
     (\<forall>p \<in> set ps. length (members_of p) \<le> 2)"

lemma concat_filter_distinct: "distinct (concat (map f xs)) \<Longrightarrow> distinct (concat (map f (filter P xs)))"
  by (induction xs) auto

lemma distinct_map_filter_fst: "distinct (map f xs) \<Longrightarrow> distinct (map f (filter P xs))"
  by (simp add: distinct_map_filter)

lemma once_filter: "entered_once ps \<Longrightarrow> entered_once (filter P ps)"
  by (auto simp: entered_once_def concat_filter_distinct distinct_map_filter)

lemma members_toUpsert [simp]: "members_of (toUpsertParticipant p) = members_of p"
  by (simp add: toUpsertParticipant_def members_of_def)

lemma fields_toUpsert [simp]:
  "pt_id (toUpsertParticipant p) = pt_id p" "pt_name (toUpsertParticipant p) = pt_name p"
  "pt_seed (toUpsertParticipant p) = pt_seed p" "pt_entryPlayerId (toUpsertParticipant p) = pt_entryPlayerId p"
  "pt_personId (toUpsertParticipant p) = pt_personId p" "pt_personSource (toUpsertParticipant p) = pt_personSource p"
  by (simp_all add: toUpsertParticipant_def)

lemma occupants_toUpsert [simp]: "occupants (toUpsertParticipant p) = occupants p"
  by (simp add: occupants_def)

lemma contains_toUpsert [simp]: "containsPlayer i (toUpsertParticipant p) = containsPlayer i p"
  by (simp add: containsPlayer_def)

lemma toUpsert_map_comp [simp]:
  "pt_id \<circ> toUpsertParticipant = pt_id" "occupants \<circ> toUpsertParticipant = occupants"
  by (simp_all add: comp_def)

lemma once_toUpsert [simp]: "entered_once (map toUpsertParticipant ps) \<longleftrightarrow> entered_once ps"
  by (simp add: entered_once_def)

lemma once_snoc:
  "entered_once (ps @ [p]) \<longleftrightarrow> entered_once ps \<and> pt_id p \<notin> pt_id ` set ps \<and> distinct (occupants p) \<and>
     length (members_of p) \<le> 2 \<and> (\<forall>q \<in> set ps. set (occupants q) \<inter> set (occupants p) = {})"
  by (auto simp: entered_once_def)

lemma occupants_contains: "set (occupants p) \<subseteq> {i. containsPlayer i p}"
  by (auto simp: occupants_def containsPlayer_def)

lemma once_same:
  assumes "entered_once ps" "p \<in> set ps" "q \<in> set ps" "i \<in> set (occupants p)" "i \<in> set (occupants q)"
  shows "p = q"
proof (rule ccontr)
  assume "p \<noteq> q"
  obtain us vs where ps: "ps = us @ p # vs" using split_list[OF assms(2)] by blast
  then have "q \<in> set us \<or> q \<in> set vs" using assms(3) \<open>p \<noteq> q\<close> by auto
  then show False using assms(1,4,5) by (auto simp: entered_once_def ps)
qed

lemma team_with_occupant: "team_with i p \<Longrightarrow> i \<in> set (occupants p)"
  by (simp add: team_with_def occupants_def)

lemma teamForPlayer_unique:
  assumes "entered_once ps" "t \<in> set ps" "team_with i t"
  shows "teamForPlayer ps i = Some t"
proof (cases "teamForPlayer ps i")
  case None
  then show ?thesis using assms(2,3) by (simp add: teamForPlayer_def find_None_iff)
next
  case (Some u)
  then have "u \<in> set ps" "team_with i u" by (auto simp: teamForPlayer_def find_Some_iff)
  then show ?thesis using once_same[OF assms(1,2)] team_with_occupant assms(3) Some by blast
qed

lemma teamForPlayer_SomeD: "teamForPlayer ps i = Some t \<Longrightarrow> t \<in> set ps \<and> team_with i t"
  by (auto simp: teamForPlayer_def find_Some_iff)

lemma teamForPlayer_NoneD: "teamForPlayer ps i = None \<Longrightarrow> p \<in> set ps \<Longrightarrow> \<not> team_with i p"
  by (auto simp: teamForPlayer_def find_None_iff)

section \<open>Team ids\<close>

lemma prefix_append: "prefix xs (xs @ ys)"
  by (simp add: prefix_def)

lemma max_number_bound:
  assumes "i \<in> set ids" "team_number e i = Some n"
  shows "n \<le> fold (\<lambda>i m. case team_number e i of Some n \<Rightarrow> max m n | None \<Rightarrow> m) ids (k :: nat)"
proof -
  have mono: "k \<le> fold (\<lambda>i m. case team_number e i of Some n \<Rightarrow> max m n | None \<Rightarrow> m) ids k" for ids and k :: nat
  proof (induction ids arbitrary: k)
    case (Cons j ids)
    show ?case
      using Cons[of "case team_number e j of Some n \<Rightarrow> max k n | None \<Rightarrow> k"]
      by (auto split: option.splits elim: le_trans)
  qed simp
  show ?thesis using assms
  proof (induction ids arbitrary: k)
    case (Cons j ids)
    show ?case
    proof (cases "j = i")
      case True
      then show ?thesis using mono[of "max k n" ids] Cons.prems by simp
    next
      case False
      then show ?thesis using Cons by (auto split: option.splits)
    qed
  qed simp
qed

lemma team_number_next: "team_number e (e @ ''-T'' @ nat_text n) = Some n"
proof -
  have s: "e @ ''-T'' @ nat_text n = (e @ ''-T'') @ nat_text n" by simp
  have d: "drop (length xs) (xs @ ys) = ys" for xs ys :: string by simp
  show ?thesis
    unfolding s team_number_def Let_def d by (simp only: prefix_append all_digits_nat_text parse_nat_text simp_thms if_True)
qed

lemma nextTeamId_fresh: "nextTeamId e ids \<notin> set ids"
proof
  assume a: "nextTeamId e ids \<in> set ids"
  let ?m = "fold (\<lambda>i m. case team_number e i of Some n \<Rightarrow> max m n | None \<Rightarrow> m) ids 0"
  have "team_number e (nextTeamId e ids) = Some (?m + 1)" unfolding nextTeamId_def by (rule team_number_next)
  from max_number_bound[OF a this, of 0] show False by simp
qed

section \<open>What a pairing command does\<close>

lemma occupant_contained: "i \<in> set (occupants p) \<Longrightarrow> containsPlayer i p"
  using occupants_contains by blast

lemma changed_team_fields [simp]:
  "pt_id (changed_team a b p) = pt_id p" "members_of (changed_team a b p) = [pp_id a, pp_id b]"
  "pt_seed (changed_team a b p) = pt_seed p" "pt_entryPlayerId (changed_team a b p) = pp_entryPlayerId a"
  "occupants (changed_team a b p) = [pp_id a, pp_id b]"
  by (simp_all add: changed_team_def withoutEntryPlayerId_def members_of_def occupants_def)

lemma new_team_fields [simp]:
  "pt_id (new_team i a b) = i" "members_of (new_team i a b) = [pp_id a, pp_id b]"
  "occupants (new_team i a b) = [pp_id a, pp_id b]" "pt_entryPlayerId (new_team i a b) = pp_entryPlayerId a"
  by (simp_all add: new_team_def members_of_def occupants_def)

lemma once_change_row:
  assumes once: "entered_once (us @ t # vs)" and ab: "a \<noteq> b"
    and t': "pt_id t' = pt_id t" "members_of t' = [a, b]"
    and free: "\<forall>p \<in> set us \<union> set vs. a \<notin> set (occupants p) \<and> b \<notin> set (occupants p)"
  shows "entered_once (us @ t' # vs)"
proof -
  have o: "occupants t' = [a, b]" by (simp add: occupants_def t')
  show ?thesis using assms by (auto simp: entered_once_def o)
qed

text \<open>A change seen on the list: the row of the team is rewritten, the rows of the partner go, the rest stays.\<close>

lemma regroup_team:
  assumes once: "entered_once ps" and team: "teamForPlayer ps (pp_id a) = Some t"
  obtains us vs where "ps = us @ t # vs" "\<forall>p \<in> set us \<union> set vs. pt_id p \<noteq> pt_id t"
    and "regroup e ps a b =
      map toUpsertParticipant (filter (\<lambda>p. \<not> containsPlayer (pp_id b) p) us) @ changed_team a b t #
      map toUpsertParticipant (filter (\<lambda>p. \<not> containsPlayer (pp_id b) p) vs)"
proof -
  have "t \<in> set ps" using teamForPlayer_SomeD[OF team] by simp
  then obtain us vs where ps: "ps = us @ t # vs" by (blast dest: split_list)
  then have ids: "\<forall>p \<in> set us \<union> set vs. pt_id p \<noteq> pt_id t" using once by (auto simp: entered_once_def image_iff)
  have part: "filter (\<lambda>p. pt_id p = pt_id t \<or> \<not> containsPlayer (pp_id b) p) xs = filter (\<lambda>p. \<not> containsPlayer (pp_id b) p) xs"
      "map (\<lambda>p. if pt_id p \<noteq> pt_id t then toUpsertParticipant p else changed_team a b p)
         (filter (\<lambda>p. \<not> containsPlayer (pp_id b) p) xs) =
       map toUpsertParticipant (filter (\<lambda>p. \<not> containsPlayer (pp_id b) p) xs)"
    if "\<forall>p \<in> set xs. pt_id p \<noteq> pt_id t" for xs
    using that by (auto intro: filter_cong)
  have "regroup e ps a b =
      map toUpsertParticipant (filter (\<lambda>p. \<not> containsPlayer (pp_id b) p) us) @ changed_team a b t #
      map toUpsertParticipant (filter (\<lambda>p. \<not> containsPlayer (pp_id b) p) vs)"
    using part[of us] part[of vs] ids by (simp add: regroup_def team) (simp add: ps)
  with that ps ids show ?thesis by blast
qed

lemma regroup_once:
  assumes once: "entered_once ps" and ab: "pp_id a \<noteq> pp_id b"
  shows "entered_once (regroup e ps a b)"
proof (cases "teamForPlayer ps (pp_id a)")
  case None
  let ?kept = "filter (\<lambda>p. \<not> containsPlayer (pp_id b) p) (filter (\<lambda>p. \<not> containsPlayer (pp_id a) p) ps)"
  have "entered_once (map toUpsertParticipant ?kept)" using once by (simp add: once_filter)
  moreover have "nextTeamId e (map pt_id ps) \<notin> pt_id ` set (map toUpsertParticipant ?kept)"
    using nextTeamId_fresh[of e "map pt_id ps"] by auto
  ultimately show ?thesis
    using ab by (auto simp: regroup_def None once_snoc dest: occupant_contained)
next
  case (Some t)
  then obtain us vs where ps: "ps = us @ t # vs" and r: "regroup e ps a b =
      map toUpsertParticipant (filter (\<lambda>p. \<not> containsPlayer (pp_id b) p) us) @ changed_team a b t #
      map toUpsertParticipant (filter (\<lambda>p. \<not> containsPlayer (pp_id b) p) vs)"
    using regroup_team[OF once] by blast
  let ?u = "map toUpsertParticipant (filter (\<lambda>p. \<not> containsPlayer (pp_id b) p) us)"
  let ?v = "map toUpsertParticipant (filter (\<lambda>p. \<not> containsPlayer (pp_id b) p) vs)"
  have at: "pp_id a \<in> set (occupants t)" using teamForPlayer_SomeD[OF Some] by (simp add: team_with_occupant)
  have o: "entered_once (?u @ t # ?v)" using once
    by (auto simp: ps entered_once_def concat_filter_distinct distinct_map_filter)
  have a: "\<forall>p \<in> set us \<union> set vs. pp_id a \<notin> set (occupants p)"
    using once at by (auto simp: ps entered_once_def)
  have f: "\<forall>p \<in> set ?u \<union> set ?v. pp_id a \<notin> set (occupants p) \<and> pp_id b \<notin> set (occupants p)"
    using a by (auto dest: occupant_contained)
  show ?thesis unfolding r
    by (rule once_change_row[OF o ab _ _ f]) simp_all
qed

text \<open>No team has the id of the person.\<close>

definition not_a_team :: "participant list \<Rightarrow> string \<Rightarrow> bool" where
  "not_a_team ps i \<longleftrightarrow> list_all (\<lambda>t. members_of t = [] \<or> pt_id t \<noteq> i) ps"

lemma contained_occupant:
  "not_a_team ps i \<Longrightarrow> p \<in> set ps \<Longrightarrow> containsPlayer i p \<Longrightarrow> i \<in> set (occupants p)"
  by (auto simp: not_a_team_def list_all_iff containsPlayer_def occupants_def members_of_def)

text \<open>The partner is in a team that the command does not rewrite.\<close>

definition partner_taken :: "participant list \<Rightarrow> bool \<Rightarrow> string \<Rightarrow> string \<Rightarrow> bool" where
  "partner_taken ps change a b \<longleftrightarrow> list_ex (\<lambda>t. team_with b t \<and> \<not> (change \<and> team_with a t)) ps"

lemma same_team_id:
  assumes "entered_once ps" "teamForPlayer ps a = Some t" "p \<in> set ps"
  shows "pt_id p = pt_id t \<longleftrightarrow> team_with a p"
proof
  assume "pt_id p = pt_id t"
  moreover have "t \<in> set ps" "team_with a t" using teamForPlayer_SomeD[OF assms(2)] by auto
  ultimately show "team_with a p"
    using assms(1,3) by (metis distinct_map entered_once_def inj_onD)
next
  assume "team_with a p"
  then show "pt_id p = pt_id t" using teamForPlayer_unique[OF assms(1,3)] assms(2) by simp
qed

lemma ignored_row:
  assumes "entered_once ps" "p \<in> set ps"
  shows "Some (pt_id p) \<noteq> (if change then map_option pt_id (teamForPlayer ps a) else None) \<longleftrightarrow> \<not> (change \<and> team_with a p)"
  using assms teamForPlayer_NoneD[OF _ assms(2), of a] same_team_id[OF assms(1) _ assms(2), of a]
  by (cases "teamForPlayer ps a") auto

lemma available_iff:
  assumes once: "entered_once ps" and ids: "not_a_team ps b"
  shows "assertAvailablePartner ps a b (if change then map_option pt_id (teamForPlayer ps a) else None) =
     (if a = b then Some SelfPaired else if partner_taken ps change a b then Some PartnerTaken else None)"
proof (cases "a = b")
  case False
  let ?P = "\<lambda>p. Some (pt_id p) \<noteq> (if change then map_option pt_id (teamForPlayer ps a) else None) \<and> containsPlayer b p"
  show ?thesis
  proof (cases "find ?P ps")
    case None
    then have "\<not> partner_taken ps change a b"
      using ignored_row[OF once, of _ change a]
      by (auto simp: find_None_iff partner_taken_def list_ex_iff team_with_def containsPlayer_def)
    with None False show ?thesis by (simp add: assertAvailablePartner_def)
  next
    case (Some occ)
    then have o: "occ \<in> set ps" "containsPlayer b occ" "\<not> (change \<and> team_with a occ)"
      using ignored_row[OF once, of _ change a] by (auto simp: find_Some_iff)
    have bo: "b \<in> set (occupants occ)" using contained_occupant[OF ids o(1,2)] .
    have "partner_taken ps change a b \<longleftrightarrow> members_of occ \<noteq> []"
    proof
      assume "partner_taken ps change a b"
      then obtain u where u: "u \<in> set ps" "team_with b u" by (auto simp: partner_taken_def list_ex_iff)
      then have "occ = u" using once_same[OF once o(1) u(1) bo] team_with_occupant by blast
      then show "members_of occ \<noteq> []" using u(2) by (simp add: team_with_def)
    next
      assume "members_of occ \<noteq> []"
      then have "team_with b occ" using bo by (simp add: team_with_def occupants_def)
      then show "partner_taken ps change a b" using o by (auto simp: partner_taken_def list_ex_iff)
    qed
    with Some False show ?thesis by (simp add: assertAvailablePartner_def)
  qed
qed (simp add: assertAvailablePartner_def)

lemma command_outcome:
  assumes "entered_once ps" "not_a_team ps (pp_id b)"
  shows "applyBracketPairingCommand e (Some ps) ((if change then PairChange else PairAssign) a b) =
     (if pp_id a = pp_id b then Inl SelfPaired
      else if partner_taken ps change (pp_id a) (pp_id b) then Inl PartnerTaken
      else Inr (regroup e ps a b))"
proof -
  have f: "applyBracketPairingCommand e (Some ps) (PairAssign a b) =
     (if pp_id a = pp_id b then Inl SelfPaired
      else if partner_taken ps False (pp_id a) (pp_id b) then Inl PartnerTaken
      else Inr (regroup e ps a b))"
    using available_iff[OF assms, of "pp_id a" False] by simp
  have "partner_taken ps True (pp_id a) (pp_id b) = partner_taken ps False (pp_id a) (pp_id b)"
    if "teamForPlayer ps (pp_id a) = None"
    using teamForPlayer_NoneD[OF that] by (auto simp: partner_taken_def list_ex_iff)
  then show ?thesis
    using available_iff[OF assms, of "pp_id a" True] f by (cases change) (auto simp: Let_def)
qed

text \<open>The people a command is not about.\<close>

definition bystanders :: "string \<Rightarrow> string \<Rightarrow> participant list \<Rightarrow> participant list" where
  "bystanders a b ps = filter (\<lambda>p. \<not> containsPlayer a p \<and> \<not> containsPlayer b p) ps"

lemma bystanders_upsert: "bystanders a b (map toUpsertParticipant ps) = map toUpsertParticipant (bystanders a b ps)"
  by (simp add: bystanders_def filter_map comp_def)

lemma bystanders_keep:
  "(\<And>p. P p \<or> containsPlayer a p \<or> containsPlayer b p) \<Longrightarrow> bystanders a b (filter P ps) = bystanders a b ps"
  by (auto simp: bystanders_def intro!: filter_cong)

lemma bystanders_append: "bystanders a b (xs @ ys) = bystanders a b xs @ bystanders a b ys"
  by (simp add: bystanders_def)

lemma bystanders_Cons: "bystanders a b (p # ps) = (if containsPlayer a p \<or> containsPlayer b p then [] else [p]) @ bystanders a b ps"
  by (simp add: bystanders_def)

lemma regroup_effect:
  assumes once: "entered_once ps" and ab: "pp_id a \<noteq> pp_id b"
  shows "\<exists>t \<in> set (regroup e ps a b). members_of t = [pp_id a, pp_id b] \<and>
      (case teamForPlayer ps (pp_id a) of
         Some old \<Rightarrow> pt_id t = pt_id old \<and> pt_seed t = pt_seed old
       | None \<Rightarrow> pt_id t \<notin> pt_id ` set ps)"
    and "bystanders (pp_id a) (pp_id b) (regroup e ps a b) = map toUpsertParticipant (bystanders (pp_id a) (pp_id b) ps)"
proof -
  have new: "containsPlayer (pp_id a) t" if "members_of t = [pp_id a, pp_id b]" for t
    using that by (simp add: containsPlayer_def)
  have "(\<exists>t \<in> set (regroup e ps a b). members_of t = [pp_id a, pp_id b] \<and>
      (case teamForPlayer ps (pp_id a) of
         Some old \<Rightarrow> pt_id t = pt_id old \<and> pt_seed t = pt_seed old
       | None \<Rightarrow> pt_id t \<notin> pt_id ` set ps)) \<and>
     bystanders (pp_id a) (pp_id b) (regroup e ps a b) = map toUpsertParticipant (bystanders (pp_id a) (pp_id b) ps)"
  proof (cases "teamForPlayer ps (pp_id a)")
    case None
    then show ?thesis
      using nextTeamId_fresh[of e "map pt_id ps"]
      by (auto simp: regroup_def bystanders_append bystanders_Cons new bystanders_upsert bystanders_keep)
         (simp add: bystanders_def)
  next
    case (Some old)
    obtain us vs where ps: "ps = us @ old # vs" and r: "regroup e ps a b =
        map toUpsertParticipant (filter (\<lambda>p. \<not> containsPlayer (pp_id b) p) us) @ changed_team a b old #
        map toUpsertParticipant (filter (\<lambda>p. \<not> containsPlayer (pp_id b) p) vs)"
      using regroup_team[OF once Some] by blast
    have "containsPlayer (pp_id a) old"
      using teamForPlayer_SomeD[OF Some] by (simp add: team_with_def containsPlayer_def)
    then show ?thesis
      by (simp add: r Some) (simp add: ps bystanders_append bystanders_Cons new bystanders_upsert bystanders_keep)
  qed
  then show "\<exists>t \<in> set (regroup e ps a b). members_of t = [pp_id a, pp_id b] \<and>
      (case teamForPlayer ps (pp_id a) of
         Some old \<Rightarrow> pt_id t = pt_id old \<and> pt_seed t = pt_seed old
       | None \<Rightarrow> pt_id t \<notin> pt_id ` set ps)"
    and "bystanders (pp_id a) (pp_id b) (regroup e ps a b) = map toUpsertParticipant (bystanders (pp_id a) (pp_id b) ps)"
    by blast+
qed

lemma regroup_partners:
  assumes once: "entered_once ps" and ab: "pp_id a \<noteq> pp_id b"
  shows "partnerIdForPlayer (Some (regroup e ps a b)) (pp_id a) = Some (pp_id b) \<and>
    partnerIdForPlayer (Some (regroup e ps a b)) (pp_id b) = Some (pp_id a)"
proof -
  obtain t where t: "t \<in> set (regroup e ps a b)" "members_of t = [pp_id a, pp_id b]"
    using regroup_effect(1)[OF assms, of e] by blast
  have "teamForPlayer (regroup e ps a b) i = Some t" if "i \<in> {pp_id a, pp_id b}" for i
    using teamForPlayer_unique[OF regroup_once[OF assms] t(1)] t(2) that by (simp add: team_with_def)
  then show ?thesis using t(2) ab by (simp add: partnerIdForPlayer_def)
qed

lemma no_participants_yet:
  "applyBracketPairingCommand e ps ((if change then PairChange else PairAssign) a b) =
   applyBracketPairingCommand e (Some (or_else ps [])) ((if change then PairChange else PairAssign) a b)"
proof -
  have "applyBracketPairingCommand e ps (PairAssign a b) = applyBracketPairingCommand e (Some (or_else ps [])) (PairAssign a b)"
    by (cases ps) simp_all
  then show ?thesis by (cases ps) (simp_all add: Let_def split: option.split)
qed

text \<open>C32. Assigning or changing a partner: a draw that is generated or started is locked, a player is refused as
  their own partner, and a partner who is in another team is refused; every other command is written to
  the event it is about, with the event's discipline, format, sizes and configuration as they were, and
  then the two are each other's partners, a team that was changed keeps its id and its seed, a new team
  has an id nobody has, everyone the command is not about keeps row and order, and still nobody is
  entered twice. It takes an event in which nobody is entered twice and a partner who is a person and
  not a team.\<close>

theorem pairing_outcome:
  assumes "entered_once (entered_in ev)" "not_a_team (entered_in ev) (pp_id b)"
    and "answer = commitBracketPairing ev ((if change then PairChange else PairAssign) a b)"
  shows "if de_status ev = Some DrawGenerated \<or> de_status ev = Some DrawStarted then answer = Inl PairingLocked
    else if pp_id a = pp_id b then answer = Inl SelfPaired
    else if partner_taken (entered_in ev) change (pp_id a) (pp_id b) then answer = Inl PartnerTaken
    else \<exists>ps'. entered_once ps' \<and>
      answer = Inr (ev_id ev, \<lparr>ui_discipline = ev_discipline ev, ui_format = ev_format ev,
        ui_bracket_size = de_bracket_size ev, ui_seeded_count = de_seeded_count ev,
        ui_rr_rounds = de_rr_rounds ev, ui_config = de_config ev, ui_duration_slots = 1,
        ui_participants = ps'\<rparr>) \<and>
      partnerIdForPlayer (Some ps') (pp_id a) = Some (pp_id b) \<and>
      partnerIdForPlayer (Some ps') (pp_id b) = Some (pp_id a) \<and>
      (\<exists>t \<in> set ps'. members_of t = [pp_id a, pp_id b] \<and>
        (case teamForPlayer (entered_in ev) (pp_id a) of
           Some old \<Rightarrow> pt_id t = pt_id old \<and> pt_seed t = pt_seed old
         | None \<Rightarrow> pt_id t \<notin> pt_id ` set (entered_in ev))) \<and>
      bystanders (pp_id a) (pp_id b) ps' = map toUpsertParticipant (bystanders (pp_id a) (pp_id b) (entered_in ev))"
proof -
  have locked: "is_draft ev \<longleftrightarrow> \<not> (de_status ev = Some DrawGenerated \<or> de_status ev = Some DrawStarted)"
    by (cases "de_status ev"; cases "the (de_status ev)") (simp_all add: is_draft_def)
  have apply_ev: "applyBracketPairingCommand (ev_id ev) (de_participants ev) ((if change then PairChange else PairAssign) a b) =
     (if pp_id a = pp_id b then Inl SelfPaired
      else if partner_taken (entered_in ev) change (pp_id a) (pp_id b) then Inl PartnerTaken
      else Inr (regroup (ev_id ev) (entered_in ev) a b))"
    unfolding no_participants_yet[of "ev_id ev" "de_participants ev"] entered_in_def[symmetric]
    by (rule command_outcome[OF assms(1,2)])
  show ?thesis
    unfolding assms(3) commitBracketPairing_def apply_ev locked
    using regroup_once[OF assms(1), of a b] regroup_partners[OF assms(1), of a b] regroup_effect[OF assms(1), of a b]
    by (auto simp: buildEventUpsertPayload_def)
qed

section \<open>The doubles picker\<close>

definition pair_members :: "picked \<Rightarrow> string list" where
  "pair_members x = or_else (pk_members x) []"

definition pairs_once :: "picked list \<Rightarrow> bool" where
  "pairs_once xs \<longleftrightarrow> distinct (map pk_id xs) \<and> distinct (concat (map pair_people xs)) \<and>
     (\<forall>x \<in> set xs. length (pair_members x) \<le> 2)"

definition paired_in :: "picked list \<Rightarrow> string set" where
  "paired_in xs = fst ` set (pairedWith xs)"

definition complete_pair :: "picked \<Rightarrow> bool" where
  "complete_pair x \<longleftrightarrow> (case pair_members x of a # b # _ \<Rightarrow> a \<noteq> [] \<and> b \<noteq> [] | _ \<Rightarrow> False)"

lemma pair_people_members: "pair_people x = (if pair_members x = [] then [pk_id x] else pair_members x)"
  by (simp add: pair_people_def pair_members_def Let_def)

lemma keys_update: "fst ` set (AList.update k v d) = insert k (fst ` set d)"
  by (simp add: dom_update)

lemma paired_in_Nil: "paired_in [] = {}"
  by (simp add: paired_in_def pairedWith_def)

lemma paired_in_snoc:
  "paired_in (xs @ [x]) = paired_in xs \<union> (if complete_pair x then set (take 2 (pair_members x)) else {})"
  by (auto simp: paired_in_def pairedWith_def complete_pair_def pair_members_def keys_update
      split: list.splits if_splits)

lemma paired_in_iff: "i \<in> paired_in xs \<longleftrightarrow> (\<exists>x \<in> set xs. complete_pair x \<and> i \<in> set (take 2 (pair_members x)))"
  by (induction xs rule: rev_induct) (auto simp: paired_in_Nil paired_in_snoc)

lemma paired_in_two:
  assumes "pairs_once xs"
  shows "i \<in> paired_in xs \<longleftrightarrow> (\<exists>x \<in> set xs. complete_pair x \<and> i \<in> set (pair_members x))"
  using assms by (auto simp: paired_in_iff pairs_once_def)

lemma pairs_once_same:
  assumes "pairs_once xs" "x \<in> set xs" "y \<in> set xs" "i \<in> set (pair_people x)" "i \<in> set (pair_people y)"
  shows "x = y"
proof (rule ccontr)
  assume "x \<noteq> y"
  obtain us vs where xs: "xs = us @ x # vs" using split_list[OF assms(2)] by blast
  then have "y \<in> set us \<or> y \<in> set vs" using assms(3) \<open>x \<noteq> y\<close> by auto
  then show False using assms(1,4,5) by (auto simp: pairs_once_def xs)
qed

lemma pairs_once_filter: "pairs_once xs \<Longrightarrow> pairs_once (filter P xs)"
  by (auto simp: pairs_once_def concat_filter_distinct distinct_map_filter)

lemma complete_people: "complete_pair x \<Longrightarrow> pair_people x = pair_members x"
  by (auto simp: complete_pair_def pair_people_members split: list.splits)

definition id_of :: "bracket_player option \<Rightarrow> string option" where
  "id_of = map_option bpl_id"

definition picker_ok :: "doubles_picker \<Rightarrow> bool" where
  "picker_ok d \<longleftrightarrow> pairs_once (dp_pairs d) \<and>
     (dp_step d = StepA \<longleftrightarrow> dp_pickedA d = None) \<and> (dp_pickedA d = None \<longrightarrow> dp_pickedB d = None) \<and>
     (\<forall>p. dp_pickedA d = Some p \<longrightarrow> bpl_id p \<notin> paired_in (dp_pairs d) \<and> id_of (dp_pickedB d) \<noteq> Some (bpl_id p)) \<and>
     (\<forall>p. dp_pickedB d = Some p \<longrightarrow> bpl_id p \<notin> paired_in (dp_pairs d)) \<and>
     (\<forall>pair p. dp_replacement d = Some (pair, p) \<longrightarrow>
        pair \<in> set (dp_pairs d) \<and> complete_pair pair \<and> bpl_id p \<in> set (pair_members pair))"

inductive picker_reach :: "bracket_player list \<Rightarrow> string \<Rightarrow> picked list \<Rightarrow> doubles_picker \<Rightarrow> bool"
  for players eventId initial where
  opened: "picker_reach players eventId initial (open_picker initial)"
| picks: "picker_reach players eventId initial d \<Longrightarrow> \<not> unavailable d i \<Longrightarrow>
    picker_reach players eventId initial (pick players i d)"
| replaces: "picker_reach players eventId initial d \<Longrightarrow> picker_reach players eventId initial (confirmReplacement d)"
| dismisses: "picker_reach players eventId initial d \<Longrightarrow> picker_reach players eventId initial (dismissReplacement d)"
| saves: "picker_reach players eventId initial d \<Longrightarrow>
    picker_reach players eventId initial (snd (savePairs eventId d))"

lemma open_picker_ok: "pairs_once initial \<Longrightarrow> picker_ok (open_picker initial)"
  by (simp add: picker_ok_def open_picker_def id_of_def)

lemma map_of_paired: "map_of (pairedWith xs) i = None \<longleftrightarrow> i \<notin> paired_in xs"
  by (simp add: paired_in_def map_of_eq_None_iff)

lemma pick_ok:
  assumes ok: "picker_ok d" and av: "\<not> unavailable d i"
  shows "picker_ok (pick players i d)"
proof (cases "find (\<lambda>p. bpl_id p = i) players")
  case None
  then show ?thesis using ok by (simp add: pick_def)
next
  case (Some p)
  then have p: "bpl_id p = i" by (auto simp: find_Some_iff)
  have once: "pairs_once (dp_pairs d)" using ok by (simp add: picker_ok_def)
  show ?thesis
  proof (cases "i \<in> paired_in (dp_pairs d)")
    case False
    then show ?thesis
      using ok av Some p map_of_paired[of "dp_pairs d" i]
      by (cases "dp_step d"; cases "dp_pickedA d") (auto simp: pick_def picker_ok_def unavailable_def id_of_def)
  next
    case True
    then obtain x where x: "x \<in> set (dp_pairs d)" "complete_pair x" "i \<in> set (pair_members x)"
      using paired_in_two[OF once] by blast
    obtain y where y: "find (\<lambda>x. i \<in> set (or_else (pk_members x) [])) (dp_pairs d) = Some y"
      using x by (cases "find (\<lambda>x. i \<in> set (or_else (pk_members x) [])) (dp_pairs d)")
        (auto simp: find_None_iff pair_members_def)
    then have "y \<in> set (dp_pairs d)" "i \<in> set (pair_members y)" by (auto simp: find_Some_iff pair_members_def)
    moreover from this have "i \<in> set (pair_people y)" by (auto simp: pair_people_members)
    ultimately have "y = x" using pairs_once_same[OF once _ x(1), of y i] x(3) complete_people[OF x(2)] by simp
    obtain v where "map_of (pairedWith (dp_pairs d)) i = Some v"
      using True map_of_paired[of "dp_pairs d" i] by (cases "map_of (pairedWith (dp_pairs d)) i") auto
    then have "pick players i d = d\<lparr>dp_replacement := Some (x, p)\<rparr>"
      using y \<open>y = x\<close> by (simp add: pick_def Some p)
    then show ?thesis using ok x p by (simp add: picker_ok_def)
  qed
qed

lemma paired_in_filter: "pairs_once xs \<Longrightarrow> i \<in> paired_in (filter P xs) \<Longrightarrow> i \<in> paired_in xs"
  using pairs_once_filter[of xs P] by (auto simp: paired_in_two)

lemma replacement_ok:
  assumes ok: "picker_ok d"
  shows "picker_ok (confirmReplacement d)"
proof (cases "dp_replacement d")
  case None
  then show ?thesis using ok by (simp add: confirmReplacement_def)
next
  case (Some w)
  obtain pair p where w: "w = (pair, p)" by (cases w)
  let ?xs = "filter (\<lambda>x. pk_id x \<noteq> pk_id pair) (dp_pairs d)"
  have once: "pairs_once (dp_pairs d)" and pair: "pair \<in> set (dp_pairs d)" "complete_pair pair" "bpl_id p \<in> set (pair_members pair)"
    using ok Some w by (auto simp: picker_ok_def)
  have gone: "bpl_id p \<notin> paired_in ?xs"
  proof
    assume "bpl_id p \<in> paired_in ?xs"
    then obtain x where x: "x \<in> set (dp_pairs d)" "pk_id x \<noteq> pk_id pair" "complete_pair x" "bpl_id p \<in> set (pair_members x)"
      using paired_in_two[OF pairs_once_filter[OF once]] by auto
    then show False
      using pairs_once_same[OF once x(1) pair(1), of "bpl_id p"] pair(2,3) by (auto simp: complete_people)
  qed
  have here: "bpl_id p \<in> paired_in (dp_pairs d)" using pair paired_in_two[OF once] by blast
  have fewer: "i \<notin> paired_in (dp_pairs d) \<Longrightarrow> i \<notin> paired_in ?xs" for i
    using paired_in_filter[OF once] by blast
  show ?thesis
    using ok Some w once pairs_once_filter[OF once] gone here fewer
    by (cases "dp_step d") (auto simp: confirmReplacement_def picker_ok_def Let_def id_of_def)
qed

lemma save_ok:
  assumes ok: "picker_ok d"
  shows "picker_ok (snd (savePairs e d)) \<and> (\<forall>xs. fst (savePairs e d) = Some xs \<longrightarrow> pairs_once xs)"
proof (cases "dp_pickedB d")
  case None
  then show ?thesis using ok by (simp add: savePairs_def picker_ok_def)
next
  case (Some b)
  then obtain a where a: "dp_pickedA d = Some a" using ok by (cases "dp_pickedA d") (auto simp: picker_ok_def)
  have once: "pairs_once (dp_pairs d)" and ab: "bpl_id a \<noteq> bpl_id b"
    and free: "bpl_id a \<notin> paired_in (dp_pairs d)" "bpl_id b \<notin> paired_in (dp_pairs d)"
    using ok a Some by (auto simp: picker_ok_def id_of_def)
  let ?kept = "filter (\<lambda>x. bpl_id a \<notin> set (pair_people x) \<and> bpl_id b \<notin> set (pair_people x)) (dp_pairs d)"
  let ?new = "\<lparr>pk_id = nextTeamId e (map pk_id (dp_pairs d)), pk_name = teamName (bpl_name a) (bpl_name b),
                pk_members = Some [bpl_id a, bpl_id b], pk_entryPlayerId = bpl_entryPlayerId a\<rparr>"
  have new: "pair_people ?new = [bpl_id a, bpl_id b]" "pair_members ?new = [bpl_id a, bpl_id b]"
    by (simp_all add: pair_people_def pair_members_def)
  have saved: "savePairs e d = (Some (?kept @ [?new]),
      d\<lparr>dp_pairs := ?kept @ [?new], dp_pickedA := None, dp_pickedB := None, dp_step := StepA\<rparr>)"
    by (simp add: savePairs_def confirmPair_def makePair_def a Some Let_def)
  have "pairs_once ?kept" using once by (rule pairs_once_filter)
  moreover have "pk_id ?new \<notin> pk_id ` set ?kept"
    using nextTeamId_fresh[of e "map pk_id (dp_pairs d)"] by auto
  ultimately have once': "pairs_once (?kept @ [?new])"
    using ab by (auto simp: pairs_once_def new)
  have "pair \<in> set ?kept" if "pair \<in> set (dp_pairs d)" "complete_pair pair" for pair
    using that free paired_in_two[OF once] by (auto simp: complete_people)
  then show ?thesis using ok once' by (auto simp: saved picker_ok_def)
qed

lemma picker_reach_ok:
  assumes "picker_reach players e initial d" "pairs_once initial"
  shows "picker_ok d"
  using assms(1)
proof induction
  case (dismisses d)
  then show ?case by (simp add: picker_ok_def dismissReplacement_def)
qed (use assms(2) open_picker_ok pick_ok replacement_ok save_ok in simp_all)

section \<open>Swapping two slots of a generated draw\<close>

text \<open>The draw view of \<open>DrawView.tsx\<close>. The occupant of each slot of round one is the first name of its side, if
  the unit is known and the side is filled; \<open>rows\<close> looks an id up in the participants of the workspace.\<close>

definition side_head :: "string list option \<Rightarrow> string option" where
  "side_head s = (case s of Some (i # _) \<Rightarrow> Some i | _ \<Rightarrow> None)"

definition occupantAt :: "(string list option \<times> string list option) option list \<Rightarrow> string option list" where
  "occupantAt round0 =
     concat (map (\<lambda>u. case u of None \<Rightarrow> [None, None] | Some (a, b) \<Rightarrow> [side_head a, side_head b]) round0)"

definition slot_row :: "(string \<Rightarrow> participant option) \<Rightarrow> int \<Rightarrow> string \<Rightarrow> participant" where
  "slot_row rows seed i =
     \<lparr>pt_id = i, pt_name = (case rows i of Some part \<Rightarrow> pt_name part | None \<Rightarrow> i),
      pt_members = Option.bind (rows i) pt_members, pt_seed = Some seed,
      pt_entryPlayerId = None, pt_personId = None, pt_personSource = None\<rparr>"

definition swap_rows :: "(string \<Rightarrow> participant option) \<Rightarrow> string option list \<Rightarrow> int list \<Rightarrow> participant list" where
  "swap_rows rows occ posToSeed = map (\<lambda>(occupant, seed). slot_row rows seed (the occupant))
     (filter (\<lambda>(occupant, seed). occupant \<noteq> None \<and> occupant \<noteq> Some []) (zip occ posToSeed))"

text \<open>\<open>None\<close> where \<open>bwfPositions\<close> throws; otherwise the body of the write that goes before the draw is generated
  anew.\<close>

definition swapSlots ::
  "draw_event \<Rightarrow> (string \<Rightarrow> participant option) \<Rightarrow> string option list \<Rightarrow> nat \<Rightarrow> nat \<Rightarrow> (string \<times> upsert_in) option" where
  "swapSlots ev rows occupants_at p1 p2 =
     (let draw_size = int (length occupants_at);
          occ = occupants_at[p1 := occupants_at ! p2, p2 := occupants_at ! p1]
      in case bwfPositions draw_size of
           None \<Rightarrow> None
         | Some posToSeed \<Rightarrow>
             (let participants = swap_rows rows occ posToSeed
              in Some (ev_id ev, \<lparr>ui_discipline = ev_discipline ev, ui_format = ev_format ev,
                   ui_bracket_size = Some draw_size, ui_seeded_count = Some (int (length participants)),
                   ui_rr_rounds = None, ui_config = None, ui_duration_slots = 1,
                   ui_participants = participants\<rparr>)))"

text \<open>The generated draw of a snapshot places each entered participant at most once, and the workspace's row of
  a placed participant has the members of the event's.\<close>

definition filled :: "string option list \<Rightarrow> string list" where
  "filled occ = List.map_filter (\<lambda>x. if x = Some [] then None else x) occ"

definition drawn_from :: "draw_event \<Rightarrow> (string \<Rightarrow> participant option) \<Rightarrow> string option list \<Rightarrow> bool" where
  "drawn_from ev rows occ \<longleftrightarrow> distinct (filled occ) \<and>
     (\<forall>i \<in> set (filled occ). \<exists>p \<in> set (entered_in ev). pt_id p = i \<and> (\<exists>r. rows i = Some r \<and> members_of r = members_of p))"

lemma filled_mset: "mset (filled occ) = mset (map the (filter (\<lambda>x. x \<noteq> None \<and> x \<noteq> Some []) occ))"
  by (induction occ) (auto simp: filled_def List.map_filter_def)

lemma filled_mset_cong: "mset occ' = mset occ \<Longrightarrow> mset (filled occ') = mset (filled occ)"
  unfolding filled_mset by (simp add: mset_filter)

lemma seed_round_length: "length (pm_positions (seed_round sections ps n)) = length ps"
proof -
  have "length (pm_positions (fold seed_section xs st)) = length (pm_positions st)" for xs st
    by (induction xs arbitrary: st) (simp_all add: seed_section_def Let_def split: prod.split)
  then show ?thesis by (simp add: seed_round_def)
qed

lemma seed_loop_length: "length (seed_loop n sections ps k) = length ps"
proof (induction n sections ps k rule: seed_loop.induct)
  case (1 n sections ps k)
  then show ?case by (subst seed_loop.simps) (auto simp: Let_def seed_round_length)
qed

lemma bwfPositions_length: "bwfPositions n = Some ps \<Longrightarrow> int (length ps) = n"
  by (auto simp: bwfPositions_def seed_loop_length split: if_splits)

lemma swap_rows_ids:
  "length posToSeed = length occ \<Longrightarrow>
   map (\<lambda>p. (pt_id p, pt_members p)) (swap_rows rows occ posToSeed) =
     map (\<lambda>i. (i, Option.bind (rows i) pt_members)) (filled occ)"
  by (induction occ posToSeed rule: list_induct2')
    (auto simp: swap_rows_def filled_def slot_row_def List.map_filter_def)

lemma placed_once:
  assumes once: "entered_once ps" and "distinct ids"
    and "\<forall>i \<in> set ids. \<exists>p \<in> set ps. pt_id p = i \<and> members_of p = or_else (mem i) []"
    and "map (\<lambda>p. (pt_id p, pt_members p)) qs = map (\<lambda>i. (i, mem i)) ids"
  shows "entered_once qs"
  using assms(2-4)
proof (induction ids arbitrary: qs)
  case (Cons i ids)
  then obtain q qs' where qs: "qs = q # qs'" "pt_id q = i" "pt_members q = mem i"
    "map (\<lambda>p. (pt_id p, pt_members p)) qs' = map (\<lambda>i. (i, mem i)) ids" by auto
  then have rest: "entered_once qs'" using Cons by auto
  have ids: "map pt_id qs' = ids" using arg_cong[OF qs(4), of "map fst"] by (simp add: comp_def)
  have source: "\<exists>p \<in> set ps. pt_id p = pt_id r \<and> members_of p = members_of r" if "r \<in> set (q # qs')" for r
  proof -
    have "(pt_id r, pt_members r) \<in> set (map (\<lambda>i. (i, mem i)) (i # ids))"
      using that qs by (metis (no_types, lifting) image_eqI list.set_map list.simps(9))
    then show ?thesis using Cons.prems(2) by (auto simp: members_of_def)
  qed
  have apart: "set (occupants q) \<inter> set (occupants r) = {}" if r: "r \<in> set qs'" for r
  proof (rule ccontr)
    assume "set (occupants q) \<inter> set (occupants r) \<noteq> {}"
    then obtain x where x: "x \<in> set (occupants q)" "x \<in> set (occupants r)" by blast
    obtain p p' where p: "p \<in> set ps" "pt_id p = pt_id q" "members_of p = members_of q"
      and p': "p' \<in> set ps" "pt_id p' = pt_id r" "members_of p' = members_of r"
      using source[of q] source[of r] r by auto
    have "occupants p = occupants q" "occupants p' = occupants r" using p p' by (simp_all add: occupants_def)
    then have "p = p'" using once_same[OF once p(1) p'(1)] x by simp
    then show False using p p' r ids qs(2) Cons.prems(1) by auto
  qed
  obtain p where p: "p \<in> set ps" "pt_id p = pt_id q" "members_of p = members_of q" using source[of q] by auto
  have "distinct (occupants p)" "length (members_of p) \<le> 2"
    using once p(1) by (auto simp: entered_once_def dest: split_list)
  moreover have "occupants p = occupants q" using p by (simp add: occupants_def)
  ultimately have "distinct (occupants q)" "length (members_of q) \<le> 2" using p by simp_all
  then show ?case using rest apart ids qs(1,2) Cons.prems(1) by (auto simp: entered_once_def)
qed (simp add: entered_once_def)

lemma swap_once:
  assumes "entered_once (entered_in ev)" "drawn_from ev rows occ" "p1 < length occ" "p2 < length occ"
    and "swapSlots ev rows occ p1 p2 = Some req"
  shows "entered_once (ui_participants (snd req))"
proof -
  let ?occ = "occ[p1 := occ ! p2, p2 := occ ! p1]"
  obtain posToSeed where ps: "bwfPositions (int (length occ)) = Some posToSeed"
    and req: "ui_participants (snd req) = swap_rows rows ?occ posToSeed"
    using assms(5) by (auto simp: swapSlots_def Let_def split: option.splits)
  have len: "length posToSeed = length ?occ" using bwfPositions_length[OF ps] by simp
  have "mset ?occ = mset occ" using assms(3,4) by (simp add: mset_swap)
  then have m: "mset (filled ?occ) = mset (filled occ)" by (rule filled_mset_cong)
  have "distinct (filled ?occ)" using m assms(2) mset_eq_imp_distinct_iff by (auto simp: drawn_from_def)
  moreover have "set (filled ?occ) = set (filled occ)" using m by (rule mset_eq_setD)
  moreover have "\<forall>i \<in> set (filled occ). \<exists>p \<in> set (entered_in ev). pt_id p = i \<and>
      members_of p = or_else (Option.bind (rows i) pt_members) []"
  proof
    fix i assume "i \<in> set (filled occ)"
    then obtain p r where "p \<in> set (entered_in ev)" "pt_id p = i" "rows i = Some r" "members_of r = members_of p"
      using assms(2) by (auto simp: drawn_from_def)
    then show "\<exists>p \<in> set (entered_in ev). pt_id p = i \<and> members_of p = or_else (Option.bind (rows i) pt_members) []"
      by (intro bexI[of _ p]) (simp_all add: members_of_def)
  qed
  ultimately show ?thesis
    unfolding req using swap_rows_ids[OF len, of rows] by (intro placed_once[OF assms(1)]) simp_all
qed

text \<open>The write of a swap says nothing of the event's configuration and of the imported persons behind its rows,
  which the other writes echo.\<close>

lemma swap_drops_config:
  "swapSlots ev rows occ p1 p2 = Some req \<Longrightarrow> ui_config (snd req) = None \<and>
   (\<forall>p \<in> set (ui_participants (snd req)). pt_personId p = None \<and> pt_entryPlayerId p = None)"
  by (auto simp: swapSlots_def swap_rows_def slot_row_def Let_def split: option.splits)

section \<open>A draw and its writers\<close>

text \<open>Several consoles hold snapshots of the event, some of them old; each of them may send what its controls
  send, the server answers with the event it stored, and the draw may be generated or reset meanwhile.\<close>

type_synonym upsert_fn = "string \<times> upsert_in \<Rightarrow> draw_event \<Rightarrow> draw_event option"

text \<open>The endpoint creates or replaces: what it stores are the participants of the body.\<close>

definition replaces_participants :: "upsert_fn \<Rightarrow> bool" where
  "replaces_participants serve \<longleftrightarrow>
     (\<forall>req ev ev'. serve req ev = Some ev' \<longrightarrow> entered_in ev' = ui_participants (snd req))"

inductive draw_request :: "bracket_player list \<Rightarrow> draw_event list \<Rightarrow> string \<times> upsert_in \<Rightarrow> bool" for players seen where
  by_toggle: "ev \<in> set seen \<Longrightarrow> handleToggle p ev = Sends (Inr req) \<Longrightarrow> draw_request players seen req"
| by_partner: "ev \<in> set seen \<Longrightarrow> confirmPartner players p i ev = Some (Inr req) \<Longrightarrow> draw_request players seen req"
| by_dissolve: "ev \<in> set seen \<Longrightarrow> commitBracketPairing ev (PairDissolve i) = Inr req \<Longrightarrow> draw_request players seen req"
| by_pairs: "ev \<in> set seen \<Longrightarrow> old \<in> set seen \<Longrightarrow> picker_reach players (ev_id ev) (initial_pairs old) d \<Longrightarrow>
    fst (savePairs (ev_id ev) d) = Some xs \<Longrightarrow> commitPicks ev xs = Inr req \<Longrightarrow> draw_request players seen req"
| by_singles: "ev \<in> set seen \<Longrightarrow> old \<in> set seen \<Longrightarrow>
    commitPicks ev (saved_singles players (fold toggle_single ks (map pt_id (entered_in old)))) = Inr req \<Longrightarrow>
    draw_request players seen req"
| by_swap: "ev \<in> set seen \<Longrightarrow> drawn_from ev rows (occupantAt round0) \<Longrightarrow> p1 < length (occupantAt round0) \<Longrightarrow>
    p2 < length (occupantAt round0) \<Longrightarrow> swapSlots ev rows (occupantAt round0) p1 p2 = Some req \<Longrightarrow>
    draw_request players seen req"
| by_creation: "ui_participants body = [] \<Longrightarrow> draw_request players seen (i, body)"

record draw_world =
  dw_server :: draw_event
  dw_seen :: "draw_event list"

inductive draw_step :: "upsert_fn \<Rightarrow> bracket_player list \<Rightarrow> draw_world \<Rightarrow> draw_world \<Rightarrow> bool" for serve players where
  draw_writes: "draw_request players (dw_seen w) req \<Longrightarrow> serve req (dw_server w) = Some ev \<Longrightarrow>
    draw_step serve players w (w\<lparr>dw_server := ev, dw_seen := ev # dw_seen w\<rparr>)"
| draw_reads: "draw_step serve players w (w\<lparr>dw_seen := dw_server w # dw_seen w\<rparr>)"
| draw_moves: "draw_step serve players w (w\<lparr>dw_server := (dw_server w)\<lparr>de_status := s\<rparr>\<rparr>)"

definition draw_ok :: "draw_world \<Rightarrow> bool" where
  "draw_ok w \<longleftrightarrow> list_all (\<lambda>ev. entered_once (entered_in ev)) (dw_server w # dw_seen w)"

lemma available_apart: "assertAvailablePartner ps a b i = None \<Longrightarrow> a \<noteq> b"
  by (auto simp: assertAvailablePartner_def)

lemma command_once:
  assumes "entered_once (or_else ps [])" "\<forall>new. command \<noteq> PairReplace new"
    and "applyBracketPairingCommand e ps command = Inr ps'"
  shows "entered_once ps'"
  using assms
proof (induction e ps command rule: applyBracketPairingCommand.induct)
  case (2 e ps i)
  then show ?case by (auto simp: Let_def once_filter split: option.splits)
next
  case (3 e ps a b)
  let ?current = "or_else ps []"
  show ?case
  proof (cases "assertAvailablePartner ?current (pp_id a) (pp_id b) (map_option pt_id (teamForPlayer ?current (pp_id a)))")
    case None
    then have "pp_id a \<noteq> pp_id b" by (rule available_apart)
    then show ?thesis
      using 3 None regroup_once[of ?current a b e] by (cases "teamForPlayer ?current (pp_id a)") (auto simp: Let_def)
  qed (use 3 in \<open>simp add: Let_def\<close>)
next
  case (4 e ps a b)
  then show ?case
    using regroup_once[of "or_else ps []" a b e] by (auto simp: Let_def dest: available_apart split: option.splits)
qed simp

lemma payload_participants [simp]: "ui_participants (buildEventUpsertPayload ev ps) = ps"
  by (simp add: buildEventUpsertPayload_def)

lemma commit_once:
  assumes "entered_once (entered_in ev)" "\<forall>new. command \<noteq> PairReplace new" "commitBracketPairing ev command = Inr req"
  shows "entered_once (ui_participants (snd req))"
  using assms command_once[of "de_participants ev" command "ev_id ev"]
  by (auto simp: commitBracketPairing_def entered_in_def split: if_splits sum.splits)

lemma toggle_once:
  assumes once: "entered_once (entered_in ev)" and t: "handleToggle p ev = Sends (Inr req)"
  shows "entered_once (ui_participants (snd req))"
proof (cases "isEnteredIn ev (bpl_id p)")
  case True
  show ?thesis
  proof (cases "isDoublesCode (ev_discipline ev)")
    case True
    then show ?thesis
      using t \<open>isEnteredIn ev (bpl_id p)\<close> commit_once[OF once, of "PairDissolve (bpl_id p)" req]
      by (simp add: handleToggle_def Let_def)
  next
    case False
    then show ?thesis
      using t True once by (auto simp: handleToggle_def Let_def once_filter)
  qed
next
  case False
  have row: "pt_id (single_row p) = bpl_id p" "occupants (single_row p) = [bpl_id p]" "members_of (single_row p) = []"
    by (simp_all add: single_row_def occupants_def members_of_def)
  have "\<not> containsPlayer (bpl_id p) q" if "q \<in> set (entered_in ev)" for q
    using False that by (auto simp: isEnteredIn_def list_ex_iff)
  then have "\<forall>q \<in> set (entered_in ev). pt_id q \<noteq> bpl_id p" "\<forall>q \<in> set (entered_in ev). bpl_id p \<notin> set (occupants q)"
    using occupant_contained by (blast intro: containsPlayer_def[THEN iffD2])+
  then have "entered_once (map toUpsertParticipant (entered_in ev) @ [single_row p])"
    using once by (auto simp: once_snoc row)
  then show ?thesis using t False by (auto simp: handleToggle_def Let_def split: if_splits)
qed

lemma confirmPartner_commits:
  assumes "confirmPartner roster p i ev = Some answer"
  obtains partner c where "answer = commitBracketPairing ev (c (as_pairing p) (as_pairing partner))" "c \<in> {PairChange, PairAssign}"
  using assms by (auto simp: confirmPartner_def Let_def split: option.splits if_splits)

lemma picked_row_people [simp]:
  "pt_id (picked_row ev x) = pk_id x" "members_of (picked_row ev x) = pair_members x"
  "occupants (picked_row ev x) = pair_people x"
  by (simp_all add: picked_row_def members_of_def pair_members_def occupants_def pair_people_members)

lemma picks_once: "pairs_once xs \<Longrightarrow> commitPicks ev xs = Inr req \<Longrightarrow> entered_once (ui_participants (snd req))"
  by (auto simp: commitPicks_def commitBracketPairing_def Let_def entered_once_def pairs_once_def comp_def
      split: if_splits)

lemma initial_pairs_once: "entered_once (entered_in ev) \<Longrightarrow> pairs_once (initial_pairs ev)"
proof -
  have "pair_people \<lparr>pk_id = pt_id p, pk_name = n, pk_members = pt_members p, pk_entryPlayerId = k\<rparr> = occupants p"
    "pair_members \<lparr>pk_id = pt_id p, pk_name = n, pk_members = pt_members p, pk_entryPlayerId = k\<rparr> = members_of p" for p n k
    by (simp_all add: pair_people_members pair_members_def occupants_def members_of_def)
  then show "entered_once (entered_in ev) \<Longrightarrow> pairs_once (initial_pairs ev)"
    by (simp add: entered_once_def pairs_once_def initial_pairs_def comp_def)
qed

lemma toggles_distinct: "distinct xs \<Longrightarrow> distinct (fold toggle_single ks xs)"
  by (induction ks arbitrary: xs) (auto simp: toggle_single_def)

lemma saved_singles_once:
  assumes "distinct xs"
  shows "pairs_once (saved_singles players xs)"
proof -
  have found: "bpl_id p = i" if "find (\<lambda>p. bpl_id p = i) players = Some p" for p i
    using that by (auto simp: find_Some_iff)
  have ids: "map pk_id (saved_singles players xs) = filter (\<lambda>i. find (\<lambda>p. bpl_id p = i) players \<noteq> None) xs"
  proof (induction xs)
    case (Cons i xs)
    show ?case
    proof (cases "find (\<lambda>p. bpl_id p = i) players")
      case (Some p)
      then show ?thesis using Cons found[OF Some] by (simp add: saved_singles_def List.map_filter_def comp_def)
    qed (use Cons in \<open>simp add: saved_singles_def List.map_filter_def comp_def\<close>)
  qed (simp add: saved_singles_def List.map_filter_def)
  have alone: "pair_people x = [pk_id x]" "pair_members x = []" if "x \<in> set (saved_singles players xs)" for x
  proof -
    have "pk_members x = None"
      using that by (auto simp: saved_singles_def List.map_filter_def)
    then show "pair_people x = [pk_id x]" "pair_members x = []" by (simp_all add: pair_people_def pair_members_def)
  qed
  then have "concat (map pair_people (saved_singles players xs)) = map pk_id (saved_singles players xs)"
    by (simp cong: map_cong)
  then show ?thesis using assms ids alone(2) by (simp add: pairs_once_def)
qed

lemma request_once:
  assumes "draw_request players seen req" "\<forall>ev \<in> set seen. entered_once (entered_in ev)"
  shows "entered_once (ui_participants (snd req))"
  using assms(1)
proof cases
  case (by_toggle ev p)
  then show ?thesis using toggle_once assms(2) by blast
next
  case (by_partner ev p i)
  then obtain partner c where "Inr req = commitBracketPairing ev (c (as_pairing p) (as_pairing partner))" "c \<in> {PairChange, PairAssign}"
    using confirmPartner_commits by metis
  then show ?thesis using commit_once[of ev "c (as_pairing p) (as_pairing partner)" req] by_partner(1) assms(2) by auto
next
  case (by_dissolve ev i)
  then show ?thesis using commit_once[of ev "PairDissolve i"] assms(2) by simp
next
  case (by_pairs ev old d xs)
  then have "pairs_once xs"
    using save_ok picker_reach_ok initial_pairs_once assms(2) by blast
  then show ?thesis using picks_once by_pairs(5) by blast
next
  case (by_singles ev old ks)
  then have "distinct (map pt_id (entered_in old))" using assms(2) by (auto simp: entered_once_def)
  then show ?thesis using picks_once[OF saved_singles_once[OF toggles_distinct]] by_singles(3) by blast
next
  case (by_swap ev rows round0 p1 p2)
  then show ?thesis using swap_once assms(2) by blast
next
  case (by_creation body i)
  then show ?thesis by (simp add: entered_once_def)
qed

text \<open>C31. However many consoles write to a draw and however old the snapshots they write from, nobody is ever
  entered twice: whatever the entry toggles, the partner picker, the two pickers of the draw, the
  dissolve action, the swap of two slots of a generated draw and the creation of a draw send, the stored event keeps rows with ids of their own and every person in one row.\<close>

theorem everyone_entered_once:
  assumes "(draw_step serve players)\<^sup>*\<^sup>* w w'" "replaces_participants serve" "draw_ok w"
  shows "draw_ok w'"
  using assms(1)
proof (induction rule: rtranclp_induct)
  case (step u v)
  from step.hyps(2) step.IH show ?case
  proof cases
    case (draw_writes req ev)
    then have "entered_in ev = ui_participants (snd req)" using assms(2) by (metis replaces_participants_def)
    then show ?thesis
      using draw_writes request_once step.IH by (auto simp: draw_ok_def list_all_iff)
  qed (auto simp: draw_ok_def entered_in_def)
qed (rule assms(3))

section \<open>Concrete draws\<close>

definition demo_row :: "string \<Rightarrow> string list \<Rightarrow> int option \<Rightarrow> participant" where
  "demo_row i ms seed = \<lparr>pt_id = i, pt_name = i, pt_members = (if ms = [] then None else Some ms), pt_seed = seed,
     pt_entryPlayerId = None, pt_personId = Some (''P'' @ i), pt_personSource = None\<rparr>"

definition demo_draw :: draw_event where
  "demo_draw = \<lparr>ev_id = ''MD'', ev_discipline = ''MD'', ev_format = ''se'', de_status = None, de_bracket_size = None,
     de_seeded_count = None, de_rr_rounds = None, de_config = None,
     de_participants = Some [demo_row ''MD-T1'' [''a'', ''b''] (Some 1), demo_row ''c'' [] None,
       demo_row ''MD-T2'' [''e'', ''f''] (Some 2)]\<rparr>"

definition demo_player :: "string \<Rightarrow> bracket_player" where
  "demo_player i = \<lparr>bpl_id = i, bpl_name = i, bpl_entryPlayerId = None\<rparr>"

definition demo_players :: "bracket_player list" where
  "demo_players = map demo_player [''a'', ''b'', ''c'', ''d'', ''e'', ''f'']"

definition storing_server :: upsert_fn where
  "storing_server req ev = Some (ev\<lparr>de_participants := Some (ui_participants (snd req))\<rparr>)"

lemma demo_draw_once: "entered_once (entered_in demo_draw)"
  by code_simp

theorem pairing_outcome_witness:
  "commitBracketPairing demo_draw (PairAssign (as_pairing (demo_player ''d'')) (as_pairing (demo_player ''a'')))
     = Inl PartnerTaken \<and>
   commitBracketPairing (demo_draw\<lparr>de_status := Some DrawGenerated\<rparr>)
     (PairAssign (as_pairing (demo_player ''d'')) (as_pairing (demo_player ''c''))) = Inl PairingLocked"
proof
  let ?d = "as_pairing (demo_player ''d'')" and ?a = "as_pairing (demo_player ''a'')" and ?c = "as_pairing (demo_player ''c'')"
  have n: "not_a_team (entered_in demo_draw) (pp_id ?a)"
    "not_a_team (entered_in (demo_draw\<lparr>de_status := Some DrawGenerated\<rparr>)) (pp_id ?c)" by code_simp+
  have o: "entered_once (entered_in (demo_draw\<lparr>de_status := Some DrawGenerated\<rparr>))" by code_simp
  have k: "\<not> (de_status demo_draw = Some DrawGenerated \<or> de_status demo_draw = Some DrawStarted)"
    "\<not> pp_id ?d = pp_id ?a" "partner_taken (entered_in demo_draw) False (pp_id ?d) (pp_id ?a)"
    by code_simp+
  show "commitBracketPairing demo_draw (PairAssign ?d ?a) = Inl PartnerTaken"
    using pairing_outcome[OF demo_draw_once n(1) refl, of False ?d] k
    by (simp only: if_False if_True)
  show "commitBracketPairing (demo_draw\<lparr>de_status := Some DrawGenerated\<rparr>) (PairAssign ?d ?c) = Inl PairingLocked"
    using pairing_outcome[OF o n(2) refl, of False ?d] by simp
qed

definition demo_world :: draw_world where
  "demo_world = \<lparr>dw_server = demo_draw, dw_seen = [demo_draw]\<rparr>"

definition demo_request :: "string \<times> upsert_in" where
  "demo_request = (case confirmPartner demo_players (demo_player ''d'') ''c'' demo_draw of Some (Inr req) \<Rightarrow> req | _ \<Rightarrow> undefined)"

theorem everyone_entered_once_witness:
  "draw_ok \<lparr>dw_server = demo_draw\<lparr>de_participants := Some (ui_participants (snd demo_request))\<rparr>,
     dw_seen = [demo_draw\<lparr>de_participants := Some (ui_participants (snd demo_request))\<rparr>, demo_draw]\<rparr> \<and>
   map pt_id (ui_participants (snd demo_request)) = [''MD-T1'', ''MD-T2'', ''MD-T3'']"
proof
  have "confirmPartner demo_players (demo_player ''d'') ''c'' demo_draw = Some (Inr demo_request)"
    by code_simp
  then have "draw_request demo_players (dw_seen demo_world) demo_request"
    by (intro by_partner[of demo_draw]) (simp_all add: demo_world_def)
  then have "draw_step storing_server demo_players demo_world
      (demo_world\<lparr>dw_server := demo_draw\<lparr>de_participants := Some (ui_participants (snd demo_request))\<rparr>,
         dw_seen := demo_draw\<lparr>de_participants := Some (ui_participants (snd demo_request))\<rparr> # dw_seen demo_world\<rparr>)"
    by (rule draw_writes) (simp add: storing_server_def demo_world_def)
  moreover have "replaces_participants storing_server"
    by (simp add: replaces_participants_def storing_server_def entered_in_def)
  moreover have "draw_ok demo_world"
    using demo_draw_once by (simp add: draw_ok_def demo_world_def)
  ultimately have "draw_ok (demo_world\<lparr>dw_server := demo_draw\<lparr>de_participants := Some (ui_participants (snd demo_request))\<rparr>,
         dw_seen := demo_draw\<lparr>de_participants := Some (ui_participants (snd demo_request))\<rparr> # dw_seen demo_world\<rparr>)"
    by (rule everyone_entered_once[OF r_into_rtranclp])
  then show "draw_ok \<lparr>dw_server = demo_draw\<lparr>de_participants := Some (ui_participants (snd demo_request))\<rparr>,
     dw_seen = [demo_draw\<lparr>de_participants := Some (ui_participants (snd demo_request))\<rparr>, demo_draw]\<rparr>"
    by (simp add: demo_world_def)
qed code_simp

text \<open>Replacing the last pair in the doubles picker: the new pair takes the freed id, and the commit looks the
  seed up by id, so a pair nobody seeded is entered with the seed of the pair that left.\<close>

lemma picker_hands_down_seed:
  "(case fst (savePairs ''MD'' (pick demo_players ''d'' (confirmReplacement (pick demo_players ''e''
       (open_picker (initial_pairs demo_draw)))))) of
      Some picks \<Rightarrow> (case commitPicks demo_draw picks of
          Inr req \<Rightarrow> map (\<lambda>p. (pt_members p, pt_seed p)) (ui_participants (snd req)) | Inl _ \<Rightarrow> [])
    | None \<Rightarrow> []) = [(Some [''a'', ''b''], Some 1), (None, None), (Some [''e'', ''d''], Some 2)]"
  by code_simp

text \<open>The commit of the picks drops the identity of an imported person, which the other writes echo.\<close>

lemma picks_drop_person:
  "(case commitPicks demo_draw (initial_pairs demo_draw) of
      Inr req \<Rightarrow> map pt_personId (ui_participants (snd req)) | Inl _ \<Rightarrow> []) = [None, None, None]"
  "map (pt_personId \<circ> toUpsertParticipant) (entered_in demo_draw) = [Some ''PMD-T1'', Some ''Pc'', Some ''PMD-T2'']"
  by code_simp+

end
