(* ===== verification/DrawData.thy ===== *)
theory DrawData
  imports Pairing BracketQueue TimeSlots
begin

text \<open>
  What the bracket surfaces read out of the tournament the server sends, under \<open>modules/bracket\<close>: badges
  and day bounds of the roster (\<open>rosterEvents.ts\<close>), locked players (\<open>lockedPlayers.ts\<close>), the roster of a
  legacy bracket (\<open>bracketMigration.ts\<close>), the optimistic result (\<open>optimisticResult.ts\<close>), set scores
  (\<open>bracketScore.ts\<close>, \<open>BracketScoreEntry.tsx\<close>), slots and clock times (\<open>bracketTime.ts\<close>,
  \<open>formatBracketSlot.ts\<close>) and the lock of the configuration (\<open>useBracketScheduleLock.ts\<close>).
\<close>

section \<open>The tournament\<close>

text \<open>A side \<open>none\<close> is \<open>None\<close>.\<close>

record draw_result =
  dr_play_unit_id :: string
  dr_winner_side :: "winner_side option"
  dr_walkover :: bool
  dr_reason :: "outcome_reason option"
  dr_finished_at_slot :: "int option"
  dr_score :: "set_score list option"

record draw_data =
  dd_total_slots :: "int option"
  dd_interval_minutes :: "int option"
  dd_start_time :: "string option"
  dd_events :: "draw_event list"
  dd_participants :: "participant list"
  dd_assigned :: nat
  dd_results :: "draw_result list"

section \<open>Badges\<close>

definition BADGE_ORDER :: "string list" where
  "BADGE_ORDER = [''MS'', ''WS'', ''MD'', ''WD'', ''XD'']"

definition prefixOf :: "string \<Rightarrow> string" where
  "prefixOf code = rev (dropWhile is_digit (rev code))"

fun index_in :: "string \<Rightarrow> string list \<Rightarrow> int" where
  "index_in x [] = 0"
| "index_in x (y # ys) = (if x = y then 0 else index_in x ys + 1)"

definition badgeRank :: "string \<Rightarrow> int" where
  "badgeRank code = index_in (prefixOf code) BADGE_ORDER"

definition by_rank :: "('a \<Rightarrow> int) \<Rightarrow> ('a \<Rightarrow> 'a \<Rightarrow> int) \<Rightarrow> 'a \<Rightarrow> 'a \<Rightarrow> int" where
  "by_rank rank cmp a b = (if rank a \<noteq> rank b then rank a - rank b else cmp a b)"

definition sortBadges :: "(string \<Rightarrow> string \<Rightarrow> int) \<Rightarrow> string list \<Rightarrow> string list" where
  "sortBadges collate codes = js_sort (by_rank badgeRank collate) (js_set codes)"

record badge_entry =
  be_code :: string
  be_type :: string
  be_seed :: "int option"

definition badgeForEvent :: "draw_event \<Rightarrow> draw_event list \<Rightarrow> string" where
  "badgeForEvent ev allEvents =
     (let shared = length (filter (\<lambda>e. ev_discipline e = ev_discipline ev) allEvents) > 1
      in if shared then ev_id ev else if ev_discipline ev \<noteq> [] then ev_discipline ev else ev_id ev)"

definition badge_of :: "draw_event list \<Rightarrow> draw_event \<Rightarrow> int option \<Rightarrow> badge_entry" where
  "badge_of evs ev seed =
     (let code = badgeForEvent ev evs
      in \<lparr>be_code = code, be_type = (if ev_discipline ev \<noteq> [] then ev_discipline ev else prefixOf code), be_seed = seed\<rparr>)"

type_synonym badge_map = "(string, (string, badge_entry) dict) dict"

definition put_badge :: "badge_entry \<Rightarrow> string \<Rightarrow> badge_map \<Rightarrow> badge_map" where
  "put_badge b i out = AList.update i (AList.update (be_code b) b (or_else (map_of out i) [])) out"

definition badge_participant :: "draw_event list \<Rightarrow> draw_event \<Rightarrow> participant \<Rightarrow> badge_map \<Rightarrow> badge_map" where
  "badge_participant evs ev p = fold (put_badge (badge_of evs ev (pt_seed p))) (occupants p)"

definition badges_collected :: "draw_event list \<Rightarrow> badge_map" where
  "badges_collected evs = fold (\<lambda>ev. fold (badge_participant evs ev) (entered_in ev)) evs []"

definition badgesByPlayerId ::
  "(string \<Rightarrow> string \<Rightarrow> int) \<Rightarrow> draw_data option \<Rightarrow> (string, badge_entry list) dict" where
  "badgesByPlayerId collate d =
     (case d of
        None \<Rightarrow> []
      | Some t \<Rightarrow> map (\<lambda>(i, byCode). (i,
          js_sort (by_rank (\<lambda>b. index_in (be_type b) BADGE_ORDER) (\<lambda>a b. collate (be_code a) (be_code b)))
            (map snd byCode))) (badges_collected (dd_events t)))"

section \<open>Locks and legacy rosters\<close>

definition lockedPlayerIds :: "draw_data option \<Rightarrow> string list" where
  "lockedPlayerIds d =
     (case d of
        None \<Rightarrow> []
      | Some t \<Rightarrow> js_set (concat (map (\<lambda>ev.
          if is_draft ev then []
          else concat (map (\<lambda>p. pt_id p # members_of p) (or_else (de_participants ev) (dd_participants t))))
          (dd_events t))))"

definition useBracketScheduleLock :: "draw_data option \<Rightarrow> bool \<times> bool" where
  "useBracketScheduleLock d =
     (case d of
        None \<Rightarrow> (False, False)
      | Some t \<Rightarrow> (list_ex (\<lambda>ev. or_else (de_status ev) DrawDraft = DrawStarted) (dd_events t), 0 < dd_assigned t))"

definition single_names :: "participant list \<Rightarrow> (string, string) dict" where
  "single_names ps = from_entries (map (\<lambda>p. (pt_id p, pt_name p)) (filter (\<lambda>p. members_of p = []) ps))"

definition add_person :: "string \<Rightarrow> string \<Rightarrow> (string, string) dict \<Rightarrow> (string, string) dict" where
  "add_person i name d = (case map_of d i of Some _ \<Rightarrow> d | None \<Rightarrow> AList.update i name d)"

definition reconcile_row :: "(string, string) dict \<Rightarrow> participant \<Rightarrow> (string, string) dict \<Rightarrow> (string, string) dict" where
  "reconcile_row playerNames p d =
     (if members_of p \<noteq> [] then
        fold (\<lambda>i d. case map_of playerNames i of None \<Rightarrow> d | Some name \<Rightarrow> add_person i name d) (members_of p) d
      else add_person (pt_id p) (pt_name p) d)"

text \<open>The roster rows, as ids with names.\<close>

definition reconcileBracketRoster :: "participant list \<Rightarrow> (string, string) dict" where
  "reconcileBracketRoster ps = fold (reconcile_row (single_names ps)) ps []"

section \<open>Results and scores\<close>

definition applyOptimisticResult :: "draw_data \<Rightarrow> bracket_result_input \<Rightarrow> draw_data" where
  "applyOptimisticResult t input =
     t\<lparr>dd_results := filter (\<lambda>r. dr_play_unit_id r \<noteq> bi_matchId input) (dd_results t)
        @ [\<lparr>dr_play_unit_id = bi_matchId input, dr_winner_side = Some (bi_winnerSide input),
            dr_walkover = or_else (bi_walkover input) False, dr_reason = bi_reason input,
            dr_finished_at_slot = bi_finishedAtSlot input, dr_score = bi_score input\<rparr>]\<rparr>"

definition setCountForFormat :: "int \<Rightarrow> int" where
  "setCountForFormat setsToWin = max 1 (setsToWin * 2 - 1)"

definition emptySets :: "int \<Rightarrow> set_score list" where
  "emptySets setsToWin = replicate (nat (setCountForFormat setsToWin)) \<lparr>ss_sideA = 0, ss_sideB = 0\<rparr>"

definition playedSets :: "set_score list \<Rightarrow> set_score list" where
  "playedSets sets = filter (\<lambda>s. ss_sideA s > 0 \<or> ss_sideB s > 0) sets"

definition tally_set :: "set_score \<Rightarrow> int \<times> int \<Rightarrow> int \<times> int" where
  "tally_set s ab = (case ab of (a, b) \<Rightarrow>
     if ss_sideA s > ss_sideB s then (a + 1, b) else if ss_sideB s > ss_sideA s then (a, b + 1) else (a, b))"

definition winnerSideFromSets :: "set_score list \<Rightarrow> winner_side option" where
  "winnerSideFromSets sets =
     (case fold tally_set (playedSets sets) (0, 0) of (a, b) \<Rightarrow>
        if a = 0 \<and> b = 0 then None
        else if a = b then None
        else if a > b then Some SideA else Some SideB)"

definition setScore :: "nat \<Rightarrow> winner_side \<Rightarrow> int \<Rightarrow> set_score list \<Rightarrow> set_score list" where
  "setScore i side value prev =
     (if i < length prev then prev[i := (case side of
        SideA \<Rightarrow> (prev ! i)\<lparr>ss_sideA := value\<rparr> | SideB \<Rightarrow> (prev ! i)\<lparr>ss_sideB := value\<rparr>)] else prev)"

text \<open>What the entry records: the winner and the played sets.\<close>

definition submitScore :: "set_score list \<Rightarrow> (winner_side \<times> set_score list) option" where
  "submitScore sets = map_option (\<lambda>w. (w, playedSets sets)) (winnerSideFromSets sets)"

section \<open>Slots and the clock\<close>

record day_bounds =
  dyb_dayStart :: string
  dyb_dayEnd :: string
  dyb_anchored :: bool

definition clock_text :: "int \<Rightarrow> string" where
  "clock_text m = pad2 (m div 60) @ '':'' @ pad2 (m mod 60)"

definition sessionDayBounds :: "host_clock \<Rightarrow> draw_data option \<Rightarrow> day_bounds" where
  "sessionDayBounds hc d =
     (let fallback = \<lparr>dyb_dayStart = ''08:00'', dyb_dayEnd = ''22:00'', dyb_anchored = False\<rparr>
      in case d of
           None \<Rightarrow> fallback
         | Some t \<Rightarrow>
             if \<not> truthy (dd_start_time t) then fallback
             else case hc_parse hc (the (dd_start_time t)) of
               None \<Rightarrow> fallback
             | Some ms \<Rightarrow>
                 let startMin = hc_minutes hc ms;
                     sessionMin = or_else (dd_total_slots t) 0 * or_else (dd_interval_minutes t) 30;
                     endMin = (if sessionMin > 0 then min (startMin + sessionMin) (24 * 60 - 1) else 24 * 60 - 1)
                 in \<lparr>dyb_dayStart = clock_text startMin, dyb_dayEnd = clock_text endMin, dyb_anchored = True\<rparr>)"

definition bracketCurrentSlot :: "host_clock \<Rightarrow> string option \<Rightarrow> int \<Rightarrow> int \<Rightarrow> int" where
  "bracketCurrentSlot hc startTimeIso intervalMinutes now =
     (if \<not> truthy startTimeIso then 0
      else case hc_parse hc (the startTimeIso) of
        None \<Rightarrow> 0
      | Some ms \<Rightarrow>
          if intervalMinutes \<le> 0 then 0
          else max 0 ((hc_minutes hc now - hc_minutes hc ms) div intervalMinutes))"

text \<open>\<open>/^(\d{1,2}):(\d{2})$/\<close>.\<close>

definition wall_clock :: "string \<Rightarrow> (int \<times> int) option" where
  "wall_clock s =
     (let h = takeWhile is_digit s; r = dropWhile is_digit s
      in case r of
           [c, d, e] \<Rightarrow>
             if c = CHR '':'' \<and> is_digit d \<and> is_digit e \<and> (length h = 1 \<or> length h = 2)
             then Some (int (parse_nat h), int (parse_nat [d, e])) else None
         | _ \<Rightarrow> None)"

definition formatBracketSlot :: "int \<Rightarrow> string option \<Rightarrow> int \<Rightarrow> string option" where
  "formatBracketSlot slotId start_time interval_minutes =
     (if \<not> truthy start_time then None
      else case wall_clock (trim (the start_time)) of
        None \<Rightarrow> None
      | Some (startHours, startMinutes) \<Rightarrow>
          (let totalMinutes = startHours * 60 + startMinutes + slotId * interval_minutes
           in Some (pad2 (js_mod (totalMinutes div 60) 24) @ '':'' @ pad2 (js_mod totalMinutes 60))))"

section \<open>Badges say who is entered where\<close>

definition codes_at :: "badge_map \<Rightarrow> string \<Rightarrow> string set" where
  "codes_at out i = fst ` set (or_else (map_of out i) [])"

definition badge_map_ok :: "badge_map \<Rightarrow> bool" where
  "badge_map_ok out \<longleftrightarrow> distinct (map fst out) \<and>
     (\<forall>(i, byCode) \<in> set out. distinct (map fst byCode) \<and> (\<forall>(code, b) \<in> set byCode. be_code b = code))"

lemma inner_update_ok:
  "distinct (map fst d) \<and> (\<forall>(code, b) \<in> set d. be_code b = code) \<Longrightarrow>
   distinct (map fst (AList.update (be_code b) b d)) \<and> (\<forall>(code, b) \<in> set (AList.update (be_code b) b d). be_code b = code)"
  by (auto simp: distinct_update set_update_distinct)

lemma map_of_set: "distinct (map fst d) \<Longrightarrow> (i, v) \<in> set d \<longleftrightarrow> map_of d i = Some v"
  by (simp add: map_of_eq_Some_iff)

lemma put_badge_ok:
  assumes "badge_map_ok out"
  shows "badge_map_ok (put_badge b i out)"
proof -
  have "distinct (map fst (or_else (map_of out i) [])) \<and> (\<forall>(code, b) \<in> set (or_else (map_of out i) []). be_code b = code)"
    using assms map_of_SomeD[of out i] by (cases "map_of out i") (auto simp: badge_map_ok_def)
  from inner_update_ok[OF this, of b] show ?thesis
    using assms by (auto simp: badge_map_ok_def put_badge_def distinct_update set_update_distinct)
qed

lemma codes_put_badge:
  "codes_at (put_badge b i out) j = codes_at out j \<union> (if i = j then {be_code b} else {})"
  by (auto simp: codes_at_def put_badge_def dom_update)

lemma badge_fold:
  "badge_map_ok out \<Longrightarrow> badge_map_ok (fold (put_badge b) xs out)"
  "codes_at (fold (put_badge b) xs out) j = codes_at out j \<union> (if j \<in> set xs then {be_code b} else {})"
  by (induction xs arbitrary: out) (auto simp: put_badge_ok codes_put_badge)

lemma be_code_badge_of [simp]: "be_code (badge_of evs ev seed) = badgeForEvent ev evs"
  by (simp add: badge_of_def Let_def)

lemma event_badges:
  "badge_map_ok out \<Longrightarrow> badge_map_ok (fold (badge_participant evs ev) ps out)"
  "codes_at (fold (badge_participant evs ev) ps out) j =
     codes_at out j \<union> (if j \<in> set (concat (map occupants ps)) then {badgeForEvent ev evs} else {})"
  by (induction ps arbitrary: out) (auto simp: badge_participant_def badge_fold)

lemma collected_badges:
  "badge_map_ok (badges_collected evs)"
  "codes_at (badges_collected evs) j = (\<lambda>ev. badgeForEvent ev evs) ` {ev \<in> set evs. j \<in> enteredPlayerIds ev}"
proof -
  have "badge_map_ok out \<Longrightarrow> badge_map_ok (fold (\<lambda>ev. fold (badge_participant evs ev) (entered_in ev)) xs out)"
    and "codes_at (fold (\<lambda>ev. fold (badge_participant evs ev) (entered_in ev)) xs out) j =
      codes_at out j \<union> (\<lambda>ev. badgeForEvent ev evs) ` {ev \<in> set xs. j \<in> enteredPlayerIds ev}" for xs out
    by (induction xs arbitrary: out) (auto simp: event_badges enteredPlayerIds_def)
  from this(1)[of "[]" evs] this(2)[of evs "[]"] show "badge_map_ok (badges_collected evs)"
    "codes_at (badges_collected evs) j = (\<lambda>ev. badgeForEvent ev evs) ` {ev \<in> set evs. j \<in> enteredPlayerIds ev}"
    by (simp_all add: badges_collected_def badge_map_ok_def codes_at_def)
qed

lemma map_of_map_values: "map_of (map (\<lambda>(k, v). (k, f v)) d) k = map_option f (map_of d k)"
  by (induction d) auto

text \<open>The badges of a player are exactly the events the player is entered in: one badge for each code,
  whether the player is a row of the event or a member of a team, and before the draw is generated too.\<close>

theorem badges_exact:
  "distinct (map be_code (or_else (map_of (badgesByPlayerId collate (Some t)) i) [])) \<and>
   be_code ` set (or_else (map_of (badgesByPlayerId collate (Some t)) i) []) =
     (\<lambda>ev. badgeForEvent ev (dd_events t)) ` {ev \<in> set (dd_events t). i \<in> enteredPlayerIds ev}"
proof -
  note ok = collected_badges(1)[of "dd_events t"]
  note codes = collected_badges(2)[of "dd_events t" i, symmetric]
  show ?thesis
  proof (cases "map_of (badges_collected (dd_events t)) i")
    case None
    then show ?thesis unfolding codes by (simp add: badgesByPlayerId_def map_of_map_values codes_at_def)
  next
    case (Some byCode)
    then have b: "distinct (map fst byCode)" "\<forall>(code, b) \<in> set byCode. be_code b = code"
      using ok map_of_SomeD[OF Some] by (auto simp: badge_map_ok_def)
    then have m: "map be_code (map snd byCode) = map fst byCode" by (auto simp: split_def)
    moreover from m have "be_code ` snd ` set byCode = fst ` set byCode" by (metis list.set_map)
    ultimately show ?thesis
      unfolding codes using b(1) Some
      by (simp add: badgesByPlayerId_def map_of_map_values codes_at_def js_sort_distinct del: map_map)
  qed
qed

section \<open>The roster of a legacy bracket\<close>

definition single_rows :: "participant list \<Rightarrow> participant set" where
  "single_rows ps = {p \<in> set ps. members_of p = []}"

lemma add_person_props:
  "fst ` set (add_person i n d) = insert i (fst ` set d)" "set (add_person i n d) \<subseteq> insert (i, n) (set d)"
  "distinct (map fst d) \<Longrightarrow> distinct (map fst (add_person i n d))"
  by (auto simp: add_person_def dom_update update_new map_of_eq_None_iff distinct_update split: option.splits
      dest: map_of_SomeD intro: rev_image_eqI)

lemma single_names_lookup: "map_of (single_names ps) i = Some n \<Longrightarrow> \<exists>p \<in> single_rows ps. pt_id p = i \<and> pt_name p = n"
  by (auto simp: single_names_def map_of_from_entries single_rows_def dest!: map_of_SomeD)

lemma single_names_none: "map_of (single_names ps) i = None \<longleftrightarrow> i \<notin> pt_id ` single_rows ps"
proof -
  have "fst ` set (map (\<lambda>p. (pt_id p, pt_name p)) (filter (\<lambda>p. members_of p = []) ps)) = pt_id ` single_rows ps"
    by (force simp: single_rows_def)
  then show ?thesis by (simp add: single_names_def map_of_from_entries map_of_eq_None_iff)
qed

lemma reconcile_row_props:
  assumes "distinct (map fst d)" "set d \<subseteq> (\<lambda>p. (pt_id p, pt_name p)) ` single_rows ps" "p \<in> set ps"
  shows "distinct (map fst (reconcile_row (single_names ps) p d)) \<and>
    set (reconcile_row (single_names ps) p d) \<subseteq> (\<lambda>p. (pt_id p, pt_name p)) ` single_rows ps \<and>
    fst ` set d \<subseteq> fst ` set (reconcile_row (single_names ps) p d) \<and>
    (members_of p = [] \<longrightarrow> pt_id p \<in> fst ` set (reconcile_row (single_names ps) p d))"
proof (cases "members_of p = []")
  case True
  have "(pt_id p, pt_name p) \<in> (\<lambda>p. (pt_id p, pt_name p)) ` single_rows ps" using True assms(3) by (auto simp: single_rows_def)
  then show ?thesis
    using True assms add_person_props[where i = "pt_id p" and n = "pt_name p" and d = d] by (auto simp: reconcile_row_def)
next
  case False
  let ?f = "\<lambda>i d. case map_of (single_names ps) i of None \<Rightarrow> d | Some name \<Rightarrow> add_person i name d"
  have one: "distinct (map fst (?f i e)) \<and> set (?f i e) \<subseteq> (\<lambda>p. (pt_id p, pt_name p)) ` single_rows ps \<and>
      fst ` set e \<subseteq> fst ` set (?f i e)"
    if "distinct (map fst e)" "set e \<subseteq> (\<lambda>p. (pt_id p, pt_name p)) ` single_rows ps" for i e
  proof (cases "map_of (single_names ps) i")
    case (Some n)
    then have "(i, n) \<in> (\<lambda>p. (pt_id p, pt_name p)) ` single_rows ps" using single_names_lookup by blast
    then show ?thesis using Some that add_person_props[where i = i and n = n and d = e] by auto
  qed (use that in simp)
  have "distinct (map fst (fold ?f is e)) \<and> set (fold ?f is e) \<subseteq> (\<lambda>p. (pt_id p, pt_name p)) ` single_rows ps \<and>
      fst ` set e \<subseteq> fst ` set (fold ?f is e)"
    if "distinct (map fst e)" "set e \<subseteq> (\<lambda>p. (pt_id p, pt_name p)) ` single_rows ps" for "is" e
    using that
  proof (induction "is" arbitrary: e)
    case (Cons i "is")
    then show ?case using one[of e i] by (metis (no_types, lifting) fold_simps(2) order_trans)
  qed simp
  from this[OF assms(1,2)] show ?thesis using False by (simp add: reconcile_row_def)
qed

text \<open>The roster read out of a legacy bracket lists every person that has a row of their own exactly once,
  under a name that row carries, and nobody else: the name of a pair is never taken apart.\<close>

theorem legacy_roster_exact:
  "distinct (map fst (reconcileBracketRoster ps)) \<and>
   fst ` set (reconcileBracketRoster ps) = pt_id ` {p \<in> set ps. members_of p = []} \<and>
   set (reconcileBracketRoster ps) \<subseteq> (\<lambda>p. (pt_id p, pt_name p)) ` {p \<in> set ps. members_of p = []}"
proof -
  have "distinct (map fst (fold (reconcile_row (single_names ps)) qs d)) \<and>
      set (fold (reconcile_row (single_names ps)) qs d) \<subseteq> (\<lambda>p. (pt_id p, pt_name p)) ` single_rows ps \<and>
      fst ` set d \<union> pt_id ` single_rows qs \<subseteq> fst ` set (fold (reconcile_row (single_names ps)) qs d)"
    if "distinct (map fst d)" "set d \<subseteq> (\<lambda>p. (pt_id p, pt_name p)) ` single_rows ps" "set qs \<subseteq> set ps" for qs d
    using that
  proof (induction qs arbitrary: d)
    case (Cons q qs)
    let ?e = "reconcile_row (single_names ps) q d"
    note r = reconcile_row_props[OF Cons.prems(1,2), of q]
    have "pt_id ` single_rows (q # qs) = (if members_of q = [] then {pt_id q} else {}) \<union> pt_id ` single_rows qs"
      by (auto simp: single_rows_def)
    moreover have "q \<in> set ps" "set qs \<subseteq> set ps" using Cons.prems(3) by auto
    ultimately show ?case using Cons.IH[of ?e] r by (simp add: subset_iff split: if_splits)
  qed (simp add: single_rows_def)
  from this[of "[]" ps] have *: "distinct (map fst (reconcileBracketRoster ps))"
    "set (reconcileBracketRoster ps) \<subseteq> (\<lambda>p. (pt_id p, pt_name p)) ` single_rows ps"
    "pt_id ` single_rows ps \<subseteq> fst ` set (reconcileBracketRoster ps)"
    by (simp_all add: reconcileBracketRoster_def)
  have "fst ` set (reconcileBracketRoster ps) \<subseteq> pt_id ` single_rows ps"
  proof
    fix i assume "i \<in> fst ` set (reconcileBracketRoster ps)"
    then obtain n where "(i, n) \<in> set (reconcileBracketRoster ps)" by auto
    with *(2) show "i \<in> pt_id ` single_rows ps" by blast
  qed
  with *(3) have "fst ` set (reconcileBracketRoster ps) = pt_id ` single_rows ps" by (rule equalityI[rotated])
  with * show ?thesis by (simp add: single_rows_def)
qed

section \<open>Scores and times\<close>

definition sets_won :: "winner_side \<Rightarrow> set_score list \<Rightarrow> int" where
  "sets_won side sets = int (length (filter (\<lambda>s. case side of
     SideA \<Rightarrow> ss_sideA s > ss_sideB s | SideB \<Rightarrow> ss_sideB s > ss_sideA s) (playedSets sets)))"

lemma count_sets:
  "fold tally_set xs (a, b) = (a + int (length (filter (\<lambda>s. ss_sideA s > ss_sideB s) xs)),
     b + int (length (filter (\<lambda>s. ss_sideB s > ss_sideA s) xs)))"
  by (induction xs arbitrary: a b) (auto simp: tally_set_def)

lemma winner_by_sets:
  "winnerSideFromSets sets =
     (if sets_won SideA sets = sets_won SideB sets then None
      else if sets_won SideA sets > sets_won SideB sets then Some SideA else Some SideB)"
  by (simp add: winnerSideFromSets_def count_sets sets_won_def)

lemma playedSets_idem [simp]: "playedSets (playedSets sets) = playedSets sets"
  by (simp add: playedSets_def)

text \<open>A recorded score names the side that won more of the recorded sets, the same side that reading the
  recorded sets again names; a level score is not recorded, and no set that nobody scored in is.\<close>

theorem recorded_winner_leads:
  "(case submitScore sets of
      None \<Rightarrow> sets_won SideA sets = sets_won SideB sets
    | Some (w, recorded) \<Rightarrow>
        sets_won (case w of SideA \<Rightarrow> SideB | SideB \<Rightarrow> SideA) recorded < sets_won w recorded \<and>
        winnerSideFromSets recorded = Some w \<and> submitScore recorded = Some (w, recorded) \<and>
        list_all (\<lambda>s. ss_sideA s > 0 \<or> ss_sideB s > 0) recorded)"
proof -
  have same: "sets_won side (playedSets sets) = sets_won side sets" for side by (simp add: sets_won_def)
  have "list_all (\<lambda>s. ss_sideA s > 0 \<or> ss_sideB s > 0) (playedSets sets)" by (simp add: playedSets_def list_all_iff)
  then show ?thesis by (simp add: submitScore_def winner_by_sets same)
qed

text \<open>The optimistic result is the only one of its match, and the others stay.\<close>

lemma optimistic_result_alone:
  "map dr_winner_side (filter (\<lambda>r. dr_play_unit_id r = bi_matchId input) (dd_results (applyOptimisticResult t input))) =
     [Some (bi_winnerSide input)]"
  "filter (\<lambda>r. dr_play_unit_id r \<noteq> bi_matchId input) (dd_results (applyOptimisticResult t input)) =
     filter (\<lambda>r. dr_play_unit_id r \<noteq> bi_matchId input) (dd_results t)"
  by (simp_all add: applyOptimisticResult_def)

lemma locked_iff:
  "i \<in> set (lockedPlayerIds (Some t)) \<longleftrightarrow>
     (\<exists>ev \<in> set (dd_events t). \<not> is_draft ev \<and>
        (\<exists>p \<in> set (or_else (de_participants ev) (dd_participants t)). containsPlayer i p))"
  by (auto simp: lockedPlayerIds_def js_set_def containsPlayer_def)

lemma current_slot_nonneg: "0 \<le> bracketCurrentSlot hc start interval now"
  by (simp add: bracketCurrentSlot_def split: option.split)

lemma wall_clock_chars:
  assumes "wall_clock s = Some hm"
  shows "\<forall>c \<in> set s. is_digit c \<or> c = CHR '':''"
proof -
  have "s = takeWhile is_digit s @ dropWhile is_digit s" by simp
  moreover have "\<forall>c \<in> set (takeWhile is_digit s). is_digit c" by (auto dest: set_takeWhileD)
  moreover have "\<forall>c \<in> set (dropWhile is_digit s). is_digit c \<or> c = CHR '':''"
    using assms by (auto simp: wall_clock_def Let_def split: list.splits if_splits)
  ultimately show ?thesis by (metis Un_iff set_append)
qed

text \<open>The wire sends \<open>start_time\<close> as an ISO date and time; a text with the letter T in it names no time, so a
  bracket that has a start shows none of its planned or actual times.\<close>

lemma iso_start_names_no_time:
  assumes "CHR ''T'' \<in> set (trim s)"
  shows "formatBracketSlot slot (Some s) interval = None"
proof -
  have "wall_clock (trim s) = None"
  proof (rule ccontr)
    assume "wall_clock (trim s) \<noteq> None"
    then obtain hm where "wall_clock (trim s) = Some hm" by blast
    from wall_clock_chars[OF this] assms have "is_digit (CHR ''T'') \<or> CHR ''T'' = CHR '':''" by blast
    then show False by (simp add: is_digit_def)
  qed
  then show ?thesis by (simp add: formatBracketSlot_def truthy_def)
qed

lemma iso_start_names_no_time_example:
  "formatBracketSlot 2 (Some ''2026-09-12T09:00:00'') 30 = None" "formatBracketSlot 2 (Some ''09:00'') 30 = Some ''10:00''"
  by code_simp+

end
