(* ===== verification/DisplayBoard.thy ===== *)
theory DisplayBoard
  imports Complex_Main CourtOccupancy LiveTracking MatchIdentity
begin

text \<open>
  The venue board: the arrangement of the courts (\<open>lib/courtLayout.ts\<close>), the rotation of the slides
  (\<open>lib/boardRotation.ts\<close>), and of \<open>modules/display\<close> the lanes of a court (\<open>courtLanes.ts\<close>), the words of the
  cards (\<open>helpers.ts\<close>), freshness and polling (\<open>freshness.ts\<close>, \<open>useDisplaySync.ts\<close>), sizes and presets
  (\<open>tvSizing.ts\<close>, \<open>standingsLayout.ts\<close>, \<open>displayPresets.ts\<close>) and the rows \<open>MeetDisplayPage.tsx\<close> derives for every
  court. Ages, dwell times and counts are integers; the shape of the board is a rational number.
\<close>

section \<open>Arrangement of the courts\<close>

definition manual_order :: "int list \<Rightarrow> int list option \<Rightarrow> int list" where
  "manual_order courtIds courtOrder =
     fold (\<lambda>i manual. if i \<in> set courtIds \<and> i \<notin> set manual then manual @ [i] else manual) (or_else courtOrder []) []"

definition orderCourts :: "int list \<Rightarrow> int list option \<Rightarrow> int list" where
  "orderCourts courtIds courtOrder =
     (let manual = manual_order courtIds courtOrder
      in manual @ sort (filter (\<lambda>i. i \<notin> set manual) courtIds))"

definition visibleCourts :: "int list \<Rightarrow> int list option \<Rightarrow> int list" where
  "visibleCourts courtIds hidden =
     (case hidden of
        None \<Rightarrow> courtIds
      | Some h \<Rightarrow> if h = [] then courtIds else filter (\<lambda>i. i \<notin> set h) courtIds)"

definition clamp4 :: "int \<Rightarrow> int" where
  "clamp4 n = min 4 (max 1 n)"

definition defaultColumns :: "int \<Rightarrow> int option \<Rightarrow> int" where
  "defaultColumns courtCount override =
     (case override of
        Some n \<Rightarrow> clamp4 n
      | None \<Rightarrow> if courtCount \<le> 3 then 2 else if courtCount \<le> 6 then 3 else 4)"

definition MAX_CARDS_PER_PAGE :: int where
  "MAX_CARDS_PER_PAGE = 12"

definition CARD_ASPECT :: rat where
  "CARD_ASPECT = 8 / 5"

record auto_layout =
  al_columns :: int
  al_pages :: int
  al_perPage :: int

text \<open>\<open>clamp(Math.sqrt(v))\<close> by the squares of 1.5, 2.5 and 3.5.\<close>

definition clamped_root :: "rat \<Rightarrow> int" where
  "clamped_root v = (if v < 9 / 4 then 1 else if v < 25 / 4 then 2 else if v < 49 / 4 then 3 else 4)"

definition autoLayout :: "int \<Rightarrow> rat \<Rightarrow> int option \<Rightarrow> auto_layout" where
  "autoLayout courtCount boardAspect override =
     (let n = max 0 courtCount
      in if n = 0 then \<lparr>al_columns = 1, al_pages = 1, al_perPage = MAX_CARDS_PER_PAGE\<rparr>
         else
           let pages = max 1 (ceil_div n MAX_CARDS_PER_PAGE);
               perPage = ceil_div n pages
           in case override of
                Some c \<Rightarrow> \<lparr>al_columns = clamp4 c, al_pages = pages, al_perPage = perPage\<rparr>
              | None \<Rightarrow>
                  (let aspect = (if boardAspect > 0 then boardAspect else 16 / 9)
                   in \<lparr>al_columns = clamped_root (of_int perPage * aspect / CARD_ASPECT),
                       al_pages = pages, al_perPage = perPage\<rparr>))"

definition cardAreaFraction :: "auto_layout \<Rightarrow> rat" where
  "cardAreaFraction layout =
     (let rows = ceil_div (al_perPage layout) (al_columns layout)
      in 1 / of_int (al_columns layout * max 1 rows))"

definition MIN_CARD_AREA :: rat where
  "MIN_CARD_AREA = 1 / of_int MAX_CARDS_PER_PAGE"

definition court_of :: "(string, match_state_dto) dict \<Rightarrow> schedule_assignment \<Rightarrow> int" where
  "court_of matchStates a = or_else (Option.bind (map_of matchStates (as_matchId a)) ms_actualCourtId) (as_courtId a)"

definition courtsWithActiveMatch :: "schedule_assignment list \<Rightarrow> (string, match_state_dto) dict \<Rightarrow> int set" where
  "courtsWithActiveMatch assignments matchStates =
     set (map (court_of matchStates)
       (filter (\<lambda>a. status_of matchStates (as_matchId a) \<in> {Some MStarted, Some MCalled}) assignments))"

text \<open>\<open>indexOf\<close> and the two calls of \<open>splice\<close>.\<close>

fun index_of :: "int \<Rightarrow> int list \<Rightarrow> nat option" where
  "index_of x [] = None"
| "index_of x (y # ys) = (if x = y then Some 0 else map_option Suc (index_of x ys))"

definition reorderIds :: "int list \<Rightarrow> int \<Rightarrow> int \<Rightarrow> int list" where
  "reorderIds ids activeId overId =
     (if activeId = overId then ids
      else case (index_of activeId ids, index_of overId ids) of
        (Some fromIdx, Some toIdx) \<Rightarrow>
          (let rest = take fromIdx ids @ drop (fromIdx + 1) ids in take toIdx rest @ activeId # drop toIdx rest)
      | _ \<Rightarrow> ids)"

section \<open>Rotation\<close>

datatype slide_id = CourtsSlide | StandingsSlide | UpNextSlide

definition SLIDE_ORDER :: "slide_id list" where
  "SLIDE_ORDER = [CourtsSlide, StandingsSlide, UpNextSlide]"

definition DEFAULT_DWELL_SECONDS :: int where
  "DEFAULT_DWELL_SECONDS = 10"

definition COURTS_DWELL_MULTIPLIER :: int where
  "COURTS_DWELL_MULTIPLIER = 2"

definition dwellSecondsFor :: "slide_id \<Rightarrow> int \<Rightarrow> int" where
  "dwellSecondsFor slide baseSeconds =
     (let base = max 1 baseSeconds in if slide = CourtsSlide then base * COURTS_DWELL_MULTIPLIER else base)"

text \<open>A configured set may hold unknown names from an old document: \<open>None\<close>.\<close>

definition rotationSlides :: "bool \<Rightarrow> bool \<Rightarrow> slide_id option list option \<Rightarrow> slide_id list" where
  "rotationSlides standings upNext configured =
     (let wanted = (case configured of
            Some l \<Rightarrow> if l \<noteq> [] then List.map_filter id l else SLIDE_ORDER
          | None \<Rightarrow> SLIDE_ORDER)
      in filter (\<lambda>slide. slide = CourtsSlide \<or>
           slide \<in> set wanted \<and> (if slide = StandingsSlide then standings else upNext)) SLIDE_ORDER)"

fun slide_walk :: "(slide_id \<Rightarrow> int) \<Rightarrow> slide_id list \<Rightarrow> slide_id \<Rightarrow> int \<Rightarrow> slide_id" where
  "slide_walk dwell [] final t = final"
| "slide_walk dwell (s # ss) final t = (if t < dwell s then s else slide_walk dwell ss final (t - dwell s))"

definition slide_cycle :: "slide_id list \<Rightarrow> int \<Rightarrow> int" where
  "slide_cycle slides baseDwell = sum_list (map (\<lambda>s. dwellSecondsFor s baseDwell) slides)"

definition slideAt :: "slide_id list \<Rightarrow> int \<Rightarrow> int \<Rightarrow> slide_id" where
  "slideAt slides elapsedSeconds baseDwell =
     (if slides = [] then CourtsSlide
      else if slide_cycle slides baseDwell \<le> 0 then hd slides
      else slide_walk (\<lambda>s. dwellSecondsFor s baseDwell) slides (last slides)
             (elapsedSeconds mod slide_cycle slides baseDwell))"

section \<open>Freshness\<close>

datatype freshness_state = FreshLive | FreshDelayed | FreshStale

definition STALE_MS :: int where
  "STALE_MS = 240000"

text \<open>\<open>DELAYED_MULTIPLIER\<close> is 2.5: five halves.\<close>

definition deriveFreshness :: "int \<Rightarrow> int \<Rightarrow> freshness_state" where
  "deriveFreshness ageMs pollMs =
     (if ageMs \<ge> STALE_MS then FreshStale else if 2 * ageMs \<ge> pollMs * 5 then FreshDelayed else FreshLive)"

definition ageMinutes :: "int \<Rightarrow> int" where
  "ageMinutes ageMs = max 1 ((ageMs + 30000) div 60000)"

definition staleCaption :: "int \<Rightarrow> string" where
  "staleCaption ageMs =
     (let minutes = ageMinutes ageMs
      in ''Results may be '' @ int_text minutes @ '' minute'' @ (if minutes = 1 then [] else ''s'') @ '' behind.'')"

section \<open>Lanes of a court\<close>

datatype board_lane = LaneNow | LaneNext | LaneLater

record lane_item =
  li_id :: string
  li_court :: int
  li_plannedSlot :: int

definition toOccupancyMatches :: "lane_item list \<Rightarrow> string set \<Rightarrow> occupancy_match list" where
  "toOccupancyMatches items nowState =
     map (\<lambda>i. \<lparr>om_id = li_id i, om_status = OPlaying, om_court = Some (li_court i)\<rparr>)
       (filter (\<lambda>i. li_id i \<in> nowState) items)"

text \<open>The loops over the occupied courts and over the disputes, shared by \<open>currentMatchesByCourt\<close> and the page.\<close>

definition current_by_court :: "occupancy_match list \<Rightarrow> (int, string) dict" where
  "current_by_court ms =
     (let states = deriveCourtStates ms Desk
      in fold (\<lambda>m current. case om_court m of
             Some c \<Rightarrow> if map_of states c = Some Occupied then AList.update c (om_id m) current else current
           | None \<Rightarrow> current) ms [])"

definition conflicts_by_court :: "occupancy_match list \<Rightarrow> (int, string list) dict" where
  "conflicts_by_court ms =
     fold (\<lambda>d. AList.update (cd_courtId d) (map cl_matchKey (cd_claims d))) (deriveDisputes ms Desk) []"

definition currentMatchesByCourt ::
  "lane_item list \<Rightarrow> string set \<Rightarrow> (int, string) dict \<times> (int, string list) dict" where
  "currentMatchesByCourt items nowState =
     (let ms = toOccupancyMatches items nowState in (current_by_court ms, conflicts_by_court ms))"

definition lane_order :: "lane_item \<Rightarrow> lane_item \<Rightarrow> int" where
  "lane_order a b =
     (if li_plannedSlot a - li_plannedSlot b \<noteq> 0 then li_plannedSlot a - li_plannedSlot b
      else if li_id a < li_id b then - 1 else if li_id b < li_id a then 1 else 0)"

text \<open>One court: its live entry when it is occupied by it, then the two first of the others.\<close>

definition court_lanes ::
  "string set \<Rightarrow> (int, court_state) dict \<Rightarrow> int \<times> lane_item list \<Rightarrow> (string, board_lane) dict \<Rightarrow> (string, board_lane) dict" where
  "court_lanes nowState courtStates cl lanes =
     (let sorted = js_sort lane_order (snd cl);
          liveEntries = filter (\<lambda>i. li_id i \<in> nowState) sorted;
          upcoming = filter (\<lambda>i. li_id i \<notin> nowState) sorted;
          l1 = (if map_of courtStates (fst cl) = Some Occupied then AList.update (li_id (hd liveEntries)) LaneNow lanes else lanes);
          l2 = (case upcoming of i # _ \<Rightarrow> AList.update (li_id i) LaneNext l1 | [] \<Rightarrow> l1)
      in case upcoming of _ # j # _ \<Rightarrow> AList.update (li_id j) LaneLater l2 | _ \<Rightarrow> l2)"

definition assignLanes :: "lane_item list \<Rightarrow> string set \<Rightarrow> (string, board_lane) dict" where
  "assignLanes items nowState =
     fold (court_lanes nowState (deriveCourtStates (toOccupancyMatches items nowState) Desk))
       (group_by (\<lambda>i. Some (li_court i)) items) []"


section \<open>Words of a card\<close>

definition sideFromIds :: "string list option \<Rightarrow> (string, string) dict \<Rightarrow> side" where
  "sideFromIds ids playerNames =
     (let l = or_else ids []
      in meetSideFromIds (Some l) (from_entries (map (\<lambda>i. (i, or_else (map_of playerNames i) i)) l)))"

definition formatPlayers :: "string list option \<Rightarrow> (string, string) dict \<Rightarrow> string" where
  "formatPlayers ids playerNames = formatSideCondensed (sideFromIds ids playerNames)"

definition sideLines :: "string list option \<Rightarrow> (string, string) dict \<Rightarrow> string list" where
  "sideLines ids playerNames = formatSideLines (sideFromIds ids playerNames)"

text \<open>
  A closure of a court in the configuration. A clock text that is missing or empty is no bound; one whose two
  pairs of characters are not integers is \<open>NaN\<close>, and no comparison with it holds (\<open>Some None\<close>).
\<close>

record court_closure =
  cc_courtId :: int
  cc_fromTime :: "string option"
  cc_toTime :: "string option"

definition closure_minutes :: "string option \<Rightarrow> int option option" where
  "closure_minutes hhmm =
     (if \<not> truthy hhmm then None
      else Some (case (js_integer (take 2 (the hhmm)), js_integer (take 2 (drop 3 (the hhmm)))) of
             (Some h, Some m) \<Rightarrow> Some (h * 60 + m) | _ \<Rightarrow> None))"

definition isCourtClosedNow :: "int list option \<Rightarrow> court_closure list option \<Rightarrow> int \<Rightarrow> int \<Rightarrow> bool" where
  "isCourtClosedNow closedCourts courtClosures courtId nowMin \<longleftrightarrow>
     courtId \<in> set (or_else closedCourts []) \<or>
     list_ex (\<lambda>c. cc_courtId c = courtId \<and>
       (case (or_else (closure_minutes (cc_fromTime c)) (Some 0), or_else (closure_minutes (cc_toTime c)) (Some (24 * 60))) of
          (Some f, Some t) \<Rightarrow> f \<le> nowMin \<and> nowMin < t | _ \<Rightarrow> False)) (or_else courtClosures [])"

text \<open>The code of an event is the rank of the match; \<open>upper\<close> is \<open>toUpperCase\<close>.\<close>

definition matchEventLabel :: "(string \<Rightarrow> string) \<Rightarrow> match_dto \<Rightarrow> string option" where
  "matchEventLabel upper m =
     (let code = trim (or_else (md_eventRank m) [])
      in if code = [] then None
         else case map_of DISCIPLINE_NAMES (upper (take 2 code)) of
           None \<Rightarrow> Some code
         | Some n \<Rightarrow> (let rank = trim (drop 2 code) in Some (if rank \<noteq> [] then n @ '' '' @ rank else n)))"

definition hasResolvedSides :: "match_dto \<Rightarrow> (string, string) dict \<Rightarrow> bool" where
  "hasResolvedSides m playerNames =
     (let resolved = (\<lambda>ids. ids \<noteq> [] \<and> list_all (\<lambda>i. truthy (map_of playerNames i)) ids)
      in resolved (md_sideA m) \<and> resolved (md_sideB m))"

section \<open>Sizes and presets\<close>

datatype standings_placement = StandingsOff | StandingsSide | StandingsRotate

definition standingsPlacement :: "int \<Rightarrow> standings_placement option \<Rightarrow> standings_placement" where
  "standingsPlacement courtCount mode =
     (case mode of Some p \<Rightarrow> p | None \<Rightarrow> if courtCount \<le> 6 then StandingsSide else StandingsRotate)"

definition DEFAULT_ACCENT :: string where
  "DEFAULT_ACCENT = ''#10b981''"

definition hex_colour :: "string \<Rightarrow> bool" where
  "hex_colour s \<longleftrightarrow> length s = 6 \<and> list_all (\<lambda>c. radix_digit c < 16) s"

definition resolveTvAccent :: "string option \<Rightarrow> string" where
  "resolveTvAccent tvAccent =
     (if \<not> truthy tvAccent then DEFAULT_ACCENT
      else
        let a = the tvAccent; bare = (if prefix ''#'' a then tl a else a)
        in if \<not> hex_colour bare then DEFAULT_ACCENT else if prefix ''#'' a then a else ''#'' @ a)"

datatype card_size = SizeAuto | SizeCompact | SizeComfortable | SizeLarge

definition resolveCardHeightPx :: "card_size option \<Rightarrow> bool \<Rightarrow> int" where
  "resolveCardHeightPx tvCardSize isFullscreen =
     (case tvCardSize of
        Some SizeCompact \<Rightarrow> 72 | Some SizeComfortable \<Rightarrow> 128 | Some SizeLarge \<Rightarrow> 176
      | _ \<Rightarrow> if isFullscreen then 128 else 96)"

text \<open>The type tiers as numbers: \<open>text-xl\<close> is 1, \<open>text-2xl\<close> 2, and so on.\<close>

definition height_tier :: "int \<Rightarrow> int" where
  "height_tier h = (if h \<ge> 160 then 3 else if h \<ge> 120 then 2 else if h \<ge> 96 then 1 else 0)"

definition resolveSignageCourtSize :: "int \<Rightarrow> int" where
  "resolveSignageCourtSize h = 6 + height_tier h"

definition resolveSignageScoreSize :: "int \<Rightarrow> int" where
  "resolveSignageScoreSize h = 1 + height_tier h"

text \<open>\<open>line.split(/\s+/)\<close>. The length of a word is that of an ASCII text.\<close>

function space_pieces :: "string \<Rightarrow> string \<Rightarrow> string list" where
  "space_pieces acc [] = [acc]"
| "space_pieces acc (c # cs) =
     (if js_space c then acc # space_pieces [] (dropWhile js_space cs) else space_pieces (acc @ [c]) cs)"
  by pat_completeness auto

termination
  by (relation "measure (\<lambda>(acc, cs). length cs)") (simp_all add: le_imp_less_Suc length_dropWhile_le)

definition longestWordChars :: "string list \<Rightarrow> nat" where
  "longestWordChars lines = fold (\<lambda>w longest. max longest (length w)) (concat (map (space_pieces []) lines)) 0"

definition SIGNAGE_MAX_WORD_CHARS :: nat where
  "SIGNAGE_MAX_WORD_CHARS = 11"

definition SIGNAGE_NAME_TIERS :: "int list" where
  "SIGNAGE_NAME_TIERS = [2, 3, 4, 5]"

definition stepDownSignageNameSize :: "int \<Rightarrow> string list \<Rightarrow> int" where
  "stepDownSignageNameSize tier lines =
     (if longestWordChars lines \<le> SIGNAGE_MAX_WORD_CHARS then tier
      else case index_of tier SIGNAGE_NAME_TIERS of
        Some (Suc i) \<Rightarrow> SIGNAGE_NAME_TIERS ! i | _ \<Rightarrow> tier)"

definition resolveSignageNameSize :: "int \<Rightarrow> string list \<Rightarrow> int" where
  "resolveSignageNameSize h lines = stepDownSignageNameSize (2 + height_tier h) lines"

text \<open>The order of the sign: the court number above the names above the score, which names broken down for a long
  word can meet but never pass.\<close>

lemma signage_order:
  "resolveSignageScoreSize h \<le> resolveSignageNameSize h lines \<and> resolveSignageNameSize h lines < resolveSignageCourtSize h"
  by (auto simp: resolveSignageScoreSize_def resolveSignageNameSize_def resolveSignageCourtSize_def height_tier_def
      stepDownSignageNameSize_def SIGNAGE_NAME_TIERS_def)

record display_preset =
  dp_id :: string
  dp_dark :: bool

definition DISPLAY_PRESETS :: "display_preset list" where
  "DISPLAY_PRESETS =
     map (\<lambda>i. \<lparr>dp_id = i, dp_dark = True\<rparr>) [''court'', ''pitch'', ''midnight'', ''ash''] @
     map (\<lambda>i. \<lparr>dp_id = i, dp_dark = False\<rparr>) [''paper'', ''chalk'', ''daylight'', ''sand'']"

definition getPreset :: "string option \<Rightarrow> display_preset" where
  "getPreset i =
     (if \<not> truthy i then hd DISPLAY_PRESETS
      else or_else (find (\<lambda>p. dp_id p = the i) DISPLAY_PRESETS) (hd DISPLAY_PRESETS))"

section \<open>The rows of the courts\<close>

record board_input =
  bi_schedule :: "schedule_dto option"
  bi_courtCount :: "int option"
  bi_courtOrder :: "int list option"
  bi_hiddenCourts :: "int list option"
  bi_matches :: "match_dto list"
  bi_states :: "(string, match_state_dto) dict"

definition board_status :: "board_input \<Rightarrow> by_status" where
  "board_status d = matchesByStatus (getActiveAssignments (bi_schedule d)) (bi_states d)"

definition matchMap :: "match_dto list \<Rightarrow> (string, match_dto) dict" where
  "matchMap matches = from_entries (map (\<lambda>m. (md_id m, m)) matches)"

definition playingMatches :: "board_input \<Rightarrow> occupancy_match list" where
  "playingMatches d =
     map (\<lambda>a. \<lparr>om_id = as_matchId a, om_status = OPlaying, om_court = Some (court_of (bi_states d) a)\<rparr>)
       (bs_started (board_status d))"

definition called_by_court :: "board_input \<Rightarrow> (int, string) dict" where
  "called_by_court d =
     fold (\<lambda>a called.
         if map_of (current_by_court (playingMatches d)) (court_of (bi_states d) a) = None \<and>
            map_of (conflicts_by_court (playingMatches d)) (court_of (bi_states d) a) = None
         then AList.update (court_of (bi_states d) a) (as_matchId a) called else called)
       (bs_called (board_status d)) []"

definition laneItems :: "board_input \<Rightarrow> lane_item list" where
  "laneItems d =
     (case bi_schedule d of
        None \<Rightarrow> []
      | Some s \<Rightarrow> map (\<lambda>a. \<lparr>li_id = as_matchId a, li_court = court_of (bi_states d) a, li_plannedSlot = as_slotId a\<rparr>)
          (filter (\<lambda>a. status_of (bi_states d) (as_matchId a) \<noteq> Some MFinished) (sc_assignments s)))"

definition nowIds :: "board_input \<Rightarrow> string set" where
  "nowIds d =
     set (map fst (filter (\<lambda>(i, st). occupiesCourtNow st Board)
       (map (\<lambda>a. (as_matchId a, OPlaying)) (bs_started (board_status d)) @
        map (\<lambda>a. (as_matchId a, OCalled)) (bs_called (board_status d)))))"

definition preview_by_court :: "board_input \<Rightarrow> board_lane \<Rightarrow> (int, string) dict" where
  "preview_by_court d lane =
     (let lanes = assignLanes (laneItems d) (nowIds d)
      in fold (\<lambda>i m. if map_of lanes (li_id i) = Some lane then AList.update (li_court i) (li_id i) m else m) (laneItems d) [])"

datatype court_status = RowActive | RowCalled | RowEmpty

record court_row =
  cr_courtId :: int
  cr_match :: "match_dto option"
  cr_state :: "match_state_dto option"
  cr_status :: court_status
  cr_conflicts :: "match_dto list option"
  cr_next :: "match_dto option"
  cr_later :: "match_dto option"

definition court_row_of :: "board_input \<Rightarrow> int \<Rightarrow> court_row" where
  "court_row_of d courtId =
     (let named = map_of (matchMap (bi_matches d));
          preview = (\<lambda>lane. Option.bind (map_of (preview_by_court d lane) courtId) named);
          row = (\<lambda>shown st conflicts later.
            \<lparr>cr_courtId = courtId, cr_match = Option.bind shown named, cr_state = Option.bind shown (map_of (bi_states d)),
             cr_status = st, cr_conflicts = conflicts,
             cr_next = (if conflicts = None then preview LaneNext else None), cr_later = later\<rparr>)
      in case map_of (conflicts_by_court (playingMatches d)) courtId of
           Some ids \<Rightarrow> row None RowEmpty (Some (List.map_filter named ids)) None
         | None \<Rightarrow>
             (case map_of (current_by_court (playingMatches d)) courtId of
                Some i \<Rightarrow> row (Some i) RowActive None None
              | None \<Rightarrow>
                  (case map_of (called_by_court d) courtId of
                     Some i \<Rightarrow> row (Some i) RowCalled None None
                   | None \<Rightarrow> row None RowEmpty None (preview LaneLater))))"

definition courtMatches :: "board_input \<Rightarrow> court_row list" where
  "courtMatches d =
     (case (bi_schedule d, bi_courtCount d) of
        (Some _, Some count) \<Rightarrow> map (court_row_of d) [1..count]
      | _ \<Rightarrow> [])"

definition displayedCourtRows :: "board_input \<Rightarrow> court_row list" where
  "displayedCourtRows d =
     (let rows = courtMatches d; byId = from_entries (map (\<lambda>r. (cr_courtId r, r)) rows);
          visible = visibleCourts (orderCourts (map cr_courtId rows) (bi_courtOrder d)) (bi_hiddenCourts d)
      in List.map_filter (map_of byId) visible)"

definition upcomingMatches :: "board_input \<Rightarrow> (schedule_assignment \<times> match_dto option) list" where
  "upcomingMatches d =
     (if bi_schedule d = None then []
      else map (\<lambda>a. (a, map_of (matchMap (bi_matches d)) (as_matchId a))) (take 10 (bs_scheduled (board_status d))))"

definition calledEntry :: "board_input \<Rightarrow> (string \<times> int) option" where
  "calledEntry d =
     map_option (\<lambda>r. (md_id (the (cr_match r)), cr_courtId r))
       (find (\<lambda>r. cr_status r = RowCalled \<and> cr_match r \<noteq> None) (displayedCourtRows d))"

text \<open>The percentage of the footer, a half rounded upwards.\<close>

definition progressPct :: "board_input \<Rightarrow> int" where
  "progressPct d =
     (let finished = int (length (bs_finished (board_status d)));
          count = (case bi_schedule d of None \<Rightarrow> 0 | Some s \<Rightarrow> int (length (sc_assignments s)))
      in if count = 0 then 0 else (200 * finished + count) div (2 * count))"

text \<open>What a card of \<open>CourtsView.tsx\<close> shows of its row.\<close>

record court_card =
  cd_current :: "match_dto option"
  cd_sets :: "set_score list"
  cd_preview :: "match_dto option"

definition laneSets :: "match_state_dto option \<Rightarrow> bool \<Rightarrow> set_score list" where
  "laneSets state show_scores =
     (case state of
        None \<Rightarrow> []
      | Some st \<Rightarrow>
          if \<not> show_scores then []
          else if or_else (ms_sets st) [] \<noteq> [] then or_else (ms_sets st) []
          else (case ms_score st of Some s \<Rightarrow> [s] | None \<Rightarrow> []))"

definition court_card_of :: "bool \<Rightarrow> bool \<Rightarrow> bool \<Rightarrow> (string, string) dict \<Rightarrow> court_row \<Rightarrow> court_card" where
  "court_card_of isClosed show_scores show_next playerNames row =
     (let suppressed = isClosed \<or> or_else (cr_conflicts row) [] \<noteq> []
      in \<lparr>cd_current = (if suppressed then None else cr_match row),
          cd_sets = (if suppressed then [] else laneSets (cr_state row) show_scores),
          cd_preview = (case cr_next row of
              Some m \<Rightarrow> if \<not> suppressed \<and> show_next \<and> hasResolvedSides m playerNames then Some m else None
            | None \<Rightarrow> None)\<rparr>)"

section \<open>Polling of the board\<close>

definition TOURNAMENT_POLL_MS :: int where
  "TOURNAMENT_POLL_MS = 10000"

text \<open>What the hook keeps; \<open>ds_cancelled\<close> is the flag of its effect, \<open>ds_doc\<close> the store it hydrates.\<close>

record 'd display_sync =
  ds_lastSync :: "int option"
  ds_error :: "string option"
  ds_terminalFor :: "string option"
  ds_cancelled :: bool
  ds_doc :: "'d option"

text \<open>The answer of one read, landing at \<open>now\<close>; an empty answer keeps the document.\<close>

definition display_pull :: "string \<Rightarrow> int \<Rightarrow> poll_error + 'd option \<Rightarrow> 'd display_sync \<Rightarrow> 'd display_sync" where
  "display_pull source now reply s =
     (if ds_cancelled s then s
      else case reply of
        Inr remote \<Rightarrow> s\<lparr>ds_doc := or_opt remote (ds_doc s), ds_lastSync := Some now, ds_error := None\<rparr>
      | Inl err \<Rightarrow>
          (let s' = (if isTerminalPollError err then s\<lparr>ds_cancelled := True, ds_terminalFor := Some source\<rparr> else s)
           in s'\<lparr>ds_error := Some (or_else (pe_message err) ''Connection lost'')\<rparr>))"

definition display_terminal :: "string \<Rightarrow> 'd display_sync \<Rightarrow> bool" where
  "display_terminal source s \<longleftrightarrow> ds_terminalFor s = Some source"

definition display_freshness :: "int \<Rightarrow> 'd display_sync \<Rightarrow> freshness_state" where
  "display_freshness now s =
     (case ds_lastSync s of
        None \<Rightarrow> if truthy (ds_error s) then FreshDelayed else FreshLive
      | Some t \<Rightarrow> deriveFreshness (now - t) TOURNAMENT_POLL_MS)"

datatype board_kind = MeetBoard | BracketBoard | HybridBoard

definition kindFromModules :: "(string \<times> string) list \<Rightarrow> string option \<Rightarrow> board_kind" where
  "kindFromModules modules kind =
     (if modules = [] then (if kind = Some ''bracket'' then BracketBoard else MeetBoard)
      else
        let on = (\<lambda>i. list_ex (\<lambda>(j, status). j = i \<and> status = ''enabled'') modules)
        in if on ''meet'' \<and> on ''bracket'' then HybridBoard else if on ''bracket'' then BracketBoard else MeetBoard)"

text \<open>What fills the page: a dead link, no plan yet, one of the views, the courts withheld.\<close>

datatype board_screen =
  DeadLink | NoPlan | Waiting | ScheduleScreen | StandingsScreen | UpNextScreen | Withheld | CourtsScreen

definition board_screen_of :: "bool \<Rightarrow> bool \<Rightarrow> freshness_state \<Rightarrow> bool \<Rightarrow> bool \<Rightarrow> slide_id \<Rightarrow> board_screen" where
  "board_screen_of planned linkDead freshness preview schedule_view activeSlide =
     (if linkDead then DeadLink
      else if \<not> planned then (if freshness = FreshLive then NoPlan else Waiting)
      else if schedule_view then ScheduleScreen
      else if activeSlide = StandingsSlide then StandingsScreen
      else if activeSlide = UpNextSlide then UpNextScreen
      else if freshness = FreshStale \<and> \<not> preview then Withheld else CourtsScreen)"

text \<open>Only the courts are withheld from a wall whose snapshot has expired.\<close>

lemma stale_slides_stay:
  "board_screen_of True False FreshStale False False UpNextSlide = UpNextScreen"
  "board_screen_of True False FreshStale False True slide = ScheduleScreen"
  by (simp_all add: board_screen_of_def)

lemma cancelled_is_final: "ds_cancelled s \<Longrightarrow> fold (\<lambda>(now, reply). display_pull source now reply) pulls s = s"
  by (induction pulls) (auto simp: display_pull_def)

text \<open>After a verdict that cannot change no answer moves the board again, in whatever order the reads land.\<close>

lemma dead_link_is_final:
  assumes "\<not> ds_cancelled s" "isTerminalPollError err"
  shows "display_terminal source (fold (\<lambda>(now, reply). display_pull source now reply) ((now, Inl err) # pulls) s)"
    "ds_doc (fold (\<lambda>(now, reply). display_pull source now reply) ((now, Inl err) # pulls) s) = ds_doc s"
  using assms cancelled_is_final[of "display_pull source now (Inl err) s" source pulls]
  by (simp_all add: display_pull_def display_terminal_def Let_def)

lemma live_board_is_recent:
  "display_freshness now s = FreshLive \<Longrightarrow> ds_lastSync s = Some t \<Longrightarrow> now - t < 25000"
  by (auto simp: display_freshness_def deriveFreshness_def TOURNAMENT_POLL_MS_def split: if_splits)

section \<open>The arrangement keeps every court\<close>

lemma manual_order_props:
  "distinct (manual_order ids order) \<and> set (manual_order ids order) = set ids \<inter> set (or_else order [])"
proof -
  have "distinct (fold (\<lambda>i m. if i \<in> S \<and> i \<notin> set m then m @ [i] else m) xs m0) \<and>
      set (fold (\<lambda>i m. if i \<in> S \<and> i \<notin> set m then m @ [i] else m) xs m0) = set m0 \<union> (S \<inter> set xs)"
    if "distinct m0" for S xs and m0 :: "int list"
    using that by (induction xs arbitrary: m0) auto
  from this[of "[]" "set ids" "or_else order []"] show ?thesis by (simp add: manual_order_def)
qed

lemma orderCourts_permutes:
  "distinct ids \<Longrightarrow> distinct (orderCourts ids order) \<and> set (orderCourts ids order) = set ids"
  using manual_order_props[of ids order] by (auto simp: orderCourts_def Let_def)

lemma index_of_some: "index_of x xs = Some i \<Longrightarrow> i < length xs \<and> xs ! i = x"
  by (induction xs arbitrary: i) (auto split: if_splits)

lemma index_of_mem: "(\<exists>i. index_of x xs = Some i) \<longleftrightarrow> x \<in> set xs"
  by (induction xs) auto

lemma reorder_moves:
  assumes "index_of activeId ids = Some i" "index_of overId ids = Some j"
  shows "reorderIds ids activeId overId ! j = activeId" "length (reorderIds ids activeId overId) = length ids"
    "set (reorderIds ids activeId overId) = set ids"
proof -
  have i: "i < length ids" "ids ! i = activeId" and j: "j < length ids" "ids ! j = overId"
    using assms index_of_some by blast+
  let ?rest = "take i ids @ drop (i + 1) ids"
  have n: "length ?rest = length ids - 1" using i(1) by simp
  have split: "ids = take i ids @ activeId # drop (i + 1) ids" using id_take_nth_drop[OF i(1)] i(2) by simp
  have "set ids = insert activeId (set ?rest)" by (subst split) auto
  moreover have "set ?rest = set (take j ?rest) \<union> set (drop j ?rest)" by (metis append_take_drop_id set_append)
  ultimately have s: "set ids = set (take j ?rest @ activeId # drop j ?rest)" by auto
  have l: "length (take j ?rest @ activeId # drop j ?rest) = length ids" using n i(1) by simp
  have "j \<le> length ?rest" using j(1) n by simp
  then have nth: "(take j ?rest @ activeId # drop j ?rest) ! j = activeId" by (simp add: nth_append del: take_append drop_append)
  show "reorderIds ids activeId overId ! j = activeId" "length (reorderIds ids activeId overId) = length ids"
    "set (reorderIds ids activeId overId) = set ids"
    using assms i(2) j nth l s by (auto simp: reorderIds_def Let_def simp del: take_append drop_append)
qed

section \<open>The layout keeps cards readable\<close>

lemma ceil_div_bounds:
  assumes "0 < b" shows "a \<le> ceil_div a b * b" "(ceil_div a b - 1) * b < a"
proof -
  define q r where "q = - a div b" and "r = - a mod b"
  have "b * q + r = - a" unfolding q_def r_def by (rule mult_div_mod_eq)
  moreover have "0 \<le> r" "r < b" using assms by (simp_all add: r_def)
  moreover have "ceil_div a b = - q" by (simp add: ceil_div_def q_def)
  ultimately show "a \<le> ceil_div a b * b" "(ceil_div a b - 1) * b < a"
    by (simp_all add: algebra_simps)
qed

lemma ceil_div_le: "0 < b \<Longrightarrow> a \<le> q * b \<Longrightarrow> ceil_div a b \<le> q"
proof -
  assume "0 < b" "a \<le> q * b"
  then have "(ceil_div a b - 1) * b < q * b" using ceil_div_bounds(2)[of b a] by linarith
  then show "ceil_div a b \<le> q" using \<open>0 < b\<close> by (simp add: mult_less_cancel_right)
qed

lemma clamp4_range: "1 \<le> clamp4 n" "clamp4 n \<le> 4"
  by (simp_all add: clamp4_def)

lemma clamped_root_range: "1 \<le> clamped_root v" "clamped_root v \<le> 4"
  by (simp_all add: clamped_root_def)

text \<open>The squares are where the rounding of the root changes.\<close>

lemma clamped_root_is_rounded: "clamped_root v = clamp4 (round (sqrt (real_of_rat v)))" if "0 \<le> v"
proof -
  let ?r = "sqrt (real_of_rat v)"
  have r: "0 \<le> ?r" using that by simp
  have less: "v < q \<longleftrightarrow> ?r < h" if "q = h' * h'" "h = real_of_rat h'" "0 < h'" for q h h'
  proof -
    have "real_of_rat q = h\<^sup>2" using that by (simp add: of_rat_mult power2_eq_square)
    moreover have "0 < h" using that by simp
    ultimately have "sqrt (real_of_rat q) = h" by simp
    then show ?thesis by (metis of_rat_less real_sqrt_less_iff)
  qed
  have l: "v < 9 / 4 \<longleftrightarrow> ?r < 3 / 2" "v < 25 / 4 \<longleftrightarrow> ?r < 5 / 2" "v < 49 / 4 \<longleftrightarrow> ?r < 7 / 2"
    by (rule less[of _ "3 / 2"] less[of _ "5 / 2"] less[of _ "7 / 2"]; simp add: of_rat_divide)+
  have f: "n \<le> round ?r \<longleftrightarrow> of_int n \<le> ?r + 1 / 2" for n by (simp add: round_def le_floor_iff)
  show ?thesis
    unfolding clamped_root_def clamp4_def l using f[of 2] f[of 3] f[of 4] by (auto simp: min_def max_def)
qed

lemma layout_cells:
  assumes "1 \<le> c" "c \<le> 4" "0 < p" "p \<le> 12"
  shows "0 < c * max 1 (ceil_div p c)" "c * max 1 (ceil_div p c) \<le> 12"
proof -
  show "0 < c * max 1 (ceil_div p c)" using assms(1) by simp
  consider "c = 1" | "c = 2" | "c = 3" | "c = 4" using assms(1,2) by linarith
  then show "c * max 1 (ceil_div p c) \<le> 12"
  proof cases
    case 1 then show ?thesis using ceil_div_le[of 1 p 12] assms(4) by simp
  next
    case 2 then show ?thesis using ceil_div_le[of 2 p 6] assms(4) by simp
  next
    case 3 then show ?thesis using ceil_div_le[of 3 p 4] assms(4) by simp
  next
    case 4 then show ?thesis using ceil_div_le[of 4 p 3] assms(4) by simp
  qed
qed

lemma autoLayout_pages:
  fixes n :: int and aspect override
  defines "l \<equiv> autoLayout n aspect override"
  shows "1 \<le> al_columns l \<and> al_columns l \<le> 4 \<and> 0 < al_perPage l \<and> al_perPage l \<le> 12 \<and>
    n \<le> al_pages l * al_perPage l \<and> (al_pages l - 1) * al_perPage l < max 1 n"
proof (cases "0 < n")
  case False
  then show ?thesis by (simp add: l_def autoLayout_def MAX_CARDS_PER_PAGE_def)
next
  case True
  define pages where "pages = max 1 (ceil_div n 12)"
  have c: "n \<le> ceil_div n 12 * 12" "(ceil_div n 12 - 1) * 12 < n" by (rule ceil_div_bounds; simp)+
  then have "1 \<le> ceil_div n 12" using True by simp
  then have p: "pages = ceil_div n 12" "0 < pages" by (simp_all add: pages_def)
  define per where "per = ceil_div n pages"
  have per: "n \<le> per * pages" "(per - 1) * pages < n" unfolding per_def by (rule ceil_div_bounds[OF p(2)])+
  have "0 < per"
  proof (rule ccontr)
    assume "\<not> 0 < per"
    then have "per * pages \<le> 0" using p(2) by (simp add: mult_nonpos_nonneg)
    then show False using per(1) True by linarith
  qed
  have le: "per \<le> 12" unfolding per_def using p c(1) by (intro ceil_div_le) (simp_all add: mult.commute)
  have "(pages - 1) * per \<le> (pages - 1) * 12" using le p(2) by (intro mult_left_mono) simp_all
  then have few: "(pages - 1) * per < n" using c(2)[folded p(1)] by linarith
  have l: "al_pages l = pages" "al_perPage l = per" "1 \<le> al_columns l" "al_columns l \<le> 4"
    using True clamp4_range clamped_root_range
    by (simp_all add: l_def autoLayout_def Let_def MAX_CARDS_PER_PAGE_def pages_def per_def split: option.split)
  then show ?thesis using \<open>0 < per\<close> le few per(1) True by (simp add: mult.commute)
qed

text \<open>Whatever the number of courts, the shape of the screen and the columns the director asks for, a page of
  the automatic layout gives every card at least a twelfth of the board, in one to four columns, and the pages
  hold all the courts with none of them empty.\<close>

theorem cards_stay_readable:
  fixes n :: int and aspect override
  defines "l \<equiv> autoLayout n aspect override"
  shows "MIN_CARD_AREA \<le> cardAreaFraction l \<and> 1 \<le> al_columns l \<and> al_columns l \<le> 4 \<and>
    n \<le> al_pages l * al_perPage l \<and> (al_pages l - 1) * al_perPage l < max 1 n"
proof -
  note l = autoLayout_pages[of n aspect override, folded l_def]
  let ?k = "al_columns l * max 1 (ceil_div (al_perPage l) (al_columns l))"
  have "0 < ?k" "?k \<le> 12" using layout_cells l by blast+
  then have "(1 :: rat) / 12 \<le> 1 / of_int ?k" by (intro divide_left_mono) (simp_all del: of_int_mult)
  then show ?thesis using l by (simp add: MIN_CARD_AREA_def MAX_CARDS_PER_PAGE_def cardAreaFraction_def Let_def)
qed

text \<open>The page reads the columns alone and puts every court on one page: thirteen courts on a wide screen get
  three columns and five rows, less than the floor.\<close>

lemma thirteen_courts_below_floor:
  "al_columns (autoLayout 13 (16 / 9) None) = 3 \<and> al_pages (autoLayout 13 (16 / 9) None) = 2 \<and>
   1 / of_int (3 * ceil_div 13 3) < MIN_CARD_AREA"
  by (simp add: autoLayout_def Let_def MAX_CARDS_PER_PAGE_def ceil_div_def clamped_root_def CARD_ASPECT_def MIN_CARD_AREA_def)

section \<open>Every slide holds its time\<close>

lemma dwell_pos: "0 < dwellSecondsFor s base"
  by (simp add: dwellSecondsFor_def COURTS_DWELL_MULTIPLIER_def Let_def max_def)

lemma slide_walk_mem: "0 \<le> t \<Longrightarrow> t < sum_list (map dwell ss) \<Longrightarrow> slide_walk dwell ss final t \<in> set ss"
  by (induction ss arbitrary: t) auto

lemma card_shift: "card {t :: int. d \<le> t \<and> t < d + n \<and> P (t - d)} = card {t. 0 \<le> t \<and> t < n \<and> P t}"
proof -
  have "{t. d \<le> t \<and> t < d + n \<and> P (t - d)} = (\<lambda>t. t + d) ` {t. 0 \<le> t \<and> t < n \<and> P t}"
    by (auto simp: image_iff intro!: exI[of _ "_ - d"])
  then show ?thesis by (simp add: card_image inj_on_def)
qed

lemma slide_walk_counts:
  assumes "\<And>s. 0 < dwell s" "distinct ss"
  shows "card {t. 0 \<le> t \<and> t < sum_list (map dwell ss) \<and> slide_walk dwell ss final t = s} =
    (if s \<in> set ss then nat (dwell s) else 0)"
  using assms(2)
proof (induction ss)
  case Nil
  have "{t :: int. 0 \<le> t \<and> t < 0 \<and> final = s} = {}" by auto
  then show ?case by (simp only: list.map sum_list.Nil slide_walk.simps) simp
next
  case (Cons x ss)
  let ?n = "sum_list (map dwell ss)"
  let ?own = "{t. 0 \<le> t \<and> t < dwell x \<and> x = s}"
  let ?rest = "{t. dwell x \<le> t \<and> t < dwell x + ?n \<and> slide_walk dwell ss final (t - dwell x) = s}"
  have n: "0 \<le> ?n" using assms(1) by (intro sum_list_nonneg) (auto simp: less_imp_le)
  have d: "0 < dwell x" by (rule assms(1))
  have split: "{t. 0 \<le> t \<and> t < sum_list (map dwell (x # ss)) \<and> slide_walk dwell (x # ss) final t = s} = ?own \<union> ?rest"
    using n d by (auto split: if_split_asm)
  have fin: "finite ?own" "finite ?rest"
    by (rule finite_subset[of _ "{0..<dwell x}"], auto)[1] (rule finite_subset[of _ "{dwell x..<dwell x + ?n}"], auto)
  have rest: "card ?rest = (if s \<in> set ss then nat (dwell s) else 0)"
    using card_shift[of "dwell x" ?n "\<lambda>t. slide_walk dwell ss final t = s"] Cons by simp
  have own: "card ?own = (if x = s then nat (dwell x) else 0)"
  proof (cases "x = s")
    case True
    then have "?own = {0..<dwell x}" by auto
    then show ?thesis using True by simp
  qed simp
  have "card (?own \<union> ?rest) = card ?own + card ?rest" by (rule card_Un_disjoint[OF fin]) auto
  then show ?case unfolding split using own rest Cons.prems by auto
qed

lemma rotation_props:
  "distinct (rotationSlides st up conf)" "CourtsSlide \<in> set (rotationSlides st up conf)"
  "set (rotationSlides st up conf) \<subseteq>
     {CourtsSlide} \<union> (if st then {StandingsSlide} else {}) \<union> (if up then {UpNextSlide} else {})"
proof -
  show "distinct (rotationSlides st up conf)" by (simp add: rotationSlides_def Let_def SLIDE_ORDER_def)
  show "CourtsSlide \<in> set (rotationSlides st up conf)" by (simp add: rotationSlides_def Let_def SLIDE_ORDER_def)
  show "set (rotationSlides st up conf) \<subseteq>
     {CourtsSlide} \<union> (if st then {StandingsSlide} else {}) \<union> (if up then {UpNextSlide} else {})"
    using slide_id.exhaust by (auto simp: rotationSlides_def Let_def SLIDE_ORDER_def)
qed

text \<open>Whatever the document configures and the board has data for, in every cycle of the rotation each of its
  slides is on the wall for exactly its dwell time and no other slide is, the courts always among them; the
  sequence repeats after the cycle however long the board runs, and a slide without data is never shown.\<close>

theorem slides_hold_their_time:
  fixes st up conf base
  defines "slides \<equiv> rotationSlides st up conf"
  shows "card {t. 0 \<le> t \<and> t < slide_cycle slides base \<and> slideAt slides t base = s} =
      (if s \<in> set slides then nat (dwellSecondsFor s base) else 0) \<and>
    slideAt slides (t + k * slide_cycle slides base) base = slideAt slides t base \<and>
    CourtsSlide \<in> set slides \<and>
    set slides \<subseteq> {CourtsSlide} \<union> (if st then {StandingsSlide} else {}) \<union> (if up then {UpNextSlide} else {})"
proof -
  note p = rotation_props[of st up conf, folded slides_def]
  have ne: "slides \<noteq> []" using p(2) by auto
  have pos: "0 < slide_cycle slides base"
  proof -
    obtain x xs where "slides = x # xs" using ne by (cases slides) auto
    moreover have "0 \<le> sum_list (map (\<lambda>s. dwellSecondsFor s base) xs)"
      by (intro sum_list_nonneg) (auto simp: less_imp_le dwell_pos)
    ultimately show ?thesis using dwell_pos[of x base] by (simp add: slide_cycle_def)
  qed
  have at: "slideAt slides t base = slide_walk (\<lambda>s. dwellSecondsFor s base) slides (last slides) (t mod slide_cycle slides base)" for t
    using ne pos by (simp add: slideAt_def)
  have "{t. 0 \<le> t \<and> t < slide_cycle slides base \<and> slideAt slides t base = s} =
      {t. 0 \<le> t \<and> t < slide_cycle slides base \<and> slide_walk (\<lambda>s. dwellSecondsFor s base) slides (last slides) t = s}"
    by (auto simp: at)
  then show ?thesis
    using slide_walk_counts[of "\<lambda>s. dwellSecondsFor s base" slides "last slides" s, OF dwell_pos p(1)] p(2,3) at by (simp add: slide_cycle_def)
qed

section \<open>The wall shows what the matches say\<close>

lemma fold_put_lookup:
  "map_of (fold (\<lambda>m acc. if P m then AList.update (k m) (v m) acc else acc) ms acc) c =
     (let l = filter (\<lambda>m. P m \<and> k m = c) ms in if l = [] then map_of acc c else Some (v (last l)))"
proof (induction ms rule: rev_induct)
  case (snoc m ms)
  then show ?case by (auto simp: Let_def update_conv')
qed simp

definition started_at :: "board_input \<Rightarrow> int \<Rightarrow> schedule_assignment list" where
  "started_at d c = filter (\<lambda>a. court_of (bi_states d) a = c) (bs_started (board_status d))"

definition called_at :: "board_input \<Rightarrow> int \<Rightarrow> schedule_assignment list" where
  "called_at d c = filter (\<lambda>a. court_of (bi_states d) a = c) (bs_called (board_status d))"

lemma playing_claimants:
  "claimants Desk (playingMatches d) c =
     map (\<lambda>a. \<lparr>om_id = as_matchId a, om_status = OPlaying, om_court = Some (court_of (bi_states d) a)\<rparr>) (started_at d c)"
  by (simp add: claimants_def playingMatches_def started_at_def filter_map comp_def claim_key_def occupiesCourtNow_def)

lemma conflicts_lookup:
  "(map_of (conflicts_by_court (playingMatches d)) c \<noteq> None) \<longleftrightarrow> 2 \<le> length (started_at d c)"
proof -
  have "map_of (conflicts_by_court ms) c \<noteq> None \<longleftrightarrow> c \<in> cd_courtId ` set (deriveDisputes ms Desk)" for ms
    using fold_put_lookup[of "\<lambda>_. True" cd_courtId "\<lambda>d. map cl_matchKey (cd_claims d)" "deriveDisputes ms Desk" "[]" c]
    by (auto simp: conflicts_by_court_def Let_def filter_empty_conv)
  then show ?thesis by (simp add: dispute_courts playing_claimants)
qed

lemma current_lookup:
  "map_of (current_by_court (playingMatches d)) c =
     (if length (started_at d c) = 1 then Some (as_matchId (hd (started_at d c))) else None)"
proof -
  let ?ms = "playingMatches d"
  let ?P = "\<lambda>m. map_of (deriveCourtStates ?ms Desk) (the (om_court m)) = Some Occupied"
  have "current_by_court ?ms = fold (\<lambda>m cur. if ?P m then AList.update (the (om_court m)) (om_id m) cur else cur) ?ms []"
    unfolding current_by_court_def Let_def by (intro fold_cong refl) (auto simp: playingMatches_def)
  moreover have "filter (\<lambda>m. ?P m \<and> the (om_court m) = c) ?ms =
      (if length (started_at d c) = 1 then claimants Desk ?ms c else [])"
  proof -
    have "map_of (deriveCourtStates ?ms Desk) c = Some Occupied \<longleftrightarrow> length (started_at d c) = 1"
      by (auto simp: map_of_deriveCourtStates playing_claimants)
    moreover have "filter (\<lambda>m. the (om_court m) = c) ?ms = claimants Desk ?ms c"
      unfolding claimants_def by (rule filter_cong[OF refl]) (auto simp: playingMatches_def claim_key_def occupiesCourtNow_def)
    moreover have "filter (\<lambda>m. ?P m \<and> the (om_court m) = c) ?ms =
        (if map_of (deriveCourtStates ?ms Desk) c = Some Occupied then filter (\<lambda>m. the (om_court m) = c) ?ms else [])"
      by (auto simp: filter_empty_conv intro: filter_cong)
    ultimately show ?thesis by simp
  qed
  ultimately show ?thesis
    using fold_put_lookup[of ?P "\<lambda>m. the (om_court m)" om_id ?ms "[]" c]
    by (cases "started_at d c") (auto simp: Let_def playing_claimants)
qed

lemma called_lookup:
  "map_of (called_by_court d) c =
     (if started_at d c = [] \<and> called_at d c \<noteq> [] then Some (as_matchId (last (called_at d c))) else None)"
proof -
  have free: "map_of (current_by_court (playingMatches d)) c = None \<and> map_of (conflicts_by_court (playingMatches d)) c = None
      \<longleftrightarrow> started_at d c = []" for c
    using conflicts_lookup[of d c] by (cases "started_at d c") (auto simp: current_lookup Suc_le_eq)
  have "filter (\<lambda>a. started_at d (court_of (bi_states d) a) = [] \<and> court_of (bi_states d) a = c) (bs_called (board_status d)) =
      (if started_at d c = [] then called_at d c else [])"
    by (auto simp: called_at_def filter_empty_conv intro: filter_cong)
  then show ?thesis
    unfolding called_by_court_def free
    using fold_put_lookup[of "\<lambda>a. started_at d (court_of (bi_states d) a) = []" "court_of (bi_states d)" as_matchId
        "bs_called (board_status d)" "[]" c]
    by (simp add: Let_def)
qed

lemma court_row_reads:
  "cr_courtId (court_row_of d c) = c"
  "cr_status (court_row_of d c) = RowActive \<longleftrightarrow> length (started_at d c) = 1"
  "cr_status (court_row_of d c) = RowCalled \<longleftrightarrow> started_at d c = [] \<and> called_at d c \<noteq> []"
  "cr_conflicts (court_row_of d c) \<noteq> None \<longleftrightarrow> 2 \<le> length (started_at d c)"
  "cr_match (court_row_of d c) =
     (if length (started_at d c) = 1 then map_of (matchMap (bi_matches d)) (as_matchId (hd (started_at d c)))
      else if started_at d c = [] \<and> called_at d c \<noteq> [] then map_of (matchMap (bi_matches d)) (as_matchId (last (called_at d c)))
      else None)"
proof -
  have c: "map_of (conflicts_by_court (playingMatches d)) c = None \<longleftrightarrow> length (started_at d c) < 2"
    using conflicts_lookup[of d c] by auto
  show "cr_courtId (court_row_of d c) = c"
    "cr_status (court_row_of d c) = RowActive \<longleftrightarrow> length (started_at d c) = 1"
    "cr_status (court_row_of d c) = RowCalled \<longleftrightarrow> started_at d c = [] \<and> called_at d c \<noteq> []"
    "cr_conflicts (court_row_of d c) \<noteq> None \<longleftrightarrow> 2 \<le> length (started_at d c)"
    "cr_match (court_row_of d c) =
     (if length (started_at d c) = 1 then map_of (matchMap (bi_matches d)) (as_matchId (hd (started_at d c)))
      else if started_at d c = [] \<and> called_at d c \<noteq> [] then map_of (matchMap (bi_matches d)) (as_matchId (last (called_at d c)))
      else None)"
    using c by (auto simp: court_row_of_def Let_def current_lookup called_lookup split: option.split)
qed

lemma matchMap_names: "map_of (matchMap ms) i = Some m \<Longrightarrow> md_id m = i"
  by (auto simp: matchMap_def map_of_from_entries dest: map_of_SomeD)

lemma courtMatches_rows: "r \<in> set (courtMatches d) \<Longrightarrow> r = court_row_of d (cr_courtId r)"
  by (auto simp: courtMatches_def court_row_reads split: option.splits)

lemma distinct_court_rows: "distinct (map cr_courtId (courtMatches d))"
  by (auto simp: courtMatches_def comp_def court_row_reads split: option.split)

lemma map_filter_keys:
  "(\<And>i r. g i = Some r \<Longrightarrow> f r = i) \<Longrightarrow> map f (List.map_filter g l) = filter (\<lambda>i. g i \<noteq> None) l"
  by (induction l) (auto simp: List.map_filter_simps split: option.split)

lemma displayed_rows:
  "set (displayedCourtRows d) = {r \<in> set (courtMatches d). cr_courtId r \<notin> set (or_else (bi_hiddenCourts d) [])}"
  "distinct (map cr_courtId (displayedCourtRows d))"
proof -
  let ?rows = "courtMatches d"
  let ?ids = "visibleCourts (orderCourts (map cr_courtId ?rows) (bi_courtOrder d)) (bi_hiddenCourts d)"
  let ?get = "map_of (from_entries (map (\<lambda>r. (cr_courtId r, r)) ?rows))"
  have get: "?get i = Some r \<longleftrightarrow> r \<in> set ?rows \<and> cr_courtId r = i" for i r
  proof -
    have "distinct (map fst (map (\<lambda>r. (cr_courtId r, r)) ?rows))" using distinct_court_rows[of d] by (simp add: comp_def)
    then show ?thesis by (auto simp: from_entries_distinct map_of_eq_Some_iff)
  qed
  note o = orderCourts_permutes[OF distinct_court_rows, of d "bi_courtOrder d"]
  then have ids: "set ?ids = cr_courtId ` set ?rows - set (or_else (bi_hiddenCourts d) [])" "distinct ?ids"
    by (auto simp: visibleCourts_def split: option.splits)
  have rows: "displayedCourtRows d = List.map_filter ?get ?ids" by (simp add: displayedCourtRows_def Let_def)
  show "set (displayedCourtRows d) = {r \<in> set ?rows. cr_courtId r \<notin> set (or_else (bi_hiddenCourts d) [])}"
  proof -
    have "r \<in> set (List.map_filter ?get l) \<longleftrightarrow> (\<exists>i \<in> set l. ?get i = Some r)" for r l
      by (induction l) (auto simp: List.map_filter_simps split: option.split)
    then show ?thesis unfolding rows using ids(1) get by (auto simp: image_iff)
  qed
  have kept: "map cr_courtId (List.map_filter ?get l) = filter (\<lambda>i. ?get i \<noteq> None) l" for l
    by (rule map_filter_keys) (simp add: get)
  show "distinct (map cr_courtId (displayedCourtRows d))" unfolding rows kept using ids(2) by simp
qed

lemma shown_claim:
  assumes "cr_match (court_row_of d c) = Some m"
  shows "\<exists>a \<in> set (started_at d c) \<union> set (called_at d c). as_matchId a = md_id m \<and> court_of (bi_states d) a = c"
proof -
  have on: "court_of (bi_states d) a = c" if "a \<in> set (started_at d c) \<union> set (called_at d c)" for a
    using that by (auto simp: started_at_def called_at_def)
  show ?thesis
  proof (cases "length (started_at d c) = 1")
    case True
    then have "hd (started_at d c) \<in> set (started_at d c)" by (intro hd_in_set) auto
    moreover have "md_id m = as_matchId (hd (started_at d c))" using assms True matchMap_names by (simp add: court_row_reads(5))
    ultimately show ?thesis using on by (intro bexI[of _ "hd (started_at d c)"]) auto
  next
    case False
    then have n: "called_at d c \<noteq> []" and m: "map_of (matchMap (bi_matches d)) (as_matchId (last (called_at d c))) = Some m"
      using assms by (auto simp: court_row_reads(5) split: if_split_asm)
    have "last (called_at d c) \<in> set (called_at d c)" using n by simp
    then show ?thesis using on matchMap_names[OF m] by (intro bexI[of _ "last (called_at d c)"]) auto
  qed
qed

lemma claim_assigned:
  "a \<in> set (started_at d c) \<union> set (called_at d c) \<Longrightarrow> a \<in> set (getActiveAssignments (bi_schedule d))"
  by (auto simp: started_at_def called_at_def board_status_def matchesByStatus_def with_status_def)

lemma disputed_row_is_blank: "cr_conflicts (court_row_of d c) = None \<or> cr_match (court_row_of d c) = None"
  using court_row_reads(4)[of d c] by (auto simp: court_row_reads(5))

lemma match_on_one_court:
  assumes "distinct (map as_matchId (getActiveAssignments (bi_schedule d)))"
    "cr_match (court_row_of d c) = Some m" "cr_match (court_row_of d c') = Some m"
  shows "c = c'"
proof -
  obtain a where a: "a \<in> set (started_at d c) \<union> set (called_at d c)" "as_matchId a = md_id m" "court_of (bi_states d) a = c"
    using shown_claim[OF assms(2)] by blast
  obtain b where b: "b \<in> set (started_at d c') \<union> set (called_at d c')" "as_matchId b = md_id m" "court_of (bi_states d) b = c'"
    using shown_claim[OF assms(3)] by blast
  have "inj_on as_matchId (set (getActiveAssignments (bi_schedule d)))" using assms(1) by (simp add: distinct_map)
  from inj_onD[OF this _ claim_assigned[OF a(1)] claim_assigned[OF b(1)]] have "a = b" using a(2) b(2) by simp
  then show ?thesis using a(3) b(3) by simp
qed

text \<open>C38. A court the board shows carries a match exactly when the matches say so: one started match on it is on
  court, two or more are a dispute and no match is shown, a called match is shown only where nothing has
  started. A hidden court is never shown, the others once each, and no match is on two courts.\<close>

theorem wall_shows_the_matches:
  assumes "distinct (map as_matchId (getActiveAssignments (bi_schedule d)))"
    "r \<in> set (displayedCourtRows d)" "r' \<in> set (displayedCourtRows d)"
  shows "(cr_status r = RowActive) = (length (started_at d (cr_courtId r)) = 1) \<and>
    (cr_conflicts r \<noteq> None) = (2 \<le> length (started_at d (cr_courtId r))) \<and>
    (cr_status r = RowCalled) = (started_at d (cr_courtId r) = [] \<and> called_at d (cr_courtId r) \<noteq> []) \<and>
    (cr_conflicts r = None \<or> cr_match r = None) \<and>
    cr_courtId r \<notin> set (or_else (bi_hiddenCourts d) []) \<and> distinct (map cr_courtId (displayedCourtRows d)) \<and>
    (cr_match r = None \<or> cr_match r \<noteq> cr_match r' \<or> r = r')"
proof -
  have r: "court_row_of d (cr_courtId r) = r" "court_row_of d (cr_courtId r') = r'"
    using assms(2,3) displayed_rows(1)[of d] courtMatches_rows by (metis (no_types, lifting) mem_Collect_eq)+
  have "cr_match r = None \<or> cr_match r \<noteq> cr_match r' \<or> r = r'"
  proof (cases "cr_match r")
    case (Some m)
    show ?thesis
    proof (cases "cr_match r' = Some m")
      case True
      then have "cr_courtId r = cr_courtId r'" using match_on_one_court[OF assms(1), of "cr_courtId r" m "cr_courtId r'"] Some by (simp add: r)
      then show ?thesis using r by metis
    qed (use Some in auto)
  qed simp
  moreover have "cr_courtId r \<notin> set (or_else (bi_hiddenCourts d) [])" using assms(2) displayed_rows(1)[of d] by blast
  ultimately show ?thesis
    using court_row_reads(2-4)[of d "cr_courtId r"] disputed_row_is_blank[of d "cr_courtId r"] displayed_rows(2)[of d] by (simp only: r) blast
qed

section \<open>The preview is the next match of the plan\<close>

lemma lane_order_sorts: "sorted_wrt (\<lambda>x y. lane_order x y \<le> 0) (js_sort lane_order xs)"
  by (rule js_sort_sorted) (auto simp: lane_order_def split: if_splits)

definition upcoming_on :: "lane_item list \<Rightarrow> string set \<Rightarrow> int \<Rightarrow> lane_item list" where
  "upcoming_on items nowState c =
     filter (\<lambda>i. li_id i \<notin> nowState) (js_sort lane_order (filter (\<lambda>i. li_court i = c) items))"

text \<open>What one court says of a match, and what all of them say.\<close>

definition own_lane :: "string set \<Rightarrow> (int, court_state) dict \<Rightarrow> int \<times> lane_item list \<Rightarrow> string \<Rightarrow> board_lane option" where
  "own_lane nowState states g k = map_of (court_lanes nowState states g []) k"

lemma court_lanes_lookup:
  "map_of (court_lanes nowState states g lanes) k =
     (case own_lane nowState states g k of Some x \<Rightarrow> Some x | None \<Rightarrow> map_of lanes k)"
  by (auto simp: own_lane_def court_lanes_def Let_def update_conv' split: list.split)

lemma lanes_found:
  assumes "map_of (fold (court_lanes nowState states) gs []) k = Some x"
  shows "\<exists>g \<in> set gs. own_lane nowState states g k = Some x"
  using assms
proof (induction gs rule: rev_induct)
  case (snoc g gs)
  then show ?case by (auto simp: court_lanes_lookup split: option.splits)
qed simp

lemma own_next:
  assumes "own_lane nowState states g k = Some LaneNext"
  shows "\<exists>i tl. filter (\<lambda>i. li_id i \<notin> nowState) (js_sort lane_order (snd g)) = i # tl \<and> li_id i = k"
  using assms by (auto simp: own_lane_def court_lanes_def Let_def update_conv' split: list.splits if_splits)

lemma lane_next:
  assumes "map_of (assignLanes items nowState) k = Some LaneNext"
  shows "\<exists>c i tl. upcoming_on items nowState c = i # tl \<and> li_id i = k"
proof -
  obtain g where g: "g \<in> set (group_by (\<lambda>i. Some (li_court i)) items)"
      "own_lane nowState (deriveCourtStates (toOccupancyMatches items nowState) Desk) g k = Some LaneNext"
    using lanes_found assms unfolding assignLanes_def by blast
  obtain c l where gl: "g = (c, l)" by fastforce
  have "snd g = filter (\<lambda>i. li_court i = fst g) items" using g(1) unfolding gl by (simp add: group_by_mem)
  then show ?thesis using own_next[OF g(2)] by (auto simp: upcoming_on_def)
qed

lemma upcoming_first:
  assumes "upcoming_on items nowState c = x # xs"
  shows "x \<in> set items" "li_court x = c" "li_id x \<notin> nowState"
    "\<And>y. y \<in> set items \<Longrightarrow> li_court y = c \<Longrightarrow> li_id y \<notin> nowState \<Longrightarrow> lane_order x y \<le> 0"
proof -
  have s: "set (upcoming_on items nowState c) = {y \<in> set items. li_court y = c \<and> li_id y \<notin> nowState}"
    by (auto simp: upcoming_on_def)
  have x: "x \<in> set (upcoming_on items nowState c)" using assms by simp
  show "x \<in> set items" "li_court x = c" "li_id x \<notin> nowState" using x s by auto
  have "sorted_wrt (\<lambda>x y. lane_order x y \<le> 0) (upcoming_on items nowState c)"
    unfolding upcoming_on_def by (intro sorted_wrt_filter lane_order_sorts)
  then have o: "\<forall>y \<in> set (x # xs). lane_order x y \<le> 0" unfolding assms by (auto simp: lane_order_def)
  show "lane_order x y \<le> 0" if "y \<in> set items" "li_court y = c" "li_id y \<notin> nowState" for y
    using o s that assms by auto
qed

lemma preview_found:
  assumes "map_of (preview_by_court d lane) c = Some k"
  shows "\<exists>y \<in> set (laneItems d). li_court y = c \<and> li_id y = k \<and> map_of (assignLanes (laneItems d) (nowIds d)) k = Some lane"
proof -
  let ?l = "filter (\<lambda>i. map_of (assignLanes (laneItems d) (nowIds d)) (li_id i) = Some lane \<and> li_court i = c) (laneItems d)"
  have "?l \<noteq> []" "k = li_id (last ?l)"
    using assms fold_put_lookup[of "\<lambda>i. map_of (assignLanes (laneItems d) (nowIds d)) (li_id i) = Some lane" li_court li_id "laneItems d" "[]" c]
    by (auto simp: preview_by_court_def Let_def split: if_split_asm)
  then have "last ?l \<in> set ?l" by (intro last_in_set)
  then show ?thesis using \<open>k = li_id (last ?l)\<close> by auto
qed

text \<open>The match a court of the board announces as next is a planned match of that court that is neither on court
  now nor recorded as finished, and no other match of the court that is not on court has an earlier slot.
  A match recorded as retired is among them: the board announces it, as the lemma after this one shows.\<close>

lemma next_is_earliest_of_court:
  assumes "distinct (map li_id (laneItems d))" "map_of (preview_by_court d LaneNext) c = Some k"
  shows "\<exists>x \<in> set (laneItems d). li_id x = k \<and> li_court x = c \<and> k \<notin> nowIds d \<and>
    status_of (bi_states d) k \<noteq> Some MFinished \<and>
    (\<forall>y \<in> set (laneItems d). li_court y = c \<longrightarrow> li_id y \<notin> nowIds d \<longrightarrow> li_plannedSlot x \<le> li_plannedSlot y)"
proof -
  obtain x where x: "x \<in> set (laneItems d)" "li_court x = c" "li_id x = k"
      and lane: "map_of (assignLanes (laneItems d) (nowIds d)) k = Some LaneNext"
    using preview_found[OF assms(2)] by blast
  obtain c' i later where i: "upcoming_on (laneItems d) (nowIds d) c' = i # later" "li_id i = k"
    using lane_next[OF lane] by blast
  note first = upcoming_first[OF i(1)]
  have "inj_on li_id (set (laneItems d))" using assms(1) by (simp add: distinct_map)
  from inj_onD[OF this _ first(1) x(1)] have "i = x" using i(2) x(3) by simp
  then have "c' = c" using first(2) x(2) by simp
  have "status_of (bi_states d) k \<noteq> Some MFinished" using x by (auto simp: laneItems_def split: option.split_asm)
  moreover have "li_plannedSlot x \<le> li_plannedSlot y"
    if "y \<in> set (laneItems d)" "li_court y = c" "li_id y \<notin> nowIds d" for y
    using first(4)[OF that(1)] that(2,3) unfolding \<open>i = x\<close> \<open>c' = c\<close> by (auto simp: lane_order_def split: if_splits)
  ultimately show ?thesis using x first(3) i(2) by (intro bexI[OF _ x(1)]) auto
qed

definition wall_example :: board_input where
  "wall_example =
     (let plan = (\<lambda>i c. \<lparr>as_matchId = i, as_slotId = 0, as_courtId = c, as_durationSlots = 1\<rparr>);
          named = (\<lambda>i. \<lparr>md_id = i, md_matchNumber = None, md_sideA = [''p''], md_sideB = [''q''], md_sideC = None,
                      md_eventRank = Some ''MS1'', md_durationSlots = 1\<rparr>)
      in \<lparr>bi_schedule = Some \<lparr>sc_assignments = [plan ''a'' 1, plan ''b'' 2], sc_candidates = None, sc_activeCandidateIndex = None\<rparr>,
          bi_courtCount = Some 3, bi_courtOrder = Some [3], bi_hiddenCourts = Some [3], bi_matches = [named ''a'', named ''b''],
          bi_states = [(''a'', (bare_match_state ''a'' MStarted)), (''b'', (bare_match_state ''b'' MCalled))]\<rparr>)"

theorem wall_shows_the_matches_witness:
  "map cr_courtId (displayedCourtRows wall_example) = [1, 2] \<and> cr_status (displayedCourtRows wall_example ! 0) = RowActive \<and>
   cr_status (displayedCourtRows wall_example ! 1) = RowCalled \<and>
   cr_courtId (displayedCourtRows wall_example ! 0) \<notin> set (or_else (bi_hiddenCourts wall_example) [])"
proof -
  have "distinct (map as_matchId (getActiveAssignments (bi_schedule wall_example)))" by code_simp
  moreover have "map cr_courtId (displayedCourtRows wall_example) = [1, 2]"
    "cr_status (displayedCourtRows wall_example ! 0) = RowActive" "cr_status (displayedCourtRows wall_example ! 1) = RowCalled"
    by code_simp+
  moreover have "displayedCourtRows wall_example ! 0 \<in> set (displayedCourtRows wall_example)" by code_simp
  ultimately show ?thesis using wall_shows_the_matches by blast
qed

definition retired_first :: board_input where
  "retired_first = wall_example\<lparr>bi_states := [(''a'', bare_match_state ''a'' MRetired)],
     bi_schedule := Some \<lparr>sc_assignments = [\<lparr>as_matchId = ''a'', as_slotId = 0, as_courtId = 1, as_durationSlots = 1\<rparr>,
       \<lparr>as_matchId = ''b'', as_slotId = 4, as_courtId = 1, as_durationSlots = 1\<rparr>], sc_candidates = None, sc_activeCandidateIndex = None\<rparr>\<rparr>"

text \<open>Only finished matches leave the lanes: a retired one stays the next match of its court.\<close>

lemma retired_match_announced: "map_of (preview_by_court retired_first LaneNext) 1 = Some ''a''"
  by code_simp

end
