(* ===== verification/BracketBoard.thy ===== *)
theory BracketBoard
  imports DrawData
begin

text \<open>
  The venue board of a bracket (\<open>modules/display/bracketDisplay/bracketDisplayData.ts\<close>): the sides of a play unit
  as the board prints them, the rows of the live view, the round names, the champion of an event. The
  collation of the host is a parameter.
\<close>

section \<open>What the board reads\<close>

record board_unit = play_unit +
  bu_sides :: "wire_side option list option"

record board_event = bracket_event +
  bv_rounds :: "string list list"

record board_assignment =
  bd_play_unit_id :: string
  bd_slot_id :: int
  bd_court_id :: int
  bd_started :: bool
  bd_finished :: bool

record board_data =
  bn_participants :: "participant list"
  bn_events :: "board_event list"
  bn_play_units :: "board_unit list"
  bn_assignments :: "board_assignment list"
  bn_results :: "draw_result list"

section \<open>Sides\<close>

definition UNDETERMINED_SIDE_LABEL :: string where
  "UNDETERMINED_SIDE_LABEL = ''To be decided''"

text \<open>The side is \<open>a\<close> for \<open>True\<close>. The wire names it, else the slot, else the members listed directly.\<close>

definition unit_side :: "board_unit \<Rightarrow> bool \<Rightarrow> participant list \<Rightarrow> side" where
  "unit_side pu a participants =
     (let named = (\<lambda>i. find (\<lambda>p. pt_id p = i) participants);
          wire = Option.bind (bu_sides pu) (\<lambda>ws. case ws of
              [] \<Rightarrow> None | [x] \<Rightarrow> (if a then x else None) | x # y # _ \<Rightarrow> (if a then x else y));
          slot = (if a then pu_slot_a pu else pu_slot_b pu);
          direct = or_else (if a then pu_side_a pu else pu_side_b pu) [];
          held = (if truthy (bs_participant_id slot) then named (the (bs_participant_id slot)) else None)
      in case wire of
           Some w \<Rightarrow> sideFromWire (Some w)
         | None \<Rightarrow>
             (case held of
                Some p \<Rightarrow> \<lparr>sd_persons = [\<lparr>pr_id = Some (pt_id p), pr_name = pt_name p\<rparr>], sd_unresolved = None,
                           sd_seed = None, sd_participantKey = Some (pt_id p)\<rparr>
              | None \<Rightarrow>
                  if direct \<noteq> [] then
                    \<lparr>sd_persons = map (\<lambda>i. \<lparr>pr_id = Some i, pr_name = (case named i of Some p \<Rightarrow> pt_name p | None \<Rightarrow> i)\<rparr>) direct,
                     sd_unresolved = None, sd_seed = None, sd_participantKey = Some (join_with ''|'' direct)\<rparr>
                  else UNDETERMINED))"

definition board_side_label :: "board_unit \<Rightarrow> bool \<Rightarrow> participant list \<Rightarrow> string" where
  "board_side_label pu a participants = formatSideCondensed (unit_side pu a participants)"

section \<open>Rounds and events\<close>

definition board_round_label :: "int \<Rightarrow> int \<Rightarrow> string" where
  "board_round_label roundIndex roundCount =
     (let fromEnd = roundCount - 1 - roundIndex
      in if fromEnd = 0 then ''Final'' else if fromEnd = 1 then ''Semifinal'' else if fromEnd = 2 then ''Quarterfinal''
         else ''Round '' @ int_text (roundIndex + 1))"

definition playUnitEventLabel :: "board_unit \<Rightarrow> board_event option \<Rightarrow> string option" where
  "playUnitEventLabel pu event =
     (case event of
        None \<Rightarrow> None
      | Some e \<Rightarrow>
          (let discipline = or_else (map_of DISCIPLINE_NAMES (ev_discipline e)) (ev_discipline e);
               roundCount = int (length (bv_rounds e));
               bare = (if discipline \<noteq> [] then Some discipline else None)
           in if ev_format e \<notin> {''se'', ''de''} then bare
              else if roundCount \<le> 0 then bare
              else Some (discipline @ '' '' @ middot @ '' '' @ board_round_label (pu_round_index pu) roundCount)))"

section \<open>The live view\<close>

datatype live_status = OnCourt | NextUp | Conflict

record live_row =
  lr_puId :: string
  lr_court :: int
  lr_sideA :: string
  lr_sideB :: string
  lr_status :: live_status
  lr_sets :: "set_score list"
  lr_eventLabel :: "string option"
  lr_resolved :: bool

definition slot_order :: "(string \<Rightarrow> string \<Rightarrow> int) \<Rightarrow> board_assignment \<Rightarrow> board_assignment \<Rightarrow> int" where
  "slot_order collate a b =
     (if bd_slot_id a - bd_slot_id b \<noteq> 0 then bd_slot_id a - bd_slot_id b
      else collate (bd_play_unit_id a) (bd_play_unit_id b))"

definition visible_of :: "board_assignment list \<Rightarrow> (board_assignment \<times> live_status) list" where
  "visible_of assignments =
     (let playing = filter bd_started assignments
      in if length playing > 1 then map (\<lambda>a. (a, Conflict)) playing
         else if length playing = 1
           then (hd playing, OnCourt) # map (\<lambda>a. (a, NextUp)) (take 1 (filter (\<lambda>a. \<not> bd_started a) assignments))
         else map (\<lambda>a. (a, NextUp)) (take 1 assignments))"

definition live_row_of :: "board_data \<Rightarrow> board_assignment \<times> live_status \<Rightarrow> live_row option" where
  "live_row_of data v =
     (let a = fst v in
      case map_of (from_entries (map (\<lambda>u. (pu_id u, u)) (bn_play_units data))) (bd_play_unit_id a) of
        None \<Rightarrow> None
      | Some pu \<Rightarrow>
          (let sideA = board_side_label pu True (bn_participants data);
               sideB = board_side_label pu False (bn_participants data)
           in Some \<lparr>lr_puId = pu_id pu, lr_court = bd_court_id a, lr_sideA = sideA, lr_sideB = sideB, lr_status = snd v,
               lr_sets = or_else (map_of (from_entries (map (\<lambda>r. (dr_play_unit_id r, or_else (dr_score r) [])) (bn_results data)))
                 (pu_id pu)) [],
               lr_eventLabel = playUnitEventLabel pu (map_of (from_entries (map (\<lambda>e. (ev_id e, e)) (bn_events data))) (pu_event_id pu)),
               lr_resolved = (sideA \<noteq> UNDETERMINED_SIDE_LABEL \<and> sideB \<noteq> UNDETERMINED_SIDE_LABEL)\<rparr>))"

definition open_by_court :: "board_data \<Rightarrow> (int, board_assignment list) dict" where
  "open_by_court data = group_by (\<lambda>a. Some (bd_court_id a)) (filter (\<lambda>a. \<not> bd_finished a) (bn_assignments data))"

definition court_visible :: "(string \<Rightarrow> string \<Rightarrow> int) \<Rightarrow> board_data \<Rightarrow> int \<Rightarrow> (board_assignment \<times> live_status) list" where
  "court_visible collate data court =
     visible_of (js_sort (slot_order collate) (or_else (map_of (open_by_court data) court) []))"

definition liveMatches :: "(string \<Rightarrow> string \<Rightarrow> int) \<Rightarrow> board_data \<Rightarrow> live_row list" where
  "liveMatches collate data =
     concat (map (\<lambda>court. List.map_filter (live_row_of data) (court_visible collate data court))
       (sort (map fst (open_by_court data))))"

section \<open>The end of a draw\<close>

definition isComplete :: "board_data \<Rightarrow> bool" where
  "isComplete data \<longleftrightarrow>
     list_ex (\<lambda>r. dr_winner_side r \<noteq> None) (bn_results data) \<and> list_all bd_finished (bn_assignments data)"

definition eventChampion :: "board_data \<Rightarrow> string \<Rightarrow> string option" where
  "eventChampion data eventId =
     (case Option.bind (find (\<lambda>e. ev_id e = eventId) (bn_events data)) (\<lambda>e. if bv_rounds e = [] then None else Some (last (bv_rounds e))) of
        Some [puId] \<Rightarrow>
          (case find (\<lambda>r. dr_play_unit_id r = puId) (bn_results data) of
             None \<Rightarrow> None
           | Some r \<Rightarrow>
               (case dr_winner_side r of
                  None \<Rightarrow> None
                | Some w \<Rightarrow>
                    map_option (\<lambda>pu. board_side_label pu (w = SideA) (bn_participants data))
                      (find (\<lambda>u. pu_id u = puId) (bn_play_units data))))
      | _ \<Rightarrow> None)"

section \<open>The wall shows what is on court\<close>

definition playing_at :: "board_data \<Rightarrow> int \<Rightarrow> board_assignment list" where
  "playing_at data c = filter (\<lambda>a. bd_started a \<and> \<not> bd_finished a \<and> bd_court_id a = c) (bn_assignments data)"

lemma visible_status:
  assumes "(a, st) \<in> set (visible_of l)"
  shows "a \<in> set l" "st = Conflict \<longleftrightarrow> bd_started a \<and> 1 < length (filter bd_started l)"
    "st = OnCourt \<longleftrightarrow> bd_started a \<and> length (filter bd_started l) = 1"
proof -
  let ?p = "filter bd_started l"
  consider (many) "1 < length ?p" | (one) p where "?p = [p]" | (none) "?p = []"
    by (cases ?p) (auto simp: less_Suc_eq_0_disj neq_Nil_conv, metis list.exhaust)
  then have "a \<in> set l \<and> (st = Conflict \<longleftrightarrow> bd_started a \<and> 1 < length ?p) \<and> (st = OnCourt \<longleftrightarrow> bd_started a \<and> length ?p = 1)"
  proof cases
    case many
    then show ?thesis using assms by (auto simp: visible_of_def)
  next
    case one
    then have "p \<in> set ?p" by simp
    then have "p \<in> set l" "bd_started p" by auto
    then show ?thesis using assms one by (auto simp: visible_of_def dest!: in_set_takeD)
  next
    case none
    then have "\<forall>b \<in> set l. \<not> bd_started b" by (simp add: filter_empty_conv)
    then show ?thesis using assms none by (auto simp: visible_of_def dest!: in_set_takeD)
  qed
  then show "a \<in> set l" "st = Conflict \<longleftrightarrow> bd_started a \<and> 1 < length ?p" "st = OnCourt \<longleftrightarrow> bd_started a \<and> length ?p = 1"
    by blast+
qed

lemma js_sort_filter_length: "length (filter P (js_sort cmp xs)) = length (filter P xs)"
proof -
  have "length (filter P (insert_cmp cmp x xs)) = length (filter P (x # xs))" for x xs by (induction xs) auto
  then show ?thesis by (induction xs) (auto simp: js_sort_def)
qed

lemma court_list:
  "or_else (map_of (open_by_court data) c) [] = filter (\<lambda>a. \<not> bd_finished a \<and> bd_court_id a = c) (bn_assignments data)"
  by (auto simp: open_by_court_def group_by_lookup Let_def filter_filter conj_commute)

text \<open>Every row of the live view stands for an open assignment on the court it names. It reads as on court
  exactly when it has started and nothing else has started on that court, as a conflict exactly when more than
  one has, and as next only when it has not started: no match is called on court that is not, and no dispute
  between two matches is decided by the board.\<close>

theorem bracket_wall_is_live:
  assumes "r \<in> set (liveMatches collate data)"
  shows "\<exists>a \<in> set (bn_assignments data). \<not> bd_finished a \<and> bd_play_unit_id a = lr_puId r \<and> bd_court_id a = lr_court r \<and>
    (lr_status r = OnCourt) = (bd_started a \<and> length (playing_at data (lr_court r)) = 1) \<and>
    (lr_status r = Conflict) = (bd_started a \<and> 1 < length (playing_at data (lr_court r)))"
proof -
  obtain c a st where v: "(a, st) \<in> set (court_visible collate data c)" "live_row_of data (a, st) = Some r"
    using assms by (auto simp: liveMatches_def List.map_filter_def)
  let ?l = "js_sort (slot_order collate) (or_else (map_of (open_by_court data) c) [])"
  have n: "length (filter bd_started ?l) = length (playing_at data c)"
    by (simp add: js_sort_filter_length court_list playing_at_def filter_filter conj_ac)
  note s = visible_status[OF v(1)[unfolded court_visible_def], unfolded n]
  have a: "a \<in> set (bn_assignments data)" "\<not> bd_finished a" "bd_court_id a = c" using s(1) by (auto simp: court_list)
  have r: "lr_court r = bd_court_id a" "lr_status r = st" "lr_puId r = bd_play_unit_id a"
    using v(2) by (auto simp: live_row_of_def Let_def map_of_from_entries dest!: map_of_SomeD split: option.splits)
  show ?thesis using a s(2,3) r by (intro bexI[OF _ a(1)]) auto
qed

text \<open>The champion is the side the result of the one match of the last round names.\<close>

lemma champion_won:
  assumes "eventChampion data i = Some name"
  shows "\<exists>e r pu w. e \<in> set (bn_events data) \<and> ev_id e = i \<and> last (bv_rounds e) = [pu_id pu] \<and> pu \<in> set (bn_play_units data) \<and>
    r \<in> set (bn_results data) \<and> dr_play_unit_id r = pu_id pu \<and> dr_winner_side r = Some w \<and>
    name = board_side_label pu (w = SideA) (bn_participants data)"
proof -
  obtain e where e: "find (\<lambda>e. ev_id e = i) (bn_events data) = Some e" "bv_rounds e \<noteq> []"
    using assms by (auto simp: eventChampion_def split: option.splits bind_splits if_splits)
  then obtain u where u: "last (bv_rounds e) = [u]"
    using assms by (auto simp: eventChampion_def split: list.splits)
  then obtain r w pu where r: "find (\<lambda>r. dr_play_unit_id r = u) (bn_results data) = Some r" "dr_winner_side r = Some w"
      "find (\<lambda>x. pu_id x = u) (bn_play_units data) = Some pu" "name = board_side_label pu (w = SideA) (bn_participants data)"
    using assms e by (auto simp: eventChampion_def split: option.splits)
  show ?thesis using e u r by (auto simp: find_Some_iff in_set_conv_nth intro!: exI[of _ e] exI[of _ r] exI[of _ pu])
qed

end
