(* ===== verification/Availability.thy ===== *)
theory Availability
  imports TimeSlots
begin

text \<open>
  When a player can play (\<open>components/control-plane/availabilityWindows.ts\<close>): the two views of a day, windows
  that are allowed (stored, read by the solver) and windows that are blocked (edited by the operator), and the
  conversions between them. The numbers of a clock text are integers; minutes of a day are not negative.
\<close>

section \<open>Windows\<close>

type_synonym span = "int \<times> int"
type_synonym day_window = "string \<times> string"

text \<open>\<open>(h || 0) * 60 + (m || 0)\<close>: a part that is missing or unreadable counts as zero.\<close>

definition window_minutes :: "string \<Rightarrow> int" where
  "window_minutes hhmm =
     (let parts = map (\<lambda>p. or_else (js_integer p) 0) (split_on '':'' hhmm)
      in hd parts * 60 + (case tl parts of m # _ \<Rightarrow> m | [] \<Rightarrow> 0))"

definition window_time :: "int \<Rightarrow> string" where
  "window_time minutes = pad2 (minutes div 60) @ '':'' @ pad2 (minutes mod 60)"

definition clamp_window :: "int \<Rightarrow> int \<Rightarrow> day_window \<Rightarrow> span" where
  "clamp_window ds de w = (max (window_minutes (fst w)) ds, min (window_minutes (snd w)) de)"

definition span_order :: "span \<Rightarrow> span \<Rightarrow> int" where
  "span_order a b = (if fst a - fst b \<noteq> 0 then fst a - fst b else snd a - snd b)"

definition merge_span :: "span \<Rightarrow> span list \<Rightarrow> span list" where
  "merge_span s merged =
     (if merged \<noteq> [] \<and> fst s \<le> snd (last merged)
      then butlast merged @ [(fst (last merged), max (snd (last merged)) (snd s))]
      else merged @ [s])"

definition normalizeSpans :: "day_window list \<Rightarrow> int \<Rightarrow> int \<Rightarrow> span list" where
  "normalizeSpans windows ds de =
     fold merge_span (js_sort span_order (filter (\<lambda>s. snd s > fst s) (map (clamp_window ds de) windows))) []"

definition toWindows :: "span list \<Rightarrow> day_window list" where
  "toWindows = map (\<lambda>s. (window_time (fst s), window_time (snd s)))"

definition normalizeWindows :: "day_window list \<Rightarrow> string \<Rightarrow> string \<Rightarrow> day_window list" where
  "normalizeWindows windows dayStart dayEnd =
     toWindows (normalizeSpans windows (window_minutes dayStart) (window_minutes dayEnd))"

text \<open>The loop of both conversions, with its last step after the loop.\<close>

fun gaps :: "int \<Rightarrow> span list \<Rightarrow> int \<Rightarrow> span list" where
  "gaps cursor [] de = (if cursor < de then [(cursor, de)] else [])"
| "gaps cursor (s # ss) de = (if fst s > cursor then [(cursor, fst s)] else []) @ gaps (max cursor (snd s)) ss de"

definition blockedToAllowed :: "day_window list \<Rightarrow> string \<Rightarrow> string \<Rightarrow> day_window list" where
  "blockedToAllowed blocked dayStart dayEnd =
     (let ds = window_minutes dayStart; de = window_minutes dayEnd; spans = normalizeSpans blocked ds de
      in if spans = [] then []
         else let allowed = gaps ds spans de
              in if allowed = [] then [(dayStart, dayStart)] else toWindows allowed)"

definition allowedToBlocked :: "day_window list \<Rightarrow> string \<Rightarrow> string \<Rightarrow> day_window list" where
  "allowedToBlocked allowed dayStart dayEnd =
     (if allowed = [] then []
      else
        let ds = window_minutes dayStart; de = window_minutes dayEnd; spans = normalizeSpans allowed ds de
        in if spans = [] then [(dayStart, dayEnd)] else toWindows (gaps ds spans de))"

definition formatWindowSummary :: "day_window list \<Rightarrow> string" where
  "formatWindowSummary windows =
     (if windows = [] then ''All day'' else join_with '', '' (map (\<lambda>w. fst w @ '' '' @ [CHR 0xE2, CHR 0x80, CHR 0x93] @ '' '' @ snd w) windows))"

section \<open>Clock texts\<close>

lemma parse_nat_zeros: "parse_nat (replicate k CHR ''0'' @ s) = parse_nat s"
proof -
  have "foldl (\<lambda>n c. 10 * n + digit_val c) 0 (replicate k CHR ''0'') = 0" by (induction k) (simp_all add: digit_val_def)
  then show ?thesis by (simp add: parse_nat_def)
qed

lemma read_pad2: "0 \<le> n \<Longrightarrow> js_integer (pad2 n) = Some n \<and> CHR '':'' \<notin> set (pad2 n)"
proof -
  assume n: "0 \<le> n"
  let ?z = "replicate (2 - length (nat_text (nat n))) CHR ''0''"
  have p: "pad2 n = ?z @ nat_text (nat n)" using n by (simp add: pad2_def int_text_def Let_def)
  have "is_digit CHR ''0''" by (simp add: is_digit_def)
  then have d: "list_all is_digit (pad2 n)" using nat_text_digits[of "nat n"] unfolding p by (auto simp: list_all_iff)
  then have "all_digits (pad2 n)" unfolding p by (simp add: all_digits_def)
  moreover have "parse_nat (pad2 n) = nat n" unfolding p by (simp add: parse_nat_zeros parse_nat_text)
  moreover have "\<not> is_digit CHR '':''" by (simp add: is_digit_def)
  ultimately show ?thesis using n d by (auto simp: js_integer_digits list_all_iff)
qed

lemma read_minutes: "0 \<le> n \<Longrightarrow> window_minutes (window_time n) = n"
proof -
  assume n: "0 \<le> n"
  then have h: "0 \<le> n div 60" "0 \<le> n mod 60" by simp_all
  have "split_on '':'' (window_time n) = [pad2 (n div 60), pad2 (n mod 60)]"
    using split_join[of "[pad2 (n div 60), pad2 (n mod 60)]" "CHR '':''"] read_pad2[OF h(1)] read_pad2[OF h(2)]
    by (simp add: window_time_def)
  then show ?thesis using read_pad2[OF h(1)] read_pad2[OF h(2)] by (simp add: window_minutes_def)
qed

section \<open>Spans in normal form\<close>

text \<open>Not empty, in order, apart from each other, the first beyond \<open>lo\<close>, the last up to \<open>de\<close>.\<close>

fun spans_apart :: "int \<Rightarrow> span list \<Rightarrow> int \<Rightarrow> bool" where
  "spans_apart lo [] de = True"
| "spans_apart lo (s # ss) de = (lo < fst s \<and> fst s < snd s \<and> snd s \<le> de \<and> spans_apart (snd s) ss de)"

definition span_covers :: "span list \<Rightarrow> int \<Rightarrow> bool" where
  "span_covers spans t = list_ex (\<lambda>s. fst s \<le> t \<and> t < snd s) spans"

lemma covers_simps [simp]:
  "span_covers [] t = False" "span_covers (s # ss) t = (fst s \<le> t \<and> t < snd s \<or> span_covers ss t)" "span_covers (xs @ ys) t = (span_covers xs t \<or> span_covers ys t)"
  by (simp_all add: span_covers_def)

lemma apart_weaken: "spans_apart lo ss de \<Longrightarrow> lo' \<le> lo \<Longrightarrow> spans_apart lo' ss de"
  by (cases ss) auto

lemma apart_append:
  "spans_apart lo (xs @ ys) de \<longleftrightarrow> spans_apart lo xs de \<and> spans_apart (if xs = [] then lo else snd (last xs)) ys de"
  by (induction xs arbitrary: lo) auto

lemma apart_covers: "spans_apart lo ss de \<Longrightarrow> span_covers ss t \<Longrightarrow> lo < t \<and> t < de"
  by (induction ss arbitrary: lo) force+

lemma gaps_apart: "spans_apart lo ss de \<Longrightarrow> lo' < c \<Longrightarrow> c \<le> lo + 1 \<Longrightarrow> spans_apart lo' (gaps c ss de) de"
proof (induction ss arbitrary: lo lo' c)
  case (Cons s ss)
  have m: "max c (snd s) = snd s" using Cons.prems by auto
  have "spans_apart (if fst s > c then fst s else lo') (gaps (snd s) ss de) de"
    by (rule Cons.IH[of "snd s"]) (use Cons.prems in auto)
  then show ?case using Cons.prems by (auto simp: m)
qed simp

lemma gaps_covers:
  "spans_apart lo ss de \<Longrightarrow> c \<le> lo + 1 \<Longrightarrow> span_covers (gaps c ss de) t \<longleftrightarrow> c \<le> t \<and> t < de \<and> \<not> span_covers ss t"
proof (induction ss arbitrary: lo c)
  case (Cons s ss)
  have m: "max c (snd s) = snd s" using Cons.prems by auto
  have "span_covers (gaps (snd s) ss de) t \<longleftrightarrow> snd s \<le> t \<and> t < de \<and> \<not> span_covers ss t"
    by (rule Cons.IH[of "snd s"]) (use Cons.prems in auto)
  moreover have "span_covers ss t \<Longrightarrow> snd s < t" using Cons.prems apart_covers[of "snd s" ss de t] by auto
  ultimately show ?case using Cons.prems by (auto simp: m)
qed auto

lemma gaps_twice_from: "s < e \<Longrightarrow> e \<le> de \<Longrightarrow> spans_apart e r de \<Longrightarrow> gaps s (gaps e r de) de = (s, e) # r"
proof (induction r arbitrary: s e)
  case (Cons x r)
  obtain s1 e1 where x: "x = (s1, e1)" by fastforce
  have "gaps s1 (gaps e1 r de) de = (s1, e1) # r" by (rule Cons.IH) (use Cons.prems in \<open>auto simp: x\<close>)
  then show ?case using Cons.prems by (simp add: x)
qed auto

lemma gaps_twice: "spans_apart lo ss de \<Longrightarrow> c \<le> lo + 1 \<Longrightarrow> gaps c (gaps c ss de) de = ss"
proof (cases ss)
  case (Cons x r)
  assume a: "spans_apart lo ss de" "c \<le> lo + 1"
  obtain s e where x: "x = (s, e)" by fastforce
  have g: "gaps s (gaps e r de) de = (s, e) # r" by (rule gaps_twice_from) (use a in \<open>auto simp: Cons x\<close>)
  then show ?thesis using a by (cases "c = s") (auto simp: Cons x)
qed auto

section \<open>The normal form\<close>

lemma span_order_sorts: "sorted_wrt (\<lambda>a b. span_order a b \<le> 0) (js_sort span_order xs)"
  by (rule js_sort_sorted) (auto simp: span_order_def split: if_splits)

text \<open>One step of the merge keeps the normal form and adds the new span to what is covered.\<close>

lemma merge_step:
  assumes "spans_apart lo m de" "lo < fst s" "fst s < snd s" "snd s \<le> de" "m = [] \<or> fst (last m) \<le> fst s"
  shows "spans_apart lo (merge_span s m) de" "span_covers (merge_span s m) t \<longleftrightarrow> span_covers m t \<or> fst s \<le> t \<and> t < snd s"
    "merge_span s m \<noteq> [] \<and> fst (last (merge_span s m)) \<le> fst s"
proof -
  have "spans_apart lo (merge_span s m) de \<and> (span_covers (merge_span s m) t \<longleftrightarrow> span_covers m t \<or> fst s \<le> t \<and> t < snd s) \<and>
      merge_span s m \<noteq> [] \<and> fst (last (merge_span s m)) \<le> fst s"
  proof (cases "m \<noteq> [] \<and> fst s \<le> snd (last m)")
    case True
    then obtain b l where m: "m = b @ [l]" by (metis append_butlast_last_id)
    then show ?thesis using True assms by (auto simp: merge_span_def apart_append)
  next
    case False
    then show ?thesis using assms by (auto simp: merge_span_def apart_append)
  qed
  then show "spans_apart lo (merge_span s m) de" "span_covers (merge_span s m) t \<longleftrightarrow> span_covers m t \<or> fst s \<le> t \<and> t < snd s"
    "merge_span s m \<noteq> [] \<and> fst (last (merge_span s m)) \<le> fst s" by blast+
qed

lemma merge_all:
  assumes "sorted_wrt (\<lambda>a b. span_order a b \<le> 0) ss" "\<forall>s \<in> set ss. lo < fst s \<and> fst s < snd s \<and> snd s \<le> de"
    "spans_apart lo m de" "\<forall>s \<in> set ss. m = [] \<or> fst (last m) \<le> fst s"
  shows "spans_apart lo (fold merge_span ss m) de \<and> (span_covers (fold merge_span ss m) t \<longleftrightarrow> span_covers m t \<or> span_covers ss t)"
  using assms
proof (induction ss arbitrary: m)
  case (Cons s ss)
  have s: "spans_apart lo (merge_span s m) de" "span_covers (merge_span s m) t \<longleftrightarrow> span_covers m t \<or> fst s \<le> t \<and> t < snd s"
    "merge_span s m \<noteq> [] \<and> fst (last (merge_span s m)) \<le> fst s"
    by (rule merge_step[of lo m de s]; use Cons.prems in auto)+
  have "\<forall>x \<in> set ss. fst s \<le> fst x" using Cons.prems(1) by (auto simp: span_order_def split: if_splits)
  then have "\<forall>x \<in> set ss. merge_span s m = [] \<or> fst (last (merge_span s m)) \<le> fst x" using s(3) by force
  with Cons.IH[of "merge_span s m"] Cons.prems s(1,2) show ?case by auto
qed simp

lemma merge_apart_id: "spans_apart lo (m @ ss) de \<Longrightarrow> fold merge_span ss m = m @ ss"
proof (induction ss arbitrary: m)
  case (Cons s ss)
  have "merge_span s m = m @ [s]"
    using Cons.prems by (cases m rule: rev_cases) (auto simp: merge_span_def apart_append)
  then show ?case using Cons.IH[of "m @ [s]"] Cons.prems by simp
qed simp

lemma apart_bounds: "spans_apart lo ss de \<Longrightarrow> s \<in> set ss \<Longrightarrow> lo < fst s \<and> fst s < snd s \<and> snd s \<le> de"
  by (induction ss arbitrary: lo) force+

lemma apart_sorted: "spans_apart lo ss de \<Longrightarrow> js_sort span_order ss = ss"
proof (induction ss arbitrary: lo)
  case (Cons s ss)
  then have "js_sort span_order ss = ss" by auto
  moreover have "insert_cmp span_order s ss = s # ss" using Cons.prems by (cases ss) (auto simp: span_order_def)
  ultimately show ?case by (simp add: js_sort_def)
qed (simp add: js_sort_def)

lemma normal_form:
  "spans_apart (ds - 1) (normalizeSpans ws ds de) de"
  "span_covers (normalizeSpans ws ds de) t \<longleftrightarrow> span_covers (map (clamp_window ds de) ws) t"
proof -
  let ?ss = "js_sort span_order (filter (\<lambda>s. snd s > fst s) (map (clamp_window ds de) ws))"
  have "\<forall>s \<in> set ?ss. ds - 1 < fst s \<and> fst s < snd s \<and> snd s \<le> de" by (auto simp: clamp_window_def)
  from merge_all[OF span_order_sorts this, of "[]" t]
  have m: "spans_apart (ds - 1) (normalizeSpans ws ds de) de" "span_covers (normalizeSpans ws ds de) t \<longleftrightarrow> span_covers ?ss t"
    by (auto simp: normalizeSpans_def)
  moreover have "span_covers ?ss t \<longleftrightarrow> span_covers (map (clamp_window ds de) ws) t"
    by (auto simp: span_covers_def list_ex_iff intro!: bexI[of _ "(_, _)"])
  ultimately show "spans_apart (ds - 1) (normalizeSpans ws ds de) de"
    "span_covers (normalizeSpans ws ds de) t \<longleftrightarrow> span_covers (map (clamp_window ds de) ws) t" by simp_all
qed

text \<open>Spans in normal form, written as clock texts, are read back as themselves.\<close>

lemma normal_read_back:
  assumes "spans_apart (ds - 1) ss de" "0 \<le> ds"
  shows "normalizeSpans (toWindows ss) ds de = ss"
proof -
  have "clamp_window ds de (window_time (fst s), window_time (snd s)) = s" if "s \<in> set ss" for s
  proof -
    have "ds \<le> fst s" "fst s < snd s" "snd s \<le> de" using apart_bounds[OF assms(1) that] by auto
    then show ?thesis using assms(2) by (simp add: clamp_window_def read_minutes)
  qed
  then have c: "map (clamp_window ds de) (toWindows ss) = ss" by (simp add: toWindows_def comp_def map_idI)
  have f: "filter (\<lambda>s. snd s > fst s) ss = ss" using apart_bounds[OF assms(1)] by (auto simp: filter_id_conv)
  have "fold merge_span ss [] = ss" using merge_apart_id[of "ds - 1" "[]" ss de] assms(1) by simp
  then show ?thesis unfolding normalizeSpans_def c f apart_sorted[OF assms(1)] .
qed

section \<open>The two views agree\<close>

text \<open>A minute of the day a list of windows span_covers, as clock texts.\<close>

definition in_windows :: "day_window list \<Rightarrow> int \<Rightarrow> bool" where
  "in_windows ws t \<longleftrightarrow> list_ex (\<lambda>w. window_minutes (fst w) \<le> t \<and> t < window_minutes (snd w)) ws"

lemma clamp_covers: "ds \<le> t \<Longrightarrow> t < de \<Longrightarrow> span_covers (map (clamp_window ds de) ws) t \<longleftrightarrow> in_windows ws t"
  by (auto simp: span_covers_def in_windows_def clamp_window_def list_ex_iff)

lemma written_covers: "spans_apart (ds - 1) ss de \<Longrightarrow> 0 \<le> ds \<Longrightarrow> in_windows (toWindows ss) t \<longleftrightarrow> span_covers ss t"
proof (induction ss arbitrary: ds)
  case (Cons s ss)
  have "spans_apart (snd s + 1 - 1) ss de" "0 \<le> snd s + 1" using Cons.prems by auto
  from Cons.IH[OF this] show ?case using Cons.prems by (simp add: in_windows_def toWindows_def read_minutes)
qed (simp add: in_windows_def toWindows_def)

text \<open>C40. The two views of a day say the same: at every minute of the day a player is available (no window at
  all, or inside an allowed one) exactly when no blocked window span_covers the minute, whatever the blocked windows
  are; and blocking again what the allowed windows leave out gives the blocked windows in normal form, also
  when the whole day is blocked or nothing is.\<close>

theorem views_agree:
  fixes blocked
  assumes "0 \<le> ds" "0 \<le> de"
  defines "allowed \<equiv> blockedToAllowed blocked (window_time ds) (window_time de)"
  shows "allowedToBlocked allowed (window_time ds) (window_time de) =
      normalizeWindows blocked (window_time ds) (window_time de) \<and>
    (t < ds \<or> de \<le> t \<or> (allowed = [] \<or> in_windows allowed t) = (\<not> in_windows blocked t))"
proof -
  let ?ss = "normalizeSpans blocked ds de"
  have n: "spans_apart (ds - 1) ?ss de" and c: "span_covers ?ss t \<longleftrightarrow> span_covers (map (clamp_window ds de) blocked) t"
    by (rule normal_form)+
  have g: "spans_apart (ds - 1) (gaps ds ?ss de) de" by (rule gaps_apart[OF n]) simp_all
  have gg: "gaps ds (gaps ds ?ss de) de = ?ss" by (rule gaps_twice[OF n]) simp
  have gc: "span_covers (gaps ds ?ss de) t \<longleftrightarrow> ds \<le> t \<and> t < de \<and> \<not> span_covers ?ss t" by (rule gaps_covers[OF n]) simp
  have m: "window_minutes (window_time ds) = ds" "window_minutes (window_time de) = de"
    using assms(1,2) by (simp_all add: read_minutes)
  have norm: "normalizeWindows blocked (window_time ds) (window_time de) = toWindows ?ss"
    by (simp add: normalizeWindows_def m)
  consider (free) "?ss = []" | (full) "?ss \<noteq> []" "gaps ds ?ss de = []" | (part) "?ss \<noteq> []" "gaps ds ?ss de \<noteq> []" by blast
  then have "allowedToBlocked allowed (window_time ds) (window_time de) = toWindows ?ss \<and>
      (t < ds \<or> de \<le> t \<or> (allowed = [] \<or> in_windows allowed t) = (\<not> span_covers ?ss t))"
  proof cases
    case free
    then have "allowed = []" by (simp add: allowed_def blockedToAllowed_def m)
    then show ?thesis using free by (simp add: allowedToBlocked_def toWindows_def)
  next
    case full
    then have a: "allowed = [(window_time ds, window_time ds)]" by (simp add: allowed_def blockedToAllowed_def m)
    have "?ss = gaps ds [] de" using gg full(2) by simp
    then have ss: "?ss = [(ds, de)]" using full(1) by (simp split: if_split_asm)
    have "normalizeSpans allowed ds de = []" by (simp add: a normalizeSpans_def clamp_window_def m js_sort_def)
    then have "allowedToBlocked allowed (window_time ds) (window_time de) = [(window_time ds, window_time de)]"
      unfolding allowedToBlocked_def Let_def m using a by simp
    moreover have "in_windows allowed t = False" by (simp add: a in_windows_def)
    moreover have "allowed \<noteq> []" using a by simp
    moreover have "toWindows ?ss = [(window_time ds, window_time de)]" unfolding ss by (simp add: toWindows_def)
    moreover have "t < ds \<or> de \<le> t \<or> span_covers ?ss t" unfolding ss by auto
    ultimately show ?thesis by simp
  next
    case part
    then have a: "allowed = toWindows (gaps ds ?ss de)" by (simp add: allowed_def blockedToAllowed_def m)
    then have ne: "allowed \<noteq> []" using part(2) by (simp add: toWindows_def)
    have r: "normalizeSpans allowed ds de = gaps ds ?ss de" unfolding a by (rule normal_read_back[OF g assms(1)])
    have "allowedToBlocked allowed (window_time ds) (window_time de) = toWindows ?ss"
      unfolding allowedToBlocked_def Let_def m r using ne part(2) gg by simp
    moreover have "in_windows allowed t \<longleftrightarrow> span_covers (gaps ds ?ss de) t" unfolding a by (rule written_covers[OF g assms(1)])
    ultimately show ?thesis using ne gc by auto
  qed
  then show ?thesis unfolding norm using c clamp_covers[of ds t de blocked] by (cases "ds \<le> t \<and> t < de") auto
qed

theorem views_agree_witness:
  "blockedToAllowed [(''12:00'', ''13:00''), (''08:00'', ''09:00'')] ''09:00'' ''17:00'' = [(''09:00'', ''12:00''), (''13:00'', ''17:00'')] \<and>
   allowedToBlocked (blockedToAllowed [(''12:00'', ''13:00''), (''08:00'', ''09:00'')] ''09:00'' ''17:00'') ''09:00'' ''17:00'' =
     normalizeWindows [(''12:00'', ''13:00''), (''08:00'', ''09:00'')] ''09:00'' ''17:00''"
proof -
  have m: "window_time 540 = ''09:00''" "window_time 1020 = ''17:00''" by code_simp+
  have a: "blockedToAllowed [(''12:00'', ''13:00''), (''08:00'', ''09:00'')] ''09:00'' ''17:00'' = [(''09:00'', ''12:00''), (''13:00'', ''17:00'')]"
    by code_simp
  have n: "(0 :: int) \<le> 540" "(0 :: int) \<le> 1020" by simp_all
  from views_agree[OF n, of "[(''12:00'', ''13:00''), (''08:00'', ''09:00'')]" 0] a show ?thesis unfolding m by (simp only:)
qed

text \<open>A bound that is not written as the library writes clock texts breaks the round trip of a full day.\<close>

lemma unpadded_bound_kept:
  "allowedToBlocked (blockedToAllowed [(''00:00'', ''24:00'')] ''9:00'' ''17:00'') ''9:00'' ''17:00'' = [(''9:00'', ''17:00'')]"
  "normalizeWindows [(''00:00'', ''24:00'')] ''9:00'' ''17:00'' = [(''09:00'', ''17:00'')]"
  by code_simp+

end
