(* ===== verification/EntrantGuards.thy ===== *)
theory EntrantGuards
  imports JsText
begin

text \<open>
  The guards of the public site's server, under \<open>src/apps/entrant/app/lib\<close>: where a form may send the
  browser (\<open>nextTarget.ts\<close>), the double-submit token (\<open>formCsrf.server.ts\<close>), whether a session cookie
  is present (\<open>session.server.ts\<close>), the sitemap and its cache (\<open>sitemapCache.server.ts\<close>), the reads of
  the API (\<open>apiFetch.server.ts\<close>) and the clock of a demonstration (\<open>demoClock.server.ts\<close>). The digest,
  the date parser, the network and the API's answers are parameters. Texts are bytes: a percent escape
  that is not UTF-8 reads as other bytes here than in a browser, but as unsafe ones in both.
\<close>

section \<open>Query texts\<close>

definition hex_digit :: "char \<Rightarrow> bool" where
  "hex_digit c \<longleftrightarrow> radix_digit c < 16"

text \<open>The form encoding of \<open>URLSearchParams\<close>, both ways.\<close>

fun form_decode :: "string \<Rightarrow> string" where
  "form_decode [] = []"
| "form_decode (c # cs) =
     (if c = CHR ''+'' then CHR '' '' # form_decode cs
      else if c = CHR ''%'' then
        (case cs of
           a # b # r \<Rightarrow>
             if hex_digit a \<and> hex_digit b then char_of (16 * radix_digit a + radix_digit b) # form_decode r
             else c # form_decode cs
         | _ \<Rightarrow> c # form_decode cs)
      else c # form_decode cs)"

definition form_plain :: "char \<Rightarrow> bool" where
  "form_plain c \<longleftrightarrow> is_digit c \<or> (65 \<le> (of_char c :: nat) \<and> (of_char c :: nat) \<le> 90) \<or>
     (97 \<le> (of_char c :: nat) \<and> (of_char c :: nat) \<le> 122) \<or> c \<in> set ''*-._''"

definition form_encode_char :: "char \<Rightarrow> string" where
  "form_encode_char c =
     (if form_plain c then [c] else if c = CHR '' '' then ''+''
      else CHR ''%'' # [hex_char (of_char c div 16), hex_char (of_char c mod 16)])"

definition form_encode :: "string \<Rightarrow> string" where
  "form_encode s = concat (map form_encode_char s)"

definition query_pair :: "string \<Rightarrow> string \<times> string" where
  "query_pair piece =
     (form_decode (takeWhile (\<lambda>c. c \<noteq> CHR ''='') piece), form_decode (tl (dropWhile (\<lambda>c. c \<noteq> CHR ''='') piece)))"

definition parse_query :: "string \<Rightarrow> url_params" where
  "parse_query q = map query_pair (filter (\<lambda>piece. piece \<noteq> []) (split_on ''&'' q))"

text \<open>
  \<open>new URL(value, base)\<close> of a value that begins with a plain path and a question mark: white space and
  controls at the end are dropped, tabs and line ends everywhere; the query ends at \<open>#\<close>.
\<close>

definition url_text :: "string \<Rightarrow> string" where
  "url_text value =
     filter (\<lambda>c. (of_char c :: nat) \<notin> {9, 10, 13})
       (rev (dropWhile (\<lambda>c. (of_char c :: nat) \<le> 32) (rev value)))"

definition url_pathname :: "string \<Rightarrow> string" where
  "url_pathname value = takeWhile (\<lambda>c. c \<noteq> CHR ''?'') (url_text value)"

definition url_query :: "string \<Rightarrow> string" where
  "url_query value =
     takeWhile (\<lambda>c. c \<noteq> CHR ''#'') (tl (dropWhile (\<lambda>c. c \<noteq> CHR ''?'') (url_text value)))"

text \<open>\<open>url.hash\<close> is the empty text for an empty fragment too.\<close>

definition url_hash :: "string \<Rightarrow> string" where
  "url_hash value =
     (let f = dropWhile (\<lambda>c. c \<noteq> CHR ''#'') (tl (dropWhile (\<lambda>c. c \<noteq> CHR ''?'') (url_text value)))
      in if tl f = [] then [] else f)"

section \<open>Where a form may send the browser\<close>

definition next_char :: "char \<Rightarrow> bool" where
  "next_char c \<longleftrightarrow> is_digit c \<or> (65 \<le> (of_char c :: nat) \<and> (of_char c :: nat) \<le> 90) \<or>
     (97 \<le> (of_char c :: nat) \<and> (of_char c :: nat) \<le> 122) \<or> c \<in> set ''/_.~-''"

text \<open>\<open>/^\/e\/[A-Za-z0-9/_.~-]*$/\<close>.\<close>

definition SAFE_NEXT :: "string \<Rightarrow> bool" where
  "SAFE_NEXT s \<longleftrightarrow> prefix ''/e/'' s \<and> list_all next_char (drop 3 s)"

definition safeNext :: "string option \<Rightarrow> string \<Rightarrow> string" where
  "safeNext raw fallback =
     (let value = or_else raw []
      in if prefix ''/e/verify?'' value \<or> prefix ''/e/verify/failed?'' value then
           (let params = parse_query (url_query value); targets = param_all params ''next''
            in if url_hash value = [] \<and> length params = 1 \<and> length targets = 1 \<and>
                  SAFE_NEXT (hd targets) \<and> \<not> sublist ''..'' (hd targets)
               then url_pathname value @ ''?next='' @ form_encode (hd targets)
               else fallback)
         else if sublist ''..'' value \<or> \<not> SAFE_NEXT value then fallback
         else value)"

section \<open>The double-submit token and the session cookie\<close>

definition FORM_CSRF_PREFIX :: string where
  "FORM_CSRF_PREFIX = ''sw-play-form-csrf:''"

definition PLAY_CSRF_COOKIE :: string where
  "PLAY_CSRF_COOKIE = ''sw_play_csrf''"

definition PLAY_CSRF_MAX_AGE :: nat where
  "PLAY_CSRF_MAX_AGE = 60 * 60 * 4"

text \<open>\<open>sha256\<close> is the digest in hexadecimal.\<close>

definition formCsrfToken :: "(string \<Rightarrow> string) \<Rightarrow> string \<Rightarrow> string" where
  "formCsrfToken sha256 secret = (if secret = [] then [] else sha256 (FORM_CSRF_PREFIX @ secret))"

definition cookieSecure :: "(string \<Rightarrow> string) \<Rightarrow> string option \<Rightarrow> bool" where
  "cookieSecure lower env \<longleftrightarrow> lower (or_else env []) = ''true''"

record minted_csrf =
  mc_token :: string
  mc_headers :: "(string, string) dict"

definition mintFormCsrf :: "(string \<Rightarrow> string) \<Rightarrow> (string \<Rightarrow> string) \<Rightarrow> string option \<Rightarrow> string \<Rightarrow> minted_csrf" where
  "mintFormCsrf sha256 lower env nonce =
     (let attributes = [PLAY_CSRF_COOKIE @ ''='' @ nonce, ''Max-Age='' @ nat_text PLAY_CSRF_MAX_AGE,
            ''Path=/'', ''HttpOnly'', ''SameSite=Lax''] @ (if cookieSecure lower env then [''Secure''] else [])
      in \<lparr>mc_token = formCsrfToken sha256 nonce,
          mc_headers = [(''Set-Cookie'', join_with ''; '' attributes), (''Cache-Control'', ''no-store'')]\<rparr>)"

definition ENTRANT_SESSION_COOKIE :: string where
  "ENTRANT_SESSION_COOKIE = ''sw_play_session''"

definition hasEntrantSession :: "string option \<Rightarrow> bool" where
  "hasEntrantSession header =
     (case header of
        None \<Rightarrow> False
      | Some h \<Rightarrow> h \<noteq> [] \<and>
          list_ex (\<lambda>pair. prefix (ENTRANT_SESSION_COOKIE @ ''='') (trim pair)) (split_on '';'' h))"

section \<open>The sitemap\<close>

definition ONE_HOUR_MS :: int where
  "ONE_HOUR_MS = 60 * 60 * 1000"

text \<open>The five replacements, one after the other; \<open>&\<close> first.\<close>

definition replace_char :: "char \<Rightarrow> string \<Rightarrow> string \<Rightarrow> string" where
  "replace_char c by s = concat (map (\<lambda>d. if d = c then by else [d]) s)"

definition xmlEscape :: "string \<Rightarrow> string" where
  "xmlEscape value =
     replace_char CHR 0x27 ''&apos;''
      (replace_char CHR 0x22 ''&quot;''
        (replace_char CHR ''>'' ''&gt;'' (replace_char CHR ''<'' ''&lt;'' (replace_char CHR ''&'' ''&amp;'' value))))"

definition newline :: string where
  "newline = [CHR 0x0A]"

definition xml_quoted :: "string \<Rightarrow> string" where
  "xml_quoted s = CHR 0x22 # s @ [CHR 0x22]"

definition sitemap_url :: "string \<Rightarrow> string \<Rightarrow> string" where
  "sitemap_url baseUrl slug =
     ''  <url>'' @ newline @ ''    <loc>'' @ xmlEscape baseUrl @ ''/e/'' @ xmlEscape slug @ ''</loc>'' @ newline @ ''  </url>''"

definition renderSitemapXml :: "string \<Rightarrow> string list \<Rightarrow> string" where
  "renderSitemapXml baseUrl slugs =
     join_with newline
       ([''<?xml version='' @ xml_quoted ''1.0'' @ '' encoding='' @ xml_quoted ''UTF-8'' @ ''?>'',
         ''<urlset xmlns='' @ xml_quoted ''http://www.sitemaps.org/schemas/sitemap/0.9'' @ ''>'']
        @ map (sitemap_url baseUrl) slugs @ [''</urlset>''])"

record slug_cache =
  sc_slugs :: "string list"
  sc_builtAt :: int

text \<open>
  A request reads the clock, and either answers from the cache or waits for the list; a failed fetch
  leaves the cache alone. \<open>Inl\<close> is the instant the request waits with.
\<close>

definition sitemap_begin :: "int \<Rightarrow> slug_cache option \<Rightarrow> int + string list" where
  "sitemap_begin nowMs cache =
     (case cache of
        None \<Rightarrow> Inl nowMs
      | Some c \<Rightarrow> if nowMs - sc_builtAt c \<ge> ONE_HOUR_MS then Inl nowMs else Inr (sc_slugs c))"

definition sitemap_land :: "int \<Rightarrow> string list \<Rightarrow> slug_cache option" where
  "sitemap_land nowMs slugs = Some \<lparr>sc_slugs = slugs, sc_builtAt = nowMs\<rparr>"

definition getSitemap ::
  "string \<Rightarrow> int \<Rightarrow> string list option \<Rightarrow> slug_cache option \<Rightarrow> string option \<times> slug_cache option" where
  "getSitemap baseUrl nowMs answer cache =
     (case sitemap_begin nowMs cache of
        Inr slugs \<Rightarrow> (Some (renderSitemapXml baseUrl slugs), cache)
      | Inl t \<Rightarrow>
          (case answer of
             None \<Rightarrow> (None, cache)
           | Some slugs \<Rightarrow> (Some (renderSitemapXml baseUrl slugs), sitemap_land t slugs)))"

section \<open>Reading the API\<close>

definition OUTBOUND_HEADERS :: "(string, string) dict" where
  "OUTBOUND_HEADERS = [(''accept'', ''application/json'')]"

datatype api_failure =
  NoBaseUrl | RejectedPath string | ApiError int string | NetworkDown

text \<open>\<open>base.replace(/\/+$/, '')\<close>.\<close>

definition apiBaseUrl :: "string option \<Rightarrow> api_failure + string" where
  "apiBaseUrl env =
     (case env of
        None \<Rightarrow> Inl NoBaseUrl
      | Some base \<Rightarrow> if base = [] then Inl NoBaseUrl
          else Inr (rev (dropWhile (\<lambda>c. c = CHR ''/'') (rev base))))"

definition js_field :: "string \<Rightarrow> js_value option \<Rightarrow> js_value option" where
  "js_field k v = (case v of Some (JObj kvs) \<Rightarrow> map_of kvs k | _ \<Rightarrow> None)"

definition errorCode :: "js_value option \<Rightarrow> string" where
  "errorCode body =
     (case js_field ''code'' (js_field ''detail'' body) of Some (JStr code) \<Rightarrow> code | _ \<Rightarrow> ''UNKNOWN'')"

definition public_projection :: "string \<Rightarrow> bool" where
  "public_projection path =
     (let pieces = split_on ''?'' path; pathname = hd pieces; query = (if tl pieces = [] then [] else hd (tl pieces))
      in \<not> (\<not> prefix ''/e/api/'' pathname \<or> sublist ''..'' pathname \<or> sublist ''..'' query \<or>
         CHR ''#'' \<in> set path \<or> length (filter (\<lambda>c. c = CHR ''?'') path) > 1))"

record api_request =
  rq_url :: string
  rq_headers :: "(string, string) dict"

record api_response =
  rs_status :: int
  rs_body :: "js_value option"

text \<open>\<open>ok\<close> is a status of the two hundreds; a body that does not parse is \<open>None\<close>.\<close>

definition apiGet ::
  "(api_request \<Rightarrow> api_response option) \<Rightarrow> string option \<Rightarrow> string \<Rightarrow> api_failure + js_value" where
  "apiGet fetch env path =
     (if \<not> public_projection path then Inl (RejectedPath path)
      else case apiBaseUrl env of
        Inl e \<Rightarrow> Inl e
      | Inr base \<Rightarrow>
          (case fetch \<lparr>rq_url = base @ path, rq_headers = OUTBOUND_HEADERS\<rparr> of
             None \<Rightarrow> Inl NetworkDown
           | Some response \<Rightarrow>
               if \<not> (200 \<le> rs_status response \<and> rs_status response < 300)
               then Inl (ApiError (rs_status response) (errorCode (rs_body response)))
               else case rs_body response of
                   None \<Rightarrow> Inl (ApiError (rs_status response) ''BAD_RESPONSE'')
                 | Some body \<Rightarrow> Inr body))"

section \<open>The clock of a demonstration\<close>

datatype demo_error = NotLocal | NoOffset

text \<open>\<open>/[zZ]|[+-]\d{2}:?\d{2}$/\<close>: the first alternative is not anchored.\<close>

definition offset_pattern :: "string \<Rightarrow> bool" where
  "offset_pattern s \<longleftrightarrow> CHR ''z'' \<in> set s \<or> CHR ''Z'' \<in> set s \<or>
     (let r = rev s
      in case r of
           a # b # c # d # e # rest \<Rightarrow>
             is_digit a \<and> is_digit b \<and>
             (is_digit c \<and> is_digit d \<and> e \<in> set ''+-'' \<or>
              c = CHR '':'' \<and> is_digit d \<and> is_digit e \<and> rest \<noteq> [] \<and> hd rest \<in> set ''+-'')
         | _ \<Rightarrow> False)"

definition parseDemoNow ::
  "(string \<Rightarrow> string) \<Rightarrow> (string \<Rightarrow> int option) \<Rightarrow> string option \<Rightarrow> string option \<Rightarrow> demo_error + int option" where
  "parseDemoNow lower date_parse raw environment =
     (if or_else raw [] = [] then Inr None
      else if lower (trim (or_else environment ''local'')) \<noteq> ''local'' then Inl NotLocal
      else case date_parse (or_else raw []) of
             None \<Rightarrow> Inl NoOffset
           | Some parsed \<Rightarrow> if offset_pattern (trim (or_else raw [])) then Inr (Some parsed) else Inl NoOffset)"

definition demoNowMs ::
  "(string \<Rightarrow> string) \<Rightarrow> (string \<Rightarrow> int option) \<Rightarrow> string option \<Rightarrow> string option \<Rightarrow> int \<Rightarrow> demo_error + int" where
  "demoNowMs lower date_parse raw environment clock =
     (case parseDemoNow lower date_parse raw environment of
        Inl e \<Rightarrow> Inl e | Inr None \<Rightarrow> Inr clock | Inr (Some t) \<Rightarrow> Inr t)"

section \<open>Encoding and decoding\<close>

text \<open>The characters that end a part of a query: \<open>&\<close>, \<open>=\<close>, \<open>#\<close> and \<open>?\<close>.\<close>

definition query_mark :: "char \<Rightarrow> bool" where
  "query_mark c \<longleftrightarrow> (of_char c :: nat) \<in> {38, 61, 35, 63}"

lemma hex_char_digit:
  assumes "d < 16"
  shows "radix_digit (hex_char d) = d" "33 \<le> (of_char (hex_char d) :: nat)" "\<not> query_mark (hex_char d)"
  using assms by (auto simp: radix_digit_def query_mark_def hex_char_code Let_def)

lemma char_nibbles: "(of_char c :: nat) div 16 < 16" "(of_char c :: nat) mod 16 < 16"
proof -
  have "(of_char c :: nat) < 256" by simp
  then show "(of_char c :: nat) div 16 < 16" "(of_char c :: nat) mod 16 < 16" by linarith+
qed

lemma form_plain_not: "\<not> form_plain CHR ''+''" "\<not> form_plain CHR ''%''" "\<not> form_plain CHR '' ''"
  by (simp_all add: form_plain_def is_digit_def)

lemma form_decode_char: "form_decode (form_encode_char c @ s) = c # form_decode s"
proof -
  consider (plain) "form_plain c" | (space) "c = CHR '' ''" | (other) "\<not> form_plain c" "c \<noteq> CHR '' ''" by blast
  then show ?thesis
  proof cases
    case plain
    then have "c \<noteq> CHR ''+''" "c \<noteq> CHR ''%''" using form_plain_not by blast+
    then show ?thesis using plain by (simp add: form_encode_char_def)
  next
    case space
    then show ?thesis using form_plain_not by (simp add: form_encode_char_def)
  next
    case other
    note d = hex_char_digit(1)[OF char_nibbles(1)[of c]] hex_char_digit(1)[OF char_nibbles(2)[of c]]
    have "hex_digit (hex_char (of_char c div 16))" "hex_digit (hex_char (of_char c mod 16))"
      using char_nibbles[of c] by (simp_all add: hex_digit_def d)
    moreover have "form_encode_char c = CHR ''%'' # [hex_char (of_char c div 16), hex_char (of_char c mod 16)]"
      using other by (simp only: form_encode_char_def if_False)
    ultimately show ?thesis by (simp add: d)
  qed
qed

lemma form_decode_encode [simp]: "form_decode (form_encode s) = s"
  by (induction s) (simp_all add: form_encode_def form_decode_char)

lemma form_plain_char: "form_plain c \<Longrightarrow> 33 \<le> (of_char c :: nat) \<and> \<not> query_mark c"
  by (auto simp: form_plain_def is_digit_def query_mark_def)

lemma form_encode_char_marks: "c \<in> set (form_encode_char a) \<Longrightarrow> 33 \<le> (of_char c :: nat) \<and> \<not> query_mark c"
proof -
  assume c: "c \<in> set (form_encode_char a)"
  consider "form_plain a" "c = a" | "c = CHR ''+''" | "c = CHR ''%''" | "c = hex_char (of_char a div 16)"
    | "c = hex_char (of_char a mod 16)"
    using c unfolding form_encode_char_def by (auto split: if_split_asm)
  then show ?thesis
  proof cases
    case 1
    then show ?thesis using form_plain_char by simp
  next
    case 4
    show ?thesis unfolding 4 using hex_char_digit(2,3)[OF char_nibbles(1)[of a]] by blast
  next
    case 5
    show ?thesis unfolding 5 using hex_char_digit(2,3)[OF char_nibbles(2)[of a]] by blast
  qed (simp_all add: query_mark_def)
qed

lemma form_encode_chars: "c \<in> set (form_encode s) \<Longrightarrow> 33 \<le> (of_char c :: nat) \<and> \<not> query_mark c"
  using form_encode_char_marks by (auto simp: form_encode_def)

section \<open>No way out of the site\<close>

definition home_target :: "string \<Rightarrow> bool" where
  "home_target s \<longleftrightarrow> SAFE_NEXT s \<and> \<not> sublist ''..'' s"

definition verify_pages :: "string list" where
  "verify_pages = [''/e/verify'', ''/e/verify/failed'']"

text \<open>Where a browser on this site lands: on this origin if the address, as the URL parser reads it, begins
  with one slash (a backslash counts as a slash, two of them name another host, anything else may name a
  scheme), then with the dot segments of its path resolved, escaped dots included.\<close>

fun undot :: "string \<Rightarrow> string" where
  "undot (a # b # c # cs) =
     (if a = CHR ''%'' \<and> b = CHR ''2'' \<and> (c = CHR ''e'' \<or> c = CHR ''E'') then CHR ''.'' # undot cs
      else a # undot (b # c # cs))"
| "undot cs = cs"

fun resolve_dots :: "string list \<Rightarrow> string list \<Rightarrow> string list" where
  "resolve_dots st [] = rev st"
| "resolve_dots st (seg # segs) =
     (let st' = (if undot seg = ''..'' then tl st else if undot seg = ''.'' then st else seg # st)
      in if segs = [] \<and> (undot seg = ''..'' \<or> undot seg = ''.'') then rev ([] # st') else resolve_dots st' segs)"

definition landing_path :: "string \<Rightarrow> string list option" where
  "landing_path ref =
     (case map (\<lambda>c. if c = CHR 0x5C then CHR ''/'' else c)
             (takeWhile (\<lambda>c. c \<noteq> CHR ''?'' \<and> c \<noteq> CHR ''#'') (url_text ref)) of
        CHR ''/'' # path \<Rightarrow>
          if path \<noteq> [] \<and> hd path = CHR ''/'' then None else Some (resolve_dots [] (split_on ''/'' path))
      | _ \<Rightarrow> None)"

text \<open>An address of the entrant site: it lands below \<open>/e\<close>, and the only thing its query says is a next address
  that does so too.\<close>

definition lands_below_e :: "string \<Rightarrow> bool" where
  "lands_below_e ref \<longleftrightarrow> (\<exists>path. landing_path ref = Some (''e'' # path))"

definition home_address :: "string \<Rightarrow> bool" where
  "home_address t \<longleftrightarrow> lands_below_e t \<and>
     list_all (\<lambda>(k, v). k = ''next'' \<and> lands_below_e v) (parse_query (url_query t))"

lemma plain_not_dots: "CHR ''%'' \<notin> set seg \<Longrightarrow> undot seg = seg"
  by (induction seg rule: undot.induct) auto

lemma resolve_below:
  assumes "\<forall>seg \<in> set segs. undot seg \<noteq> ''..''"
  shows "\<exists>path. resolve_dots (us @ [e]) segs = e # path"
  using assms
proof (induction segs arbitrary: us)
  case (Cons seg segs)
  have up: "undot seg \<noteq> ''..''" and rest: "\<forall>seg \<in> set segs. undot seg \<noteq> ''..''" using Cons.prems by simp_all
  have "resolve_dots (us @ [e]) (seg # segs) =
      (if undot seg = ''.'' then (if segs = [] then e # rev us @ [[]] else resolve_dots (us @ [e]) segs)
       else resolve_dots ((seg # us) @ [e]) segs)"
    unfolding resolve_dots.simps(2) Let_def if_not_P[OF up] using up by simp
  then show ?case using Cons.IH[OF rest, of us] Cons.IH[OF rest, of "seg # us"] by simp
qed simp

lemma piece_sublist: "seg \<in> set (split_acc [d] acc s) \<Longrightarrow> sublist seg (acc @ s)"
proof (induction s arbitrary: acc)
  case (Cons c s)
  show ?case
  proof (cases "c = d")
    case True
    then have "seg = acc \<or> seg \<in> set (split_acc [d] [] s)" using Cons.prems by simp
    then show ?thesis
    proof
      assume "seg \<in> set (split_acc [d] [] s)"
      then have "sublist seg s" using Cons.IH[of "[]"] by simp
      moreover have "sublist s (acc @ c # s)" using sublist_append_leftI[of s "acc @ [c]"] by simp
      ultimately show ?thesis by (rule sublist_order.order.trans)
    qed simp
  next
    case False
    then show ?thesis using Cons.IH[of "acc @ [c]"] Cons.prems by simp
  qed
qed simp

lemma next_char_marks:
  assumes "next_char c"
  shows "33 \<le> (of_char c :: nat) \<and> c \<notin> {CHR ''?'', CHR ''#'', CHR 0x5C, CHR ''%''}"
proof -
  have marks: "\<not> next_char (CHR ''?'')" "\<not> next_char (CHR ''#'')" "\<not> next_char (CHR 0x5C)" "\<not> next_char (CHR ''%'')"
    by code_simp+
  have "c \<in> set ''/_.~-'' \<Longrightarrow> 33 \<le> (of_char c :: nat)" by (simp only: list.set insert_iff empty_iff) (elim disjE; simp)
  moreover have "is_digit c \<Longrightarrow> 33 \<le> (of_char c :: nat)" by (simp add: is_digit_def)
  ultimately have "33 \<le> (of_char c :: nat)" using assms unfolding next_char_def by linarith
  then show ?thesis using marks assms by blast
qed

lemma url_text_plain:
  assumes "\<forall>c \<in> set s. 33 \<le> (of_char c :: nat)"
  shows "url_text s = s"
proof -
  have drop: "dropWhile (\<lambda>c. (of_char c :: nat) \<le> 32) xs = xs" if "set xs \<subseteq> set s" for xs :: string
    using that assms by (cases xs) (auto dest!: bspec)
  have "filter (\<lambda>c. (of_char c :: nat) \<notin> {9, 10, 13}) s = s" using assms by (intro filter_True) fastforce
  then show ?thesis using drop[of s] drop[of "rev s"] by (simp add: url_text_def)
qed

lemma home_lands:
  assumes "home_target s"
  shows "lands_below_e s \<and> url_query s = []"
proof -
  obtain r where s: "s = ''/e/'' @ r" and r: "\<forall>c \<in> set r. next_char c" and dots: "\<not> sublist ''..'' s"
    using assms by (auto simp: home_target_def SAFE_NEXT_def prefix_def list_all_iff)
  have c: "33 \<le> (of_char c :: nat)" "c \<noteq> CHR ''?''" "c \<noteq> CHR ''#''" "c \<noteq> CHR 0x5C" if "c \<in> set s" for c
  proof -
    have "next_char (CHR ''/'')" "next_char (CHR ''e'')" by code_simp+
    then have "next_char c" using that r by (auto simp: s)
    then show "33 \<le> (of_char c :: nat)" "c \<noteq> CHR ''?''" "c \<noteq> CHR ''#''" "c \<noteq> CHR 0x5C"
      using next_char_marks by blast+
  qed
  have same: "url_text s = s" by (rule url_text_plain) (use c in blast)
  have tw: "takeWhile (\<lambda>c. c \<noteq> CHR ''?'' \<and> c \<noteq> CHR ''#'') s = s"
    by (rule takeWhile_eq_all_conv[THEN iffD2]) (use c in blast)
  have sl: "map (\<lambda>c. if c = CHR 0x5C then CHR ''/'' else c) s = s"
    by (rule map_idI) (use c in auto)
  have "landing_path s = Some (resolve_dots [] (split_on ''/'' (''e/'' @ r)))"
    unfolding landing_path_def same tw sl by (simp add: s)
  also have "split_on ''/'' (''e/'' @ r) = ''e'' # split_on ''/'' r" by (simp add: split_on_def)
  also have "resolve_dots [] (''e'' # split_on ''/'' r) = resolve_dots [''e''] (split_on ''/'' r)"
    by (cases "split_on ''/'' r") simp_all
  finally have path: "landing_path s = Some (resolve_dots [''e''] (split_on ''/'' r))" .
  have "undot seg \<noteq> ''..''" if "seg \<in> set (split_on ''/'' r)" for seg
  proof -
    have sub: "sublist seg r" using piece_sublist[of seg _ "[]" r] that by (simp add: split_on_def)
    then have "set seg \<subseteq> set r" by (rule set_mono_sublist)
    then have "undot seg = seg" using r next_char_marks by (intro plain_not_dots) blast
    moreover have "sublist seg s" unfolding s using sub sublist_append_leftI by (rule sublist_order.order.trans)
    then have "seg \<noteq> ''..''" using dots by blast
    ultimately show ?thesis by simp
  qed
  then have below: "lands_below_e s" using path resolve_below[of "split_on ''/'' r" "[]" "''e''"] by (simp add: lands_below_e_def)
  have dw: "dropWhile (\<lambda>c. c \<noteq> CHR ''?'') s = []"
    by (rule dropWhile_eq_Nil_conv[THEN iffD2]) (use c in blast)
  have "url_query s = []" unfolding url_query_def same dw by simp
  with below show ?thesis by blast
qed

lemma dropWhile_stops: "\<not> P c \<Longrightarrow> dropWhile P (xs @ c # ys) = dropWhile P xs @ c # ys"
  by (induction xs) auto

lemma url_text_stem:
  "\<exists>r'. url_text (page @ CHR ''?'' # r) = filter (\<lambda>c. (of_char c :: nat) \<notin> {9, 10, 13}) page @ CHR ''?'' # r'"
  by (simp add: url_text_def dropWhile_stops)

lemma page_plain: "page \<in> set verify_pages \<Longrightarrow>
    filter (\<lambda>c. (of_char c :: nat) \<notin> {9, 10, 13}) page = page \<and> takeWhile (\<lambda>c. c \<noteq> CHR ''?'') page = page"
  by (auto simp: verify_pages_def)

lemma verify_prefix:
  "prefix ''/e/verify?'' value \<or> prefix ''/e/verify/failed?'' value \<longleftrightarrow>
   (\<exists>page \<in> set verify_pages. \<exists>r. value = page @ CHR ''?'' # r)"
  by (auto simp: verify_pages_def prefix_def)

lemma takeWhile_mark: "c \<notin> set xs \<Longrightarrow> takeWhile (\<lambda>d. d \<noteq> c) (xs @ c # ys) = xs"
  by (induction xs) auto

lemma dropWhile_mark: "c \<notin> set xs \<Longrightarrow> dropWhile (\<lambda>d. d \<noteq> c) (xs @ c # ys) = c # ys"
  by (induction xs) auto

lemma page_no_mark: "page \<in> set verify_pages \<Longrightarrow> CHR ''?'' \<notin> set page"
  by (auto simp: verify_pages_def)

lemma url_pathname_verify:
  assumes "page \<in> set verify_pages"
  shows "url_pathname (page @ CHR ''?'' # r) = page"
proof -
  obtain r' where "url_text (page @ CHR ''?'' # r) = page @ CHR ''?'' # r'"
    using url_text_stem[of page r] page_plain[OF assms] by auto
  then show ?thesis by (simp only: url_pathname_def takeWhile_mark[OF page_no_mark[OF assms]])
qed

text \<open>What the guard writes for a verification page is read back as it was written.\<close>

lemma split_on_none:
  assumes "\<forall>c \<in> set s. c \<noteq> d"
  shows "split_on [d] s = [s]"
proof -
  have "\<forall>c \<in> set s. c \<noteq> d \<Longrightarrow> split_acc [d] acc s = [acc @ s]" for acc
    by (induction s arbitrary: acc) auto
  then show ?thesis using assms by (simp add: split_on_def)
qed

lemma encoded_next_read:
  assumes "page \<in> set verify_pages" "s \<noteq> []"
  defines "value \<equiv> page @ ''?next='' @ form_encode s"
  shows "parse_query (url_query value) = [(''next'', s)]" "url_hash value = []"
proof -
  let ?e = "form_encode s"
  have e: "33 \<le> (of_char c :: nat)" "c \<noteq> CHR ''&''" "c \<noteq> CHR ''#''" if "c \<in> set ?e" for c
    using form_encode_chars[OF that] by (auto simp: query_mark_def)
  have ne: "?e \<noteq> []" using assms(2) by (cases s) (auto simp: form_encode_def form_encode_char_def)
  have v: "value = (page @ CHR ''?'' # ''next='') @ ?e" by (simp add: value_def)
  have "\<not> (of_char (last ?e) :: nat) \<le> 32" using e(1)[OF last_in_set[OF ne]] by simp
  then have "dropWhile (\<lambda>c. (of_char c :: nat) \<le> 32) (rev value) = rev value"
    unfolding v using ne by (intro dropWhile_fixed) (simp add: hd_append hd_rev)
  moreover have "filter (\<lambda>c. (of_char c :: nat) \<notin> {9, 10, 13}) ?e = ?e"
  proof (rule filter_True, rule ballI)
    fix c assume "c \<in> set ?e"
    then have "33 \<le> (of_char c :: nat)" by (rule e(1))
    then show "(of_char c :: nat) \<notin> {9, 10, 13}" by auto
  qed
  ultimately have utext: "url_text value = page @ CHR ''?'' # ''next='' @ ?e"
    using page_plain[OF assms(1)] unfolding url_text_def by (simp add: v)
  note cut = dropWhile_mark[OF page_no_mark[OF assms(1)]]
  have hash: "\<forall>c \<in> set (''next='' @ ?e). c \<noteq> CHR ''#''" using e(3) by auto
  have query: "url_query value = ''next='' @ ?e"
    unfolding url_query_def utext cut list.sel by (rule takeWhile_eq_all_conv[THEN iffD2]) (use hash in blast)
  have "dropWhile (\<lambda>c. c \<noteq> CHR ''#'') (''next='' @ ?e) = []"
    by (rule dropWhile_eq_Nil_conv[THEN iffD2]) (use hash in blast)
  then show "url_hash value = []" unfolding url_hash_def utext cut list.sel Let_def by (simp only: list.sel if_True simp_thms)
  have "split_on ''&'' (''next='' @ ?e) = [''next='' @ ?e]"
    by (rule split_on_none) (use e(2) in auto)
  then show "parse_query (url_query value) = [(''next'', s)]"
    unfolding query parse_query_def by (simp add: query_pair_def)
qed

lemma home_not_verify: "home_target t \<Longrightarrow> \<not> prefix ''/e/verify?'' t \<and> \<not> prefix ''/e/verify/failed?'' t"
  by (auto simp: home_target_def SAFE_NEXT_def prefix_def next_char_def is_digit_def)

lemma safeNext_plain: "home_target t \<Longrightarrow> safeNext (Some t) fallback = t"
  using home_not_verify[of t] by (simp add: safeNext_def home_target_def Let_def)

lemma safeNext_verify:
  assumes "page \<in> set verify_pages" "home_target s"
  shows "safeNext (Some (page @ ''?next='' @ form_encode s)) fallback = page @ ''?next='' @ form_encode s"
proof -
  let ?v = "page @ ''?next='' @ form_encode s"
  have "s \<noteq> []" using assms(2) by (auto simp: home_target_def SAFE_NEXT_def)
  note read = encoded_next_read[OF assms(1) this]
  have "\<exists>page \<in> set verify_pages. \<exists>r. ?v = page @ CHR ''?'' # r" using assms(1) by auto
  moreover have "url_pathname ?v = page" using url_pathname_verify[OF assms(1), of "''next='' @ form_encode s"] by simp
  ultimately show ?thesis
    unfolding safeNext_def or_else.simps Let_def verify_prefix read
    using assms(2) by (simp add: param_all_def home_target_def)
qed

lemma home_target_address:
  assumes "home_target s"
  shows "home_address s" "page \<in> set verify_pages \<Longrightarrow> home_address (page @ ''?next='' @ form_encode s)"
proof -
  note home = home_lands[OF assms]
  show "home_address s" using home by (simp add: home_address_def parse_query_def split_on_def)
  assume page: "page \<in> set verify_pages"
  let ?t = "page @ ''?next='' @ form_encode s"
  have "s \<noteq> []" using assms by (auto simp: home_target_def SAFE_NEXT_def)
  note read = encoded_next_read(1)[OF page this]
  obtain r' where "url_text ?t = page @ CHR ''?'' # r'"
    using url_text_stem[of page "''next='' @ form_encode s"] page_plain[OF page] by auto
  then have "lands_below_e ?t"
    using page by (auto simp: lands_below_e_def landing_path_def verify_pages_def split_on_def)
  then show "home_address ?t" using home by (simp add: home_address_def read[simplified])
qed

text \<open>C34. Whatever the link says, the address a form sends the browser to is the one the page itself falls back
  to, or an address of the entrant site: a browser that follows it stays on this origin and lands below
  \<open>/e\<close>, its dot segments resolved, and the only thing its query can say is a next address that does so
  too. Checking an accepted address again, whatever the fallback, accepts it unchanged, so the tiers
  that repeat the check agree.\<close>

theorem next_stays_home:
  "safeNext raw fallback = fallback \<or>
   home_address (safeNext raw fallback) \<and> safeNext (Some (safeNext raw fallback)) other = safeNext raw fallback"
proof -
  let ?v = "or_else raw []" and ?q = "parse_query (url_query (or_else raw []))"
  let ?s = "hd (param_all ?q ''next'')"
  consider (verify) page r where "page \<in> set verify_pages" "?v = page @ CHR ''?'' # r" "home_target ?s"
      "safeNext raw fallback = page @ ''?next='' @ form_encode ?s"
    | (plain) "home_target ?v" "safeNext raw fallback = ?v" | (falls) "safeNext raw fallback = fallback"
  proof (cases "\<exists>page \<in> set verify_pages. \<exists>r. ?v = page @ CHR ''?'' # r")
    case True
    then obtain page r where p: "page \<in> set verify_pages" "?v = page @ CHR ''?'' # r" by blast
    note path = url_pathname_verify[OF p(1), of r, folded p(2)]
    show thesis
    proof (cases "url_hash ?v = [] \<and> length ?q = 1 \<and> length (param_all ?q ''next'') = 1 \<and> home_target ?s")
      case ok: True
      then have "safeNext raw fallback = page @ ''?next='' @ form_encode ?s"
        using True unfolding safeNext_def Let_def verify_prefix home_target_def by (simp add: path)
      with p ok show thesis by (intro verify) auto
    next
      case False
      then have "safeNext raw fallback = fallback"
        using True unfolding safeNext_def Let_def verify_prefix home_target_def by auto
      then show thesis by (rule falls)
    qed
  next
    case False
    then have n: "safeNext raw fallback = (if home_target ?v then ?v else fallback)"
      unfolding safeNext_def Let_def verify_prefix home_target_def by auto
    show thesis
    proof (cases "home_target ?v")
      case True
      then show thesis using n by (intro plain) simp_all
    next
      case False
      then show thesis using n by (intro falls) simp
    qed
  qed
  then show ?thesis
  proof cases
    case verify
    then have "home_address (safeNext raw fallback)" using home_target_address(2) by simp
    then show ?thesis using safeNext_verify[OF verify(1,3)] unfolding verify(4) by blast
  next
    case plain
    then show ?thesis using safeNext_plain[OF plain(1)] home_target_address(1)[OF plain(1)] by simp
  qed blast
qed

lemma crafted_links_refused:
  "safeNext (Some ''//evil.example'') ''/e/'' = ''/e/''"
  "safeNext (Some ''/e/../admin'') ''/e/'' = ''/e/''"
  "safeNext (Some ''/e/verify?next=%2F%2Fevil.example'') ''/e/'' = ''/e/''"
  "safeNext (Some ''/e/verify?next=/e/open'') ''/e/'' = ''/e/verify?next=%2Fe%2Fopen''"
  by code_simp+

section \<open>The sitemap read back\<close>

text \<open>A reader of the document: the text of every \<open>loc\<close> element, its entities resolved.\<close>

fun xml_unescape :: "string \<Rightarrow> string" where
  "xml_unescape [] = []"
| "xml_unescape (c # cs) =
     (if prefix ''&amp;'' (c # cs) then CHR ''&'' # xml_unescape (drop 4 cs)
      else if prefix ''&lt;'' (c # cs) then CHR ''<'' # xml_unescape (drop 3 cs)
      else if prefix ''&gt;'' (c # cs) then CHR ''>'' # xml_unescape (drop 3 cs)
      else if prefix ''&quot;'' (c # cs) then CHR 0x22 # xml_unescape (drop 5 cs)
      else if prefix ''&apos;'' (c # cs) then CHR 0x27 # xml_unescape (drop 5 cs)
      else c # xml_unescape cs)"

function read_locs :: "string \<Rightarrow> string list" where
  "read_locs [] = []"
| "read_locs (c # cs) =
     (if prefix ''<loc>'' (c # cs)
      then xml_unescape (takeWhile (\<lambda>d. d \<noteq> CHR ''<'') (drop 4 cs)) # read_locs (dropWhile (\<lambda>d. d \<noteq> CHR ''<'') (drop 4 cs))
      else read_locs cs)"
  by pat_completeness auto
termination
  by (relation "measure length") (auto intro!: le_imp_less_Suc le_trans[OF length_dropWhile_le] simp: diff_le_self)

definition xml_entity :: "char \<Rightarrow> string" where
  "xml_entity c =
     (if c = CHR ''&'' then ''&amp;'' else if c = CHR ''<'' then ''&lt;'' else if c = CHR ''>'' then ''&gt;''
      else if c = CHR 0x22 then ''&quot;'' else if c = CHR 0x27 then ''&apos;'' else [c])"

lemma replace_char_append [simp]: "replace_char c by (s @ t) = replace_char c by s @ replace_char c by t"
  by (simp add: replace_char_def)

lemma replace_char_Cons: "replace_char c by (d # s) = (if d = c then by else [d]) @ replace_char c by s"
  by (simp add: replace_char_def)

lemma replace_char_Nil [simp]: "replace_char c by [] = []"
  by (simp add: replace_char_def)

lemma xmlEscape_Cons: "xmlEscape (c # s) = xml_entity c @ xmlEscape s"
  by (simp add: xmlEscape_def xml_entity_def replace_char_Cons)

lemma xmlEscape_Nil [simp]: "xmlEscape [] = []"
  by (simp add: xmlEscape_def)

lemma xml_unescape_entity: "xml_unescape (xml_entity c @ s) = c # xml_unescape s"
proof -
  consider "c = CHR ''&''" | "c = CHR ''<''" | "c = CHR ''>''" | "c = CHR 0x22" | "c = CHR 0x27"
    | "c \<notin> set [CHR ''&'', CHR ''<'', CHR ''>'', CHR 0x22, CHR 0x27]" by auto
  then show ?thesis
  proof cases
    case 6
    then have "CHR ''&'' \<noteq> c" "xml_entity c = [c]" by (auto simp: xml_entity_def)
    then show ?thesis by simp
  qed (simp_all add: xml_entity_def)
qed

lemma xml_unescape_escape: "xml_unescape (xmlEscape s @ t) = s @ xml_unescape t"
  by (induction s) (simp_all add: xmlEscape_Cons xml_unescape_entity)

lemma xmlEscape_no_tag: "CHR ''<'' \<notin> set (xmlEscape s)"
  by (induction s) (auto simp: xmlEscape_Cons xml_entity_def)

lemma read_locs_skip: "CHR ''<'' \<notin> set pre \<Longrightarrow> read_locs (pre @ s) = read_locs s"
  by (induction pre) auto

lemma read_locs_newline: "read_locs (newline @ s) = read_locs s"
  by (rule read_locs_skip) (simp add: newline_def)

lemma read_locs_loc:
  "CHR ''<'' \<notin> set t \<Longrightarrow> read_locs (''<loc>'' @ t @ CHR ''<'' # r) = xml_unescape t # read_locs (CHR ''<'' # r)"
  using takeWhile_mark[of "CHR ''<''" t r] dropWhile_mark[of "CHR ''<''" t r] by simp

lemma read_locs_open:
  "read_locs (''  '' @ CHR ''<'' # ''url>'' @ newline @ ''    '' @ s) = read_locs s"
  by (simp add: newline_def)

lemma read_locs_close:
  "read_locs (CHR ''<'' # ''/loc>'' @ newline @ ''  '' @ CHR ''<'' # ''/url>'' @ s) = read_locs s"
  by (simp add: newline_def)

lemma read_locs_url:
  "read_locs (sitemap_url base slug @ s) = (base @ ''/e/'' @ slug) # read_locs s"
proof -
  let ?text = "xmlEscape base @ ''/e/'' @ xmlEscape slug"
  have none: "CHR ''<'' \<notin> set ?text" using xmlEscape_no_tag by auto
  have plain: "xml_unescape ?text = base @ ''/e/'' @ slug"
    using xml_unescape_escape[of slug "[]"] by (simp add: xml_unescape_escape)
  have "sitemap_url base slug @ s =
      ''  '' @ CHR ''<'' # ''url>'' @ newline @ ''    '' @ ''<loc>'' @ ?text @ CHR ''<'' # ''/loc>'' @ newline @ ''  '' @ CHR ''<'' # ''/url>'' @ s"
    by (simp add: sitemap_url_def newline_def)
  then have "read_locs (sitemap_url base slug @ s) =
      read_locs (''  '' @ CHR ''<'' # ''url>'' @ newline @ ''    '' @
        (''<loc>'' @ ?text @ CHR ''<'' # ''/loc>'' @ newline @ ''  '' @ CHR ''<'' # ''/url>'' @ s))" by (rule arg_cong)
  also note read_locs_open
  also note read_locs_loc[OF none]
  also note read_locs_close
  also note plain
  finally show ?thesis .
qed

text \<open>Whatever the Host header and the slugs contain, a reader of the sitemap finds exactly the given pages of
  the given origin, in order: no text can add an entry, hide one or break the document.\<close>

theorem sitemap_reads_back:
  "read_locs (renderSitemapXml base slugs) = map (\<lambda>slug. base @ ''/e/'' @ slug) slugs"
proof -
  have body: "read_locs (newline @ join_with newline (map (sitemap_url base) xs @ [''</urlset>''])) =
      map (\<lambda>slug. base @ ''/e/'' @ slug) xs" for xs
  proof (induction xs)
    case Nil
    show ?case by (simp add: newline_def)
  next
    case (Cons x xs)
    have "join_with newline (map (sitemap_url base) (x # xs) @ [''</urlset>'']) =
        sitemap_url base x @ newline @ join_with newline (map (sitemap_url base) xs @ [''</urlset>''])"
      by (simp add: join_with_Cons)
    then show ?case using Cons.IH by (simp only: read_locs_newline read_locs_url list.map)
  qed
  show ?thesis
    unfolding renderSitemapXml_def using body[of slugs]
    by (simp add: join_with_Cons xml_quoted_def newline_def)
qed

section \<open>The cache under concurrent requests\<close>

text \<open>
  \<open>listed t\<close> is what the server lists as public at instant \<open>t\<close>. Requests wait for the list side by side; the
  server reads it at some instant, and the answer lands later, perhaps after the answer of a later request.
\<close>

record sitemap_world =
  sw_now :: int
  sw_cache :: "slug_cache option"
  sw_asked :: "int list"
  sw_answered :: "(int \<times> string list) list"
  sw_served :: "(int \<times> string list) list"

inductive sitemap_step :: "(int \<Rightarrow> string list) \<Rightarrow> sitemap_world \<Rightarrow> sitemap_world \<Rightarrow> bool" for listed where
  sm_tick: "0 \<le> d \<Longrightarrow> sitemap_step listed w (w\<lparr>sw_now := sw_now w + d\<rparr>)"
| sm_hit: "sitemap_begin (sw_now w) (sw_cache w) = Inr slugs \<Longrightarrow>
    sitemap_step listed w (w\<lparr>sw_served := (sw_now w, slugs) # sw_served w\<rparr>)"
| sm_miss: "sitemap_begin (sw_now w) (sw_cache w) = Inl t \<Longrightarrow> sitemap_step listed w (w\<lparr>sw_asked := t # sw_asked w\<rparr>)"
| sm_answer: "t \<in> set (sw_asked w) \<Longrightarrow>
    sitemap_step listed w (w\<lparr>sw_asked := remove1 t (sw_asked w), sw_answered := (t, listed (sw_now w)) # sw_answered w\<rparr>)"
| sm_fail: "t \<in> set (sw_asked w) \<Longrightarrow> sitemap_step listed w (w\<lparr>sw_asked := remove1 t (sw_asked w)\<rparr>)"
| sm_land: "(t, slugs) \<in> set (sw_answered w) \<Longrightarrow>
    sitemap_step listed w (w\<lparr>sw_answered := remove1 (t, slugs) (sw_answered w), sw_cache := sitemap_land t slugs,
      sw_served := (t, slugs) # sw_served w\<rparr>)"

inductive_cases sitemap_stepE: "sitemap_step listed w w'"

definition sitemap_start :: "int \<Rightarrow> sitemap_world" where
  "sitemap_start t = \<lparr>sw_now = t, sw_cache = None, sw_asked = [], sw_answered = [], sw_served = []\<rparr>"

definition listed_since :: "(int \<Rightarrow> string list) \<Rightarrow> int \<Rightarrow> int \<Rightarrow> string list \<Rightarrow> bool" where
  "listed_since listed a b slugs \<longleftrightarrow> (\<exists>t. a \<le> t \<and> t \<le> b \<and> slugs = listed t)"

lemma listed_since_mono: "listed_since listed a b s \<Longrightarrow> a' \<le> a \<Longrightarrow> b \<le> b' \<Longrightarrow> listed_since listed a' b' s"
  by (auto simp: listed_since_def intro: order_trans)

definition sitemap_ok :: "(int \<Rightarrow> string list) \<Rightarrow> sitemap_world \<Rightarrow> bool" where
  "sitemap_ok listed w \<longleftrightarrow>
     (\<forall>c. sw_cache w = Some c \<longrightarrow> listed_since listed (sc_builtAt c) (sw_now w) (sc_slugs c)) \<and>
     (\<forall>t \<in> set (sw_asked w). t \<le> sw_now w) \<and>
     (\<forall>(t, slugs) \<in> set (sw_answered w). listed_since listed t (sw_now w) slugs) \<and>
     (\<forall>(t, slugs) \<in> set (sw_served w). listed_since listed (t - ONE_HOUR_MS + 1) (sw_now w) slugs)"

lemma sitemap_begin_cases:
  "sitemap_begin t cache = Inl u \<Longrightarrow> u = t"
  "sitemap_begin t cache = Inr slugs \<Longrightarrow> \<exists>c. cache = Some c \<and> t - ONE_HOUR_MS + 1 \<le> sc_builtAt c \<and> slugs = sc_slugs c"
  by (auto simp: sitemap_begin_def split: option.splits if_split_asm)

lemma sitemap_ok_step: "sitemap_step listed w w' \<Longrightarrow> sitemap_ok listed w \<Longrightarrow> sitemap_ok listed w'"
proof (induction rule: sitemap_step.induct)
  case (sm_tick d w)
  then have le: "sw_now w \<le> sw_now w + d" by simp
  show ?case using sm_tick listed_since_mono[OF _ order_refl le]
    unfolding sitemap_ok_def by (auto intro: order_trans[OF _ le])
next
  case (sm_hit w slugs)
  obtain c where "sw_cache w = Some c" "sw_now w - ONE_HOUR_MS + 1 \<le> sc_builtAt c" "slugs = sc_slugs c"
    using sitemap_begin_cases(2)[OF sm_hit(1)] by blast
  then have "listed_since listed (sw_now w - ONE_HOUR_MS + 1) (sw_now w) slugs"
    using sm_hit(2) listed_since_mono[OF _ _ order_refl] unfolding sitemap_ok_def by blast
  then show ?case using sm_hit(2) unfolding sitemap_ok_def by simp
next
  case (sm_miss w t)
  then show ?case using sitemap_begin_cases(1)[OF sm_miss(1)] unfolding sitemap_ok_def by simp
next
  case (sm_answer t w)
  then have "listed_since listed t (sw_now w) (listed (sw_now w))"
    unfolding sitemap_ok_def listed_since_def by blast
  then show ?case using sm_answer(2) unfolding sitemap_ok_def by (auto dest: notin_set_remove1)
next
  case (sm_fail t w)
  then show ?case unfolding sitemap_ok_def by (auto dest: notin_set_remove1)
next
  case (sm_land t slugs w)
  then have l: "listed_since listed t (sw_now w) slugs" unfolding sitemap_ok_def by blast
  then have "listed_since listed (t - ONE_HOUR_MS + 1) (sw_now w) slugs"
    by (rule listed_since_mono) (simp_all add: ONE_HOUR_MS_def)
  then show ?case using l sm_land(2) unfolding sitemap_ok_def by (auto simp: sitemap_land_def dest: notin_set_remove1)
qed

text \<open>C36. However many requests overlap and however late the answers of the server land, every sitemap that is
  served lists what the server listed as public at an instant less than an hour before the request: a page that
  was closed longer ago than that is in none.\<close>

theorem sitemap_lists_last_hour:
  assumes "(sitemap_step listed)\<^sup>*\<^sup>* (sitemap_start t0) w" "(t, slugs) \<in> set (sw_served w)"
  shows "\<exists>u. t - 60 * 60 * 1000 < u \<and> u \<le> sw_now w \<and> slugs = listed u"
proof -
  have "sitemap_ok listed w"
    using assms(1)
  proof induction
    case base
    show ?case by (simp add: sitemap_ok_def sitemap_start_def)
  next
    case (step y z)
    show ?case by (rule sitemap_ok_step[OF step(2,3)])
  qed
  then have "listed_since listed (t - ONE_HOUR_MS + 1) (sw_now w) slugs"
    using assms(2) unfolding sitemap_ok_def by blast
  then obtain u where u: "t - ONE_HOUR_MS + 1 \<le> u" "u \<le> sw_now w" "slugs = listed u"
    unfolding listed_since_def by blast
  from u(1) have "t - 60 * 60 * 1000 < u" by (simp add: ONE_HOUR_MS_def)
  with u(2,3) show ?thesis by blast
qed

definition demo_listed :: "int \<Rightarrow> string list" where
  "demo_listed t = (if t < 5 then [''open''] else [])"

lemma demo_sitemap_run:
  defines "c \<equiv> \<lparr>sc_slugs = [''open''], sc_builtAt = 0\<rparr>"
  shows "(sitemap_step demo_listed)\<^sup>*\<^sup>* (sitemap_start 0)
    \<lparr>sw_now = 3599999, sw_cache = Some c, sw_asked = [], sw_answered = [],
     sw_served = [(3599999, [''open'']), (0, [''open''])]\<rparr>"
proof -
  let ?w = "\<lambda>n k a d s. \<lparr>sw_now = n, sw_cache = k, sw_asked = a, sw_answered = d, sw_served = s\<rparr>"
  note step = rtranclp.rtrancl_into_rtrancl
  have "(sitemap_step demo_listed)\<^sup>*\<^sup>* (sitemap_start 0) (?w 0 None [] [] [])" by (simp add: sitemap_start_def)
  from step[OF this] have "(sitemap_step demo_listed)\<^sup>*\<^sup>* (sitemap_start 0) (?w 0 None [0] [] [])"
    using sm_miss[of "?w 0 None [] [] []" 0] by (simp add: sitemap_begin_def)
  from step[OF this] have "(sitemap_step demo_listed)\<^sup>*\<^sup>* (sitemap_start 0) (?w 0 None [] [(0, [''open''])] [])"
    using sm_answer[of 0 "?w 0 None [0] [] []" demo_listed] by (simp add: demo_listed_def)
  from step[OF this] have "(sitemap_step demo_listed)\<^sup>*\<^sup>* (sitemap_start 0) (?w 0 (Some c) [] [] [(0, [''open''])])"
    using sm_land[of 0 "[''open'']" "?w 0 None [] [(0, [''open''])] []"] by (simp add: sitemap_land_def c_def)
  from step[OF this] have "(sitemap_step demo_listed)\<^sup>*\<^sup>* (sitemap_start 0) (?w 3599999 (Some c) [] [] [(0, [''open''])])"
    using sm_tick[of 3599999 demo_listed "?w 0 (Some c) [] [] [(0, [''open''])]"] by simp
  from step[OF this] show ?thesis
    using sm_hit[of "?w 3599999 (Some c) [] [] [(0, [''open''])]" "[''open'']" demo_listed]
    by (simp add: sitemap_begin_def c_def ONE_HOUR_MS_def)
qed

theorem sitemap_lists_last_hour_witness:
  "\<exists>u. (3599999 :: int) - 60 * 60 * 1000 < u \<and> u \<le> 3599999 \<and> [''open''] = demo_listed u"
  using sitemap_lists_last_hour[OF demo_sitemap_run, of 3599999 "[''open'']"] by simp

section \<open>Cookies, paths and the demonstration clock\<close>

definition cookie_names :: "string \<Rightarrow> string list" where
  "cookie_names header =
     map (takeWhile (\<lambda>c. c \<noteq> CHR ''='')) (filter (\<lambda>pair. CHR ''='' \<in> set pair) (map trim (split_on '';'' header)))"

lemma named_pair:
  assumes "CHR ''='' \<notin> set name"
  shows "prefix (name @ ''='') pair \<longleftrightarrow> CHR ''='' \<in> set pair \<and> takeWhile (\<lambda>c. c \<noteq> CHR ''='') pair = name"
proof
  assume "prefix (name @ ''='') pair"
  then obtain r where "pair = name @ CHR ''='' # r" by (auto simp: prefix_def)
  then show "CHR ''='' \<in> set pair \<and> takeWhile (\<lambda>c. c \<noteq> CHR ''='') pair = name"
    using takeWhile_mark[OF assms] by simp
next
  assume r: "CHR ''='' \<in> set pair \<and> takeWhile (\<lambda>c. c \<noteq> CHR ''='') pair = name"
  then have "dropWhile (\<lambda>c. c \<noteq> CHR ''='') pair \<noteq> []" by (auto simp: dropWhile_eq_Nil_conv)
  then obtain d ds where d: "dropWhile (\<lambda>c. c \<noteq> CHR ''='') pair = d # ds" by (cases "dropWhile (\<lambda>c. c \<noteq> CHR ''='') pair") auto
  then have "d = CHR ''=''" using hd_dropWhile[of "\<lambda>c. c \<noteq> CHR ''=''" pair] by simp
  then have "pair = name @ CHR ''='' # ds"
    using takeWhile_dropWhile_id[of "\<lambda>c. c \<noteq> CHR ''=''" pair] r d by simp
  then show "prefix (name @ ''='') pair" by (simp add: prefix_def)
qed

text \<open>The session is seen exactly when a cookie of that very name is among the cookies of the request.\<close>

lemma session_by_name:
  "hasEntrantSession (Some header) \<longleftrightarrow> ENTRANT_SESSION_COOKIE \<in> set (cookie_names header)"
proof -
  have "CHR ''='' \<notin> set ENTRANT_SESSION_COOKIE" by (simp add: ENTRANT_SESSION_COOKIE_def)
  note named = named_pair[OF this]
  have "cookie_names [] = []" by (simp add: cookie_names_def split_on_def)
  then show ?thesis
    by (cases "header = []") (auto simp: hasEntrantSession_def cookie_names_def list_ex_iff named image_iff)
qed

lemma csrf_token_proves:
  "nonce \<noteq> [] \<Longrightarrow> mc_token (mintFormCsrf sha256 lower env nonce) = sha256 (FORM_CSRF_PREFIX @ nonce)"
  "map_of (mc_headers (mintFormCsrf sha256 lower env nonce)) ''Cache-Control'' = Some ''no-store''"
  "\<exists>rest. map_of (mc_headers (mintFormCsrf sha256 lower env nonce)) ''Set-Cookie'' =
     Some (PLAY_CSRF_COOKIE @ ''='' @ nonce @ ''; '' @ rest)"
  by (simp_all add: mintFormCsrf_def formCsrfToken_def Let_def)

text \<open>What the path check lets through: the public projections, with no parent step anywhere in the text.\<close>

lemma sublist_dots_Cons: "c \<noteq> CHR ''.'' \<Longrightarrow> sublist ''..'' (c # s) \<longleftrightarrow> sublist ''..'' s"
  by (auto simp: sublist_Cons_right)

lemma sublist_dots_mark: "sublist ''..'' (a @ CHR ''?'' # b) \<longleftrightarrow> sublist ''..'' a \<or> sublist ''..'' b"
proof (induction a)
  case (Cons c a)
  show ?case using Cons by (cases a) (auto simp: sublist_Cons_right)
qed (auto simp: sublist_Cons_right)

lemma split_on_mark:
  assumes "d \<notin> set a" "d \<notin> set b"
  shows "split_on [d] (a @ d # b) = [a, b]"
proof -
  have "split_acc [d] acc (a @ d # b) = [acc @ a, b]" for acc
    using assms split_on_none[of b d] by (induction a arbitrary: acc) (auto simp: split_on_def)
  then show ?thesis by (simp add: split_on_def)
qed

text \<open>The check of the two pieces is a check of the whole path.\<close>

lemma public_projection_iff:
  "public_projection path \<longleftrightarrow>
     prefix ''/e/api/'' path \<and> \<not> sublist ''..'' path \<and> CHR ''#'' \<notin> set path \<and>
     length (filter (\<lambda>c. c = CHR ''?'') path) \<le> 1"
proof (cases "CHR ''?'' \<in> set path")
  case False
  then have "split_on ''?'' path = [path]" by (intro split_on_none) auto
  moreover have "filter (\<lambda>c. c = CHR ''?'') path = []" using False by (auto simp: filter_empty_conv)
  ultimately show ?thesis by (auto simp: public_projection_def)
next
  case True
  then obtain a b where p: "path = a @ CHR ''?'' # b" "CHR ''?'' \<notin> set a" by (metis split_list_first)
  show ?thesis
  proof (cases "CHR ''?'' \<in> set b")
    case True
    then have "filter (\<lambda>c. c = CHR ''?'') b \<noteq> []" by (auto simp: filter_empty_conv)
    then have "length (filter (\<lambda>c. c = CHR ''?'') path) > 1" by (simp add: p(1))
    then show ?thesis by (auto simp: public_projection_def Let_def)
  next
    case False
    note pieces = split_on_mark[OF p(2) False, folded p(1)]
    have "filter (\<lambda>c. c = CHR ''?'') a = []" "filter (\<lambda>c. c = CHR ''?'') b = []"
      using p(2) False by (auto simp: filter_empty_conv)
    then have n: "length (filter (\<lambda>c. c = CHR ''?'') path) = 1" by (simp add: p(1))
    have "prefix ''/e/api/'' path \<longleftrightarrow> prefix ''/e/api/'' a"
    proof
      assume "prefix ''/e/api/'' path"
      then have "take 7 path = ''/e/api/''" by (auto simp: prefix_def)
      moreover have "7 \<le> length a"
      proof (rule ccontr)
        assume "\<not> 7 \<le> length a"
        then have "CHR ''?'' \<in> set (take 7 path)" by (cases "7 - length a") (auto simp: p(1))
        with \<open>take 7 path = _\<close> show False by simp
      qed
      ultimately have "take 7 a = ''/e/api/''" by (simp add: p(1))
      then show "prefix ''/e/api/'' a" by (metis take_is_prefix)
    qed (auto simp: p(1) prefix_def)
    then show ?thesis
      unfolding public_projection_def pieces Let_def n using sublist_dots_mark[of a b] by (auto simp: p(1))
  qed
qed

lemma api_answers:
  "\<not> public_projection path \<Longrightarrow> apiGet fetch env path = Inl (RejectedPath path)"
  "public_projection path \<Longrightarrow> apiBaseUrl env = Inr base \<Longrightarrow>
   fetch \<lparr>rq_url = base @ path, rq_headers = OUTBOUND_HEADERS\<rparr> = Some \<lparr>rs_status = s, rs_body = Some body\<rparr> \<Longrightarrow>
   apiGet fetch env path = (if 200 \<le> s \<and> s < 300 then Inr body else Inl (ApiError s (errorCode (Some body))))"
  "public_projection path \<Longrightarrow> apiBaseUrl env = Inr base \<Longrightarrow>
   fetch \<lparr>rq_url = base @ path, rq_headers = OUTBOUND_HEADERS\<rparr> = Some \<lparr>rs_status = s, rs_body = None\<rparr> \<Longrightarrow>
   apiGet fetch env path = Inl (ApiError s (if 200 \<le> s \<and> s < 300 then ''BAD_RESPONSE'' else ''UNKNOWN''))"
  by (simp_all add: apiGet_def errorCode_def js_field_def)

text \<open>A text without any offset passes the offset test when the host reads it as a date at all.\<close>

lemma demo_clock_without_offset:
  "date_parse ''12-09-2026'' = Some t \<Longrightarrow>
   parseDemoNow (\<lambda>s. s) date_parse (Some ''12-09-2026'') None = Inr (Some t)"
proof -
  have "offset_pattern (trim ''12-09-2026'')" "trim ''local'' = ''local''" by code_simp+
  then show "date_parse ''12-09-2026'' = Some t \<Longrightarrow> ?thesis" by (simp add: parseDemoNow_def)
qed

end
