(* ===== verification/Calendar.thy ===== *)
theory Calendar
  imports JsText
begin

text \<open>
  The UTC calendar of the language's \<open>Date\<close>, as the public pages use it: \<open>Date.UTC\<close> with its
  roll-over of months and its two-digit years, and the getters of year, month and day. Instants are
  milliseconds since 1970, days are counted from the same origin. The last part reads fixed-width
  decimal stamps.
\<close>

definition DAY_MS :: int where
  "DAY_MS = 86400000"

definition leap :: "int \<Rightarrow> bool" where
  "leap y \<longleftrightarrow> 4 dvd y \<and> (\<not> 100 dvd y \<or> 400 dvd y)"

text \<open>The day number of 1 January.\<close>

definition day_from_year :: "int \<Rightarrow> int" where
  "day_from_year y = 365 * (y - 1970) + (y - 1969) div 4 - (y - 1901) div 100 + (y - 1601) div 400"

text \<open>The days of a year before its month \<open>m\<close>, counted from 0.\<close>

definition month_start :: "bool \<Rightarrow> int \<Rightarrow> int" where
  "month_start lp m =
     [0, 31, 59, 90, 120, 151, 181, 212, 243, 273, 304, 334] ! nat m + (if lp \<and> m \<ge> 2 then 1 else 0)"

definition month_length :: "bool \<Rightarrow> int \<Rightarrow> int" where
  "month_length lp m =
     [31, 28, 31, 30, 31, 30, 31, 31, 30, 31, 30, 31] ! nat m + (if lp \<and> m = 1 then 1 else 0)"

definition make_day :: "int \<Rightarrow> int \<Rightarrow> int \<Rightarrow> int" where
  "make_day y m d =
     (let ym = y + m div 12; mn = m mod 12
      in day_from_year ym + month_start (leap ym) mn + d - 1)"

text \<open>\<open>Date.UTC\<close>: a year from 0 to 99 is one of the 1900s.\<close>

definition date_utc :: "int \<Rightarrow> int \<Rightarrow> int \<Rightarrow> int \<Rightarrow> int \<Rightarrow> int" where
  "date_utc y m d h mins =
     make_day (if 0 \<le> y \<and> y \<le> 99 then 1900 + y else y) m d * DAY_MS + h * 3600000 + mins * 60000"

section \<open>Years\<close>

lemma div_step:
  assumes "0 < (k :: int)"
  shows "(a + 1) div k = a div k + (if k dvd a + 1 then 1 else 0)"
proof -
  have r: "0 \<le> a mod k" "a mod k < k" using assms by simp_all
  have a: "a + 1 = k * (a div k) + (a mod k + 1)" by (simp add: algebra_simps)
  show ?thesis
  proof (cases "a mod k + 1 = k")
    case True
    then have "a + 1 = k * (a div k + 1)" using a by (simp add: algebra_simps)
    then show ?thesis using assms by simp
  next
    case False
    then have lt: "a mod k + 1 < k" using r by simp
    then have "(a + 1) div k = a div k" by (intro int_div_pos_eq[OF a]) (use r in simp_all)
    moreover have "(a + 1) mod k = a mod k + 1" by (intro int_mod_pos_eq[OF a]) (use r lt in simp_all)
    then have "\<not> k dvd a + 1" using r by (simp add: dvd_eq_mod_eq_0)
    ultimately show ?thesis by simp
  qed
qed

lemma day_from_year_step: "day_from_year (y + 1) = day_from_year y + (if leap y then 366 else 365)"
proof -
  have 4: "(y + 1 - 1969) div 4 = (y - 1969) div 4 + (if 4 dvd y then 1 else 0)"
    using div_step[of 4 "y - 1969"] dvd_add_left_iff[of 4 1968 "y - 1968"] by simp
  have 100: "(y + 1 - 1901) div 100 = (y - 1901) div 100 + (if 100 dvd y then 1 else 0)"
    using div_step[of 100 "y - 1901"] dvd_add_left_iff[of 100 1900 "y - 1900"] by simp
  have 400: "(y + 1 - 1601) div 400 = (y - 1601) div 400 + (if 400 dvd y then 1 else 0)"
    using div_step[of 400 "y - 1601"] dvd_add_left_iff[of 400 1600 "y - 1600"] by simp
  have "400 dvd y \<Longrightarrow> 100 dvd y" by (rule dvd_trans[of 100 400 y]) simp_all
  moreover have "100 dvd y \<Longrightarrow> 4 dvd y" by (rule dvd_trans[of 4 100 y]) simp_all
  moreover have "365 + (a + (if p then 1 else 0) - (b + (if q then 1 else 0)) + (c + (if r then 1 else 0))) =
      a - b + c + (if p \<and> (\<not> q \<or> r) then 366 else 365)"
    if "r \<Longrightarrow> q" "q \<Longrightarrow> p" for a b c :: int and p q r
    using that by (cases p; cases q; cases r) simp_all
  ultimately have "365 + ((y + 1 - 1969) div 4 - (y + 1 - 1901) div 100 + (y + 1 - 1601) div 400) =
      (y - 1969) div 4 - (y - 1901) div 100 + (y - 1601) div 400 + (if leap y then 366 else 365)"
    unfolding leap_def 4 100 400 by blast
  then show ?thesis unfolding day_from_year_def by (simp only: algebra_simps)
qed

lemma day_from_year_le: "y \<le> z \<Longrightarrow> day_from_year y + 365 * (z - y) \<le> day_from_year z"
proof (induction z rule: int_ge_induct)
  case (step z)
  then show ?case using day_from_year_step[of z] by (simp split: if_splits)
qed simp

lemma day_from_year_mono: "y \<le> z \<Longrightarrow> day_from_year y \<le> day_from_year z"
  using day_from_year_le[of y z] by simp

lemma day_from_year_upper: "y \<le> z \<Longrightarrow> day_from_year z \<le> day_from_year y + 366 * (z - y)"
proof (induction z rule: int_ge_induct)
  case (step z)
  then show ?case using day_from_year_step[of z] by (simp split: if_splits)
qed simp

text \<open>\<open>getUTCFullYear\<close>: the last year that has begun, searched upward from a lower bound.\<close>

function year_search :: "int \<Rightarrow> int \<Rightarrow> int" where
  "year_search y day = (if day_from_year (y + 1) \<le> day then year_search (y + 1) day else y)"
  by pat_completeness auto
termination
proof (relation "measure (\<lambda>(y, day). nat (day - day_from_year y))", goal_cases)
  case (2 y day)
  then show ?case using day_from_year_step[of y] by (auto split: if_splits)
qed simp

declare year_search.simps [simp del]

definition year_of_day :: "int \<Rightarrow> int" where
  "year_of_day day = year_search (1970 + (if day \<ge> 0 then day div 366 else day div 365)) day"

lemma year_search_bounds:
  "day_from_year y \<le> day \<Longrightarrow>
   day_from_year (year_search y day) \<le> day \<and> day < day_from_year (year_search y day + 1)"
  by (induction y day rule: year_search.induct) (subst (1 2) year_search.simps, auto)

lemma day_from_1970: "day_from_year 1970 = 0"
  by (simp add: day_from_year_def)

lemma year_of_day_bounds:
  "day_from_year (year_of_day day) \<le> day \<and> day < day_from_year (year_of_day day + 1)"
proof -
  let ?q = "if day \<ge> 0 then day div 366 else day div 365"
  have "day_from_year (1970 + ?q) \<le> day"
  proof (cases "day \<ge> 0")
    case True
    then have "day_from_year (1970 + ?q) \<le> 366 * (day div 366)"
      using day_from_year_upper[of 1970 "1970 + day div 366"] by (simp add: day_from_1970)
    also have "\<dots> \<le> day" using mult_div_mod_eq[of 366 day] pos_mod_sign[of 366 day] by linarith
    finally show ?thesis .
  next
    case False
    then have "day div 365 \<le> 0" by (simp add: div_nonpos_pos_le0)
    then have "day_from_year (1970 + ?q) \<le> 365 * (day div 365)"
      using False day_from_year_le[of "1970 + day div 365" 1970] by (simp add: day_from_1970)
    also have "\<dots> \<le> day" using mult_div_mod_eq[of 365 day] pos_mod_sign[of 365 day] by linarith
    finally show ?thesis .
  qed
  then show ?thesis unfolding year_of_day_def by (rule year_search_bounds)
qed

lemma year_of_day_eq:
  assumes "day_from_year y \<le> day" "day < day_from_year (y + 1)"
  shows "year_of_day day = y"
proof (rule antisym)
  let ?z = "year_of_day day"
  show "?z \<le> y" using year_of_day_bounds[of day] assms day_from_year_mono[of "y + 1" ?z]
    by linarith
  show "y \<le> ?z" using year_of_day_bounds[of day] assms day_from_year_mono[of "?z + 1" y]
    by linarith
qed

section \<open>Months\<close>

definition day_in_year :: "int \<Rightarrow> int" where
  "day_in_year day = day - day_from_year (year_of_day day)"

definition month_of_day :: "int \<Rightarrow> int" where
  "month_of_day day =
     int (length (filter (\<lambda>m. month_start (leap (year_of_day day)) m \<le> day_in_year day) [1..11]))"

definition date_of_day :: "int \<Rightarrow> int" where
  "date_of_day day =
     day_in_year day - month_start (leap (year_of_day day)) (month_of_day day) + 1"

text \<open>A date that exists; months count from 0.\<close>

definition real_date :: "int \<Rightarrow> int \<Rightarrow> int \<Rightarrow> bool" where
  "real_date y m d \<longleftrightarrow> 0 \<le> m \<and> m \<le> 11 \<and> 1 \<le> d \<and> d \<le> month_length (leap y) m"

lemma months: "0 \<le> m \<and> m \<le> 11 \<longleftrightarrow> (m :: int) \<in> {0, 1, 2, 3, 4, 5, 6, 7, 8, 9, 10, 11}"
  by simp arith

lemma upto_months: "[1..11] = [1, 2, 3, 4, 5, 6, 7, 8, 9, 10, 11 :: int]"
  by (simp add: upto.simps)

text \<open>The getters find the month and day that a day of the year was made of, and only such.\<close>

lemma month_count:
  assumes "0 \<le> m" "m \<le> 11" "1 \<le> d" "d \<le> month_length lp m"
  shows "int (length (filter (\<lambda>k. month_start lp k \<le> month_start lp m + d - 1) [1..11])) = m"
proof -
  have "m \<in> {0, 1, 2, 3, 4, 5, 6, 7, 8, 9, 10, 11}" using assms(1,2) months by blast
  then consider "m = 0" | "m = 1" | "m = 2" | "m = 3" | "m = 4" | "m = 5" | "m = 6" | "m = 7"
    | "m = 8" | "m = 9" | "m = 10" | "m = 11" by blast
  then show ?thesis using assms(3,4)
    by cases (cases lp; simp add: upto_months month_start_def month_length_def)+
qed

lemma month_end:
  assumes "0 \<le> m" "m \<le> 11"
  shows "month_start lp m + month_length lp m \<le> (if lp then 366 else 365)" "0 \<le> month_start lp m"
proof -
  have "m \<in> {0, 1, 2, 3, 4, 5, 6, 7, 8, 9, 10, 11}" using assms months by blast
  then show "month_start lp m + month_length lp m \<le> (if lp then 366 else 365)" "0 \<le> month_start lp m"
    by (auto simp: month_start_def month_length_def)
qed

lemma getters_of_make_day:
  assumes "real_date y m d"
  shows "year_of_day (make_day y m d) = y" "month_of_day (make_day y m d) = m"
    "date_of_day (make_day y m d) = d"
proof -
  have m: "0 \<le> m" "m \<le> 11" "1 \<le> d" "d \<le> month_length (leap y) m"
    using assms by (auto simp: real_date_def)
  have day: "make_day y m d = day_from_year y + (month_start (leap y) m + d - 1)"
    using m by (simp add: make_day_def Let_def)
  have "0 \<le> month_start (leap y) m + d - 1" "month_start (leap y) m + d - 1 < day_from_year (y + 1) - day_from_year y"
    using m month_end[OF m(1,2), of "leap y"] day_from_year_step[of y] by simp_all
  then show y: "year_of_day (make_day y m d) = y"
    unfolding day by (intro year_of_day_eq) simp_all
  have diy: "day_in_year (make_day y m d) = month_start (leap y) m + d - 1"
    unfolding day_in_year_def y by (simp add: day)
  show mo: "month_of_day (make_day y m d) = m"
    unfolding month_of_day_def diy y by (rule month_count[OF m])
  show "date_of_day (make_day y m d) = d"
    by (simp add: date_of_day_def diy y mo)
qed

lemma some_month:
  assumes "0 \<le> x" "x < (if lp then 366 else 365)"
  obtains m where "0 \<le> m" "m \<le> 11" "month_start lp m \<le> x" "x < month_start lp m + month_length lp m"
proof (rule ccontr)
  note found = that
  assume no: "\<not> thesis"
  have step: "month_start lp m \<le> x \<Longrightarrow> month_start lp m + month_length lp m \<le> x"
    if "0 \<le> m" "m \<le> 11" for m
    using found[OF that] no by force
  show False
    using step[of 0] step[of 1] step[of 2] step[of 3] step[of 4] step[of 5] step[of 6] step[of 7]
      step[of 8] step[of 9] step[of 10] step[of 11] assms
    by (cases lp) (simp_all add: month_start_def month_length_def)
qed

lemma make_day_of_getters:
  "real_date (year_of_day day) (month_of_day day) (date_of_day day)"
  "make_day (year_of_day day) (month_of_day day) (date_of_day day) = day"
proof -
  let ?y = "year_of_day day"
  have "0 \<le> day_in_year day" "day_in_year day < (if leap ?y then 366 else 365)"
    using year_of_day_bounds[of day] day_from_year_step[of ?y]
    by (auto simp: day_in_year_def split: if_splits)
  then obtain m where m: "0 \<le> m" "m \<le> 11" "month_start (leap ?y) m \<le> day_in_year day"
    "day_in_year day < month_start (leap ?y) m + month_length (leap ?y) m"
    by (rule some_month)
  let ?d = "day_in_year day - month_start (leap ?y) m + 1"
  have real: "real_date ?y m ?d" using m by (simp add: real_date_def)
  have day: "make_day ?y m ?d = day" using m by (simp add: make_day_def Let_def day_in_year_def)
  have "month_of_day day = m" "date_of_day day = ?d"
    using getters_of_make_day(2,3)[OF real] unfolding day by simp_all
  then show "real_date ?y (month_of_day day) (date_of_day day)"
    "make_day ?y (month_of_day day) (date_of_day day) = day"
    using real day by simp_all
qed

section \<open>Getters of an instant\<close>

definition utc_day :: "int \<Rightarrow> int" where
  "utc_day ms = ms div DAY_MS"

definition utc_year :: "int \<Rightarrow> int" where
  "utc_year ms = year_of_day (utc_day ms)"

definition utc_month :: "int \<Rightarrow> int" where
  "utc_month ms = month_of_day (utc_day ms)"

definition utc_date :: "int \<Rightarrow> int" where
  "utc_date ms = date_of_day (utc_day ms)"

definition utc_hours :: "int \<Rightarrow> int" where
  "utc_hours ms = ms div 3600000 mod 24"

definition utc_minutes :: "int \<Rightarrow> int" where
  "utc_minutes ms = ms div 60000 mod 60"

lemma clock_of_day:
  assumes "0 \<le> h" "h \<le> 23" "0 \<le> mins" "mins \<le> 59"
  shows "utc_day (n * DAY_MS + h * 3600000 + mins * 60000) = n"
    "utc_hours (n * DAY_MS + h * 3600000 + mins * 60000) = h"
    "utc_minutes (n * DAY_MS + h * 3600000 + mins * 60000) = mins"
proof -
  let ?ms = "n * DAY_MS + h * 3600000 + mins * 60000"
  show "utc_day ?ms = n" unfolding utc_day_def
    by (rule int_div_pos_eq[where r = "h * 3600000 + mins * 60000"]) (use assms in \<open>simp_all add: DAY_MS_def\<close>)
  have "?ms div 3600000 = 24 * n + h"
    by (rule int_div_pos_eq[where r = "mins * 60000"]) (use assms in \<open>simp_all add: DAY_MS_def\<close>)
  then show "utc_hours ?ms = h" using assms by (simp add: utc_hours_def)
  have "?ms div 60000 = 60 * (24 * n + h) + mins"
    by (rule int_div_pos_eq[where r = 0]) (use assms in \<open>simp_all add: DAY_MS_def\<close>)
  then show "utc_minutes ?ms = mins" using assms unfolding utc_minutes_def by (simp only: mod_mult_self4) simp
qed

text \<open>
  The round-trip test of the stamp readers: the getters give back the fields exactly when the date
  and the time of day exist and the year is not one of 0 to 99.
\<close>

lemma fields_give_back:
  assumes "0 \<le> y" "0 \<le> h" "0 \<le> mins"
  shows "utc_year (date_utc y m d h mins) = y \<and> utc_month (date_utc y m d h mins) = m \<and>
      utc_date (date_utc y m d h mins) = d \<and> utc_hours (date_utc y m d h mins) = h \<and>
      utc_minutes (date_utc y m d h mins) = mins \<longleftrightarrow>
    real_date y m d \<and> 99 < y \<and> h \<le> 23 \<and> mins \<le> 59"
proof
  assume kept: "utc_year (date_utc y m d h mins) = y \<and> utc_month (date_utc y m d h mins) = m \<and>
      utc_date (date_utc y m d h mins) = d \<and> utc_hours (date_utc y m d h mins) = h \<and>
      utc_minutes (date_utc y m d h mins) = mins"
  have clock: "h \<le> 23" "mins \<le> 59"
    using kept pos_mod_bound[of 24 "date_utc y m d h mins div 3600000"]
      pos_mod_bound[of 60 "date_utc y m d h mins div 60000"]
    by (simp_all add: utc_hours_def utc_minutes_def)
  have real: "real_date y m d"
    using make_day_of_getters(1)[of "utc_day (date_utc y m d h mins)"] kept
    by (simp add: utc_year_def utc_month_def utc_date_def)
  have "99 < y"
  proof (rule ccontr)
    assume "\<not> 99 < y"
    then have "utc_day (date_utc y m d h mins) = make_day (1900 + y) m d"
      using clock assms clock_of_day(1)[of h mins] by (simp add: date_utc_def)
    moreover have "day_from_year (1900 + y) \<le> make_day (1900 + y) m d"
      using real month_end(2)[of m "leap (1900 + y)"] by (simp add: real_date_def make_day_def Let_def)
    ultimately have "day_from_year (1900 + y) < day_from_year (y + 1)"
      using year_of_day_bounds[of "make_day (1900 + y) m d"] kept by (simp add: utc_year_def)
    then show False using day_from_year_mono[of "y + 1" "1900 + y"] by simp
  qed
  then show "real_date y m d \<and> 99 < y \<and> h \<le> 23 \<and> mins \<le> 59" using real clock by simp
next
  assume ok: "real_date y m d \<and> 99 < y \<and> h \<le> 23 \<and> mins \<le> 59"
  then have "date_utc y m d h mins = make_day y m d * DAY_MS + h * 3600000 + mins * 60000"
    by (simp add: date_utc_def)
  then show "utc_year (date_utc y m d h mins) = y \<and> utc_month (date_utc y m d h mins) = m \<and>
      utc_date (date_utc y m d h mins) = d \<and> utc_hours (date_utc y m d h mins) = h \<and>
      utc_minutes (date_utc y m d h mins) = mins"
    using clock_of_day[of h mins "make_day y m d"] getters_of_make_day[of y m d] ok assms
    by (simp add: utc_year_def utc_month_def utc_date_def)
qed

section \<open>Fixed-width stamps\<close>

text \<open>A regular expression of digits (\<open>None\<close>) and literal characters, matched against a whole text.\<close>

fun fits :: "char option list \<Rightarrow> string \<Rightarrow> bool" where
  "fits [] s \<longleftrightarrow> s = []"
| "fits (p # ps) [] \<longleftrightarrow> False"
| "fits (p # ps) (c # cs) \<longleftrightarrow> (case p of None \<Rightarrow> is_digit c | Some x \<Rightarrow> c = x) \<and> fits ps cs"

fun fixed_text :: "nat \<Rightarrow> nat \<Rightarrow> string" where
  "fixed_text 0 n = []"
| "fixed_text (Suc k) n = fixed_text k (n div 10) @ [digit_char (n mod 10)]"

lemma length_fixed_text [simp]: "length (fixed_text k n) = k"
  by (induction k arbitrary: n) simp_all

lemma digits_fixed_text [simp]: "list_all is_digit (fixed_text k n)"
  by (induction k arbitrary: n) (simp_all add: digit_char_is_digit)

lemma parse_fixed_text: "n < 10 ^ k \<Longrightarrow> parse_nat (fixed_text k n) = n"
proof (induction k arbitrary: n)
  case (Suc k)
  then have "n div 10 < 10 ^ k" by (simp add: less_mult_imp_div_less mult.commute)
  then show ?case using Suc.IH by (simp add: parse_nat_snoc digit_val_char)
qed (simp add: parse_nat_def)

lemma fixed_text_parse:
  "list_all is_digit s \<Longrightarrow> fixed_text (length s) (parse_nat s) = s \<and> parse_nat s < 10 ^ length s"
proof (induction s rule: rev_induct)
  case (snoc c s)
  then have c: "is_digit c" and s: "list_all is_digit s" by simp_all
  have "digit_val c < 10" by (rule digit_val_less[OF c])
  then show ?case using snoc.IH[OF s] c by (simp add: parse_nat_snoc digit_char_val)
qed (simp add: parse_nat_def)

lemma fits_digits:
  "fits (replicate n None @ ps) s \<longleftrightarrow>
     (\<exists>a r. s = a @ r \<and> length a = n \<and> list_all is_digit a \<and> fits ps r)"
proof (induction n arbitrary: s)
  case (Suc n)
  show ?case
  proof (cases s)
    case (Cons c cs)
    have "(\<exists>a r. c # cs = a @ r \<and> length a = Suc n \<and> list_all is_digit a \<and> fits ps r) \<longleftrightarrow>
        is_digit c \<and> (\<exists>a r. cs = a @ r \<and> length a = n \<and> list_all is_digit a \<and> fits ps r)"
      (is "?l \<longleftrightarrow> ?r")
    proof
      assume ?l
      then obtain a r where ar: "c # cs = a @ r" "length a = Suc n" "list_all is_digit a" "fits ps r" by blast
      then obtain b where "a = c # b" "cs = b @ r" by (cases a) auto
      then show ?r using ar by auto
    next
      assume ?r
      then obtain a r where "is_digit c" "cs = a @ r" "length a = n" "list_all is_digit a" "fits ps r" by blast
      then show ?l by (intro exI[of _ "c # a"] exI[of _ r]) simp
    qed
    then show ?thesis using Suc.IH[of cs] by (simp add: Cons)
  qed simp
qed simp

lemma fits_literal: "fits (Some c # ps) s \<longleftrightarrow> (\<exists>r. s = c # r \<and> fits ps r)"
  by (cases s) auto

text \<open>A stamp that fits begins with the zero-padded numeral of the number it is read as.\<close>

lemma fits_number:
  "fits (replicate n None @ ps) s \<longleftrightarrow> (\<exists>k r. k < 10 ^ n \<and> s = fixed_text n k @ r \<and> fits ps r)"
proof
  assume "fits (replicate n None @ ps) s"
  then obtain a r where a: "s = a @ r" "length a = n" "list_all is_digit a" "fits ps r"
    by (auto simp: fits_digits)
  then show "\<exists>k r. k < 10 ^ n \<and> s = fixed_text n k @ r \<and> fits ps r"
    using fixed_text_parse[OF a(3)] by (intro exI[of _ "parse_nat a"] exI[of _ r]) simp
next
  assume "\<exists>k r. k < 10 ^ n \<and> s = fixed_text n k @ r \<and> fits ps r"
  then obtain k r where "s = fixed_text n k @ r" "fits ps r" by blast
  then show "fits (replicate n None @ ps) s"
    by (subst fits_digits) (intro exI[of _ "fixed_text n k"] exI[of _ r], simp)
qed

lemma fits_number_end: "fits (replicate n None) s \<longleftrightarrow> (\<exists>k. k < 10 ^ n \<and> s = fixed_text n k)"
  using fits_number[of n "[]" s] by simp

end
