(* ===== verification/EntrantForm.thy ===== *)
theory EntrantForm
  imports JsText
begin

text \<open>
  \<open>apps/entrant/app/lib/echo.ts\<close>: the entry form read back from the query string of its own page.
  A link is writable by anybody, so what matters is which of its text can reach the page as prose,
  and that every ticked box goes to the player block it was ticked in.
\<close>

record player_echo =
  pl_name :: string
  pl_gender :: string
  pl_club :: string
  pl_representation :: "string option"
  pl_birthYear :: string
  pl_remarks :: string
  pl_events :: "string list"
  pl_partners :: "(string, string) dict option"

record form_echo =
  fe_players :: "player_echo list"
  fe_showAllEvents :: bool
  fe_totalCents :: "int option"
  fe_reviewedQuote :: "string option"
  fe_refusal :: "string option"

definition REFUSAL_UNKNOWN :: string where
  "REFUSAL_UNKNOWN = ''This selection cannot be entered as it stands. Check the limits stated above, then press \"Update events and total\" again.''"

definition refusalCopy :: "string \<Rightarrow> string" where
  "refusalCopy code =
     (if code = ''NOT_SIGNED_IN'' then
        ''You need an entrant account to submit an entry, and this browser is not signed in to one. Nothing was recorded. Sign in, then submit again.''
      else if code = ''MAX_EVENTS_PER_PERSON'' then
        ''That is more events than this tournament allows for one player. Remove some, then update the total again.''
      else if code = ''DISCIPLINE_CAP'' then
        ''That is more events in one discipline than this tournament allows for one player. The per-discipline limits are stated on this page. Remove some, then update the total again.''
      else REFUSAL_UNKNOWN)"

definition refusalText :: "string option \<Rightarrow> string option \<Rightarrow> string option" where
  "refusalText code subjects =
     (case code of
        None \<Rightarrow> None
      | Some c \<Rightarrow>
          if trim c = [] then None
          else
            let copy = refusalCopy c;
                players = map (\<lambda>raw. ''Player '' @ nat_text (parse_nat raw + 1))
                  (filter all_digits (split_on '','' (or_else subjects [])))
            in Some (if players = [] then copy else join_with '', '' players @ '': '' @ copy))"

definition readCents :: "string option \<Rightarrow> int option" where
  "readCents raw =
     (case raw of
        None \<Rightarrow> None
      | Some r \<Rightarrow>
          if trim r = [] then None
          else case js_integer r of
              Some parsed \<Rightarrow> if parsed \<ge> 0 then Some parsed else None
            | None \<Rightarrow> None)"

text \<open>
  \<open>value.slice(0, value.indexOf(':'))\<close>. Without a colon the index is -1 and the slice drops the
  last character (its whole byte sequence; of one outside the basic plane half stays, so that the
  rest is never a numeral).
\<close>

definition continuation_byte :: "char \<Rightarrow> bool" where
  "continuation_byte c \<longleftrightarrow> 128 \<le> (of_char c :: nat) \<and> (of_char c :: nat) < 192"

definition drop_last_char :: "string \<Rightarrow> string" where
  "drop_last_char s =
     (let tails = takeWhile continuation_byte (rev s)
      in if length tails \<ge> 3 then butlast s else rev (drop (length tails + 1) (rev s)))"

definition before_colon :: "string \<Rightarrow> string" where
  "before_colon s = (if CHR '':'' \<in> set s then takeWhile (\<lambda>c. c \<noteq> CHR '':'') s else drop_last_char s)"

text \<open>\<open>value.slice(value.indexOf(':') + 1)\<close>: the whole text when there is no colon.\<close>

definition after_colon :: "string \<Rightarrow> string" where
  "after_colon s = (if CHR '':'' \<in> set s then tl (dropWhile (\<lambda>c. c \<noteq> CHR '':'') s) else s)"

text \<open>Writing \<open>__proto__\<close> of a plain object with a text has no effect.\<close>

definition partnersFor :: "url_params \<Rightarrow> nat \<Rightarrow> (string, string) dict" where
  "partnersFor params index =
     (let wanted = ''partner:'' @ nat_text index @ '':''
      in fold (\<lambda>(key, v) out.
           if \<not> prefix wanted key then out
           else let eventId = drop (length wanted) key
                in if eventId \<noteq> [] \<and> v \<noteq> [] \<and> eventId \<noteq> ''__proto__''
                   then AList.update eventId v out else out) params [])"

definition nth_or_empty :: "string list \<Rightarrow> nat \<Rightarrow> string" where
  "nth_or_empty xs i = (if i < length xs then xs ! i else [])"

definition hex64 :: "string \<Rightarrow> bool" where
  "hex64 s \<longleftrightarrow> length s = 64 \<and>
     list_all (\<lambda>c. is_digit c \<or> (97 \<le> (of_char c :: nat) \<and> (of_char c :: nat) \<le> 102)) s"

definition player_block :: "url_params \<Rightarrow> string \<times> nat \<Rightarrow> player_echo" where
  "player_block params = (\<lambda>(name, index).
     \<lparr>pl_name = name,
      pl_gender = nth_or_empty (param_all params ''gender'') index,
      pl_club = nth_or_empty (param_all params ''club'') index,
      pl_representation = Some (nth_or_empty (param_all params ''representation'') index),
      pl_birthYear = nth_or_empty (param_all params ''birthYear'') index,
      pl_remarks = nth_or_empty (param_all params ''remarks'') index,
      pl_events = filter (\<lambda>v. before_colon v = nat_text index) (param_all params ''events''),
      pl_partners = Some (partnersFor params index)\<rparr>)"

definition parseEcho :: "url_params \<Rightarrow> form_echo" where
  "parseEcho params =
     (let names = param_all params ''playerName''
      in \<lparr>fe_players = map (player_block params) (zip names [0..<length names]),
          fe_showAllEvents = (param_get params ''showAllEvents'' \<noteq> None),
          fe_totalCents = readCents (param_get params ''totalCents''),
          fe_reviewedQuote =
            (let quote = or_else (param_get params ''reviewedQuote'') []
             in Some (if hex64 quote then quote else [])),
          fe_refusal = refusalText (param_get params ''refusalCode'') (param_get params ''refusalSubjects'')\<rparr>)"

text \<open>Of \<open>EntryEventDTO\<close>, what the filter reads; \<open>lower\<close> is \<open>toLowerCase\<close>.\<close>

record entry_event =
  ee_id :: string
  ee_genderConstraint :: "string option"

definition narrowEvents ::
  "(string \<Rightarrow> string) \<Rightarrow> entry_event list \<Rightarrow> string \<Rightarrow> string list \<Rightarrow> bool \<Rightarrow> entry_event list" where
  "narrowEvents lower events gender chosen showAll =
     (if showAll \<or> trim gender = [] then events
      else
        let folded = lower (trim gender); ticked = map after_colon chosen
        in filter (\<lambda>event.
             ee_id event \<in> set ticked \<or>
             (case ee_genderConstraint event of
                None \<Rightarrow> True
              | Some constraint \<Rightarrow> lower constraint = ''mixed'' \<or> lower constraint = folded)) events)"

section \<open>Facts\<close>

lemma before_colon_numeral: "before_colon (nat_text i @ CHR '':'' # e) = nat_text i"
proof -
  have "c \<noteq> CHR '':''" if "c \<in> set (nat_text i)" for c
    using nat_text_digits[of i] that by (auto simp: is_digit_def)
  then have "takeWhile (\<lambda>c. c \<noteq> CHR '':'') (nat_text i @ CHR '':'' # e) = nat_text i" by (simp add: takeWhile_append2)
  then show ?thesis by (simp add: before_colon_def)
qed

lemma after_colon_numeral: "after_colon (nat_text i @ CHR '':'' # e) = e"
proof -
  have "c \<noteq> CHR '':''" if "c \<in> set (nat_text i)" for c
    using nat_text_digits[of i] that by (auto simp: is_digit_def)
  then have "dropWhile (\<lambda>c. c \<noteq> CHR '':'') (nat_text i @ CHR '':'' # e) = CHR '':'' # e" by (simp add: dropWhile_append2)
  then show ?thesis by (simp add: after_colon_def)
qed

lemma player_block_events:
  "i < length (fe_players (parseEcho ps)) \<Longrightarrow>
   pl_events (fe_players (parseEcho ps) ! i) =
     filter (\<lambda>v. before_colon v = nat_text i) (param_all ps ''events'')"
  by (simp add: parseEcho_def Let_def player_block_def)

text \<open>A posted value with no colon at all is taken for one of the player its text without the last
  character names.\<close>

lemma bare_value_misread: "before_colon ''12'' = ''1''"
  by (simp add: before_colon_def drop_last_char_def continuation_byte_def)

section \<open>Properties\<close>

text \<open>Nothing a link says reaches the page as prose in a refusal: the sentence is one of the four
  fixed ones, preceded at most by a list of player numbers.\<close>

theorem refusal_is_fixed_copy:
  assumes "fe_refusal (parseEcho ps) = Some shown"
  shows "\<exists>copy ns. copy \<in> {refusalCopy ''NOT_SIGNED_IN'', refusalCopy ''MAX_EVENTS_PER_PERSON'',
       refusalCopy ''DISCIPLINE_CAP'', REFUSAL_UNKNOWN} \<and>
     shown = (if ns = [] then copy
       else join_with '', '' (map (\<lambda>n. ''Player '' @ nat_text (n + 1)) ns) @ '': '' @ copy)"
proof -
  obtain code where code: "param_get ps ''refusalCode'' = Some code" "trim code \<noteq> []"
    using assms by (auto simp: parseEcho_def Let_def refusalText_def split: option.splits if_splits)
  let ?ns = "map parse_nat (filter all_digits (split_on '','' (or_else (param_get ps ''refusalSubjects'') [])))"
  have "shown = (if ?ns = [] then refusalCopy code
      else join_with '', '' (map (\<lambda>n. ''Player '' @ nat_text (n + 1)) ?ns) @ '': '' @ refusalCopy code)"
    using assms code by (auto simp: parseEcho_def Let_def refusalText_def comp_def split: if_splits)
  moreover have "refusalCopy code \<in> {refusalCopy ''NOT_SIGNED_IN'', refusalCopy ''MAX_EVENTS_PER_PERSON'',
       refusalCopy ''DISCIPLINE_CAP'', REFUSAL_UNKNOWN}"
    by (auto simp: refusalCopy_def)
  ultimately show ?thesis by (intro exI conjI)
qed

theorem refusal_is_fixed_copy_witness:
  "\<exists>copy ns. copy \<in> {refusalCopy ''NOT_SIGNED_IN'', refusalCopy ''MAX_EVENTS_PER_PERSON'',
       refusalCopy ''DISCIPLINE_CAP'', REFUSAL_UNKNOWN} \<and>
     or_else (fe_refusal (parseEcho [(''refusalCode'', ''pay here'')])) [] = (if ns = [] then copy
       else join_with '', '' (map (\<lambda>n. ''Player '' @ nat_text (n + 1)) ns) @ '': '' @ copy)"
proof -
  have e: "fe_refusal (parseEcho [(''refusalCode'', ''pay here'')]) = Some REFUSAL_UNKNOWN"
    by (simp add: parseEcho_def Let_def refusalText_def param_get_def refusalCopy_def split_on_def
        all_digits_def trim_def js_space_def)
  show ?thesis using refusal_is_fixed_copy[OF e] by (simp only: e or_else.simps)
qed

text \<open>A ticked box belongs to the player block it was ticked in and to no other: the value
  \<open>i:event\<close> is among the events of block \<open>i\<close> (also when \<open>i\<close> is a prefix of another index), no
  value is in two blocks, and the gender filter never hides an event that was ticked.\<close>

theorem box_belongs_to_one_block:
  assumes "v \<in> set (param_all ps ''events'')" "i < length (fe_players (parseEcho ps))"
  shows "(v = nat_text i @ CHR '':'' # e \<longrightarrow>
      v \<in> set (pl_events (fe_players (parseEcho ps) ! i)) \<and>
      (\<forall>ev \<in> set evs. ee_id ev = e \<longrightarrow>
         ev \<in> set (narrowEvents lower evs g (pl_events (fe_players (parseEcho ps) ! i)) a))) \<and>
     (\<forall>j < length (fe_players (parseEcho ps)).
        v \<in> set (pl_events (fe_players (parseEcho ps) ! i)) \<and>
        v \<in> set (pl_events (fe_players (parseEcho ps) ! j)) \<longrightarrow> i = j)"
proof (intro conjI impI allI ballI)
  assume v: "v = nat_text i @ CHR '':'' # e"
  then show mem: "v \<in> set (pl_events (fe_players (parseEcho ps) ! i))"
    using assms by (simp add: player_block_events before_colon_numeral)
  fix ev assume ev: "ev \<in> set evs" "ee_id ev = e"
  have "e \<in> set (map after_colon (pl_events (fe_players (parseEcho ps) ! i)))"
    using mem v after_colon_numeral[of i e] by (metis image_eqI list.set_map)
  then show "ev \<in> set (narrowEvents lower evs g (pl_events (fe_players (parseEcho ps) ! i)) a)"
    using ev by (auto simp: narrowEvents_def Let_def)
next
  fix j assume "j < length (fe_players (parseEcho ps))"
    and "v \<in> set (pl_events (fe_players (parseEcho ps) ! i)) \<and>
      v \<in> set (pl_events (fe_players (parseEcho ps) ! j))"
  then show "i = j" using assms(2) by (auto simp: player_block_events intro: nat_text_inject)
qed

theorem box_belongs_to_one_block_witness:
  "nat_text 1 @ '':ev'' \<in> set (pl_events (fe_players (parseEcho
     [(''playerName'', ''A''), (''playerName'', ''B''), (''events'', nat_text 1 @ '':ev'')]) ! 1))"
proof -
  let ?ps = "[(''playerName'', ''A''), (''playerName'', ''B''), (''events'', nat_text 1 @ '':ev'')]"
  have "nat_text 1 @ '':ev'' \<in> set (param_all ?ps ''events'')" by (simp add: param_all_def)
  moreover have "1 < length (fe_players (parseEcho ?ps))" by (simp add: parseEcho_def Let_def param_all_def)
  ultimately show ?thesis using box_belongs_to_one_block[of "nat_text 1 @ '':ev''" ?ps 1 "''ev''"] by blast
qed

end
