(* ===== verification/EntrantPhase.thy ===== *)
theory EntrantPhase
  imports Calendar MatchIdentity EntrantForm "HOL-Library.Multiset"
begin

text \<open>
  \<open>apps/entrant/app/lib/phase.ts\<close>, what the public pages decide: the phase, chip, tabs and timeline
  of a tournament page and the season calendar with its search, slices, months and pages. Every
  function takes the current instant as an argument. What the host's text functions do to letters
  outside the model (lower case, collation) is the parameter \<open>text_host\<close>.
\<close>

section \<open>Phase and stamps\<close>

datatype tournament_phase =
    PhAnnounced | PhEntriesOpen | PhEntriesClosed | PhDrawsPublished | PhLive | PhComplete | PhArchived

definition phaseLabel :: "tournament_phase \<Rightarrow> string" where
  "phaseLabel phase =
     (case phase of
        PhAnnounced \<Rightarrow> ''Announced'' | PhEntriesOpen \<Rightarrow> ''Entries open''
      | PhEntriesClosed \<Rightarrow> ''Entries closed'' | PhDrawsPublished \<Rightarrow> ''Draws published''
      | PhLive \<Rightarrow> ''Live now'' | PhComplete \<Rightarrow> ''Complete'' | PhArchived \<Rightarrow> ''Archived'')"

text \<open>A value that is no text is \<open>None\<close>.\<close>

definition normalizeTournamentPhase :: "string option \<Rightarrow> tournament_phase option" where
  "normalizeTournamentPhase value =
     (case value of
        None \<Rightarrow> None
      | Some v \<Rightarrow>
          if v = ''in_progress_live'' then Some PhLive
          else if v = ''in_progress'' then Some PhDrawsPublished
          else if v = ''completed_winners'' then Some PhComplete
          else map_of [(''announced'', PhAnnounced), (''entries_open'', PhEntriesOpen),
            (''entries_closed'', PhEntriesClosed), (''draws_published'', PhDrawsPublished),
            (''live'', PhLive), (''complete'', PhComplete), (''archived'', PhArchived)] v)"

record publication =
  pb_entrants :: bool
  pb_draws :: bool
  pb_results :: bool

record phase_event =
  pe_isOpen :: bool
  pe_opensAt :: "string option"
  pe_closesAt :: "string option"
  pe_withdrawsUntil :: "string option"

definition entriesOpen :: "phase_event list \<Rightarrow> bool" where
  "entriesOpen events \<longleftrightarrow> list_ex pe_isOpen events"

definition tournamentPhase ::
  "string option \<Rightarrow> string option \<Rightarrow> publication option \<Rightarrow> phase_event list option \<Rightarrow>
   tournament_phase" where
  "tournamentPhase phase status pub events =
     (case or_opt (normalizeTournamentPhase phase) (normalizeTournamentPhase status) of
        Some explicit \<Rightarrow> explicit
      | None \<Rightarrow>
          if or_else (map_option pb_results pub) False then PhComplete
          else if or_else (map_option pb_draws pub) False then PhDrawsPublished
          else if or_else (map_option entriesOpen events) False then PhEntriesOpen
          else PhEntriesClosed)"

definition MONTHS_LONG :: "string list" where
  "MONTHS_LONG = [''January'', ''February'', ''March'', ''April'', ''May'', ''June'',
     ''July'', ''August'', ''September'', ''October'', ''November'', ''December'']"

definition monthLong :: "int \<Rightarrow> string" where
  "monthLong index =
     (if 0 \<le> index \<and> index < int (length MONTHS_LONG) then MONTHS_LONG ! nat index else [])"

text \<open>The patterns \<open>YYYY-MM-DD\<close> and \<open>YYYY-MM-DD hh:mm UTC\<close> and the fields they capture.\<close>

definition iso_pattern :: "char option list" where
  "iso_pattern = replicate 4 None @ Some (CHR ''-'') # replicate 2 None @ Some (CHR ''-'') # replicate 2 None @ []"

definition moment_pattern :: "char option list" where
  "moment_pattern =
     replicate 4 None @ Some (CHR ''-'') # replicate 2 None @ Some (CHR ''-'') # replicate 2 None @
     Some (CHR '' '') # replicate 2 None @ Some (CHR '':'') # replicate 2 None @ map Some '' UTC''"

definition field_at :: "nat \<Rightarrow> nat \<Rightarrow> string \<Rightarrow> int" where
  "field_at i n s = int (parse_nat (take n (drop i s)))"

definition parseMoment :: "string option \<Rightarrow> int option" where
  "parseMoment stamp =
     (case stamp of
        None \<Rightarrow> None
      | Some s \<Rightarrow>
          if \<not> fits moment_pattern s then None
          else
            let y = field_at 0 4 s; mo = field_at 5 2 s; d = field_at 8 2 s;
                h = field_at 11 2 s; mi = field_at 14 2 s;
                date = date_utc y (mo - 1) d h mi
            in if utc_year date = y \<and> utc_month date = mo - 1 \<and> utc_date date = d \<and>
                  utc_hours date = h \<and> utc_minutes date = mi
               then Some date else None)"

definition parseIsoDate :: "string option \<Rightarrow> int option" where
  "parseIsoDate stamp =
     (case stamp of
        None \<Rightarrow> None
      | Some s \<Rightarrow>
          if \<not> fits iso_pattern s then None
          else
            let y = field_at 0 4 s; mo = field_at 5 2 s; d = field_at 8 2 s;
                date = date_utc y (mo - 1) d 0 0
            in if utc_year date = y \<and> utc_month date = mo - 1 \<and> utc_date date = d
               then Some date else None)"

definition utcDayStart :: "int \<Rightarrow> int" where
  "utcDayStart now = date_utc (utc_year now) (utc_month now) (utc_date now) 0 0"

section \<open>Chip, call to action, tabs\<close>

text \<open>\<open>EntriesOpenChip closesInDays closesAtAbsolute\<close>.\<close>

datatype chip_state = EntriesOpenChip "int option" "string option" | EntriesClosedChip

text \<open>\<open>Math.ceil((deadline - now) / DAY_MS)\<close>, not below 0.\<close>

definition countdown :: "int \<Rightarrow> int \<Rightarrow> int" where
  "countdown deadlineMs now = max 0 (- ((now - deadlineMs) div DAY_MS))"

definition open_deadlines :: "phase_event list \<Rightarrow> int list" where
  "open_deadlines events = List.map_filter (\<lambda>e. parseMoment (pe_closesAt e)) (filter pe_isOpen events)"

definition chipState :: "phase_event list \<Rightarrow> int \<Rightarrow> chip_state" where
  "chipState events now =
     (if \<not> entriesOpen events then EntriesClosedChip
      else let deadlines = open_deadlines events
           in if deadlines = [] then EntriesOpenChip None None
              else EntriesOpenChip (Some (countdown (Min (set deadlines)) now)) None)"

definition nearestCloseAt :: "phase_event list \<Rightarrow> string option" where
  "nearestCloseAt events =
     (let dated = List.map_filter (\<lambda>e. map_option (\<lambda>at. (pe_closesAt e, at)) (parseMoment (pe_closesAt e)))
            (filter pe_isOpen events)
      in case sort_key snd dated of [] \<Rightarrow> None | d # _ \<Rightarrow> fst d)"

definition chipLabel :: "chip_state \<Rightarrow> string" where
  "chipLabel state =
     (case state of
        EntriesClosedChip \<Rightarrow> ''Entries closed''
      | EntriesOpenChip closesInDays closesAtAbsolute \<Rightarrow>
          if or_else closesAtAbsolute [] \<noteq> []
          then ''Entries open '' @ middot @ '' closes '' @ or_else closesAtAbsolute []
          else case closesInDays of
              None \<Rightarrow> ''Entries open''
            | Some d \<Rightarrow>
                if d = 0 then ''Entries open '' @ middot @ '' closes today''
                else ''Entries open '' @ middot @ '' closes in '' @ int_text d @ ''d'')"

datatype cta_state = CtaEnter string | CtaClosed

definition ctaState :: "phase_event list \<Rightarrow> string \<Rightarrow> cta_state" where
  "ctaState events slug =
     (if entriesOpen events then CtaEnter (''/e/'' @ encode_uri_component slug @ ''/enter'') else CtaClosed)"

datatype tab = TabOverview | TabDraws | TabPlayers

definition tab_name :: "tab \<Rightarrow> string" where
  "tab_name t = (case t of TabOverview \<Rightarrow> ''overview'' | TabDraws \<Rightarrow> ''draws'' | TabPlayers \<Rightarrow> ''players'')"

definition visibleTabs :: "'e list \<Rightarrow> 'p list \<Rightarrow> publication option \<Rightarrow> tab list" where
  "visibleTabs events entrants pub =
     map fst (filter snd
       [(TabOverview, True),
        (TabDraws, events \<noteq> []),
        (TabPlayers, (case pub of Some p \<Rightarrow> pb_entrants p \<or> pb_draws p | None \<Rightarrow> entrants \<noteq> []))])"

definition activeTab :: "string option \<Rightarrow> tab list \<Rightarrow> tab option" where
  "activeTab requested visible =
     (case requested of
        None \<Rightarrow> Some TabOverview
      | Some r \<Rightarrow> find (\<lambda>t. tab_name t = r) visible)"

definition legacyDrawsTab :: "string option \<Rightarrow> tab option" where
  "legacyDrawsTab requested =
     (if requested \<in> {Some ''events'', Some ''seeds'', Some ''winners''} then Some TabDraws else None)"

section \<open>The season\<close>

datatype page_status =
    PsEntriesOpen | PsEntriesClosed | PsInProgressLive | PsInProgress | PsCompletedWinners | PsCompleted

record season_row =
  sr_slug :: string
  sr_name :: "string option"
  sr_organizer :: "string option"
  sr_venueName :: "string option"
  sr_date :: "string option"
  sr_endDate :: "string option"
  sr_eventCount :: int
  sr_status :: page_status
  sr_closesInDays :: "int option"
  sr_closesAt :: "string option"
  sr_timeZone :: string
  sr_locality :: "string option"
  sr_drawsPublished :: bool
  sr_winnersPublished :: bool

datatype show_filter = ShowAll | ShowUpcoming | ShowLive | ShowPast

definition show_name :: "show_filter \<Rightarrow> string" where
  "show_name s = (case s of ShowAll \<Rightarrow> ''all'' | ShowUpcoming \<Rightarrow> ''upcoming'' | ShowLive \<Rightarrow> ''live'' | ShowPast \<Rightarrow> ''past'')"

definition SHOW_FILTERS :: "show_filter list" where
  "SHOW_FILTERS = [ShowAll, ShowUpcoming, ShowLive, ShowPast]"

text \<open>\<open>number | 'all' | null\<close>.\<close>

datatype year_filter = YearIs int | EveryYear | YearUnset

record filters =
  fl_year :: year_filter
  fl_q :: string
  fl_show :: "show_filter option"
  fl_page :: "int option"

definition SEASON_PAGE_SIZE :: nat where
  "SEASON_PAGE_SIZE = 40"

record month_group =
  mg_key :: string
  mg_label :: string
  mg_rows :: "season_row list"

text \<open>\<open>toLowerCase\<close> and \<open>localeCompare\<close> of the host.\<close>

record text_host =
  th_lower :: "string \<Rightarrow> string"
  th_compare :: "string \<Rightarrow> string \<Rightarrow> int"

definition COMPLETED_STATUSES :: "page_status list" where
  "COMPLETED_STATUSES = [PsCompleted, PsCompletedWinners]"

definition rowMatches :: "text_host \<Rightarrow> season_row \<Rightarrow> string \<Rightarrow> bool" where
  "rowMatches th row q \<longleftrightarrow>
     (let needle = th_lower th (trim q)
      in needle = [] \<or>
         sublist needle (th_lower th (or_else (sr_name row) [] @ '' '' @ or_else (sr_organizer row) [] @
           '' '' @ or_else (sr_venueName row) [])))"

definition year_pattern :: "char option list" where
  "year_pattern = replicate 4 None @ []"

definition parseFilters :: "url_params \<Rightarrow> filters" where
  "parseFilters params =
     (let year = param_get params ''year'';
          show = param_get params ''show'';
          page = js_integer (or_else (param_get params ''page'') ''1'')
      in \<lparr>fl_year = (case year of
             None \<Rightarrow> YearUnset
           | Some y \<Rightarrow> if y = ''all'' then EveryYear
                       else if fits year_pattern y then YearIs (int (parse_nat y)) else YearUnset),
          fl_q = or_else (param_get params ''q'') [],
          fl_show = Some (case show of
             None \<Rightarrow> ShowAll
           | Some s \<Rightarrow> or_else (find (\<lambda>f. show_name f = s) SHOW_FILTERS) ShowAll),
          fl_page = Some (case page of Some p \<Rightarrow> if p > 1 then p else 1 | None \<Rightarrow> 1)\<rparr>)"

definition filtersToParams :: "filters \<Rightarrow> url_params" where
  "filtersToParams filters =
     (let p0 = [];
          p1 = (if trim (fl_q filters) \<noteq> [] then param_set ''q'' (fl_q filters) p0 else p0);
          p2 = (case fl_year filters of
              YearIs y \<Rightarrow> param_set ''year'' (int_text y) p1
            | EveryYear \<Rightarrow> param_set ''year'' ''all'' p1
            | YearUnset \<Rightarrow> p1);
          p3 = (case fl_show filters of
              Some s \<Rightarrow> if s \<noteq> ShowAll then param_set ''show'' (show_name s) p2 else p2
            | None \<Rightarrow> p2)
      in if or_else (fl_page filters) 1 > 1
         then param_set ''page'' (int_text (or_else (fl_page filters) 1)) p3 else p3)"

definition seasonYears :: "season_row list \<Rightarrow> int list" where
  "seasonYears rows =
     (let years = js_set (map utc_year (List.map_filter (\<lambda>row. parseIsoDate (sr_date row)) rows))
      in js_sort (\<lambda>a b. b - a) years)"

definition resolveSeason :: "season_row list \<Rightarrow> filters \<Rightarrow> int \<Rightarrow> int option" where
  "resolveSeason rows filters now =
     (case fl_year filters of
        YearIs y \<Rightarrow> Some y
      | EveryYear \<Rightarrow> None
      | YearUnset \<Rightarrow>
          if trim (fl_q filters) \<noteq> [] then None
          else
            let years = seasonYears rows; current = utc_year now;
                future = filter (\<lambda>y. y > current) years
            in Some (if current \<in> set years then current
                     else if future \<noteq> [] then last future
                     else case years of y # _ \<Rightarrow> y | [] \<Rightarrow> current))"

definition isPast :: "season_row \<Rightarrow> int \<Rightarrow> bool" where
  "isPast row now \<longleftrightarrow>
     sr_status row \<in> set COMPLETED_STATUSES \<or>
     (case or_opt (parseIsoDate (sr_endDate row)) (parseIsoDate (sr_date row)) of
        None \<Rightarrow> False | Some endDate \<Rightarrow> endDate < utcDayStart now)"

text \<open>The walk of \<open>groupByMonth\<close>; a row without a readable date makes it throw (\<open>None\<close>).\<close>

fun group_months :: "month_group list \<Rightarrow> season_row list \<Rightarrow> month_group list option" where
  "group_months groups [] = Some groups"
| "group_months groups (row # rows) =
     (case parseIsoDate (sr_date row) of
        None \<Rightarrow> None
      | Some date \<Rightarrow>
          let key = int_text (utc_year date) @ ''-'' @ int_text (utc_month date)
          in if groups \<noteq> [] \<and> mg_key (last groups) = key
             then group_months
                    (butlast groups @ [(last groups)\<lparr>mg_rows := mg_rows (last groups) @ [row]\<rparr>]) rows
             else group_months
                    (groups @ [\<lparr>mg_key = key,
                       mg_label = monthLong (utc_month date) @ '' '' @ int_text (utc_year date),
                       mg_rows = [row]\<rparr>]) rows)"

definition groupByMonth :: "season_row list \<Rightarrow> month_group list option" where
  "groupByMonth rows = group_months [] rows"

definition isLiveRow :: "season_row \<Rightarrow> bool" where
  "isLiveRow row \<longleftrightarrow> sr_status row = PsInProgressLive \<or> sr_status row = PsInProgress"

record season_counts =
  sn_all :: nat
  sn_live :: nat
  sn_upcoming :: nat
  sn_past :: nat

record season_model =
  sm_season :: "int option"
  sm_years :: "int list"
  sm_show :: show_filter
  sm_live :: "season_row list"
  sm_upcoming :: "month_group list"
  sm_upcomingUndated :: "season_row list"
  sm_past :: "month_group list"
  sm_pastUndated :: "season_row list"
  sm_listedCount :: nat
  sm_publishedCount :: nat
  sm_counts :: season_counts
  sm_page :: int
  sm_pageCount :: int

definition or_nonzero :: "int \<Rightarrow> int \<Rightarrow> int" where
  "or_nonzero a b = (if a \<noteq> 0 then a else b)"

definition byDateAsc :: "text_host \<Rightarrow> season_row \<Rightarrow> season_row \<Rightarrow> int" where
  "byDateAsc th a b = or_nonzero
     (th_compare th (or_else (sr_date a) []) (or_else (sr_date b) []))
     (th_compare th (sr_slug a) (sr_slug b))"

definition byDateDesc :: "text_host \<Rightarrow> season_row \<Rightarrow> season_row \<Rightarrow> int" where
  "byDateDesc th a b = or_nonzero
     (th_compare th (or_else (sr_date b) []) (or_else (sr_date a) []))
     (th_compare th (sr_slug a) (sr_slug b))"

definition bySlug :: "text_host \<Rightarrow> season_row \<Rightarrow> season_row \<Rightarrow> int" where
  "bySlug th a b = th_compare th (sr_slug a) (sr_slug b)"

definition dated :: "season_row \<Rightarrow> bool" where
  "dated row \<longleftrightarrow> parseIsoDate (sr_date row) \<noteq> None"

datatype season_half = HalfLive | HalfUpcoming | HalfPast

definition in_season :: "text_host \<Rightarrow> season_row list \<Rightarrow> filters \<Rightarrow> int \<Rightarrow> season_row list" where
  "in_season th rows filters now =
     (let season = resolveSeason rows filters now
      in filter (\<lambda>row. rowMatches th row (fl_q filters) \<and>
           (case season of
              None \<Rightarrow> True
            | Some s \<Rightarrow> (case parseIsoDate (sr_date row) of None \<Rightarrow> True | Some date \<Rightarrow> utc_year date = s)))
           rows)"

text \<open>The whole listing of a slice, before it is cut into pages.\<close>

definition ordered_listing ::
  "text_host \<Rightarrow> season_row list \<Rightarrow> show_filter \<Rightarrow> int \<Rightarrow> (season_row \<times> season_half) list" where
  "ordered_listing th inSeason show now =
     (let liveRows = filter (\<lambda>row. \<not> isPast row now \<and> isLiveRow row) inSeason;
          upcomingRows = filter (\<lambda>row. \<not> isPast row now \<and> \<not> isLiveRow row) inSeason;
          pastRows = filter (\<lambda>row. isPast row now) inSeason
      in (if show = ShowAll \<or> show = ShowLive
          then map (\<lambda>row. (row, HalfLive)) (js_sort (byDateAsc th) liveRows) else []) @
         (if show = ShowAll \<or> show = ShowUpcoming
          then map (\<lambda>row. (row, HalfUpcoming))
                 (js_sort (byDateAsc th) (filter dated upcomingRows) @
                  js_sort (bySlug th) (filter (\<lambda>row. \<not> dated row) upcomingRows)) else []) @
         (if show = ShowAll \<or> show = ShowPast
          then map (\<lambda>row. (row, HalfPast))
                 (js_sort (byDateDesc th) (filter dated pastRows) @
                  js_sort (bySlug th) (filter (\<lambda>row. \<not> dated row) pastRows)) else []))"

definition page_count :: "nat \<Rightarrow> int" where
  "page_count n = max 1 (- ((- int n) div int SEASON_PAGE_SIZE))"

text \<open>\<open>slice\<close> with bounds that are not negative.\<close>

definition page_window :: "int \<Rightarrow> 'a list \<Rightarrow> 'a list" where
  "page_window page xs = take SEASON_PAGE_SIZE (drop (nat (page - 1) * SEASON_PAGE_SIZE) xs)"

definition seasonModel ::
  "text_host \<Rightarrow> season_row list \<Rightarrow> filters \<Rightarrow> int \<Rightarrow> season_model option" where
  "seasonModel th rows filters now =
     (let inSeason = in_season th rows filters now;
          show = or_else (fl_show filters) ShowAll;
          ordered = ordered_listing th inSeason show now;
          pageCount = page_count (length ordered);
          page = min (max 1 (or_else (fl_page filters) 1)) pageCount;
          window = page_window page ordered;
          half = (\<lambda>which. map fst (filter (\<lambda>item. snd item = which) window))
      in case (groupByMonth (filter dated (half HalfUpcoming)), groupByMonth (filter dated (half HalfPast))) of
           (Some upcoming, Some past) \<Rightarrow> Some
             \<lparr>sm_season = resolveSeason rows filters now, sm_years = seasonYears rows, sm_show = show,
              sm_live = half HalfLive, sm_upcoming = upcoming,
              sm_upcomingUndated = filter (\<lambda>row. \<not> dated row) (half HalfUpcoming),
              sm_past = past, sm_pastUndated = filter (\<lambda>row. \<not> dated row) (half HalfPast),
              sm_listedCount = length ordered, sm_publishedCount = length rows,
              sm_counts = \<lparr>sn_all = length inSeason,
                sn_live = length (filter (\<lambda>row. \<not> isPast row now \<and> isLiveRow row) inSeason),
                sn_upcoming = length (filter (\<lambda>row. \<not> isPast row now \<and> \<not> isLiveRow row) inSeason),
                sn_past = length (filter (\<lambda>row. isPast row now) inSeason)\<rparr>,
              sm_page = page, sm_pageCount = pageCount\<rparr>
         | _ \<Rightarrow> None)"

section \<open>Titles, actions, form bars\<close>

text \<open>
  The class of the title separator: white space, slash, dot, colon, hyphen, and the two dashes, whose
  texts are three bytes. A run is taken from one end of the name; from the back the bytes of a dash
  come reversed.
\<close>

definition SEPARATORS :: "string list" where
  "SEPARATORS = map (\<lambda>n. [char_of n]) [9 :: nat, 10, 11, 12, 13, 32] @ [''/'', ''.'', '':'', ''-''] @
     map (\<lambda>n. [char_of (226 :: nat), char_of (128 :: nat), char_of n]) [147 :: nat, 148]"

function drop_separators :: "string list \<Rightarrow> string \<Rightarrow> string" where
  "drop_separators seps s =
     (case find (\<lambda>u. u \<noteq> [] \<and> prefix u s) seps of
        None \<Rightarrow> s | Some u \<Rightarrow> drop_separators seps (drop (length u) s))"
  by pat_completeness auto
termination
proof (relation "measure (\<lambda>(seps, s). length s)", goal_cases)
  case (2 seps s u)
  then have "u \<noteq> []" "prefix u s" by (auto simp: find_Some_iff)
  then show ?case by (auto simp: prefix_def)
qed simp

text \<open>\<open>replace(/^year[seps]+/, '')\<close>.\<close>

definition strip_year :: "string list \<Rightarrow> string \<Rightarrow> string \<Rightarrow> string" where
  "strip_year seps year name =
     (if prefix year name
      then let rest = drop (length year) name; kept = drop_separators seps rest
           in if kept = rest then name else kept
      else name)"

definition displayTitle :: "season_row \<Rightarrow> string" where
  "displayTitle row =
     (let name = or_else (sr_name row) (sr_slug row)
      in case parseIsoDate (sr_date row) of
           None \<Rightarrow> name
         | Some date \<Rightarrow>
             (let year = int_text (utc_year date);
                  a = strip_year SEPARATORS year name;
                  b = rev (strip_year (map rev SEPARATORS) (rev year) (rev a));
                  stripped = trim b
              in if stripped = [] then name else stripped))"

text \<open>\<open>ActionLive label href\<close>, \<open>ActionEnter href closesAt timeZone\<close>.\<close>

datatype action_cell =
    ActionLive string string
  | ActionEnter string "string option" string
  | ActionResults string
  | ActionText string

definition results_cell :: "season_row \<Rightarrow> action_cell" where
  "results_cell row =
     (if sr_drawsPublished row \<or> sr_winnersPublished row
      then ActionResults (''/e/'' @ encode_uri_component (sr_slug row) @ ''?tab=draws'')
      else ActionText ''Results not published'')"

definition actionCell :: "season_row \<Rightarrow> bool \<Rightarrow> action_cell" where
  "actionCell row past =
     (let page = ''/e/'' @ encode_uri_component (sr_slug row)
      in if past then results_cell row
         else case sr_status row of
             PsInProgressLive \<Rightarrow> ActionLive ''Follow live'' (page @ ''/schedule'')
           | PsInProgress \<Rightarrow> ActionText ''In progress''
           | PsEntriesOpen \<Rightarrow> ActionEnter (page @ ''/enter'') (sr_closesAt row) (sr_timeZone row)
           | PsEntriesClosed \<Rightarrow> ActionText ''Entries closed''
           | PsCompletedWinners \<Rightarrow> results_cell row
           | PsCompleted \<Rightarrow> results_cell row)"

definition visibleBlocks :: "form_echo \<Rightarrow> bool \<Rightarrow> int" where
  "visibleBlocks echo addPlayer =
     min 8 (max 1 (int (length (fe_players echo))) + (if addPlayer then 1 else 0))"

text \<open>\<open>BarQuoted totalCents eventCount\<close>.\<close>

datatype total_bar_state = BarUnquoted | BarQuoted int int | BarRefused string

definition totalBarState :: "form_echo \<Rightarrow> total_bar_state" where
  "totalBarState echo =
     (case fe_refusal echo of
        Some copy \<Rightarrow> BarRefused copy
      | None \<Rightarrow>
          (case fe_totalCents echo of
             Some cents \<Rightarrow> BarQuoted cents (int (length (concat (map pl_events (fe_players echo)))))
           | None \<Rightarrow> BarUnquoted))"

section \<open>Key dates\<close>

datatype moment_state = MomentPast | MomentCurrent | MomentFuture

datatype moment_kind = EntriesMoment | WithdrawalMoment | PlayMoment

record timeline_moment =
  tm_label :: string
  tm_at :: "string option"
  tm_state :: moment_state
  tm_varies :: bool
  tm_status :: "string option"
  tm_kind :: moment_kind

record timeline_field =
  tf_at :: "string option"
  tf_state :: moment_state
  tf_varies :: bool

definition timeline_field_of ::
  "(phase_event \<Rightarrow> string option) \<Rightarrow> phase_event list \<Rightarrow> int \<Rightarrow> timeline_field option" where
  "timeline_field_of key events now =
     (let raw = js_set (List.map_filter key events);
          parsed = List.map_filter (\<lambda>s. parseMoment (Some s)) raw
      in if raw = [] \<or> parsed = [] then None
         else Some
           \<lparr>tf_at = (if length raw = 1 then Some (hd raw) else None),
            tf_state = (if Max (set parsed) < now then MomentPast
                        else if Min (set parsed) > now then MomentFuture else MomentCurrent),
            tf_varies = (length raw > 1)\<rparr>)"

definition play_state :: "string option \<Rightarrow> int \<Rightarrow> moment_state option" where
  "play_state tournamentDate now =
     map_option (\<lambda>day. if day + DAY_MS \<le> now then MomentPast
                       else if day > now then MomentFuture else MomentCurrent)
       (parseIsoDate tournamentDate)"

definition moment_of :: "string \<Rightarrow> timeline_field \<Rightarrow> string option \<Rightarrow> moment_kind \<Rightarrow> timeline_moment" where
  "moment_of label f status kind =
     \<lparr>tm_label = label, tm_at = tf_at f, tm_state = tf_state f, tm_varies = tf_varies f,
      tm_status = status, tm_kind = kind\<rparr>"

definition entries_moment :: "phase_event list \<Rightarrow> int \<Rightarrow> timeline_moment list" where
  "entries_moment events now =
     (let opens = timeline_field_of pe_opensAt events now;
          closes = timeline_field_of pe_closesAt events now
      in if map_option tf_state opens = Some MomentFuture
         then map (\<lambda>f. moment_of ''Entries'' f (Some ''Opens'') EntriesMoment) (case opens of Some f \<Rightarrow> [f] | None \<Rightarrow> [])
         else case closes of
             None \<Rightarrow> []
           | Some f \<Rightarrow> [moment_of ''Entries'' f
               (Some (if tf_state f = MomentPast then ''Closed'' else ''Closes'')) EntriesMoment])"

definition withdrawal_moment :: "phase_event list \<Rightarrow> int \<Rightarrow> timeline_moment list" where
  "withdrawal_moment events now =
     (case timeline_field_of pe_withdrawsUntil events now of
        None \<Rightarrow> []
      | Some f \<Rightarrow> if tf_state f \<noteq> MomentPast
                 then [moment_of ''Withdrawal deadline'' f None WithdrawalMoment] else [])"

definition timelineModel ::
  "phase_event list \<Rightarrow> string option \<Rightarrow> int \<Rightarrow> timeline_moment list" where
  "timelineModel events tournamentDate now =
     (let playState = play_state tournamentDate now
      in (if playState \<noteq> Some MomentPast
          then entries_moment events now @ withdrawal_moment events now else []) @
         (case playState of
            None \<Rightarrow> []
          | Some st \<Rightarrow> [\<lparr>tm_label = ''Play'', tm_at = tournamentDate, tm_state = st, tm_varies = False,
              tm_status = None, tm_kind = PlayMoment\<rparr>]))"

section \<open>Facts about months and pages\<close>

text \<open>What the walk over ordered rows returns: the same rows, cut where the month changes.\<close>

definition month_key :: "season_row \<Rightarrow> string option" where
  "month_key row = map_option (\<lambda>date. int_text (utc_year date) @ ''-'' @ int_text (utc_month date))
     (parseIsoDate (sr_date row))"

definition month_groups_ok :: "month_group list \<Rightarrow> bool" where
  "month_groups_ok gs \<longleftrightarrow>
     (\<forall>g \<in> set gs. mg_rows g \<noteq> [] \<and> (\<forall>r \<in> set (mg_rows g). month_key r = Some (mg_key g))) \<and>
     successively (\<lambda>a b. mg_key a \<noteq> mg_key b) gs"

lemma group_months_exact:
  assumes "\<forall>r \<in> set rows. dated r" "month_groups_ok groups"
  obtains gs where "group_months groups rows = Some gs"
    "concat (map mg_rows gs) = concat (map mg_rows groups) @ rows" "month_groups_ok gs"
  using assms
proof (induction groups rows arbitrary: thesis rule: group_months.induct)
  case (1 groups)
  then show ?case by simp
next
  case (2 groups row rows)
  obtain date where date: "parseIsoDate (sr_date row) = Some date"
    using "2.prems"(2) by (auto simp: dated_def)
  let ?key = "int_text (utc_year date) @ ''-'' @ int_text (utc_month date)"
  have mk: "month_key row = Some ?key" by (simp add: month_key_def date)
  have rest: "\<forall>r \<in> set rows. dated r" using "2.prems"(2) by simp
  show ?case
  proof (cases "groups \<noteq> [] \<and> mg_key (last groups) = ?key")
    case True
    then obtain gs0 g0 where g0: "groups = gs0 @ [g0]" "mg_key g0 = ?key" by (cases groups rule: rev_cases) auto
    let ?g = "g0\<lparr>mg_rows := mg_rows g0 @ [row]\<rparr>"
    have ok: "month_groups_ok (gs0 @ [?g])"
      using "2.prems"(3) mk g0 by (auto simp: month_groups_ok_def successively_append_iff)
    obtain gs where gs: "group_months (gs0 @ [?g]) rows = Some gs"
      "concat (map mg_rows gs) = concat (map mg_rows (gs0 @ [?g])) @ rows" "month_groups_ok gs"
      using "2.IH"(1)[OF date refl True _ rest] ok g0 by auto
    then show ?thesis using "2.prems"(1)[of gs] g0 by (simp add: date Let_def)
  next
    case False
    let ?g = "\<lparr>mg_key = ?key, mg_label = monthLong (utc_month date) @ '' '' @ int_text (utc_year date),
      mg_rows = [row]\<rparr>"
    have ok: "month_groups_ok (groups @ [?g])"
      using "2.prems"(3) mk False by (auto simp: month_groups_ok_def successively_append_iff)
    obtain gs where gs: "group_months (groups @ [?g]) rows = Some gs"
      "concat (map mg_rows gs) = concat (map mg_rows (groups @ [?g])) @ rows" "month_groups_ok gs"
      using "2.IH"(2)[OF date refl False _ rest ok] by blast
    then show ?thesis using "2.prems"(1)[of gs] False by (auto simp: date Let_def)
  qed
qed

lemma groupByMonth_exact:
  assumes "\<forall>r \<in> set rows. dated r"
  obtains gs where "groupByMonth rows = Some gs" "concat (map mg_rows gs) = rows" "month_groups_ok gs"
  using group_months_exact[OF assms, of "[]"]
  by (auto simp: groupByMonth_def month_groups_ok_def)

text \<open>A list in the order of a class number is its classes one after the other.\<close>

lemma filter_class_step:
  "sorted (map f xs) \<Longrightarrow>
   filter (\<lambda>x. f x < Suc n) xs = filter (\<lambda>x. f x < n) xs @ filter (\<lambda>x. f x = n) xs"
proof (induction xs)
  case (Cons x xs)
  have "filter (\<lambda>x. f x < n) xs = []" if "n \<le> f x"
    using Cons.prems that by (auto simp: filter_empty_conv)
  then show ?case using Cons by (auto simp: less_Suc_eq)
qed simp

lemma five_classes:
  assumes "sorted (map f xs)" "\<forall>x \<in> set xs. f x < (5 :: nat)"
  shows "filter (\<lambda>x. f x = 0) xs @ filter (\<lambda>x. f x = 1) xs @ filter (\<lambda>x. f x = 2) xs @
    filter (\<lambda>x. f x = 3) xs @ filter (\<lambda>x. f x = 4) xs = xs"
proof -
  have "xs = filter (\<lambda>x. f x < Suc 4) xs" using assms(2) by simp
  also have "\<dots> = filter (\<lambda>x. f x = 0) xs @ filter (\<lambda>x. f x = 1) xs @ filter (\<lambda>x. f x = 2) xs @
      filter (\<lambda>x. f x = 3) xs @ filter (\<lambda>x. f x = 4) xs"
    using filter_class_step[OF assms(1), of 4] filter_class_step[OF assms(1), of 3]
      filter_class_step[OF assms(1), of 2] filter_class_step[OF assms(1), of 1]
      filter_class_step[OF assms(1), of 0]
    by (simp add: numeral_eq_Suc)
  finally show ?thesis by simp
qed

definition listing_class :: "season_row \<times> season_half \<Rightarrow> nat" where
  "listing_class = (\<lambda>(row, h). case h of
     HalfLive \<Rightarrow> 0 | HalfUpcoming \<Rightarrow> (if dated row then 1 else 2) | HalfPast \<Rightarrow> (if dated row then 3 else 4))"

lemma sorted_constant: "(\<And>x. x \<in> set xs \<Longrightarrow> f x = c) \<Longrightarrow> sorted (map f xs)"
  by (induction xs) auto

lemma listing_class_sorted: "sorted (map listing_class (ordered_listing th rows show now))"
proof -
  let ?c = "\<lambda>h row. listing_class (row, h)"
  have live: "sorted (map (?c HalfLive) xs)" for xs
    by (rule sorted_constant[where c = 0]) (simp add: listing_class_def)
  have half: "sorted (map (?c h) (js_sort f (filter dated xs) @ js_sort g (filter (\<lambda>r. \<not> dated r) xs)))"
    if "h \<noteq> HalfLive" for h f g xs
  proof -
    have "sorted (map (?c h) (js_sort f (filter dated xs)))"
      by (rule sorted_constant[where c = "if h = HalfPast then 3 else 1"])
        (use that in \<open>auto simp: listing_class_def split: season_half.split\<close>)
    moreover have "sorted (map (?c h) (js_sort g (filter (\<lambda>r. \<not> dated r) xs)))"
      by (rule sorted_constant[where c = "if h = HalfPast then 4 else 2"])
        (use that in \<open>auto simp: listing_class_def split: season_half.split\<close>)
    ultimately show ?thesis using that by (cases h) (auto simp: sorted_append listing_class_def)
  qed
  have low: "?c HalfUpcoming r \<in> {1, 2}" "?c HalfPast r \<in> {3, 4}" "?c HalfLive r = 0" for r
    by (simp_all add: listing_class_def)
  have le: "?c HalfLive r \<le> ?c HalfUpcoming s" "?c HalfLive r \<le> ?c HalfPast s" "?c HalfUpcoming r \<le> ?c HalfPast s" for r s
    using low(1)[of r] low(1)[of s] low(2)[of s] low(3)[of r] by auto
  have cat: "sorted (map (?c HalfLive) ls @ map (?c HalfUpcoming) bs @ map (?c HalfPast) cs)"
    if "sorted (map (?c HalfLive) ls)" "sorted (map (?c HalfUpcoming) bs)" "sorted (map (?c HalfPast) cs)" for ls bs cs
    using that le by (auto simp: sorted_append)
  define ls where "ls = (if show = ShowAll \<or> show = ShowLive
    then js_sort (byDateAsc th) (filter (\<lambda>row. \<not> isPast row now \<and> isLiveRow row) rows) else [])"
  define bs where "bs = (if show = ShowAll \<or> show = ShowUpcoming
    then js_sort (byDateAsc th) (filter dated (filter (\<lambda>row. \<not> isPast row now \<and> \<not> isLiveRow row) rows)) @
      js_sort (bySlug th) (filter (\<lambda>r. \<not> dated r) (filter (\<lambda>row. \<not> isPast row now \<and> \<not> isLiveRow row) rows))
    else [])"
  define cs where "cs = (if show = ShowAll \<or> show = ShowPast
    then js_sort (byDateDesc th) (filter dated (filter (\<lambda>row. isPast row now) rows)) @
      js_sort (bySlug th) (filter (\<lambda>r. \<not> dated r) (filter (\<lambda>row. isPast row now) rows)) else [])"
  have eq: "ordered_listing th rows show now =
      map (\<lambda>row. (row, HalfLive)) ls @ map (\<lambda>row. (row, HalfUpcoming)) bs @ map (\<lambda>row. (row, HalfPast)) cs"
    unfolding ordered_listing_def Let_def ls_def bs_def cs_def by (cases "show") simp_all
  have "sorted (map (?c HalfUpcoming) bs)" "sorted (map (?c HalfPast) cs)"
    using half[of HalfUpcoming] half[of HalfPast] by (auto simp: bs_def cs_def simp del: map_append filter_filter)
  then show ?thesis using cat[OF live] by (simp add: eq comp_def)
qed

text \<open>The rows of a model in the order of the page.\<close>

definition page_rows :: "season_model \<Rightarrow> season_row list" where
  "page_rows m = sm_live m @ concat (map mg_rows (sm_upcoming m)) @ sm_upcomingUndated m @
     concat (map mg_rows (sm_past m)) @ sm_pastUndated m"

lemma listing_class_filter:
  "filter (\<lambda>x. listing_class x = 0) xs = filter (\<lambda>x. snd x = HalfLive) xs"
  "filter (\<lambda>x. listing_class x = 1) xs = filter (\<lambda>x. snd x = HalfUpcoming \<and> dated (fst x)) xs"
  "filter (\<lambda>x. listing_class x = 2) xs = filter (\<lambda>x. snd x = HalfUpcoming \<and> \<not> dated (fst x)) xs"
  "filter (\<lambda>x. listing_class x = 3) xs = filter (\<lambda>x. snd x = HalfPast \<and> dated (fst x)) xs"
  "filter (\<lambda>x. listing_class x = 4) xs = filter (\<lambda>x. snd x = HalfPast \<and> \<not> dated (fst x)) xs"
proof -
  have "listing_class x = 0 \<longleftrightarrow> snd x = HalfLive"
    "listing_class x = 1 \<longleftrightarrow> snd x = HalfUpcoming \<and> dated (fst x)"
    "listing_class x = 2 \<longleftrightarrow> snd x = HalfUpcoming \<and> \<not> dated (fst x)"
    "listing_class x = 3 \<longleftrightarrow> snd x = HalfPast \<and> dated (fst x)"
    "listing_class x = 4 \<longleftrightarrow> snd x = HalfPast \<and> \<not> dated (fst x)" for x
    by (cases x; cases "snd x"; simp add: listing_class_def)+
  then show "filter (\<lambda>x. listing_class x = 0) xs = filter (\<lambda>x. snd x = HalfLive) xs"
    "filter (\<lambda>x. listing_class x = 1) xs = filter (\<lambda>x. snd x = HalfUpcoming \<and> dated (fst x)) xs"
    "filter (\<lambda>x. listing_class x = 2) xs = filter (\<lambda>x. snd x = HalfUpcoming \<and> \<not> dated (fst x)) xs"
    "filter (\<lambda>x. listing_class x = 3) xs = filter (\<lambda>x. snd x = HalfPast \<and> dated (fst x)) xs"
    "filter (\<lambda>x. listing_class x = 4) xs = filter (\<lambda>x. snd x = HalfPast \<and> \<not> dated (fst x)) xs"
    by (simp_all only:)
qed

text \<open>The model of a window lists exactly the rows of the window, in their order.\<close>

lemma window_rows:
  assumes "sorted (map listing_class w)"
  defines "half \<equiv> \<lambda>which. map fst (filter (\<lambda>item. snd item = which) w)"
  shows "half HalfLive @ filter dated (half HalfUpcoming) @ filter (\<lambda>row. \<not> dated row) (half HalfUpcoming) @
    filter dated (half HalfPast) @ filter (\<lambda>row. \<not> dated row) (half HalfPast) = map fst w"
proof -
  have "\<forall>x \<in> set w. listing_class x < 5" by (auto simp: listing_class_def split: season_half.split)
  from five_classes[OF assms(1) this, unfolded listing_class_filter]
  have "map fst (filter (\<lambda>x. snd x = HalfLive) w @ filter (\<lambda>x. snd x = HalfUpcoming \<and> dated (fst x)) w @
      filter (\<lambda>x. snd x = HalfUpcoming \<and> \<not> dated (fst x)) w @
      filter (\<lambda>x. snd x = HalfPast \<and> dated (fst x)) w @
      filter (\<lambda>x. snd x = HalfPast \<and> \<not> dated (fst x)) w) = map fst w" by (rule arg_cong)
  then show ?thesis by (simp add: half_def filter_map comp_def)
qed

lemma sorted_window: "sorted (map f xs) \<Longrightarrow> sorted (map f (page_window p xs))"
  by (simp add: page_window_def take_map[symmetric] drop_map[symmetric])

definition page_at :: "filters \<Rightarrow> nat \<Rightarrow> int" where
  "page_at filters n = min (max 1 (or_else (fl_page filters) 1)) (page_count n)"

lemma seasonModel_page:
  obtains m where "seasonModel th rows f now = Some m"
    "page_rows m = map fst (page_window (sm_page m)
       (ordered_listing th (in_season th rows f now) (sm_show m) now))"
    "sm_show m = or_else (fl_show f) ShowAll"
    "sm_listedCount m = length (ordered_listing th (in_season th rows f now) (sm_show m) now)"
    "sm_pageCount m = page_count (sm_listedCount m)"
    "sm_page m = page_at f (sm_listedCount m)"
    "month_groups_ok (sm_upcoming m)" "month_groups_ok (sm_past m)"
proof -
  let ?o = "ordered_listing th (in_season th rows f now) (or_else (fl_show f) ShowAll) now"
  let ?w = "page_window (page_at f (length ?o)) ?o"
  let ?half = "\<lambda>which. map fst (filter (\<lambda>item. snd item = which) ?w)"
  have dates: "\<forall>r \<in> set (filter dated xs). dated r" for xs by simp
  obtain us where us: "groupByMonth (filter dated (?half HalfUpcoming)) = Some us"
    "concat (map mg_rows us) = filter dated (?half HalfUpcoming)" "month_groups_ok us"
    using groupByMonth_exact[OF dates] .
  obtain ps where ps: "groupByMonth (filter dated (?half HalfPast)) = Some ps"
    "concat (map mg_rows ps) = filter dated (?half HalfPast)" "month_groups_ok ps"
    using groupByMonth_exact[OF dates] .
  note model = seasonModel_def[of th rows f now, unfolded Let_def page_at_def[symmetric],
    unfolded us(1) ps(1) prod.case option.case]
  have rows: "?half HalfLive @ filter dated (?half HalfUpcoming) @
      filter (\<lambda>row. \<not> dated row) (?half HalfUpcoming) @
      filter dated (?half HalfPast) @ filter (\<lambda>row. \<not> dated row) (?half HalfPast) = map fst ?w"
    by (rule window_rows[OF sorted_window[OF listing_class_sorted]])
  show ?thesis
    by (rule that[OF model]) (use rows us(2,3) ps(2,3) in \<open>simp_all only: page_rows_def season_model.simps\<close>)
qed

lemma windows_cover:
  "concat (map (\<lambda>k. page_window (int k + 1) xs) [0..<nat (page_count (length xs))]) = xs"
proof -
  have "concat (map (\<lambda>k. page_window (int k + 1) xs) [0..<n]) = take (n * SEASON_PAGE_SIZE) xs" for n
  proof (induction n)
    case (Suc n)
    have "take (Suc n * SEASON_PAGE_SIZE) xs =
        take (n * SEASON_PAGE_SIZE) xs @ take SEASON_PAGE_SIZE (drop (n * SEASON_PAGE_SIZE) xs)"
      by (metis add.commute mult_Suc take_add)
    then show ?case using Suc.IH by (simp add: page_window_def)
  qed simp
  moreover have "length xs \<le> nat (page_count (length xs)) * SEASON_PAGE_SIZE"
  proof -
    let ?q = "(- int (length xs)) div 40"
    have "40 * ?q + (- int (length xs)) mod 40 = - int (length xs)" by (rule mult_div_mod_eq)
    moreover have "0 \<le> (- int (length xs)) mod 40" by (rule pos_mod_sign) simp
    ultimately have "int (length xs) \<le> (- ?q) * 40" by linarith
    also have "\<dots> \<le> max 1 (- ?q) * 40" by (intro mult_right_mono) simp_all
    finally have "int (length xs) \<le> page_count (length xs) * 40"
      by (simp only: page_count_def SEASON_PAGE_SIZE_def of_nat_numeral)
    moreover have "0 \<le> page_count (length xs)" by (simp add: page_count_def)
    ultimately show ?thesis by (simp add: SEASON_PAGE_SIZE_def nat_mult_distrib flip: zle_int)
  qed
  ultimately show ?thesis by simp
qed

lemma in_season_page [simp]: "in_season th rows (f\<lparr>fl_page := p\<rparr>) now = in_season th rows f now"
  by (simp add: in_season_def resolveSeason_def Let_def)

text \<open>Which rows of a season a slice keeps.\<close>

definition shown_in :: "show_filter \<Rightarrow> int \<Rightarrow> season_row \<Rightarrow> bool" where
  "shown_in s now row =
     (case s of
        ShowAll \<Rightarrow> True
      | ShowLive \<Rightarrow> \<not> isPast row now \<and> isLiveRow row
      | ShowUpcoming \<Rightarrow> \<not> isPast row now \<and> \<not> isLiveRow row
      | ShowPast \<Rightarrow> isPast row now)"

lemma mset_insert_cmp [simp]: "mset (insert_cmp cmp x xs) = add_mset x (mset xs)"
  by (induction xs) auto

lemma mset_js_sort [simp]: "mset (js_sort cmp xs) = mset xs"
  by (induction xs) (simp_all add: js_sort_def)

lemma mset_halves: "mset (filter P xs) + mset (filter (\<lambda>x. \<not> P x) xs) = mset xs"
  by (induction xs) auto

lemma listing_rows:
  "mset (map fst (ordered_listing th rows s now)) = mset (filter (shown_in s now) rows)"
proof -
  let ?past = "filter (\<lambda>row. isPast row now) rows"
  let ?live = "filter (\<lambda>row. \<not> isPast row now \<and> isLiveRow row) rows"
  let ?up = "filter (\<lambda>row. \<not> isPast row now \<and> \<not> isLiveRow row) rows"
  have parts: "mset (map fst (ordered_listing th rows s now)) =
      (if s = ShowAll \<or> s = ShowLive then mset ?live else {#}) +
      (if s = ShowAll \<or> s = ShowUpcoming then mset ?up else {#}) +
      (if s = ShowAll \<or> s = ShowPast then mset ?past else {#})"
    using mset_halves[of dated ?up] mset_halves[of dated ?past]
    by (simp add: ordered_listing_def Let_def comp_def del: mset_filter filter_filter mset_map)
  have "mset ?live + mset ?up + mset ?past = mset rows"
    by (induction rows) auto
  then show ?thesis unfolding parts by (cases s) (simp_all add: shown_in_def[abs_def] del: mset_filter)
qed

lemma page_at_in_range: "int k < page_count n \<Longrightarrow> page_at (f\<lparr>fl_page := Some (int k + 1)\<rparr>) n = int k + 1"
  by (simp add: page_at_def)

section \<open>Facts about filters and stamps\<close>

text \<open>What a \<open>Filters\<close> value means: blanks and defaults filled in.\<close>

definition normal_filters :: "filters \<Rightarrow> filters" where
  "normal_filters f =
     \<lparr>fl_year = fl_year f, fl_q = (if trim (fl_q f) = [] then [] else fl_q f),
      fl_show = Some (or_else (fl_show f) ShowAll), fl_page = Some (max 1 (or_else (fl_page f) 1))\<rparr>"

lemma length_nat_text_4:
  assumes "1000 \<le> n" "n \<le> 9999"
  shows "length (nat_text n) = 4"
proof -
  have "length (nat_text n) = 1 + length (nat_text (n div 10))" using assms by (simp add: nat_text_large)
  also have "\<dots> = 2 + length (nat_text (n div 10 div 10))" using assms by (simp add: nat_text_large)
  also have "\<dots> = 3 + length (nat_text (n div 10 div 10 div 10))" using assms by (simp add: nat_text_large)
  also have "\<dots> = 4" using assms by (simp add: nat_text_small)
  finally show ?thesis .
qed

lemma fits_year:
  assumes "1000 \<le> n" "n \<le> 9999"
  shows "fits year_pattern (nat_text n)" "nat_text n \<noteq> ''all''"
proof -
  show "fits year_pattern (nat_text n)" unfolding year_pattern_def fits_digits
    using length_nat_text_4[OF assms] all_digits_nat_text[of n]
    by (intro exI[of _ "nat_text n"] exI[of _ "[]"]) (simp add: all_digits_def)
  have "\<not> all_digits ''all''" by (simp add: all_digits_def is_digit_def)
  then show "nat_text n \<noteq> ''all''" using all_digits_nat_text[of n] by metis
qed

lemma find_show_name [simp]: "find (\<lambda>f. show_name f = show_name s) SHOW_FILTERS = Some s"
  by (cases s) (simp_all add: SHOW_FILTERS_def show_name_def)

text \<open>The four parameters of a printed filter.\<close>

lemma params_of_filters:
  "param_get (filtersToParams f) ''q'' = (if trim (fl_q f) \<noteq> [] then Some (fl_q f) else None)"
  "param_get (filtersToParams f) ''year'' =
     (case fl_year f of YearIs y \<Rightarrow> Some (int_text y) | EveryYear \<Rightarrow> Some ''all'' | YearUnset \<Rightarrow> None)"
  "param_get (filtersToParams f) ''show'' =
     (case fl_show f of Some s \<Rightarrow> if s \<noteq> ShowAll then Some (show_name s) else None | None \<Rightarrow> None)"
  "param_get (filtersToParams f) ''page'' =
     (if or_else (fl_page f) 1 > 1 then Some (int_text (or_else (fl_page f) 1)) else None)"
  by (simp_all add: filtersToParams_def Let_def param_get_set split: year_filter.split option.split)

lemma js_integer_one: "js_integer ''1'' = Some 1"
  by code_simp

lemma int_text_nonneg: "0 \<le> y \<Longrightarrow> int_text y = nat_text (nat y)"
  by (simp add: int_text_def)

text \<open>The fields of a stamp that fits its pattern.\<close>

lemma fits_iso:
  "fits iso_pattern s \<longleftrightarrow>
     (\<exists>y m d. y < 10000 \<and> m < 100 \<and> d < 100 \<and>
        s = fixed_text 4 y @ ''-'' @ fixed_text 2 m @ ''-'' @ fixed_text 2 d)"
  unfolding iso_pattern_def append_Nil2 fits_number fits_literal fits_number_end by auto blast

lemma iso_fields:
  fixes r :: string
  assumes "y < 10000" "m < 100" "d < 100"
  defines "s \<equiv> fixed_text 4 y @ CHR ''-'' # fixed_text 2 m @ CHR ''-'' # fixed_text 2 d @ r"
  shows "field_at 0 4 s = int y" "field_at 5 2 s = int m" "field_at 8 2 s = int d"
  using assms by (simp_all add: field_at_def s_def parse_fixed_text drop_Cons')

lemma fits_moment:
  "fits moment_pattern s \<longleftrightarrow>
     (\<exists>y m d h n. y < 10000 \<and> m < 100 \<and> d < 100 \<and> h < 100 \<and> n < 100 \<and>
        s = fixed_text 4 y @ ''-'' @ fixed_text 2 m @ ''-'' @ fixed_text 2 d @
          '' '' @ fixed_text 2 h @ '':'' @ fixed_text 2 n @ '' UTC'')"
proof -
  have tail: "fits (map Some '' UTC'') u \<longleftrightarrow> u = '' UTC''" for u
    by (simp add: fits_literal)
  show ?thesis unfolding moment_pattern_def fits_number fits_literal tail by auto blast+
qed

lemma moment_fields:
  assumes "y < 10000" "m < 100" "d < 100" "h < 100" "n < 100"
  defines "s \<equiv> fixed_text 4 y @ ''-'' @ fixed_text 2 m @ ''-'' @ fixed_text 2 d @
          '' '' @ fixed_text 2 h @ '':'' @ fixed_text 2 n @ '' UTC''"
  shows "field_at 0 4 s = int y" "field_at 5 2 s = int m" "field_at 8 2 s = int d"
    "field_at 11 2 s = int h" "field_at 14 2 s = int n"
  using assms by (simp_all add: field_at_def s_def parse_fixed_text drop_Cons')

lemma parseIsoDate_iff:
  "parseIsoDate (Some s) = Some t \<longleftrightarrow>
     (\<exists>y m d. 100 \<le> y \<and> y < 10000 \<and> m < 100 \<and> d < 100 \<and> real_date (int y) (int m - 1) (int d) \<and>
        s = fixed_text 4 y @ ''-'' @ fixed_text 2 m @ ''-'' @ fixed_text 2 d \<and>
        t = make_day (int y) (int m - 1) (int d) * DAY_MS)"
  (is "?l \<longleftrightarrow> ?r")
proof -
  have read: "parseIsoDate (Some s) =
      (if real_date (int y) (int m - 1) (int d) \<and> 99 < int y
       then Some (make_day (int y) (int m - 1) (int d) * DAY_MS) else None)"
    if "y < 10000" "m < 100" "d < 100"
      "s = fixed_text 4 y @ ''-'' @ fixed_text 2 m @ ''-'' @ fixed_text 2 d" for y m d
  proof -
    have "fits iso_pattern s" using that fits_iso by blast
    moreover have "field_at 0 4 s = int y" "field_at 5 2 s = int m" "field_at 8 2 s = int d"
      using iso_fields[OF that(1-3), of "[]"] that(4) by simp_all
    moreover have "utc_year (date_utc (int y) (int m - 1) (int d) 0 0) = int y \<and>
        utc_month (date_utc (int y) (int m - 1) (int d) 0 0) = int m - 1 \<and>
        utc_date (date_utc (int y) (int m - 1) (int d) 0 0) = int d \<longleftrightarrow>
        real_date (int y) (int m - 1) (int d) \<and> 99 < int y"
      using fields_give_back[of "int y" 0 0 "int m - 1" "int d"] clock_of_day(2,3)[of 0 0]
      by (simp add: date_utc_def)
    moreover have "99 < int y \<Longrightarrow> date_utc (int y) (int m - 1) (int d) 0 0 = make_day (int y) (int m - 1) (int d) * DAY_MS"
      by (simp add: date_utc_def)
    ultimately show ?thesis by (simp add: parseIsoDate_def Let_def)
  qed
  show ?thesis
  proof
    assume ?l
    then have "fits iso_pattern s" by (simp add: parseIsoDate_def split: if_splits)
    then obtain y m d where s: "y < 10000" "m < 100" "d < 100"
      "s = fixed_text 4 y @ ''-'' @ fixed_text 2 m @ ''-'' @ fixed_text 2 d" by (auto simp: fits_iso)
    then show ?r using \<open>?l\<close> unfolding read[OF s] by (intro exI[of _ y] exI[of _ m] exI[of _ d]) (auto split: if_splits)
  next
    assume ?r
    then obtain y m d where s: "100 \<le> y" "y < 10000" "m < 100" "d < 100"
      "real_date (int y) (int m - 1) (int d)"
      "s = fixed_text 4 y @ ''-'' @ fixed_text 2 m @ ''-'' @ fixed_text 2 d"
      "t = make_day (int y) (int m - 1) (int d) * DAY_MS" by blast
    then show ?l unfolding read[OF s(2,3,4,6)] by simp
  qed
qed

lemma parseMoment_iff:
  "parseMoment (Some s) = Some t \<longleftrightarrow>
     (\<exists>y m d h n. 100 \<le> y \<and> y < 10000 \<and> m < 100 \<and> d < 100 \<and> h < 24 \<and> n < 60 \<and>
        real_date (int y) (int m - 1) (int d) \<and>
        s = fixed_text 4 y @ ''-'' @ fixed_text 2 m @ ''-'' @ fixed_text 2 d @
          '' '' @ fixed_text 2 h @ '':'' @ fixed_text 2 n @ '' UTC'' \<and>
        t = make_day (int y) (int m - 1) (int d) * DAY_MS + int h * 3600000 + int n * 60000)"
  (is "?l \<longleftrightarrow> ?r")
proof -
  have read: "parseMoment (Some s) =
      (if real_date (int y) (int m - 1) (int d) \<and> 99 < int y \<and> h < 24 \<and> n < 60
       then Some (make_day (int y) (int m - 1) (int d) * DAY_MS + int h * 3600000 + int n * 60000) else None)"
    if s: "y < 10000" "m < 100" "d < 100" "h < 100" "n < 100"
      "s = fixed_text 4 y @ ''-'' @ fixed_text 2 m @ ''-'' @ fixed_text 2 d @
          '' '' @ fixed_text 2 h @ '':'' @ fixed_text 2 n @ '' UTC''" for y m d h n
  proof -
    have fit: "fits moment_pattern s" using s fits_moment by blast
    note fields = moment_fields[OF s(1-5), folded s(6)]
    note kept = fields_give_back[of "int y" "int h" "int n" "int m - 1" "int d"]
    have "99 < int y \<Longrightarrow> date_utc (int y) (int m - 1) (int d) (int h) (int n) =
        make_day (int y) (int m - 1) (int d) * DAY_MS + int h * 3600000 + int n * 60000"
      by (simp add: date_utc_def)
    then show ?thesis using fit kept by (auto simp: parseMoment_def Let_def fields)
  qed
  show ?thesis
  proof
    assume ?l
    then have "fits moment_pattern s" by (simp add: parseMoment_def split: if_splits)
    then obtain y m d h n where s: "y < 10000" "m < 100" "d < 100" "h < 100" "n < 100"
      "s = fixed_text 4 y @ ''-'' @ fixed_text 2 m @ ''-'' @ fixed_text 2 d @
          '' '' @ fixed_text 2 h @ '':'' @ fixed_text 2 n @ '' UTC''" unfolding fits_moment by blast
    have ok: "real_date (int y) (int m - 1) (int d) \<and> 99 < int y \<and> h < 24 \<and> n < 60"
      "t = make_day (int y) (int m - 1) (int d) * DAY_MS + int h * 3600000 + int n * 60000"
      using \<open>?l\<close> unfolding read[OF s] by (simp_all split: if_splits)
    then have "100 \<le> y" by simp
    then show ?r using s ok by blast
  next
    assume ?r
    then obtain y m d h n where s: "100 \<le> y" "y < 10000" "m < 100" "d < 100" "h < 24" "n < 60"
      "real_date (int y) (int m - 1) (int d)"
      "s = fixed_text 4 y @ ''-'' @ fixed_text 2 m @ ''-'' @ fixed_text 2 d @
          '' '' @ fixed_text 2 h @ '':'' @ fixed_text 2 n @ '' UTC''"
      "t = make_day (int y) (int m - 1) (int d) * DAY_MS + int h * 3600000 + int n * 60000" by blast
    have hn: "h < 100" "n < 100" using s by simp_all
    show ?l unfolding read[OF s(2,3,4) hn s(8)] using s(1,5,6,7,9) by simp
  qed
qed

lemma mem_open_deadlines:
  "t \<in> set (open_deadlines events) \<longleftrightarrow>
     (\<exists>e \<in> set events. pe_isOpen e \<and> parseMoment (pe_closesAt e) = Some t)"
  by (auto simp: open_deadlines_def List.map_filter_def image_iff)

lemma ceil_bounds:
  fixes x k :: int
  assumes "0 < k"
  shows "(- ((- x) div k) - 1) * k < x" "x \<le> - ((- x) div k) * k"
proof -
  define p where "p = (- x) div k"
  define r where "r = (- x) mod k"
  have "- x = p * k + r" unfolding p_def r_def by (rule div_mult_mod_eq[symmetric])
  moreover have "0 \<le> r" "r < k" using assms by (simp_all add: r_def)
  ultimately show "(- ((- x) div k) - 1) * k < x" "x \<le> - ((- x) div k) * k"
    unfolding p_def[symmetric] by (simp_all add: left_diff_distrib)
qed

lemma ceil_unique:
  fixes x k n :: int
  assumes "0 < k" "(n - 1) * k < x" "x \<le> n * k"
  shows "n = - ((- x) div k)"
proof -
  have "(n - 1) * k < - ((- x) div k) * k" by (rule less_le_trans[OF assms(2) ceil_bounds(2)[OF assms(1)]])
  moreover have "(- ((- x) div k) - 1) * k < n * k" by (rule less_le_trans[OF ceil_bounds(1)[OF assms(1)] assms(3)])
  ultimately have "n - 1 < - ((- x) div k)" "- ((- x) div k) - 1 < n"
    using assms(1) by (simp_all only: mult_less_cancel_right_pos)
  then show ?thesis by linarith
qed

lemma countdown_exact:
  "countdown t now = n \<longleftrightarrow>
     (if t \<le> now then n = 0 else 0 < n \<and> (n - 1) * DAY_MS < t - now \<and> t - now \<le> n * DAY_MS)"
proof -
  have day: "0 < DAY_MS" by (simp add: DAY_MS_def)
  let ?c = "- ((- (t - now)) div DAY_MS)"
  have c: "countdown t now = max 0 ?c" by (simp add: countdown_def)
  show ?thesis
  proof (cases "t \<le> now")
    case True
    then have "0 \<le> (- (t - now)) div DAY_MS" by (simp add: pos_imp_zdiv_nonneg_iff[OF day])
    then show ?thesis using True c by auto
  next
    case False
    then have "(- (t - now)) div DAY_MS < 0" by (simp add: pos_imp_zdiv_neg_iff[OF day])
    then have "countdown t now = ?c" "0 < ?c" using c by simp_all
    then show ?thesis using False ceil_bounds[OF day, of "t - now"] ceil_unique[OF day, of n "t - now"] by metis
  qed
qed

section \<open>Properties\<close>

text \<open>C28. The pages of the calendar list every tournament the season, the search and the slice keep,
  once each and in one order: put together, the pages are the ordered listing, which is a
  rearrangement of the kept rows; no page has more than 40 rows, its months are cut exactly where
  the month changes, and the model is always built (the walk over the months never meets a row
  without a date).\<close>

theorem season_pages_list_everything_once:
  "let s = or_else (fl_show f) ShowAll;
       listing = map fst (ordered_listing th (in_season th rows f now) s now);
       pages = map (\<lambda>k. the (seasonModel th rows (f\<lparr>fl_page := Some (int k + 1)\<rparr>) now))
         [0..<nat (page_count (length listing))]
   in seasonModel th rows f now \<noteq> None \<and>
      concat (map page_rows pages) = listing \<and>
      mset listing = mset (filter (shown_in s now) (in_season th rows f now)) \<and>
      list_all (\<lambda>m. length (page_rows m) \<le> 40 \<and> month_groups_ok (sm_upcoming m) \<and>
        month_groups_ok (sm_past m)) pages"
proof -
  let ?s = "or_else (fl_show f) ShowAll"
  let ?o = "ordered_listing th (in_season th rows f now) ?s now"
  let ?n = "nat (page_count (length ?o))"
  let ?m = "\<lambda>k. the (seasonModel th rows (f\<lparr>fl_page := Some (int k + 1)\<rparr>) now)"
  have page: "page_rows (?m k) = map fst (page_window (int k + 1) ?o) \<and>
      month_groups_ok (sm_upcoming (?m k)) \<and> month_groups_ok (sm_past (?m k))" if "k < ?n" for k
  proof -
    let ?f = "f\<lparr>fl_page := Some (int k + 1)\<rparr>"
    obtain m where m: "seasonModel th rows ?f now = Some m"
      "page_rows m = map fst (page_window (sm_page m)
         (ordered_listing th (in_season th rows ?f now) (sm_show m) now))"
      "sm_show m = or_else (fl_show ?f) ShowAll"
      "sm_listedCount m = length (ordered_listing th (in_season th rows ?f now) (sm_show m) now)"
      "sm_page m = page_at ?f (sm_listedCount m)"
      "month_groups_ok (sm_upcoming m)" "month_groups_ok (sm_past m)"
      by (rule seasonModel_page)
    have "int k < page_count (length ?o)" using that by linarith
    then have "sm_page m = int k + 1" using m(3-5) by (simp add: page_at_in_range)
    then show ?thesis using m by simp
  qed
  have "concat (map (\<lambda>k. page_rows (?m k)) [0..<?n]) = concat (map (\<lambda>k. map fst (page_window (int k + 1) ?o)) [0..<?n])"
    using page by (intro arg_cong[where f = concat] map_cong refl) simp
  also have "\<dots> = map fst (concat (map (\<lambda>k. page_window (int k + 1) ?o) [0..<?n]))"
    by (simp add: map_concat comp_def)
  finally have all: "concat (map (\<lambda>k. page_rows (?m k)) [0..<?n]) = map fst ?o" by (simp add: windows_cover)
  have size: "length (map fst (page_window (int k + 1) ?o)) \<le> 40" for k
    by (simp add: page_window_def SEASON_PAGE_SIZE_def)
  have "list_all (\<lambda>m. length (page_rows m) \<le> 40 \<and> month_groups_ok (sm_upcoming m) \<and>
      month_groups_ok (sm_past m)) (map ?m [0..<?n])"
    using page size by (auto simp: list_all_iff)
  moreover have "seasonModel th rows f now \<noteq> None" using seasonModel_page[of th rows f now] by blast
  ultimately show ?thesis using all listing_rows by (simp add: Let_def comp_def)
qed

text \<open>The calendar's address and its state agree: a filter written to a query string and read
  back is the same filter with its blanks and defaults filled in, for every season the address can
  name.\<close>

theorem filters_roundtrip:
  assumes "case fl_year f of YearIs y \<Rightarrow> 1000 \<le> y \<and> y \<le> 9999 | _ \<Rightarrow> True"
  shows "parseFilters (filtersToParams f) = normal_filters f"
proof -
  have year: "fl_year (parseFilters (filtersToParams f)) = fl_year f"
  proof (cases "fl_year f")
    case (YearIs y)
    then have y: "1000 \<le> nat y" "nat y \<le> 9999" "0 \<le> y"
      using assms by (auto simp: le_nat_iff nat_le_iff)
    then show ?thesis using YearIs fits_year[OF y(1,2)]
      by (simp add: parseFilters_def Let_def params_of_filters int_text_nonneg parse_nat_text)
  qed (simp_all add: parseFilters_def Let_def params_of_filters)
  have "fl_page (parseFilters (filtersToParams f)) = Some (max 1 (or_else (fl_page f) 1))"
    using js_integer_nat_text[of "nat (or_else (fl_page f) 1)"]
    by (simp add: parseFilters_def Let_def params_of_filters int_text_nonneg js_integer_one)
  moreover have "fl_show (parseFilters (filtersToParams f)) = Some (or_else (fl_show f) ShowAll)"
    by (cases "fl_show f") (simp_all add: parseFilters_def Let_def params_of_filters)
  moreover have "fl_q (parseFilters (filtersToParams f)) = (if trim (fl_q f) = [] then [] else fl_q f)"
    by (simp add: parseFilters_def Let_def params_of_filters)
  ultimately show ?thesis using year by (simp add: normal_filters_def)
qed

theorem filters_roundtrip_witness:
  "parseFilters (filtersToParams \<lparr>fl_year = YearIs 2026, fl_q = ''open'', fl_show = Some ShowLive, fl_page = None\<rparr>)
     = \<lparr>fl_year = YearIs 2026, fl_q = ''open'', fl_show = Some ShowLive, fl_page = Some 1\<rparr>"
  using filters_roundtrip[of "\<lparr>fl_year = YearIs 2026, fl_q = ''open'', fl_show = Some ShowLive, fl_page = None\<rparr>"]
  by (simp add: normal_filters_def trim_def js_space_def)

text \<open>C30. A stamp is read exactly when it is the zero-padded text of a date that exists in the calendar
  (and of a time of day), in a year from 100 to 9999, and it is read as that very instant; every
  other text, a 30 February included, is no stamp.\<close>

theorem stamps_read_exactly:
  "(parseIsoDate (Some s) = Some t \<longleftrightarrow>
     (\<exists>y m d. 100 \<le> y \<and> y < 10000 \<and> m < 100 \<and> d < 100 \<and> real_date (int y) (int m - 1) (int d) \<and>
        s = fixed_text 4 y @ ''-'' @ fixed_text 2 m @ ''-'' @ fixed_text 2 d \<and>
        t = make_day (int y) (int m - 1) (int d) * DAY_MS)) \<and>
   (parseMoment (Some s) = Some t \<longleftrightarrow>
     (\<exists>y m d h n. 100 \<le> y \<and> y < 10000 \<and> m < 100 \<and> d < 100 \<and> h < 24 \<and> n < 60 \<and>
        real_date (int y) (int m - 1) (int d) \<and>
        s = fixed_text 4 y @ ''-'' @ fixed_text 2 m @ ''-'' @ fixed_text 2 d @
          '' '' @ fixed_text 2 h @ '':'' @ fixed_text 2 n @ '' UTC'' \<and>
        t = make_day (int y) (int m - 1) (int d) * DAY_MS + int h * 3600000 + int n * 60000))"
  by (rule conjI[OF parseIsoDate_iff parseMoment_iff])

text \<open>The countdown never overstates the time left: what the chip counts to is the earliest
  deadline of an event that is open, the number is the least number of whole days that reaches it,
  and 0 exactly when it has passed; the raw deadline the entry form states is that same one.\<close>

theorem chip_counts_to_nearest_deadline:
  assumes "chipState events now = EntriesOpenChip (Some n) x"
  shows "\<exists>e t. e \<in> set events \<and> pe_isOpen e \<and> parseMoment (pe_closesAt e) = Some t \<and>
     (\<forall>e' t'. e' \<in> set events \<and> pe_isOpen e' \<and> parseMoment (pe_closesAt e') = Some t' \<longrightarrow> t \<le> t') \<and>
     (if t \<le> now then n = 0 else 0 < n \<and> (n - 1) * DAY_MS < t - now \<and> t - now \<le> n * DAY_MS) \<and>
     parseMoment (nearestCloseAt events) = Some t"
proof -
  let ?ds = "open_deadlines events"
  have ne: "?ds \<noteq> []" and n: "countdown (Min (set ?ds)) now = n"
    using assms by (auto simp: chipState_def Let_def split: if_splits)
  have "Min (set ?ds) \<in> set ?ds" using ne by simp
  then obtain e where e: "e \<in> set events" "pe_isOpen e" "parseMoment (pe_closesAt e) = Some (Min (set ?ds))"
    by (auto simp: mem_open_deadlines)
  have least: "Min (set ?ds) \<le> t'" if "e' \<in> set events" "pe_isOpen e'" "parseMoment (pe_closesAt e') = Some t'" for e' t'
    using that mem_open_deadlines[of t' events] by (intro Min_le) auto
  let ?pairs = "List.map_filter (\<lambda>e. map_option (\<lambda>t. (pe_closesAt e, t)) (parseMoment (pe_closesAt e)))
      (filter pe_isOpen events)"
  have mem: "p \<in> set ?pairs \<longleftrightarrow> parseMoment (fst p) = Some (snd p) \<and>
      (\<exists>e \<in> set events. pe_isOpen e \<and> pe_closesAt e = fst p)" for p
    by (cases p) (auto simp: List.map_filter_def image_iff)
  have in_pairs: "(pe_closesAt e, Min (set ?ds)) \<in> set ?pairs" using e by (auto simp: mem)
  then have "sort_key snd ?pairs \<noteq> []" by force
  then obtain p ps where p: "sort_key snd ?pairs = p # ps" by (cases "sort_key snd ?pairs") auto
  then have "p \<in> set ?pairs" by (metis list.set_intros(1) set_sort)
  then have "parseMoment (fst p) = Some (snd p)" "Min (set ?ds) \<le> snd p"
    using least by (auto simp: mem)
  moreover have "snd p \<le> Min (set ?ds)" using hd_sort_key_least[OF p in_pairs] by simp
  ultimately have "parseMoment (nearestCloseAt events) = Some (Min (set ?ds))"
    by (simp add: nearestCloseAt_def Let_def p)
  then show ?thesis using e least n[unfolded countdown_exact] by blast
qed

theorem chip_counts_to_nearest_deadline_witness:
  "\<exists>t. parseMoment (nearestCloseAt [\<lparr>pe_isOpen = True, pe_opensAt = None,
       pe_closesAt = Some ''2026-08-11 12:00 UTC'', pe_withdrawsUntil = None\<rparr>]) = Some t \<and>
     t - 1786406400000 \<le> DAY_MS"
proof -
  let ?evs = "[\<lparr>pe_isOpen = True, pe_opensAt = None, pe_closesAt = Some ''2026-08-11 12:00 UTC'',
    pe_withdrawsUntil = None\<rparr>]"
  have "chipState ?evs 1786406400000 = EntriesOpenChip (Some 1) None" by code_simp
  from chip_counts_to_nearest_deadline[OF this] show ?thesis by (auto simp: DAY_MS_def split: if_splits)
qed

end
