(* ===== verification/EntrantText.thy ===== *)
theory EntrantText
  imports EntrantPhase TimeSlots
begin

text \<open>
  The words of the public site, under \<open>src/apps/entrant\<close>: dates and clocks (\<open>app/lib/format.ts\<close>), money
  (\<open>money.ts\<close>), scores (\<open>score.ts\<close>), people and sides (\<open>public/assets/person-ref.js\<close>, \<open>side.ts\<close>), and the
  labels of draws, rounds and events (\<open>draws.types.ts\<close>, \<open>eventLabels.ts\<close>). The host gives letter case
  (\<open>lower\<close>, \<open>upper\<close>) and the parts of an instant in a time zone (\<open>zone_host\<close>). The names that every object
  inherits (\<open>constructor\<close>) are taken not to be draw formats.
\<close>

section \<open>Dates and clocks\<close>

definition MONTHS :: "string list" where
  "MONTHS = [''Jan'', ''Feb'', ''Mar'', ''Apr'', ''May'', ''Jun'', ''Jul'', ''Aug'', ''Sep'', ''Oct'', ''Nov'', ''Dec'']"

definition WEEKDAYS :: "string list" where
  "WEEKDAYS = [''Sunday'', ''Monday'', ''Tuesday'', ''Wednesday'', ''Thursday'', ''Friday'', ''Saturday'']"

definition WEEKDAYS_SHORT :: "string list" where
  "WEEKDAYS_SHORT = [''Sun'', ''Mon'', ''Tue'', ''Wed'', ''Thu'', ''Fri'', ''Sat'']"

definition monthShort :: "int \<Rightarrow> string" where
  "monthShort index = (if 0 \<le> index \<and> index < int (length MONTHS) then MONTHS ! nat index else [])"

text \<open>\<open>getUTCDay\<close>; day 0 was a Thursday.\<close>

definition utc_weekday :: "int \<Rightarrow> nat" where
  "utc_weekday t = nat ((utc_day t + 4) mod 7)"

text \<open>\<open>/^(\d{4}-\d{2}-\d{2})T/\<close>.\<close>

definition dateOfIso :: "string option \<Rightarrow> string option" where
  "dateOfIso stamp =
     (let s = or_else stamp []
      in if fits iso_pattern (take 10 s) \<and> take 1 (drop 10 s) = ''T'' then Some (take 10 s) else None)"

definition formatDateLong :: "string option \<Rightarrow> string" where
  "formatDateLong stamp =
     (case parseIsoDate stamp of
        None \<Rightarrow> []
      | Some date \<Rightarrow> WEEKDAYS ! utc_weekday date @ '' '' @ int_text (utc_date date) @ '' '' @
          monthLong (utc_month date) @ '' '' @ int_text (utc_year date))"

definition formatCalendarDay :: "string \<Rightarrow> string" where
  "formatCalendarDay day =
     (case parseIsoDate (Some day) of
        None \<Rightarrow> day
      | Some date \<Rightarrow> WEEKDAYS ! utc_weekday date @ '', '' @ monthLong (utc_month date) @ '' '' @ int_text (utc_date date))"

definition short_date :: "int \<Rightarrow> string" where
  "short_date d = int_text (utc_date d) @ '' '' @ MONTHS ! nat (utc_month d)"

definition formatDateRangeShort :: "string option \<Rightarrow> string option \<Rightarrow> string" where
  "formatDateRangeShort start stop =
     (case parseIsoDate start of
        None \<Rightarrow> []
      | Some first \<Rightarrow>
          (case parseIsoDate stop of
             None \<Rightarrow> short_date first @ '' '' @ int_text (utc_year first)
           | Some final \<Rightarrow>
               if final = first then short_date first @ '' '' @ int_text (utc_year first)
               else if utc_year final = utc_year first
               then short_date first @ '' '' @ endash @ '' '' @ short_date final @ '' '' @ int_text (utc_year first)
               else short_date first @ '' '' @ int_text (utc_year first) @ '' '' @ endash @ '' '' @
                 short_date final @ '' '' @ int_text (utc_year final)))"

definition formatCalendarDayShort :: "string \<Rightarrow> string" where
  "formatCalendarDayShort day =
     (case parseIsoDate (Some day) of
        None \<Rightarrow> day
      | Some date \<Rightarrow> WEEKDAYS_SHORT ! utc_weekday date @ '' '' @ int_text (utc_date date) @ '' '' @ MONTHS ! nat (utc_month date))"

definition formatCalendarMonth :: "string \<Rightarrow> string" where
  "formatCalendarMonth month =
     (case parseIsoDate (Some (month @ ''-01'')) of
        None \<Rightarrow> month
      | Some date \<Rightarrow> monthLong (utc_month date) @ '' '' @ int_text (utc_year date))"

definition formatUtcInstant :: "int \<Rightarrow> string" where
  "formatUtcInstant moment =
     short_date moment @ '' '' @ int_text (utc_year moment) @ '', '' @ pad2 (utc_hours moment) @ '':'' @
     pad2 (utc_minutes moment) @ '' UTC''"

definition formatMoment :: "string \<Rightarrow> string" where
  "formatMoment wire = (case parseMoment (Some wire) of None \<Rightarrow> wire | Some moment \<Rightarrow> formatUtcInstant moment)"

text \<open>The parts \<open>Intl.DateTimeFormat\<close> gives in a zone; \<open>None\<close> is the error for an unknown zone.\<close>

record zone_parts =
  zp_day :: string
  zp_month :: string
  zp_year :: string
  zp_hour :: string
  zp_minute :: string
  zp_zone :: string

type_synonym zone_host = "string \<Rightarrow> int \<Rightarrow> zone_parts option"

definition formatMomentInZone :: "zone_host \<Rightarrow> string \<Rightarrow> string \<Rightarrow> string option" where
  "formatMomentInZone zh wire timeZone =
     (case parseMoment (Some wire) of
        None \<Rightarrow> None
      | Some moment \<Rightarrow>
          (case zh timeZone moment of
             Some p \<Rightarrow> Some (zp_day p @ '' '' @ zp_month p @ '' '' @ zp_year p @ '', '' @ zp_hour p @ '':'' @
               zp_minute p @ '' '' @ zp_zone p)
           | None \<Rightarrow> Some (formatMoment wire)))"

definition dateFromInstant :: "zone_host \<Rightarrow> int \<Rightarrow> string \<Rightarrow> string" where
  "dateFromInstant zh moment timeZone =
     (case zh timeZone moment of
        Some p \<Rightarrow> zp_day p @ '' '' @ zp_month p @ '' '' @ zp_year p
      | None \<Rightarrow> short_date moment @ '' '' @ int_text (utc_year moment))"

definition formatDateInZone :: "zone_host \<Rightarrow> string \<Rightarrow> string \<Rightarrow> string option" where
  "formatDateInZone zh wire timeZone = map_option (\<lambda>moment. dateFromInstant zh moment timeZone) (parseMoment (Some wire))"

definition formatClockInZone :: "zone_host \<Rightarrow> int \<Rightarrow> string \<Rightarrow> string" where
  "formatClockInZone zh moment timeZone =
     (case zh timeZone moment of
        Some p \<Rightarrow> zp_hour p @ '':'' @ zp_minute p
      | None \<Rightarrow> pad2 (utc_hours moment) @ '':'' @ pad2 (utc_minutes moment))"

text \<open>\<open>read\<close> is the date constructor on a text; \<open>None\<close> is an invalid date.\<close>

definition formatInstantInZone :: "zone_host \<Rightarrow> (string \<Rightarrow> int option) \<Rightarrow> string \<Rightarrow> string \<Rightarrow> string option" where
  "formatInstantInZone zh read stamp timeZone =
     map_option (\<lambda>moment. dateFromInstant zh moment timeZone @ '', '' @ formatClockInZone zh moment timeZone) (read stamp)"

definition formatDayMonthInZone :: "zone_host \<Rightarrow> string \<Rightarrow> string \<Rightarrow> string option" where
  "formatDayMonthInZone zh wire timeZone =
     map_option (\<lambda>moment. case zh timeZone moment of
        Some p \<Rightarrow> zp_day p @ '' '' @ zp_month p | None \<Rightarrow> short_date moment) (parseMoment (Some wire))"

definition formatDayMonthTimeInZone :: "zone_host \<Rightarrow> string \<Rightarrow> string \<Rightarrow> string option" where
  "formatDayMonthTimeInZone zh wire timeZone =
     (case parseMoment (Some wire) of
        None \<Rightarrow> None
      | Some moment \<Rightarrow> map_option (\<lambda>day. day @ '', '' @ formatClockInZone zh moment timeZone)
          (formatDayMonthInZone zh wire timeZone))"

definition formatDateTimeInZone :: "zone_host \<Rightarrow> string \<Rightarrow> string \<Rightarrow> string option" where
  "formatDateTimeInZone zh wire timeZone =
     (case parseMoment (Some wire) of
        None \<Rightarrow> None
      | Some moment \<Rightarrow> map_option (\<lambda>day. day @ '', '' @ formatClockInZone zh moment timeZone)
          (formatDateInZone zh wire timeZone))"

definition CHIP_ABSOLUTE_DATE_THRESHOLD_DAYS :: int where
  "CHIP_ABSOLUTE_DATE_THRESHOLD_DAYS = 99"

definition capChipCountdown :: "zone_host \<Rightarrow> chip_state \<Rightarrow> string option \<Rightarrow> string \<Rightarrow> chip_state" where
  "capChipCountdown zh state closesAt timeZone =
     (case (state, closesAt) of
        (EntriesOpenChip (Some days) _, Some wire) \<Rightarrow>
          if days \<le> CHIP_ABSOLUTE_DATE_THRESHOLD_DAYS then state
          else (case formatDateInZone zh wire timeZone of
                  None \<Rightarrow> state | Some exact \<Rightarrow> EntriesOpenChip (Some days) (Some exact))
      | _ \<Rightarrow> state)"

datatype clock_kind = ClockScheduled | ClockEstimated | ClockActual

definition clockKindLabel :: "clock_kind \<Rightarrow> string" where
  "clockKindLabel kind =
     (case kind of ClockEstimated \<Rightarrow> ''Estimated'' | ClockActual \<Rightarrow> ''Started'' | ClockScheduled \<Rightarrow> ''Scheduled'')"

definition labelledClock :: "clock_kind \<Rightarrow> string option \<Rightarrow> string option" where
  "labelledClock kind clock = (if truthy clock then Some (clockKindLabel kind @ '' '' @ the clock) else None)"

section \<open>Money and scores\<close>

text \<open>\<open>(cents / 100).toFixed(2)\<close>.\<close>

definition fixed_cents :: "int \<Rightarrow> string" where
  "fixed_cents c =
     (let a = nat \<bar>c\<bar>
      in (if c < 0 then ''-'' else []) @ nat_text (a div 100) @ ''.'' @ fixed_text 2 (a mod 100))"

definition formatCents :: "int option \<Rightarrow> string" where
  "formatCents cents = (case cents of None \<Rightarrow> [] | Some c \<Rightarrow> fixed_cents c)"

definition formatMoney :: "(string \<Rightarrow> string) \<Rightarrow> int option \<Rightarrow> string option \<Rightarrow> string" where
  "formatMoney upper cents currency =
     (let figure = formatCents cents; code = upper (trim (or_else currency []))
      in if figure = [] then [] else if code = [] then figure else code @ '' '' @ figure)"

definition game_at :: "'a list \<Rightarrow> nat \<Rightarrow> 'a option" where
  "game_at xs i = (if i < length xs then Some (xs ! i) else None)"

text \<open>A number that is missing from a game is \<open>None\<close>.\<close>

definition gameScore :: "int option list list option \<Rightarrow> nat \<Rightarrow> nat \<Rightarrow> int option" where
  "gameScore score game index =
     Option.bind score (\<lambda>games. Option.bind (game_at games game) (\<lambda>g. Option.bind (game_at g index) (\<lambda>n. n)))"

definition score_text :: "int option \<Rightarrow> string" where
  "score_text n = (case n of None \<Rightarrow> [] | Some k \<Rightarrow> int_text k)"

definition pairedScoreLine :: "int option list list option \<Rightarrow> string option" where
  "pairedScoreLine score =
     (case score of
        None \<Rightarrow> None
      | Some games \<Rightarrow>
          if games = [] then None
          else Some (join_with '', '' (map (\<lambda>game.
            score_text (gameScore score game 0) @ endash @ score_text (gameScore score game 1)) [0..<length games])))"

section \<open>People and sides\<close>

record person_identity =
  pi_id :: "string option"
  pi_name :: string

record person_reference =
  pr_identity :: "person_identity option"
  pr_dead :: bool
  pr_label :: "string option"

definition personHref :: "string \<Rightarrow> person_identity option \<Rightarrow> string option" where
  "personHref slug identity =
     (case Option.bind identity pi_id of
        None \<Rightarrow> None
      | Some i \<Rightarrow> if slug = [] \<or> i = [] then None
          else Some (''/e/'' @ encode_uri_component slug @ ''/players/'' @ encode_uri_component i))"

record person_model =
  pn_text :: string
  pn_href :: "string option"
  pn_personId :: "string option"

definition personRefModel :: "string \<Rightarrow> person_identity option \<Rightarrow> bool \<Rightarrow> string option \<Rightarrow> person_model" where
  "personRefModel slug identity dead label =
     (let shown = (case identity of Some i \<Rightarrow> pi_name i | None \<Rightarrow> or_else label ''To be decided'');
          href = (if dead then None else personHref slug identity)
      in \<lparr>pn_text = shown, pn_href = href, pn_personId = (if href \<noteq> None then Option.bind identity pi_id else None)\<rparr>)"

datatype side_kind = SideBye | SidePending | SideWinnerOf | SideLoserOf | SideWithheld | SideUndetermined

record side_like =
  sl_persons :: "person_reference list"
  sl_placeholder :: "string option"
  sl_unresolved :: "side_kind option"

definition PENDING_MEMBER_LABEL :: string where
  "PENDING_MEMBER_LABEL = ''partner to be confirmed''"

definition feederLabel :: string where
  "feederLabel = ''TBD''"

definition unresolvedLabel :: "side_kind option \<Rightarrow> string option" where
  "unresolvedLabel unresolved =
     (case unresolved of
        None \<Rightarrow> None
      | Some SideBye \<Rightarrow> Some ''Bye''
      | Some SideWinnerOf \<Rightarrow> Some feederLabel
      | Some SideLoserOf \<Rightarrow> Some feederLabel
      | Some SideWithheld \<Rightarrow> Some ''Player not published''
      | Some SideUndetermined \<Rightarrow> Some ''To be decided''
      | Some SidePending \<Rightarrow> None)"

definition isFeederSide :: "side_like \<Rightarrow> bool" where
  "isFeederSide side \<longleftrightarrow> sl_unresolved side = Some SideWinnerOf \<or> sl_unresolved side = Some SideLoserOf"

definition isPendingPair :: "side_like \<Rightarrow> bool" where
  "isPendingPair side \<longleftrightarrow> sl_unresolved side = Some SidePending"

definition sideFallbackLabel :: "side_like \<Rightarrow> string" where
  "sideFallbackLabel side = or_else (or_opt (unresolvedLabel (sl_unresolved side)) (sl_placeholder side)) ''To be decided''"

definition person_text :: "string \<Rightarrow> person_reference \<Rightarrow> string" where
  "person_text slug person = pn_text (personRefModel slug (pr_identity person) (pr_dead person) (pr_label person))"

definition sideNamePhrase :: "string \<Rightarrow> side_like \<Rightarrow> string" where
  "sideNamePhrase slug side =
     (if sl_persons side \<noteq> [] then
        join_with '' and '' (map (person_text slug) (sl_persons side)
          @ (if isPendingPair side then [PENDING_MEMBER_LABEL] else []))
      else sideFallbackLabel side)"

definition entrantSummaryPhrase :: "string \<Rightarrow> side_like list \<Rightarrow> string" where
  "entrantSummaryPhrase slug sides = join_with '' versus '' (map (sideNamePhrase slug) sides)"

section \<open>Events, draws and rounds\<close>

definition kindLabel :: "string \<Rightarrow> string" where
  "kindLabel kind =
     or_else (map_of [(''se'', ''Elimination''), (''de'', ''Double elimination''), (''rr'', ''Round robin''),
       (''swiss'', ''Swiss''), (''compass'', ''Compass''), (''monrad'', ''Monrad'')] kind) kind"

definition EVENT_CODES :: "string list" where
  "EVENT_CODES = [''MS'', ''WS'', ''MD'', ''WD'', ''XD'']"

text \<open>\<open>replace(/[_-]+/g, ' ')\<close> and \<open>replace(/\b\w/g, upper case)\<close>.\<close>

fun squash_marks :: "bool \<Rightarrow> string \<Rightarrow> string" where
  "squash_marks inside [] = []"
| "squash_marks inside (c # cs) =
     (if c = CHR ''_'' \<or> c = CHR ''-'' then (if inside then squash_marks True cs else CHR '' '' # squash_marks True cs)
      else c # squash_marks False cs)"

definition word_char :: "char \<Rightarrow> bool" where
  "word_char c \<longleftrightarrow> is_digit c \<or> (65 \<le> (of_char c :: nat) \<and> (of_char c :: nat) \<le> 90) \<or>
     (97 \<le> (of_char c :: nat) \<and> (of_char c :: nat) \<le> 122) \<or> c = CHR ''_''"

definition upper_char :: "char \<Rightarrow> char" where
  "upper_char c = (if 97 \<le> (of_char c :: nat) \<and> (of_char c :: nat) \<le> 122 then char_of (of_char c - 32 :: nat) else c)"

fun capital_words :: "bool \<Rightarrow> string \<Rightarrow> string" where
  "capital_words inside [] = []"
| "capital_words inside (c # cs) =
     (if word_char c \<and> \<not> inside then upper_char c else c) # capital_words (word_char c) cs"

definition has_mark :: "string \<Rightarrow> bool" where
  "has_mark s \<longleftrightarrow> CHR ''_'' \<in> set s \<or> CHR ''-'' \<in> set s"

definition readable :: "(string \<Rightarrow> string) \<Rightarrow> string \<Rightarrow> string" where
  "readable lower s = capital_words False (lower (squash_marks False s))"

definition eventCodeLabel :: "(string \<Rightarrow> string) \<Rightarrow> (string \<Rightarrow> string) \<Rightarrow> string \<Rightarrow> string" where
  "eventCodeLabel lower upper code =
     (let normalized = upper (trim code)
      in case find (\<lambda>k. normalized = k \<or> suffix (''-'' @ k) normalized) EVENT_CODES of
           Some k \<Rightarrow> k
         | None \<Rightarrow> if has_mark normalized then readable lower normalized else normalized)"

definition discipline_names :: "string list \<Rightarrow> (string, string) dict" where
  "discipline_names words =
     (let men = ''Men'' @ [CHR 0x27] @ ''s ''; women = ''Women'' @ [CHR 0x27] @ ''s ''
      in [(''MS'', men @ words ! 0), (''WS'', women @ words ! 0), (''MD'', men @ words ! 1), (''WD'', women @ words ! 1)])"

definition eventDisciplineLabel :: "(string \<Rightarrow> string) \<Rightarrow> (string \<Rightarrow> string) \<Rightarrow> string \<Rightarrow> string" where
  "eventDisciplineLabel lower upper code =
     (let compact = eventCodeLabel lower upper code; source = trim code
      in case map_of (discipline_names [''Singles'', ''Doubles''] @ [(''XD'', ''Mixed Doubles'')]) compact of
           Some label \<Rightarrow> label
         | None \<Rightarrow> if has_mark source then readable lower source else source)"

definition EVENT_LABEL_MAP :: "(string, string) dict" where
  "EVENT_LABEL_MAP = discipline_names [''singles'', ''doubles''] @ [(''XD'', ''Mixed doubles'')]"

definition eventLabel :: "(string \<Rightarrow> string) \<Rightarrow> (string \<Rightarrow> string) \<Rightarrow> string \<Rightarrow> string" where
  "eventLabel lower upper code =
     (let normalized = eventCodeLabel lower upper code in or_else (map_of EVENT_LABEL_MAP normalized) normalized)"

definition isStandardEventCode :: "(string \<Rightarrow> string) \<Rightarrow> (string \<Rightarrow> string) \<Rightarrow> string \<Rightarrow> bool" where
  "isStandardEventCode lower upper code \<longleftrightarrow> map_of EVENT_LABEL_MAP (eventCodeLabel lower upper code) \<noteq> None"

definition fold_marks :: "string \<Rightarrow> string" where
  "fold_marks s = map (\<lambda>c. if c \<in> set ''._-'' then CHR '' '' else c) s"

definition roundLabel :: "(string \<Rightarrow> string) \<Rightarrow> string option \<Rightarrow> string option" where
  "roundLabel lower raw =
     (if \<not> truthy raw then None
      else
        let v = trim (the raw); folded = fold_marks (lower v)
        in if folded \<in> {''f'', ''final'', ''finals''} then Some ''Final''
           else if folded \<in> {''sf'', ''semi final'', ''semifinal'', ''semifinals''} then Some ''Semifinals''
           else if folded \<in> {''qf'', ''quarter final'', ''quarterfinal'', ''quarterfinals''} then Some ''Quarterfinals''
           else if folded \<in> {''r16'', ''round 16'', ''round of 16''} then Some ''Round of 16''
           else if folded \<in> {''r32'', ''round 32'', ''round of 32''} then Some ''Round of 32''
           else if folded \<in> {''r64'', ''round 64'', ''round of 64''} then Some ''Round of 64''
           else Some v)"

definition numbered_round :: "string \<Rightarrow> string \<Rightarrow> string option" where
  "numbered_round stem v =
     (if prefix stem v \<and> all_digits (drop (length stem) v) then Some (''R'' @ drop (length stem) v) else None)"

definition roundShortLabel :: "(string \<Rightarrow> string) \<Rightarrow> string option \<Rightarrow> string option" where
  "roundShortLabel lower raw =
     (if \<not> truthy raw then None
      else
        let v = or_else (roundLabel lower raw) (trim (the raw))
        in if v = ''Final'' then Some ''F''
           else if v = ''Semifinals'' then Some ''SF''
           else if v = ''Quarterfinals'' then Some ''QF''
           else Some (or_else (or_opt (numbered_round ''Round of '' v) (numbered_round ''Round '' v)) v))"

datatype draw_state = DrawComplete | DrawInPlay | DrawScheduled | DrawToPlay

record draw_progress =
  dg_state :: draw_state
  dg_roundLabel :: "string option"
  dg_startTime :: "string option"

definition drawProgressLabel :: "draw_progress option \<Rightarrow> string option" where
  "drawProgressLabel progress =
     (case progress of
        None \<Rightarrow> None
      | Some p \<Rightarrow>
          if dg_state p = DrawComplete then Some ''Complete''
          else if \<not> truthy (dg_roundLabel p) then None
          else let rnd = the (dg_roundLabel p)
               in if dg_state p = DrawInPlay then Some (rnd @ '' in play'')
                  else if dg_state p = DrawScheduled \<and> truthy (dg_startTime p)
                  then Some (rnd @ '' '' @ the (dg_startTime p))
                  else Some (rnd @ '' to play''))"

definition entryCountLabel :: "(string \<Rightarrow> string) \<Rightarrow> (string \<Rightarrow> string) \<Rightarrow> string \<Rightarrow> int \<Rightarrow> string" where
  "entryCountLabel lower upper code entries =
     (let doubles = eventCodeLabel lower upper code \<in> set [''MD'', ''WD'', ''XD''];
          word = (if doubles then (if entries = 1 then ''pair'' else ''pairs'')
                   else if entries = 1 then ''player'' else ''players'')
      in int_text entries @ '' '' @ word)"

definition isRoundRobin :: "string \<Rightarrow> bool" where
  "isRoundRobin kind \<longleftrightarrow> kind = ''rr'' \<or> kind = ''swiss''"

section \<open>Stamps shown without loss\<close>

lemma cut_at:
  assumes "a @ c # r = b @ c # s" "c \<notin> set a" "c \<notin> set b"
  shows "a = b \<and> r = s"
  using assms
proof (induction a arbitrary: b)
  case Nil
  then show ?case by (cases b) auto
next
  case (Cons x a)
  then show ?case by (cases b) auto
qed

lemma nat_text_no: "\<not> is_digit c \<Longrightarrow> c \<notin> set (nat_text n)"
  using nat_text_digits by blast

lemma int_text_nat: "int_text (int n) = nat_text n"
  by (simp add: int_text_def)

lemma pad2_nat: "pad2 (int n) = replicate (2 - length (nat_text n)) CHR ''0'' @ nat_text n"
  by (simp add: pad2_def int_text_nat Let_def)

lemma pad2_no: "\<not> is_digit c \<Longrightarrow> c \<notin> set (pad2 (int n))"
  using nat_text_no[of c n] by (auto simp: pad2_nat is_digit_def)

lemma pad2_inject:
  assumes "m < 60" "n < 60" "pad2 (int m) = pad2 (int n)"
  shows "m = n"
proof -
  have pad: "pad2 (int k) = fixed_text 2 k" if "k < 60" for k
  proof (cases "k < 10")
    case True
    then show ?thesis by (simp add: pad2_nat nat_text_small numeral_2_eq_2 zero_char digit_char_def)
  next
    case False
    with that have "k div 10 < 10" by (simp add: less_mult_imp_div_less)
    with False show ?thesis by (simp add: pad2_nat nat_text_large nat_text_small numeral_2_eq_2)
  qed
  have "parse_nat (fixed_text 2 k) = k" if "k < 60" for k using that by (intro parse_fixed_text) simp
  then show ?thesis using assms pad by metis
qed

lemma month_names: "m < 12 \<Longrightarrow> CHR '' '' \<notin> set (MONTHS ! m)"
  "m < 12 \<Longrightarrow> n < 12 \<Longrightarrow> MONTHS ! m = MONTHS ! n \<Longrightarrow> m = n"
proof -
  have d: "distinct MONTHS" "length MONTHS = 12" "\<forall>s \<in> set MONTHS. CHR '' '' \<notin> set s" by (simp_all add: MONTHS_def)
  show "m < 12 \<Longrightarrow> CHR '' '' \<notin> set (MONTHS ! m)" using d by simp
  show "m < 12 \<Longrightarrow> n < 12 \<Longrightarrow> MONTHS ! m = MONTHS ! n \<Longrightarrow> m = n" using d by (simp add: nth_eq_iff_index_eq)
qed

definition shown_moment :: "nat \<Rightarrow> nat \<Rightarrow> nat \<Rightarrow> nat \<Rightarrow> nat \<Rightarrow> string" where
  "shown_moment y m d h n =
     nat_text d @ '' '' @ MONTHS ! (m - 1) @ '' '' @ nat_text y @ '', '' @ pad2 (int h) @ '':'' @ pad2 (int n) @ '' UTC''"

lemma formatMoment_shown:
  assumes "parseMoment (Some s) = Some t"
  shows "\<exists>y m d h n. 1 \<le> m \<and> m \<le> 12 \<and> h < 24 \<and> n < 60 \<and> formatMoment s = shown_moment y m d h n \<and>
    s = fixed_text 4 y @ ''-'' @ fixed_text 2 m @ ''-'' @ fixed_text 2 d @ '' '' @ fixed_text 2 h @ '':'' @ fixed_text 2 n @ '' UTC''"
proof -
  from assms obtain y m d h n where f: "h < 24" "n < 60" "real_date (int y) (int m - 1) (int d)"
      "s = fixed_text 4 y @ ''-'' @ fixed_text 2 m @ ''-'' @ fixed_text 2 d @ '' '' @ fixed_text 2 h @ '':'' @
         fixed_text 2 n @ '' UTC''"
      "t = make_day (int y) (int m - 1) (int d) * DAY_MS + int h * 3600000 + int n * 60000"
    unfolding parseMoment_iff by blast
  have m: "1 \<le> m" "m \<le> 12" using f(3) by (auto simp: real_date_def)
  have month: "nat (int m - 1) = m - 1" by simp
  have clock: "utc_day t = make_day (int y) (int m - 1) (int d)" "utc_hours t = int h" "utc_minutes t = int n"
    unfolding f(5) by (rule clock_of_day; use f(1,2) in simp)+
  have date: "utc_year t = int y" "utc_month t = int m - 1" "utc_date t = int d"
    using getters_of_make_day[OF f(3)] by (simp_all add: utc_year_def utc_month_def utc_date_def clock(1))
  have "formatMoment s = shown_moment y m d h n"
    by (simp add: formatMoment_def assms formatUtcInstant_def short_date_def shown_moment_def clock(2,3) date int_text_nat month)
  then show ?thesis using f m by blast
qed

lemma shown_moment_inject:
  assumes "shown_moment y m d h n = shown_moment y' m' d' h' n'" "1 \<le> m" "m \<le> 12" "1 \<le> m'" "m' \<le> 12"
    "h < 24" "n < 60" "h' < 24" "n' < 60"
  shows "y = y' \<and> m = m' \<and> d = d' \<and> h = h' \<and> n = n'"
proof -
  have digit: "\<not> is_digit CHR '' ''" "\<not> is_digit CHR '',''" "\<not> is_digit CHR '':''" by (simp_all add: is_digit_def)
  have months: "CHR '' '' \<notin> set (MONTHS ! (m - 1))" "CHR '' '' \<notin> set (MONTHS ! (m' - 1))"
    by (rule month_names(1); use assms(2-5) in simp)+
  from assms(1) have "nat_text d = nat_text d' \<and> MONTHS ! (m - 1) @ '' '' @ nat_text y @ '', '' @ pad2 (int h) @ '':'' @ pad2 (int n) @ '' UTC'' =
      MONTHS ! (m' - 1) @ '' '' @ nat_text y' @ '', '' @ pad2 (int h') @ '':'' @ pad2 (int n') @ '' UTC''"
    unfolding shown_moment_def by (intro cut_at[where c = "CHR '' ''"]) (simp_all add: nat_text_no digit)
  then have d: "d = d'" and rest: "MONTHS ! (m - 1) @ CHR '' '' # nat_text y @ '', '' @ pad2 (int h) @ '':'' @ pad2 (int n) @ '' UTC'' =
      MONTHS ! (m' - 1) @ CHR '' '' # nat_text y' @ '', '' @ pad2 (int h') @ '':'' @ pad2 (int n') @ '' UTC''"
    using nat_text_inject by auto
  then have mm: "MONTHS ! (m - 1) = MONTHS ! (m' - 1)"
    and "nat_text y @ CHR '','' # '' '' @ pad2 (int h) @ '':'' @ pad2 (int n) @ '' UTC'' =
      nat_text y' @ CHR '','' # '' '' @ pad2 (int h') @ '':'' @ pad2 (int n') @ '' UTC''"
    using cut_at[OF rest months] by simp_all
  then have "nat_text y = nat_text y' \<and> '' '' @ pad2 (int h) @ '':'' @ pad2 (int n) @ '' UTC'' =
      '' '' @ pad2 (int h') @ '':'' @ pad2 (int n') @ '' UTC''"
    by (intro cut_at[where c = "CHR '',''"]) (simp_all add: nat_text_no digit)
  then have y: "y = y'" and "pad2 (int h) @ CHR '':'' # pad2 (int n) @ '' UTC'' = pad2 (int h') @ CHR '':'' # pad2 (int n') @ '' UTC''"
    using nat_text_inject by auto
  then have "pad2 (int h) = pad2 (int h') \<and> pad2 (int n) @ '' UTC'' = pad2 (int n') @ '' UTC''"
    by (intro cut_at[where c = "CHR '':''"]) (simp_all add: pad2_no digit)
  then have "h = h'" "n = n'" using assms(6-9) pad2_inject by simp_all
  moreover have "m - 1 = m' - 1" by (rule month_names(2)[OF _ _ mm]; use assms(2-5) in simp)
  then have "m = m'" using assms(2,4) by simp
  ultimately show ?thesis using d y by simp
qed

text \<open>The public pages show instants without loss: two stamps of the server that name real instants are shown
  alike only if they are the same stamp, so no deadline can be read as another one.\<close>

theorem shown_instants_differ:
  assumes "parseMoment (Some s) = Some t" "parseMoment (Some s') = Some t'" "formatMoment s = formatMoment s'"
  shows "s = s'"
proof -
  obtain y m d h n where a: "1 \<le> m" "m \<le> 12" "h < 24" "n < 60" "formatMoment s = shown_moment y m d h n"
      "s = fixed_text 4 y @ ''-'' @ fixed_text 2 m @ ''-'' @ fixed_text 2 d @ '' '' @ fixed_text 2 h @ '':'' @ fixed_text 2 n @ '' UTC''"
    using formatMoment_shown[OF assms(1)] by blast
  obtain y' m' d' h' n' where b: "1 \<le> m'" "m' \<le> 12" "h' < 24" "n' < 60" "formatMoment s' = shown_moment y' m' d' h' n'"
      "s' = fixed_text 4 y' @ ''-'' @ fixed_text 2 m' @ ''-'' @ fixed_text 2 d' @ '' '' @ fixed_text 2 h' @ '':'' @ fixed_text 2 n' @ '' UTC''"
    using formatMoment_shown[OF assms(2)] by blast
  have "shown_moment y m d h n = shown_moment y' m' d' h' n'" using assms(3) a(5) b(5) by (simp only:)
  from shown_moment_inject[OF this a(1,2) b(1,2) a(3,4) b(3,4)] show ?thesis unfolding a(6) b(6) by (elim conjE) (simp only:)
qed

theorem shown_instants_differ_witness:
  "parseMoment (Some ''2026-08-14 23:59 UTC'') \<noteq> None \<and> formatMoment ''2026-08-14 23:59 UTC'' = ''14 Aug 2026, 23:59 UTC'' \<and>
   formatMoment ''2026-08-14 23:59 UTC'' = formatMoment ''2026-08-14 23:59 UTC''"
proof -
  have p: "parseMoment (Some ''2026-08-14 23:59 UTC'') = Some 1786751940000" by code_simp
  have "formatMoment ''2026-08-14 23:59 UTC'' = ''14 Aug 2026, 23:59 UTC''" by code_simp
  then show ?thesis using p shown_instants_differ[OF p p refl] by simp
qed

section \<open>Money\<close>

text \<open>The figure read back: its sign and its digits.\<close>

definition read_cents :: "string \<Rightarrow> int" where
  "read_cents s = (let (sg, u) = split_sign s in sg * int (parse_nat (filter is_digit u)))"

lemma filter_digits: "list_all is_digit s \<Longrightarrow> filter is_digit s = s"
  by (simp add: list_all_iff)

lemma parse_nat_append2: "parse_nat (a @ fixed_text 2 n) = 100 * parse_nat a + n mod 100"
proof -
  have "n mod 100 = 10 * (n div 10 mod 10) + n mod 10" by (simp add: mod_mult2_eq[of n 10 10, simplified])
  moreover have "a @ fixed_text 2 n = (a @ [digit_char (n div 10 mod 10)]) @ [digit_char (n mod 10)]"
    by (simp add: numeral_2_eq_2)
  ultimately show ?thesis by (simp only: parse_nat_snoc) (simp add: digit_val_char)
qed

lemma read_fixed_cents: "read_cents (fixed_cents c) = c"
proof -
  let ?a = "nat \<bar>c\<bar>"
  let ?u = "nat_text (?a div 100) @ ''.'' @ fixed_text 2 (?a mod 100)"
  have dot: "\<not> is_digit CHR ''.''" by (simp add: is_digit_def)
  have "filter is_digit ?u = nat_text (?a div 100) @ fixed_text 2 (?a mod 100)"
    using dot filter_digits[OF digits_fixed_text] nat_text_digits by (simp add: filter_digits list_all_iff)
  then have u: "int (parse_nat (filter is_digit ?u)) = \<bar>c\<bar>" by (simp add: parse_nat_append2 parse_nat_text)
  obtain x xs where x: "?u = x # xs" "is_digit x"
    using nat_text_digits[of "?a div 100"] by (cases "nat_text (?a div 100)") auto
  then have "x \<noteq> CHR ''+''" "x \<noteq> CHR ''-''" by (auto simp: is_digit_def)
  then have "split_sign ?u = (1, ?u)" unfolding x(1) by (simp add: split_sign_def)
  moreover have "split_sign (''-'' @ ?u) = (- 1, ?u)" by (simp add: split_sign_def)
  ultimately show ?thesis using u by (cases "c < 0") (simp_all add: read_cents_def fixed_cents_def Let_def)
qed

text \<open>A fee is shown exactly: the figure on the page reads back as the amount in cents, a currency goes before it,
  and a fee that was not set shows nothing rather than zero.\<close>

theorem fee_shown_exactly:
  "formatMoney upper None currency = [] \<and>
   (\<exists>code. formatMoney upper (Some c) currency = code @ formatCents (Some c) \<and>
     (code = [] \<or> code = upper (trim (or_else currency [])) @ '' '')) \<and>
   read_cents (formatCents (Some c)) = c"
  by (auto simp: formatMoney_def formatCents_def read_fixed_cents Let_def)

section \<open>Round codes\<close>

text \<open>The labels of the API (\<open>_round_label\<close> and \<open>_short_round\<close> of \<open>entries_site.py\<close>).\<close>

definition api_round_label :: "nat \<Rightarrow> nat \<Rightarrow> bool \<Rightarrow> string" where
  "api_round_label rounds index knockout =
     (if \<not> knockout then ''Round '' @ nat_text (index + 1)
      else let remaining = rounds - index
           in if remaining = 1 then ''Final'' else if remaining = 2 then ''Semifinals''
              else if remaining = 3 then ''Quarterfinals'' else ''Round of '' @ nat_text (2 ^ remaining))"

definition api_short_round :: "nat \<Rightarrow> nat \<Rightarrow> bool \<Rightarrow> string" where
  "api_short_round rounds index knockout =
     (if \<not> knockout then ''R'' @ nat_text (index + 1)
      else let remaining = rounds - index
           in if remaining = 1 then ''F'' else if remaining = 2 then ''SF''
              else if remaining = 3 then ''QF'' else ''R'' @ nat_text (2 ^ remaining))"

definition lower_char :: "char \<Rightarrow> char" where
  "lower_char c = (if 65 \<le> (of_char c :: nat) \<and> (of_char c :: nat) \<le> 90 then char_of (of_char c + 32 :: nat) else c)"

definition ascii_text :: "string \<Rightarrow> bool" where
  "ascii_text s \<longleftrightarrow> list_all (\<lambda>c. (of_char c :: nat) < 128) s"

lemma digits_ascii: "list_all is_digit s \<Longrightarrow> ascii_text s"
  by (auto simp: ascii_text_def list_all_iff is_digit_def)

lemma lower_digits: "list_all is_digit s \<Longrightarrow> map lower_char s = s"
  by (auto simp: list_all_iff lower_char_def is_digit_def intro!: map_idI)

lemma digit_not_mark: "is_digit c \<Longrightarrow> c \<notin> set ''._-''"
  by (auto simp: is_digit_def)

lemma fold_digits: "list_all is_digit s \<Longrightarrow> fold_marks s = s"
  using digit_not_mark unfolding fold_marks_def list_all_iff by (intro map_idI) (simp del: set_simps)

lemma fold_marks_append: "fold_marks (a @ b) = fold_marks a @ fold_marks b"
  by (simp add: fold_marks_def)

lemma digits_nat_text: "list_all is_digit (nat_text n)"
  using nat_text_digits by (simp add: list_all_iff)

lemma last_nat_text: "\<not> js_space (last (nat_text n))"
  using nat_text_digits last_in_set[OF nat_text_nonempty] js_space_digit by blast

lemma trim_numbered: "s \<noteq> [] \<Longrightarrow> \<not> js_space (hd s) \<Longrightarrow> trim (s @ nat_text n) = s @ nat_text n"
  using last_nat_text[of n] by (intro trim_fixed disjI2) simp

definition ascii_lower :: "(string \<Rightarrow> string) \<Rightarrow> bool" where
  "ascii_lower lower \<longleftrightarrow> (\<forall>s. ascii_text s \<longrightarrow> lower s = map lower_char s)"

lemma folded_numbered:
  assumes "ascii_lower lower" "ascii_text stem"
  shows "fold_marks (lower (stem @ nat_text n)) = fold_marks (map lower_char stem) @ nat_text n"
proof -
  have "ascii_text (stem @ nat_text n)" using assms(2) digits_ascii[OF digits_nat_text] by (auto simp: ascii_text_def)
  then show ?thesis
    using assms(1) by (simp add: ascii_lower_def lower_digits fold_marks_append fold_digits digits_nat_text)
qed

lemma nat_text_two: "nat_text n = [digit_char a, digit_char b] \<Longrightarrow> a < 10 \<Longrightarrow> b < 10 \<Longrightarrow> n = 10 * a + b"
  using parse_nat_text[of n] by (simp add: parse_nat_def digit_val_char)

lemma numbered_round_nat_text: "numbered_round stem (stem @ nat_text n) = Some (''R'' @ nat_text n)"
  using all_digits_nat_text by (simp add: numbered_round_def)

lemma nat_text_knockout: "nat_text 16 = ''16''" "nat_text 32 = ''32''" "nat_text 64 = ''64''"
  by code_simp+

lemma nat_text_is:
  "nat_text n = ''16'' \<longleftrightarrow> n = 16" "nat_text n = ''32'' \<longleftrightarrow> n = 32" "nat_text n = ''64'' \<longleftrightarrow> n = 64"
proof -
  note nat_text_knockout
  then show "nat_text n = ''16'' \<longleftrightarrow> n = 16" "nat_text n = ''32'' \<longleftrightarrow> n = 32" "nat_text n = ''64'' \<longleftrightarrow> n = 64"
    using nat_text_inject[of n 16] nat_text_inject[of n 32] nat_text_inject[of n 64] by auto
qed

lemma digit_text_other: "nat_text n \<noteq> c # s" if "\<not> is_digit c"
  using nat_text_digits[of n] that by auto

lemma roundLabel_numbered:
  assumes "ascii_lower lower" "stem = ''Round '' \<or> stem = ''Round of ''"
  shows "roundLabel lower (Some (stem @ nat_text n)) =
    Some ((if n \<in> {16, 32, 64} then ''Round of '' else stem) @ nat_text n)"
proof -
  have t: "trim (stem @ nat_text n) = stem @ nat_text n"
    using assms(2) by (intro trim_numbered) (auto simp: js_space_def)
  have ascii: "ascii_text stem" using assms(2) by (auto simp: ascii_text_def)
  have low: "fold_marks (map lower_char stem) = (if stem = ''Round '' then ''round '' else ''round of '')"
  proof -
    have "fold_marks (map lower_char ''Round '') = ''round ''" "fold_marks (map lower_char ''Round of '') = ''round of ''"
      by code_simp+
    then show ?thesis using assms(2) by auto
  qed
  have o: "\<not> is_digit CHR ''o''" by (simp add: is_digit_def)
  have some: "truthy (Some (stem @ nat_text n)) = True" by (simp add: truthy_def)
  note folded = folded_numbered[OF assms(1) ascii, of n, unfolded low]
  show ?thesis
    using assms(2) unfolding roundLabel_def some option.sel t folded Let_def
    by (elim disjE) (simp_all add: nat_text_is digit_text_other[OF o] nat_text_knockout)
qed

lemma roundLabel_named:
  assumes "ascii_lower lower" "s = ''Final'' \<or> s = ''Semifinals'' \<or> s = ''Quarterfinals''"
  shows "roundLabel lower (Some s) = Some s"
proof -
  have "ascii_text s" "trim s = s" using assms(2) by (auto simp: ascii_text_def trim_def js_space_def)
  then have "fold_marks (lower (trim s)) = fold_marks (map lower_char s)" using assms(1) by (simp add: ascii_lower_def)
  moreover have "fold_marks (map lower_char ''Final'') = ''final''" "fold_marks (map lower_char ''Semifinals'') = ''semifinals''"
    "fold_marks (map lower_char ''Quarterfinals'') = ''quarterfinals''" by code_simp+
  ultimately have f: "fold_marks (lower (trim s)) = (if s = ''Final'' then ''final'' else if s = ''Semifinals'' then ''semifinals''
      else ''quarterfinals'')" using assms(2) by (elim disjE) simp_all
  have "truthy (Some s)" using assms(2) by (auto simp: truthy_def)
  then show ?thesis using assms(2) unfolding roundLabel_def option.sel Let_def f by (elim disjE) simp_all
qed

text \<open>C37. The round control of a draw is the twin of the code the API uses: for every draw, every round of it and every
  kind of draw, the short label derived from the published label is the short code of the API. The labels
  themselves are passed through, save that round 16, 32 or 64 of a round robin is called a knockout round.\<close>

theorem round_code_twin:
  assumes "ascii_lower lower" "index < rounds"
  shows "roundShortLabel lower (Some (api_round_label rounds index knockout)) = Some (api_short_round rounds index knockout) \<and>
    roundLabel lower (Some (api_round_label rounds index knockout)) =
      Some (if \<not> knockout \<and> index + 1 \<in> {16, 32, 64} then ''Round of '' @ nat_text (index + 1)
            else api_round_label rounds index knockout)"
proof -
  have numbered: "roundShortLabel lower (Some (stem @ nat_text n)) = Some (''R'' @ nat_text n)"
    if stem: "stem = ''Round '' \<or> stem = ''Round of ''" for stem n
  proof -
    have o: "\<not> is_digit CHR ''o''" by (simp add: is_digit_def)
    have other: "numbered_round ''Round of '' (''Round '' @ nat_text n) = None"
      using digit_text_other[OF o] by (auto simp: numbered_round_def prefix_def)
    have short: "or_else (or_opt (numbered_round ''Round of '' (s @ nat_text n)) (numbered_round ''Round '' (s @ nat_text n))) (s @ nat_text n)
        = ''R'' @ nat_text n" if "s = ''Round '' \<or> s = ''Round of ''" for s
      using that by (elim disjE) (simp_all only: numbered_round_nat_text other or_opt.simps or_else.simps)
    let ?s = "if n \<in> {16, 32, 64} then ''Round of '' else stem"
    have some: "truthy (Some (stem @ nat_text n)) = True" using stem by (auto simp: truthy_def)
    have s: "?s = ''Round '' \<or> ?s = ''Round of ''" using stem by (simp split: if_split)
    have plain: "(s @ nat_text n = ''Final'') = False" "(s @ nat_text n = ''Semifinals'') = False"
      "(s @ nat_text n = ''Quarterfinals'') = False" if "s = ''Round '' \<or> s = ''Round of ''" for s
      using that by auto
    show ?thesis
      unfolding roundShortLabel_def roundLabel_numbered[OF assms(1) stem] or_else.simps Let_def some plain[OF s]
        not_True_eq_False if_False short[OF s] by (rule refl)
  qed
  show ?thesis
  proof (cases knockout)
    case False
    then show ?thesis
      using numbered[of "''Round ''" "index + 1"] roundLabel_numbered[OF assms(1), of "''Round ''" "index + 1"]
      by (auto simp: api_round_label_def api_short_round_def)
  next
    case True
    consider "rounds - index = 1" | "rounds - index = 2" | "rounds - index = 3" | "4 \<le> rounds - index" using assms(2) by linarith
    then show ?thesis
    proof cases
      case 4
      then show ?thesis
        using True 4 numbered[of "''Round of ''" "2 ^ (rounds - index)"]
          roundLabel_numbered[OF assms(1), of "''Round of ''" "2 ^ (rounds - index)"]
        by (auto simp: api_round_label_def api_short_round_def Let_def)
    qed (use True roundLabel_named[OF assms(1)] in \<open>simp_all add: api_round_label_def api_short_round_def roundShortLabel_def truthy_def\<close>)
  qed
qed

theorem round_code_twin_witness:
  "roundShortLabel (map lower_char) (Some (api_round_label 7 0 True)) = Some ''R128'' \<and>
   roundLabel (map lower_char) (Some (api_round_label 17 15 False)) = Some ''Round of 16''"
proof -
  have "ascii_lower (map lower_char)" by (simp add: ascii_lower_def)
  note twin = round_code_twin[OF this]
  have "api_short_round 7 0 True = ''R128''" "''Round of '' @ nat_text 16 = ''Round of 16''" by code_simp+
  then show ?thesis using twin[of 0 7 True] twin[of 15 17 False] by simp
qed

lemma day_is_month_first: "formatCalendarDay ''2026-08-08'' = ''Saturday, August 8''"
  by code_simp

end
