(* ===== verification/SchedulePage.thy ===== *)
theory SchedulePage
  imports EntrantGuards EntrantText
begin

text \<open>
  The public schedule page (\<open>routes/schedule.tsx\<close> and \<open>lib/schedule.types.ts\<close> of the entrant site): the
  filters in its address, the links that keep them, the two reads its loader makes, the days it offers, the
  groups by time and by court with their queue words. Collation and letter case of the host are parameters;
  a page number is a mathematical integer.
\<close>

section \<open>Match states\<close>

datatype schedule_state =
  SsScheduled | SsCalled | SsLive | SsDelayed | SsCompleted | SsWalkover | SsRetired | SsCancelled

definition state_name :: "schedule_state \<Rightarrow> string" where
  "state_name s =
     (case s of
        SsScheduled \<Rightarrow> ''scheduled'' | SsCalled \<Rightarrow> ''called'' | SsLive \<Rightarrow> ''live'' | SsDelayed \<Rightarrow> ''delayed''
      | SsCompleted \<Rightarrow> ''completed'' | SsWalkover \<Rightarrow> ''walkover'' | SsRetired \<Rightarrow> ''retired'' | SsCancelled \<Rightarrow> ''cancelled'')"

definition SCHEDULE_STATES :: "schedule_state list" where
  "SCHEDULE_STATES = [SsScheduled, SsCalled, SsLive, SsDelayed, SsCompleted, SsWalkover, SsRetired, SsCancelled]"

definition scheduleStateLabel :: "schedule_state option \<Rightarrow> string option" where
  "scheduleStateLabel state =
     (case state of
        None \<Rightarrow> None
      | Some SsScheduled \<Rightarrow> Some ''Scheduled'' | Some SsCalled \<Rightarrow> Some ''Called'' | Some SsLive \<Rightarrow> Some ''On court''
      | Some SsDelayed \<Rightarrow> Some ''Delayed'' | Some SsCompleted \<Rightarrow> Some ''Completed'' | Some SsWalkover \<Rightarrow> Some ''Walkover''
      | Some SsRetired \<Rightarrow> Some ''Retired'' | Some SsCancelled \<Rightarrow> Some ''Cancelled'')"

text \<open>Of a match of the projection, what the page decides with.\<close>

record schedule_match =
  sm_matchKey :: string
  sm_status :: "schedule_state option"
  sm_scheduledDate :: "string option"
  sm_scheduledTime :: "string option"
  sm_court :: "int option"

definition schedulePublicStateLabel :: "schedule_match \<Rightarrow> string" where
  "schedulePublicStateLabel m = (if sm_scheduledTime m \<noteq> None then ''Scheduled'' else ''Time to be confirmed'')"

definition scheduleIsStale :: "(string \<Rightarrow> int option) \<Rightarrow> string option \<Rightarrow> int \<Rightarrow> bool" where
  "scheduleIsStale date_parse updatedAt now \<longleftrightarrow>
     truthy updatedAt \<and> (case date_parse (the updatedAt) of None \<Rightarrow> False | Some parsed \<Rightarrow> now - parsed > 30 * 60 * 1000)"

section \<open>Filters and links\<close>

datatype organization = ByTimeOrder | ByCourtOrder

record schedule_filters =
  sf_day :: string
  sf_event :: string
  sf_player :: string
  sf_court :: string
  sf_state :: "schedule_state option"
  sf_page :: int
  sf_organization :: organization

text \<open>\<open>Number.parseInt(text, 10)\<close>; \<open>None\<close> is not a number.\<close>

definition parse_int_prefix :: "string \<Rightarrow> int option" where
  "parse_int_prefix s =
     (let (sg, u) = split_sign (dropWhile js_space s); ds = takeWhile is_digit u
      in if ds = [] then None else Some (sg * int (parse_nat ds)))"

definition parseScheduleFilters :: "url_params \<Rightarrow> schedule_filters" where
  "parseScheduleFilters query =
     (let rawPage = parse_int_prefix (or_else (param_get query ''page'') ''1'');
          day = or_else (param_get query ''day'') [];
          court = or_else (param_get query ''court'') [];
          state = or_else (param_get query ''state'') [];
          org = or_else (or_opt (param_get query ''organization'') (param_get query ''view'')) ''time''
      in \<lparr>sf_day = (if fits iso_pattern day then day else []),
          sf_event = trim (or_else (param_get query ''event'') []),
          sf_player = trim (or_else (param_get query ''player'') []),
          sf_court = (if all_digits court then court else []),
          sf_state = find (\<lambda>s. state_name s = state) SCHEDULE_STATES,
          sf_page = (case rawPage of Some p \<Rightarrow> if p > 0 then p else 1 | None \<Rightarrow> 1),
          sf_organization = (if org = ''court'' then ByCourtOrder else ByTimeOrder)\<rparr>)"

definition hasScheduleFilters :: "schedule_filters \<Rightarrow> bool" where
  "hasScheduleFilters f \<longleftrightarrow>
     sf_day f \<noteq> [] \<or> sf_event f \<noteq> [] \<or> sf_player f \<noteq> [] \<or> sf_court f \<noteq> [] \<or> sf_state f \<noteq> None \<or> sf_page f > 1"

definition set_text :: "string \<Rightarrow> string \<Rightarrow> url_params" where
  "set_text k v = (if v \<noteq> [] then [(k, v)] else [])"

definition facet_params :: "schedule_filters \<Rightarrow> url_params" where
  "facet_params f =
     set_text ''day'' (sf_day f) @ set_text ''event'' (sf_event f) @ set_text ''player'' (sf_player f) @
     set_text ''court'' (sf_court f) @ (case sf_state f of None \<Rightarrow> [] | Some s \<Rightarrow> [(''state'', state_name s)])"

definition query_text :: "url_params \<Rightarrow> string" where
  "query_text ps = join_with ''&'' (map (\<lambda>(k, v). form_encode k @ ''='' @ form_encode v) ps)"

definition link_params :: "schedule_filters \<Rightarrow> url_params" where
  "link_params f =
     facet_params f @ (if sf_page f > 1 then [(''page'', int_text (sf_page f))] else []) @
     (if sf_organization f = ByCourtOrder then [(''organization'', ''court'')] else [])"

definition matchesPath :: "string \<Rightarrow> schedule_filters \<Rightarrow> string" where
  "matchesPath slug f =
     (let q = query_text (link_params f)
      in ''/e/'' @ encode_uri_component slug @ ''/schedule'' @ (if q \<noteq> [] then ''?'' @ q else []))"

definition dayMatchCountLabel :: "int \<Rightarrow> string" where
  "dayMatchCountLabel k = int_text k @ '' '' @ (if k = 1 then ''match'' else ''matches'')"

section \<open>The loader\<close>

datatype page_failure = PageNotFound | PageError api_failure

definition page_failure_of :: "api_failure \<Rightarrow> page_failure" where
  "page_failure_of e = (case e of ApiError s _ \<Rightarrow> if s = 404 then PageNotFound else PageError e | _ \<Rightarrow> PageError e)"

definition page_read :: "string \<Rightarrow> string" where
  "page_read slug = ''/e/api/page/'' @ encode_uri_component slug"

definition matches_read :: "string \<Rightarrow> schedule_filters \<Rightarrow> string" where
  "matches_read slug f =
     page_read slug @ ''/matches?'' @ query_text (facet_params f @ [(''page'', int_text (sf_page f))])"

definition schedule_loader ::
  "(api_request \<Rightarrow> api_response option) \<Rightarrow> string option \<Rightarrow> string \<Rightarrow> url_params \<Rightarrow>
   page_failure + js_value \<times> js_value \<times> schedule_filters" where
  "schedule_loader fetch env slug query =
     (if slug = [] then Inl PageNotFound
      else
        let f = parseScheduleFilters query
        in case apiGet fetch env (page_read slug) of
             Inl e \<Rightarrow> Inl (page_failure_of e)
           | Inr page \<Rightarrow>
               (case apiGet fetch env (matches_read slug f) of
                  Inl e \<Rightarrow> Inl (page_failure_of e)
                | Inr matches \<Rightarrow> Inr (page, matches, f)))"

section \<open>Days, groups and queues\<close>

type_synonym day_facet = "string \<times> int"

definition scheduleDays :: "(string \<Rightarrow> string \<Rightarrow> int) \<Rightarrow> schedule_filters \<Rightarrow> day_facet list \<Rightarrow> day_facet list" where
  "scheduleDays collate f facets =
     (let listed = facets @ (if sf_day f \<noteq> [] \<and> \<not> list_ex (\<lambda>d. fst d = sf_day f) facets then [(sf_day f, 0)] else []);
          once = map snd (filter (\<lambda>(i, d). find (\<lambda>j. fst (listed ! j) = fst d) [0..<length listed] = Some i)
            (zip [0..<length listed] listed))
      in js_sort (\<lambda>a b. collate (fst a) (fst b)) once)"

text \<open>\<open>Math.round(Math.abs(second - first) / 86400000)\<close> of two midnights; \<open>date_parse\<close> reads a stamp.\<close>

definition dayDistance :: "(string \<Rightarrow> int option) \<Rightarrow> string \<Rightarrow> string \<Rightarrow> int" where
  "dayDistance date_parse a b =
     (case (date_parse (a @ ''T00:00:00Z''), date_parse (b @ ''T00:00:00Z'')) of
        (Some first, Some second) \<Rightarrow> (\<bar>second - first\<bar> + DAY_MS div 2) div DAY_MS
      | _ \<Rightarrow> 99)"

definition DAY_LINK_LIMIT :: nat where
  "DAY_LINK_LIMIT = 5"

definition daysAreLinkable :: "(string \<Rightarrow> int option) \<Rightarrow> day_facet list \<Rightarrow> bool" where
  "daysAreLinkable date_parse days \<longleftrightarrow>
     0 < length days \<and> length days \<le> DAY_LINK_LIMIT \<and>
     list_all (\<lambda>(a, b). dayDistance date_parse (fst a) (fst b) \<le> 1) (zip days (tl days))"

definition matchCourt :: "schedule_match \<Rightarrow> string" where
  "matchCourt m = (case sm_court m of None \<Rightarrow> ''Court to be confirmed'' | Some c \<Rightarrow> ''Court '' @ int_text c)"

definition isCompleted :: "schedule_match \<Rightarrow> bool" where
  "isCompleted m \<longleftrightarrow> sm_status m \<in> {Some SsCompleted, Some SsWalkover, Some SsRetired}"

definition by_time :: "schedule_match list \<Rightarrow> (string, schedule_match list) dict" where
  "by_time = group_by (\<lambda>m. Some (or_else (sm_scheduledTime m) (schedulePublicStateLabel m)))"

definition by_court :: "(string \<Rightarrow> string \<Rightarrow> int) \<Rightarrow> schedule_match list \<Rightarrow> (string, schedule_match list) dict" where
  "by_court collate matches =
     group_by (\<lambda>m. Some (matchCourt m))
       (js_sort (\<lambda>a b. collate (or_else (sm_scheduledTime a) ''99:99'') (or_else (sm_scheduledTime b) ''99:99'')) matches)"

definition waits :: "schedule_match \<Rightarrow> bool" where
  "waits m \<longleftrightarrow> \<not> isCompleted m \<and> sm_status m \<noteq> Some SsLive"

definition queueLabel :: "schedule_match list \<Rightarrow> nat \<Rightarrow> string option" where
  "queueLabel queue index =
     (let m = queue ! index
      in if isCompleted m then Some ''Completed''
         else if sm_status m = Some SsLive then Some ''Now''
         else let activeIndex = int (length (filter waits (take (index + 1) queue))) - 1
              in if activeIndex = 0 then Some ''Next'' else if activeIndex = 1 then Some ''Then'' else None)"

text \<open>What the page shows of the set: the pages around, the live band, the list below it.\<close>

definition page_total :: "int \<Rightarrow> int \<Rightarrow> int" where
  "page_total found pageSize = - ((- found) div pageSize)"

definition page_before :: "schedule_filters \<Rightarrow> schedule_filters option" where
  "page_before f = (if sf_page f > 1 then Some (f\<lparr>sf_page := sf_page f - 1\<rparr>) else None)"

definition page_after :: "schedule_filters \<Rightarrow> int \<Rightarrow> int \<Rightarrow> schedule_filters option" where
  "page_after f found pageSize = (if sf_page f < page_total found pageSize then Some (f\<lparr>sf_page := sf_page f + 1\<rparr>) else None)"

definition live_band :: "schedule_match list \<Rightarrow> schedule_match list" where
  "live_band = filter (\<lambda>m. sm_status m = Some SsLive)"

definition show_date :: "schedule_filters \<Rightarrow> schedule_match list \<Rightarrow> bool" where
  "show_date f items \<longleftrightarrow>
     sf_day f = [] \<and> length (js_set (filter (\<lambda>d. d \<noteq> []) (List.map_filter sm_scheduledDate items))) > 1"

definition timed_list :: "schedule_match list \<Rightarrow> schedule_match list" where
  "timed_list items = (if live_band items \<noteq> [] then filter (\<lambda>m. sm_status m \<noteq> Some SsLive) items else items)"

section \<open>Links keep the filters\<close>

lemma query_pair_encoded: "query_pair (form_encode k @ ''='' @ form_encode v) = (k, v)"
proof -
  have "CHR ''='' \<notin> set (form_encode k)" using form_encode_chars[of "CHR ''=''" k] by (auto simp: query_mark_def)
  then show ?thesis by (simp add: query_pair_def takeWhile_mark dropWhile_mark)
qed

lemma parse_query_text: "parse_query (query_text ps) = ps"
proof (cases "ps = []")
  case True
  then show ?thesis by (simp add: query_text_def parse_query_def split_on_def)
next
  case False
  let ?pieces = "map (\<lambda>(k, v). form_encode k @ ''='' @ form_encode v) ps"
  have "CHR ''&'' \<notin> set (form_encode s)" for s using form_encode_chars[of "CHR ''&''" s] by (auto simp: query_mark_def)
  then have "split_on ''&'' (query_text ps) = ?pieces"
    unfolding query_text_def using False by (intro split_join) auto
  moreover have "filter (\<lambda>piece. piece \<noteq> []) ?pieces = ?pieces" by (auto simp: filter_id_conv)
  ultimately show ?thesis
    unfolding parse_query_def by (simp add: query_pair_encoded split_def comp_def del: append_Cons)
qed

definition url_safe :: "string \<Rightarrow> bool" where
  "url_safe s \<longleftrightarrow> (\<forall>c \<in> set s. 33 \<le> (of_char c :: nat) \<and> (of_char c :: nat) \<noteq> 35)"

lemma url_safe_append [simp]: "url_safe (a @ b) \<longleftrightarrow> url_safe a \<and> url_safe b"
  by (auto simp: url_safe_def)

lemma url_safe_encode [simp]: "url_safe (form_encode s)"
  using form_encode_chars by (auto simp: url_safe_def query_mark_def)

lemma url_text_safe: "url_safe s \<Longrightarrow> url_text s = s"
proof -
  assume s: "url_safe s"
  have "dropWhile (\<lambda>c. (of_char c :: nat) \<le> 32) (rev s) = rev s"
  proof (rule dropWhile_fixed)
    show "rev s = [] \<or> \<not> (of_char (hd (rev s)) :: nat) \<le> 32"
      using s by (cases "rev s") (auto simp: url_safe_def rev_eq_Cons_iff)
  qed
  moreover have "filter (\<lambda>c. (of_char c :: nat) \<notin> {9, 10, 13}) s = s"
  proof (rule filter_True, rule ballI)
    fix c assume "c \<in> set s"
    then have "33 \<le> (of_char c :: nat)" using s by (simp add: url_safe_def)
    then show "(of_char c :: nat) \<notin> {9, 10, 13}" by auto
  qed
  ultimately show "url_text s = s" by (simp only: url_text_def rev_rev_ident)
qed

lemma url_query_of:
  assumes "url_safe path" "CHR ''?'' \<notin> set path" "url_safe q"
  shows "url_query (path @ (if q \<noteq> [] then ''?'' @ q else [])) = q"
proof (cases "q = []")
  case True
  have d: "dropWhile (\<lambda>c. c \<noteq> CHR ''?'') path = []"
    using assms(2) by (intro dropWhile_eq_Nil_conv[THEN iffD2] ballI) auto
  show ?thesis using True by (simp add: url_query_def url_text_safe[OF assms(1)] d del: dropWhile_eq_Nil_conv)
next
  case False
  have "url_safe (path @ CHR ''?'' # q)" using assms by (auto simp: url_safe_def)
  then have t: "url_text (path @ CHR ''?'' # q) = path @ CHR ''?'' # q" by (rule url_text_safe)
  have "takeWhile (\<lambda>c. c \<noteq> CHR ''#'') q = q"
    using assms(3) by (intro takeWhile_eq_all_conv[THEN iffD2]) (auto simp: url_safe_def)
  then show ?thesis using False by (simp add: url_query_def t dropWhile_mark[OF assms(2)])
qed

lemma url_safe_query: "url_safe (query_text ps)"
proof -
  have "url_safe (join_with ''&'' xs)" if "\<forall>x \<in> set xs. url_safe x" for xs
    using that
  proof (induction xs)
    case (Cons x xs)
    then show ?case by (cases "xs = []") (auto simp: join_with_Cons url_safe_def)
  qed (simp add: url_safe_def)
  moreover have "url_safe x" if "x \<in> set (map (\<lambda>(k, v). form_encode k @ ''='' @ form_encode v) ps)" for x
  proof -
    from that obtain k v where "x = form_encode k @ ''='' @ form_encode v" by auto
    then show "url_safe x" by (simp only: url_safe_append url_safe_encode) (simp add: url_safe_def)
  qed
  ultimately show ?thesis unfolding query_text_def by blast
qed

lemma encode_uri_chars: "c \<in> set (encode_uri_component s) \<Longrightarrow> 33 \<le> (of_char c :: nat) \<and> \<not> query_mark c"
proof -
  assume "c \<in> set (encode_uri_component s)"
  then obtain a where "c \<in> set (if uri_plain a then [a] else CHR ''%'' # [hex_char (of_char a div 16), hex_char (of_char a mod 16)])"
    unfolding encode_uri_component_def set_concat set_map by blast
  then consider "uri_plain a" "c = a" | "c = CHR ''%''" | "c = hex_char (of_char a div 16)" | "c = hex_char (of_char a mod 16)"
    by (auto split: if_split_asm)
  then show ?thesis
  proof cases
    case 1
    then show ?thesis by (auto simp: uri_plain_def is_digit_def query_mark_def)
  next
    case 3
    show ?thesis unfolding 3 using hex_char_digit(2,3)[OF char_nibbles(1)[of a]] by blast
  next
    case 4
    show ?thesis unfolding 4 using hex_char_digit(2,3)[OF char_nibbles(2)[of a]] by blast
  qed (simp add: query_mark_def)
qed

lemma link_query: "parse_query (url_query (matchesPath slug f)) = link_params f"
proof -
  let ?path = "''/e/'' @ encode_uri_component slug @ ''/schedule''"
  have "url_safe (encode_uri_component slug)" "CHR ''?'' \<notin> set (encode_uri_component slug)"
    using encode_uri_chars by (fastforce simp: url_safe_def query_mark_def)+
  then have "url_safe ?path" "CHR ''?'' \<notin> set ?path" by (auto simp: url_safe_def)
  from url_query_of[OF this url_safe_query[of "link_params f"]] show ?thesis
    unfolding matchesPath_def Let_def append_assoc[symmetric] by (simp only: append_assoc parse_query_text)
qed


definition shown_filters :: "schedule_filters \<Rightarrow> bool" where
  "shown_filters f \<longleftrightarrow>
     (sf_day f \<noteq> [] \<longrightarrow> fits iso_pattern (sf_day f)) \<and> trim (sf_event f) = sf_event f \<and> trim (sf_player f) = sf_player f \<and>
     (sf_court f \<noteq> [] \<longrightarrow> all_digits (sf_court f)) \<and> 0 < sf_page f"

lemma parsed_shown: "shown_filters (parseScheduleFilters q)"
  by (simp add: shown_filters_def parseScheduleFilters_def Let_def split: option.split)

lemma set_text_get: "map_of (set_text k v @ r) x = (if x = k \<and> v \<noteq> [] then Some v else map_of r x)"
  by (simp add: set_text_def)

lemma facet_get:
  "param_get (facet_params f @ r) ''day'' = (if sf_day f \<noteq> [] then Some (sf_day f) else map_of r ''day'')"
  "param_get (facet_params f @ r) ''event'' = (if sf_event f \<noteq> [] then Some (sf_event f) else map_of r ''event'')"
  "param_get (facet_params f @ r) ''player'' = (if sf_player f \<noteq> [] then Some (sf_player f) else map_of r ''player'')"
  "param_get (facet_params f @ r) ''court'' = (if sf_court f \<noteq> [] then Some (sf_court f) else map_of r ''court'')"
  "param_get (facet_params f @ r) ''state'' =
     (case sf_state f of None \<Rightarrow> map_of r ''state'' | Some s \<Rightarrow> Some (state_name s))"
  "param_get (facet_params f @ r) ''page'' = map_of r ''page''"
  "param_get (facet_params f @ r) ''organization'' = map_of r ''organization''"
  "param_get (facet_params f @ r) ''view'' = map_of r ''view''"
  by (simp_all only: facet_params_def append_assoc param_get_def set_text_get) (simp_all split: option.split)

lemma find_state: "find (\<lambda>s. state_name s = state_name t) SCHEDULE_STATES = Some t"
  by (cases t) (simp_all add: SCHEDULE_STATES_def state_name_def)

lemma find_no_state: "find (\<lambda>s. state_name s = []) SCHEDULE_STATES = None"
  by (simp add: SCHEDULE_STATES_def state_name_def)

lemma parse_int_text: "0 \<le> i \<Longrightarrow> parse_int_prefix (int_text i) = Some i"
proof -
  assume i: "0 \<le> i"
  have d: "list_all is_digit (nat_text (nat i))" by (rule digits_nat_text)
  obtain c cs where cs: "nat_text (nat i) = c # cs" by (cases "nat_text (nat i)") auto
  with d have "is_digit c" by simp
  then have c: "\<not> js_space c" "c \<noteq> CHR ''+''" "c \<noteq> CHR ''-''" by (auto simp: is_digit_def js_space_def)
  have "takeWhile is_digit (nat_text (nat i)) = nat_text (nat i)"
    using d by (simp add: takeWhile_eq_all_conv list_all_iff)
  then show ?thesis
    using i c cs parse_nat_text[of "nat i"] by (simp add: int_text_nonneg parse_int_prefix_def split_sign_def)
qed

lemma first_page: "parse_int_prefix ''1'' = Some 1"
  by code_simp

lemma link_params_read:
  assumes "shown_filters f" shows "parseScheduleFilters (link_params f) = f"
proof -
  have page: "(case parse_int_prefix (or_else (param_get (link_params f) ''page'') ''1'') of
      Some p \<Rightarrow> if p > 0 then p else 1 | None \<Rightarrow> 1) = sf_page f"
  proof (cases "sf_page f > 1")
    case True
    then show ?thesis by (simp add: link_params_def facet_get parse_int_text)
  next
    case False
    then have "sf_page f = 1" using assms by (simp add: shown_filters_def)
    then show ?thesis by (simp add: link_params_def facet_get first_page)
  qed
  have state: "find (\<lambda>s. state_name s = or_else (param_get (link_params f) ''state'') []) SCHEDULE_STATES = sf_state f"
    by (cases "sf_state f") (simp_all add: link_params_def facet_get find_state find_no_state)
  have org: "(if or_else (or_opt (param_get (link_params f) ''organization'') (param_get (link_params f) ''view'')) ''time'' = ''court''
      then ByCourtOrder else ByTimeOrder) = sf_organization f"
    by (cases "sf_organization f") (simp_all add: link_params_def facet_get)
  have texts: "or_else (param_get (link_params f) ''day'') [] = sf_day f" "or_else (param_get (link_params f) ''event'') [] = sf_event f"
    "or_else (param_get (link_params f) ''player'') [] = sf_player f" "or_else (param_get (link_params f) ''court'') [] = sf_court f"
    by (simp_all add: link_params_def facet_get)
  show ?thesis
    unfolding parseScheduleFilters_def Let_def page state org texts
    using assms by (auto simp: shown_filters_def)
qed

text \<open>C35. Every link the schedule page draws (a page of the set up to 2^53 - 1, either grouping) opens with exactly
  the filters it was drawn from, whatever was typed into the search boxes: the address is encoded by
  \<open>matchesPath\<close>, cut by the browser, decoded and read back by the next request's \<open>parseFilters\<close>.\<close>

theorem schedule_links_keep_filters:
  "parseScheduleFilters (parse_query (url_query (matchesPath slug
     ((parseScheduleFilters q)\<lparr>sf_page := min 9007199254740991 (max 1 p), sf_organization := org\<rparr>)))) =
   (parseScheduleFilters q)\<lparr>sf_page := min 9007199254740991 (max 1 p), sf_organization := org\<rparr>"
proof -
  have "shown_filters ((parseScheduleFilters q)\<lparr>sf_page := min 9007199254740991 (max 1 p), sf_organization := org\<rparr>)"
    using parsed_shown[of q] by (auto simp: shown_filters_def)
  then show ?thesis by (simp only: link_query link_params_read)
qed


section \<open>Queue words and refused searches\<close>

lemma first_waiting:
  "i < length q \<Longrightarrow>
   length (filter waits (take (i + 1) q)) = length (filter waits (take i q)) + (if waits (q ! i) then 1 else 0)"
  by (simp add: take_Suc_conv_app_nth)

lemma no_waiting_before: "i < length q \<Longrightarrow> filter waits (take i q) = [] \<longleftrightarrow> (\<forall>j < i. \<not> waits (q ! j))"
  by (auto simp: filter_empty_conv set_conv_nth)

text \<open>In a court's queue exactly the first match that is neither over nor on court is called next.\<close>

lemma next_is_first_waiting:
  assumes "i < length q"
  shows "queueLabel q i = Some ''Next'' \<longleftrightarrow> waits (q ! i) \<and> (\<forall>j < i. \<not> waits (q ! j))"
proof (cases "waits (q ! i)")
  case True
  have "queueLabel q i = Some ''Next'' \<longleftrightarrow> filter waits (take i q) = []"
    using True first_waiting[OF assms] by (simp add: queueLabel_def waits_def)
  then show ?thesis using True no_waiting_before[OF assms] by simp
next
  case False
  then have "isCompleted (q ! i) \<or> sm_status (q ! i) = Some SsLive" by (simp add: waits_def)
  then have "queueLabel q i \<noteq> Some ''Next''" by (auto simp: queueLabel_def Let_def)
  then show ?thesis using False by simp
qed

text \<open>A cancelled match is neither over nor on court for the queue, so it is called next.\<close>

lemma cancelled_called_next: "sm_status m = Some SsCancelled \<Longrightarrow> queueLabel (m # q) 0 = Some ''Next''"
  by (simp add: queueLabel_def isCompleted_def waits_def)

text \<open>With the days of a set mixed, the queue orders clock times alone: the next match of court 1 on a page
  that opens on Saturday is Sunday's.\<close>

definition saturday_and_sunday :: "schedule_match list" where
  "saturday_and_sunday =
     [\<lparr>sm_matchKey = ''a'', sm_status = Some SsScheduled, sm_scheduledDate = Some ''2026-08-08'',
       sm_scheduledTime = Some ''14:00'', sm_court = Some 1\<rparr>,
      \<lparr>sm_matchKey = ''b'', sm_status = Some SsScheduled, sm_scheduledDate = Some ''2026-08-09'',
       sm_scheduledTime = Some ''09:00'', sm_court = Some 1\<rparr>]"

lemma later_day_called_next:
  assumes "0 < collate ''14:00'' ''09:00''"
  shows "by_court collate saturday_and_sunday = [(''Court 1'', rev saturday_and_sunday)]"
    "queueLabel (rev saturday_and_sunday) 0 = Some ''Next''" "sm_matchKey (rev saturday_and_sunday ! 0) = ''b''"
proof -
  have "js_sort (\<lambda>a b. collate (or_else (sm_scheduledTime a) ''99:99'') (or_else (sm_scheduledTime b) ''99:99''))
      saturday_and_sunday = rev saturday_and_sunday"
    using assms by (simp add: js_sort_def saturday_and_sunday_def)
  moreover have "group_by (\<lambda>m. Some (matchCourt m)) (rev saturday_and_sunday) = [(''Court 1'', rev saturday_and_sunday)]"
    by code_simp
  ultimately show "by_court collate saturday_and_sunday = [(''Court 1'', rev saturday_and_sunday)]"
    by (simp only: by_court_def)
  show "queueLabel (rev saturday_and_sunday) 0 = Some ''Next''" "sm_matchKey (rev saturday_and_sunday ! 0) = ''b''"
    by code_simp+
qed

lemma second_read_fails:
  "apiGet fetch env (matches_read slug (parseScheduleFilters q)) = Inl e \<Longrightarrow>
   \<exists>e. schedule_loader fetch env slug q = Inl e"
  by (simp add: schedule_loader_def Let_def split: sum.split)

text \<open>Two dots in a search box are two dots of the outgoing query, so the second read is refused before it is
  sent: the page is an error page although the search is an ordinary text.\<close>

lemma dotted_search_refused:
  "\<exists>e. schedule_loader fetch env ''open'' [(''player'', ''J..'')] = Inl e"
proof -
  have "\<not> public_projection (matches_read ''open'' (parseScheduleFilters [(''player'', ''J..'')]))" by code_simp
  from api_answers(1)[OF this, of fetch env] show ?thesis by (rule second_read_fails)
qed

end
