(* ===== verification/EntrantFrame.thy ===== *)
theory EntrantFrame
  imports EntrantText
begin

text \<open>
  The frame every page of a tournament wears on the public site (\<open>lib/tournamentFrame.ts\<close>): its tabs, the one
  action of its phase, status, dates and the trail of links, as a function of the public projection, the open
  section and the time of the request.
\<close>

section \<open>Sections and tabs\<close>

datatype frame_section = SecOverview | SecSchedule | SecDraws | SecPlayers | SecDocuments

definition section_name :: "frame_section \<Rightarrow> string" where
  "section_name s =
     (case s of SecOverview \<Rightarrow> ''overview'' | SecSchedule \<Rightarrow> ''schedule'' | SecDraws \<Rightarrow> ''draws''
      | SecPlayers \<Rightarrow> ''players'' | SecDocuments \<Rightarrow> ''documents'')"

definition tournamentBase :: "string \<Rightarrow> string" where
  "tournamentBase slug = ''/e/'' @ encode_uri_component slug"

definition sectionHref :: "string \<Rightarrow> frame_section \<Rightarrow> string" where
  "sectionHref slug sec =
     (case sec of
        SecOverview \<Rightarrow> tournamentBase slug
      | SecSchedule \<Rightarrow> tournamentBase slug @ ''/schedule''
      | SecDocuments \<Rightarrow> tournamentBase slug @ ''/regulations''
      | _ \<Rightarrow> tournamentBase slug @ ''?tab='' @ section_name sec)"

definition sectionLabel :: "frame_section \<Rightarrow> string" where
  "sectionLabel s =
     (case s of SecOverview \<Rightarrow> ''Overview'' | SecSchedule \<Rightarrow> ''Schedule'' | SecDraws \<Rightarrow> ''Draws''
      | SecPlayers \<Rightarrow> ''Players'' | SecDocuments \<Rightarrow> ''Documents'')"

record frame_tab =
  ft_id :: frame_section
  ft_label :: string
  ft_href :: string

record crumb =
  cb_label :: string
  cb_href :: "string option"

text \<open>Of the page projection, what the frame reads.\<close>

record 'p frame_page =
  fp_slug :: string
  fp_regulationsText :: "string option"
  fp_name :: "string option"
  fp_phase :: "string option"
  fp_status :: "string option"
  fp_timeZone :: "string option"
  fp_date :: "string option"
  fp_endDate :: "string option"
  fp_orgName :: "string option"
  fp_venueName :: "string option"
  fp_events :: "phase_event list"
  fp_entrants :: "'p list"
  fp_publication :: "publication option"

definition frame_sections :: "'p frame_page \<Rightarrow> frame_section list" where
  "frame_sections page =
     (let visible = visibleTabs (fp_events page) (fp_entrants page) (fp_publication page)
      in [SecOverview, SecSchedule] @ (if TabDraws \<in> set visible then [SecDraws] else []) @
         (if TabPlayers \<in> set visible then [SecPlayers] else []) @
         (if truthy (fp_regulationsText page) then [SecDocuments] else []))"

definition frameTabs :: "'p frame_page \<Rightarrow> frame_tab list" where
  "frameTabs page =
     map (\<lambda>s. \<lparr>ft_id = s, ft_label = sectionLabel s, ft_href = sectionHref (fp_slug page) s\<rparr>) (frame_sections page)"

section \<open>The model of the frame\<close>

type_synonym phase_action = "string \<times> string"

record frame_model =
  fm_full :: bool
  fm_orgName :: "string option"
  fm_title :: string
  fm_metaLine :: string
  fm_compactMetaLine :: string
  fm_chip :: chip_state
  fm_cta :: cta_state
  fm_phaseAction :: "phase_action option"
  fm_statusOverride :: "(string \<times> bool) option"
  fm_timeNote :: string
  fm_tabs :: "frame_tab list"
  fm_crumbs :: "crumb list"

definition frame_phase :: "'p frame_page \<Rightarrow> tournament_phase" where
  "frame_phase page = tournamentPhase (fp_phase page) (fp_status page) (fp_publication page) (Some (fp_events page))"

definition rawPhaseAction :: "'p frame_page \<Rightarrow> phase_action option" where
  "rawPhaseAction page =
     (let slug = fp_slug page; phase = frame_phase page;
          has = (\<lambda>s. list_ex (\<lambda>t. ft_id t = s) (frameTabs page))
      in if ctaState (fp_events page) slug \<noteq> CtaClosed then Some (''Enter this tournament'', tournamentBase slug @ ''/enter'')
         else if phase = PhLive \<and> has SecDraws then Some (''Follow live matches'', sectionHref slug SecSchedule)
         else if phase = PhDrawsPublished \<and> has SecDraws then Some (''View draws'', sectionHref slug SecDraws)
         else if (phase = PhComplete \<or> phase = PhArchived) \<and> has SecDraws then Some (''View results'', sectionHref slug SecDraws)
         else if phase = PhEntriesClosed \<and> has SecPlayers then Some (''View entrants'', sectionHref slug SecPlayers)
         else if phase = PhAnnounced then Some (''View tournament information'', tournamentBase slug)
         else None)"

definition phaseAction :: "'p frame_page \<Rightarrow> frame_section \<Rightarrow> phase_action option" where
  "phaseAction page active =
     (case rawPhaseAction page of
        Some a \<Rightarrow> if snd a = sectionHref (fp_slug page) active then None else Some a
      | None \<Rightarrow> None)"

definition hasExplicitPhase :: "'p frame_page \<Rightarrow> bool" where
  "hasExplicitPhase page \<longleftrightarrow> truthy (fp_phase page) \<or> truthy (fp_status page)"

definition frame_crumbs :: "'p frame_page \<Rightarrow> frame_section \<Rightarrow> crumb list \<Rightarrow> crumb list" where
  "frame_crumbs page active trail =
     (let head = \<lparr>cb_label = ''Tournaments'', cb_href = Some ''/e/''\<rparr> #
            (if truthy (fp_name page)
             then [\<lparr>cb_label = the (fp_name page), cb_href = Some (tournamentBase (fp_slug page))\<rparr>] else []);
          tail = (if trail \<noteq> [] then filter (\<lambda>c. cb_label c \<noteq> []) trail
            else if active = SecOverview then []
            else [\<lparr>cb_label = sectionLabel active, cb_href = Some (sectionHref (fp_slug page) active)\<rparr>]);
          crumbs = head @ tail
      in butlast crumbs @ [(last crumbs)\<lparr>cb_href := None\<rparr>])"

definition present :: "string option list \<Rightarrow> string list" where
  "present parts = map the (filter truthy parts)"

definition metaLine :: "'p frame_page \<Rightarrow> string" where
  "metaLine page =
     join_with '', '' (present
       [if truthy (fp_date page)
        then Some (join_with ('' '' @ endash @ '' '') (present
               [Some (formatDateLong (fp_date page)),
                if truthy (fp_endDate page) \<and> fp_endDate page \<noteq> fp_date page then Some (formatDateLong (fp_endDate page)) else None]))
        else None,
        fp_venueName page])"

definition compactMetaLine :: "'p frame_page \<Rightarrow> string" where
  "compactMetaLine page =
     join_with ('' '' @ middot @ '' '') (present [Some (formatDateRangeShort (fp_date page) (fp_endDate page)), fp_venueName page])"

definition VENUE_TIME_NOTE :: string where
  "VENUE_TIME_NOTE = ''All times local to the venue''"

definition tournamentFrameModel ::
  "zone_host \<Rightarrow> 'p frame_page \<Rightarrow> frame_section \<Rightarrow> int \<Rightarrow> crumb list \<Rightarrow> frame_model" where
  "tournamentFrameModel zh page active nowMs trail =
     \<lparr>fm_full = (active = SecOverview),
      fm_orgName = (if fp_orgName page = Some ''Local Workspace'' then None else fp_orgName page),
      fm_title = or_else (fp_name page) (fp_slug page),
      fm_metaLine = metaLine page,
      fm_compactMetaLine = compactMetaLine page,
      fm_chip = capChipCountdown zh (chipState (fp_events page) nowMs) (nearestCloseAt (fp_events page))
        (or_else (fp_timeZone page) ''UTC''),
      fm_cta = ctaState (fp_events page) (fp_slug page),
      fm_phaseAction = (if hasExplicitPhase page then phaseAction page active else None),
      fm_statusOverride = (if hasExplicitPhase page
        then Some (phaseLabel (frame_phase page), frame_phase page \<in> {PhEntriesOpen, PhLive}) else None),
      fm_timeNote = VENUE_TIME_NOTE,
      fm_tabs = frameTabs page,
      fm_crumbs = frame_crumbs page active trail\<rparr>"

section \<open>Every link of the frame leads somewhere\<close>

lemma section_href_inject: "sectionHref slug s = sectionHref slug s' \<longleftrightarrow> s = s'"
  by (cases s; cases s') (simp_all add: sectionHref_def section_name_def)

lemma tabs_distinct: "distinct (map ft_href (frameTabs page))"
  by (auto simp: frameTabs_def frame_sections_def Let_def section_href_inject)

lemma tab_mem: "list_ex (\<lambda>t. ft_id t = s) (frameTabs page) \<longleftrightarrow> s \<in> set (frame_sections page)"
  by (auto simp: frameTabs_def list_ex_iff)

lemma tab_hrefs: "ft_href ` set (frameTabs page) = sectionHref (fp_slug page) ` set (frame_sections page)"
  by (simp add: frameTabs_def image_image)

lemma raw_action_leads:
  assumes "rawPhaseAction page = Some a"
  shows "snd a = tournamentBase (fp_slug page) @ ''/enter'' \<and> entriesOpen (fp_events page) \<or> snd a \<in> ft_href ` set (frameTabs page)"
proof -
  have o: "SecOverview \<in> set (frame_sections page)" "SecSchedule \<in> set (frame_sections page)"
    by (simp_all add: frame_sections_def Let_def)
  have base: "tournamentBase (fp_slug page) = sectionHref (fp_slug page) SecOverview" by (simp add: sectionHref_def)
  show ?thesis
  proof (cases "ctaState (fp_events page) (fp_slug page) \<noteq> CtaClosed")
    case True
    then show ?thesis using assms by (auto simp: rawPhaseAction_def ctaState_def split: if_split_asm)
  next
    case False
    then have "snd a \<in> sectionHref (fp_slug page) ` set (frame_sections page)"
      using assms o by (auto simp: rawPhaseAction_def Let_def tab_mem base split: if_split_asm)
    then show ?thesis by (simp add: tab_hrefs)
  qed
qed

text \<open>Whatever the projection says and whatever trail a page passes, the frame is coherent: the tabs have
  different addresses, the action of the phase leads to the entry form while entries are open or else to one of
  the tabs, never to the section that is already open, and the last part of the trail is no link.\<close>

theorem frame_is_coherent:
  fixes zh and page :: "'p frame_page" and active now trail
  defines "m \<equiv> tournamentFrameModel zh page active now trail"
  shows "distinct (map ft_href (fm_tabs m)) \<and>
    (case fm_phaseAction m of
       None \<Rightarrow> True
     | Some a \<Rightarrow>
         snd a \<noteq> sectionHref (fp_slug page) active \<and>
         (snd a = tournamentBase (fp_slug page) @ ''/enter'' \<and> entriesOpen (fp_events page) \<or>
          snd a \<in> ft_href ` set (fm_tabs m))) \<and>
    fm_crumbs m \<noteq> [] \<and> cb_href (last (fm_crumbs m)) = None"
proof -
  have tabs: "fm_tabs m = frameTabs page" by (simp add: m_def tournamentFrameModel_def)
  have "case fm_phaseAction m of
       None \<Rightarrow> True
     | Some a \<Rightarrow>
         snd a \<noteq> sectionHref (fp_slug page) active \<and>
         (snd a = tournamentBase (fp_slug page) @ ''/enter'' \<and> entriesOpen (fp_events page) \<or> snd a \<in> ft_href ` set (frameTabs page))"
    using raw_action_leads[of page]
    by (auto simp: m_def tournamentFrameModel_def phaseAction_def split: option.split if_split)
  moreover have "fm_crumbs m \<noteq> [] \<and> cb_href (last (fm_crumbs m)) = None"
    by (simp add: m_def tournamentFrameModel_def frame_crumbs_def Let_def)
  ultimately show ?thesis unfolding tabs using tabs_distinct by blast
qed

end
