(* ===== verification/SolveRail.thy ===== *)
theory SolveRail
  imports Complex_Main TournamentStore OpsBlock
begin

text \<open>
  The rail of a solve: \<open>runSolveJob\<close> and \<open>pollSolveJob\<close> of \<open>api/client.ts\<close>, which submit a job and
  poll it to its end; \<open>hooks/useSchedule.ts\<close>, which drives the rail for the three ways to solve and
  adopts a job left over from before a reload; and \<open>lib/bracketOccupancy.ts\<close>. The hook is an
  \<open>async\<close> function cut at its awaits: each piece between two awaits is one operation on the shared
  state, and \<open>rail_step\<close> interleaves the pieces of several solves. An abort controller is named by
  the number of the solve it was made for.
\<close>

section \<open>Jobs\<close>

datatype job_status = JobQueued | JobClaimed | JobRunning | JobSucceeded | JobFailed | JobInfeasible | JobCancelled

definition SOLVE_JOB_TERMINAL_STATUSES :: "job_status list" where
  "SOLVE_JOB_TERMINAL_STATUSES = [JobSucceeded, JobFailed, JobInfeasible, JobCancelled]"

record job_error =
  je_code :: string
  je_message :: "string option"

record solve_job =
  sj_id :: string
  sj_status :: job_status
  sj_progress :: "js_object option"
  sj_result :: "full_schedule option"
  sj_error :: "job_error option"
  sj_startedAt :: "string option"

abbreviation job_over :: "solve_job \<Rightarrow> bool" where
  "job_over job \<equiv> sj_status job \<in> set SOLVE_JOB_TERMINAL_STATUSES"

text \<open>What a rejected promise carries: the silent \<open>AbortError\<close>, or an error and its message.\<close>

datatype rail_error = AbortError | RailError string

definition nonempty :: "string option \<Rightarrow> string option" where
  "nonempty t = (if truthy t then t else None)"

text \<open>The end of \<open>pollSolveJob\<close>: what a job in a terminal status resolves or rejects with.\<close>

definition job_verdict :: "solve_job \<Rightarrow> rail_error + full_schedule" where
  "job_verdict job =
     (if sj_status job = JobSucceeded \<or> sj_status job = JobInfeasible
      then (case sj_result job of
              None \<Rightarrow> Inl (RailError ''solve job finished without a result'')
            | Some r \<Rightarrow> Inr r)
      else if sj_status job = JobCancelled then Inl AbortError
      else Inl (RailError (or_else (or_opt (nonempty (Option.bind (sj_error job) je_message))
                                            (nonempty (map_option je_code (sj_error job))))
                                    ''Solve failed'')))"

section \<open>Polling\<close>

text \<open>One turn of the loop: whether the signal was aborted when the turn began, and what the read at
  its end gave (the message of a failed read, or the job).\<close>

record poll_round =
  pr_aborted :: bool
  pr_reply :: "string + solve_job"

record poll_outcome =
  po_result :: "rail_error + full_schedule"
  po_cancelSent :: bool
  po_waits :: "rat list"
  po_seen :: "solve_job list"

definition next_delay :: "rat \<Rightarrow> rat" where
  "next_delay delayMs = min (delayMs * 3 / 2) 2000"

definition outcome :: "rail_error + full_schedule \<Rightarrow> bool \<Rightarrow> poll_outcome" where
  "outcome r c = \<lparr>po_result = r, po_cancelSent = c, po_waits = [], po_seen = []\<rparr>"

definition waited :: "rat \<Rightarrow> poll_outcome \<Rightarrow> poll_outcome" where
  "waited d o1 = o1\<lparr>po_waits := d # po_waits o1\<rparr>"

definition seen :: "solve_job \<Rightarrow> poll_outcome \<Rightarrow> poll_outcome" where
  "seen j o1 = o1\<lparr>po_seen := j # po_seen o1\<rparr>"

text \<open>The loop over the rounds the world serves; \<open>None\<close> is a poll still going when they run out.\<close>

fun poll_loop :: "poll_round list \<Rightarrow> solve_job \<Rightarrow> rat \<Rightarrow> nat \<Rightarrow> poll_outcome option" where
  "poll_loop rounds job delayMs failures =
     (if job_over job then Some (outcome (job_verdict job) False)
      else case rounds of
        [] \<Rightarrow> None
      | r # rs \<Rightarrow>
          if pr_aborted r then Some (outcome (Inl AbortError) True)
          else map_option (waited delayMs)
            (case pr_reply r of
               Inr job' \<Rightarrow> map_option (seen job') (poll_loop rs job' (next_delay delayMs) 0)
             | Inl err \<Rightarrow>
                 if failures + 1 \<ge> 5 then Some (outcome (Inl (RailError err)) False)
                 else poll_loop rs job (next_delay delayMs) (failures + 1)))"

declare poll_loop.simps [simp del]

definition pollSolveJob :: "poll_round list \<Rightarrow> solve_job \<Rightarrow> poll_outcome option" where
  "pollSolveJob rounds initial = poll_loop rounds initial 500 0"

text \<open>\<open>runSolveJob\<close>: the submit gives the first snapshot or a message.\<close>

definition runSolveJob :: "string + solve_job \<Rightarrow> poll_round list \<Rightarrow> poll_outcome option" where
  "runSolveJob submitted rounds =
     (case submitted of
        Inl err \<Rightarrow> Some (outcome (Inl (RailError err)) False)
      | Inr job \<Rightarrow> map_option (seen job) (pollSolveJob rounds job))"

lemma poll_over: "job_over job \<Longrightarrow> poll_loop rs job d f = Some (outcome (job_verdict job) False)"
  by (simp add: poll_loop.simps)

lemma poll_Nil: "\<not> job_over job \<Longrightarrow> poll_loop [] job d f = None"
  by (simp add: poll_loop.simps)

lemma poll_abort: "\<not> job_over job \<Longrightarrow> pr_aborted r \<Longrightarrow>
    poll_loop (r # rs) job d f = Some (outcome (Inl AbortError) True)"
  by (simp add: poll_loop.simps)

lemma poll_read: "\<not> job_over job \<Longrightarrow> \<not> pr_aborted r \<Longrightarrow> pr_reply r = Inr j \<Longrightarrow>
    poll_loop (r # rs) job d f = map_option (waited d \<circ> seen j) (poll_loop rs j (next_delay d) 0)"
  by (subst poll_loop.simps) (simp add: option.map_comp)

lemma poll_miss: "\<not> job_over job \<Longrightarrow> \<not> pr_aborted r \<Longrightarrow> pr_reply r = Inl e \<Longrightarrow>
    poll_loop (r # rs) job d f =
      map_option (waited d) (if f + 1 \<ge> 5 then Some (outcome (Inl (RailError e)) False)
                             else poll_loop rs job (next_delay d) (f + 1))"
  by (subst poll_loop.simps) simp

lemmas poll_simps = poll_over poll_Nil poll_abort poll_read poll_miss

section \<open>The state the hook shares\<close>

datatype solver_phase = PhaseQueued | PhasePresolve | PhaseSearch | PhaseProving

text \<open>Of the solver panel, the fields the rail writes. An elapsed time is missing where the start of
  an adopted job is not a date (\<open>NaN\<close>).\<close>

record solver_hud =
  hu_phase :: "solver_phase option"
  hu_solutionCount :: js_value
  hu_objective :: "js_value option"
  hu_elapsedMs :: "int option"

definition DEFAULT_SOLVER_HUD :: solver_hud where
  "DEFAULT_SOLVER_HUD = \<lparr>hu_phase = None, hu_solutionCount = JNum 0, hu_objective = None, hu_elapsedMs = Some 0\<rparr>"

record schedule_stats =
  gs_elapsed :: int
  gs_objectiveScore :: "js_value option"
  gs_assignments :: "schedule_assignment list"

record pending_pin =
  pp_matchId :: string
  pp_slotId :: int
  pp_courtId :: int

text \<open>A solve in flight: whether its signal is aborted, when it began, and whether it was adopted.\<close>

record solve_run =
  sr_aborted :: bool
  sr_startedAt :: "int option"
  sr_adopted :: bool

record rail =
  rl_isGenerating :: bool
  rl_generationError :: "string option"
  rl_generationProgress :: "js_value option"
  rl_hud :: solver_hud
  rl_stats :: "schedule_stats option"
  rl_pendingPin :: "pending_pin option"
  rl_store :: tournament_state
  rl_active :: "nat option"
  rl_runs :: "(nat, solve_run) dict"
  rl_next :: nat
  rl_adoptedJobIds :: "string list"
  rl_lastResumeCheck :: "(string, int) dict"

definition initial_rail :: "tournament_state \<Rightarrow> rail" where
  "initial_rail store = \<lparr>rl_isGenerating = False, rl_generationError = None, rl_generationProgress = None,
     rl_hud = DEFAULT_SOLVER_HUD, rl_stats = None, rl_pendingPin = None, rl_store = store,
     rl_active = None, rl_runs = [], rl_next = 0, rl_adoptedJobIds = [], rl_lastResumeCheck = []\<rparr>"

definition setGenerationError :: "string option \<Rightarrow> rail \<Rightarrow> rail" where
  "setGenerationError e s = s\<lparr>rl_generationError := e\<rparr>"

definition setSolverHud :: "(solver_hud \<Rightarrow> solver_hud) \<Rightarrow> rail \<Rightarrow> rail" where
  "setSolverHud patch s = s\<lparr>rl_hud := patch (rl_hud s)\<rparr>"

definition setPendingPin :: "pending_pin option \<Rightarrow> rail \<Rightarrow> rail" where
  "setPendingPin pin s = s\<lparr>rl_pendingPin := pin\<rparr>"

section \<open>The pieces of a solve\<close>

text \<open>\<open>activeSolveController?.abort()\<close>: the signal of the solve it was made for, if that still runs.\<close>

definition abort_active :: "rail \<Rightarrow> rail" where
  "abort_active s =
     (case rl_active s of
        None \<Rightarrow> s
      | Some k \<Rightarrow> s\<lparr>rl_runs := map (\<lambda>(j, r). (j, if j = k then r\<lparr>sr_aborted := True\<rparr> else r)) (rl_runs s)\<rparr>)"

text \<open>A new controller and the solve it belongs to.\<close>

definition new_run :: "int option \<Rightarrow> bool \<Rightarrow> rail \<Rightarrow> rail" where
  "new_run startedAt adopted s =
     s\<lparr>rl_active := Some (rl_next s), rl_next := rl_next s + 1,
       rl_runs := rl_runs s @ [(rl_next s, \<lparr>sr_aborted = False, sr_startedAt = startedAt, sr_adopted = adopted\<rparr>)]\<rparr>"

definition cancelGeneration :: "rail \<Rightarrow> rail" where
  "cancelGeneration s = (abort_active s)\<lparr>rl_active := None\<rparr>"

text \<open>\<open>runSolve\<close> up to the submit.\<close>

definition run_begin :: "int \<Rightarrow> rail \<Rightarrow> rail" where
  "run_begin now s =
     (let s1 = new_run (Some now) False (abort_active s)
      in setSolverHud (\<lambda>h. h\<lparr>hu_phase := Some PhaseQueued\<rparr>)
           (s1\<lparr>rl_isGenerating := True, rl_generationError := None, rl_generationProgress := None,
               rl_hud := DEFAULT_SOLVER_HUD\<rparr>))"

definition hud_phase :: "solve_job \<Rightarrow> solver_phase" where
  "hud_phase job = (if sj_status job = JobQueued then PhaseQueued else PhaseSearch)"

definition elapsed :: "int \<Rightarrow> solve_run \<Rightarrow> int option" where
  "elapsed now r = map_option (\<lambda>t. now - t) (sr_startedAt r)"

text \<open>\<open>onJob\<close>: an adopted job reports no progress numbers.\<close>

definition job_patch :: "int \<Rightarrow> solve_run \<Rightarrow> solve_job \<Rightarrow> solver_hud \<Rightarrow> solver_hud" where
  "job_patch now r job h =
     (let progress = (if sr_adopted r then [] else or_else (sj_progress job) [])
      in h\<lparr>hu_phase := Some (hud_phase job), hu_elapsedMs := elapsed now r,
           hu_solutionCount := or_else (map_of progress ''solutionCount'') (hu_solutionCount h),
           hu_objective := or_opt (map_of progress ''objective'') (hu_objective h)\<rparr>)"

definition on_job :: "int \<Rightarrow> solve_run \<Rightarrow> solve_job \<Rightarrow> rail \<Rightarrow> rail" where
  "on_job now r job = setSolverHud (job_patch now r job)"

text \<open>The \<open>finally\<close> block; the solve is over.\<close>

definition run_finally :: "nat \<Rightarrow> rail \<Rightarrow> rail" where
  "run_finally k s =
     s\<lparr>rl_isGenerating := False,
       rl_active := (if rl_active s = Some k then None else rl_active s),
       rl_runs := AList.delete k (rl_runs s)\<rparr>"

definition run_stats :: "int \<Rightarrow> solve_run \<Rightarrow> full_schedule \<Rightarrow> schedule_stats" where
  "run_stats now r result =
     \<lparr>gs_elapsed = or_else (elapsed now r) 0,
      gs_objectiveScore = (if fs_objectiveScore result = JNull then None else Some (fs_objectiveScore result)),
      gs_assignments = fs_assignments result\<rparr>"

text \<open>How \<open>runSolve\<close> and an adoption end. An abort is silent; \<open>runSolve\<close> throws its other errors on to
  the caller, an adoption does not.\<close>

definition run_settle :: "nat \<Rightarrow> solve_run \<Rightarrow> int \<Rightarrow> rail_error + full_schedule \<Rightarrow> rail \<Rightarrow> rail" where
  "run_settle k r now result s =
     run_finally k
       (case result of
          Inr sch \<Rightarrow>
            (let s1 = s\<lparr>rl_store := setSchedule (Some sch) (rl_store s)\<rparr>
             in if sr_adopted r then s1 else s1\<lparr>rl_stats := Some (run_stats now r sch)\<rparr>)
        | Inl AbortError \<Rightarrow> s
        | Inl (RailError message) \<Rightarrow> setGenerationError (Some message) s)"

definition RESUME_CHECK_TTL_MS :: int where
  "RESUME_CHECK_TTL_MS = 15000"

text \<open>The resume check on mount up to its read: whether the list of jobs is asked for.\<close>

definition resume_check :: "string option \<Rightarrow> int \<Rightarrow> rail \<Rightarrow> bool \<times> rail" where
  "resume_check tournamentId now s =
     (if \<not> truthy tournamentId then (False, s)
      else let tid = or_else tournamentId []
           in if now - or_else (map_of (rl_lastResumeCheck s) tid) 0 < RESUME_CHECK_TTL_MS then (False, s)
              else (\<not> rl_isGenerating s, s\<lparr>rl_lastResumeCheck := AList.update tid now (rl_lastResumeCheck s)\<rparr>))"

text \<open>After the read (\<open>None\<close>: it failed): the job it adopts, if any.\<close>

definition adoptable :: "solve_job list option \<Rightarrow> bool \<Rightarrow> rail \<Rightarrow> solve_job option" where
  "adoptable jobs unmounted s =
     (case Option.bind jobs (find (\<lambda>j. \<not> job_over j)) of
        None \<Rightarrow> None
      | Some a \<Rightarrow> if unmounted \<or> sj_id a \<in> set (rl_adoptedJobIds s) then None else Some a)"

definition adopt :: "host_clock \<Rightarrow> solve_job \<Rightarrow> int \<Rightarrow> rail \<Rightarrow> rail" where
  "adopt hc job now s =
     (let startedAt = (case nonempty (sj_startedAt job) of Some t \<Rightarrow> hc_parse hc t | None \<Rightarrow> Some now);
          s1 = new_run startedAt True (s\<lparr>rl_adoptedJobIds := rl_adoptedJobIds s @ [sj_id job]\<rparr>)
      in setSolverHud (\<lambda>h. h\<lparr>hu_phase := Some (hud_phase job)\<rparr>)
           (s1\<lparr>rl_isGenerating := True, rl_generationError := None\<rparr>))"

section \<open>The three ways to solve\<close>

text \<open>\<open>lib/bracketOccupancy.ts\<close>: one window \<open>[court, from, to)\<close> per placed bracket match.\<close>

definition bracketOccupiedWindows :: "bracket_tournament option \<Rightarrow> int list list" where
  "bracketOccupiedWindows data =
     map (\<lambda>a. [ba_court_id a, ba_slot_id a, ba_slot_id a + ba_duration_slots a])
       (or_else (map_option bt_assignments data) [])"

text \<open>A read of the bracket: failed, or the snapshot (missing where none is configured).\<close>

type_synonym bracket_reply = "unit + bracket_tournament option"

definition OCCUPANCY_UNKNOWN :: string where
  "OCCUPANCY_UNKNOWN = ''Could not verify bracket court usage, so the solve was not started. ''
     @ ''Retry when the connection recovers.''"

definition resolveClosedWindows ::
  "int list list option \<Rightarrow> string option \<Rightarrow> bracket_reply \<Rightarrow> rail \<Rightarrow> int list list option \<times> rail" where
  "resolveClosedWindows provided tournamentId reply s =
     (case provided of
        Some ws \<Rightarrow> (Some ws, s)
      | None \<Rightarrow>
          if \<not> truthy tournamentId then (Some [], s)
          else (case reply of
                  Inr data \<Rightarrow> (Some (bracketOccupiedWindows data), s)
                | Inl _ \<Rightarrow> (None, setGenerationError (Some OCCUPANCY_UNKNOWN) s)))"

record prev_assignment =
  pv_matchId :: string
  pv_slotId :: int
  pv_courtId :: int
  pv_durationSlots :: "int option"
  pv_pinned :: "(int \<times> int) option"    \<comment> \<open>\<open>pinnedSlotId\<close>, \<open>pinnedCourtId\<close>\<close>
  pv_locked :: "bool option"

record solve_body =
  sb_config :: js_object
  sb_players :: "js_object list"
  sb_matches :: "js_object list"
  sb_previousAssignments :: "prev_assignment list option"
  sb_closedCourtWindows :: "int list list option"

text \<open>What the callbacks captured when they were rendered.\<close>

record solve_scope =
  so_tournamentId :: "string option"
  so_config :: "js_object option"
  so_players :: "js_object list"
  so_matches :: "js_object list"
  so_schedule :: "full_schedule option"

datatype entry = Threw string | Stopped | Submits solve_body

definition solve_body_of :: "solve_scope \<Rightarrow> js_object \<Rightarrow> prev_assignment list option \<Rightarrow> int list list \<Rightarrow> solve_body" where
  "solve_body_of sc config previous windows =
     \<lparr>sb_config = config, sb_players = so_players sc, sb_matches = so_matches sc,
      sb_previousAssignments = previous,
      sb_closedCourtWindows = (if length windows > 0 then Some windows else None)\<rparr>"

text \<open>\<open>runSolve\<close> on a body: it throws without a workspace, else begins and submits.\<close>

definition runSolve :: "solve_scope \<Rightarrow> int \<Rightarrow> solve_body \<Rightarrow> rail \<Rightarrow> entry \<times> rail" where
  "runSolve sc now body s =
     (if \<not> truthy (so_tournamentId sc) then (Threw ''No workspace selected'', s)
      else (Submits body, run_begin now s))"

definition solve_around :: "solve_scope \<Rightarrow> int \<Rightarrow> js_object \<Rightarrow> prev_assignment list option \<Rightarrow>
    int list list option \<times> rail \<Rightarrow> (rail \<Rightarrow> rail) \<Rightarrow> entry \<times> rail" where
  "solve_around sc now config previous resolved unknown =
     (case resolved of
        (None, s) \<Rightarrow> (Stopped, unknown s)
      | (Some windows, s) \<Rightarrow> runSolve sc now (solve_body_of sc config previous windows) s)"

definition generateSchedule ::
  "solve_scope \<Rightarrow> int \<Rightarrow> int list list option \<Rightarrow> bracket_reply \<Rightarrow> rail \<Rightarrow> entry \<times> rail" where
  "generateSchedule sc now closedCourtWindows reply s =
     (case so_config sc of
        None \<Rightarrow> (Threw ''No configuration set'', s)
      | Some config \<Rightarrow>
          solve_around sc now config None
            (resolveClosedWindows closedCourtWindows (so_tournamentId sc) reply s) id)"

definition plain_previous :: "schedule_assignment \<Rightarrow> prev_assignment" where
  "plain_previous a = \<lparr>pv_matchId = as_matchId a, pv_slotId = as_slotId a, pv_courtId = as_courtId a,
     pv_durationSlots = Some (as_durationSlots a), pv_pinned = None, pv_locked = None\<rparr>"

definition reoptimizeSchedule :: "solve_scope \<Rightarrow> int \<Rightarrow> bracket_reply \<Rightarrow> rail \<Rightarrow> entry \<times> rail" where
  "reoptimizeSchedule sc now reply s =
     (case (so_config sc, so_schedule sc) of
        (Some config, Some sch) \<Rightarrow>
          solve_around sc now config (Some (map plain_previous (fs_assignments sch)))
            (resolveClosedWindows None (so_tournamentId sc) reply s) id
      | _ \<Rightarrow> (Threw ''No schedule to reoptimize'', s))"

definition pinned_previous :: "pending_pin \<Rightarrow> schedule_assignment \<Rightarrow> prev_assignment" where
  "pinned_previous pin a =
     (if as_matchId a = pp_matchId pin
      then \<lparr>pv_matchId = as_matchId a, pv_slotId = pp_slotId pin, pv_courtId = pp_courtId pin,
            pv_durationSlots = Some (as_durationSlots a), pv_pinned = Some (pp_slotId pin, pp_courtId pin),
            pv_locked = None\<rparr>
      else plain_previous a)"

definition pinAndResolve :: "solve_scope \<Rightarrow> int \<Rightarrow> pending_pin \<Rightarrow> bracket_reply \<Rightarrow> rail \<Rightarrow> entry \<times> rail" where
  "pinAndResolve sc now pin reply s =
     (case (so_config sc, so_schedule sc) of
        (Some config, Some sch) \<Rightarrow>
          solve_around sc now config (Some (map (pinned_previous pin) (fs_assignments sch)))
            (resolveClosedWindows None (so_tournamentId sc) reply (setPendingPin (Some pin) s))
            (setPendingPin None)
      | _ \<Rightarrow> (Threw ''No schedule to re-solve'', s))"

section \<open>Interleaving\<close>

text \<open>
  One step of the console: an entry point stops before its submit or begins a solve, a snapshot
  arrives, a solve ends, a leftover job is adopted, or the operator cancels. With \<open>quiet\<close> a job is
  adopted only while no controller is held.
\<close>

inductive rail_step :: "host_clock \<Rightarrow> bool \<Rightarrow> rail \<Rightarrow> rail \<Rightarrow> bool" for hc quiet where
  Step_unknown: "rail_step hc quiet s (setGenerationError (Some OCCUPANCY_UNKNOWN) s)"
| Step_pin: "rail_step hc quiet s (setPendingPin pin s)"
| Step_begin: "rail_step hc quiet s (run_begin now s)"
| Step_job: "map_of (rl_runs s) k = Some r \<Longrightarrow> rail_step hc quiet s (on_job now r job s)"
| Step_settle: "map_of (rl_runs s) k = Some r \<Longrightarrow> rail_step hc quiet s (run_settle k r now result s)"
| Step_check: "rail_step hc quiet s (snd (resume_check tid now s))"
| Step_adopt: "adoptable jobs False s = Some job \<Longrightarrow> (quiet \<longrightarrow> rl_active s = None) \<Longrightarrow>
    rail_step hc quiet s (adopt hc job now s)"
| Step_cancel: "rail_step hc quiet s (cancelGeneration s)"

inductive_cases rail_stepE: "rail_step hc quiet s t"

inductive rail_reach :: "host_clock \<Rightarrow> bool \<Rightarrow> rail \<Rightarrow> bool" for hc quiet where
  Reach_init: "rail_reach hc quiet (initial_rail store)"
| Reach_step: "rail_reach hc quiet s \<Longrightarrow> rail_step hc quiet s t \<Longrightarrow> rail_reach hc quiet t"

section \<open>Polling ends with the job\<close>

definition read_ok :: "poll_round \<Rightarrow> bool" where
  "read_ok r = (case pr_reply r of Inl _ \<Rightarrow> False | Inr _ \<Rightarrow> True)"

definition snapshots :: "poll_round list \<Rightarrow> solve_job list" where
  "snapshots rs = List.map_filter (\<lambda>r. case pr_reply r of Inl _ \<Rightarrow> None | Inr j \<Rightarrow> Some j) rs"

text \<open>Never five failed reads in a row.\<close>

definition never_lost :: "bool list \<Rightarrow> bool" where
  "never_lost oks \<longleftrightarrow> (\<forall>xs ys zs. oks = xs @ ys @ zs \<longrightarrow> length ys = 5 \<longrightarrow> True \<in> set ys)"

text \<open>A round that leaves the loop going: not aborted, and its read failed or gave a job still open.\<close>

definition open_round :: "poll_round \<Rightarrow> bool" where
  "open_round r \<longleftrightarrow> \<not> pr_aborted r \<and> (case pr_reply r of Inl _ \<Rightarrow> True | Inr j \<Rightarrow> \<not> job_over j)"

lemma never_lost_suffix: "never_lost (xs @ ys) \<Longrightarrow> never_lost ys"
  unfolding never_lost_def by (metis append.assoc)

lemma never_lost_short: "length oks < 5 \<Longrightarrow> never_lost oks"
  by (auto simp: never_lost_def)

lemma never_lost_run: "never_lost (replicate n False @ oks) \<Longrightarrow> n < 5"
proof (rule ccontr)
  assume nl: "never_lost (replicate n False @ oks)" and "\<not> n < 5"
  then have "replicate n False @ oks = [] @ replicate 5 False @ (replicate (n - 5) False @ oks)"
    by (simp flip: append.assoc replicate_add)
  then show False using nl unfolding never_lost_def by (metis in_set_replicate length_replicate)
qed

lemma snapshots_Cons: "snapshots (r # rs) = (case pr_reply r of Inl _ \<Rightarrow> snapshots rs | Inr j \<Rightarrow> j # snapshots rs)"
  by (simp add: snapshots_def List.map_filter_def split: sum.split)

lemma snapshots_Nil [simp]: "snapshots [] = []"
  by (simp add: snapshots_def List.map_filter_def)

definition sane_delay :: "rat \<Rightarrow> bool" where
  "sane_delay d \<longleftrightarrow> 500 \<le> d \<and> d \<le> 2000"

lemma sane_next: "sane_delay d \<Longrightarrow> sane_delay (next_delay d)"
  by (auto simp: sane_delay_def next_delay_def)

lemma poll_rides:
  assumes "list_all open_round pre" "never_lost (replicate f False @ map read_ok pre)"
    and "\<not> job_over job" "sane_delay d"
    and stop: "\<And>d' f' job'. \<not> job_over job' \<Longrightarrow> sane_delay d' \<Longrightarrow> f' < 5 \<Longrightarrow>
      \<exists>o1. poll_loop post job' d' f' = Some o1 \<and> po_result o1 = res \<and> po_cancelSent o1 = c \<and>
           po_seen o1 = js \<and> length (po_waits o1) = n \<and> list_all sane_delay (po_waits o1)"
  shows "\<exists>o1. poll_loop (pre @ post) job d f = Some o1 \<and> po_result o1 = res \<and> po_cancelSent o1 = c \<and>
     po_seen o1 = snapshots pre @ js \<and> length (po_waits o1) = length pre + n \<and> list_all sane_delay (po_waits o1)"
  using assms(1-4)
proof (induction pre arbitrary: job d f)
  case Nil
  then show ?case using stop[of job d f] never_lost_run[of f "[]"] by simp
next
  case (Cons r pre)
  have r: "\<not> pr_aborted r" "list_all open_round pre" using Cons.prems(1) by (simp_all add: open_round_def[of r])
  show ?case
  proof (cases "pr_reply r")
    case (Inr j)
    have open_j: "\<not> job_over j" using Cons.prems(1) Inr by (simp add: open_round_def)
    have "never_lost (replicate 0 False @ map read_ok pre)"
      using never_lost_suffix[of "replicate f False @ [read_ok r]" "map read_ok pre"] Cons.prems(2) by simp
    from Cons.IH[OF r(2) this open_j sane_next[OF Cons.prems(4)]] show ?thesis
      using Cons.prems(3,4) r(1) Inr
      by (auto simp: poll_read seen_def waited_def snapshots_Cons)
  next
    case (Inl e)
    have lost: "never_lost (replicate (f + 1) False @ map read_ok pre)"
      using Cons.prems(2) Inl by (simp add: read_ok_def[of r] replicate_app_Cons_same)
    have "f + 1 < 5" by (rule never_lost_run[OF lost])
    with Cons.IH[OF r(2) lost Cons.prems(3) sane_next[OF Cons.prems(4)]] show ?thesis
      using Cons.prems(3,4) r(1) Inl
      by (auto simp: poll_miss waited_def snapshots_Cons)
  qed
qed

theorem poll_reports_first_verdict:
  assumes "\<not> job_over initial" "list_all open_round pre" "never_lost (map read_ok pre)"
    and "\<not> pr_aborted r" "pr_reply r = Inr job" "job_over job"
  shows "\<exists>o1. pollSolveJob (pre @ r # later) initial = Some o1 \<and> po_result o1 = job_verdict job \<and>
     \<not> po_cancelSent o1 \<and> po_seen o1 = snapshots pre @ [job] \<and>
     length (po_waits o1) = length pre + 1 \<and> list_all sane_delay (po_waits o1)"
proof -
  have "sane_delay 500" by (simp add: sane_delay_def)
  moreover have "\<exists>o1. poll_loop (r # later) job' d f = Some o1 \<and> po_result o1 = job_verdict job \<and>
      po_cancelSent o1 = False \<and> po_seen o1 = [job] \<and> length (po_waits o1) = 1 \<and> list_all sane_delay (po_waits o1)"
    if "\<not> job_over job'" "sane_delay d" for job' d f
    using that assms(4-6) by (simp add: poll_read poll_over outcome_def seen_def waited_def)
  ultimately show ?thesis unfolding pollSolveJob_def
    using poll_rides[of pre 0 initial 500 "r # later" "job_verdict job" False "[job]" 1] assms(1-3) by simp
qed

text \<open>An abort acts at the start of the next turn: the server is asked to cancel then.\<close>

lemma poll_aborts_next_round:
  assumes "\<not> job_over initial" "list_all open_round pre" "never_lost (map read_ok pre)" "pr_aborted r"
  shows "\<exists>o1. pollSolveJob (pre @ r # later) initial = Some o1 \<and> po_result o1 = Inl AbortError \<and>
     po_cancelSent o1 \<and> po_seen o1 = snapshots pre"
proof -
  have "sane_delay 500" by (simp add: sane_delay_def)
  moreover have "\<exists>o1. poll_loop (r # later) job' d f = Some o1 \<and> po_result o1 = Inl AbortError \<and>
      po_cancelSent o1 = True \<and> po_seen o1 = [] \<and> length (po_waits o1) = 0 \<and> list_all sane_delay (po_waits o1)"
    if "\<not> job_over job'" for job' d f
    using that assms(4) by (simp add: poll_abort outcome_def)
  ultimately show ?thesis unfolding pollSolveJob_def
    using poll_rides[of pre 0 initial 500 "r # later" "Inl AbortError" True "[]" 0] assms(1-3) by auto
qed

section \<open>What the shared state keeps\<close>

definition alive :: "nat \<Rightarrow> rail \<Rightarrow> bool" where
  "alive k s \<longleftrightarrow> (case map_of (rl_runs s) k of None \<Rightarrow> False | Some r \<Rightarrow> \<not> sr_aborted r)"

definition rail_ok :: "rail \<Rightarrow> bool" where
  "rail_ok s \<longleftrightarrow>
     (case rl_active s of None \<Rightarrow> True | Some k \<Rightarrow> alive k s) \<and>
     (rl_isGenerating s \<longrightarrow> rl_runs s \<noteq> []) \<and>
     list_all (\<lambda>k. k < rl_next s) (map fst (rl_runs s))"

text \<open>Every solve that is not aborted is the one the controller stands for.\<close>

definition one_live :: "rail \<Rightarrow> bool" where
  "one_live s \<longleftrightarrow> (\<forall>k. alive k s \<longrightarrow> rl_active s = Some k)"

lemma map_of_fresh: "list_all (\<lambda>k. k < (n :: nat)) (map fst d) \<Longrightarrow> map_of d n = None"
proof -
  assume a: "list_all (\<lambda>k. k < n) (map fst d)"
  have "n \<notin> set (map fst d)" using a unfolding list_all_iff by (metis less_irrefl)
  then show ?thesis by (simp add: map_of_eq_None_iff)
qed

lemma map_of_mapped: "map_of (map (\<lambda>(j, r). (j, g j r)) d) k = map_option (g k) (map_of d k)"
  by (induction d) auto

lemma fst_mapped: "map fst (map (\<lambda>(j, r). (j, g j r)) d) = map fst d"
  by (simp add: split_beta comp_def)

lemma abort_active_fields [simp]:
  "rl_active (abort_active s) = rl_active s" "rl_next (abort_active s) = rl_next s"
  "rl_isGenerating (abort_active s) = rl_isGenerating s"
  "map fst (rl_runs (abort_active s)) = map fst (rl_runs s)"
  "rl_runs (abort_active s) = [] \<longleftrightarrow> rl_runs s = []"
  by (simp_all add: abort_active_def fst_mapped split: option.split prod.split)

lemma alive_abort: "alive k (abort_active s) \<longleftrightarrow> alive k s \<and> rl_active s \<noteq> Some k"
  by (auto simp: alive_def abort_active_def map_of_mapped split: option.splits)

lemma alive_new_run:
  "list_all (\<lambda>k. k < rl_next s) (map fst (rl_runs s)) \<Longrightarrow>
   alive k (new_run t a s) \<longleftrightarrow> k = rl_next s \<or> alive k s"
  by (auto simp: alive_def new_run_def map_add_def map_of_fresh split: option.splits)

lemma alive_cong: "rl_runs s = rl_runs t \<Longrightarrow> alive k s = alive k t"
  by (simp add: alive_def)

lemma rail_ok_cong:
  "rl_runs s = rl_runs t \<Longrightarrow> rl_active s = rl_active t \<Longrightarrow> rl_next s = rl_next t \<Longrightarrow>
   rl_isGenerating s = rl_isGenerating t \<Longrightarrow> rail_ok s = rail_ok t"
  "rl_runs s = rl_runs t \<Longrightarrow> rl_active s = rl_active t \<Longrightarrow> one_live s = one_live t"
  by (simp_all add: rail_ok_def one_live_def alive_def split: option.split)

lemma alive_finally: "alive j (run_finally k s) \<longleftrightarrow> j \<noteq> k \<and> alive j s"
  by (auto simp: alive_def run_finally_def delete_conv')

lemma rail_ok_new_run:
  assumes "list_all (\<lambda>k. k < rl_next s) (map fst (rl_runs s))"
  shows "rail_ok (new_run t a s)"
proof -
  have "list_all (\<lambda>k. k < rl_next s + 1) (map fst (rl_runs s))"
    using assms by (auto simp: list_all_iff)
  then show ?thesis using alive_new_run[OF assms, of "rl_next s" t a]
    by (simp add: rail_ok_def) (simp add: new_run_def)
qed

lemma run_settle_split: "\<exists>s'. run_settle k r now res s = run_finally k s' \<and> rl_runs s' = rl_runs s \<and>
    rl_active s' = rl_active s \<and> rl_next s' = rl_next s \<and> rl_isGenerating s' = rl_isGenerating s"
  unfolding run_settle_def Let_def setGenerationError_def
  by (cases res; cases "projl res") auto

lemma rail_ok_finally: "rail_ok s \<Longrightarrow> rail_ok (run_finally k s)"
proof -
  assume ok: "rail_ok s"
  have "list_all (\<lambda>k. k < rl_next s) (map fst (AList.delete k (rl_runs s)))"
    using ok unfolding rail_ok_def delete_keys by (auto simp: list_all_iff)
  then show ?thesis using ok unfolding rail_ok_def alive_finally
    by (auto simp: run_finally_def split: option.splits)
qed

lemma finally_active: "rl_active (run_finally k s) = (if rl_active s = Some k then None else rl_active s)"
  by (simp add: run_finally_def)

lemma one_live_finally: "one_live s \<Longrightarrow> one_live (run_finally k s)"
  by (auto simp: one_live_def alive_finally finally_active)

lemma one_live_settle: "one_live s \<Longrightarrow> one_live (run_settle k r now res s)"
  using run_settle_split[of k r now res s] rail_ok_cong(2) one_live_finally by metis

lemma rail_ok_settle: "rail_ok s \<Longrightarrow> rail_ok (run_settle k r now res s)"
  using run_settle_split[of k r now res s] rail_ok_cong(1) rail_ok_finally by metis

lemma on_job_fields [simp]:
  "rl_runs (on_job now r job s) = rl_runs s" "rl_active (on_job now r job s) = rl_active s"
  "rl_next (on_job now r job s) = rl_next s" "rl_isGenerating (on_job now r job s) = rl_isGenerating s"
  by (simp_all add: on_job_def setSolverHud_def)

lemma check_fields [simp]:
  "rl_runs (snd (resume_check tid now s)) = rl_runs s" "rl_active (snd (resume_check tid now s)) = rl_active s"
  "rl_next (snd (resume_check tid now s)) = rl_next s"
  "rl_isGenerating (snd (resume_check tid now s)) = rl_isGenerating s"
  by (simp_all add: resume_check_def Let_def)

lemma begin_fields [simp]:
  "rl_runs (run_begin now s) = rl_runs (new_run (Some now) False (abort_active s))"
  "rl_active (run_begin now s) = Some (rl_next s)"
  "rl_next (run_begin now s) = rl_next s + 1" "rl_isGenerating (run_begin now s)"
  by (simp_all add: run_begin_def Let_def setSolverHud_def new_run_def)

lemma adopt_fields [simp]:
  "rl_runs (adopt hc job now s) = rl_runs (new_run (case nonempty (sj_startedAt job) of Some t \<Rightarrow> hc_parse hc t | None \<Rightarrow> Some now) True s)"
  "rl_active (adopt hc job now s) = Some (rl_next s)"
  "rl_next (adopt hc job now s) = rl_next s + 1" "rl_isGenerating (adopt hc job now s)"
  by (simp_all add: adopt_def Let_def setSolverHud_def new_run_def)

lemma new_run_fields [simp]:
  "rl_active (new_run t a s) = Some (rl_next s)" "rl_next (new_run t a s) = rl_next s + 1"
  "rl_isGenerating (new_run t a s) = rl_isGenerating s" "rl_runs (new_run t a s) \<noteq> []"
  by (simp_all add: new_run_def)

lemma rail_ok_started:
  assumes "rail_ok s" "rl_runs t = rl_runs (new_run b a s)" "rl_active t = Some (rl_next s)" "rl_next t = rl_next s + 1"
  shows "rail_ok t"
proof -
  have "list_all (\<lambda>k. k < rl_next s) (map fst (rl_runs s))" using assms(1) by (simp add: rail_ok_def)
  from rail_ok_new_run[OF this, of b a] show ?thesis
    using assms(2-) by (simp add: rail_ok_def alive_def)
qed

lemma rail_ok_abort: "rail_ok s \<Longrightarrow> rail_ok ((abort_active s)\<lparr>rl_active := None\<rparr>)"
  by (auto simp: rail_ok_def)

lemma rail_ok_step: "rail_step hc quiet s t \<Longrightarrow> rail_ok s \<Longrightarrow> rail_ok t"
proof (induction rule: rail_step.induct)
  case (Step_begin s now)
  show ?case by (rule rail_ok_started[OF rail_ok_abort[OF Step_begin], of _ "Some now" False])
    (simp_all add: new_run_def)
next
  case (Step_adopt jobs s job now)
  show ?case by (rule rail_ok_started[OF Step_adopt(3)]) simp_all
next
  case (Step_cancel s)
  then show ?case by (simp add: cancelGeneration_def rail_ok_abort)
qed (auto simp: rail_ok_settle setGenerationError_def setPendingPin_def
    elim!: rail_ok_cong(1)[THEN iffD1, rotated 4])

lemma one_live_step: "rail_step hc True s t \<Longrightarrow> rail_ok s \<Longrightarrow> one_live s \<Longrightarrow> one_live t"
proof (induction rule: rail_step.induct)
  case (Step_begin s now)
  have "list_all (\<lambda>k. k < rl_next (abort_active s)) (map fst (rl_runs (abort_active s)))"
    using Step_begin(1) by (simp add: rail_ok_def)
  from alive_new_run[OF this] show ?case
    using Step_begin(2) unfolding one_live_def
    by (auto simp: alive_abort alive_def[of _ "run_begin now s"] simp flip: alive_def)
next
  case (Step_adopt jobs s job now)
  have "list_all (\<lambda>k. k < rl_next s) (map fst (rl_runs s))" using Step_adopt(3) by (simp add: rail_ok_def)
  from alive_new_run[OF this] show ?case
    using Step_adopt unfolding one_live_def
    by (auto simp: alive_def[of _ "adopt hc job now s"] simp flip: alive_def)
next
  case (Step_cancel s)
  then show ?case by (auto simp: one_live_def cancelGeneration_def alive_abort
        alive_def[of _ "rl_active_update _ _"] simp flip: alive_def)
qed (auto simp: one_live_settle setGenerationError_def setPendingPin_def
    elim!: rail_ok_cong(2)[THEN iffD1, rotated 2])

lemma rail_ok_reach: "rail_reach hc quiet s \<Longrightarrow> rail_ok s"
proof (induction rule: rail_reach.induct)
  case (Reach_init store)
  then show ?case by (simp add: rail_ok_def initial_rail_def)
next
  case (Reach_step s t)
  then show ?case by (blast intro: rail_ok_step)
qed

lemma one_live_reach: "rail_reach hc True s \<Longrightarrow> one_live s"
proof (induction rule: rail_reach.induct)
  case (Reach_init store)
  then show ?case by (simp add: one_live_def alive_def initial_rail_def)
next
  case (Reach_step s t)
  then show ?case by (blast intro: one_live_step rail_ok_reach)
qed

text \<open>The entry points move along the steps.\<close>

lemma resolve_reach:
  "rail_reach hc quiet s \<Longrightarrow> rail_reach hc quiet (snd (resolveClosedWindows provided tid reply s))"
  by (auto simp: resolveClosedWindows_def intro: Reach_step Step_unknown split: option.split sum.split)

lemma solve_around_reach:
  assumes "rail_reach hc quiet (snd resolved)" "\<And>s. rail_reach hc quiet s \<Longrightarrow> rail_reach hc quiet (unknown s)"
  shows "rail_reach hc quiet (snd (solve_around sc now config previous resolved unknown))"
  using assms by (auto simp: solve_around_def runSolve_def intro: Reach_step Step_begin
      split: prod.split option.split)

lemma entry_points_reach:
  assumes "rail_reach hc quiet s"
  shows "rail_reach hc quiet (snd (generateSchedule sc now provided reply s))"
    and "rail_reach hc quiet (snd (reoptimizeSchedule sc now reply s))"
    and "rail_reach hc quiet (snd (pinAndResolve sc now pin reply s))"
proof -
  have pins: "rail_reach hc quiet s' \<Longrightarrow> rail_reach hc quiet (setPendingPin p s')" for s' p
    by (rule Reach_step[OF _ Step_pin])
  show "rail_reach hc quiet (snd (generateSchedule sc now provided reply s))"
    "rail_reach hc quiet (snd (reoptimizeSchedule sc now reply s))"
    "rail_reach hc quiet (snd (pinAndResolve sc now pin reply s))"
    using assms by (auto simp: generateSchedule_def reoptimizeSchedule_def pinAndResolve_def
        intro!: solve_around_reach resolve_reach pins split: option.split)
qed

section \<open>Court knowledge\<close>

definition occupied_at :: "bracket_tournament option \<Rightarrow> int \<Rightarrow> int \<Rightarrow> bool" where
  "occupied_at data court slot \<longleftrightarrow>
     (case data of None \<Rightarrow> False
      | Some d \<Rightarrow> list_ex (\<lambda>a. ba_court_id a = court \<and> ba_slot_id a \<le> slot \<and>
          slot < ba_slot_id a + ba_duration_slots a) (bt_assignments d))"

definition closed_at :: "solve_body \<Rightarrow> int \<Rightarrow> int \<Rightarrow> bool" where
  "closed_at body court slot \<longleftrightarrow>
     list_ex (\<lambda>w. case w of [c, a, b] \<Rightarrow> c = court \<and> a \<le> slot \<and> slot < b | _ \<Rightarrow> False)
       (or_else (sb_closedCourtWindows body) [])"

lemma bracket_windows_cover:
  "closed_at (solve_body_of sc config previous (bracketOccupiedWindows data)) c t = occupied_at data c t"
  by (cases data) (simp_all add: closed_at_def occupied_at_def solve_body_of_def bracketOccupiedWindows_def
      list_ex_iff)

lemma begin_alive: "rail_ok s \<Longrightarrow> alive (rl_next s) (run_begin now s)"
  using alive_new_run[of "abort_active s" "rl_next s" "Some now" False]
  by (simp add: rail_ok_def alive_cong[of "run_begin now s" "new_run (Some now) False (abort_active s)"])

lemma solve_around_known:
  assumes "truthy (so_tournamentId sc)" "rail_ok s"
  shows "case reply of
      Inl _ \<Rightarrow> solve_around sc now config previous (resolveClosedWindows None (so_tournamentId sc) reply s) u =
        (Stopped, u (setGenerationError (Some OCCUPANCY_UNKNOWN) s))
    | Inr data \<Rightarrow> \<exists>body t. solve_around sc now config previous
        (resolveClosedWindows None (so_tournamentId sc) reply s) u = (Submits body, t) \<and>
        alive (rl_next s) t \<and> (\<forall>court slot. closed_at body court slot = occupied_at data court slot)"
  using assms by (cases reply) (simp_all add: solve_around_def resolveClosedWindows_def runSolve_def bracket_windows_cover begin_alive)

section \<open>Properties\<close>

text \<open>What an entry point made of a read of the bracket: an unknown occupancy stops it before any
  solve begins, with the banner up; a known one reaches the solver cell by cell.\<close>

definition courts_known :: "rail \<Rightarrow> bracket_reply \<Rightarrow> entry \<times> rail \<Rightarrow> bool" where
  "courts_known s reply res \<longleftrightarrow>
     (case reply of
        Inl _ \<Rightarrow> fst res = Stopped \<and> rl_runs (snd res) = rl_runs s \<and>
          rl_generationError (snd res) = Some OCCUPANCY_UNKNOWN
      | Inr data \<Rightarrow>
          (case fst res of
             Submits body \<Rightarrow> alive (rl_next s) (snd res) \<and>
               (\<forall>court slot. closed_at body court slot = occupied_at data court slot)
           | _ \<Rightarrow> False))"

lemma courts_known_around:
  assumes "truthy (so_tournamentId sc)" "rail_ok s" "\<And>s. rl_runs (u s) = rl_runs s"
    "\<And>s. rl_generationError (u s) = rl_generationError s"
  shows "courts_known s reply (solve_around sc now config previous
    (resolveClosedWindows None (so_tournamentId sc) reply s) u)"
  using solve_around_known[OF assms(1,2), where reply = reply and now = now and config = config
      and previous = previous and u = u] assms(3,4)
  by (cases reply) (auto simp: courts_known_def setGenerationError_def)

lemma courts_known_cong: "rl_runs s = rl_runs s' \<Longrightarrow> rl_next s = rl_next s' \<Longrightarrow>
    courts_known s reply res = courts_known s' reply res"
  by (cases reply; cases "fst res") (simp_all add: courts_known_def)

text \<open>C39. No solve goes out without knowing what the bracket holds: in every state the rail can reach, in a
  workspace with a configuration and a schedule, generating, re-optimising and pinning a match alike read
  the bracket first; if that read fails, nothing is sent, no solve begins and the banner says that the
  occupancy is unknown; otherwise the request carries closed windows that cover a slot of a court exactly
  when an assignment of the bracket does, and the new solve is the one in flight, not aborted.\<close>

theorem solve_knows_the_courts:
  assumes "rail_reach hc quiet s" "truthy (so_tournamentId sc)"
    and "so_config sc = Some config" "so_schedule sc = Some sch"
  shows "courts_known s reply (generateSchedule sc now None reply s) \<and>
     courts_known s reply (reoptimizeSchedule sc now reply s) \<and>
     courts_known s reply (pinAndResolve sc now pin reply s)"
proof -
  let ?p = "setPendingPin (Some pin) s"
  have ok: "rail_ok s" by (rule rail_ok_reach[OF assms(1)])
  then have "rail_ok ?p" using rail_ok_cong(1)[of ?p s] unfolding setPendingPin_def by simp
  from courts_known_around[OF assms(2) this, where u = "setPendingPin None"]
    courts_known_around[OF assms(2) ok, where u = id]
  show ?thesis
    using assms(3,4) courts_known_cong[of s ?p]
    by (simp add: generateSchedule_def reoptimizeSchedule_def pinAndResolve_def setPendingPin_def)
qed

definition demo_scope :: solve_scope where
  "demo_scope = \<lparr>so_tournamentId = Some ''t'', so_config = Some [], so_players = [], so_matches = [],
     so_schedule = Some \<lparr>fs_assignments = [], fs_candidates = None, fs_activeCandidateIndex = None,
       fs_objectiveScore = JNull, fs_rest = []\<rparr>\<rparr>"

definition demo_bracket :: bracket_tournament where
  "demo_bracket = \<lparr>bt_participants = [], bt_events = [], bt_play_units = [],
     bt_assignments = [\<lparr>ba_play_unit_id = ''u'', ba_slot_id = 4, ba_court_id = 2, ba_duration_slots = 2,
       ba_actual_start_slot = None, ba_actual_end_slot = None\<rparr>], bt_results = []\<rparr>"

theorem solve_knows_the_courts_witness:
  "\<exists>body. fst (pinAndResolve demo_scope 0 \<lparr>pp_matchId = ''m'', pp_slotId = 1, pp_courtId = 2\<rparr>
      (Inr (Some demo_bracket)) (initial_rail INITIAL)) = Submits body \<and> closed_at body 2 5 \<and> \<not> closed_at body 2 6"
  using solve_knows_the_courts[OF Reach_init[where store = INITIAL], where sc = demo_scope and config = "[]" and now = 0
      and reply = "Inr (Some demo_bracket)"
      and pin = "\<lparr>pp_matchId = ''m'', pp_slotId = 1, pp_courtId = 2\<rparr>"]
  by (auto simp: demo_scope_def truthy_def courts_known_def occupied_at_def demo_bracket_def split: entry.splits)

text \<open>The console is busy only while a solve is in flight, the solve it would cancel is one in flight that is not
  aborted, and where no job is adopted while a solve runs it is the only such solve.\<close>

theorem busy_means_solving:
  assumes "rail_reach hc quiet s"
  shows "(rl_isGenerating s \<longrightarrow> rl_runs s \<noteq> []) \<and>
     (\<forall>k. rl_active s = Some k \<longrightarrow> alive k s) \<and>
     (quiet \<longrightarrow> (\<forall>k. alive k s \<longrightarrow> rl_active s = Some k))"
proof -
  have "quiet \<longrightarrow> one_live s" using one_live_reach[of hc s] assms by (cases quiet) simp_all
  then show ?thesis using rail_ok_reach[OF assms] unfolding rail_ok_def one_live_def
    by (auto split: option.splits)
qed

definition demo_clock_host :: host_clock where
  "demo_clock_host = \<lparr>hc_parse = (\<lambda>_. None), hc_minutes = (\<lambda>t. t), hc_today = (\<lambda>h m. h * 60 + m)\<rparr>"

lemma demo_begun: "rail_reach hc quiet (run_begin 0 (initial_rail INITIAL))"
  by (rule Reach_step[OF Reach_init Step_begin])

theorem busy_means_solving_witness:
  "rl_active (run_begin 0 (initial_rail INITIAL)) = Some 0 \<and> alive 0 (run_begin 0 (initial_rail INITIAL))"
  using busy_means_solving[OF demo_begun[of demo_clock_host True]] by (simp add: initial_rail_def)

section \<open>Where the rail falls short\<close>

text \<open>The end of an aborted solve says the console is idle while the solve that replaced it runs.\<close>

lemma aborted_end_hides_newer:
  "\<exists>s. rail_reach hc True s \<and> rl_active s = Some 1 \<and> alive 1 s \<and> \<not> rl_isGenerating s"
proof -
  let ?s = "run_begin 1 (run_begin 0 (initial_rail INITIAL))"
  let ?r = "\<lparr>sr_aborted = True, sr_startedAt = Some 0, sr_adopted = False\<rparr>"
  have run: "rl_runs ?s = [(0, ?r), (1, \<lparr>sr_aborted = False, sr_startedAt = Some 1, sr_adopted = False\<rparr>)]"
    by (simp add: run_begin_def Let_def setSolverHud_def new_run_def abort_active_def initial_rail_def)
  have "run_settle 0 ?r 2 (Inl AbortError) ?s = run_finally 0 ?s" by (simp add: run_settle_def)
  moreover have "rail_step hc True ?s (run_settle 0 ?r 2 (Inl AbortError) ?s)"
    by (rule Step_settle) (simp only: run map_of.simps fst_conv snd_conv fun_upd_same)
  ultimately have "rail_reach hc True (run_finally 0 ?s)"
    using Reach_step[OF Reach_step[OF demo_begun Step_begin]] by simp
  moreover have "alive 1 (run_finally 0 ?s)" unfolding alive_finally unfolding alive_def run by simp
  moreover have "rl_active (run_finally 0 ?s) = Some 1"
    by (simp add: finally_active initial_rail_def)
  moreover have "\<not> rl_isGenerating (run_finally 0 ?s)" by (simp add: run_finally_def)
  ultimately show ?thesis by blast
qed

text \<open>A job that ends between the cancel and the next turn of its poll is installed all the same.\<close>

lemma cancelled_solve_still_lands:
  "\<exists>s t sch. rail_reach hc True s \<and> rail_step hc True (cancelGeneration s) t \<and>
     rl_generationError t = None \<and> tn_schedule (rl_store t) = Some sch"
proof -
  let ?s = "run_begin 0 (initial_rail INITIAL)"
  let ?r = "\<lparr>sr_aborted = True, sr_startedAt = Some 0, sr_adopted = False\<rparr>"
  let ?sch = "\<lparr>fs_assignments = [], fs_candidates = None, fs_activeCandidateIndex = None,
       fs_objectiveScore = JNull, fs_rest = []\<rparr>"
  have run: "map_of (rl_runs (cancelGeneration ?s)) 0 = Some ?r" "rl_generationError (cancelGeneration ?s) = None"
    by (simp_all add: run_begin_def Let_def setSolverHud_def new_run_def cancelGeneration_def abort_active_def
        initial_rail_def)
  have "tn_schedule (rl_store (run_settle 0 ?r 1 (Inr ?sch) (cancelGeneration ?s))) = Some ?sch"
    "rl_generationError (run_settle 0 ?r 1 (Inr ?sch) (cancelGeneration ?s)) = None"
    using run(2) by (simp_all add: run_settle_def run_finally_def Let_def setSchedule_def)
  then show ?thesis using demo_begun Step_settle[where quiet = True, OF run(1)] by blast
qed

text \<open>No end of a solve clears the pin it was begun with.\<close>

lemma pin_outlives_its_solve: "rl_pendingPin (run_settle k r now result s) = rl_pendingPin s"
  by (simp add: run_settle_def run_finally_def Let_def setGenerationError_def split: sum.split rail_error.split)

end
