(* ===== verification/LiveOps.thy ===== *)
theory LiveOps
  imports SolveRail LiveTracking Roster
begin

text \<open>
  Live operations on a running meet: \<open>hooks/useLiveOperations.ts\<close> (which matches overran, whom an
  overrun hits, the edit of an actual time, the re-solve with frozen matches) and the meet writes of
  \<open>modules/operations/run/useMeetRunOps.ts\<close> and \<open>MeetMatchControls.tsx\<close> (substitution, removal, undo
  of a start, missing players). A slot that \<open>timeToSlot\<close> cannot give is \<open>NaN\<close> (\<open>None\<close>): no
  comparison with it holds.
\<close>

section \<open>Overruns and their impact\<close>

type_synonym state_dict = "(string, match_state_dto) dict"

text \<open>The slot of the recorded end, where the state holds one.\<close>

definition recorded_end :: "state_dict \<Rightarrow> string \<Rightarrow> string option" where
  "recorded_end matchStates i = nonempty (Option.bind (map_of matchStates i) ms_actualEndTime)"

definition scheduled_end :: "schedule_assignment \<Rightarrow> int" where
  "scheduled_end a = as_slotId a + as_durationSlots a"

definition end_slot :: "state_dict \<Rightarrow> tournament_config \<Rightarrow> schedule_assignment \<Rightarrow> int option" where
  "end_slot matchStates config a =
     (case recorded_end matchStates (as_matchId a) of
        Some t \<Rightarrow> timeToSlot t config
      | None \<Rightarrow> Some (scheduled_end a))"

definition overruns :: "state_dict \<Rightarrow> tournament_config \<Rightarrow> schedule_assignment \<Rightarrow> bool" where
  "overruns matchStates config a =
     (case recorded_end matchStates (as_matchId a) of
        None \<Rightarrow> False
      | Some t \<Rightarrow> (case timeToSlot t config of None \<Rightarrow> False | Some e \<Rightarrow> e > scheduled_end a))"

definition overrunMatches ::
  "schedule_dto option \<Rightarrow> tournament_config option \<Rightarrow> state_dict \<Rightarrow> schedule_assignment list" where
  "overrunMatches schedule config matchStates =
     (case (schedule, config) of
        (Some s, Some c) \<Rightarrow> filter (overruns matchStates c) (sc_assignments s)
      | _ \<Rightarrow> [])"

definition playerIdsOf :: "match_dto list \<Rightarrow> string \<Rightarrow> string list" where
  "playerIdsOf matches matchId =
     (case find (\<lambda>m. md_id m = matchId) matches of None \<Rightarrow> [] | Some m \<Rightarrow> getMatchPlayerIds m)"

definition starts_before :: "schedule_assignment \<Rightarrow> int option \<Rightarrow> bool" where
  "starts_before a e = (case e of None \<Rightarrow> False | Some x \<Rightarrow> as_slotId a < x)"

text \<open>The loop body both analyses share: another match, still scheduled, not before the end, with a
  player of this one.\<close>

definition hit_by :: "match_dto list \<Rightarrow> state_dict \<Rightarrow> string \<Rightarrow> int option \<Rightarrow> schedule_assignment \<Rightarrow> bool" where
  "hit_by matches matchStates matchId e a =
     (as_matchId a \<noteq> matchId \<and>
      (case map_of matchStates (as_matchId a) of None \<Rightarrow> True | Some st \<Rightarrow> ms_status st = MScheduled) \<and>
      \<not> starts_before a e \<and>
      list_ex (\<lambda>p. p \<in> set (playerIdsOf matches matchId)) (playerIdsOf matches (as_matchId a)))"

definition impacted_ids ::
  "match_dto list \<Rightarrow> state_dict \<Rightarrow> tournament_config \<Rightarrow> schedule_assignment list \<Rightarrow> schedule_assignment \<Rightarrow> string list" where
  "impacted_ids matches matchStates config assignments overrun =
     map as_matchId (filter (hit_by matches matchStates (as_matchId overrun) (end_slot matchStates config overrun))
       assignments)"

definition impactedMatches ::
  "match_dto list \<Rightarrow> schedule_dto option \<Rightarrow> tournament_config option \<Rightarrow> state_dict \<Rightarrow> schedule_assignment list" where
  "impactedMatches matches schedule config matchStates =
     (let over = overrunMatches schedule config matchStates
      in case (schedule, config) of
           (Some s, Some c) \<Rightarrow>
             (if over = [] then []
              else let impacted = fold (\<lambda>ov ids. ids @ impacted_ids matches matchStates c (sc_assignments s) ov) over []
                   in filter (\<lambda>a. as_matchId a \<in> set impacted) (sc_assignments s))
         | _ \<Rightarrow> [])"

datatype suggested_action = ActNone | ActWait | ActReoptimize | ActManualAdjust

record impact_analysis =
  ia_matchId :: string
  ia_matchNumber :: "int option"
  ia_overrunSlots :: "int option"
  ia_actualEndSlot :: "int option"
  ia_scheduledEndSlot :: int
  ia_directlyImpacted :: "string list"
  ia_cascadeImpacted :: "string list"
  ia_suggestedAction :: suggested_action

definition suggested :: "int option \<Rightarrow> string list \<Rightarrow> suggested_action" where
  "suggested overrunSlots directlyImpacted =
     (case overrunSlots of
        None \<Rightarrow> ActNone
      | Some n \<Rightarrow>
          if n > 0
          then (if length directlyImpacted = 0 then ActWait
                else if length directlyImpacted \<le> 2 then ActManualAdjust else ActReoptimize)
          else ActNone)"

definition analyzeImpact ::
  "match_dto list \<Rightarrow> schedule_dto option \<Rightarrow> tournament_config option \<Rightarrow> state_dict \<Rightarrow> string \<Rightarrow> impact_analysis option" where
  "analyzeImpact matches schedule config matchStates matchId =
     (case (schedule, config) of
        (Some s, Some c) \<Rightarrow>
          (case find (\<lambda>a. as_matchId a = matchId) (sc_assignments s) of
             None \<Rightarrow> None
           | Some a \<Rightarrow>
               (let actualEnd = end_slot matchStates c a;
                    overrun = map_option (\<lambda>e. max 0 (e - scheduled_end a)) actualEnd;
                    direct = impacted_ids matches matchStates c (sc_assignments s) a
                in Some \<lparr>ia_matchId = matchId,
                     ia_matchNumber = Option.bind (find (\<lambda>m. md_id m = matchId) matches) md_matchNumber,
                     ia_overrunSlots = overrun, ia_actualEndSlot = actualEnd,
                     ia_scheduledEndSlot = scheduled_end a, ia_directlyImpacted = direct,
                     ia_cascadeImpacted = [], ia_suggestedAction = suggested overrun direct\<rparr>))
      | _ \<Rightarrow> None)"

section \<open>Editing an actual time\<close>

datatype time_field = ActualStartTime | ActualEndTime

definition with_time :: "time_field \<Rightarrow> string \<Rightarrow> match_state_dto \<Rightarrow> match_state_dto" where
  "with_time field time st =
     (case field of
        ActualStartTime \<Rightarrow> st\<lparr>ms_actualStartTime := Some time\<rparr>
      | ActualEndTime \<Rightarrow> st\<lparr>ms_actualEndTime := Some time\<rparr>)"

definition updateActualTime ::
  "'w live_host \<Rightarrow> string \<Rightarrow> state_dict \<Rightarrow> string \<Rightarrow> time_field \<Rightarrow> string \<Rightarrow> 'w live \<Rightarrow> 'w live" where
  "updateActualTime host tid rendered matchId field time s =
     (let current = or_else (map_of rendered matchId) (bare_match_state matchId MScheduled);
          updated = with_time field time current;
          (version, s1) = resolve_version host tid matchId (on_store (setMatchState matchId updated) s)
      in case host_call (updateMatchState host tid matchId updated version) s1 of
           (Inr (state, newVersion), s2) \<Rightarrow>
             on_store (setMatchVersion matchId newVersion) (on_store (setMatchState matchId state) s2)
         | (Inl _, s2) \<Rightarrow> s2)"

section \<open>Re-solving a running day\<close>

record reopt =
  ro_isReoptimizing :: bool
  ro_reoptimizeError :: "string option"
  ro_store :: tournament_state

definition frozen :: "state_dict \<Rightarrow> schedule_assignment \<Rightarrow> bool" where
  "frozen matchStates a = (status_of matchStates (as_matchId a) \<in> {Some MStarted, Some MFinished})"

definition locked_previous :: "schedule_assignment \<Rightarrow> prev_assignment" where
  "locked_previous a = \<lparr>pv_matchId = as_matchId a, pv_slotId = as_slotId a, pv_courtId = as_courtId a,
     pv_durationSlots = None, pv_pinned = None, pv_locked = Some True\<rparr>"

text \<open>\<open>Math.max(undefined, 2)\<close> is \<open>NaN\<close>, which goes over the wire as \<open>null\<close>.\<close>

definition frozen_horizon :: "js_object \<Rightarrow> js_object" where
  "frozen_horizon config =
     AList.update ''freezeHorizonSlots''
       (case as_number (map_of config ''freezeHorizonSlots'') of Some n \<Rightarrow> JNum (max n 2) | None \<Rightarrow> JNull) config"

definition reoptimize_body ::
  "solve_scope \<Rightarrow> js_object \<Rightarrow> full_schedule \<Rightarrow> state_dict \<Rightarrow> bracket_reply \<Rightarrow> solve_body" where
  "reoptimize_body sc config sch matchStates reply =
     (let closed = (case reply of Inr data \<Rightarrow> bracketOccupiedWindows data | Inl _ \<Rightarrow> [])
      in solve_body_of sc (frozen_horizon config)
           (Some (map locked_previous (filter (frozen matchStates) (fs_assignments sch)))) closed)"

fun error_message :: "rail_error \<Rightarrow> string" where
  "error_message AbortError = ''Solve cancelled''"
| "error_message (RailError m) = m"

text \<open>The whole call over the read of the bracket and the end of the job: the body it sends, if any,
  and the state it leaves.\<close>

definition triggerReoptimize ::
  "solve_scope \<Rightarrow> state_dict \<Rightarrow> bracket_reply \<Rightarrow> rail_error + full_schedule \<Rightarrow> reopt \<Rightarrow> solve_body option \<times> reopt" where
  "triggerReoptimize sc matchStates reply result s =
     (case (so_config sc, so_schedule sc) of
        (Some config, Some sch) \<Rightarrow>
          (let s1 = s\<lparr>ro_isReoptimizing := True, ro_reoptimizeError := None\<rparr>;
               s2 = (case result of
                       Inr r \<Rightarrow> s1\<lparr>ro_store := setSchedule (Some r) (ro_store s1)\<rparr>
                     | Inl e \<Rightarrow> s1\<lparr>ro_reoptimizeError := Some (error_message e)\<rparr>)
           in (Some (reoptimize_body sc config sch matchStates reply), s2\<lparr>ro_isReoptimizing := False\<rparr>))
      | _ \<Rightarrow> (None, s))"

text \<open>\<open>getCurrentSlot\<close> of this hook reads the clock through its own text.\<close>

definition liveCurrentSlot :: "int \<Rightarrow> tournament_config option \<Rightarrow> int" where
  "liveCurrentSlot nowMinutes config =
     (case config of
        None \<Rightarrow> 0
      | Some c \<Rightarrow>
          (let timeStr = pad2 (nowMinutes div 60) @ '':'' @ pad2 (nowMinutes mod 60)
           in max 0 (or_else (timeToSlot timeStr c) 0)))"

section \<open>Roster edits during a match\<close>

definition side_ids :: "string \<Rightarrow> js_object \<Rightarrow> string list" where
  "side_ids key m = or_else (Option.bind (map_of m key) strings_of) []"

definition sides_patch :: "(string list \<Rightarrow> string list) \<Rightarrow> js_object \<Rightarrow> js_object" where
  "sides_patch f m = [(''sideA'', JArr (map JStr (f (side_ids ''sideA'' m)))),
     (''sideB'', JArr (map JStr (f (side_ids ''sideB'' m))))]"

text \<open>The callbacks read the matches of the render they were made in.\<close>

definition edit_sides ::
  "(string list \<Rightarrow> string list) \<Rightarrow> js_object list \<Rightarrow> string \<Rightarrow> tournament_state \<Rightarrow> tournament_state" where
  "edit_sides f matches matchId s =
     (case find (has_id matchId) matches of
        None \<Rightarrow> s
      | Some m \<Rightarrow> updateMatch matchId (sides_patch f m) s)"

definition substitutePlayer ::
  "js_object list \<Rightarrow> string \<Rightarrow> string \<Rightarrow> string \<Rightarrow> tournament_state \<Rightarrow> tournament_state" where
  "substitutePlayer matches matchId oldPlayerId newPlayerId =
     edit_sides (map (\<lambda>i. if i = oldPlayerId then newPlayerId else i)) matches matchId"

definition removePlayer :: "js_object list \<Rightarrow> string \<Rightarrow> string \<Rightarrow> tournament_state \<Rightarrow> tournament_state" where
  "removePlayer matches matchId playerId =
     edit_sides (filter (\<lambda>i. i \<noteq> playerId)) matches matchId"

text \<open>\<open>MeetMatchControls\<close>: the people of both sides, those not checked in, and who may step in.\<close>

definition allPlayerIds :: "js_object \<Rightarrow> string list" where
  "allPlayerIds m = side_ids ''sideA'' m @ side_ids ''sideB'' m"

definition missingPlayers :: "js_object \<Rightarrow> match_state_dto option \<Rightarrow> string list" where
  "missingPlayers m st =
     (let confirmations = or_else (Option.bind st ms_playerConfirmations) []
      in filter (\<lambda>i. map_of confirmations i \<noteq> Some True) (allPlayerIds m))"

definition subCandidates :: "js_object list \<Rightarrow> js_object \<Rightarrow> string list" where
  "subCandidates players m =
     map rp_id (map read_player
       (filter (\<lambda>p. rp_id (read_player p) \<notin> set (allPlayerIds m) \<and>
          map_of p ''status'' \<noteq> Some (JStr ''withdrawn'')) players))"

section \<open>Undoing a start\<close>

definition cleared :: "string \<Rightarrow> match_state_dto \<Rightarrow> match_state_dto" where
  "cleared matchId st = st\<lparr>ms_matchId := matchId, ms_originalSlotId := None, ms_originalCourtId := None\<rparr>"

text \<open>One turn of the loop: a match pushed off this court goes back, and its state forgets it.\<close>

definition shifted_from :: "state_dict \<Rightarrow> int \<Rightarrow> schedule_assignment \<Rightarrow> (int \<times> match_state_dto) option" where
  "shifted_from matchStates originalCourt a =
     (case map_of matchStates (as_matchId a) of
        None \<Rightarrow> None
      | Some st \<Rightarrow>
          (case ms_originalSlotId st of
             None \<Rightarrow> None
           | Some slot \<Rightarrow> if ms_originalCourtId st = Some originalCourt then Some (slot, st) else None))"

definition put_back :: "state_dict \<Rightarrow> int \<Rightarrow> schedule_assignment \<Rightarrow> schedule_assignment" where
  "put_back matchStates originalCourt a =
     (case shifted_from matchStates originalCourt a of
        None \<Rightarrow> a
      | Some (slot, _) \<Rightarrow> a\<lparr>as_slotId := slot, as_courtId := originalCourt\<rparr>)"

definition clear_shifted :: "state_dict \<Rightarrow> int \<Rightarrow> schedule_assignment \<Rightarrow> match_store \<Rightarrow> match_store" where
  "clear_shifted matchStates originalCourt a =
     (case shifted_from matchStates originalCourt a of
        None \<Rightarrow> id
      | Some (_, st) \<Rightarrow> setMatchState (as_matchId a) (cleared (as_matchId a) st))"

fun findIndexOf :: "string \<Rightarrow> schedule_assignment list \<Rightarrow> nat option" where
  "findIndexOf matchId [] = None"
| "findIndexOf matchId (a # as) =
     (if as_matchId a = matchId then Some 0 else map_option Suc (findIndexOf matchId as))"

definition undoStart ::
  "full_schedule option \<Rightarrow> state_dict \<Rightarrow> string \<Rightarrow> match_store \<times> tournament_state \<Rightarrow> match_store \<times> tournament_state" where
  "undoStart schedule matchStates matchId ms_ts =
     (case (schedule, map_of matchStates matchId) of
        (Some sch, Some st) \<Rightarrow>
          if ms_originalSlotId st = None \<and> ms_originalCourtId st = None then ms_ts
          else (case findIndexOf matchId (fs_assignments sch) of
                  None \<Rightarrow> ms_ts
                | Some idx \<Rightarrow>
                    (let current = fs_assignments sch ! idx;
                         originalSlot = or_else (ms_originalSlotId st) (as_slotId current);
                         originalCourt = or_else (ms_originalCourtId st) (as_courtId current);
                         others = take idx (fs_assignments sch) @ drop (Suc idx) (fs_assignments sch);
                         working = (map (put_back matchStates originalCourt) (fs_assignments sch))
                           [idx := current\<lparr>as_slotId := originalSlot, as_courtId := originalCourt\<rparr>];
                         store = fold (clear_shifted matchStates originalCourt) others (fst ms_ts)
                     in (setMatchState matchId (cleared matchId st) store,
                         setSchedule (Some (sch\<lparr>fs_assignments := working\<rparr>)) (snd ms_ts))))
      | _ \<Rightarrow> ms_ts)"

section \<open>Facts of the overruns\<close>

lemma fold_concat: "fold (\<lambda>x ys. ys @ f x) xs acc = acc @ concat (map f xs)"
  by (induction xs arbitrary: acc) simp_all

lemma find_own_assignment:
  "distinct (map as_matchId as) \<Longrightarrow> a \<in> set as \<Longrightarrow> find (\<lambda>b. as_matchId b = as_matchId a) as = Some a"
  by (induction as) (auto simp: rev_image_eqI)

lemma overrun_has_end:
  "overruns states c a \<Longrightarrow> \<exists>e. end_slot states c a = Some e \<and> e > scheduled_end a"
  by (auto simp: overruns_def end_slot_def split: option.splits)

lemma unreadable_never_overruns:
  assumes "\<forall>st \<in> snd ` set states. \<forall>t. ms_actualEndTime st = Some t \<longrightarrow> t = [] \<or> timeToMinutes t = None"
  shows "\<not> overruns states c a"
proof
  assume "overruns states c a"
  then obtain t e where t: "recorded_end states (as_matchId a) = Some t" "timeToSlot t c = Some e"
    by (auto simp: overruns_def split: option.splits)
  then obtain st where st: "map_of states (as_matchId a) = Some st" "ms_actualEndTime st = Some t" "t \<noteq> []"
    by (auto simp: recorded_end_def nonempty_def truthy_def split: if_splits option.splits Option.bind_splits)
  then have "st \<in> snd ` set states" by (force dest: map_of_SomeD)
  with assms st have "timeToMinutes t = None" by blast
  then show False using t(2) by (simp add: timeToSlot_def Let_def)
qed

lemma analyzeImpact_Some:
  assumes "analyzeImpact ms (Some s) (Some c) states i = Some r"
  obtains a where "find (\<lambda>a. as_matchId a = i) (sc_assignments s) = Some a"
    "ia_directlyImpacted r = impacted_ids ms states c (sc_assignments s) a"
    "ia_suggestedAction r = suggested (map_option (\<lambda>e. max 0 (e - scheduled_end a)) (end_slot states c a))
       (impacted_ids ms states c (sc_assignments s) a)"
  using assms by (cases "find (\<lambda>a. as_matchId a = i) (sc_assignments s)") (auto simp: analyzeImpact_def Let_def)

text \<open>The live tracker stamps ISO instants, so with its stamps no match is ever an overrun.\<close>

lemma iso_ends_never_overrun:
  assumes "\<forall>st \<in> snd ` set states. \<forall>t. ms_actualEndTime st = Some t \<longrightarrow> t = [] \<or> timeToMinutes t = None"
  shows "overrunMatches sched cfg states = []" "impactedMatches ms sched cfg states = []"
    "analyzeImpact ms sched cfg states i = Some r \<Longrightarrow> ia_suggestedAction r = ActNone"
proof -
  note never = unreadable_never_overruns[OF assms]
  show over: "overrunMatches sched cfg states = []"
    by (auto simp: overrunMatches_def never split: option.split)
  then show "impactedMatches ms sched cfg states = []"
    by (simp add: impactedMatches_def split: option.split)
  assume "analyzeImpact ms sched cfg states i = Some r"
  moreover obtain s c where "sched = Some s" "cfg = Some c"
    using calculation by (cases sched; cases cfg) (simp_all add: analyzeImpact_def)
  ultimately obtain a where r: "ia_suggestedAction r =
      suggested (map_option (\<lambda>e. max 0 (e - scheduled_end a)) (end_slot states c a))
         (impacted_ids ms states c (sc_assignments s) a)"
    using analyzeImpact_Some by metis
  show "ia_suggestedAction r = ActNone" using never[of c a] unfolding r
    by (auto simp: suggested_def overruns_def end_slot_def split: option.splits)
qed

section \<open>Facts of the edits\<close>

lemma side_ids_patch:
  "side_ids ''sideA'' (spread m (sides_patch f m)) = f (side_ids ''sideA'' m)"
  "side_ids ''sideB'' (spread m (sides_patch f m)) = f (side_ids ''sideB'' m)"
  by (simp_all add: side_ids_def sides_patch_def map_of_spread comp_def)

lemma find_has_id: "find (has_id i) ms = Some m \<Longrightarrow> has_id i m"
  by (induction ms) (auto split: if_splits)

lemma all_ids_substituted:
  "allPlayerIds (spread m (sides_patch f m)) = f (side_ids ''sideA'' m) @ f (side_ids ''sideB'' m)"
  by (simp add: allPlayerIds_def side_ids_patch)

lemma distinct_swap:
  assumes "distinct xs" "new \<notin> set xs"
  shows "distinct (map (\<lambda>i. if i = old then new else i) xs)"
  using assms by (auto simp: distinct_map inj_on_def)

lemma findIndexOf_Some:
  "findIndexOf i as = Some k \<Longrightarrow> k < length as \<and> as_matchId (as ! k) = i"
  by (induction as arbitrary: k) (auto split: if_splits)

lemma findIndexOf_None: "findIndexOf i as = None \<longleftrightarrow> i \<notin> as_matchId ` set as"
  by (induction as) auto

lemma put_back_id [simp]: "as_matchId (put_back st c a) = as_matchId a" "as_durationSlots (put_back st c a) = as_durationSlots a"
  by (simp_all add: put_back_def split: option.split prod.split)

lemma setMatchState_map: "map_of (st_matchStates (setMatchState i x s)) = (map_of (st_matchStates s))(i \<mapsto> x)"
  by (simp add: setMatchState_def dict.get_put)

text \<open>The two clocks of the console agree on the minute.\<close>

lemma live_clock_agrees:
  assumes "0 \<le> m" "m < 1440"
  shows "liveCurrentSlot m config = getCurrentSlot m config"
proof -
  have "pad2 (m div 60) @ '':'' @ pad2 (m mod 60) = minutesToTime m"
    using assms by (simp add: minutesToTime_def js_mod_def MIN_PER_DAY_def)
  then have "timeToMinutes (pad2 (m div 60) @ '':'' @ pad2 (m mod 60)) = Some m"
    using assms by (simp only: timeToMinutes_minutesToTime) (simp add: MIN_PER_DAY_def)
  then show ?thesis
    by (cases config) (simp_all add: liveCurrentSlot_def getCurrentSlot_def timeToSlot_def slot_of_minutes_def
        isOvernightSchedule_def Let_def)
qed

text \<open>A failed read of the bracket does not stop this re-solve: it is sent with every court open.\<close>

lemma blind_reoptimize_sends:
  assumes "so_config sc = Some config" "so_schedule sc = Some sch"
  shows "\<exists>body. fst (triggerReoptimize sc states (Inl ()) result s) = Some body \<and> \<not> closed_at body court slot"
  using assms by (simp add: triggerReoptimize_def Let_def reoptimize_body_def solve_body_of_def closed_at_def)

lemma reoptimize_locks_played:
  assumes "so_config sc = Some config" "so_schedule sc = Some sch" "a \<in> set (fs_assignments sch)"
    and "status_of states (as_matchId a) = Some MStarted \<or> status_of states (as_matchId a) = Some MFinished"
  shows "\<exists>body. fst (triggerReoptimize sc states reply result s) = Some body \<and>
     locked_previous a \<in> set (or_else (sb_previousAssignments body) [])"
  using assms by (auto simp: triggerReoptimize_def Let_def reoptimize_body_def solve_body_of_def frozen_def)

section \<open>Properties\<close>

lemma impacted_iff:
  "a \<in> set (impactedMatches ms (Some s) (Some c) states) \<longleftrightarrow> a \<in> set (sc_assignments s) \<and>
     (\<exists>ov \<in> set (overrunMatches (Some s) (Some c) states).
        as_matchId a \<in> set (impacted_ids ms states c (sc_assignments s) ov))"
  by (auto simp: impactedMatches_def Let_def fold_concat)

lemma overrun_analysis:
  assumes "distinct (map as_matchId (sc_assignments s))" "ov \<in> set (overrunMatches (Some s) (Some c) states)"
  obtains r where "analyzeImpact ms (Some s) (Some c) states (as_matchId ov) = Some r"
    "ia_directlyImpacted r = impacted_ids ms states c (sc_assignments s) ov"
    "ia_suggestedAction r = (if ia_directlyImpacted r = [] then ActWait
       else if length (ia_directlyImpacted r) \<le> 2 then ActManualAdjust else ActReoptimize)"
proof -
  have ov: "ov \<in> set (sc_assignments s)" "overruns states c ov"
    using assms(2) by (simp_all add: overrunMatches_def)
  obtain e where "end_slot states c ov = Some e" "e > scheduled_end ov"
    using overrun_has_end[OF ov(2)] by blast
  then show ?thesis using that find_own_assignment[OF assms(1) ov(1)]
    by (simp add: analyzeImpact_def Let_def suggested_def)
qed

text \<open>The list of impacted matches and the analysis of one match tell the same story: a match is listed exactly
  when the analysis of some overrun match names it, and that analysis suggests to act.\<close>

theorem impact_views_agree:
  assumes "distinct (map as_matchId (sc_assignments s))" "a \<in> set (sc_assignments s)"
  shows "a \<in> set (impactedMatches ms (Some s) (Some c) states) \<longleftrightarrow>
     (\<exists>ov \<in> set (overrunMatches (Some s) (Some c) states). \<exists>r.
        analyzeImpact ms (Some s) (Some c) states (as_matchId ov) = Some r \<and>
        as_matchId a \<in> set (ia_directlyImpacted r) \<and>
        ia_suggestedAction r = (if length (ia_directlyImpacted r) \<le> 2 then ActManualAdjust else ActReoptimize))"
proof -
  have "as_matchId a \<in> set (impacted_ids ms states c (sc_assignments s) ov) \<longleftrightarrow>
      (\<exists>r. analyzeImpact ms (Some s) (Some c) states (as_matchId ov) = Some r \<and>
        as_matchId a \<in> set (ia_directlyImpacted r) \<and>
        ia_suggestedAction r = (if length (ia_directlyImpacted r) \<le> 2 then ActManualAdjust else ActReoptimize))"
    if "ov \<in> set (overrunMatches (Some s) (Some c) states)" for ov
  proof -
    note ov = that
    obtain r where r: "analyzeImpact ms (Some s) (Some c) states (as_matchId ov) = Some r"
      "ia_directlyImpacted r = impacted_ids ms states c (sc_assignments s) ov"
      "ia_suggestedAction r = (if ia_directlyImpacted r = [] then ActWait
         else if length (ia_directlyImpacted r) \<le> 2 then ActManualAdjust else ActReoptimize)"
      by (rule overrun_analysis[OF assms(1) ov])
    then show ?thesis by (cases "ia_directlyImpacted r = []") auto
  qed
  then show ?thesis unfolding impacted_iff using assms(2) by blast
qed

definition late_day :: schedule_dto where
  "late_day = demo_schedule [\<lparr>as_matchId = ''a'', as_slotId = 0, as_courtId = 1, as_durationSlots = 1\<rparr>,
     \<lparr>as_matchId = ''b'', as_slotId = 2, as_courtId = 1, as_durationSlots = 1\<rparr>]"

definition late_states :: state_dict where
  "late_states = [(''a'', (bare_match_state ''a'' MFinished)\<lparr>ms_actualEndTime := Some ''23:01''\<rparr>)]"

lemma late_overrun: "timeToSlot ''23:01'' night_config = Some 2"
  by (simp add: timeToSlot_def timeToMinutes_digits day_start_def day_end_def night_config_def is_digit_def
      digit_val_def MIN_PER_DAY_def)

theorem impact_views_agree_witness:
  "\<exists>r. analyzeImpact demo_rest_matches (Some late_day) (Some night_config) late_states ''a'' = Some r \<and>
     ia_suggestedAction r = ActManualAdjust"
proof -
  let ?a = "\<lparr>as_matchId = ''a'', as_slotId = 0, as_courtId = 1, as_durationSlots = 1\<rparr>"
  let ?b = "\<lparr>as_matchId = ''b'', as_slotId = 2, as_courtId = 1, as_durationSlots = 1\<rparr>"
  have day: "sc_assignments late_day = [?a, ?b]" by (simp add: late_day_def demo_schedule_def)
  have ends: "recorded_end late_states ''a'' = Some ''23:01''" "recorded_end late_states ''b'' = None"
    by (simp_all add: recorded_end_def late_states_def nonempty_def truthy_def)
  have over: "overrunMatches (Some late_day) (Some night_config) late_states = [?a]"
    by (simp add: overrunMatches_def day overruns_def ends late_overrun scheduled_end_def)
  have hit: "hit_by demo_rest_matches late_states ''a'' (Some 2) ?b"
    by (simp add: hit_by_def late_states_def starts_before_def playerIdsOf_def demo_rest_matches_def demo_meet_def
        getMatchPlayerIds_def)
  then have "?b \<in> set (impactedMatches demo_rest_matches (Some late_day) (Some night_config) late_states)"
    by (simp add: impacted_iff over day impacted_ids_def end_slot_def ends late_overrun)
  moreover have "map_option ia_directlyImpacted (analyzeImpact demo_rest_matches (Some late_day) (Some night_config)
      late_states ''a'') = Some [''b'']"
    using hit by (simp add: analyzeImpact_def Let_def day impacted_ids_def end_slot_def ends late_overrun)
      (simp add: hit_by_def)
  ultimately show ?thesis
    using impact_views_agree[of late_day ?b demo_rest_matches night_config late_states] over
    by (auto simp: day)
qed

lemma has_id_spread: "map_of u ''id'' = None \<Longrightarrow> has_id i (spread x u) = has_id i x"
proof -
  assume "map_of u ''id'' = None"
  then have "map_of (rev u) ''id'' = None" by (simp add: map_of_eq_None_iff)
  then show ?thesis by (simp add: has_id_def map_of_spread map_add_def)
qed

lemma find_update_by_id:
  assumes "map_of u ''id'' = None"
  shows "find (has_id i) (update_by_id i u xs) = map_option (\<lambda>x. spread x u) (find (has_id i) xs)"
  by (induction xs) (simp_all add: update_by_id_def has_id_spread[OF assms])

lemma has_id_unique: "has_id i x \<Longrightarrow> has_id j x \<Longrightarrow> i = j"
  by (simp add: has_id_def)

lemma find_other_update:
  assumes "map_of u ''id'' = None" "j \<noteq> i"
  shows "find (has_id j) (update_by_id i u xs) = find (has_id j) xs"
  using assms(2) by (induction xs) (auto simp: update_by_id_def has_id_spread[OF assms(1)] dest: has_id_unique)

text \<open>A substitution by a candidate the panel offers keeps the sides at their sizes and everyone once: the old
  player is out, the new one in, the others stay, no other match changes, and the schedule is stale.\<close>

theorem substitution_keeps_lineup:
  assumes "find (has_id i) (tn_matches s) = Some m" "distinct (allPlayerIds m)"
    and "old \<in> set (allPlayerIds m)" "new \<in> set (subCandidates (tn_players s) m)"
    and "t = substitutePlayer (tn_matches s) i old new s"
  shows "(\<exists>m'. find (has_id i) (tn_matches t) = Some m' \<and> distinct (allPlayerIds m') \<and>
       set (allPlayerIds m') = insert new (set (allPlayerIds m) - {old}) \<and>
       length (side_ids ''sideA'' m') = length (side_ids ''sideA'' m) \<and>
       length (side_ids ''sideB'' m') = length (side_ids ''sideB'' m)) \<and>
     (\<forall>j. j \<noteq> i \<longrightarrow> find (has_id j) (tn_matches t) = find (has_id j) (tn_matches s)) \<and>
     tn_scheduleIsStale t"
proof -
  let ?f = "map (\<lambda>k. if k = old then new else k)"
  have no_id: "map_of (sides_patch ?f m) ''id'' = None" by (simp add: sides_patch_def)
  have t: "tn_matches t = update_by_id i (sides_patch ?f m) (tn_matches s)" "tn_scheduleIsStale t"
    using assms(1,5) by (simp_all add: substitutePlayer_def edit_sides_def updateMatch_def)
  have new: "new \<notin> set (allPlayerIds m)" using assms(4) by (auto simp: subCandidates_def)
  have ids: "allPlayerIds (spread m (sides_patch ?f m)) = ?f (allPlayerIds m)"
    by (simp only: all_ids_substituted) (simp add: allPlayerIds_def)
  have "set (?f (allPlayerIds m)) = insert new (set (allPlayerIds m) - {old})"
    using assms(3) by (auto simp: image_iff)
  then show ?thesis
    unfolding t(1) find_update_by_id[OF no_id] assms(1)
    using distinct_swap[OF assms(2) new] t(2) find_other_update[OF no_id] ids side_ids_patch[of m ?f] by simp
qed

definition court_side :: tournament_state where
  "court_side = INITIAL\<lparr>tn_players := [[(''id'', JStr ''p'')], [(''id'', JStr ''q'')], [(''id'', JStr ''r'')]],
     tn_matches := [[(''id'', JStr ''m''), (''sideA'', JArr [JStr ''p'']), (''sideB'', JArr [JStr ''q''])]]\<rparr>"

theorem substitution_keeps_lineup_witness:
  "\<exists>m'. find (has_id ''m'') (tn_matches (substitutePlayer (tn_matches court_side) ''m'' ''p'' ''r'' court_side)) = Some m' \<and>
     set (allPlayerIds m') = {''q'', ''r''}"
  using substitution_keeps_lineup[of "''m''" court_side _ "''p''" "''r''", OF _ _ _ _ refl]
  by (fastforce simp: court_side_def has_id_def allPlayerIds_def side_ids_def subCandidates_def read_player_def)

definition back_home :: "state_dict \<Rightarrow> int \<Rightarrow> schedule_assignment \<Rightarrow> schedule_assignment \<Rightarrow> bool" where
  "back_home states court a b \<longleftrightarrow> b = a \<or>
     (\<exists>st. map_of states (as_matchId a) = Some st \<and> ms_originalCourtId st = Some court \<and>
        ms_originalSlotId st = Some (as_slotId b) \<and> b = a\<lparr>as_slotId := as_slotId b, as_courtId := court\<rparr>)"

lemma put_back_home: "back_home states court a (put_back states court a)"
  by (auto simp: back_home_def put_back_def shifted_from_def split: option.splits)

lemma clear_shifted_other:
  "as_matchId a \<noteq> i \<Longrightarrow> map_of (st_matchStates (clear_shifted states court a s)) i = map_of (st_matchStates s) i"
  by (simp add: clear_shifted_def setMatchState_map split: option.split prod.split)

text \<open>An undone start puts the match back where its state says it came from; every other match stays,
  or goes back to its own origin on that court; and the state forgets the origin.\<close>

theorem undo_start_restores:
  assumes "schedule = Some sch" "map_of states i = Some st" "ms_originalSlotId st = Some slot"
    and "ms_originalCourtId st = Some court" "i \<in> as_matchId ` set (fs_assignments sch)"
    and "distinct (map as_matchId (fs_assignments sch))" "undoStart schedule states i (ms, ts) = (ms', ts')"
  shows "\<exists>sch'. tn_schedule ts' = Some sch' \<and>
     map as_matchId (fs_assignments sch') = map as_matchId (fs_assignments sch) \<and>
     (\<exists>b \<in> set (fs_assignments sch'). as_matchId b = i \<and> as_slotId b = slot \<and> as_courtId b = court) \<and>
     list_all2 (\<lambda>a b. as_matchId a = i \<or> back_home states court a b) (fs_assignments sch) (fs_assignments sch') \<and>
     map_of (st_matchStates ms') i = Some (cleared i st) \<and>
     undoStart (tn_schedule ts') (st_matchStates ms') i (ms', ts') = (ms', ts')"
proof -
  obtain k where k: "findIndexOf i (fs_assignments sch) = Some k"
    using assms(5) findIndexOf_None[of i "fs_assignments sch"] by fastforce
  note at = findIndexOf_Some[OF k]
  let ?as = "fs_assignments sch"
  let ?w = "(map (put_back states court) ?as)[k := (?as ! k)\<lparr>as_slotId := slot, as_courtId := court\<rparr>]"
  have res: "tn_schedule ts' = Some (sch\<lparr>fs_assignments := ?w\<rparr>)"
    "\<exists>s. ms' = setMatchState i (cleared i st) s"
    using assms(1-4,7) k by (auto simp: undoStart_def Let_def setSchedule_def)
  have ids: "map as_matchId ?w = map as_matchId ?as"
    by (rule nth_equalityI) (use at in \<open>auto simp: nth_list_update\<close>)
  have own: "?w ! k \<in> set ?w" "?w ! k = (?as ! k)\<lparr>as_slotId := slot, as_courtId := court\<rparr>"
    using at by (simp_all add: set_update_memI)
  have all: "list_all2 (\<lambda>a b. as_matchId a = i \<or> back_home states court a b) ?as ?w"
    by (rule list_all2_all_nthI) (use at in \<open>auto simp: nth_list_update put_back_home\<close>)
  have forgot: "map_of (st_matchStates ms') i = Some (cleared i st)"
    using res(2) by (auto simp: setMatchState_map)
  then have "undoStart (tn_schedule ts') (st_matchStates ms') i (ms', ts') = (ms', ts')"
    by (simp add: undoStart_def cleared_def split: option.split)
  then show ?thesis using res(1) ids own at all forgot
    by (intro exI[of _ "sch\<lparr>fs_assignments := ?w\<rparr>"] conjI bexI[of _ "?w ! k"]) simp_all
qed

end
