(* ===== verification/Spec2Isabelle.thy ===== *)
theory Spec2Isabelle
  imports RunActions BracketQueue ConstraintChecker LiveTracking SaveFunnel Workspace DenseView Roster DrawData
    Seeding DisplayBoard BracketBoard Availability SchedulePage EntrantFrame LiveOps
begin

text \<open>
  A verification library for ShuttleWorks, software that runs badminton tournaments: a console for the
  organisers (\<open>src/apps/console\<close>, TypeScript), a public site for the entrants (\<open>src/apps/entrant\<close>,
  TypeScript), an API server with the scheduling engine (\<open>src/apps/api\<close>, Python) and the contract they
  share (\<open>src/packages/shared-contract\<close>). The library models the decision logic of the TypeScript
  side: what the console believes about matches, courts and time, which writes it sends and how it
  settles their outcomes, how it saves the tournament document, and what the public site reads out of
  dates and links. Paths below are under \<open>src/apps/console/src\<close> unless they begin otherwise.

  \<^bold>\<open>How the parts interact.\<close> The server owns the truth about a match. The console polls it
  (\<open>hooks/useLiveTracking.ts\<close>), merges the snapshot into \<open>store/matchStateStore.ts\<close>, and shows it
  through adapters (\<open>opsBlock\<close>, \<open>runModel\<close>, \<open>boardPlacements\<close>, \<open>trafficLight\<close>). An operator's press goes
  one of two ways: through the run router (\<open>runActions\<close>) into the persistent command queues
  (\<open>lib/commandQueue.ts\<close>, \<open>lib/bracketCommandQueue.ts\<close>), or as a walk of versioned writes
  (\<open>useLiveTracking\<close>); both are optimistic and are corrected by the outcome. What was said to the
  operator is kept by the toasts, the alerts rail and the activity trail. The plan itself, the
  tournament document, lives in \<open>store/tournamentStore.ts\<close>, is replaced by committed proposals
  (\<open>hooks/useProposals.ts\<close>) and saved by one funnel (\<open>hooks/useTournamentState.ts\<close>).

  \<^bold>\<open>The theories.\<close>
  \<^item> \<open>Prelude\<close>: missing values, numbers with infinities, dictionaries (locale \<open>keyed_table\<close>),
    grouping, sorting with a comparator; the collections \<open>jsdict\<close> and \<open>jsorder\<close>.
  \<^item> \<open>JsText\<close>: the string operations of the language the sources use (trim, split, numerals, percent
    encoding, query parameters).
  \<^item> \<open>MatchMachine\<close>: the transition table of \<open>state-machines.json\<close>, the run machine over it
    (\<open>runMachine.ts\<close>), the client's copy with its shortest-path search (\<open>matchTransitions.ts\<close>), state words.
  \<^item> \<open>CourtOccupancy\<close> (\<open>courtOccupancy.ts\<close>): claims, disputes, and the sweep that finds planned clashes.
  \<^item> \<open>Dto\<close> (\<open>api/dto.ts\<close>), \<open>TimeSlots\<close> (\<open>lib/time.ts\<close>): wire records; clock times, slots, drift.
  \<^item> \<open>MatchIdentity\<close> (\<open>matchIdentity.ts\<close>, \<open>sides.ts\<close>, \<open>bracketLabels.ts\<close>, \<open>disciplineNames.ts\<close>): the labels
    of matches, sides and rounds.
  \<^item> \<open>OpsBlock\<close> (\<open>match.ts\<close>, \<open>opsBlock.ts\<close>): the meet and bracket adapters and the packing of blocks
    into lanes; \<open>BoardPlacements\<close> (\<open>boardPlacements.ts\<close>): chips and the court pushback; \<open>RunModel\<close>
    (\<open>runModel.ts\<close>): lanes, queue, the automatic pull, rest flags, summary; \<open>RunActions\<close>
    (\<open>runActions.ts\<close>): which seam call a press becomes.
  \<^item> \<open>CommandQueue\<close> (\<open>commandQueue.ts\<close>, \<open>submitCommand\<close> of \<open>api/client.ts\<close>) and \<open>BracketQueue\<close>
    (\<open>bracketCommandQueue.ts\<close>, \<open>useBracketResultQueue.ts\<close>): the two durable queues, each an
    interpretation of the locale \<open>command_store\<close>, with their flushes and interleavings.
  \<^item> \<open>MatchStateStore\<close> (\<open>matchStateStore.ts\<close>, \<open>mergeMatchStates.ts\<close>, \<open>useCommandQueue.ts\<close>): the store, the
    merge of a poll, one optimistic submit from press to outcome.
  \<^item> \<open>TrafficLight\<close> (\<open>trafficLight.ts\<close>, \<open>matchUtils.ts\<close>) and \<open>ConstraintChecker\<close>
    (\<open>constraintChecker.ts\<close>): may a match be called, does a schedule break a rule.
  \<^item> \<open>Notices\<close> (\<open>permissions.ts\<close>, \<open>useCanEdit.ts\<close>, \<open>uiStore.ts\<close>, \<open>alertModel.ts\<close>, \<open>alertStore.ts\<close>,
    \<open>useActivityLog.ts\<close>): the write gate, toasts, solver log, alerts rail, activity trail.
  \<^item> \<open>LiveTracking\<close> (\<open>useLiveTracking.ts\<close>, \<open>pollPolicy.ts\<close>, the match writes of \<open>api/client.ts\<close>): the walk
    of a press over the machine, scores, confirmations, polling, progress.
  \<^item> \<open>TournamentStore\<close> (\<open>tournamentStore.ts\<close>, the snapshot of \<open>useTournamentState.ts\<close>), \<open>Proposals\<close>
    (\<open>useProposals.ts\<close>), \<open>SaveFunnel\<close> (the rest of \<open>useTournamentState.ts\<close>).
  \<^item> \<open>SolveRail\<close> (\<open>runSolveJob\<close> and \<open>pollSolveJob\<close> of \<open>api/client.ts\<close>, \<open>useSchedule.ts\<close>,
    \<open>bracketOccupancy.ts\<close>): a solve from submit to schedule, the courts the bracket holds, several solves
    at once; \<open>LiveOps\<close> (\<open>useLiveOperations.ts\<close>, \<open>useMeetRunOps.ts\<close>, \<open>MeetMatchControls.tsx\<close>): overruns and
    whom they hit, the frozen re-solve, substitutions, the undo of a start.
  \<^item> \<open>Workspace\<close> (\<open>lifecycle.ts\<close>, \<open>moduleModel.ts\<close>, \<open>overviewPhase.ts\<close>, \<open>setupChecklist.ts\<close>,
    \<open>product-shell/types.ts\<close>, \<open>workspaceNav.ts\<close>): modules, phases, checklists, routes and the rail.
  \<^item> \<open>DenseView\<close> (\<open>denseData.ts\<close>, \<open>useDenseDataState.ts\<close>, \<open>useStableInventory.ts\<close>): the tables of the
    operator, their state in the address, saved views, the inventory held still under polling.
  \<^item> \<open>Roster\<close> (under \<open>modules/meet\<close>: \<open>positionGrid/helpers.ts\<close>, \<open>useRankAssignment.ts\<close>,
    \<open>useRankValidation.ts\<close>, \<open>validateMatch.ts\<close>; \<open>lib/doubles.ts\<close>): the positions of the lineup, who may
    take them, the seating, the issues of a match.
  \<^item> \<open>Pairing\<close> (under \<open>modules/bracket\<close>: \<open>rosterEvents.ts\<close>, \<open>pairingMutation.ts\<close>, \<open>eventUpsertPayload.ts\<close>
    and the handlers of the surfaces that write participants): who is entered in a draw, the pairing
    commands, several consoles writing one draw; \<open>Seeding\<close> (\<open>bwf.ts\<close>): where the seeds stand;
    \<open>DrawData\<close>: badges, locks, scores and times read out of the bracket the server sends.
  \<^item> \<open>DisplayBoard\<close> (\<open>lib/courtLayout.ts\<close>, \<open>lib/boardRotation.ts\<close>, \<open>modules/display\<close>): the venue board of a meet,
    its layout, slides, freshness and the row of every court; \<open>BracketBoard\<close> (\<open>bracketDisplayData.ts\<close>): the
    one of a bracket; \<open>Availability\<close> (\<open>availabilityWindows.ts\<close>): blocked and allowed windows of a day.
  \<^item> \<open>Calendar\<close>, \<open>EntrantForm\<close>, \<open>EntrantPhase\<close> (\<open>src/apps/entrant/app/lib\<close>, \<open>echo.ts\<close> and \<open>phase.ts\<close>):
    UTC dates, the form filled from a link, phases, deadlines, the calendar and its pages;
    \<open>EntrantGuards\<close> (\<open>nextTarget.ts\<close> and the files \<open>*.server.ts\<close>): where a form may send the browser, the
    form token and cookies, the read-only calls to the API, the cached sitemap; \<open>EntrantText\<close> (\<open>format.ts\<close>,
    \<open>money.ts\<close>, \<open>score.ts\<close>, \<open>side.ts\<close>, \<open>draws.types.ts\<close>, \<open>eventLabels.ts\<close>, \<open>person-ref.js\<close>): how instants, fees,
    scores, sides, events and rounds are worded; \<open>SchedulePage\<close> (\<open>routes/schedule.tsx\<close>,
    \<open>schedule.types.ts\<close>): filters and links of the public schedule, its loader, days and court queues;
    \<open>EntrantFrame\<close> (\<open>tournamentFrame.ts\<close>): tabs, phase action and trail of every page of a tournament.

  \<^bold>\<open>How code became definitions.\<close> A record of the source is a record, an enumeration a datatype, a
  \<open>Map\<close> or dictionary object an association list in insertion order, an optional field an option. A
  callback or handler is one function on the state it reads and writes. A service the code calls (the
  HTTP server, the browser's clock and random ids) is a record of functions threading a state of its
  own (\<open>submit_fn\<close>, \<open>command_server\<close>, \<open>live_host\<close>, \<open>replan_server\<close>, \<open>upsert_fn\<close>); what a property needs of it is a
  named hypothesis (\<open>decides\<close>, \<open>serves_match\<close>), with a concrete server in the witness. An \<open>await\<close> is a
  step boundary where another callback can run and matters: \<open>queue_step\<close>, \<open>session_step\<close>, \<open>rail_step\<close>, \<open>draw_step\<close> and
  \<open>sitemap_step\<close> are the step relations, and \<open>submit\<close> takes what others do to the queue at its await as a
  function (\<open>en_meanwhile\<close>); elsewhere a handler runs to its end.

  \<^bold>\<open>What the lemmas show.\<close> For each component: which invariant its operations keep (\<open>db_wf\<close>,
  \<open>toasts_wf\<close>, \<open>rail_wf\<close>, \<open>logs_wf\<close>, \<open>homed\<close>, \<open>lock_agrees\<close>, \<open>funnel_ok\<close>, \<open>table_wf\<close>, \<open>rail_ok\<close>, \<open>singles_held_once\<close>, \<open>seating_ok\<close>,
  \<open>entered_once\<close>, \<open>picker_ok\<close>), what each operation does on
  every branch, and that the sweeps, searches and packings agree with their declarative readings (a
  clash is found exactly when there is one, a path is a shortest one, blocks of one lane do not
  overlap). Across components: a press becomes at most one queue command and the queue settles it; a
  walk sends only legal writes whatever the server answers, and reaches its target when the server
  keeps the contract; a commit installs a whole plan or nothing; no edit is lost in a session of the
  save funnel but to a re-read after a refusal; no solve goes out without knowing the bracket's courts. The lemmas named as findings in the manifest evaluate the model where the code does
  not do what its comments say.

  \<^bold>\<open>Bounds and fuel.\<close> Loops are structural recursion or have a measure (\<open>bfs\<close>: queue length and
  unseen states). \<open>updateMatchStatus\<close> calls itself for the hops of a path and takes fuel; three levels
  are enough for every server (\<open>press_always_ends\<close>), because the hops of a path are reached in at most
  two. Slots, counts and versions are mathematical integers: the code keeps them far below the range in
  which a double is exact. \<open>Infinity\<close> is the type \<open>jsnum\<close>; \<open>NaN\<close> is \<open>None\<close> where it can occur. The
  percentage of \<open>progressStats\<close> is computed exactly, where the doubles of the code may fall on the
  other side of a half.

  \<^bold>\<open>Strings\<close> are byte strings (UTF-8); \<open>trim\<close> and \<open>\s\<close> know the ASCII white space only; lower case
  and collation of the host are parameters (\<open>text_host\<close>, the comparator of \<open>sortPanel\<close>). A regular
  expression is written out as a test on characters. Comparing the JSON text of two values is comparing
  the values, and the fingerprint of a document is the document.

  \<^bold>\<open>Not modelled.\<close> React components, hooks that only wire state to them, CSS and the design system
  (no decisions of their own); \<open>api/dto.generated.ts\<close> (generated); the transport part of
  \<open>api/client.ts\<close> (axios, downloads, authentication); the Python server and its engine, and the
  Python packages (another language); the tooling under \<open>src/.github\<close> (not part of the product);
  locale formatting of dates and numbers. Of \<open>useLiveTracking.ts\<close>, the export and import of a file;
  of \<open>uiStore.ts\<close>, the plain setters; of \<open>lib/time.ts\<close>, the display helpers.
\<close>

end
